(* ===== verification/Chief_Prelude.thy ===== *)
theory Chief_Prelude
  imports Main "HOL-Library.Char_ord" "HOL-Library.List_Lexorder" "HOL-Library.Product_Lexorder"
begin

text \<open>
  What the component theories share: Rust's machine arithmetic on bounded integers written
  out over \<open>int\<close> and \<open>nat\<close>, Rust's UTF-8 strings as byte lists, \<open>BTreeMap\<close> as a
  key-sorted association list, decimal rendering, and the interfaces (locales) that several
  components meet: a keyed store, a textual codec, a step machine with an invariant, and a step
  machine that only moves forward in some order.
\<close>

named_theorems store_simps \<open>lookup laws of the keyed stores\<close>
named_theorems rust_simps \<open>unfolding rules for Rust's arithmetic and string helpers\<close>

section \<open>Bounded integers\<close>

text \<open>
  An \<open>i64\<close> is an \<open>int\<close>, a \<open>u32\<close>, \<open>u64\<close> or \<open>usize\<close> is a \<open>nat\<close>; the
  saturating operations of the source clamp at the width.
\<close>

definition i64_max :: int where "i64_max = 2 ^ 63 - 1"
definition i64_min :: int where "i64_min = - (2 ^ 63)"
definition u32_max :: nat where "u32_max = 2 ^ 32 - 1"
definition u64_max :: nat where "u64_max = 2 ^ 64 - 1"

definition clamp_i64 :: "int \<Rightarrow> int" where
  "clamp_i64 x = (if x < i64_min then i64_min else if i64_max < x then i64_max else x)"

definition sat_sub_i64 :: "int \<Rightarrow> int \<Rightarrow> int" where
  "sat_sub_i64 a b = clamp_i64 (a - b)"

definition sat_add_i64 :: "int \<Rightarrow> int \<Rightarrow> int" where
  "sat_add_i64 a b = clamp_i64 (a + b)"

definition sat_add_u32 :: "nat \<Rightarrow> nat \<Rightarrow> nat" where
  "sat_add_u32 a b = min (a + b) u32_max"

definition sat_add_u64 :: "nat \<Rightarrow> nat \<Rightarrow> nat" where
  "sat_add_u64 a b = min (a + b) u64_max"

lemmas i64_defs [rust_simps] =
  i64_max_def i64_min_def clamp_i64_def sat_sub_i64_def sat_add_i64_def

lemmas u32_defs [rust_simps] = u32_max_def sat_add_u32_def

lemma sat_sub_i64_lt_iff:
  assumes "i64_min < k" "k \<le> i64_max"
  shows "sat_sub_i64 a b < k \<longleftrightarrow> a - b < k"
  using assms by (auto simp: rust_simps)

lemma sat_sub_i64_le_iff:
  assumes "i64_min \<le> k" "k < i64_max"
  shows "sat_sub_i64 a b \<le> k \<longleftrightarrow> a - b \<le> k"
  using assms by (auto simp: rust_simps)

section \<open>Results\<close>

text \<open>
  Rust's \<open>Result<T, E>\<close> is \<open>'e + 'a\<close>, \<open>Inl\<close> for \<open>Err\<close>. \<open>res_bind r f\<close> is \<open>f(r?)\<close>.
\<close>

fun res_bind :: "'e + 'a \<Rightarrow> ('a \<Rightarrow> 'e + 'b) \<Rightarrow> 'e + 'b" where
  "res_bind (Inl e) f = Inl e"
| "res_bind (Inr a) f = f a"

fun map_err :: "('e \<Rightarrow> 'f) \<Rightarrow> 'e + 'a \<Rightarrow> 'f + 'a" where
  "map_err f (Inl e) = Inl (f e)"
| "map_err f (Inr a) = Inr a"

lemma map_err_Inr_iff [simp]: "map_err f r = Inr a \<longleftrightarrow> r = Inr a"
  by (cases r) auto

lemma res_bind_Inr_iff: "res_bind r f = Inr b \<longleftrightarrow> (\<exists>a. r = Inr a \<and> f a = Inr b)"
  by (cases r) auto

lemma if_Inl_iff: "(if c then Inl e else r) = Inr a \<longleftrightarrow> \<not> c \<and> r = Inr a"
  by simp

lemma res_bind_Inl_iff: "res_bind r f = Inl e \<longleftrightarrow> r = Inl e \<or> (\<exists>a. r = Inr a \<and> f a = Inl e)"
  by (cases r) auto

text \<open>A \<open>for\<close> loop whose body may return early with an error.\<close>

fun res_fold :: "('s \<Rightarrow> 'a \<Rightarrow> 'e + 's) \<Rightarrow> 's \<Rightarrow> 'a list \<Rightarrow> 'e + 's" where
  "res_fold f s [] = Inr s"
| "res_fold f s (x # xs) = res_bind (f s x) (\<lambda>s'. res_fold f s' xs)"

lemma res_fold_append: "res_fold f s (xs @ ys) = res_bind (res_fold f s xs) (\<lambda>s'. res_fold f s' ys)"
proof (induction xs arbitrary: s)
  case (Cons x xs)
  then show ?case by (cases "f s x") simp_all
qed simp

lemma res_fold_inv:
  assumes "res_fold f s xs = Inr s'" "P s" "\<And>s x s'. x \<in> set xs \<Longrightarrow> P s \<Longrightarrow> f s x = Inr s' \<Longrightarrow> P s'"
  shows "P s'"
  using assms
proof (induction xs arbitrary: s)
  case (Cons x xs)
  then obtain s1 where "f s x = Inr s1" "res_fold f s1 xs = Inr s'"
    by (auto simp: res_bind_Inr_iff)
  with Cons show ?case by (metis list.set_intros)
qed simp

section \<open>UTF-8 strings\<close>

text \<open>
  A Rust \<open>String\<close> is its UTF-8 bytes, so a HOL \<open>string\<close> with one \<open>char\<close> per byte:
  \<open>len\<close> is \<open>length\<close>, \<open>Ord\<close> is the lexicographic order of the bytes. The functions that
  look at characters (\<open>chars().count()\<close>, \<open>chars().take(n)\<close>, \<open>trim\<close>) decode the bytes.
\<close>

definition is_continuation :: "char \<Rightarrow> bool" where
  "is_continuation c \<longleftrightarrow> (128 \<le> (of_char c :: nat) \<and> (of_char c :: nat) < 192)"

definition char_count :: "string \<Rightarrow> nat" where
  "char_count s = length (filter (\<lambda>c. \<not> is_continuation c) s)"

fun take_chars :: "nat \<Rightarrow> string \<Rightarrow> string" where
  "take_chars n [] = []"
| "take_chars n (c # cs) =
     (if is_continuation c then c # take_chars n cs
      else case n of 0 \<Rightarrow> [] | Suc m \<Rightarrow> c # take_chars m cs)"

text \<open>
  \<open>white_len s\<close> is the byte length of the Unicode \<open>White_Space\<close> character \<open>s\<close> starts with, 0
  if there is none: U+0009 to U+000D, U+0020, U+0085, U+00A0, U+1680, U+2000 to U+200A, U+2028,
  U+2029, U+202F, U+205F and U+3000, in their UTF-8 spelling.
\<close>

definition byte :: "char \<Rightarrow> nat" where "byte c = of_char c"

definition white2 :: "nat \<Rightarrow> nat \<Rightarrow> bool" where
  "white2 a b \<longleftrightarrow> a = 0xC2 \<and> (b = 0x85 \<or> b = 0xA0)"

definition white3 :: "nat \<Rightarrow> nat \<Rightarrow> nat \<Rightarrow> bool" where
  "white3 a b c \<longleftrightarrow>
     (a = 0xE1 \<and> b = 0x9A \<and> c = 0x80)
   \<or> (a = 0xE2 \<and> b = 0x80 \<and> (0x80 \<le> c \<and> c \<le> 0x8A \<or> c = 0xA8 \<or> c = 0xA9 \<or> c = 0xAF))
   \<or> (a = 0xE2 \<and> b = 0x81 \<and> c = 0x9F)
   \<or> (a = 0xE3 \<and> b = 0x80 \<and> c = 0x80)"

fun white_len :: "string \<Rightarrow> nat" where
  "white_len [] = 0"
| "white_len (c # cs) =
     (if 9 \<le> byte c \<and> byte c \<le> 13 \<or> byte c = 32 then 1
      else case cs of
        [] \<Rightarrow> 0
      | d # ds \<Rightarrow>
          if white2 (byte c) (byte d) then 2
          else case ds of
            [] \<Rightarrow> 0
          | e # _ \<Rightarrow> if white3 (byte c) (byte d) (byte e) then 3 else 0)"

text \<open>The same test at the end of a string, on the reversed bytes.\<close>

fun white_len_back :: "string \<Rightarrow> nat" where
  "white_len_back [] = 0"
| "white_len_back (c # cs) =
     (if 9 \<le> byte c \<and> byte c \<le> 13 \<or> byte c = 32 then 1
      else case cs of
        [] \<Rightarrow> 0
      | d # ds \<Rightarrow>
          if white2 (byte d) (byte c) then 2
          else case ds of
            [] \<Rightarrow> 0
          | e # _ \<Rightarrow> if white3 (byte e) (byte d) (byte c) then 3 else 0)"

function trim_start :: "string \<Rightarrow> string" where
  "trim_start s = (if white_len s = 0 then s else trim_start (drop (white_len s) s))"
  by pat_completeness auto
termination
proof (relation "measure length")
  fix s :: string assume "white_len s \<noteq> 0"
  then show "(drop (white_len s) s, s) \<in> measure length" by (cases s) auto
qed simp

function trim_rev :: "string \<Rightarrow> string" where
  "trim_rev s = (if white_len_back s = 0 then s else trim_rev (drop (white_len_back s) s))"
  by pat_completeness auto
termination
proof (relation "measure length")
  fix s :: string assume "white_len_back s \<noteq> 0"
  then show "(drop (white_len_back s) s, s) \<in> measure length" by (cases s) auto
qed simp

declare trim_start.simps [simp del] trim_rev.simps [simp del]

definition trim :: "string \<Rightarrow> string" where
  "trim s = rev (trim_rev (rev (trim_start s)))"

definition starts_with :: "string \<Rightarrow> string \<Rightarrow> bool" where
  "starts_with s p \<longleftrightarrow> take (length p) s = p"

definition ends_with :: "string \<Rightarrow> string \<Rightarrow> bool" where
  "ends_with s p \<longleftrightarrow> starts_with (rev s) (rev p)"

text \<open>\<open>split(c)\<close>: the segments between the separators, the empty ones included.\<close>

fun split_on :: "char \<Rightarrow> string \<Rightarrow> string list" where
  "split_on sep [] = [[]]"
| "split_on sep (c # cs) =
     (if c = sep then [] # split_on sep cs
      else case split_on sep cs of seg # segs \<Rightarrow> (c # seg) # segs | [] \<Rightarrow> [[c]])"

text \<open>A value between single quotes, as the messages print it.\<close>

definition quoted :: "string \<Rightarrow> string" where
  "quoted s = CHR 0x27 # s @ [CHR 0x27]"

definition strip_prefix :: "string \<Rightarrow> string \<Rightarrow> string option" where
  "strip_prefix s p = (if starts_with s p then Some (drop (length p) s) else None)"

lemma starts_with_append [simp]: "starts_with (p @ s) p"
  by (simp add: starts_with_def)

lemma starts_with_iff: "starts_with s p \<longleftrightarrow> (\<exists>r. s = p @ r)"
  unfolding starts_with_def by (metis append_eq_conv_conj append_take_drop_id)

lemma ends_with_iff: "ends_with s p \<longleftrightarrow> (\<exists>r. s = r @ p)"
proof -
  have "ends_with s p \<longleftrightarrow> (\<exists>r. rev s = rev p @ r)"
    by (simp add: ends_with_def starts_with_iff)
  also have "\<dots> \<longleftrightarrow> (\<exists>r. s = r @ p)"
    by (metis rev_append rev_rev_ident)
  finally show ?thesis .
qed

lemma strip_prefix_append [simp]: "strip_prefix (p @ s) p = Some s"
  by (simp add: strip_prefix_def)

lemma strip_prefix_Some_iff: "strip_prefix s p = Some r \<longleftrightarrow> s = p @ r"
  by (auto simp: strip_prefix_def starts_with_iff)

lemma char_count_le_length: "char_count s \<le> length s"
  by (simp add: char_count_def)

lemma char_count_take_chars: "char_count (take_chars n s) \<le> n"
  by (induction n s rule: take_chars.induct) (auto simp: char_count_def split: nat.splits)

lemma take_chars_all: "char_count s \<le> n \<Longrightarrow> take_chars n s = s"
  by (induction n s rule: take_chars.induct)
    (auto simp: char_count_def split: nat.splits if_splits)

subsection \<open>Trimming\<close>

lemma white_len_trim_start [simp]: "white_len (trim_start s) = 0"
  by (induction s rule: trim_start.induct) (simp add: trim_start.simps)

lemma white_len_back_trim_rev [simp]: "white_len_back (trim_rev s) = 0"
  by (induction s rule: trim_rev.induct) (simp add: trim_rev.simps)

lemma trim_start_id: "white_len s = 0 \<Longrightarrow> trim_start s = s"
  by (simp add: trim_start.simps)

lemma trim_rev_id: "white_len_back s = 0 \<Longrightarrow> trim_rev s = s"
  by (simp add: trim_rev.simps)

lemma trim_rev_suffix: "\<exists>k. trim_rev s = drop k s"
proof (induction s rule: trim_rev.induct)
  case (1 s)
  show ?case
  proof (cases "white_len_back s = 0")
    case True
    then show ?thesis by (metis drop0 trim_rev_id)
  next
    case False
    then obtain k where "trim_rev (drop (white_len_back s) s) = drop k (drop (white_len_back s) s)"
      using 1 by blast
    with False show ?thesis by (auto simp: trim_rev.simps[of s])
  qed
qed

lemma white_len_prefix: "white_len (p @ r) = 0 \<Longrightarrow> white_len p = 0"
proof (induction p rule: white_len.induct)
  case (2 c cs)
  then show ?case by (auto split: list.splits if_splits simp: neq_Nil_conv)
qed simp

lemma trim_prefix: "\<exists>r. trim_start s = trim s @ r"
proof -
  obtain k where "trim_rev (rev (trim_start s)) = drop k (rev (trim_start s))"
    using trim_rev_suffix by blast
  then show ?thesis
    unfolding trim_def by (metis append_take_drop_id rev_append rev_rev_ident)
qed

lemma trim_idem [simp]: "trim (trim s) = trim s"
proof -
  obtain r where r: "trim_start s = trim s @ r" using trim_prefix by blast
  then have "white_len (trim s) = 0" by (metis white_len_prefix white_len_trim_start)
  then have "trim_start (trim s) = trim s" by (rule trim_start_id)
  moreover have "trim_rev (rev (trim s)) = rev (trim s)"
    by (rule trim_rev_id) (simp add: trim_def)
  ultimately show ?thesis by (simp add: trim_def[of "trim s"])
qed

lemma trim_Nil [simp]: "trim [] = []"
  by (simp add: trim_def trim_start_id trim_rev_id)

text \<open>Trimming empties a string only if it is white space from the front on.\<close>

lemma white_chunk: "white_len_back s \<noteq> 0 \<Longrightarrow> drop (white_len_back s) s = [] \<Longrightarrow> white_len (rev s) \<noteq> 0"
  by (cases s rule: white_len_back.cases)
    (auto simp: white2_def white3_def split: list.splits if_splits)

lemma trim_rev_Nil: "trim_rev s = [] \<Longrightarrow> s \<noteq> [] \<Longrightarrow> white_len (rev s) \<noteq> 0"
proof (induction s rule: trim_rev.induct)
  case (1 s)
  let ?k = "white_len_back s"
  have k: "?k \<noteq> 0" using 1(2,3) by (metis trim_rev_id)
  then have d: "trim_rev (drop ?k s) = []" using 1(2) by (simp add: trim_rev.simps[of s])
  show ?case
  proof (cases "drop ?k s = []")
    case False
    then have "white_len (rev (drop ?k s)) \<noteq> 0" using 1(1)[OF k d] by blast
    moreover have "rev s = rev (drop ?k s) @ rev (take ?k s)" by (metis append_take_drop_id rev_append)
    ultimately show ?thesis by (metis white_len_prefix)
  qed (rule white_chunk[OF k])
qed

lemma trim_Nil_iff: "trim s = [] \<longleftrightarrow> trim_start s = []"
proof
  assume "trim s = []"
  then have "trim_rev (rev (trim_start s)) = []" by (simp add: trim_def)
  then show "trim_start s = []" using trim_rev_Nil[of "rev (trim_start s)"] by force
qed (simp add: trim_def trim_rev_id)

lemma white_len_space: "r \<noteq> [] \<Longrightarrow> white_len (r @ CHR '' '' # y) = white_len r"
  by (cases r; cases "tl r"; cases "tl (tl r)") (auto simp: white2_def white3_def byte_def split: list.splits)

lemma trim_start_space: "trim_start (r @ CHR '' '' # y) = [] \<Longrightarrow> trim_start r = []"
proof (induction r rule: trim_start.induct)
  case (1 r)
  show ?case
  proof (cases "r = []")
    case False
    then have w: "white_len (r @ CHR '' '' # y) = white_len r" by (rule white_len_space)
    show ?thesis
    proof (cases "white_len r = 0")
      case True
      then show ?thesis using 1(2) w by (simp add: trim_start_id)
    next
      case nz: False
      have "white_len r \<le> length r" by (cases r rule: white_len.cases) (auto split: list.splits)
      then have "trim_start (drop (white_len r) r @ CHR '' '' # y) = []"
        using 1(2) nz w by (simp add: trim_start.simps[of "r @ CHR '' '' # y"])
      then show ?thesis using 1(1)[OF nz] nz by (simp add: trim_start.simps[of r])
    qed
  qed (simp add: trim_start_id)
qed

lemma take_chars_prefix: "\<exists>r. s = take_chars n s @ r"
  by (induction n s rule: take_chars.induct) (auto split: nat.splits)

lemma trim_take_chars: "0 < n \<Longrightarrow> trim s \<noteq> [] \<Longrightarrow> trim (take_chars n (trim s)) \<noteq> []"
proof -
  assume n: "0 < n" and s: "trim s \<noteq> []"
  obtain r where r: "trim s = take_chars n (trim s) @ r" using take_chars_prefix by blast
  have "white_len (trim s) = 0" using trim_prefix[of s] by (metis white_len_prefix white_len_trim_start)
  then have "white_len (take_chars n (trim s)) = 0" using r by (metis white_len_prefix)
  then have "trim_start (take_chars n (trim s)) = take_chars n (trim s)" by (rule trim_start_id)
  moreover have "take_chars n (trim s) \<noteq> []" using n s by (cases "trim s"; cases n) auto
  ultimately show ?thesis by (simp add: trim_Nil_iff)
qed

section \<open>Decimal rendering\<close>

definition digit_char :: "nat \<Rightarrow> char" where
  "digit_char d = char_of (48 + d)"

fun show_nat :: "nat \<Rightarrow> string" where
  "show_nat n = (if n < 10 then [digit_char n] else show_nat (n div 10) @ [digit_char (n mod 10)])"

declare show_nat.simps [simp del]

definition show_int :: "int \<Rightarrow> string" where
  "show_int i = (if i < 0 then CHR ''-'' # show_nat (nat (- i)) else show_nat (nat i))"

text \<open>Rust's \<open>{:0w}\<close>: sign first, then zeros up to the width.\<close>

definition pad_int :: "nat \<Rightarrow> int \<Rightarrow> string" where
  "pad_int w i =
     (let body = show_nat (nat \<bar>i\<bar>); sign = (if i < 0 then ''-'' else '''')
      in sign @ replicate (w - (length sign + length body)) (CHR ''0'') @ body)"

section \<open>Key-sorted maps\<close>

text \<open>
  A \<open>BTreeMap\<close> iterates in key order, and the ledgers' order of iteration is visible (the wake scan,
  the sequence sweep). So it is the association list of its entries in key order.
\<close>

type_synonym ('k, 'v) omap = "('k \<times> 'v) list"

definition om_get :: "('k, 'v) omap \<Rightarrow> 'k \<Rightarrow> 'v option" where
  "om_get m k = map_of m k"

fun om_put :: "'k::linorder \<Rightarrow> 'v \<Rightarrow> ('k, 'v) omap \<Rightarrow> ('k, 'v) omap" where
  "om_put k v [] = [(k, v)]"
| "om_put k v (e # m) =
     (if k < fst e then (k, v) # e # m
      else if k = fst e then (k, v) # m
      else e # om_put k v m)"

definition om_del :: "'k \<Rightarrow> ('k, 'v) omap \<Rightarrow> ('k, 'v) omap" where
  "om_del k m = filter (\<lambda>e. fst e \<noteq> k) m"

definition om_keys :: "('k, 'v) omap \<Rightarrow> 'k list" where
  "om_keys m = map fst m"

definition om_has :: "('k, 'v) omap \<Rightarrow> 'k \<Rightarrow> bool" where
  "om_has m k \<longleftrightarrow> om_get m k \<noteq> None"

definition om_wf :: "('k::linorder, 'v) omap \<Rightarrow> bool" where
  "om_wf m \<longleftrightarrow> sorted_wrt (<) (map fst m)"

definition om_of_list :: "('k::linorder \<times> 'v) list \<Rightarrow> ('k, 'v) omap" where
  "om_of_list es = foldl (\<lambda>m e. om_put (fst e) (snd e) m) [] es"

text \<open>A \<open>BTreeSet\<close> collected from a list: the distinct elements in order.\<close>

definition sorted_set :: "'k::linorder list \<Rightarrow> 'k list" where
  "sorted_set xs = sort (remdups xs)"

lemma set_sorted_set [simp]: "set (sorted_set xs) = set xs"
  by (simp add: sorted_set_def)

lemma distinct_sorted_set [simp]: "distinct (sorted_set xs)"
  by (simp add: sorted_set_def)

lemma sorted_sorted_set [simp]: "sorted (sorted_set xs)"
  by (simp add: sorted_set_def)

lemma om_get_Nil [simp]: "om_get [] k = None"
  by (simp add: om_get_def)

lemma om_get_put: "om_get (om_put k v m) k' = (if k' = k then Some v else om_get m k')"
  by (induction m) (auto simp: om_get_def)

lemma om_get_del: "om_get (om_del k m) k' = (if k' = k then None else om_get m k')"
  by (induction m) (auto simp: om_get_def om_del_def)

lemma set_om_put: "set (om_keys (om_put k v m)) = insert k (set (om_keys m))"
  by (induction m) (auto simp: om_keys_def)

lemma om_wf_put: "om_wf m \<Longrightarrow> om_wf (om_put k v m)"
proof (induction m)
  case (Cons e m)
  then show ?case
    using set_om_put[of k v m] by (auto simp: om_wf_def om_keys_def)
qed (simp add: om_wf_def)

lemma om_wf_del: "om_wf m \<Longrightarrow> om_wf (om_del k m)"
  by (induction m) (auto simp: om_wf_def om_del_def)

lemma om_wf_distinct: "om_wf m \<Longrightarrow> distinct (map fst m)"
  unfolding om_wf_def by (induction m) auto

lemma om_get_Some_mem: "om_get m k = Some v \<Longrightarrow> (k, v) \<in> set m"
  by (simp add: om_get_def map_of_SomeD)

lemma om_mem_iff: "om_wf m \<Longrightarrow> (k, v) \<in> set m \<longleftrightarrow> om_get m k = Some v"
  by (simp add: om_get_def om_wf_distinct)

lemma om_keys_iff: "k \<in> set (om_keys m) \<longleftrightarrow> om_get m k \<noteq> None"
  by (induction m) (auto simp: om_get_def om_keys_def)

lemma om_put_same: "om_wf m \<Longrightarrow> om_get m k = Some v \<Longrightarrow> om_put k v m = m"
proof (induction m)
  case (Cons e m)
  show ?case
  proof (cases "fst e = k")
    case True
    with Cons.prems show ?thesis by (cases e) (auto simp: om_get_def)
  next
    case False
    with Cons.prems have get: "om_get m k = Some v" by (cases e) (auto simp: om_get_def)
    then have "k \<in> fst ` set m" by (force dest: om_get_Some_mem)
    with Cons.prems(1) have "fst e < k" by (auto simp: om_wf_def)
    with get Cons show ?thesis by (auto simp: om_wf_def)
  qed
qed simp

lemma om_wf_filter: "om_wf m \<Longrightarrow> om_wf (filter P m)"
  unfolding om_wf_def by (induction m) auto

lemma om_get_filter:
  assumes "om_wf m"
  shows "om_get (filter P m) k = (case om_get m k of Some v \<Rightarrow> if P (k, v) then Some v else None | None \<Rightarrow> None)"
proof -
  have "om_get (filter P m) k = Some v \<longleftrightarrow> om_get m k = Some v \<and> P (k, v)" for v
    using om_mem_iff[OF assms, of k v] om_mem_iff[OF om_wf_filter[OF assms, of P], of k v] by auto
  note iff = this
  show ?thesis
  proof (cases "om_get m k")
    case None
    have "om_get (filter P m) k \<noteq> Some v" for v using iff[of v] None by simp
    then have "om_get (filter P m) k = None" by (cases "om_get (filter P m) k") blast+
    with None show ?thesis by simp
  next
    case (Some w)
    show ?thesis
    proof (cases "P (k, w)")
      case True
      with Some iff[of w] show ?thesis by simp
    next
      case False
      then have "om_get (filter P m) k \<noteq> Some v" for v using iff[of v] Some by auto
      then have "om_get (filter P m) k = None" by (cases "om_get (filter P m) k") blast+
      with Some False show ?thesis by simp
    qed
  qed
qed

lemma om_ext:
  assumes "om_wf m" "om_wf m'" "\<And>k. om_get m k = om_get m' k"
  shows "m = m'"
proof -
  have set: "set m = set m'" using assms by (auto simp: om_mem_iff)
  have "sorted (map fst m)" "sorted (map fst m')"
    using assms(1,2) strict_sorted_imp_sorted by (auto simp: om_wf_def)
  moreover have "inj_on fst (set m \<union> set m')"
    using om_wf_distinct[OF assms(1)] set by (simp add: distinct_map)
  ultimately show ?thesis
    using om_wf_distinct[OF assms(1)] om_wf_distinct[OF assms(2)] set
    by (intro map_sorted_distinct_set_unique)
qed

lemma om_wf_Nil [simp]: "om_wf []"
  by (simp add: om_wf_def)

lemmas om_laws [store_simps] = om_get_put om_get_del

section \<open>Interfaces\<close>

text \<open>A keyed store: what every ledger map promises its clients.\<close>

locale keyed_store =
  fixes get :: "'m \<Rightarrow> 'k \<Rightarrow> 'v option"
    and put :: "'k \<Rightarrow> 'v \<Rightarrow> 'm \<Rightarrow> 'm"
    and del :: "'k \<Rightarrow> 'm \<Rightarrow> 'm"
    and wf :: "'m \<Rightarrow> bool"
  assumes get_put: "get (put k v m) k' = (if k' = k then Some v else get m k')"
    and get_del: "get (del k m) k' = (if k' = k then None else get m k')"
    and wf_put: "wf m \<Longrightarrow> wf (put k v m)"
    and wf_del: "wf m \<Longrightarrow> wf (del k m)"
    and put_same: "wf m \<Longrightarrow> get m k = Some v \<Longrightarrow> put k v m = m"
begin

lemma fold_put_frame:
  "k \<notin> set ks \<Longrightarrow> get (foldl (\<lambda>m k'. put k' (f k') m) m ks) k = get m k"
  by (induction ks arbitrary: m) (auto simp: get_put)

lemma fold_put_get:
  "get (foldl (\<lambda>m k'. put k' (f k') m) m ks) k = (if k \<in> set ks then Some (f k) else get m k)"
proof (induction ks arbitrary: m)
  case (Cons a ks)
  show ?case by (cases "k \<in> set ks") (auto simp: Cons.IH get_put)
qed simp

lemma put_if_absent_frame:
  "get m k = Some v \<Longrightarrow> get (if get m k' = None then put k' w m else m) k = Some v"
  by (auto simp: get_put)

end

interpretation om: keyed_store om_get om_put om_del om_wf
  by unfold_locales (auto simp: store_simps om_wf_put om_wf_del om_put_same)

text \<open>\<open>get_mut\<close> on one key and \<open>values_mut\<close> on all of them.\<close>

definition om_adjust :: "'k::linorder \<Rightarrow> ('v \<Rightarrow> 'v) \<Rightarrow> ('k, 'v) omap \<Rightarrow> ('k, 'v) omap" where
  "om_adjust k f m = (case om_get m k of None \<Rightarrow> m | Some v \<Rightarrow> om_put k (f v) m)"

definition om_map :: "('v \<Rightarrow> 'w) \<Rightarrow> ('k, 'v) omap \<Rightarrow> ('k, 'w) omap" where
  "om_map f m = map (\<lambda>e. (fst e, f (snd e))) m"

definition om_del_all :: "'k list \<Rightarrow> ('k, 'v) omap \<Rightarrow> ('k, 'v) omap" where
  "om_del_all ks m = foldl (\<lambda>m k. om_del k m) m ks"

lemma om_get_adjust [store_simps]:
  "om_get (om_adjust k f m) k' = (if k' = k then map_option f (om_get m k) else om_get m k')"
  by (simp add: om_adjust_def store_simps split: option.splits)

lemma om_wf_adjust: "om_wf m \<Longrightarrow> om_wf (om_adjust k f m)"
  by (simp add: om_adjust_def om_wf_put split: option.splits)

lemma om_get_map [store_simps]: "om_get (om_map f m) k = map_option f (om_get m k)"
  by (induction m) (auto simp: om_map_def om_get_def)

lemma om_wf_map: "om_wf m \<Longrightarrow> om_wf (om_map f m)"
  by (simp add: om_wf_def om_map_def comp_def)

lemma om_get_del_all [store_simps]:
  "om_get (om_del_all ks m) k = (if k \<in> set ks then None else om_get m k)"
  unfolding om_del_all_def by (induction ks arbitrary: m) (auto simp: store_simps)

lemma om_wf_del_all: "om_wf m \<Longrightarrow> om_wf (om_del_all ks m)"
  unfolding om_del_all_def by (induction ks arbitrary: m) (auto simp: om_wf_del)

text \<open>A textual codec: the stored spelling of an enum and its parser.\<close>

locale codec =
  fixes enc :: "'a \<Rightarrow> string" and dec :: "string \<Rightarrow> 'a option"
  assumes dec_enc: "dec (enc x) = Some x"
    and dec_sound: "dec s = Some x \<Longrightarrow> s = enc x"
begin

lemma enc_inj: "enc x = enc y \<longleftrightarrow> x = y"
  by (metis dec_enc option.inject)

lemma dec_iff: "dec s = Some x \<longleftrightarrow> s = enc x"
  using dec_enc dec_sound by blast

lemma unknown_text: "dec s = None \<longleftrightarrow> (\<forall>x. s \<noteq> enc x)"
  by (metis dec_iff not_None_eq)

end

text \<open>A component driven by events, with an invariant every event keeps.\<close>

locale step_machine =
  fixes step :: "'s \<Rightarrow> 'e \<Rightarrow> 's" and inv :: "'s \<Rightarrow> bool"
  assumes step_inv: "inv s \<Longrightarrow> inv (step s e)"
begin

lemma run_inv: "inv s \<Longrightarrow> inv (foldl step s es)"
  by (induction es arbitrary: s) (auto intro: step_inv)

end

text \<open>A step machine whose states only move forward in a preorder.\<close>

locale forward_machine = step_machine step inv
  for step :: "'s \<Rightarrow> 'e \<Rightarrow> 's" and inv :: "'s \<Rightarrow> bool" +
  fixes le :: "'s \<Rightarrow> 's \<Rightarrow> bool"
  assumes le_refl: "le s s"
    and le_trans: "le s t \<Longrightarrow> le t u \<Longrightarrow> le s u"
    and step_le: "inv s \<Longrightarrow> le s (step s e)"
begin

lemma run_le: "inv s \<Longrightarrow> le s (foldl step s es)"
proof (induction es arbitrary: s)
  case Nil
  then show ?case by (simp add: le_refl)
next
  case (Cons e es)
  then have "le (step s e) (foldl step (step s e) es)" by (simp add: step_inv)
  with Cons.prems show ?case by (auto intro: le_trans step_le)
qed

end

end
