(* ===== verification/Isotime.thy ===== *)
theory Isotime
  imports Chief_Prelude "HOL-Library.Monad_Syntax"
begin

text \<open>
  The timestamps of the stores (\<open>chiefd-log/src/isotime.rs\<close> renders, \<open>chiefd-core/src/isotime.rs\<close>
  parses): the civil-calendar algorithms in both directions, the rendering of epoch milliseconds, the
  parser, and the schedule deadline that reads an unreadable stamp as due. All divisions are on
  operands the lemmas show non-negative, where Rust's truncation and \<open>div\<close> agree; \<open>div_euclid\<close> and
  \<open>rem_euclid\<close> by a positive divisor are \<open>div\<close> and \<open>mod\<close>.
\<close>

section \<open>The calendar\<close>

definition u32_or_1 :: "int \<Rightarrow> int" where
  "u32_or_1 x = (if 0 \<le> x \<and> x < 2 ^ 32 then x else 1)"

definition civil_from_days :: "int \<Rightarrow> int \<times> int \<times> int" where
  "civil_from_days days =
     (let z = days + 719468;
          era = z div 146097;
          doe = z mod 146097;
          yoe = (doe - doe div 1460 + doe div 36524 - doe div 146096) div 365;
          y = yoe + era * 400;
          doy = doe - (365 * yoe + yoe div 4 - yoe div 100);
          mp = (5 * doy + 2) div 153;
          d = doy - (153 * mp + 2) div 5 + 1;
          m = (if mp < 10 then mp + 3 else mp - 9)
      in (if m \<le> 2 then y + 1 else y, u32_or_1 m, u32_or_1 d))"

definition days_from_civil :: "int \<Rightarrow> int \<Rightarrow> int \<Rightarrow> int" where
  "days_from_civil year month day =
     (let y = (if month \<le> 2 then year - 1 else year);
          era = y div 400;
          yoe = y - era * 400;
          mp = (if month > 2 then month - 3 else month + 9);
          doy = (153 * mp + 2) div 5 + day - 1;
          doe = yoe * 365 + yoe div 4 - yoe div 100 + doy
      in era * 146097 + doe - 719468)"

section \<open>Rendering and parsing\<close>

definition iso_millis :: "int \<Rightarrow> string" where
  "iso_millis epoch_millis =
     (let days = epoch_millis div 86400000;
          millis_of_day = epoch_millis mod 86400000;
          (year, month, day) = civil_from_days days;
          hour = millis_of_day div 3600000;
          minute = (millis_of_day div 60000) mod 60;
          second = (millis_of_day div 1000) mod 60;
          millis = millis_of_day mod 1000
      in pad_int 4 year @ ''-'' @ pad_int 2 month @ ''-'' @ pad_int 2 day @ ''T''
         @ pad_int 2 hour @ '':'' @ pad_int 2 minute @ '':'' @ pad_int 2 second
         @ ''.'' @ pad_int 3 millis @ ''Z'')"

definition is_char_boundary :: "string \<Rightarrow> nat \<Rightarrow> bool" where
  "is_char_boundary s i \<longleftrightarrow>
     i = 0 \<or> i = length s \<or> (i < length s \<and> \<not> is_continuation (s ! i))"

definition str_get :: "string \<Rightarrow> nat \<Rightarrow> nat \<Rightarrow> string option" where
  "str_get s a b =
     (if a \<le> b \<and> is_char_boundary s a \<and> is_char_boundary s b
      then Some (take (b - a) (drop a s)) else None)"

definition is_ascii_digit :: "char \<Rightarrow> bool" where
  "is_ascii_digit c \<longleftrightarrow> 48 \<le> byte c \<and> byte c \<le> 57"

definition parse_digits :: "string \<Rightarrow> nat option" where
  "parse_digits s =
     (if s = [] \<or> \<not> list_all is_ascii_digit s then None
      else Some (foldl (\<lambda>a c. 10 * a + (byte c - 48)) 0 s))"

text \<open>\<open>str::parse::<i64>()\<close>: an optional sign, at least one digit, in range.\<close>

definition parse_i64 :: "string \<Rightarrow> int option" where
  "parse_i64 s = (case s of
     [] \<Rightarrow> None
   | c # cs \<Rightarrow>
       (let neg = (c = CHR ''-''); ds = (if c = CHR ''-'' \<or> c = CHR ''+'' then cs else s)
        in case parse_digits ds of
             None \<Rightarrow> None
           | Some n \<Rightarrow>
               (let v = (if neg then - int n else int n)
                in if i64_min \<le> v \<and> v \<le> i64_max then Some v else None)))"

definition fraction_millis :: "string \<Rightarrow> int option" where
  "fraction_millis fraction =
     (if fraction = [] then Some 0
      else do {
        digits \<leftarrow> strip_prefix fraction ''.'';
        if digits = [] \<or> 3 < length digits \<or> \<not> list_all is_ascii_digit digits then None
        else do {
          value \<leftarrow> parse_i64 digits;
          Some (value * 10 ^ (3 - length digits))
        }
      })"

definition parse_iso_millis :: "string \<Rightarrow> int option" where
  "parse_iso_millis text =
     (if length text < 20 \<or> \<not> ends_with text ''Z'' then None
      else do {
        year \<leftarrow> str_get text 0 4 \<bind> parse_i64;
        month \<leftarrow> str_get text 5 7 \<bind> parse_i64;
        day \<leftarrow> str_get text 8 10 \<bind> parse_i64;
        hour \<leftarrow> str_get text 11 13 \<bind> parse_i64;
        minute \<leftarrow> str_get text 14 16 \<bind> parse_i64;
        second \<leftarrow> str_get text 17 19 \<bind> parse_i64;
        if text ! 4 \<noteq> CHR ''-'' \<or> text ! 7 \<noteq> CHR ''-'' \<or> text ! 10 \<noteq> CHR ''T'' then None
        else if text ! 13 \<noteq> CHR '':'' \<or> text ! 16 \<noteq> CHR '':'' then None
        else if \<not> (1 \<le> month \<and> month \<le> 12) \<or> \<not> (1 \<le> day \<and> day \<le> 31) then None
        else if 23 < hour \<or> 59 < minute \<or> 60 < second then None
        else do {
          millis \<leftarrow> fraction_millis (take (length text - 20) (drop 19 text));
          Some (days_from_civil year month day * 86400000 + hour * 3600000 + minute * 60000
                + second * 1000 + millis)
        }
      })"

text \<open>The warning the source logs for an unreadable deadline is not modelled.\<close>

definition schedule_due_millis :: "string \<Rightarrow> int" where
  "schedule_due_millis text = (case parse_iso_millis text of Some millis \<Rightarrow> millis | None \<Rightarrow> 0)"


lemma div_brackets:
  fixes x k :: int
  assumes "0 < k"
  shows "k * (x div k) \<le> x" "x < k * (x div k) + k"
proof -
  have "k * (x div k) + x mod k = x" by simp
  moreover have "0 \<le> x mod k" "x mod k < k" using assms by simp_all
  ultimately show "k * (x div k) \<le> x" "x < k * (x div k) + k" by linarith+
qed

lemma div_from_brackets:
  fixes x k q :: int
  assumes "0 < k" "k * q \<le> x" "x < k * q + k"
  shows "x div k = q"
  using assms int_div_pos_eq[of x k q "x - k * q"] by simp

definition year_of_era :: "int \<Rightarrow> int" where
  "year_of_era doe = (doe - doe div 1460 + doe div 36524 - doe div 146096) div 365"

lemma century_of_era:
  assumes "0 \<le> doe" "doe < 146096"
  shows "year_of_era doe div 100 = doe div 36524"
proof -
  define a b where "a = doe div 1460" and "b = doe div 36524"
  note a = div_brackets[of 1460 doe, folded a_def, simplified]
  note b = div_brackets[of 36524 doe, folded b_def, simplified]
  have c: "doe div 146096 = 0" using assms by simp
  have "0 \<le> b" "b \<le> 3" using assms b by linarith+
  then have "36500 * b \<le> doe - a + b \<and> doe - a + b < 36500 * b + 36500"
    using a b assms by linarith
  then have "(doe - a + b) div 36500 = b" by (intro div_from_brackets) simp_all
  then have "(doe - a + b) div 365 div 100 = b" by (simp add: zdiv_zmult2_eq[symmetric])
  then show ?thesis by (simp add: year_of_era_def c a_def b_def)
qed

lemma day_of_year_bounds:
  assumes "0 \<le> doe" "doe < 146097"
  defines "y \<equiv> year_of_era doe"
  shows "0 \<le> y" "y < 400"
    "0 \<le> doe - (365 * y + y div 4 - y div 100)" "doe - (365 * y + y div 4 - y div 100) \<le> 365"
proof -
  have "0 \<le> y \<and> y < 400 \<and> 0 \<le> doe - (365 * y + y div 4 - y div 100)
      \<and> doe - (365 * y + y div 4 - y div 100) \<le> 365"
  proof (cases "doe = 146096")
    case True
    then show ?thesis by (simp add: y_def year_of_era_def)
  next
    case False
    with assms have doe: "0 \<le> doe" "doe < 146096" by simp_all
    define a b u where "a = doe div 1460" and "b = doe div 36524" and "u = y div 4"
    note a = div_brackets[of 1460 doe, folded a_def, simplified]
    note b = div_brackets[of 36524 doe, folded b_def, simplified]
    note u = div_brackets[of 4 y, folded u_def, simplified]
    have c: "doe div 146096 = 0" using doe by simp
    have y: "y = (doe - a + b) div 365" by (simp add: y_def year_of_era_def c a_def b_def)
    note yb = div_brackets[of 365 "doe - a + b", folded y, simplified]
    have v: "y div 100 = b" unfolding y_def b_def using century_of_era[OF doe] .
    have b3: "0 \<le> b" "b \<le> 3" and a0: "0 \<le> a" using doe a b by linarith+
    have y0: "0 \<le> y" "y < 400" using yb a b doe b3 by linarith+
    have e: "a - u \<le> 1" "0 \<le> a - u" using a b u yb a0 b3 doe by linarith+
    show ?thesis using v y0 e a u yb by (simp add: u_def[symmetric])
  qed
  then show "0 \<le> y" "y < 400" "0 \<le> doe - (365 * y + y div 4 - y div 100)"
    "doe - (365 * y + y div 4 - y div 100) \<le> 365" by simp_all
qed

lemma month_day_bounds:
  fixes doy :: int
  assumes "0 \<le> doy" "doy \<le> 365"
  defines "mp \<equiv> (5 * doy + 2) div 153"
  shows "0 \<le> mp" "mp \<le> 11"
    "1 \<le> doy - (153 * mp + 2) div 5 + 1" "doy - (153 * mp + 2) div 5 + 1 \<le> 31"
proof -
  define q where "q = (153 * mp + 2) div 5"
  note m = div_brackets[of 153 "5 * doy + 2", folded mp_def, simplified]
  note q = div_brackets[of 5 "153 * mp + 2", folded q_def, simplified]
  have "0 \<le> mp \<and> mp \<le> 11 \<and> 1 \<le> doy - q + 1 \<and> doy - q + 1 \<le> 31"
    using m q assms(1,2) by linarith
  then show "0 \<le> mp" "mp \<le> 11" "1 \<le> doy - (153 * mp + 2) div 5 + 1"
    "doy - (153 * mp + 2) div 5 + 1 \<le> 31" by (simp_all add: q_def)
qed

lemma civil_from_days_shape:
  assumes "civil_from_days z = (y, m, d)"
  shows "1 \<le> m" "m \<le> 12" "1 \<le> d" "d \<le> 31" "days_from_civil y m d = z"
proof -
  define era doe where "era = (z + 719468) div 146097" and "doe = (z + 719468) mod 146097"
  define yoe where "yoe = year_of_era doe"
  define doy where "doy = doe - (365 * yoe + yoe div 4 - yoe div 100)"
  define mp where "mp = (5 * doy + 2) div 153"
  define d' where "d' = doy - (153 * mp + 2) div 5 + 1"
  define m' where "m' = (if mp < 10 then mp + 3 else mp - 9)"
  have doe: "0 \<le> doe" "doe < 146097" by (simp_all add: doe_def)
  note yoe = day_of_year_bounds[OF doe, folded yoe_def, folded doy_def]
  note mp = month_day_bounds[OF yoe(3,4), folded mp_def, folded d'_def]
  have m': "1 \<le> m'" "m' \<le> 12" using mp by (auto simp: m'_def)
  have "civil_from_days z = (if m' \<le> 2 then yoe + era * 400 + 1 else yoe + era * 400, u32_or_1 m', u32_or_1 d')"
    unfolding civil_from_days_def Let_def era_def[symmetric] doe_def[symmetric]
      year_of_era_def[symmetric] yoe_def[symmetric] doy_def[symmetric] mp_def[symmetric]
      d'_def[symmetric] m'_def[symmetric] by (rule refl)
  moreover have "u32_or_1 m' = m'" "u32_or_1 d' = d'" using m' mp by (simp_all add: u32_or_1_def)
  ultimately have ymd: "y = (if m' \<le> 2 then yoe + era * 400 + 1 else yoe + era * 400)" "m = m'" "d = d'"
    using assms by auto
  show "1 \<le> m" "m \<le> 12" "1 \<le> d" "d \<le> 31" using ymd m' mp by simp_all
  have yback: "(if m' \<le> 2 then y - 1 else y) = yoe + era * 400" using ymd(1) by simp
  have era: "(yoe + era * 400) div 400 = era" using yoe by simp
  have mp': "(if m' > 2 then m' - 3 else m' + 9) = mp" using mp by (auto simp: m'_def)
  have "z = era * 146097 + doe - 719468" unfolding era_def doe_def by simp
  moreover have "yoe * 365 + yoe div 4 - yoe div 100 + doy = doe" by (simp add: doy_def)
  ultimately show "days_from_civil y m d = z"
    unfolding days_from_civil_def Let_def ymd(2,3) yback era mp' by (simp add: d'_def)
qed

section \<open>Decimal text\<close>

lemma byte_char_of: "n < 256 \<Longrightarrow> byte (char_of n) = n"
  by (simp add: byte_def)

lemma byte_digit_char [simp]: "d < 10 \<Longrightarrow> byte (digit_char d) = 48 + d"
  by (simp add: digit_char_def byte_char_of)

definition dec_val :: "nat \<Rightarrow> string \<Rightarrow> nat" where
  "dec_val = foldl (\<lambda>a c. 10 * a + (byte c - 48))"

lemma dec_val_append: "dec_val a (s @ t) = dec_val (dec_val a s) t"
  by (simp add: dec_val_def)

lemma show_nat_digits: "list_all is_ascii_digit (show_nat n)"
proof (induction n rule: show_nat.induct)
  case (1 n)
  have "n mod 10 < 10" by simp
  then have "is_ascii_digit (digit_char (n mod 10))" by (simp add: is_ascii_digit_def)
  moreover have "n < 10 \<Longrightarrow> is_ascii_digit (digit_char n)" by (simp add: is_ascii_digit_def)
  ultimately show ?case using 1 by (subst show_nat.simps) auto
qed

lemma show_nat_nonempty [simp]: "show_nat n \<noteq> []"
  by (subst show_nat.simps) simp

lemma dec_val_show_nat: "dec_val 0 (show_nat n) = n"
proof (induction n rule: show_nat.induct)
  case (1 n)
  show ?case
  proof (cases "n < 10")
    case True
    then show ?thesis by (subst show_nat.simps) (simp add: dec_val_def)
  next
    case False
    then have "dec_val 0 (show_nat n) = dec_val (n div 10) [digit_char (n mod 10)]"
      by (subst show_nat.simps) (simp add: dec_val_append 1)
    also have "\<dots> = n" by (simp add: dec_val_def)
    finally show ?thesis .
  qed
qed

lemma length_show_nat: "n < 10 ^ k \<Longrightarrow> 0 < k \<Longrightarrow> length (show_nat n) \<le> k"
proof (induction n arbitrary: k rule: show_nat.induct)
  case (1 n)
  show ?case
  proof (cases "n < 10")
    case True
    with 1 show ?thesis by (subst show_nat.simps) simp
  next
    case False
    with 1 obtain k' where k: "k = Suc k'" "0 < k'" by (cases k; cases "k - 1") auto
    with 1 have "n div 10 < 10 ^ k'" by (simp add: div_less_iff_less_mult mult.commute)
    with 1(1)[OF False, of k'] k have "length (show_nat (n div 10)) \<le> k'" by simp
    with False k show ?thesis by (subst show_nat.simps) simp
  qed
qed

lemma zeros_digits: "list_all is_ascii_digit (replicate k (CHR ''0''))"
  by (induction k) (simp_all add: is_ascii_digit_def byte_def)

lemma dec_val_zeros: "dec_val 0 (replicate k (CHR ''0'')) = 0"
  by (induction k) (simp_all add: dec_val_def byte_def)

lemma parse_digits_zeros: "parse_digits (replicate k (CHR ''0'') @ show_nat n) = Some n"
  using zeros_digits[of k] show_nat_digits[of n]
  by (simp add: parse_digits_def dec_val_def[symmetric] dec_val_append dec_val_zeros dec_val_show_nat)

lemma colon_not_digit: "list_all is_ascii_digit ds \<Longrightarrow> CHR '':'' \<notin> set ds"
  by (auto simp: list_all_iff is_ascii_digit_def byte_def)

lemma digits_first_not_sign:
  "list_all is_ascii_digit s \<Longrightarrow> s = c # cs \<Longrightarrow> c \<noteq> CHR ''-'' \<and> c \<noteq> CHR ''+''"
  by (auto simp: is_ascii_digit_def byte_def)

definition pad_body :: "nat \<Rightarrow> int \<Rightarrow> string" where
  "pad_body w i = replicate (w - ((if i < 0 then 1 else 0) + length (show_nat (nat \<bar>i\<bar>)))) (CHR ''0'')
     @ show_nat (nat \<bar>i\<bar>)"

lemma pad_int_eq: "pad_int w i = (if i < 0 then CHR ''-'' # pad_body w i else pad_body w i)"
  by (simp add: pad_int_def pad_body_def Let_def)

lemma pad_body_digits: "list_all is_ascii_digit (pad_body w i)"
  using zeros_digits show_nat_digits by (simp add: pad_body_def)

lemma parse_i64_pad_int:
  assumes "- (10 ^ 9) < i" "i < 10 ^ 9"
  shows "parse_i64 (pad_int w i) = Some i"
proof -
  have pd: "parse_digits (pad_body w i) = Some (nat \<bar>i\<bar>)"
    unfolding pad_body_def by (rule parse_digits_zeros)
  obtain c cs where b: "pad_body w i = c # cs" by (cases "pad_body w i") (auto simp: pad_body_def)
  have "c \<noteq> CHR ''-'' \<and> c \<noteq> CHR ''+''" using digits_first_not_sign[OF pad_body_digits b] .
  then show ?thesis using pd assms b by (auto simp: pad_int_eq parse_i64_def Let_def i64_defs)
qed

lemma length_pad_int:
  assumes "if i < 0 then 2 \<le> w \<and> \<bar>i\<bar> < 10 ^ (w - 1) else 0 < w \<and> i < 10 ^ w"
  shows "length (pad_int w i) = w"
proof (cases "i < 0")
  case True
  have "nat \<bar>i\<bar> < 10 ^ (w - 1)" using True assms by (simp add: nat_less_iff)
  then have "length (show_nat (nat \<bar>i\<bar>)) \<le> w - 1" using True assms by (intro length_show_nat) auto
  moreover have "1 \<le> w" using True assms by simp
  ultimately show ?thesis using True by (simp add: pad_int_eq pad_body_def del: One_nat_def)
next
  case False
  have "nat \<bar>i\<bar> < 10 ^ w" using False assms by (simp add: nat_less_iff)
  then have "length (show_nat (nat \<bar>i\<bar>)) \<le> w" using False assms by (intro length_show_nat) auto
  then show ?thesis using False by (simp add: pad_int_eq pad_body_def)
qed

definition is_ascii :: "char \<Rightarrow> bool" where "is_ascii c \<longleftrightarrow> byte c < 128"

lemma ascii_pad_int: "list_all is_ascii (pad_int w i)"
proof -
  have "list_all is_ascii (pad_body w i)"
    using pad_body_digits[of w i] by (auto simp: list_all_iff is_ascii_digit_def is_ascii_def)
  then show ?thesis by (simp add: pad_int_eq is_ascii_def byte_def)
qed

lemma ascii_not_continuation: "is_ascii c \<Longrightarrow> \<not> is_continuation c"
  unfolding is_ascii_def byte_def is_continuation_def by linarith

lemma boundary_ascii: "list_all is_ascii s \<Longrightarrow> i \<le> length s \<Longrightarrow> is_char_boundary s i"
  by (auto simp: is_char_boundary_def list_all_length ascii_not_continuation)

lemma str_get_mid:
  assumes "list_all is_ascii s" "s = u @ v @ w" "a = length u" "b = a + length v"
  shows "str_get s a b = Some v"
proof -
  have "is_char_boundary s a" "is_char_boundary s b"
    using assms by (auto intro: boundary_ascii)
  then show ?thesis using assms(2-4) by (simp add: str_get_def)
qed

section \<open>The round trip\<close>

lemma fraction_millis_pad:
  assumes "0 \<le> k" "k < 1000"
  shows "fraction_millis (''.'' @ pad_int 3 k) = Some k"
proof -
  have len: "length (pad_int 3 k) = 3" using assms by (intro length_pad_int) simp
  have "list_all is_ascii_digit (pad_int 3 k)" using assms pad_body_digits by (simp add: pad_int_eq)
  moreover have "parse_i64 (pad_int 3 k) = Some k" using assms by (intro parse_i64_pad_int) simp_all
  moreover have "pad_int 3 k \<noteq> []" using len by auto
  ultimately show ?thesis using len by (simp add: fraction_millis_def strip_prefix_def starts_with_def)
qed

text \<open>The parser on the six padded fields the renderer writes.\<close>

lemma parse_iso_fields:
  assumes "- 1000 < y" "y < 10000" "1 \<le> mo" "mo \<le> 12" "1 \<le> d" "d \<le> 31"
    and "0 \<le> h" "h \<le> 23" "0 \<le> mi" "mi \<le> 59" "0 \<le> se" "se \<le> 59" "0 \<le> ms" "ms < 1000"
  shows "parse_iso_millis (pad_int 4 y @ ''-'' @ pad_int 2 mo @ ''-'' @ pad_int 2 d @ ''T''
         @ pad_int 2 h @ '':'' @ pad_int 2 mi @ '':'' @ pad_int 2 se @ ''.'' @ pad_int 3 ms @ ''Z'')
       = Some (days_from_civil y mo d * 86400000 + h * 3600000 + mi * 60000 + se * 1000 + ms)"
    (is "parse_iso_millis ?t = _")
proof -
  let ?Y = "pad_int 4 y" and ?M = "pad_int 2 mo" and ?D = "pad_int 2 d"
    and ?H = "pad_int 2 h" and ?I = "pad_int 2 mi" and ?S = "pad_int 2 se" and ?F = "pad_int 3 ms"
  have len: "length ?Y = 4" "length ?M = 2" "length ?D = 2" "length ?H = 2" "length ?I = 2"
      "length ?S = 2" "length ?F = 3"
    using assms by (auto intro!: length_pad_int)
  have asc: "list_all is_ascii ?t"
    by (simp add: ascii_pad_int) (simp add: is_ascii_def byte_def)
  note get = str_get_mid[OF asc]
  have gY: "str_get ?t 0 4 = Some ?Y"
    by (rule get[of "[]"]) (simp_all add: len)
  have gM: "str_get ?t 5 7 = Some ?M"
    by (rule get[of "?Y @ ''-''"]) (simp_all add: len)
  have gD: "str_get ?t 8 10 = Some ?D"
    by (rule get[of "?Y @ ''-'' @ ?M @ ''-''"]) (simp_all add: len)
  have gH: "str_get ?t 11 13 = Some ?H"
    by (rule get[of "?Y @ ''-'' @ ?M @ ''-'' @ ?D @ ''T''"]) (simp_all add: len)
  have gI: "str_get ?t 14 16 = Some ?I"
    by (rule get[of "?Y @ ''-'' @ ?M @ ''-'' @ ?D @ ''T'' @ ?H @ '':''"]) (simp_all add: len)
  have gS: "str_get ?t 17 19 = Some ?S"
    by (rule get[of "?Y @ ''-'' @ ?M @ ''-'' @ ?D @ ''T'' @ ?H @ '':'' @ ?I @ '':''"]) (simp_all add: len)
  have par: "parse_i64 ?Y = Some y" "parse_i64 ?M = Some mo" "parse_i64 ?D = Some d"
      "parse_i64 ?H = Some h" "parse_i64 ?I = Some mi" "parse_i64 ?S = Some se"
    using assms by (auto intro!: parse_i64_pad_int)
  have seps: "?t ! 4 = CHR ''-''" "?t ! 7 = CHR ''-''" "?t ! 10 = CHR ''T''"
      "?t ! 13 = CHR '':''" "?t ! 16 = CHR '':''"
    by (simp_all add: nth_append len)
  have frac: "take (length ?t - 20) (drop 19 ?t) = ''.'' @ ?F"
    by (simp add: len)
  have shape: "\<not> (length ?t < 20 \<or> \<not> ends_with ?t ''Z'')"
    by (auto simp: len ends_with_iff)
  show ?thesis
    unfolding parse_iso_millis_def gY gM gD gH gI gS seps frac fraction_millis_pad[OF assms(13,14)]
    using shape par assms by simp
qed

lemma regroup60: "q div 60 * (60 * k) + q mod 60 * k = q * k" for q k :: int
  by (metis div_mult_mod_eq distrib_right mult.assoc)

lemma millis_split:
  fixes t :: int
  shows "(t div 86400000) * 86400000 + t mod 86400000 div 3600000 * 3600000
       + t mod 86400000 div 60000 mod 60 * 60000 + t mod 86400000 div 1000 mod 60 * 1000
       + t mod 86400000 mod 1000 = t"
proof -
  define r where "r = t mod 86400000"
  have h: "r div 3600000 * 3600000 + r div 60000 mod 60 * 60000 = r div 60000 * 60000"
    using regroup60[of "r div 60000" 60000] by (simp add: zdiv_zmult2_eq[symmetric])
  have m: "r div 60000 * 60000 + r div 1000 mod 60 * 1000 = r div 1000 * 1000"
    using regroup60[of "r div 1000" 1000] by (simp add: zdiv_zmult2_eq[symmetric])
  have s: "r div 1000 * 1000 + r mod 1000 = r" by (rule div_mult_mod_eq)
  have "t div 86400000 * 86400000 + r = t" unfolding r_def by (rule div_mult_mod_eq)
  then show ?thesis using h m s unfolding r_def[symmetric] by linarith
qed

lemma iso_round_trip:
  assumes "- 1000 < fst (civil_from_days (t div 86400000))"
    and "fst (civil_from_days (t div 86400000)) < 10000"
  shows "parse_iso_millis (iso_millis t) = Some t"
proof -
  obtain y m d where c: "civil_from_days (t div 86400000) = (y, m, d)" by (cases "civil_from_days (t div 86400000)")
  note sh = civil_from_days_shape[OF c]
  define r where "r = t mod 86400000"
  have r: "0 \<le> r" "r < 86400000" by (simp_all add: r_def)
  have b: "0 \<le> r div 3600000" using r by simp
  have b': "r div 3600000 \<le> 23" using r div_brackets(1)[of 3600000 r] by simp
  have "parse_iso_millis (iso_millis t)
      = Some (days_from_civil y m d * 86400000 + r div 3600000 * 3600000
          + r div 60000 mod 60 * 60000 + r div 1000 mod 60 * 1000 + r mod 1000)"
    unfolding iso_millis_def c Let_def prod.case r_def[symmetric]
    using assms sh b b' by (intro parse_iso_fields) (simp_all add: c)
  then show ?thesis using millis_split[of t] by (simp add: sh(5) r_def)
qed

section \<open>Properties\<close>

lemma civil_year_range:
  assumes "- 719468 \<le> z" "z < 2932897"
  shows "0 \<le> fst (civil_from_days z)" "fst (civil_from_days z) < 10000"
proof -
  define era doe where "era = (z + 719468) div 146097" and "doe = (z + 719468) mod 146097"
  define yoe where "yoe = year_of_era doe"
  define doy where "doy = doe - (365 * yoe + yoe div 4 - yoe div 100)"
  define mp where "mp = (5 * doy + 2) div 153"
  have doe: "0 \<le> doe" "doe < 146097" by (simp_all add: doe_def)
  note yoe = day_of_year_bounds[OF doe, folded yoe_def, folded doy_def]
  note mpb = div_brackets[of 153 "5 * doy + 2", folded mp_def, simplified]
  note y4 = div_brackets[of 4 yoe, simplified] and y100 = div_brackets[of 100 yoe, simplified]
  have z: "z + 719468 = 146097 * era + doe" by (simp add: era_def doe_def)
  have era: "0 \<le> era" "era \<le> 24" using assms z doe by linarith+
  have y: "fst (civil_from_days z)
      = (if (if mp < 10 then mp + 3 else mp - 9) \<le> 2 then yoe + era * 400 + 1 else yoe + era * 400)"
    unfolding civil_from_days_def Let_def era_def[symmetric] doe_def[symmetric]
      year_of_era_def[symmetric] yoe_def[symmetric] doy_def[symmetric] mp_def[symmetric] by simp
  show "0 \<le> fst (civil_from_days z)" using era yoe by (simp add: y)
  have late: "306 \<le> doy" if "10 \<le> mp" using that mpb by linarith
  have "yoe + era * 400 < 9999" if "10 \<le> mp"
  proof (rule ccontr)
    assume "\<not> ?thesis"
    then have "yoe = 399" "era = 24" using era yoe by linarith+
    then show False using late[OF that] assms z by (simp add: doy_def)
  qed
  then show "fst (civil_from_days z) < 10000"
    using era yoe month_day_bounds(1)[OF yoe(3,4), folded mp_def] by (auto simp: y)
qed

text \<open>
  \<open>days_from_civil\<close> inverts \<open>civil_from_days\<close> on every day number, before and after the epoch, and
  the date it produces has a month in 1..12 and a day in 1..31.
\<close>

theorem civil_days_inverse:
  "case civil_from_days z of (y, m, d) \<Rightarrow>
     days_from_civil y m d = z \<and> 1 \<le> m \<and> m \<le> 12 \<and> 1 \<le> d \<and> d \<le> 31"
proof (cases "civil_from_days z")
  case (fields y m d)
  then show ?thesis using civil_from_days_shape[OF fields] by simp
qed

text \<open>The instants whose rendering can be read back: 1 March of year 0 to the end of year 9999.\<close>

definition writable_instant :: "int \<Rightarrow> bool" where
  "writable_instant t \<longleftrightarrow> - 62162035200000 \<le> t \<and> t < 253402300800000"

lemma written_stamp_parses: "writable_instant t \<Longrightarrow> parse_iso_millis (iso_millis t) = Some t"
proof (rule iso_round_trip)
  assume "writable_instant t"
  then have "- 719468 \<le> t div 86400000" "t div 86400000 < 2932897"
    unfolding writable_instant_def by linarith+
  note civil_year_range[OF this]
  then show "- 1000 < fst (civil_from_days (t div 86400000))"
    "fst (civil_from_days (t div 86400000)) < 10000" by simp_all
qed

text \<open>
  A stamp the renderer wrote parses back to exactly the millisecond it was written from, for every
  instant from 1 March of year 0 to the end of year 9999.
\<close>

theorem iso_millis_round_trip:
  assumes "- 62162035200000 \<le> t" "t < 253402300800000"
  shows "parse_iso_millis (iso_millis t) = Some t"
  by (rule written_stamp_parses) (simp add: writable_instant_def assms)

theorem iso_millis_round_trip_witness:
  "parse_iso_millis (iso_millis 1768478400123) = Some 1768478400123"
  by (rule iso_millis_round_trip) simp_all

text \<open>
  The parser takes signed fields, which the renderer never writes: an hour of minus one is read as the
  last hour of the day before, and \<open>+\<close> signs are dropped.
\<close>

lemma parse_accepts_signed_fields:
  "parse_iso_millis ''2026-01-15T-1:00:00Z'' = parse_iso_millis ''2026-01-14T23:00:00Z''"
  "parse_iso_millis ''2026-01-14T23:00:00Z'' = Some 1768431600000"
  "parse_iso_millis ''+026-+1-+5T+6:+7:+8Z'' \<noteq> None"
  by code_simp+

text \<open>
  A day of February the calendar does not have is read as a day of March, and the stamp does not
  render back to its own text.
\<close>

lemma parse_accepts_overflowing_day:
  "parse_iso_millis ''2026-02-31T00:00:00Z'' = parse_iso_millis ''2026-03-03T00:00:00Z''"
  "parse_iso_millis ''2026-03-03T00:00:00Z'' \<noteq> None"
  by code_simp+

end
