(* ===== verification/Errors.thy ===== *)
theory Errors
  imports Chief_Prelude
begin

text \<open>
  The closed error taxonomy of the core crate (\<open>chiefd-core/src/error.rs\<close>): a refusal with its
  stable code, and the seven kinds of \<open>ChiefdError\<close>. A fallible operation of the source returns
  \<open>chiefd_error + 'a\<close> here, \<open>Inl\<close> for \<open>Err\<close>. Also the proof of waiting (\<open>actor/mod.rs\<close>) that a
  \<open>Busy\<close> carries, and the polarity decoders (\<open>polarity.rs\<close>) that say what a store reads as when its
  bytes are unreadable. Durations are in milliseconds.
\<close>

record refusal =
  rf_code :: string
  rf_message :: string
  rf_legal_routes :: "string list"

definition refusal_new :: "string \<Rightarrow> string \<Rightarrow> refusal" where
  "refusal_new code message = \<lparr>rf_code = code, rf_message = message, rf_legal_routes = []\<rparr>"

definition with_routes :: "refusal \<Rightarrow> string list \<Rightarrow> refusal" where
  "with_routes r routes = r\<lparr>rf_legal_routes := routes\<rparr>"

record busy_proof =
  bp_waited :: nat
  bp_site :: string

definition after_waiting :: "nat \<Rightarrow> string \<Rightarrow> busy_proof" where
  "after_waiting waited site = \<lparr>bp_waited = waited, bp_site = site\<rparr>"

datatype chiefd_error =
    Refused refusal
  | Conflict string string string
  | Busy busy_proof
  | StoreFailure string string
  | Corrupt string string
  | Absent string
  | Unavailable string

definition err_code :: "chiefd_error \<Rightarrow> string option" where
  "err_code e = (case e of Refused r \<Rightarrow> Some (rf_code r) | Conflict c _ _ \<Rightarrow> Some c | _ \<Rightarrow> None)"

definition err_cause :: "chiefd_error \<Rightarrow> string option" where
  "err_cause e = (case e of StoreFailure _ c \<Rightarrow> Some c | Corrupt _ c \<Rightarrow> Some c | _ \<Rightarrow> None)"

definition err_kind :: "chiefd_error \<Rightarrow> string" where
  "err_kind e = (case e of
     Refused _ \<Rightarrow> ''Refused''
   | Conflict _ _ _ \<Rightarrow> ''Conflict''
   | Busy _ \<Rightarrow> ''Busy''
   | StoreFailure _ _ \<Rightarrow> ''StoreFailure''
   | Corrupt _ _ \<Rightarrow> ''Corrupt''
   | Absent _ \<Rightarrow> ''Absent''
   | Unavailable _ \<Rightarrow> ''Unavailable'')"

definition refused :: "string \<Rightarrow> string \<Rightarrow> chiefd_error" where
  "refused code message = Refused (refusal_new code message)"

lemma refused_eq_iff [simp]: "refused c m = refused c' m' \<longleftrightarrow> c = c' \<and> m = m'"
  by (simp add: refused_def refusal_new_def)

section \<open>Failure polarity\<close>

datatype 'b decoded =
    Decoded_Value 'b
  | RecoveredEmpty 'b string
  | RecoveredRestrictive 'b string
  | Decoded_Absent 'b "string option"

fun into_parts :: "'b decoded \<Rightarrow> 'b \<times> string option" where
  "into_parts (Decoded_Value b) = (b, None)"
| "into_parts (RecoveredEmpty b w) = (b, Some w)"
| "into_parts (RecoveredRestrictive b w) = (b, Some w)"
| "into_parts (Decoded_Absent b n) = (b, n)"

fun recovered :: "'b decoded \<Rightarrow> bool" where
  "recovered (RecoveredEmpty _ _) = True"
| "recovered (RecoveredRestrictive _ _) = True"
| "recovered (Decoded_Value _) = False"
| "recovered (Decoded_Absent _ _) = False"

text \<open>The marker traits' \<open>empty\<close>, \<open>restrictive\<close> and \<open>NAME\<close> are arguments.\<close>

definition decode_fail_open :: "string \<Rightarrow> 'b \<Rightarrow> string + 'b \<Rightarrow> 'b decoded" where
  "decode_fail_open name empty_body parsed = (case parsed of
     Inr body \<Rightarrow> Decoded_Value body
   | Inl cause \<Rightarrow> RecoveredEmpty empty_body
       (''store '' @ name @ '' was unreadable ('' @ cause @ ''); continuing empty''))"

definition decode_fail_safe_value :: "string \<Rightarrow> 'b \<Rightarrow> string + 'b \<Rightarrow> 'b decoded" where
  "decode_fail_safe_value name restrictive parsed = (case parsed of
     Inr body \<Rightarrow> Decoded_Value body
   | Inl cause \<Rightarrow> RecoveredRestrictive restrictive
       (''store '' @ name @ '' was unreadable ('' @ cause @ ''); applying the restrictive value''))"

definition decode_fail_closed :: "string \<Rightarrow> string + 'b \<Rightarrow> chiefd_error + 'b" where
  "decode_fail_closed name parsed = (case parsed of
     Inr body \<Rightarrow> Inr body
   | Inl cause \<Rightarrow> Inl (Corrupt name cause))"

lemma into_parts_fail_safe:
  "fst (into_parts (decode_fail_safe_value name r p)) = (case p of Inr b \<Rightarrow> b | Inl _ \<Rightarrow> r)"
  by (auto simp: decode_fail_safe_value_def split: sum.splits)

end
