(* ===== verification/Write_Queue.thy ===== *)
theory Write_Queue
  imports Errors
begin

text \<open>
  The writer queue and its class scheduler (\<open>chiefd-core/src/actor/queue.rs\<close>, with the vocabulary of
  \<open>actor/mod.rs\<close> and the monotonic instant of \<open>clock.rs\<close>). A job's closures (\<open>txn\<close>, \<open>post_commit\<close>,
  \<open>apply\<close>, \<open>finish\<close>) are the type parameter \<open>'c\<close>: the queue carries them and never looks inside.
  Instants and durations are milliseconds. A \<open>VecDeque\<close> is the list of its elements, front first.
\<close>

section \<open>The vocabulary\<close>

definition millis_until :: "nat \<Rightarrow> nat \<Rightarrow> nat" where
  "millis_until self later = later - self"

definition MUTATION_QUEUE_DEADLINE :: nat where "MUTATION_QUEUE_DEADLINE = 30000"
definition SMALL_OPS_BEFORE_AGING :: nat where "SMALL_OPS_BEFORE_AGING = 32"
definition AGING_INTERVAL :: nat where "AGING_INTERVAL = 2000"
definition QUEUE_BUSY_SITE :: string where "QUEUE_BUSY_SITE = ''mutation-queue''"

datatype mutation_class = Small | Normal | Reconcile

definition is_priority :: "mutation_class \<Rightarrow> bool" where
  "is_priority c \<longleftrightarrow> c = Small"

record aging_policy =
  small_ops_before_aging :: nat
  aging_interval :: nat

definition aging_default :: aging_policy where
  "aging_default = \<lparr>small_ops_before_aging = SMALL_OPS_BEFORE_AGING, aging_interval = AGING_INTERVAL\<rparr>"

definition should_admit_aged :: "aging_policy \<Rightarrow> nat \<Rightarrow> nat \<Rightarrow> bool" where
  "should_admit_aged p consecutive_small waited \<longleftrightarrow>
     small_ops_before_aging p \<le> consecutive_small \<or> aging_interval p \<le> waited"

record 'c job =
  job_class :: mutation_class
  job_name :: "string option"
  job_enqueued_at :: nat
  job_closures :: 'c

definition job_waited :: "'c job \<Rightarrow> nat \<Rightarrow> nat" where
  "job_waited j now = millis_until (job_enqueued_at j) now"

datatype admission = Open | Closed string

datatype 'c next_action =
    Run "'c job"
  | Reject "('c job \<times> chiefd_error) list"
  | Stop
  | Idle

record 'c queue_state =
  qs_small :: "'c job list"
  qs_lower :: "'c job list"
  qs_consecutive_small :: nat
  qs_admission :: admission
  qs_stop_requested :: bool

section \<open>The operations\<close>

definition queue_new :: "'c queue_state" where
  "queue_new = \<lparr>qs_small = [], qs_lower = [], qs_consecutive_small = 0,
     qs_admission = Open, qs_stop_requested = False\<rparr>"

definition queue_close :: "string \<Rightarrow> 'c queue_state \<Rightarrow> 'c queue_state" where
  "queue_close reason q = (if qs_admission q = Open then q\<lparr>qs_admission := Closed reason\<rparr> else q)"

definition close_and_drain ::
  "string \<Rightarrow> 'c queue_state \<Rightarrow> 'c queue_state \<times> ('c job \<times> chiefd_error) list" where
  "close_and_drain reason q =
     (let q' = queue_close reason q
      in case qs_admission q' of
           Open \<Rightarrow> (q', [])
         | Closed actual \<Rightarrow>
             (q'\<lparr>qs_small := [], qs_lower := []\<rparr>,
              map (\<lambda>j. (j, Unavailable actual)) (qs_small q' @ qs_lower q')))"

definition request_stop :: "'c queue_state \<Rightarrow> 'c queue_state" where
  "request_stop q = q\<lparr>qs_stop_requested := True\<rparr>"

definition queue_push :: "'c job \<Rightarrow> 'c queue_state \<Rightarrow> chiefd_error + 'c queue_state" where
  "queue_push j q = (case qs_admission q of
     Closed reason \<Rightarrow> Inl (Unavailable reason)
   | Open \<Rightarrow>
       if is_priority (job_class j) then Inr (q\<lparr>qs_small := qs_small q @ [j]\<rparr>)
       else Inr (q\<lparr>qs_lower := qs_lower q @ [j]\<rparr>))"

definition queue_depth :: "'c queue_state \<Rightarrow> nat" where
  "queue_depth q = length (qs_small q) + length (qs_lower q)"

definition front :: "'a list \<Rightarrow> 'a option" where
  "front xs = (case xs of [] \<Rightarrow> None | x # _ \<Rightarrow> Some x)"

definition oldest_wait_ms :: "'c queue_state \<Rightarrow> nat \<Rightarrow> nat" where
  "oldest_wait_ms q now =
     fold max (map (\<lambda>j. job_waited j now)
       (List.map_filter id [front (qs_small q), front (qs_lower q)])) 0"

text \<open>The deadline sweep of one queue: pop the front while it has waited the deadline out.\<close>

fun sweep :: "nat \<Rightarrow> nat \<Rightarrow> 'c job list \<Rightarrow> ('c job \<times> chiefd_error) list \<times> 'c job list" where
  "sweep now deadline [] = ([], [])"
| "sweep now deadline (j # js) =
     (if deadline \<le> job_waited j now
      then (let (out, rest) = sweep now deadline js
            in ((j, Busy (after_waiting (job_waited j now) QUEUE_BUSY_SITE)) # out, rest))
      else ([], j # js))"

definition reap ::
  "nat \<Rightarrow> nat \<Rightarrow> 'c queue_state \<Rightarrow> 'c queue_state \<times> ('c job \<times> chiefd_error) list" where
  "reap now deadline q = (case qs_admission q of
     Closed reason \<Rightarrow>
       (q\<lparr>qs_small := [], qs_lower := []\<rparr>,
        map (\<lambda>j. (j, Unavailable reason)) (qs_small q @ qs_lower q))
   | Open \<Rightarrow>
       (let (out_s, small) = sweep now deadline (qs_small q);
            (out_l, lower) = sweep now deadline (qs_lower q)
        in (q\<lparr>qs_small := small, qs_lower := lower\<rparr>, out_s @ out_l)))"

definition take_next ::
  "nat \<Rightarrow> aging_policy \<Rightarrow> 'c queue_state \<Rightarrow> 'c queue_state \<times> 'c job option" where
  "take_next now aging q =
     (let admit_lower = (case (front (qs_small q), front (qs_lower q)) of
            (_, None) \<Rightarrow> False
          | (None, Some _) \<Rightarrow> True
          | (Some _, Some head) \<Rightarrow>
              should_admit_aged aging (qs_consecutive_small q) (job_waited head now))
      in if admit_lower
         then (q\<lparr>qs_consecutive_small := 0, qs_lower := tl (qs_lower q)\<rparr>, front (qs_lower q))
         else case qs_small q of
           [] \<Rightarrow> (q, None)
         | j # js \<Rightarrow>
             (q\<lparr>qs_small := js, qs_consecutive_small := sat_add_u32 (qs_consecutive_small q) 1\<rparr>,
              Some j))"

definition queue_next ::
  "nat \<Rightarrow> aging_policy \<Rightarrow> nat \<Rightarrow> 'c queue_state \<Rightarrow> 'c queue_state \<times> 'c next_action" where
  "queue_next now aging deadline q =
     (let (q1, rejects) = reap now deadline q
      in if rejects \<noteq> [] then (q1, Reject rejects)
         else case take_next now aging q1 of
           (q2, Some j) \<Rightarrow> (q2, Run j)
         | (q2, None) \<Rightarrow> if qs_stop_requested q2 then (q2, Stop) else (q2, Idle))"

section \<open>The queue under its callers\<close>

text \<open>
  The actor calls the queue through five doors. A run is a list of such calls; the state is paired
  with the log of what was accepted and what was answered (run or rejected), in order.
\<close>

datatype 'c queue_event =
    EvPush "'c job"
  | EvNext nat
  | EvClose string
  | EvDrain string
  | EvStop

record 'c queue_run =
  qr_state :: "'c queue_state"
  qr_accepted :: "'c job list"
  qr_answered :: "'c job list"

fun answered_by :: "'c next_action \<Rightarrow> 'c job list" where
  "answered_by (Run j) = [j]"
| "answered_by (Reject rs) = map fst rs"
| "answered_by Stop = []"
| "answered_by Idle = []"

fun queue_step :: "aging_policy \<Rightarrow> nat \<Rightarrow> 'c queue_run \<Rightarrow> 'c queue_event \<Rightarrow> 'c queue_run" where
  "queue_step aging deadline r (EvPush j) = (case queue_push j (qr_state r) of
     Inl _ \<Rightarrow> r
   | Inr q \<Rightarrow> r\<lparr>qr_state := q, qr_accepted := qr_accepted r @ [j]\<rparr>)"
| "queue_step aging deadline r (EvNext now) =
     (let (q, a) = queue_next now aging deadline (qr_state r)
      in r\<lparr>qr_state := q, qr_answered := qr_answered r @ answered_by a\<rparr>)"
| "queue_step aging deadline r (EvClose reason) = r\<lparr>qr_state := queue_close reason (qr_state r)\<rparr>"
| "queue_step aging deadline r (EvDrain reason) =
     (let (q, out) = close_and_drain reason (qr_state r)
      in r\<lparr>qr_state := q, qr_answered := qr_answered r @ map fst out\<rparr>)"
| "queue_step aging deadline r EvStop = r\<lparr>qr_state := request_stop (qr_state r)\<rparr>"

definition queue_run_new :: "'c queue_run" where
  "queue_run_new = \<lparr>qr_state = queue_new, qr_accepted = [], qr_answered = []\<rparr>"

definition small_of :: "'c job list \<Rightarrow> 'c job list" where
  "small_of js = filter (\<lambda>j. is_priority (job_class j)) js"

definition lower_of :: "'c job list \<Rightarrow> 'c job list" where
  "lower_of js = filter (\<lambda>j. \<not> is_priority (job_class j)) js"

text \<open>
  The invariant: the two queues hold the right classes, what was answered followed by what is queued is
  exactly what was accepted, class by class and in order, and once the door is shut every job accepted
  is answered or still queued from before.
\<close>

definition queue_inv :: "'c queue_run \<Rightarrow> bool" where
  "queue_inv r \<longleftrightarrow>
     lower_of (qs_small (qr_state r)) = [] \<and> small_of (qs_lower (qr_state r)) = []
   \<and> small_of (qr_answered r) @ qs_small (qr_state r) = small_of (qr_accepted r)
   \<and> lower_of (qr_answered r) @ qs_lower (qr_state r) = lower_of (qr_accepted r)"

lemma class_of_append [simp]:
  "small_of (xs @ ys) = small_of xs @ small_of ys"
  "lower_of (xs @ ys) = lower_of xs @ lower_of ys"
  "small_of [] = []" "lower_of [] = []"
  by (simp_all add: small_of_def lower_of_def)

lemma small_of_id: "lower_of xs = [] \<Longrightarrow> small_of xs = xs"
  by (induction xs) (auto simp: small_of_def lower_of_def split: if_splits)

lemma lower_of_id: "small_of xs = [] \<Longrightarrow> lower_of xs = xs"
  by (induction xs) (auto simp: small_of_def lower_of_def split: if_splits)

lemma sweep_split: "sweep now deadline js = (out, rest) \<Longrightarrow> map fst out @ rest = js"
  by (induction js arbitrary: out rest) (auto simp: Let_def split: if_splits prod.splits)

lemma sweep_busy:
  "sweep now deadline js = (out, rest) \<Longrightarrow> (j, e) \<in> set out \<Longrightarrow>
     e = Busy (after_waiting (job_waited j now) QUEUE_BUSY_SITE) \<and> deadline \<le> job_waited j now"
  by (induction js arbitrary: out rest) (auto simp: Let_def split: if_splits prod.splits)

lemma sweep_front: "sweep now deadline js = (out, j # rest) \<Longrightarrow> job_waited j now < deadline"
  by (induction js arbitrary: out) (auto simp: Let_def split: if_splits prod.splits)

lemma sweep_nothing: "sweep now deadline js = ([], rest) \<Longrightarrow> rest = js"
  using sweep_split by fastforce

section \<open>Accounting\<close>

definition queue_wf :: "'c queue_state \<Rightarrow> bool" where
  "queue_wf q \<longleftrightarrow> lower_of (qs_small q) = [] \<and> small_of (qs_lower q) = []"

text \<open>\<open>settles q a q'\<close>: answering the jobs \<open>a\<close>, in order, takes \<open>q\<close> to \<open>q'\<close>.\<close>

definition settles :: "'c queue_state \<Rightarrow> 'c job list \<Rightarrow> 'c queue_state \<Rightarrow> bool" where
  "settles q a q' \<longleftrightarrow> queue_wf q' \<and> small_of a @ qs_small q' = qs_small q
     \<and> lower_of a @ qs_lower q' = qs_lower q"

lemma small_all: "lower_of (xs @ ys) = [] \<Longrightarrow> small_of xs = xs \<and> small_of ys = ys"
  by (simp add: small_of_id)

lemma lower_all: "small_of (xs @ ys) = [] \<Longrightarrow> lower_of xs = xs \<and> lower_of ys = ys"
  by (simp add: lower_of_id)

lemma settles_split:
  assumes "queue_wf q" "xs @ qs_small q' = qs_small q" "ys @ qs_lower q' = qs_lower q"
  shows "settles q (xs @ ys) q'"
proof -
  have s: "lower_of (xs @ qs_small q') = []" "small_of (ys @ qs_lower q') = []"
    using assms by (simp_all add: queue_wf_def)
  then have "small_of ys = []" "lower_of xs = []" "lower_of (qs_small q') = []" "small_of (qs_lower q') = []"
    by simp_all
  then show ?thesis
    using s small_all[OF s(1)] lower_all[OF s(2)] assms(2,3) by (simp add: settles_def queue_wf_def)
qed

lemma settles_drain:
  assumes "queue_wf q" "qs_small q' = []" "qs_lower q' = []"
  shows "settles q (qs_small q @ qs_lower q) q'"
  using assms by (intro settles_split) simp_all

lemma reap_settles:
  assumes "queue_wf q" "reap now deadline q = (q', out)"
  shows "settles q (map fst out) q'"
proof (cases "qs_admission q")
  case Open
  obtain os small ol lower where sw: "sweep now deadline (qs_small q) = (os, small)"
      "sweep now deadline (qs_lower q) = (ol, lower)"
    by (metis surj_pair)
  then have q': "q' = q\<lparr>qs_small := small, qs_lower := lower\<rparr>" and out: "out = os @ ol"
    using assms(2) Open by (simp_all add: reap_def)
  show ?thesis unfolding out map_append using assms(1) sweep_split[OF sw(1)] sweep_split[OF sw(2)]
    by (intro settles_split) (simp_all add: q')
next
  case (Closed reason)
  then have "map fst out = qs_small q @ qs_lower q" "qs_small q' = []" "qs_lower q' = []"
    using assms(2) by (auto simp: reap_def o_def)
  then show ?thesis using settles_drain[OF assms(1)] by simp
qed

lemma take_next_settles:
  assumes "queue_wf q" "take_next now aging q = (q', j)"
  shows "settles q (case j of None \<Rightarrow> [] | Some j \<Rightarrow> [j]) q'"
proof -
  consider (lower) l ls where "qs_lower q = l # ls" "qs_lower q' = ls" "qs_small q' = qs_small q" "j = Some l"
    | (small) s ss where "qs_small q = s # ss" "qs_small q' = ss" "qs_lower q' = qs_lower q" "j = Some s"
    | (none) "q' = q" "j = None"
    using assms(2) by (auto simp: take_next_def Let_def front_def split: list.splits if_splits)
  then show ?thesis
  proof cases
    case lower
    with settles_split[OF assms(1), of "[]" q' "[l]"] show ?thesis by simp
  next
    case small
    with settles_split[OF assms(1), of "[s]" q' "[]"] show ?thesis by simp
  next
    case none
    with settles_split[OF assms(1), of "[]" q "[]"] show ?thesis by simp
  qed
qed

lemma queue_next_settles:
  assumes "queue_wf q" "queue_next now aging deadline q = (q', a)"
  shows "settles q (answered_by a) q'"
proof -
  obtain q1 rejects where r: "reap now deadline q = (q1, rejects)" by (metis surj_pair)
  note s1 = reap_settles[OF assms(1) r]
  show ?thesis
  proof (cases "rejects = []")
    case False
    with assms(2) r have "q' = q1" "a = Reject rejects" by (auto simp: queue_next_def)
    with s1 show ?thesis by simp
  next
    case True
    obtain q2 j where t: "take_next now aging q1 = (q2, j)" by (metis surj_pair)
    have "queue_wf q1" using s1 by (simp add: settles_def)
    note s2 = take_next_settles[OF this t]
    from assms(2) r t True have "q' = q2 \<and> answered_by a = (case j of None \<Rightarrow> [] | Some j \<Rightarrow> [j])"
      by (auto simp: queue_next_def split: option.splits if_splits)
    with s1 s2 True show ?thesis by (auto simp: settles_def)
  qed
qed

lemma close_wf [simp]: "queue_wf (queue_close reason q) = queue_wf q"
  by (simp add: queue_close_def queue_wf_def)

lemma close_lists [simp]:
  "qs_small (queue_close reason q) = qs_small q" "qs_lower (queue_close reason q) = qs_lower q"
  by (simp_all add: queue_close_def)

lemma close_closed: "\<exists>r. qs_admission (queue_close reason q) = Closed r"
  by (cases "qs_admission q") (auto simp: queue_close_def)

lemma drain_settles:
  assumes "queue_wf q" "close_and_drain reason q = (q', out)"
  shows "settles q (map fst out) q'"
proof -
  obtain r where "qs_admission (queue_close reason q) = Closed r" using close_closed by blast
  then have "map fst out = qs_small q @ qs_lower q" "qs_small q' = []" "qs_lower q' = []"
    using assms(2) by (auto simp: close_and_drain_def Let_def o_def)
  then show ?thesis using settles_drain[OF assms(1)] by simp
qed

lemma queue_inv_wf: "queue_inv r \<Longrightarrow> queue_wf (qr_state r)"
  by (simp add: queue_inv_def queue_wf_def)

lemma queue_inv_settles:
  "queue_inv r \<Longrightarrow> settles (qr_state r) a q \<Longrightarrow>
     queue_inv (r\<lparr>qr_state := q, qr_answered := qr_answered r @ a\<rparr>)"
  by (auto simp: queue_inv_def settles_def queue_wf_def)

lemma queue_step_inv: "queue_inv r \<Longrightarrow> queue_inv (queue_step aging deadline r e)"
proof (cases e)
  case (EvPush j)
  assume "queue_inv r"
  with EvPush show ?thesis
    by (auto simp: queue_inv_def queue_push_def small_of_def lower_of_def split: admission.splits)
next
  case (EvNext now)
  assume inv: "queue_inv r"
  obtain q a where n: "queue_next now aging deadline (qr_state r) = (q, a)" by (metis surj_pair)
  show ?thesis
    using queue_inv_settles[OF inv queue_next_settles[OF queue_inv_wf[OF inv] n]] EvNext n by simp
next
  case (EvClose reason)
  assume "queue_inv r"
  with EvClose show ?thesis by (simp add: queue_inv_def)
next
  case (EvDrain reason)
  assume inv: "queue_inv r"
  obtain q out where d: "close_and_drain reason (qr_state r) = (q, out)" by (metis surj_pair)
  show ?thesis
    using queue_inv_settles[OF inv drain_settles[OF queue_inv_wf[OF inv] d]] EvDrain d by simp
next
  case EvStop
  assume "queue_inv r"
  with EvStop show ?thesis by (simp add: queue_inv_def request_stop_def)
qed

interpretation queue_machine: step_machine "queue_step aging deadline" queue_inv for aging deadline
  by unfold_locales (rule queue_step_inv)

lemma queue_inv_new: "queue_inv queue_run_new"
  by (simp add: queue_inv_def queue_run_new_def queue_new_def)

text \<open>
  C27. Whatever the callers do, every accepted job is answered at most once, none is lost or invented,
  and each class is answered in the order it was accepted: the answers followed by what is still queued
  are exactly what was accepted.
\<close>

theorem queue_conserves_in_order:
  "let r = foldl (queue_step aging deadline) queue_run_new es
   in small_of (qr_answered r) @ qs_small (qr_state r) = small_of (qr_accepted r)
    \<and> lower_of (qr_answered r) @ qs_lower (qr_state r) = lower_of (qr_accepted r)"
  using queue_machine.run_inv[OF queue_inv_new, of aging deadline es]
  by (simp add: queue_inv_def Let_def)

section \<open>Starts\<close>

text \<open>The jobs the writer was handed to run, in order.\<close>

fun started_by :: "'c next_action \<Rightarrow> 'c job list" where
  "started_by (Run j) = [j]"
| "started_by (Reject _) = []"
| "started_by Stop = []"
| "started_by Idle = []"

fun starts :: "aging_policy \<Rightarrow> nat \<Rightarrow> 'c queue_run \<Rightarrow> 'c queue_event list \<Rightarrow> 'c job list" where
  "starts aging deadline r [] = []"
| "starts aging deadline r (e # es) =
     (case e of EvNext now \<Rightarrow> started_by (snd (queue_next now aging deadline (qr_state r))) | _ \<Rightarrow> [])
     @ starts aging deadline (queue_step aging deadline r e) es"

lemma answered_prefix: "\<exists>a. qr_answered (queue_step aging deadline r e) = qr_answered r @ a"
  by (cases e) (auto split: sum.splits prod.splits)

lemma answered_prefix_run:
  "\<exists>a. qr_answered (foldl (queue_step aging deadline) r es) = qr_answered r @ a"
proof (induction es arbitrary: r)
  case (Cons e es)
  obtain a where a: "qr_answered (queue_step aging deadline r e) = qr_answered r @ a"
    using answered_prefix by blast
  obtain b where "qr_answered (foldl (queue_step aging deadline) (queue_step aging deadline r e) es)
      = qr_answered (queue_step aging deadline r e) @ b"
    using Cons.IH by blast
  with a show ?case by auto
qed simp

lemma step_state [simp]:
  "qr_state (queue_step aging deadline r (EvNext now)) = fst (queue_next now aging deadline (qr_state r))"
  "qr_answered (queue_step aging deadline r (EvNext now))
     = qr_answered r @ answered_by (snd (queue_next now aging deadline (qr_state r)))"
  by (auto split: prod.splits)

lemma reap_open:
  assumes "qs_admission q = Open" "reap now deadline q = (q1, rs)"
  obtains os small ol lower where "sweep now deadline (qs_small q) = (os, small)"
    "sweep now deadline (qs_lower q) = (ol, lower)"
    "q1 = q\<lparr>qs_small := small, qs_lower := lower\<rparr>" "rs = os @ ol"
proof -
  obtain os small ol lower where "sweep now deadline (qs_small q) = (os, small)"
      "sweep now deadline (qs_lower q) = (ol, lower)"
    by (metis surj_pair)
  with assms that show thesis by (simp add: reap_def)
qed

lemma reap_nothing:
  assumes "reap now deadline q = (q1, [])"
  shows "q1 = q" "qs_admission q = Open \<or> queue_depth q = 0"
proof -
  have "q1 = q \<and> (qs_admission q = Open \<or> queue_depth q = 0)"
  proof (cases "qs_admission q")
    case Open
    obtain small lower where
        "sweep now deadline (qs_small q) = ([], small)" "sweep now deadline (qs_lower q) = ([], lower)"
        "q1 = q\<lparr>qs_small := small, qs_lower := lower\<rparr>"
      by (rule reap_open[OF Open assms]) (use that in auto)
    moreover from this(1,2) have "small = qs_small q" "lower = qs_lower q"
      by (auto dest: sweep_nothing)
    ultimately show ?thesis using Open by simp
  next
    case (Closed reason)
    with assms have "qs_small q = []" "qs_lower q = []" "q1 = q\<lparr>qs_small := [], qs_lower := []\<rparr>"
      by (auto simp: reap_def)
    then show ?thesis by (simp add: queue_depth_def)
  qed
  then show "q1 = q" "qs_admission q = Open \<or> queue_depth q = 0" by simp_all
qed

lemma take_next_none: "take_next now aging q = (q2, None) \<Longrightarrow> q2 = q \<and> queue_depth q = 0"
  by (auto simp: take_next_def Let_def front_def queue_depth_def split: list.splits if_splits)

lemma queue_next_cases:
  assumes "queue_next now aging deadline q = (q', a)"
  obtains (reject) rs where "a = Reject rs" "reap now deadline q = (q', rs)" "rs \<noteq> []"
  | (run) j where "a = Run j" "reap now deadline q = (q, [])" "take_next now aging q = (q', Some j)"
      "qs_admission q = Open \<or> queue_depth q = 0"
  | (rest) "a = (if qs_stop_requested q then Stop else Idle)" "q' = q" "queue_depth q = 0"
      "reap now deadline q = (q, [])"
proof -
  obtain q1 rs where r: "reap now deadline q = (q1, rs)" by (metis surj_pair)
  show thesis
  proof (cases "rs = []")
    case False
    then show ?thesis using assms r reject[of rs] by (simp add: queue_next_def)
  next
    case True
    note rn = reap_nothing[OF r[unfolded True]]
    obtain q2 jo where t: "take_next now aging q = (q2, jo)" by (metis surj_pair)
    show ?thesis
    proof (cases jo)
      case None
      then show ?thesis using assms r t True rn rest take_next_none[of now aging q q2]
        by (simp add: queue_next_def split: if_splits)
    next
      case (Some j)
      then have "a = Run j" "q2 = q'" using assms r t True rn by (simp_all add: queue_next_def)
      then show ?thesis using run[of j] r t True rn Some by simp
    qed
  qed
qed

text \<open>
  The deadline. A job handed to the writer has waited less than the queue deadline, and a \<open>Busy\<close>
  rejection is proof of a wait: it records exactly how long its job waited, never less than the
  deadline, at the queue's own site.
\<close>

theorem run_before_deadline_busy_after:
  assumes "queue_next now aging deadline q = (q', a)"
  shows "case a of
      Run j \<Rightarrow> job_waited j now < deadline
    | Reject rs \<Rightarrow> list_all (\<lambda>(j, e). case e of
          Busy p \<Rightarrow> bp_waited p = job_waited j now \<and> deadline \<le> bp_waited p \<and> bp_site p = QUEUE_BUSY_SITE
        | Unavailable reason \<Rightarrow> qs_admission q = Closed reason
        | _ \<Rightarrow> False) rs
    | _ \<Rightarrow> True"
  using assms
proof (cases rule: queue_next_cases)
  case (reject rs)
  show ?thesis
  proof (cases "qs_admission q")
    case Open
    with reject(2) obtain os small ol lower where sw: "sweep now deadline (qs_small q) = (os, small)"
        "sweep now deadline (qs_lower q) = (ol, lower)" "rs = os @ ol"
      by (elim reap_open) auto
    have "e = Busy (after_waiting (job_waited j now) QUEUE_BUSY_SITE) \<and> deadline \<le> job_waited j now"
      if "(j, e) \<in> set rs" for j e
      using that sweep_busy[OF sw(1)] sweep_busy[OF sw(2)] by (auto simp: sw(3))
    then show ?thesis using reject(1) by (fastforce simp: list_all_iff after_waiting_def)
  next
    case (Closed reason)
    then show ?thesis using reject(1,2) by (auto simp: reap_def list_all_iff)
  qed
next
  case (run j)
  have op: "qs_admission q = Open"
    using run(3,4) by (auto simp: queue_depth_def take_next_def front_def split: if_splits)
  obtain small lower where sw: "sweep now deadline (qs_small q) = ([], small)"
      "sweep now deadline (qs_lower q) = ([], lower)"
    by (rule reap_open[OF op run(2)]) (use that in auto)
  have "job_waited j now < deadline"
  proof (cases "\<exists>rest. qs_small q = j # rest")
    case True
    then show ?thesis using sw(1) sweep_nothing[OF sw(1)] sweep_front by metis
  next
    case False
    then have "\<exists>rest. qs_lower q = j # rest"
      using run(3) by (auto simp: take_next_def Let_def front_def split: list.splits if_splits)
    then show ?thesis using sw(2) sweep_nothing[OF sw(2)] sweep_front by metis
  qed
  then show ?thesis using run(1) by simp
next
  case rest
  then show ?thesis by simp
qed

theorem run_before_deadline_busy_after_witness:
  "\<exists>p. queue_next 30000 aging_default 30000
      (\<lparr>qs_small = [\<lparr>job_class = Small, job_name = None, job_enqueued_at = 0, job_closures = ()\<rparr>],
       qs_lower = [], qs_consecutive_small = 0, qs_admission = Open, qs_stop_requested = False\<rparr>)
     = (queue_new, Reject [(\<lparr>job_class = Small, job_name = None, job_enqueued_at = 0, job_closures = ()\<rparr>,
          Busy p)])
   \<and> bp_waited p = 30000"
proof -
  let ?j = "\<lparr>job_class = Small, job_name = None, job_enqueued_at = 0, job_closures = ()\<rparr>"
  let ?q = "\<lparr>qs_small = [?j], qs_lower = [], qs_consecutive_small = 0, qs_admission = Open,
      qs_stop_requested = False\<rparr>"
  let ?p = "after_waiting 30000 QUEUE_BUSY_SITE"
  have n: "queue_next 30000 aging_default 30000 ?q = (queue_new, Reject [(?j, Busy ?p)])"
    by (simp add: queue_next_def reap_def job_waited_def millis_until_def queue_new_def)
  show ?thesis
    using run_before_deadline_busy_after[OF n] n
    by (intro exI[of _ ?p]) (simp add: job_waited_def millis_until_def)
qed

lemma starts_small_step:
  assumes "queue_next now aging deadline q = (q', a)" "queue_wf q"
    and "qs_lower q \<noteq> []" "lower_of (answered_by a) = []"
    and "small_ops_before_aging aging \<le> u32_max"
  shows "qs_lower q' = qs_lower q
    \<and> qs_consecutive_small q' = qs_consecutive_small q + length (started_by a)
    \<and> (started_by a \<noteq> [] \<longrightarrow> qs_consecutive_small q < small_ops_before_aging aging)
    \<and> length (started_by a) \<le> 1 \<and> lower_of (started_by a) = []"
  using assms(1)
proof (cases rule: queue_next_cases)
  case (reject rs)
  have "qs_lower q' = qs_lower q"
    using queue_next_settles[OF assms(2,1)] assms(4) reject(1) by (simp add: settles_def)
  moreover have "qs_consecutive_small q' = qs_consecutive_small q"
    using reject(2) by (auto simp: reap_def split: admission.splits prod.splits)
  ultimately show ?thesis using reject(1) by simp
next
  case (run j)
  have "settles q [j] q'" using take_next_settles[OF assms(2) run(3)] by simp
  then have low: "qs_lower q' = qs_lower q" using assms(4) run(1) by (simp add: settles_def)
  with run(3) assms(3) have "\<not> small_ops_before_aging aging \<le> qs_consecutive_small q"
      "qs_consecutive_small q' = sat_add_u32 (qs_consecutive_small q) 1"
    by (auto simp: take_next_def Let_def front_def should_admit_aged_def neq_Nil_conv
        split: list.splits if_splits)
  then show ?thesis using low assms(4,5) run(1) by (simp add: sat_add_u32_def)
next
  case rest
  then show ?thesis by (simp split: if_splits)
qed

lemma starts_bounded:
  assumes "queue_wf (qr_state r)" "qs_lower (qr_state r) \<noteq> []" "small_ops_before_aging aging \<le> u32_max"
    and "lower_of (qr_answered (foldl (queue_step aging deadline) r es)) = lower_of (qr_answered r)"
  shows "length (starts aging deadline r es)
      \<le> small_ops_before_aging aging - qs_consecutive_small (qr_state r)
    \<and> lower_of (starts aging deadline r es) = []"
  using assms(1,2,4)
proof (induction es arbitrary: r)
  case (Cons e es)
  let ?r = "queue_step aging deadline r e"
  obtain a b where ab: "qr_answered ?r = qr_answered r @ a"
      "qr_answered (foldl (queue_step aging deadline) ?r es) = qr_answered ?r @ b"
    using answered_prefix answered_prefix_run by blast
  with Cons.prems(3) have a: "lower_of a = []"
    and same: "lower_of (qr_answered (foldl (queue_step aging deadline) ?r es)) = lower_of (qr_answered ?r)"
    by simp_all
  have "queue_wf (qr_state ?r) \<and> qs_lower (qr_state ?r) \<noteq> []
      \<and> (case e of EvNext now \<Rightarrow> True
         | _ \<Rightarrow> qs_consecutive_small (qr_state ?r) = qs_consecutive_small (qr_state r))"
  proof (cases e)
    case (EvPush j)
    with Cons.prems(1,2) show ?thesis
      by (auto simp: queue_push_def queue_wf_def small_of_def lower_of_def split: admission.splits)
  next
    case (EvNext now)
    obtain q' c where n: "queue_next now aging deadline (qr_state r) = (q', c)" by (metis surj_pair)
    have "a = answered_by c" using ab(1) EvNext n by simp
    with queue_next_settles[OF Cons.prems(1) n] a Cons.prems(2) show ?thesis
      using EvNext n by (auto simp: settles_def)
  next
    case (EvClose reason)
    with Cons.prems(1,2) show ?thesis by (simp del: close_wf add: queue_close_def queue_wf_def)
  next
    case (EvDrain reason)
    obtain q' out where d: "close_and_drain reason (qr_state r) = (q', out)" by (metis surj_pair)
    have "a = map fst out" using ab(1) EvDrain d by simp
    moreover obtain reason' where "qs_admission (queue_close reason (qr_state r)) = Closed reason'"
      using close_closed by blast
    then have "qs_lower q' = []" using d by (auto simp: close_and_drain_def Let_def)
    ultimately have False
      using drain_settles[OF Cons.prems(1) d] a Cons.prems(2) by (simp add: settles_def)
    then show ?thesis ..
  next
    case EvStop
    with Cons.prems(1,2) show ?thesis by (simp add: request_stop_def queue_wf_def)
  qed
  note kept = this
  note IH = Cons.IH[of ?r, OF _ _ same]
  show ?case
  proof (cases e)
    case (EvNext now)
    obtain q' c where n: "queue_next now aging deadline (qr_state r) = (q', c)" by (metis surj_pair)
    have "a = answered_by c" using ab(1) EvNext n by simp
    with starts_small_step[OF n Cons.prems(1,2) _ assms(3)] a IH kept EvNext n show ?thesis
      by (cases "started_by c = []") (auto simp: neq_Nil_conv)
  qed (use IH kept in auto)
qed simp

text \<open>
  C28. The fairness valve. From any state the callers can reach, while a lower-class job is queued and
  none is answered, at most \<open>K - consecutive_small\<close> more jobs start, all of them small ones: small
  jobs never starve the others beyond the count valve, whatever arrives meanwhile.
\<close>

theorem small_starts_bounded:
  assumes "r = foldl (queue_step aging deadline) queue_run_new es0"
    and "qs_lower (qr_state r) \<noteq> []"
    and "small_ops_before_aging aging \<le> u32_max"
    and "lower_of (qr_answered (foldl (queue_step aging deadline) r es)) = lower_of (qr_answered r)"
  shows "length (starts aging deadline r es)
      \<le> small_ops_before_aging aging - qs_consecutive_small (qr_state r)
    \<and> list_all (\<lambda>j. job_class j = Small) (starts aging deadline r es)"
  using starts_bounded[OF queue_inv_wf assms(2-4)] queue_machine.run_inv[OF queue_inv_new, of aging deadline es0]
  by (auto simp: assms(1) lower_of_def is_priority_def list_all_iff filter_empty_conv)

theorem small_starts_bounded_witness:
  "let j = (\<lambda>c. \<lparr>job_class = c, job_name = None, job_enqueued_at = 0, job_closures = ()\<rparr>);
       r = foldl (queue_step aging_default 30000) queue_run_new [EvPush (j Normal), EvPush (j Small)]
   in length (starts aging_default 30000 r [EvNext 5, EvPush (j Small)]) \<le> 32"
  using small_starts_bounded[of _ aging_default 30000
      "[EvPush \<lparr>job_class = Normal, job_name = None, job_enqueued_at = 0, job_closures = ()\<rparr>,
        EvPush \<lparr>job_class = Small, job_name = None, job_enqueued_at = 0, job_closures = ()\<rparr>]"
      "[EvNext 5, EvPush \<lparr>job_class = Small, job_name = None, job_enqueued_at = 0, job_closures = ()\<rparr>]",
      OF refl]
  by (simp add: queue_run_new_def queue_new_def queue_push_def is_priority_def queue_next_def reap_def
      job_waited_def millis_until_def take_next_def front_def should_admit_aged_def aging_default_def
      SMALL_OPS_BEFORE_AGING_def AGING_INTERVAL_def lower_of_def u32_max_def Let_def)

section \<open>The closed door\<close>

lemma sweep_depth: "sweep now deadline js = (out, rest) \<Longrightarrow> length js = length out + length rest"
  using sweep_split by fastforce

text \<open>Once shut, the door stays shut for the reason it was shut.\<close>

definition door_le :: "'c queue_run \<Rightarrow> 'c queue_run \<Rightarrow> bool" where
  "door_le r r' \<longleftrightarrow> (\<forall>reason. qs_admission (qr_state r) = Closed reason \<longrightarrow>
      qs_admission (qr_state r') = Closed reason \<and> qr_accepted r' = qr_accepted r)
    \<and> (qs_stop_requested (qr_state r) \<longrightarrow> qs_stop_requested (qr_state r'))"

lemma take_next_door:
  "take_next now aging q = (q', j) \<Longrightarrow>
     qs_admission q' = qs_admission q \<and> qs_stop_requested q' = qs_stop_requested q"
  by (auto simp: take_next_def Let_def split: list.splits if_splits)

lemma reap_door:
  "reap now deadline q = (q', rs) \<Longrightarrow>
     qs_admission q' = qs_admission q \<and> qs_stop_requested q' = qs_stop_requested q"
  by (auto simp: reap_def split: admission.splits prod.splits)

lemma queue_next_door:
  assumes "queue_next now aging deadline q = (q', a)"
  shows "qs_admission q' = qs_admission q \<and> qs_stop_requested q' = qs_stop_requested q"
  using assms
  by (cases rule: queue_next_cases) (auto dest: take_next_door reap_door)

lemma drain_door:
  "close_and_drain reason q = (q', out) \<Longrightarrow>
     qs_admission q' = qs_admission (queue_close reason q) \<and> qs_stop_requested q' = qs_stop_requested q"
  by (auto simp: close_and_drain_def Let_def queue_close_def split: admission.splits if_splits)

lemma close_door:
  "qs_admission q = Closed r \<Longrightarrow> queue_close reason q = q"
  "qs_stop_requested (queue_close reason q) = qs_stop_requested q"
  by (simp_all add: queue_close_def)

lemma step_door: "door_le r (queue_step aging deadline r e)"
  by (cases e) (auto simp: door_le_def queue_push_def close_door request_stop_def
    split: admission.splits prod.splits dest!: queue_next_door drain_door)

interpretation queue_door: forward_machine "queue_step aging deadline" queue_inv door_le
  for aging deadline
  by unfold_locales (auto simp: step_door, auto simp: door_le_def)

lemma closed_starts_nothing:
  assumes "qs_admission q = Closed reason" "queue_next now aging deadline q = (q', a)"
  shows "started_by a = []"
  using assms(2)
proof (cases rule: queue_next_cases)
  case (run j)
  with assms(1) show ?thesis by (auto simp: take_next_def front_def queue_depth_def)
qed (simp_all split: if_splits)

text \<open>
  The closed door. Once admission is closed for a reason, that reason stays, nothing more is ever
  accepted and no job is ever started, whatever the callers do next; the jobs still queued are answered
  with a rejection or stay queued, never run.
\<close>

theorem closed_door_is_final:
  assumes "r = foldl (queue_step aging deadline) queue_run_new es0"
    and "qs_admission (qr_state r) = Closed reason"
  shows "let r' = foldl (queue_step aging deadline) r es
     in qs_admission (qr_state r') = Closed reason \<and> qr_accepted r' = qr_accepted r
      \<and> starts aging deadline r es = []"
proof -
  have "queue_inv r"
    using queue_machine.run_inv[OF queue_inv_new] by (simp add: assms(1))
  then have "door_le r (foldl (queue_step aging deadline) r es)" by (rule queue_door.run_le)
  moreover have "starts aging deadline r es = []"
    using assms(2)
  proof (induction es arbitrary: r)
    case (Cons e es)
    have "qs_admission (qr_state (queue_step aging deadline r e)) = Closed reason"
      using step_door[of r aging deadline e] Cons.prems by (simp add: door_le_def)
    with Cons show ?case
      by (auto split: queue_event.splits dest: closed_starts_nothing
          intro: closed_starts_nothing[OF _ surjective_pairing])
  qed simp
  ultimately show ?thesis using assms(2) by (simp add: door_le_def Let_def)
qed

theorem closed_door_is_final_witness:
  "let j = \<lparr>job_class = Small, job_name = None, job_enqueued_at = 0, job_closures = ()\<rparr>;
       r = foldl (queue_step aging_default 30000) queue_run_new [EvPush j, EvClose ''shutdown'']
   in starts aging_default 30000 r [EvPush j, EvNext 1, EvStop, EvNext 2] = []"
  using closed_door_is_final[of _ aging_default 30000
      "[EvPush \<lparr>job_class = Small, job_name = None, job_enqueued_at = 0, job_closures = ()\<rparr>,
        EvClose ''shutdown'']" "''shutdown''"
      "[EvPush \<lparr>job_class = Small, job_name = None, job_enqueued_at = 0, job_closures = ()\<rparr>,
        EvNext 1, EvStop, EvNext 2]", OF refl]
  unfolding Let_def
  by (simp del: queue_step.simps(2,4,5) starts.simps add: queue_run_new_def queue_new_def queue_push_def queue_close_def is_priority_def Let_def)

text \<open>
  Work conservation. A poll of a queue that holds work always answers some of it, and the depth
  falls by exactly the number answered; it reports \<open>Stop\<close> only when the queue is drained and the stop
  was requested, \<open>Idle\<close> only when it is drained and it was not.
\<close>

theorem poll_makes_progress:
  "let (q', a) = queue_next now aging deadline q
   in queue_depth q' + length (answered_by a) = queue_depth q
    \<and> (queue_depth q = 0 \<longleftrightarrow> answered_by a = [])
    \<and> (a = Stop \<longleftrightarrow> queue_depth q = 0 \<and> qs_stop_requested q)
    \<and> (a = Idle \<longleftrightarrow> queue_depth q = 0 \<and> \<not> qs_stop_requested q)"
proof -
  obtain q' a where n: "queue_next now aging deadline q = (q', a)" by (metis surj_pair)
  from n show ?thesis
  proof (cases rule: queue_next_cases)
    case (reject rs)
    have "queue_depth q' + length rs = queue_depth q"
      using reject(2)
      by (auto simp: reap_def queue_depth_def split: admission.splits prod.splits dest!: sweep_depth)
    then show ?thesis using n reject(1,3) by (cases "queue_depth q = 0") auto
  next
    case (run j)
    have "queue_depth q' + 1 = queue_depth q"
      using run(3) by (auto simp: take_next_def Let_def front_def queue_depth_def
          split: list.splits if_splits)
    then show ?thesis using n run(1) by auto
  next
    case rest
    then show ?thesis using n by (auto simp: Let_def)
  qed
qed

end
