(* ===== verification/Envelope.thy ===== *)
theory Envelope
  imports Errors
begin

text \<open>
  The mailbox vocabulary (\<open>chiefd-core/src/store/mailbox.rs\<close>): the closed set of row states and the
  two terminal families, urgency, the message envelope and the row id its delivery is keyed by. The
  stored spellings are codecs in the sense of the prelude. Also the journal's \<open>HostActionPhase\<close> and
  \<open>HostActionRecord\<close> (\<open>host_action.rs\<close>), which the ledgers carry beside the mailbox.
\<close>

section \<open>Mailbox states\<close>

datatype mailbox_state = Pending | Delivered | Accepted | Superseded | Rejected | Resolved

datatype terminal_family = FenceArchive | PaneDrain

datatype urgency = Urgency_Normal | Urgency_Interrupt

fun urgency_as_str :: "urgency \<Rightarrow> string" where
  "urgency_as_str Urgency_Normal = ''normal''"
| "urgency_as_str Urgency_Interrupt = ''interrupt''"

definition urgency_parse :: "string \<Rightarrow> urgency option" where
  "urgency_parse raw =
     (if raw = ''normal'' then Some Urgency_Normal
      else if raw = ''interrupt'' then Some Urgency_Interrupt
      else None)"

fun mailbox_state_as_str :: "mailbox_state \<Rightarrow> string" where
  "mailbox_state_as_str Pending = ''pending''"
| "mailbox_state_as_str Delivered = ''delivered''"
| "mailbox_state_as_str Accepted = ''accepted''"
| "mailbox_state_as_str Superseded = ''superseded''"
| "mailbox_state_as_str Rejected = ''rejected''"
| "mailbox_state_as_str Resolved = ''resolved''"

definition mailbox_state_parse :: "string \<Rightarrow> mailbox_state option" where
  "mailbox_state_parse raw =
     (if raw = ''pending'' then Some Pending
      else if raw = ''delivered'' then Some Delivered
      else if raw = ''accepted'' then Some Accepted
      else if raw = ''superseded'' then Some Superseded
      else if raw = ''rejected'' then Some Rejected
      else if raw = ''resolved'' then Some Resolved
      else None)"

fun is_inbox_message :: "mailbox_state \<Rightarrow> bool" where
  "is_inbox_message Pending = True"
| "is_inbox_message Delivered = True"
| "is_inbox_message Accepted = False"
| "is_inbox_message Superseded = False"
| "is_inbox_message Rejected = False"
| "is_inbox_message Resolved = False"

fun supplies_launch_demand :: "mailbox_state \<Rightarrow> bool" where
  "supplies_launch_demand Pending = True"
| "supplies_launch_demand Delivered = False"
| "supplies_launch_demand Accepted = False"
| "supplies_launch_demand Superseded = False"
| "supplies_launch_demand Rejected = False"
| "supplies_launch_demand Resolved = False"

definition is_terminal :: "mailbox_state \<Rightarrow> bool" where
  "is_terminal s \<longleftrightarrow> s \<noteq> Pending"

fun terminal_family_of :: "mailbox_state \<Rightarrow> terminal_family option" where
  "terminal_family_of Pending = None"
| "terminal_family_of Delivered = Some FenceArchive"
| "terminal_family_of Accepted = Some PaneDrain"
| "terminal_family_of Superseded = Some PaneDrain"
| "terminal_family_of Rejected = Some PaneDrain"
| "terminal_family_of Resolved = Some PaneDrain"

definition is_fence_archived :: "mailbox_state \<Rightarrow> bool" where
  "is_fence_archived s \<longleftrightarrow> terminal_family_of s = Some FenceArchive"

definition is_pane_drained :: "mailbox_state \<Rightarrow> bool" where
  "is_pane_drained s \<longleftrightarrow> terminal_family_of s = Some PaneDrain"

section \<open>The envelope\<close>

record health_incident_ref =
  hi_fingerprint :: string
  hi_kind :: string
  hi_recipient_person_id :: string

record mailbox_envelope =
  env_schema_version :: nat
  env_id :: string
  env_organization :: string
  env_from_person_id :: string
  env_to :: string
  env_recipients :: "string list"
  env_body :: string
  env_urgency :: urgency
  env_reply_to :: "string option"
  env_health_incident :: "health_incident_ref option"
  env_created_at :: string

definition MAILBOX_ENVELOPE_SCHEMA_VERSION :: nat where "MAILBOX_ENVELOPE_SCHEMA_VERSION = 1"

definition row_id :: "mailbox_envelope \<Rightarrow> string \<Rightarrow> string" where
  "row_id env person = env_id env @ ''@'' @ person"

section \<open>Host actions\<close>

datatype host_action_phase = Phase_Pending | Phase_Published | Phase_Closed

fun phase_as_str :: "host_action_phase \<Rightarrow> string" where
  "phase_as_str Phase_Pending = ''pending''"
| "phase_as_str Phase_Published = ''published''"
| "phase_as_str Phase_Closed = ''closed''"

definition phase_parse :: "string \<Rightarrow> host_action_phase option" where
  "phase_parse raw =
     (if raw = ''pending'' then Some Phase_Pending
      else if raw = ''published'' then Some Phase_Published
      else if raw = ''closed'' then Some Phase_Closed
      else None)"

definition needs_recovery :: "host_action_phase \<Rightarrow> bool" where
  "needs_recovery p \<longleftrightarrow> p = Phase_Pending \<or> p = Phase_Published"

record host_action_record =
  ha_kind :: string
  ha_plan_json :: string
  ha_phase :: host_action_phase
  ha_created_at :: int

definition HOST_TXN_PAYLOAD_SCHEMA :: string where "HOST_TXN_PAYLOAD_SCHEMA = ''host-txn-v1''"
definition CONVERGE_INTENT_PAYLOAD_SCHEMA :: string where
  "CONVERGE_INTENT_PAYLOAD_SCHEMA = ''converge-intent-v1''"

definition payload_schema_for_kind :: "string \<Rightarrow> string" where
  "payload_schema_for_kind kind =
     (if kind = ''converge'' then CONVERGE_INTENT_PAYLOAD_SCHEMA else HOST_TXN_PAYLOAD_SCHEMA)"

definition host_action_pending :: "string \<Rightarrow> string \<Rightarrow> int \<Rightarrow> host_action_record" where
  "host_action_pending kind plan_json created_at =
     \<lparr>ha_kind = kind, ha_plan_json = plan_json, ha_phase = Phase_Pending, ha_created_at = created_at\<rparr>"

definition advanced_to :: "host_action_record \<Rightarrow> host_action_phase \<Rightarrow> host_action_record" where
  "advanced_to r phase = r\<lparr>ha_phase := phase\<rparr>"

section \<open>The spellings are codecs\<close>

interpretation mailbox_codec: codec mailbox_state_as_str mailbox_state_parse
proof unfold_locales
  show "mailbox_state_parse (mailbox_state_as_str x) = Some x" for x
    by (cases x) (simp_all add: mailbox_state_parse_def)
  show "mailbox_state_parse s = Some x \<Longrightarrow> s = mailbox_state_as_str x" for s x
    by (auto simp: mailbox_state_parse_def split: if_splits)
qed

interpretation urgency_codec: codec urgency_as_str urgency_parse
proof unfold_locales
  show "urgency_parse (urgency_as_str x) = Some x" for x
    by (cases x) (simp_all add: urgency_parse_def)
  show "urgency_parse s = Some x \<Longrightarrow> s = urgency_as_str x" for s x
    by (auto simp: urgency_parse_def split: if_splits)
qed

interpretation phase_codec: codec phase_as_str phase_parse
proof unfold_locales
  show "phase_parse (phase_as_str x) = Some x" for x
    by (cases x) (simp_all add: phase_parse_def)
  show "phase_parse s = Some x \<Longrightarrow> s = phase_as_str x" for s x
    by (auto simp: phase_parse_def split: if_splits)
qed

lemma terminal_families_partition:
  "is_terminal s \<longleftrightarrow> is_fence_archived s \<noteq> is_pane_drained s"
  "supplies_launch_demand s \<longleftrightarrow> \<not> is_terminal s"
  "is_inbox_message s \<longleftrightarrow> \<not> is_pane_drained s"
  by (cases s; simp add: is_terminal_def is_fence_archived_def is_pane_drained_def)+

lemma row_id_inj:
  assumes "row_id e p = row_id e' p'" "CHR ''@'' \<notin> set p" "CHR ''@'' \<notin> set p'"
  shows "env_id e = env_id e' \<and> p = p'"
proof -
  have split: "takeWhile (\<lambda>c. c \<noteq> CHR ''@'') (rev (i @ ''@'' @ q)) = rev q"
    if "CHR ''@'' \<notin> set q" for i q :: string
  proof -
    have "takeWhile (\<lambda>c. c \<noteq> CHR ''@'') (rev q @ CHR ''@'' # rev i) = rev q"
      using that by (subst takeWhile_append2) auto
    then show ?thesis by simp
  qed
  have "rev p = rev p'"
    using assms split[of p "env_id e"] split[of p' "env_id e'"] by (simp add: row_id_def)
  with assms(1) show ?thesis by (simp add: row_id_def)
qed

end
