(* ===== verification/Ledger.thy ===== *)
theory Ledger
  imports Envelope
begin

text \<open>
  The in-memory ledgers of one company (\<open>chiefd-core/src/ledger.rs\<close>): documents, host actions,
  effects, mailbox rows and counters, the difference of two versions that the writer persists, and the
  whole-ledger validation run before a commit.

  A document's body is an \<open>Arc<str>\<close> and \<open>changed_since\<close> compares the pointers, not the texts. So a
  record carries the address of its body (\<open>doc_ref\<close>) beside the text, and \<open>put_document\<close> takes the
  address the allocator returned. Whether a text is JSON, and whether it is a JSON object, are
  parameters (\<open>serde_json\<close>).
\<close>

record document_record =
  doc_body :: string
  doc_ref :: nat
  doc_updated_at :: int

record effect_row =
  ef_seq :: nat
  ef_kind :: string
  ef_body :: string
  ef_delivered_at :: "int option"

record mailbox_row =
  mb_person :: string
  mb_envelope :: mailbox_envelope
  mb_state :: string
  mb_updated_at :: int

definition NEXT_EFFECT_SEQUENCE :: string where "NEXT_EFFECT_SEQUENCE = ''next_effect_sequence''"

record ledgers =
  lg_now :: int
  lg_documents :: "(string, document_record) omap"
  lg_host_actions :: "(string, host_action_record) omap"
  lg_effects :: "(string, effect_row) omap"
  lg_mailbox :: "(string, mailbox_row) omap"
  lg_counters :: "(string, int) omap"

section \<open>The operations\<close>

definition ledgers_empty :: "int \<Rightarrow> ledgers" where
  "ledgers_empty now = \<lparr>lg_now = now, lg_documents = [], lg_host_actions = [], lg_effects = [],
     lg_mailbox = [], lg_counters = []\<rparr>"

definition set_now :: "int \<Rightarrow> ledgers \<Rightarrow> ledgers" where
  "set_now now l = l\<lparr>lg_now := now\<rparr>"

definition document :: "ledgers \<Rightarrow> string \<Rightarrow> document_record option" where
  "document l store = om_get (lg_documents l) store"

definition document_body :: "ledgers \<Rightarrow> string \<Rightarrow> string option" where
  "document_body l store = map_option doc_body (document l store)"

definition stores :: "ledgers \<Rightarrow> string list" where
  "stores l = om_keys (lg_documents l)"

definition put_document :: "nat \<Rightarrow> string \<Rightarrow> string \<Rightarrow> ledgers \<Rightarrow> ledgers" where
  "put_document ref store body l =
     l\<lparr>lg_documents := om_put store
         \<lparr>doc_body = body, doc_ref = ref, doc_updated_at = lg_now l\<rparr> (lg_documents l)\<rparr>"

definition remove_document :: "string \<Rightarrow> ledgers \<Rightarrow> ledgers \<times> bool" where
  "remove_document store l =
     (l\<lparr>lg_documents := om_del store (lg_documents l)\<rparr>, om_has (lg_documents l) store)"

definition load_document :: "string \<Rightarrow> document_record \<Rightarrow> ledgers \<Rightarrow> ledgers" where
  "load_document store rec l = l\<lparr>lg_documents := om_put store rec (lg_documents l)\<rparr>"

definition changed_since :: "ledgers \<Rightarrow> ledgers \<Rightarrow> (string \<times> document_record) list" where
  "changed_since l previous =
     filter (\<lambda>(store, rec). case om_get (lg_documents previous) store of
         None \<Rightarrow> True
       | Some prior \<Rightarrow> doc_ref rec \<noteq> doc_ref prior) (lg_documents l)"

definition removed_since :: "ledgers \<Rightarrow> ledgers \<Rightarrow> string list" where
  "removed_since l previous =
     filter (\<lambda>store. store \<notin> set (om_keys (lg_documents l))) (om_keys (lg_documents previous))"

definition open_host_actions :: "ledgers \<Rightarrow> (string \<times> host_action_record) list" where
  "open_host_actions l = sort_key (\<lambda>(aid, r). (ha_created_at r, aid)) (lg_host_actions l)"

definition put_host_action :: "string \<Rightarrow> host_action_record \<Rightarrow> ledgers \<Rightarrow> ledgers" where
  "put_host_action aid r l = l\<lparr>lg_host_actions := om_put aid r (lg_host_actions l)\<rparr>"

definition advance_host_action :: "string \<Rightarrow> host_action_phase \<Rightarrow> ledgers \<Rightarrow> ledgers \<times> bool" where
  "advance_host_action aid phase l = (case om_get (lg_host_actions l) aid of
     Some r \<Rightarrow> (l\<lparr>lg_host_actions := om_put aid (advanced_to r phase) (lg_host_actions l)\<rparr>, True)
   | None \<Rightarrow> (l, False))"

definition close_host_action :: "string \<Rightarrow> ledgers \<Rightarrow> ledgers \<times> bool" where
  "close_host_action aid l =
     (l\<lparr>lg_host_actions := om_del aid (lg_host_actions l)\<rparr>, om_has (lg_host_actions l) aid)"

definition effect_order :: "ledgers \<Rightarrow> string list" where
  "effect_order l = map snd (sort (map (\<lambda>(eid, row). (ef_seq row, eid)) (lg_effects l)))"

definition put_effect :: "string \<Rightarrow> effect_row \<Rightarrow> ledgers \<Rightarrow> ledgers" where
  "put_effect eid row l = l\<lparr>lg_effects := om_put eid row (lg_effects l)\<rparr>"

definition remove_effect :: "string \<Rightarrow> ledgers \<Rightarrow> ledgers \<times> bool" where
  "remove_effect eid l = (l\<lparr>lg_effects := om_del eid (lg_effects l)\<rparr>, om_has (lg_effects l) eid)"

definition mailbox :: "ledgers \<Rightarrow> string \<Rightarrow> mailbox_row option" where
  "mailbox l envelope_id = om_get (lg_mailbox l) envelope_id"

definition put_mailbox :: "string \<Rightarrow> mailbox_row \<Rightarrow> ledgers \<Rightarrow> ledgers" where
  "put_mailbox envelope_id row l = l\<lparr>lg_mailbox := om_put envelope_id row (lg_mailbox l)\<rparr>"

definition remove_mailbox :: "string \<Rightarrow> ledgers \<Rightarrow> ledgers \<times> bool" where
  "remove_mailbox envelope_id l =
     (l\<lparr>lg_mailbox := om_del envelope_id (lg_mailbox l)\<rparr>, om_has (lg_mailbox l) envelope_id)"

definition counter :: "ledgers \<Rightarrow> string \<Rightarrow> int" where
  "counter l name = (case om_get (lg_counters l) name of Some v \<Rightarrow> v | None \<Rightarrow> 0)"

definition set_counter :: "string \<Rightarrow> int \<Rightarrow> ledgers \<Rightarrow> ledgers" where
  "set_counter name v l = l\<lparr>lg_counters := om_put name v (lg_counters l)\<rparr>"

section \<open>The difference of two versions\<close>

record relational_diff =
  rd_effects :: "(string \<times> effect_row) list"
  rd_removed_effects :: "string list"
  rd_mailbox :: "(string \<times> mailbox_row) list"
  rd_removed_mailbox :: "string list"
  rd_counters :: "(string \<times> int) list"

definition changed :: "(string, 'v) omap \<Rightarrow> (string, 'v) omap \<Rightarrow> (string \<times> 'v) list" where
  "changed previous working = filter (\<lambda>(k, v). om_get previous k \<noteq> Some v) working"

definition removed :: "(string, 'v) omap \<Rightarrow> (string, 'v) omap \<Rightarrow> string list" where
  "removed previous working = filter (\<lambda>k. \<not> om_has working k) (om_keys previous)"

definition relational_diff_of :: "ledgers \<Rightarrow> ledgers \<Rightarrow> relational_diff" where
  "relational_diff_of previous working =
     \<lparr>rd_effects = changed (lg_effects previous) (lg_effects working),
      rd_removed_effects = removed (lg_effects previous) (lg_effects working),
      rd_mailbox = changed (lg_mailbox previous) (lg_mailbox working),
      rd_removed_mailbox = removed (lg_mailbox previous) (lg_mailbox working),
      rd_counters = changed (lg_counters previous) (lg_counters working)\<rparr>"

definition host_action_diff ::
  "ledgers \<Rightarrow> ledgers \<Rightarrow> (string \<times> host_action_record) list \<times> string list" where
  "host_action_diff previous working =
     (changed (lg_host_actions previous) (lg_host_actions working),
      removed (lg_host_actions previous) (lg_host_actions working))"

section \<open>Validation\<close>

definition validate_document :: "(string \<Rightarrow> bool) \<Rightarrow> string \<Rightarrow> document_record \<Rightarrow> refusal + unit" where
  "validate_document is_json store rec =
     (if \<not> is_json (doc_body rec)
      then Inl (with_routes (refusal_new ''document-body-not-json''
                  (''store '' @ quoted store @ '' body is not valid JSON''))
                [''write a serialized store document''])
      else Inr ())"

definition validate_host_action ::
  "(string \<Rightarrow> bool) \<Rightarrow> string \<times> host_action_record \<Rightarrow> refusal + unit" where
  "validate_host_action is_object e = (case e of (action_id, r) \<Rightarrow>
     if \<not> is_object (ha_plan_json r)
     then Inl (with_routes (refusal_new ''host-action-plan-not-object''
                 (''host action '' @ quoted action_id
                    @ '' must carry one schema-discriminated JSON object''))
               [''journal a typed host-transaction payload''])
     else if ha_kind r = []
     then Inl (refusal_new ''host-action-kind-empty''
                 (''host action '' @ quoted action_id @ '' has no kind''))
     else Inr ())"

text \<open>The loop over the effects: the sequences seen so far, and the highest.\<close>

definition validate_effect ::
  "nat set \<times> nat \<Rightarrow> string \<times> effect_row \<Rightarrow> refusal + (nat set \<times> nat)" where
  "validate_effect acc e = (case (acc, e) of ((seen, highest), (eid, row)) \<Rightarrow>
     if ef_seq row \<in> seen
     then Inl (refusal_new ''effect-sequence-duplicated''
                 (''effect '' @ quoted eid @ '' reuses sequence '' @ show_nat (ef_seq row)))
     else Inr (insert (ef_seq row) seen, max highest (ef_seq row)))"

definition validate_mailbox_row :: "string \<times> mailbox_row \<Rightarrow> refusal + unit" where
  "validate_mailbox_row e = (case e of (envelope_id, row) \<Rightarrow>
     if mb_person row = []
     then Inl (refusal_new ''mailbox-recipient-empty''
                 (''mailbox envelope '' @ quoted envelope_id @ '' has no recipient''))
     else if mb_state row \<notin> {''pending'', ''delivered'', ''accepted'', ''superseded'', ''rejected'',
                                ''resolved''}
     then Inl (refusal_new ''mailbox-state-unknown''
                 (''mailbox envelope '' @ quoted envelope_id @ '' has unknown state ''
                    @ quoted (mb_state row)))
     else if env_id (mb_envelope row) = []
     then Inl (refusal_new ''mailbox-envelope-id-empty''
                 (''mailbox envelope '' @ quoted envelope_id @ '' has an empty logical id''))
     else Inr ())"

definition validate_all :: "('a \<Rightarrow> refusal + unit) \<Rightarrow> 'a list \<Rightarrow> refusal + unit" where
  "validate_all f xs = res_fold (\<lambda>_. f) () xs"

definition validate_non_documents :: "(string \<Rightarrow> bool) \<Rightarrow> ledgers \<Rightarrow> refusal + unit" where
  "validate_non_documents is_object l =
     res_bind (validate_all (validate_host_action is_object) (lg_host_actions l)) (\<lambda>_.
     res_bind (res_fold validate_effect ({}, 0) (lg_effects l)) (\<lambda>(seen, highest).
       let next = counter l NEXT_EFFECT_SEQUENCE;
           initialized = (lg_effects l \<noteq> [] \<or> om_has (lg_counters l) NEXT_EFFECT_SEQUENCE)
       in if initialized \<and> next \<le> min (int highest) i64_max
          then Inl (refusal_new ''effect-sequence-not-monotonic''
                 (NEXT_EFFECT_SEQUENCE @ '' is '' @ show_int next
                    @ '', which is not beyond the highest issued sequence '' @ show_nat highest))
          else validate_all validate_mailbox_row (lg_mailbox l)))"

definition validate_since ::
  "(string \<Rightarrow> bool) \<Rightarrow> (string \<Rightarrow> bool) \<Rightarrow> ledgers \<Rightarrow> ledgers \<Rightarrow> refusal + unit" where
  "validate_since is_json is_object l previous =
     res_bind (validate_all (\<lambda>(store, rec). validate_document is_json store rec)
                 (changed_since l previous))
       (\<lambda>_. validate_non_documents is_object l)"

definition validate :: "(string \<Rightarrow> bool) \<Rightarrow> (string \<Rightarrow> bool) \<Rightarrow> ledgers \<Rightarrow> refusal + unit" where
  "validate is_json is_object l =
     res_bind (validate_all (\<lambda>(store, rec). validate_document is_json store rec) (lg_documents l))
       (\<lambda>_. validate_non_documents is_object l)"

section \<open>The snapshot\<close>

record ledger_snapshot =
  sn_ledgers :: ledgers
  sn_commit_seq :: nat

definition committed :: "ledgers \<Rightarrow> nat \<Rightarrow> ledger_snapshot" where
  "committed l commit_seq = \<lparr>sn_ledgers = l, sn_commit_seq = commit_seq\<rparr>"

section \<open>What validation accepts\<close>

lemma validate_all_iff: "validate_all f xs = Inr () \<longleftrightarrow> (\<forall>x \<in> set xs. f x = Inr ())"
  unfolding validate_all_def by (induction xs) (auto simp: res_bind_Inr_iff)

lemma validate_all_unit: "validate_all f xs = Inr u \<longleftrightarrow> (\<forall>x \<in> set xs. f x = Inr ())"
  using validate_all_iff by (cases u) simp

text \<open>
  A well-formed ledger: each map in key order, each plan a JSON object of a non-empty kind, the issued
  effect sequences distinct and all below the counter, each mailbox row addressed, in a known state and
  with a logical id.
\<close>

definition host_action_ok :: "(string \<Rightarrow> bool) \<Rightarrow> host_action_record \<Rightarrow> bool" where
  "host_action_ok is_object r \<longleftrightarrow> is_object (ha_plan_json r) \<and> ha_kind r \<noteq> []"

definition mailbox_row_ok :: "mailbox_row \<Rightarrow> bool" where
  "mailbox_row_ok row \<longleftrightarrow> mb_person row \<noteq> [] \<and> mailbox_state_parse (mb_state row) \<noteq> None
     \<and> env_id (mb_envelope row) \<noteq> []"

definition effects_ok :: "ledgers \<Rightarrow> bool" where
  "effects_ok l \<longleftrightarrow> distinct (map (ef_seq \<circ> snd) (lg_effects l))
     \<and> (lg_effects l \<noteq> [] \<or> om_has (lg_counters l) NEXT_EFFECT_SEQUENCE \<longrightarrow>
          0 < counter l NEXT_EFFECT_SEQUENCE
          \<and> (\<forall>(eid, row) \<in> set (lg_effects l).
               min (int (ef_seq row)) i64_max < counter l NEXT_EFFECT_SEQUENCE))"

lemma validate_document_iff:
  "validate_document is_json store rec = Inr () \<longleftrightarrow> is_json (doc_body rec)"
  by (simp add: validate_document_def)

lemma validate_host_action_iff:
  "validate_host_action is_object (aid, r) = Inr () \<longleftrightarrow> host_action_ok is_object r"
  by (simp add: validate_host_action_def host_action_ok_def)

lemma validate_mailbox_row_iff: "validate_mailbox_row (eid, row) = Inr () \<longleftrightarrow> mailbox_row_ok row"
  by (simp add: validate_mailbox_row_def mailbox_row_ok_def mailbox_state_parse_def)

lemma validate_effect_seen [simp]:
  "ef_seq row \<notin> seen \<Longrightarrow>
     validate_effect (seen, h) (eid, row) = Inr (insert (ef_seq row) seen, max h (ef_seq row))"
  "ef_seq row \<in> seen \<Longrightarrow> validate_effect (seen, h) (eid, row) \<noteq> Inr acc"
  by (simp_all add: validate_effect_def)

lemma validate_effects_iff:
  "res_fold validate_effect (seen, h) es = Inr (seen', h') \<longleftrightarrow>
     distinct (map (ef_seq \<circ> snd) es) \<and> set (map (ef_seq \<circ> snd) es) \<inter> seen = {}
   \<and> seen' = seen \<union> set (map (ef_seq \<circ> snd) es) \<and> h' = fold max (map (ef_seq \<circ> snd) es) h"
proof (induction es arbitrary: seen h)
  case (Cons e es)
  obtain eid row where e: "e = (eid, row)" by (cases e)
  show ?case
    by (cases "ef_seq row \<in> seen") (auto simp: e Cons.IH max.commute res_bind_Inr_iff)
qed auto

lemma fold_max_le: "fold max xs (h::nat) \<le> b \<longleftrightarrow> h \<le> b \<and> (\<forall>x \<in> set xs. x \<le> b)"
  by (induction xs arbitrary: h) auto

lemma fold_max_mem: "fold max xs (h::nat) = h \<or> fold max xs h \<in> set xs"
proof (induction xs arbitrary: h)
  case (Cons x xs)
  have "fold max xs (max x h) = max x h \<or> fold max xs (max x h) \<in> set xs" by (rule Cons.IH)
  then show ?case by (cases "x \<le> h") (auto simp: max_absorb1 max_absorb2)
qed simp

lemma highest_below:
  "min (int (fold max xs 0)) i64_max < c \<longleftrightarrow> 0 < c \<and> (\<forall>x \<in> set xs. min (int x) i64_max < c)"
proof -
  have ge: "x \<le> fold max xs 0" if "x \<in> set xs" for x
    using that fold_max_le[of xs 0 "fold max xs 0"] by auto
  have z: "0 \<le> i64_max" by (simp add: i64_max_def)
  show ?thesis
  proof
    assume l: "min (int (fold max xs 0)) i64_max < c"
    then have "0 < c" using z by linarith
    moreover have "min (int x) i64_max < c" if "x \<in> set xs" for x
      using l ge[OF that] by linarith
    ultimately show "0 < c \<and> (\<forall>x \<in> set xs. min (int x) i64_max < c)" by blast
  next
    assume "0 < c \<and> (\<forall>x \<in> set xs. min (int x) i64_max < c)"
    then show "min (int (fold max xs 0)) i64_max < c"
      using fold_max_mem[of xs 0] z by auto
  qed
qed

lemma validate_non_documents_iff:
  "validate_non_documents is_object l = Inr () \<longleftrightarrow>
     (\<forall>(aid, r) \<in> set (lg_host_actions l). host_action_ok is_object r)
   \<and> effects_ok l
   \<and> (\<forall>(eid, row) \<in> set (lg_mailbox l). mailbox_row_ok row)"
proof -
  let ?h = "fold max (map (ef_seq \<circ> snd) (lg_effects l)) 0"
  have ha: "validate_all (validate_host_action is_object) (lg_host_actions l) = Inr () \<longleftrightarrow>
      (\<forall>(aid, r) \<in> set (lg_host_actions l). host_action_ok is_object r)"
    by (auto simp: validate_all_iff validate_host_action_iff)
  have mb: "validate_all validate_mailbox_row (lg_mailbox l) = Inr () \<longleftrightarrow>
      (\<forall>(eid, row) \<in> set (lg_mailbox l). mailbox_row_ok row)"
    by (auto simp: validate_all_iff validate_mailbox_row_iff)
  have ef: "effects_ok l \<longleftrightarrow> distinct (map (ef_seq \<circ> snd) (lg_effects l))
      \<and> \<not> ((lg_effects l \<noteq> [] \<or> om_has (lg_counters l) NEXT_EFFECT_SEQUENCE)
           \<and> counter l NEXT_EFFECT_SEQUENCE \<le> min (int ?h) i64_max)"
  proof -
    have "(\<forall>(eid, row) \<in> set (lg_effects l). min (int (ef_seq row)) i64_max < counter l NEXT_EFFECT_SEQUENCE)
        \<longleftrightarrow> (\<forall>x \<in> set (map (ef_seq \<circ> snd) (lg_effects l)). min (int x) i64_max < counter l NEXT_EFFECT_SEQUENCE)"
      by force
    then show ?thesis
      using highest_below[of "map (ef_seq \<circ> snd) (lg_effects l)" "counter l NEXT_EFFECT_SEQUENCE"]
      unfolding effects_ok_def not_le[symmetric] by argo
  qed
  show ?thesis
    unfolding validate_non_documents_def Let_def
    by (auto simp: res_bind_Inr_iff ha mb ef validate_effects_iff split: if_splits)
qed

section \<open>Edits\<close>

text \<open>
  A mutation reaches a ledger only through its public operations. \<open>edit\<close> runs one of them, with the
  allocator's next address for the body a \<open>put_document\<close> writes.
\<close>

datatype ledger_edit =
    PutDocument string string
  | RemoveDocument string
  | PutHostAction string host_action_record
  | AdvanceHostAction string host_action_phase
  | CloseHostAction string
  | PutEffect string effect_row
  | RemoveEffect string
  | PutMailbox string mailbox_row
  | RemoveMailbox string
  | SetCounter string int

fun edit :: "nat \<times> ledgers \<Rightarrow> ledger_edit \<Rightarrow> nat \<times> ledgers" where
  "edit (n, l) (PutDocument store body) = (Suc n, put_document n store body l)"
| "edit (n, l) (RemoveDocument store) = (n, fst (remove_document store l))"
| "edit (n, l) (PutHostAction aid r) = (n, put_host_action aid r l)"
| "edit (n, l) (AdvanceHostAction aid ph) = (n, fst (advance_host_action aid ph l))"
| "edit (n, l) (CloseHostAction aid) = (n, fst (close_host_action aid l))"
| "edit (n, l) (PutEffect eid row) = (n, put_effect eid row l)"
| "edit (n, l) (RemoveEffect eid) = (n, fst (remove_effect eid l))"
| "edit (n, l) (PutMailbox eid row) = (n, put_mailbox eid row l)"
| "edit (n, l) (RemoveMailbox eid) = (n, fst (remove_mailbox eid l))"
| "edit (n, l) (SetCounter name v) = (n, set_counter name v l)"

definition ledger_wf :: "ledgers \<Rightarrow> bool" where
  "ledger_wf l \<longleftrightarrow> om_wf (lg_documents l) \<and> om_wf (lg_host_actions l) \<and> om_wf (lg_effects l)
     \<and> om_wf (lg_mailbox l) \<and> om_wf (lg_counters l)"

text \<open>
  Relative to the version \<open>base\<close> a transaction started from: every address in use is below the
  allocator's, an address below \<open>base\<close>'s mark still holds \<open>base\<close>'s record under the same store, and
  counters are never removed.
\<close>

definition edited_from :: "nat \<Rightarrow> ledgers \<Rightarrow> nat \<times> ledgers \<Rightarrow> bool" where
  "edited_from n0 base s \<longleftrightarrow> (case s of (n, l) \<Rightarrow>
     ledger_wf l \<and> n0 \<le> n
   \<and> (\<forall>store rec. document l store = Some rec \<longrightarrow> doc_ref rec < n
        \<and> (doc_ref rec < n0 \<longrightarrow> document base store = Some rec))
   \<and> set (om_keys (lg_counters base)) \<subseteq> set (om_keys (lg_counters l)))"

lemmas ledger_op_defs =
  put_document_def remove_document_def put_host_action_def advance_host_action_def
  close_host_action_def put_effect_def remove_effect_def put_mailbox_def remove_mailbox_def
  set_counter_def

lemma edit_wf: "ledger_wf l \<Longrightarrow> ledger_wf (snd (edit (n, l) e))"
  by (cases e) (auto simp: ledger_op_defs ledger_wf_def om_wf_put om_wf_del split: option.splits)

lemma edit_edited: "edited_from n0 base s \<Longrightarrow> edited_from n0 base (edit s e)"
proof (cases s)
  fix n l assume inv: "edited_from n0 base s" and s: "s = (n, l)"
  then have "ledger_wf (snd (edit (n, l) e))"
    by (intro edit_wf) (simp add: edited_from_def)
  then show ?thesis
    using inv s
    by (cases e) (auto simp: edited_from_def ledger_op_defs document_def store_simps set_om_put
        less_Suc_eq split: option.splits if_splits)
qed

interpretation edit_machine: step_machine edit "edited_from n0 base" for n0 base
  by unfold_locales (rule edit_edited)

text \<open>A base version all of whose addresses are below the mark.\<close>

definition allocated :: "nat \<Rightarrow> ledgers \<Rightarrow> bool" where
  "allocated n l \<longleftrightarrow> ledger_wf l \<and> list_all (\<lambda>(store, rec). doc_ref rec < n) (lg_documents l)"

lemma edited_from_base: "allocated n base \<Longrightarrow> edited_from n base (n, set_now t base)"
  by (auto simp: allocated_def edited_from_def set_now_def ledger_wf_def document_def om_mem_iff[symmetric]
      list_all_iff)

lemma edits_edited:
  "allocated n base \<Longrightarrow> foldl edit (n, set_now t base) es = (n', l) \<Longrightarrow> edited_from n base (n', l)"
  using edit_machine.run_inv[OF edited_from_base] by metis

lemma unchanged_document:
  assumes "edited_from n base (n', l)" "allocated n base" "document l store = Some rec"
  shows "(store, rec) \<in> set (changed_since l base) \<or> document base store = Some rec"
proof (cases "document base store")
  case None
  then show ?thesis using assms(1,3)
    by (auto simp: changed_since_def document_def edited_from_def ledger_wf_def om_mem_iff)
next
  case (Some prior)
  then have "doc_ref prior < n"
    using assms(2) by (auto simp: allocated_def document_def list_all_iff dest!: om_get_Some_mem)
  then show ?thesis using assms(1,3) Some
    by (auto simp: changed_since_def document_def edited_from_def ledger_wf_def om_mem_iff)
qed

lemma validate_iff:
  assumes "om_wf (lg_documents l)"
  shows "validate is_json is_object l = Inr () \<longleftrightarrow>
     (\<forall>store rec. document l store = Some rec \<longrightarrow> is_json (doc_body rec))
   \<and> validate_non_documents is_object l = Inr ()"
  using assms
  by (auto simp: validate_def res_bind_Inr_iff validate_all_unit validate_document_iff document_def
      om_mem_iff[symmetric] split: prod.splits)

lemma validate_since_iff:
  "validate_since is_json is_object l base = Inr () \<longleftrightarrow>
     (\<forall>(store, rec) \<in> set (changed_since l base). is_json (doc_body rec))
   \<and> validate_non_documents is_object l = Inr ()"
  by (auto simp: validate_since_def res_bind_Inr_iff validate_all_unit validate_document_iff
      split: prod.splits)

text \<open>
  C30. The incremental validation is the full one. However a mutation edits a valid ledger through its
  public operations, \<open>validate_since\<close> against the version it started from (which parses only the bodies
  whose pointer moved) accepts exactly what the whole-ledger \<open>validate\<close> accepts.
\<close>

theorem validate_since_is_validate:
  assumes "allocated n base" "validate is_json is_object base = Inr ()"
    and "foldl edit (n, set_now t base) es = (n', l)"
  shows "validate_since is_json is_object l base = Inr () \<longleftrightarrow> validate is_json is_object l = Inr ()"
proof -
  note ed = edits_edited[OF assms(1,3)]
  then have wf: "om_wf (lg_documents l)" by (simp add: edited_from_def ledger_wf_def)
  have wfb: "om_wf (lg_documents base)" using assms(1) by (simp add: allocated_def ledger_wf_def)
  have "document l store = Some rec" if "(store, rec) \<in> set (changed_since l base)" for store rec
    using that wf by (simp add: changed_since_def document_def om_mem_iff)
  moreover have "is_json (doc_body rec)" if "document base store = Some rec" for store rec
    using assms(2) that validate_iff[OF wfb] by blast
  ultimately show ?thesis
    using unchanged_document[OF ed assms(1)] unfolding validate_since_iff validate_iff[OF wf] by blast
qed

theorem validate_since_is_validate_witness:
  "validate_since (\<lambda>s. s \<noteq> []) (\<lambda>_. True)
     (snd (foldl edit (1, ledgers_empty 5) [PutDocument ''a'' ''{}'', SetCounter ''k'' 1])) (ledgers_empty 5)
   = Inr ()"
  using validate_since_is_validate[of 1 "ledgers_empty 5" "\<lambda>s. s \<noteq> []" "\<lambda>_. True" 5
      "[PutDocument ''a'' ''{}'', SetCounter ''k'' 1]"]
  by (simp add: allocated_def ledger_wf_def ledgers_empty_def set_now_def validate_def validate_all_def
      validate_non_documents_def NEXT_EFFECT_SEQUENCE_def om_has_def om_get_def ledger_op_defs
      validate_document_def)

text \<open>
  Nothing edited escapes the pointer comparison. After any edits, a document either is reported as
  changed or is exactly the record the base held, and a store the base held is reported as removed or is
  still there: writing the changed and deleting the removed carries the base's documents to the new ones.
\<close>

theorem document_changes_complete:
  assumes "allocated n base" "foldl edit (n, set_now t base) es = (n', l)"
  shows "document l store =
     (case map_of (changed_since l base) store of
        Some rec \<Rightarrow> Some rec
      | None \<Rightarrow> if store \<in> set (removed_since l base) then None else document base store)"
proof -
  note ed = edits_edited[OF assms]
  then have wf: "om_wf (lg_documents l)" by (simp add: edited_from_def ledger_wf_def)
  have ch: "map_of (changed_since l base) store = (case document l store of
      Some rec \<Rightarrow> if (store, rec) \<in> set (changed_since l base) then Some rec else None | None \<Rightarrow> None)"
    using om_get_filter[OF wf] om_mem_iff[OF wf, of store]
    by (auto simp: changed_since_def om_get_def document_def split: option.splits)
  show ?thesis
  proof (cases "document l store")
    case None
    then show ?thesis unfolding ch by (simp add: removed_since_def document_def om_keys_iff)
  next
    case (Some rec)
    then show ?thesis using unchanged_document[OF ed assms(1) Some] unfolding ch
      by (auto simp: removed_since_def document_def om_keys_iff)
  qed
qed

theorem document_changes_complete_witness:
  "let l = snd (foldl edit (1, ledgers_empty 5) [PutDocument ''a'' ''1'', RemoveDocument ''a'', PutDocument ''b'' ''2''])
   in document l ''b'' = map_of (changed_since l (ledgers_empty 5)) ''b''"
  using document_changes_complete[of 1 "ledgers_empty 5" 5
      "[PutDocument ''a'' ''1'', RemoveDocument ''a'', PutDocument ''b'' ''2'']" _ _ "''b''"]
  by (simp add: allocated_def ledger_wf_def ledgers_empty_def set_now_def ledger_op_defs document_def
      om_get_def changed_since_def om_del_def Let_def)

end
