(* ===== verification/Company_Tables.thy ===== *)
theory Company_Tables
  imports Isotime Ledger Write_Queue
begin

text \<open>
  The company database as the writer sees it: the errors of SQLite and what they are reported as
  (\<open>actor/writer.rs\<close>), the tables a commit writes and their cells, the statements that upsert and delete
  a row, and the row transaction every normalized store publishes through (\<open>store/rows_txn.rs\<close>): a
  store's typed diff returns the entities it touched, and each gets an \<open>org_events\<close> row whose sequence
  number is allocated from the company's row of the shared \<open>counters\<close> table.

  The rows of the stores themselves, and whatever else the database holds, are the type \<open>'d\<close>.
\<close>

section \<open>SQLite errors\<close>

datatype sqlite_code =
  SystemIoFailure | DiskFull | DatabaseCorrupt | NotADatabase | DatabaseBusy | DatabaseLocked | OtherCode

record sqlite_error =
  sq_code :: "sqlite_code option"
  sq_debug :: string

definition COMPANY_DB_STORE :: string where "COMPANY_DB_STORE = ''company-db''"
definition STORAGE_UNWRITABLE :: string where "STORAGE_UNWRITABLE = ''storage-unwritable''"

definition storage_failure :: "sqlite_error \<Rightarrow> chiefd_error option" where
  "storage_failure err =
     (if sq_code err \<in> {Some SystemIoFailure, Some DiskFull}
      then Some (Unavailable STORAGE_UNWRITABLE) else None)"

definition write_failure :: "sqlite_error \<Rightarrow> chiefd_error" where
  "write_failure err = (case storage_failure err of
     Some e \<Rightarrow> e
   | None \<Rightarrow>
       if sq_code err \<in> {Some DatabaseCorrupt, Some NotADatabase}
       then Corrupt COMPANY_DB_STORE (sq_debug err)
       else StoreFailure COMPANY_DB_STORE (sq_debug err))"

definition begin_failure :: "sqlite_error \<Rightarrow> nat \<Rightarrow> chiefd_error" where
  "begin_failure err waited =
     (if sq_code err \<in> {Some DatabaseBusy, Some DatabaseLocked}
      then Busy (after_waiting waited QUEUE_BUSY_SITE)
      else write_failure err)"

section \<open>The relational tables\<close>

record host_action_cells =
  hc_kind :: string
  hc_payload_schema :: string
  hc_plan_json :: string
  hc_phase :: string
  hc_created_at :: int

record 'e effect_cells =
  ec_seq :: int
  ec_kind :: string
  ec_effect :: 'e

record mailbox_cells =
  mc_id :: string
  mc_person :: string
  mc_from_person_id :: string
  mc_to_person_id :: string
  mc_message :: string
  mc_urgency :: string
  mc_reply_to :: "string option"
  mc_health_fingerprint :: "string option"
  mc_health_kind :: "string option"
  mc_health_recipient_person_id :: "string option"
  mc_created_at :: string
  mc_state :: string
  mc_updated_at :: int

text \<open>
  One entity a publish touched, and the row of the company's event feed it becomes. \<open>touch_new\<close> is
  \<open>EventTouch::new\<close>.
\<close>

record event_touch =
  et_entity :: string
  et_entity_id :: string
  et_op :: string
  et_detail_ref :: "string option"

definition touch_new :: "string \<Rightarrow> string \<Rightarrow> string \<Rightarrow> string \<Rightarrow> string \<Rightarrow> event_touch" where
  "touch_new entity entity_id op table slug =
     \<lparr>et_entity = entity, et_entity_id = entity_id, et_op = op,
      et_detail_ref = Some (table @ '':'' @ slug @ ''/'' @ entity_id)\<rparr>"

record org_event =
  oe_slug :: string
  oe_seq :: int
  oe_entity :: string
  oe_entity_id :: string
  oe_op :: string
  oe_actor :: string
  oe_at :: string
  oe_detail_ref :: "string option"

record ('d, 'e) company_db =
  db_documents :: 'd
  db_host_actions :: "(string, host_action_cells) omap"
  db_effects :: "(string, 'e effect_cells) omap"
  db_mailbox :: "(string, mailbox_cells) omap"
  db_counters :: "(string, int) omap"
  db_org_events :: "org_event list"

definition host_action_row :: "host_action_record \<Rightarrow> host_action_cells" where
  "host_action_row r = \<lparr>hc_kind = ha_kind r, hc_payload_schema = payload_schema_for_kind (ha_kind r),
     hc_plan_json = ha_plan_json r, hc_phase = phase_as_str (ha_phase r),
     hc_created_at = ha_created_at r\<rparr>"

definition write_mailbox_row :: "mailbox_row \<Rightarrow> mailbox_cells" where
  "write_mailbox_row row = (let e = mb_envelope row; h = env_health_incident e in
     \<lparr>mc_id = env_id e, mc_person = mb_person row, mc_from_person_id = env_from_person_id e,
      mc_to_person_id = env_to e, mc_message = env_body e, mc_urgency = urgency_as_str (env_urgency e),
      mc_reply_to = env_reply_to e, mc_health_fingerprint = map_option hi_fingerprint h,
      mc_health_kind = map_option hi_kind h,
      mc_health_recipient_person_id = map_option hi_recipient_person_id h,
      mc_created_at = env_created_at e, mc_state = mb_state row, mc_updated_at = mb_updated_at row\<rparr>)"

definition effect_cells_of :: "effect_row \<Rightarrow> 'e \<Rightarrow> 'e effect_cells" where
  "effect_cells_of row eff =
     \<lparr>ec_seq = min (int (ef_seq row)) i64_max, ec_kind = ef_kind row, ec_effect = eff\<rparr>"

definition counter_key :: "string \<Rightarrow> string \<Rightarrow> string" where
  "counter_key slug name = name @ '':'' @ slug"

text \<open>
  What a store's row writer did inside the transaction: the rows as it leaves them, the instant it stamps
  on its events and the entities it touched. The activity port also reports the last transition sequence
  it allocated, which it keeps in a counter of its own.
\<close>

record 'd row_write =
  rw_rows :: 'd
  rw_transitions :: "int option"
  rw_at :: string
  rw_touches :: "event_touch list"

text \<open>
  What the storage does: whether \<open>BEGIN\<close>, \<open>COMMIT\<close> and each statement (by table and key) fail, what the
  typed diff of each store makes of the database, and how an effect's JSON decodes to its columns.
\<close>

record ('d, 'e) storage =
  st_begin :: "sqlite_error option"
  st_exec :: "string \<Rightarrow> string \<Rightarrow> sqlite_error option"
  st_commit :: "sqlite_error option"
  st_write_store :: "string \<Rightarrow> string \<Rightarrow> ('d, 'e) company_db \<Rightarrow> chiefd_error + 'd row_write"
  st_clear_store :: "string \<Rightarrow> string \<Rightarrow> ('d, 'e) company_db \<Rightarrow> chiefd_error + 'd row_write"
  st_decode_effect :: "string \<Rightarrow> sqlite_error + 'e"

definition upsert_row ::
  "('d, 'e) storage \<Rightarrow> string \<Rightarrow> ('v \<Rightarrow> sqlite_error + 'c) \<Rightarrow> (string, 'c) omap \<Rightarrow> string \<times> 'v
     \<Rightarrow> sqlite_error + (string, 'c) omap" where
  "upsert_row st table cells t e = (case e of (k, v) \<Rightarrow>
     res_bind (cells v) (\<lambda>c. case st_exec st table k of Some err \<Rightarrow> Inl err | None \<Rightarrow> Inr (om_put k c t)))"

definition delete_row ::
  "('d, 'e) storage \<Rightarrow> string \<Rightarrow> (string, 'c) omap \<Rightarrow> string \<Rightarrow> sqlite_error + (string, 'c) omap" where
  "delete_row st table t k =
     (case st_exec st table k of Some err \<Rightarrow> Inl err | None \<Rightarrow> Inr (om_del k t))"

text \<open>One table: upsert what changed, then delete what is gone.\<close>

definition write_table ::
  "('d, 'e) storage \<Rightarrow> string \<Rightarrow> ('v \<Rightarrow> sqlite_error + 'c) \<Rightarrow> (string \<times> 'v) list \<Rightarrow> string list
     \<Rightarrow> (string, 'c) omap \<Rightarrow> sqlite_error + (string, 'c) omap" where
  "write_table st table cells upserts deletes t =
     res_bind (res_fold (upsert_row st table cells) t upserts)
       (\<lambda>t'. res_fold (delete_row st table) t' deletes)"

section \<open>The row transaction\<close>

definition org_events_counter_key :: "string \<Rightarrow> string" where
  "org_events_counter_key slug = ''org-events:'' @ slug"

definition staffing_counter_key :: "string \<Rightarrow> string" where
  "staffing_counter_key slug = ''staffing:'' @ slug"

definition transitions_counter_key :: "string \<Rightarrow> string" where
  "transitions_counter_key slug = ''transitions:'' @ slug"

text \<open>
  The upsert inserts 1 or adds 1, and the value is read back. A failing statement on the counter's row
  stands for either of the two.
\<close>

definition allocate_seq ::
  "('d, 'e) storage \<Rightarrow> string \<Rightarrow> (string, int) omap \<Rightarrow> sqlite_error + (string, int) omap \<times> int" where
  "allocate_seq st key t = (case st_exec st ''counters'' key of
     Some err \<Rightarrow> Inl err
   | None \<Rightarrow> (let seq = (case om_get t key of None \<Rightarrow> 1 | Some v \<Rightarrow> v + 1) in Inr (om_put key seq t, seq)))"

definition feed_seqs :: "string \<Rightarrow> org_event list \<Rightarrow> int list" where
  "feed_seqs slug evs = map oe_seq (filter (\<lambda>e. oe_slug e = slug) evs)"

definition current_seq :: "('d, 'e) storage \<Rightarrow> string \<Rightarrow> org_event list \<Rightarrow> sqlite_error + int" where
  "current_seq st slug evs = (case st_exec st ''org_events'' slug of
     Some err \<Rightarrow> Inl err
   | None \<Rightarrow> Inr (if feed_seqs slug evs = [] then 0 else Max (set (feed_seqs slug evs))))"

text \<open>The primary key of \<open>org_events\<close> is the slug and the sequence: a second row under it is refused.\<close>

definition primary_key_clash :: sqlite_error where
  "primary_key_clash = \<lparr>sq_code = Some OtherCode, sq_debug =
     ''SqliteFailure(Error { code: ConstraintViolation, extended_code: 1555 }, Some('' @
     [CHR 0x22] @ ''UNIQUE constraint failed: org_events.slug, org_events.seq'' @ [CHR 0x22] @ ''))''\<rparr>"

definition insert_event :: "('d, 'e) storage \<Rightarrow> org_event \<Rightarrow> org_event list \<Rightarrow> sqlite_error + org_event list" where
  "insert_event st ev evs =
     (case st_exec st ''org_events'' (oe_slug ev @ ''/'' @ show_nat (nat (oe_seq ev))) of
        Some err \<Rightarrow> Inl err
      | None \<Rightarrow> if oe_seq ev \<in> set (feed_seqs (oe_slug ev) evs) then Inl primary_key_clash
                else Inr (evs @ [ev]))"

definition emit_touch ::
  "('d, 'e) storage \<Rightarrow> string \<Rightarrow> string \<Rightarrow> string
     \<Rightarrow> ((string, int) omap \<times> org_event list) \<times> int \<Rightarrow> event_touch
     \<Rightarrow> sqlite_error + ((string, int) omap \<times> org_event list) \<times> int" where
  "emit_touch st slug at actor s touch = (case s of ((cn, evs), _) \<Rightarrow>
     res_bind (allocate_seq st (org_events_counter_key slug) cn) (\<lambda>(cn', seq).
     res_bind (insert_event st \<lparr>oe_slug = slug, oe_seq = seq, oe_entity = et_entity touch,
                 oe_entity_id = et_entity_id touch, oe_op = et_op touch, oe_actor = actor, oe_at = at,
                 oe_detail_ref = et_detail_ref touch\<rparr> evs) (\<lambda>evs'.
     Inr ((cn', evs'), seq))))"

text \<open>
  The typed diff runs first and may refuse; then one event per touched entity. The answer carries the
  last sequence allocated, or the feed's current one when nothing was touched. \<open>lift\<close> is the port's
  \<open>From<rusqlite::Error>\<close>.
\<close>

definition apply_and_emit ::
  "(sqlite_error \<Rightarrow> chiefd_error) \<Rightarrow> ('d, 'e) storage \<Rightarrow> string \<Rightarrow> string \<Rightarrow> string
     \<Rightarrow> (('d, 'e) company_db \<Rightarrow> chiefd_error + ('d, 'e) company_db \<times> event_touch list)
     \<Rightarrow> ('d, 'e) company_db \<Rightarrow> chiefd_error + ('d, 'e) company_db \<times> int" where
  "apply_and_emit lift st slug at actor diff db =
     res_bind (diff db) (\<lambda>(db1, touches).
     res_bind (map_err lift (current_seq st slug (db_org_events db1))) (\<lambda>last.
     res_bind (map_err lift (res_fold (emit_touch st slug at actor)
                 ((db_counters db1, db_org_events db1), last) touches)) (\<lambda>((cn, evs), seq).
     Inr (db1\<lparr>db_counters := cn, db_org_events := evs\<rparr>, seq))))"

text \<open>The activity port raises its own counter, never below its value.\<close>

definition raise_transitions ::
  "('d, 'e) storage \<Rightarrow> string \<Rightarrow> int option \<Rightarrow> (string, int) omap \<Rightarrow> sqlite_error + (string, int) omap" where
  "raise_transitions st slug raised t = (case raised of
     None \<Rightarrow> Inr t
   | Some n \<Rightarrow> (case st_exec st ''counters'' (transitions_counter_key slug) of
       Some err \<Rightarrow> Inl err
     | None \<Rightarrow> Inr (om_put (transitions_counter_key slug)
         (case om_get t (transitions_counter_key slug) of None \<Rightarrow> n | Some v \<Rightarrow> max v n) t)))"

text \<open>The label a store's row port puts on a statement that failed.\<close>

definition row_port_label :: "string \<Rightarrow> string" where
  "row_port_label store = (if store = ''activity'' then ''activity'' else store @ ''-rows'')"

definition row_port_failure :: "string \<Rightarrow> sqlite_error \<Rightarrow> chiefd_error" where
  "row_port_failure store err = StoreFailure (row_port_label store) (sq_debug err)"

text \<open>A store's publish: its typed diff inside the scaffold, with no actor named.\<close>

definition publish_rows ::
  "('d, 'e) storage \<Rightarrow> string \<Rightarrow> string \<Rightarrow> ('d, 'e) company_db \<Rightarrow> 'd row_write
     \<Rightarrow> chiefd_error + ('d, 'e) company_db" where
  "publish_rows st slug store db w =
     res_bind (apply_and_emit (row_port_failure store) st slug (rw_at w) []
         (\<lambda>d. res_bind (map_err (row_port_failure store)
                  (raise_transitions st slug (if store = ''activity'' then rw_transitions w else None)
                     (db_counters d))) (\<lambda>cn.
                Inr (d\<lparr>db_documents := rw_rows w, db_counters := cn\<rparr>, rw_touches w))) db)
       (\<lambda>(db', _). Inr db')"

end
