(* ===== verification/Writer.thy ===== *)
theory Writer
  imports Company_Tables "HOL-Library.Multiset"
begin

text \<open>
  The writer actor (\<open>chiefd-core/src/actor/writer.rs\<close>): one thread, one connection, one job at a
  time. \<open>run_job\<close> is a job's single transaction, \<open>persist\<close> writes the difference of the two ledger
  versions, \<open>actor_turn\<close> is one pass of \<open>writer_loop\<close>, and \<open>mutate\<close>, \<open>quiesce\<close> and \<open>shutdown\<close> are
  the callers' side. The dispatch by store name is \<open>store/persist_dispatch.rs\<close>.

  SQLite is a parameter, with its documented transaction behaviour: a write inside a transaction is
  visible only after \<open>COMMIT\<close> succeeded, dropping the transaction rolls it back. The record \<open>storage\<close>
  says which of \<open>BEGIN\<close>, the statements and \<open>COMMIT\<close> fail, what the typed diff of each store makes of
  its rows \<open>'d\<close> and which entities it reports touched, and how an effect's JSON decodes to its columns
  \<open>'e\<close>. The events and the sequence numbers of what was touched are written by the row transaction of
  \<open>Company_Tables\<close>. A job's closures are functions of the model.
\<close>

definition effect_row_cells :: "('d, 'e) storage \<Rightarrow> effect_row \<Rightarrow> sqlite_error + 'e effect_cells" where
  "effect_row_cells st row =
     res_bind (st_decode_effect st (ef_body row)) (\<lambda>eff. Inr (effect_cells_of row eff))"

definition persist_relational_tail ::
  "('d, 'e) storage \<Rightarrow> string \<Rightarrow> ledgers \<Rightarrow> ledgers \<Rightarrow> ('d, 'e) company_db
     \<Rightarrow> sqlite_error + ('d, 'e) company_db" where
  "persist_relational_tail st slug previous working db =
     (let (ha_changed, ha_removed) = host_action_diff previous working;
          rel = relational_diff_of previous working
      in res_bind (write_table st ''host_actions'' (\<lambda>r. Inr (host_action_row r)) ha_changed ha_removed
                     (db_host_actions db)) (\<lambda>ha.
         res_bind (write_table st ''effects'' (effect_row_cells st) (rd_effects rel)
                     (rd_removed_effects rel) (db_effects db)) (\<lambda>ef.
         res_bind (write_table st ''mailbox'' (\<lambda>r. Inr (write_mailbox_row r)) (rd_mailbox rel)
                     (rd_removed_mailbox rel) (db_mailbox db)) (\<lambda>mb.
         res_bind (res_fold (upsert_row st ''counters'' Inr) (db_counters db)
                     (map (\<lambda>(name, v). (counter_key slug name, v)) (rd_counters rel))) (\<lambda>cn.
         Inr (db\<lparr>db_host_actions := ha, db_effects := ef, db_mailbox := mb, db_counters := cn\<rparr>))))))"

section \<open>Dispatch by store name\<close>

definition ORGANIZATION_MANIFEST_STORE :: string where "ORGANIZATION_MANIFEST_STORE = ''org-manifest''"

definition persist_arms :: "string list" where
  "persist_arms = [''launch-intent'', ''goal-delivery-quiesce'', ''converge-safety'', ''health-monitor'',
     ''session-maintenance'', ''session-epoch'', ''runtime-owner'', ''operator-escalation-intents'',
     ''operator-escalation-push'', ORGANIZATION_MANIFEST_STORE, ''supervision'', ''activity'',
     ''supervisor-watermark'']"

definition clear_arms :: "string list" where
  "clear_arms = [''launch-intent'', ''goal-delivery-quiesce'', ''converge-safety'',
     ''supervisor-watermark'', ''health-monitor'', ''session-maintenance'']"

text \<open>
  A wired store's row writer answers its typed diff, which \<open>publish_rows\<close> writes and journals; a clear
  is stamped with the instant of the commit.
\<close>

definition dispatch_persist ::
  "('d, 'e) storage \<Rightarrow> string \<Rightarrow> string \<Rightarrow> string \<Rightarrow> ('d, 'e) company_db
     \<Rightarrow> (chiefd_error + ('d, 'e) company_db) option" where
  "dispatch_persist st slug store body db =
     (if store \<in> set persist_arms
      then Some (res_bind (st_write_store st store body db) (publish_rows st slug store db)) else None)"

definition dispatch_clear ::
  "('d, 'e) storage \<Rightarrow> string \<Rightarrow> string \<Rightarrow> string \<Rightarrow> ('d, 'e) company_db
     \<Rightarrow> (chiefd_error + ('d, 'e) company_db) option" where
  "dispatch_clear st slug store at db =
     (if store \<in> set clear_arms
      then Some (res_bind (st_clear_store st store at db)
        (\<lambda>w. publish_rows st slug store db (w\<lparr>rw_at := at\<rparr>))) else None)"

definition is_wired :: "string \<Rightarrow> bool" where
  "is_wired store \<longleftrightarrow> store \<in>
     {''launch-intent'', ''goal-delivery-quiesce'', ''converge-safety'', ''session-epoch'',
      ''runtime-owner'', ''operator-escalation-intents'', ''operator-escalation-push'',
      ORGANIZATION_MANIFEST_STORE, ''supervision'', ''activity'', ''supervisor-watermark'',
      ''health-monitor'', ''session-maintenance''}"

definition persist_store ::
  "('d, 'e) storage \<Rightarrow> string \<Rightarrow> ('d, 'e) company_db \<Rightarrow> string \<times> document_record
     \<Rightarrow> chiefd_error + ('d, 'e) company_db" where
  "persist_store st slug db e = (case e of (store, rec) \<Rightarrow>
     (case dispatch_persist st slug store (doc_body rec) db of
        Some r \<Rightarrow> r
      | None \<Rightarrow> Inl (StoreFailure COMPANY_DB_STORE
                  (''store '' @ quoted store @ '' has no persist dispatch arm''))))"

definition clear_store ::
  "('d, 'e) storage \<Rightarrow> string \<Rightarrow> string \<Rightarrow> ('d, 'e) company_db \<Rightarrow> string
     \<Rightarrow> chiefd_error + ('d, 'e) company_db" where
  "clear_store st slug at db store = (case dispatch_clear st slug store at db of
     Some r \<Rightarrow> r
   | None \<Rightarrow> Inl (StoreFailure COMPANY_DB_STORE
               (''store '' @ quoted store @ '' has no clear dispatch arm'')))"

definition persist ::
  "('d, 'e) storage \<Rightarrow> string \<Rightarrow> ledgers \<Rightarrow> ledgers \<Rightarrow> ('d, 'e) company_db
     \<Rightarrow> chiefd_error + ('d, 'e) company_db" where
  "persist st slug previous working db =
     (let changed = sort_key (\<lambda>(store, _). (store \<noteq> ORGANIZATION_MANIFEST_STORE, store))
                      (changed_since working previous);
          removal_at = iso_millis (lg_now working)
      in res_bind (res_fold (persist_store st slug) db changed) (\<lambda>db1.
         res_bind (res_fold (clear_store st slug removal_at) db1 (removed_since working previous)) (\<lambda>db2.
         map_err write_failure (persist_relational_tail st slug previous working db2))))"

section \<open>One job\<close>

record feed_event =
  fe_store :: string
  fe_body :: string
  fe_updated_at :: string
  fe_removed :: bool

record current_job =
  cj_name :: string
  cj_class :: mutation_class
  cj_enqueued_ms :: nat

record ('d, 'e, 't) job_closures =
  jc_txn :: "(('d, 'e) company_db \<Rightarrow> chiefd_error + ('d, 'e) company_db) option"
  jc_apply :: "ledgers \<Rightarrow> chiefd_error + ledgers \<times> 't"
  jc_post_commit :: "(ledgers \<Rightarrow> ledgers) option"

record ('d, 'e) writer_shared =
  ws_snapshot :: ledger_snapshot
  ws_db :: "('d, 'e) company_db"
  ws_feed_sink :: "feed_event list option"
  ws_current :: "current_job option"

text \<open>\<open>finish\<close> clears the running job before it answers the caller.\<close>

definition finish ::
  "('d, 'e) writer_shared \<Rightarrow> 'r \<Rightarrow> ('d, 'e) writer_shared \<times> 'r" where
  "finish w outcome = (w\<lparr>ws_current := None\<rparr>, outcome)"

definition feed_events :: "ledgers \<Rightarrow> ledgers \<Rightarrow> feed_event list" where
  "feed_events base working =
     map (\<lambda>(store, rec). \<lparr>fe_store = store, fe_body = doc_body rec,
            fe_updated_at = iso_millis (doc_updated_at rec), fe_removed = False\<rparr>)
       (changed_since working base)
     @ map (\<lambda>store. \<lparr>fe_store = store, fe_body = [], fe_updated_at = [], fe_removed = True\<rparr>)
       (removed_since working base)"

text \<open>The part of the transaction before \<open>COMMIT\<close>: the row step, the edits, validation, persistence.\<close>

definition transaction ::
  "('d, 'e) storage \<Rightarrow> (string \<Rightarrow> bool) \<Rightarrow> (string \<Rightarrow> bool) \<Rightarrow> string \<Rightarrow> int \<Rightarrow> ledgers
     \<Rightarrow> ('d, 'e) company_db \<Rightarrow> ('d, 'e, 't) job_closures
     \<Rightarrow> chiefd_error + (('d, 'e) company_db \<times> ledgers \<times> 't)" where
  "transaction st is_json is_object slug wall base db c =
     res_bind (case jc_txn c of Some step \<Rightarrow> step db | None \<Rightarrow> Inr db) (\<lambda>db1.
     res_bind (jc_apply c (set_now wall base)) (\<lambda>(working, v).
     res_bind (map_err Refused (validate_since is_json is_object working base)) (\<lambda>_.
     res_bind (persist st slug base working db1) (\<lambda>db2. Inr (db2, working, v)))))"

definition NO_NAME_CAUSE :: string where
  "NO_NAME_CAUSE = ''a job was dispatched onto the writer with no MutationName; the writer runs writes only, and a read belongs on CompanyDb'' @ [CHR 0x27] @ ''s read-only pool''"

definition run_job ::
  "('d, 'e) storage \<Rightarrow> (string \<Rightarrow> bool) \<Rightarrow> (string \<Rightarrow> bool) \<Rightarrow> nat \<Rightarrow> string \<Rightarrow> int
     \<Rightarrow> ('d, 'e) writer_shared \<Rightarrow> ('d, 'e, 't) job_closures job
     \<Rightarrow> ('d, 'e) writer_shared \<times> (chiefd_error + 't)" where
  "run_job st is_json is_object deadline slug wall w j =
     (if job_name j = None then finish w (Inl (StoreFailure COMPANY_DB_STORE NO_NAME_CAUSE))
      else let base = sn_ledgers (ws_snapshot w) in
      case st_begin st of Some err \<Rightarrow> finish w (Inl (begin_failure err deadline)) | None \<Rightarrow>
      case transaction st is_json is_object slug wall base (ws_db w) (job_closures j) of
        Inl err \<Rightarrow> finish w (Inl err)
      | Inr (db, working, v) \<Rightarrow>
      case st_commit st of Some err \<Rightarrow> finish w (Inl (write_failure err)) | None \<Rightarrow>
      (let refreshed = (case jc_post_commit (job_closures j) of Some f \<Rightarrow> f working | None \<Rightarrow> working)
       in finish (w\<lparr>ws_db := db,
            ws_feed_sink := map_option (\<lambda>fs. fs @ feed_events base refreshed) (ws_feed_sink w),
            ws_snapshot := committed refreshed (sat_add_u64 (sn_commit_seq (ws_snapshot w)) 1)\<rparr>)
          (Inr v)))"

section \<open>The actor\<close>

text \<open>
  The actor's shared state and the answers its callers got. \<open>enqueue\<close> is the caller's side of a
  mutation, \<open>actor_turn\<close> one pass of the loop: \<open>now\<close> is the instant it polls the queue at and
  \<open>started\<close> the instant it records for the job it takes.
\<close>

record ('d, 'e, 't) actor =
  ac_queue :: "('d, 'e, 't) job_closures queue_state"
  ac_shared :: "('d, 'e) writer_shared"
  ac_answers :: "(('d, 'e, 't) job_closures job \<times> (chiefd_error + 't)) list"
  ac_stopped :: bool

definition enqueue ::
  "mutation_class \<Rightarrow> string \<Rightarrow> nat \<Rightarrow> ('d, 'e, 't) job_closures \<Rightarrow> ('d, 'e, 't) actor
     \<Rightarrow> ('d, 'e, 't) actor" where
  "enqueue c op now cl a =
     (let j = \<lparr>job_class = c, job_name = Some op, job_enqueued_at = now, job_closures = cl\<rparr>
      in case queue_push j (ac_queue a) of
           Inl err \<Rightarrow> a\<lparr>ac_answers := ac_answers a @ [(j, Inl err)]\<rparr>
         | Inr q \<Rightarrow> a\<lparr>ac_queue := q\<rparr>)"

definition reject_all ::
  "('c job \<times> chiefd_error) list \<Rightarrow> ('c job \<times> (chiefd_error + 't)) list" where
  "reject_all rs = map (\<lambda>(j, e). (j, Inl e)) rs"

definition actor_turn ::
  "aging_policy \<Rightarrow> nat \<Rightarrow> ('d, 'e) storage \<Rightarrow> (string \<Rightarrow> bool) \<Rightarrow> (string \<Rightarrow> bool) \<Rightarrow> string
     \<Rightarrow> nat \<Rightarrow> nat \<Rightarrow> int \<Rightarrow> ('d, 'e, 't) actor \<Rightarrow> ('d, 'e, 't) actor" where
  "actor_turn aging deadline st is_json is_object slug now started wall a =
     (if ac_stopped a then a else
      case queue_next now aging deadline (ac_queue a) of
        (q, Run j) \<Rightarrow>
          (let current = map_option (\<lambda>name. \<lparr>cj_name = name, cj_class = job_class j,
                             cj_enqueued_ms = job_waited j started\<rparr>) (job_name j);
               (w, ans) = run_job st is_json is_object deadline slug wall
                            ((ac_shared a)\<lparr>ws_current := current\<rparr>) j
           in a\<lparr>ac_queue := q, ac_shared := w, ac_answers := ac_answers a @ [(j, ans)]\<rparr>)
      | (q, Reject rs) \<Rightarrow> a\<lparr>ac_queue := q, ac_answers := ac_answers a @ reject_all rs\<rparr>
      | (q, Stop) \<Rightarrow> a\<lparr>ac_queue := q, ac_stopped := True\<rparr>
      | (q, Idle) \<Rightarrow> a\<lparr>ac_queue := q\<rparr>)"

definition quiesce :: "string \<Rightarrow> ('d, 'e, 't) actor \<Rightarrow> ('d, 'e, 't) actor" where
  "quiesce reason a =
     (let (q, rs) = close_and_drain reason (ac_queue a)
      in a\<lparr>ac_queue := q, ac_answers := ac_answers a @ reject_all rs\<rparr>)"

definition shutdown :: "('d, 'e, 't) actor \<Rightarrow> ('d, 'e, 't) actor" where
  "shutdown a =
     (let (q, rs) = close_and_drain ''stopping'' (ac_queue a)
      in a\<lparr>ac_queue := request_stop q, ac_answers := ac_answers a @ reject_all rs\<rparr>)"

record queue_snapshot =
  qn_depth :: nat
  qn_oldest_enqueued_ms :: nat
  qn_deadline_ms :: nat
  qn_current :: "current_job option"

definition queue_snapshot_of :: "nat \<Rightarrow> nat \<Rightarrow> ('d, 'e, 't) actor \<Rightarrow> queue_snapshot" where
  "queue_snapshot_of deadline now a =
     \<lparr>qn_depth = queue_depth (ac_queue a) + (if ws_current (ac_shared a) \<noteq> None then 1 else 0),
      qn_oldest_enqueued_ms = oldest_wait_ms (ac_queue a) now,
      qn_deadline_ms = min deadline u64_max,
      qn_current = ws_current (ac_shared a)\<rparr>"

datatype ('d, 'e, 't) actor_event =
    Enqueue mutation_class string nat "('d, 'e, 't) job_closures"
  | Turn "('d, 'e) storage" nat nat int
  | Quiesce string
  | Shutdown

fun actor_step ::
  "aging_policy \<Rightarrow> nat \<Rightarrow> (string \<Rightarrow> bool) \<Rightarrow> (string \<Rightarrow> bool) \<Rightarrow> string \<Rightarrow> ('d, 'e, 't) actor
     \<Rightarrow> ('d, 'e, 't) actor_event \<Rightarrow> ('d, 'e, 't) actor" where
  "actor_step aging deadline is_json is_object slug a (Enqueue c op now cl) = enqueue c op now cl a"
| "actor_step aging deadline is_json is_object slug a (Turn st now started wall) =
     actor_turn aging deadline st is_json is_object slug now started wall a"
| "actor_step aging deadline is_json is_object slug a (Quiesce reason) = quiesce reason a"
| "actor_step aging deadline is_json is_object slug a Shutdown = shutdown a"

section \<open>One job, all or nothing\<close>

lemma run_job_frame:
  "run_job st is_json is_object deadline slug wall w j = (w', Inl e) \<Longrightarrow>
     ws_snapshot w' = ws_snapshot w \<and> ws_db w' = ws_db w \<and> ws_feed_sink w' = ws_feed_sink w"
  by (auto simp: run_job_def finish_def Let_def split: option.splits sum.splits prod.splits if_splits)

lemma run_job_commit:
  assumes "run_job st is_json is_object deadline slug wall w j = (w', Inr v)"
  obtains working where
    "transaction st is_json is_object slug wall (sn_ledgers (ws_snapshot w)) (ws_db w) (job_closures j)
       = Inr (ws_db w', working, v)"
    "ws_snapshot w' = committed (case jc_post_commit (job_closures j) of Some f \<Rightarrow> f working | None \<Rightarrow> working)
       (sat_add_u64 (sn_commit_seq (ws_snapshot w)) 1)"
    "ws_feed_sink w' = map_option (\<lambda>fs. fs @ feed_events (sn_ledgers (ws_snapshot w))
       (case jc_post_commit (job_closures j) of Some f \<Rightarrow> f working | None \<Rightarrow> working)) (ws_feed_sink w)"
    "st_begin st = None" "st_commit st = None"
  using assms
  by (auto simp: run_job_def finish_def Let_def split: option.splits sum.splits prod.splits if_splits)

lemma transaction_cases:
  assumes "transaction st is_json is_object slug wall base db c = Inr (db', working', u)"
    and "jc_txn c = None" "jc_apply c (set_now wall base) = Inr (working, v)"
  shows "persist st slug base working db = Inr db' \<and> working' = working"
  using assms by (auto simp: transaction_def res_bind_Inr_iff)

text \<open>
  C12. A job is one transaction. If its caller is answered with an error, the snapshot, the database and
  the change feed are exactly what they were. If it is answered with a value, the whole transaction
  succeeded: the database holds what \<open>persist\<close> wrote, the published snapshot holds the edited and
  refreshed ledgers under the next commit number, and the feed got exactly the stores whose pointer
  moved and the stores removed.
\<close>

theorem run_job_all_or_nothing:
  "let (w', ans) = run_job st is_json is_object deadline slug wall w j;
       base = sn_ledgers (ws_snapshot w); c = job_closures j
   in ws_current w' = None
    \<and> (case ans of
         Inl _ \<Rightarrow> ws_snapshot w' = ws_snapshot w \<and> ws_db w' = ws_db w \<and> ws_feed_sink w' = ws_feed_sink w
       | Inr v \<Rightarrow> \<exists>working refreshed.
             transaction st is_json is_object slug wall base (ws_db w) c = Inr (ws_db w', working, v)
           \<and> refreshed = (case jc_post_commit c of Some f \<Rightarrow> f working | None \<Rightarrow> working)
           \<and> ws_snapshot w' = committed refreshed (sat_add_u64 (sn_commit_seq (ws_snapshot w)) 1)
           \<and> ws_feed_sink w' = map_option (\<lambda>fs. fs @ feed_events base refreshed) (ws_feed_sink w)
           \<and> st_begin st = None \<and> st_commit st = None)"
  by (simp add: run_job_def finish_def Let_def split: option.splits sum.splits prod.splits)

section \<open>The tables hold the ledger\<close>

text \<open>A table holds a map when each key's row is the cells of its value.\<close>

definition holds :: "('v \<Rightarrow> sqlite_error + 'c) \<Rightarrow> (string, 'v) omap \<Rightarrow> (string, 'c) omap \<Rightarrow> bool" where
  "holds cells m t \<longleftrightarrow> (\<forall>k. rel_option (\<lambda>v c. cells v = Inr c) (om_get m k) (om_get t k))"

lemma upsert_row_iff:
  "upsert_row st table cells t (k, v) = Inr t' \<longleftrightarrow>
     (\<exists>c. cells v = Inr c \<and> st_exec st table k = None \<and> t' = om_put k c t)"
  by (auto simp: upsert_row_def res_bind_Inr_iff split: option.splits)

lemma delete_row_iff:
  "delete_row st table t k = Inr t' \<longleftrightarrow> st_exec st table k = None \<and> t' = om_del k t"
  by (auto simp: delete_row_def split: option.splits)

lemma upserts_get:
  assumes "res_fold (upsert_row st table cells) t ws = Inr t'" "distinct (map fst ws)"
  shows "case map_of ws k of
      None \<Rightarrow> om_get t' k = om_get t k
    | Some v \<Rightarrow> \<exists>c. cells v = Inr c \<and> om_get t' k = Some c"
  using assms
proof (induction ws arbitrary: t)
  case (Cons e ws)
  obtain k0 v0 where e: "e = (k0, v0)" by (cases e)
  with Cons.prems(1) obtain c0 where c0: "cells v0 = Inr c0"
      "res_fold (upsert_row st table cells) (om_put k0 c0 t) ws = Inr t'"
    by (auto simp: res_bind_Inr_iff upsert_row_iff)
  have ih: "case map_of ws k of
      None \<Rightarrow> om_get t' k = om_get (om_put k0 c0 t) k
    | Some v \<Rightarrow> \<exists>c. cells v = Inr c \<and> om_get t' k = Some c"
    using Cons.IH[OF c0(2)] Cons.prems(2) by simp
  show ?case
  proof (cases "k = k0")
    case True
    then have "map_of ws k = None" using Cons.prems(2) e by (simp add: map_of_eq_None_iff)
    with ih True e c0(1) show ?thesis by (simp add: store_simps)
  next
    case False
    with ih e show ?thesis by (cases "map_of ws k") (simp_all add: store_simps)
  qed
qed simp

lemma deletes_get:
  "res_fold (delete_row st table) t ds = Inr t' \<Longrightarrow>
     om_get t' k = (if k \<in> set ds then None else om_get t k)"
  by (induction ds arbitrary: t)
    (auto simp: res_bind_Inr_iff delete_row_iff store_simps)

lemma changed_get:
  assumes "om_wf m"
  shows "map_of (changed p m) k = (if om_get m k = om_get p k then None else om_get m k)"
  using om_get_filter[OF assms, of "\<lambda>(k, v). om_get p k \<noteq> Some v" k]
  by (auto simp: changed_def om_get_def split: option.splits)

lemma changed_distinct: "om_wf m \<Longrightarrow> distinct (map fst (changed p m))"
  unfolding changed_def by (intro om_wf_distinct om_wf_filter)

lemma removed_iff: "k \<in> set (removed p m) \<longleftrightarrow> om_get p k \<noteq> None \<and> om_get m k = None"
  by (simp add: removed_def om_keys_iff om_has_def)

lemma write_table_holds:
  assumes "write_table st table cells (changed p m) (removed p m) t = Inr t'" "om_wf m" "holds cells p t"
  shows "holds cells m t'"
  unfolding holds_def
proof
  fix k
  obtain t1 where t1: "res_fold (upsert_row st table cells) t (changed p m) = Inr t1"
      "res_fold (delete_row st table) t1 (removed p m) = Inr t'"
    using assms(1) by (auto simp: write_table_def res_bind_Inr_iff)
  note up = upserts_get[OF t1(1) changed_distinct[OF assms(2)], of k, unfolded changed_get[OF assms(2)]]
  note del = deletes_get[OF t1(2), of k, unfolded removed_iff]
  have rel: "rel_option (\<lambda>v c. cells v = Inr c) (om_get p k) (om_get t k)"
    using assms(3) by (simp add: holds_def)
  show "rel_option (\<lambda>v c. cells v = Inr c) (om_get m k) (om_get t' k)"
  proof (cases "om_get m k = om_get p k")
    case True
    with up del rel show ?thesis by (auto split: if_splits)
  next
    case False
    with up del rel show ?thesis by (cases "om_get m k") (auto split: if_splits)
  qed
qed

text \<open>
  The counters of the table that are not the ledger's: the sequences of the event feed, of the staffing
  history and of the activity transitions, which the row transactions allocate.
\<close>

definition row_sequences :: "string list" where
  "row_sequences = [''org-events'', ''staffing'', ''transitions'']"

definition represents :: "('d, 'e) storage \<Rightarrow> string \<Rightarrow> ledgers \<Rightarrow> ('d, 'e) company_db \<Rightarrow> bool" where
  "represents st slug l db \<longleftrightarrow>
     holds (\<lambda>r. Inr (host_action_row r)) (lg_host_actions l) (db_host_actions db)
   \<and> holds (effect_row_cells st) (lg_effects l) (db_effects db)
   \<and> holds (\<lambda>r. Inr (write_mailbox_row r)) (lg_mailbox l) (db_mailbox db)
   \<and> (\<forall>name. name \<notin> set row_sequences \<longrightarrow>
        om_get (db_counters db) (counter_key slug name) = om_get (lg_counters l) name)"

text \<open>
  The feed is gap-free and in lockstep with its counter: the company's events carry the sequences 1 to n
  in the order they were appended, and the counter holds n, or is absent while there is no event.
\<close>

definition numbered :: "int list \<Rightarrow> bool" where
  "numbered seqs \<longleftrightarrow> seqs = map int [1..<Suc (length seqs)]"

definition feed_in_lockstep :: "string \<Rightarrow> (string, int) omap \<Rightarrow> org_event list \<Rightarrow> bool" where
  "feed_in_lockstep slug cn evs \<longleftrightarrow>
     numbered (feed_seqs slug evs)
   \<and> om_get cn (org_events_counter_key slug)
       = (if feed_seqs slug evs = [] then None else Some (int (length (feed_seqs slug evs))))"

lemma counter_key_inj [simp]: "counter_key slug a = counter_key slug b \<longleftrightarrow> a = b"
  by (simp add: counter_key_def)

lemma map_of_counter_key:
  "map_of (map (\<lambda>(name, v). (counter_key slug name, v)) xs) (counter_key slug name) = map_of xs name"
  by (induction xs) auto

lemma counters_hold:
  assumes "res_fold (upsert_row st ''counters'' Inr) t
             (map (\<lambda>(name, v). (counter_key slug name, v)) (changed p m)) = Inr t'"
    and "om_wf m" "set (om_keys p) \<subseteq> set (om_keys m)"
    and "om_get t (counter_key slug name) = om_get p name"
  shows "om_get t' (counter_key slug name) = om_get m name"
proof -
  let ?ws = "map (\<lambda>(name, v). (counter_key slug name, v)) (changed p m)"
  have fst: "map fst ?ws = map (counter_key slug) (map fst (changed p m))"
    by (simp add: split_def o_def)
  have "distinct (map fst ?ws)"
    unfolding fst using changed_distinct[OF assms(2)]
    by (subst distinct_map) (simp add: inj_on_def)
  note up = upserts_get[OF assms(1) this, of "counter_key slug name"]
  note m = map_of_counter_key[of slug "changed p m" name]
  show ?thesis
    using up assms(4) subsetD[OF assms(3), of name] unfolding m changed_get[OF assms(2)] om_keys_iff
    by (cases "om_get m name = om_get p name"; cases "om_get m name") auto
qed

lemma sequence_keys:
  "org_events_counter_key slug = counter_key slug ''org-events''"
  "transitions_counter_key slug = counter_key slug ''transitions''"
  by (simp_all add: org_events_counter_key_def transitions_counter_key_def counter_key_def)

text \<open>What a row transaction may do to the shared tables: the ledger's own counters and tables are left alone,
  the feed only grows, and it stays in lockstep.\<close>

definition rows_step :: "string \<Rightarrow> ('d, 'e) company_db \<Rightarrow> ('d, 'e) company_db \<Rightarrow> bool" where
  "rows_step slug db db' \<longleftrightarrow>
     db_host_actions db' = db_host_actions db \<and> db_effects db' = db_effects db \<and> db_mailbox db' = db_mailbox db
   \<and> (\<forall>name. name \<notin> set row_sequences \<longrightarrow>
        om_get (db_counters db') (counter_key slug name) = om_get (db_counters db) (counter_key slug name))
   \<and> (\<exists>new. db_org_events db' = db_org_events db @ new)
   \<and> (feed_in_lockstep slug (db_counters db) (db_org_events db)
        \<longrightarrow> feed_in_lockstep slug (db_counters db') (db_org_events db'))"

lemma rows_step_refl: "rows_step slug db db"
  by (simp add: rows_step_def)

lemma rows_step_trans: "rows_step slug a b \<Longrightarrow> rows_step slug b c \<Longrightarrow> rows_step slug a c"
  by (auto simp: rows_step_def)

lemma numbered_simps:
  "numbered []" "numbered (seqs @ [n]) \<longleftrightarrow> numbered seqs \<and> n = int (Suc (length seqs))"
  by (simp_all add: numbered_def)

lemma allocate_seq_Inr:
  "allocate_seq st key t = Inr (t', seq) \<longleftrightarrow> st_exec st ''counters'' key = None
     \<and> seq = (case om_get t key of None \<Rightarrow> 1 | Some v \<Rightarrow> v + 1) \<and> t' = om_put key seq t"
  by (simp add: allocate_seq_def Let_def split: option.split) blast

lemma insert_event_Inr: "insert_event st ev evs = Inr evs' \<Longrightarrow> evs' = evs @ [ev]"
  by (simp add: insert_event_def split: option.splits if_splits)

lemma emit_touch_Inr:
  assumes "emit_touch st slug at actor ((cn, evs), l) t = Inr ((cn', evs'), l')"
  shows "(\<forall>k. k \<noteq> org_events_counter_key slug \<longrightarrow> om_get cn' k = om_get cn k)
    \<and> (\<exists>new. evs' = evs @ new) \<and> (feed_in_lockstep slug cn evs \<longrightarrow> feed_in_lockstep slug cn' evs')"
proof -
  let ?key = "org_events_counter_key slug"
  let ?ev = "\<lparr>oe_slug = slug, oe_seq = l', oe_entity = et_entity t, oe_entity_id = et_entity_id t,
         oe_op = et_op t, oe_actor = actor, oe_at = at, oe_detail_ref = et_detail_ref t\<rparr>"
  have r: "allocate_seq st ?key cn = Inr (cn', l')" "insert_event st ?ev evs = Inr evs'"
    using assms by (auto simp: emit_touch_def res_bind_Inr_iff)
  have ev: "cn' = om_put ?key l' cn" "evs' = evs @ [?ev]"
      "l' = (case om_get cn ?key of None \<Rightarrow> 1 | Some v \<Rightarrow> v + 1)"
    using r(1)[unfolded allocate_seq_Inr] insert_event_Inr[OF r(2)] by blast+
  have "feed_seqs slug evs' = feed_seqs slug evs @ [l']" by (simp add: ev(2) feed_seqs_def)
  then have "feed_in_lockstep slug cn evs \<Longrightarrow> feed_in_lockstep slug cn' evs'"
    unfolding feed_in_lockstep_def ev(1) using ev(3) by (auto simp: numbered_simps store_simps)
  with ev(1,2) show ?thesis by (auto simp: store_simps)
qed

lemma emit_touches:
  assumes "res_fold (emit_touch st slug at actor) s ts = Inr s'"
  shows "(\<forall>k. k \<noteq> org_events_counter_key slug \<longrightarrow> om_get (fst (fst s')) k = om_get (fst (fst s)) k)
    \<and> (\<exists>new. snd (fst s') = snd (fst s) @ new)
    \<and> (feed_in_lockstep slug (fst (fst s)) (snd (fst s)) \<longrightarrow> feed_in_lockstep slug (fst (fst s')) (snd (fst s')))"
  using assms
proof (induction ts arbitrary: s)
  case (Cons t ts)
  obtain s1 where s1: "emit_touch st slug at actor s t = Inr s1"
      "res_fold (emit_touch st slug at actor) s1 ts = Inr s'"
    using Cons.prems by (auto simp: res_bind_Inr_iff)
  have "(\<forall>k. k \<noteq> org_events_counter_key slug \<longrightarrow> om_get (fst (fst s1)) k = om_get (fst (fst s)) k)
    \<and> (\<exists>new. snd (fst s1) = snd (fst s) @ new)
    \<and> (feed_in_lockstep slug (fst (fst s)) (snd (fst s)) \<longrightarrow> feed_in_lockstep slug (fst (fst s1)) (snd (fst s1)))"
    using emit_touch_Inr[of st slug at actor "fst (fst s)" "snd (fst s)" "snd s" t
        "fst (fst s1)" "snd (fst s1)" "snd s1"] s1(1) by simp
  with Cons.IH[OF s1(2)] show ?case by auto
qed simp

lemma publish_rows_step:
  assumes "publish_rows st slug store db w = Inr db'"
  shows "rows_step slug db db'"
proof -
  let ?a = "if store = ''activity'' then rw_transitions w else None"
  obtain cn0 last cn evs seq where
      t: "raise_transitions st slug ?a (db_counters db) = Inr cn0"
    and e: "res_fold (emit_touch st slug (rw_at w) []) ((cn0, db_org_events db), last) (rw_touches w)
              = Inr ((cn, evs), seq)"
    and db': "db' = db\<lparr>db_documents := rw_rows w, db_counters := cn, db_org_events := evs\<rparr>"
    using assms by (auto simp: publish_rows_def apply_and_emit_def res_bind_Inr_iff map_err_Inr_iff)
  have "om_get cn0 k = om_get (db_counters db) k" if "k \<noteq> transitions_counter_key slug" for k
    using t that by (auto simp: raise_transitions_def store_simps split: option.splits if_splits)
  with emit_touches[OF e] show ?thesis
    unfolding rows_step_def by (simp add: db' sequence_keys row_sequences_def feed_in_lockstep_def)
qed

lemma persist_store_step: "persist_store st slug db e = Inr db' \<Longrightarrow> rows_step slug db db'"
  by (auto simp: persist_store_def dispatch_persist_def res_bind_Inr_iff publish_rows_step
      split: prod.splits option.splits if_splits)

lemma clear_store_step: "clear_store st slug at db store = Inr db' \<Longrightarrow> rows_step slug db db'"
  by (auto simp: clear_store_def dispatch_clear_def res_bind_Inr_iff publish_rows_step
      split: option.splits if_splits)

lemma persist_steps:
  assumes "persist st slug base working db = Inr db'"
  obtains db2 where "rows_step slug db db2" "persist_relational_tail st slug base working db2 = Inr db'"
proof -
  obtain changed at db1 db2 where
      f: "res_fold (persist_store st slug) db changed = Inr db1"
         "res_fold (clear_store st slug at) db1 (removed_since working base) = Inr db2"
    and tail: "persist_relational_tail st slug base working db2 = Inr db'"
    using assms by (auto simp: persist_def res_bind_Inr_iff map_err_Inr_iff Let_def)
  have "rows_step slug db db1"
    by (rule res_fold_inv[where P = "rows_step slug db", OF f(1) rows_step_refl])
      (blast intro: rows_step_trans persist_store_step)
  then have "rows_step slug db db2"
    by (rule res_fold_inv[where P = "rows_step slug db", OF f(2)])
      (blast intro: rows_step_trans clear_store_step)
  from that[OF this tail] show thesis .
qed

lemma counter_writes_get:
  assumes "res_fold (upsert_row st ''counters'' Inr) t
             (map (\<lambda>(name, v). (counter_key slug name, v)) (changed p m)) = Inr t'"
    and "om_wf m" "om_get m name = om_get p name"
  shows "om_get t' (counter_key slug name) = om_get t (counter_key slug name)"
proof -
  let ?ws = "map (\<lambda>(name, v). (counter_key slug name, v)) (changed p m)"
  have fst: "map fst ?ws = map (counter_key slug) (map fst (changed p m))"
    by (simp add: split_def o_def)
  have "distinct (map fst ?ws)"
    unfolding fst using changed_distinct[OF assms(2)]
    by (subst distinct_map) (simp add: inj_on_def)
  from upserts_get[OF assms(1) this, of "counter_key slug name"]
  show ?thesis unfolding map_of_counter_key changed_get[OF assms(2)] using assms(3) by simp
qed

lemma persist_represents:
  assumes "persist st slug base working db = Inr db'" "represents st slug base db"
    and "ledger_wf working" "set (om_keys (lg_counters base)) \<subseteq> set (om_keys (lg_counters working))"
  shows "represents st slug working db'"
proof -
  obtain db2 where db2: "rows_step slug db db2" "persist_relational_tail st slug base working db2 = Inr db'"
    using assms(1) by (rule persist_steps)
  have "represents st slug base db2" using assms(2) db2(1) by (simp add: represents_def rows_step_def)
  with db2(2) assms(3,4) show ?thesis
    by (auto simp: persist_relational_tail_def host_action_diff_def relational_diff_of_def Let_def
        res_bind_Inr_iff represents_def ledger_wf_def
        intro: write_table_holds counters_hold)
qed

lemma persist_feed:
  assumes "persist st slug base working db = Inr db'" "ledger_wf working"
  shows "(\<exists>new. db_org_events db' = db_org_events db @ new)
    \<and> (feed_in_lockstep slug (db_counters db) (db_org_events db)
        \<and> om_get (lg_counters working) ''org-events'' = om_get (lg_counters base) ''org-events''
        \<longrightarrow> feed_in_lockstep slug (db_counters db') (db_org_events db'))"
proof -
  obtain db2 where db2: "rows_step slug db db2" "persist_relational_tail st slug base working db2 = Inr db'"
    using assms(1) by (rule persist_steps)
  have ev: "db_org_events db' = db_org_events db2"
    using db2(2) by (auto simp: persist_relational_tail_def Let_def res_bind_Inr_iff split: prod.splits)
  have "res_fold (upsert_row st ''counters'' Inr) (db_counters db2)
      (map (\<lambda>(name, v). (counter_key slug name, v)) (changed (lg_counters base) (lg_counters working)))
      = Inr (db_counters db')"
    using db2(2)
    by (auto simp: persist_relational_tail_def relational_diff_of_def Let_def res_bind_Inr_iff split: prod.splits)
  from counter_writes_get[OF this, of "''org-events''"] assms(2)
  have "om_get (lg_counters working) ''org-events'' = om_get (lg_counters base) ''org-events'' \<Longrightarrow>
      om_get (db_counters db') (org_events_counter_key slug) = om_get (db_counters db2) (org_events_counter_key slug)"
    by (simp add: sequence_keys ledger_wf_def)
  with db2(1) ev show ?thesis by (auto simp: rows_step_def feed_in_lockstep_def)
qed

text \<open>A job that only edits ledgers: no row step, no refresh, and its closure is a list of edits.\<close>

definition plain_job :: "nat \<Rightarrow> ledger_edit list \<Rightarrow> 't \<Rightarrow> ('d, 'e, 't) job_closures" where
  "plain_job n es v = \<lparr>jc_txn = None, jc_apply = (\<lambda>l. Inr (snd (foldl edit (n, l) es), v)),
     jc_post_commit = None\<rparr>"

lemma edits_keep_counter:
  "\<forall>v. SetCounter name v \<notin> set es \<Longrightarrow>
     om_get (lg_counters (snd (foldl edit s es))) name = om_get (lg_counters (snd s)) name"
proof (induction es arbitrary: s)
  case (Cons e es)
  have "om_get (lg_counters (snd (edit s e))) name = om_get (lg_counters (snd s)) name"
    using Cons.prems by (cases s; cases e) (auto simp: ledger_op_defs store_simps split: option.splits)
  with Cons show ?case by simp
qed simp

text \<open>
  C13. The incremental persistence implements the ledger. If the tables hold the snapshot's ledgers and
  a job edits them through the public operations, then whatever the job's outcome (commit, refusal,
  failing statement, failing \<open>BEGIN\<close> or \<open>COMMIT\<close>) the tables hold the ledgers of the snapshot that is
  published afterwards: host actions, effects, mailbox rows and the ledger's counters, although the
  stores' row transactions allocate their event sequences from the same table of counters. The event
  feed is append-only, and as long as no edit sets the feed's own counter it stays gap-free: the
  company's events are numbered 1 to n, and the counter row holds n.
\<close>

theorem run_job_refines_tables:
  assumes "represents st slug (sn_ledgers (ws_snapshot w)) (ws_db w)"
    and "allocated n (sn_ledgers (ws_snapshot w))"
    and "job_closures j = plain_job n es v"
    and "run_job st is_json is_object deadline slug wall w j = (w', ans)"
  shows "represents st slug (sn_ledgers (ws_snapshot w')) (ws_db w')
    \<and> (\<exists>new. db_org_events (ws_db w') = db_org_events (ws_db w) @ new)
    \<and> (feed_in_lockstep slug (db_counters (ws_db w)) (db_org_events (ws_db w))
        \<and> (\<forall>i. SetCounter ''org-events'' i \<notin> set es)
        \<longrightarrow> feed_in_lockstep slug (db_counters (ws_db w')) (db_org_events (ws_db w')))"
proof (cases ans)
  case (Inl e)
  then show ?thesis
    using run_job_frame[of st is_json is_object deadline slug wall w j] assms(1,4) by simp
next
  case (Inr u)
  let ?base = "sn_ledgers (ws_snapshot w)"
  obtain n' working where ed: "foldl edit (n, set_now wall ?base) es = (n', working)"
    by (metis surj_pair)
  obtain working' where t: "transaction st is_json is_object slug wall ?base (ws_db w) (plain_job n es v)
        = Inr (ws_db w', working', u)"
      "ws_snapshot w' = committed working' (sat_add_u64 (sn_commit_seq (ws_snapshot w)) 1)"
    by (rule run_job_commit[OF assms(4)[unfolded Inr]]) (simp add: assms(3) plain_job_def)
  have app: "jc_txn (plain_job n es v) = None"
      "jc_apply (plain_job n es v) (set_now wall ?base) = Inr (working, v)"
    by (simp_all add: plain_job_def ed)
  have "persist st slug ?base working (ws_db w) = Inr (ws_db w') \<and> working' = working"
    using t(1) app transaction_cases by metis
  then have c: "persist st slug ?base working (ws_db w) = Inr (ws_db w')" "working' = working"
    by simp_all
  have edited: "edited_from n ?base (n', working)" by (rule edits_edited[OF assms(2) ed])
  then have "ledger_wf working" by (simp add: edited_from_def)
  note feed = persist_feed[OF c(1) this]
  have "(\<forall>i. SetCounter ''org-events'' i \<notin> set es) \<Longrightarrow>
      om_get (lg_counters working) ''org-events'' = om_get (lg_counters ?base) ''org-events''"
    using edits_keep_counter[of "''org-events''" es "(n, set_now wall ?base)"] unfolding ed by (simp add: set_now_def)
  with feed show ?thesis
    using persist_represents[OF c(1) assms(1)] edited c(2) t(2) by (auto simp: edited_from_def committed_def)
qed

definition quiet_storage :: "(unit, unit) storage" where
  "quiet_storage = \<lparr>st_begin = None, st_exec = (\<lambda>_ _. None), st_commit = None,
     st_write_store = (\<lambda>store _ _. Inr \<lparr>rw_rows = (), rw_transitions = Some 4, rw_at = ''2026'',
       rw_touches = [touch_new store store ''upsert'' store ''co'']\<rparr>),
     st_clear_store = (\<lambda>store _ _. Inr \<lparr>rw_rows = (), rw_transitions = None, rw_at = [], rw_touches = []\<rparr>),
     st_decode_effect = (\<lambda>_. Inr ())\<rparr>"

definition fresh_shared :: "(unit, unit) writer_shared" where
  "fresh_shared = \<lparr>ws_snapshot = committed (ledgers_empty 0) 0,
     ws_db = \<lparr>db_documents = (), db_host_actions = [], db_effects = [], db_mailbox = [], db_counters = [],
       db_org_events = []\<rparr>,
     ws_feed_sink = Some [], ws_current = None\<rparr>"

theorem run_job_refines_tables_witness:
  "let j = \<lparr>job_class = Small, job_name = Some ''op'', job_enqueued_at = 0,
            job_closures = plain_job 1 [PutHostAction ''a'' (host_action_pending ''k'' ''{}'' 3), SetCounter ''c'' 7,
              PutDocument ''activity'' ''{}''] ()\<rparr>;
       w' = fst (run_job quiet_storage (\<lambda>_. True) (\<lambda>_. True) 30000 ''co'' 9 fresh_shared j)
   in represents quiet_storage ''co'' (sn_ledgers (ws_snapshot w')) (ws_db w')
    \<and> feed_in_lockstep ''co'' (db_counters (ws_db w')) (db_org_events (ws_db w'))"
proof -
  let ?j = "\<lparr>job_class = Small, job_name = Some ''op'', job_enqueued_at = 0,
            job_closures = plain_job 1 [PutHostAction ''a'' (host_action_pending ''k'' ''{}'' 3), SetCounter ''c'' 7,
              PutDocument ''activity'' ''{}''] ()\<rparr>"
  have "represents quiet_storage ''co'' (sn_ledgers (ws_snapshot fresh_shared)) (ws_db fresh_shared)"
      "allocated 1 (sn_ledgers (ws_snapshot fresh_shared))"
      "feed_in_lockstep ''co'' (db_counters (ws_db fresh_shared)) (db_org_events (ws_db fresh_shared))"
    by (simp_all add: represents_def holds_def fresh_shared_def committed_def ledgers_empty_def allocated_def
        ledger_wf_def feed_in_lockstep_def feed_seqs_def numbered_simps)
  then show ?thesis
    using run_job_refines_tables[where w = fresh_shared and n = 1 and j = ?j and slug = "''co''"
        and st = quiet_storage, OF _ _ _ prod.collapse[symmetric]]
    by simp
qed

section \<open>Everyone is answered\<close>

definition queued :: "'c queue_state \<Rightarrow> 'c job multiset" where
  "queued q = mset (qs_small q) + mset (qs_lower q)"

lemma queued_close [simp]: "queued (queue_close reason q) = queued q"
  by (simp add: queued_def)

lemma queued_stop [simp]: "queued (request_stop q) = queued q"
  by (simp add: queued_def request_stop_def)

lemma image_fst_pair [simp]: "image_mset fst (image_mset (\<lambda>j. (j, c)) M) = M"
  by (simp add: multiset.map_comp o_def)

lemma sweep_mset: "sweep now deadline js = (out, rest) \<Longrightarrow> mset (map fst out) + mset rest = mset js"
  using sweep_split by (metis mset_append)

lemma queue_next_mset:
  assumes "queue_next now aging deadline q = (q', a)"
  shows "mset (answered_by a) + queued q' = queued q"
  using assms
proof (cases rule: queue_next_cases)
  case (reject rs)
  show ?thesis
  proof (cases "qs_admission q")
    case Open
    obtain os small ol lower where r: "sweep now deadline (qs_small q) = (os, small)"
        "sweep now deadline (qs_lower q) = (ol, lower)"
        "q' = q\<lparr>qs_small := small, qs_lower := lower\<rparr>" "rs = os @ ol"
      by (rule reap_open[OF Open reject(2)])
    show ?thesis
      unfolding queued_def sweep_mset[OF r(1), symmetric] sweep_mset[OF r(2), symmetric]
      by (simp add: reject(1) r(3,4))
  next
    case (Closed reason)
    with reject(1,2) show ?thesis by (auto simp: reap_def queued_def o_def)
  qed
next
  case (run j)
  then show ?thesis
    by (auto simp: take_next_def Let_def front_def queued_def split: list.splits if_splits)
next
  case rest
  then show ?thesis by (simp split: if_splits)
qed

lemma drain_mset:
  assumes "close_and_drain reason q = (q', rs)"
  shows "mset (map fst rs) = queued q \<and> queued q' = {#} \<and> (\<exists>r. qs_admission q' = Closed r)"
proof -
  obtain r where "qs_admission (queue_close reason q) = Closed r" using close_closed by blast
  then show ?thesis using assms by (auto simp: close_and_drain_def Let_def queued_def o_def)
qed

lemma reject_all_simps [simp]:
  "map fst (reject_all rs) = map fst rs" "filter (\<lambda>(j, ans). \<not> isl ans) (reject_all rs) = []"
  by (induction rs) (auto simp: reject_all_def)

lemma reject_all_mset [simp]: "image_mset fst (mset (reject_all rs)) = image_mset fst (mset rs)"
  by (metis mset_map reject_all_simps(1))

text \<open>The jobs the callers brought, the answers that were values.\<close>

fun enqueued :: "('d, 'e, 't) actor_event list \<Rightarrow> ('d, 'e, 't) job_closures job multiset" where
  "enqueued [] = {#}"
| "enqueued (Enqueue c op now cl # es) =
     {#\<lparr>job_class = c, job_name = Some op, job_enqueued_at = now, job_closures = cl\<rparr>#} + enqueued es"
| "enqueued (Turn st now started wall # es) = enqueued es"
| "enqueued (Quiesce reason # es) = enqueued es"
| "enqueued (Shutdown # es) = enqueued es"

definition values_answered :: "('d, 'e, 't) actor \<Rightarrow> nat" where
  "values_answered a = length (filter (\<lambda>(j, ans). \<not> isl ans) (ac_answers a))"

lemma sat_add_u64_assoc: "sat_add_u64 (sat_add_u64 s n) (Suc 0) = sat_add_u64 s (Suc n)"
  by (simp add: sat_add_u64_def)

lemma actor_step_accounts:
  "mset (map fst (ac_answers (actor_step aging deadline is_json is_object slug a e)))
     + queued (ac_queue (actor_step aging deadline is_json is_object slug a e))
   = mset (map fst (ac_answers a)) + queued (ac_queue a) + enqueued [e]"
proof (cases e)
  case (Enqueue c op now cl)
  then show ?thesis
    by (auto simp: enqueue_def queue_push_def queued_def Let_def split: admission.splits)
next
  case (Turn st now started wall)
  obtain q' x where n: "queue_next now aging deadline (ac_queue a) = (q', x)" by (metis surj_pair)
  show ?thesis
    using queue_next_mset[OF n] n Turn
    by (cases x) (auto simp: actor_turn_def Let_def split: prod.splits)
next
  case (Quiesce reason)
  obtain q' rs where d: "close_and_drain reason (ac_queue a) = (q', rs)" by (metis surj_pair)
  show ?thesis using drain_mset[OF d] d Quiesce by (auto simp: quiesce_def)
next
  case Shutdown
  obtain q' rs where d: "close_and_drain ''stopping'' (ac_queue a) = (q', rs)" by (metis surj_pair)
  show ?thesis using drain_mset[OF d] d Shutdown by (auto simp: shutdown_def)
qed

lemma run_job_commit_seq:
  "run_job st is_json is_object deadline slug wall w j = (w', ans) \<Longrightarrow>
     sn_commit_seq (ws_snapshot w') =
       (if \<not> isl ans then sat_add_u64 (sn_commit_seq (ws_snapshot w)) 1 else sn_commit_seq (ws_snapshot w))"
  by (cases ans) (auto dest: run_job_frame elim!: run_job_commit simp: committed_def)

definition commits_counted :: "nat \<Rightarrow> ('d, 'e, 't) actor \<Rightarrow> bool" where
  "commits_counted s a \<longleftrightarrow>
     sn_commit_seq (ws_snapshot (ac_shared a)) = sat_add_u64 s (values_answered a)"

lemma actor_step_counts:
  "commits_counted s a \<Longrightarrow> commits_counted s (actor_step aging deadline is_json is_object slug a e)"
proof (cases e)
  case (Turn st now started wall)
  assume inv: "commits_counted s a"
  obtain q' x where n: "queue_next now aging deadline (ac_queue a) = (q', x)" by (metis surj_pair)
  show ?thesis
    using inv n Turn
    by (cases x) (auto simp: actor_turn_def Let_def commits_counted_def values_answered_def
        sat_add_u64_assoc dest!: run_job_commit_seq split: prod.splits if_splits)
qed (auto simp: commits_counted_def values_answered_def enqueue_def quiesce_def shutdown_def Let_def
    split: sum.splits prod.splits)

text \<open>A drained actor: the door is shut and nothing waits.\<close>

definition drained :: "('d, 'e, 't) actor \<Rightarrow> bool" where
  "drained a \<longleftrightarrow> queued (ac_queue a) = {#} \<and> (\<exists>r. qs_admission (ac_queue a) = Closed r)"

lemma actor_step_drained:
  assumes "drained a"
  shows "drained (actor_step aging deadline is_json is_object slug a e)"
proof (cases e)
  case (Turn st now started wall)
  obtain q' x where n: "queue_next now aging deadline (ac_queue a) = (q', x)" by (metis surj_pair)
  show ?thesis
    using assms queue_next_mset[OF n] queue_next_door[OF n] n Turn
    by (cases x) (auto simp: drained_def actor_turn_def Let_def split: prod.splits)
next
  case (Quiesce reason)
  obtain q' rs where d: "close_and_drain reason (ac_queue a) = (q', rs)" by (metis surj_pair)
  show ?thesis using drain_mset[OF d] d Quiesce by (simp add: drained_def quiesce_def)
next
  case Shutdown
  obtain q' rs where d: "close_and_drain ''stopping'' (ac_queue a) = (q', rs)" by (metis surj_pair)
  show ?thesis using drain_mset[OF d] d Shutdown by (auto simp: drained_def shutdown_def request_stop_def queued_def)
qed (use assms in \<open>auto simp: drained_def enqueue_def queue_push_def Let_def\<close>)

interpretation actor_machine:
  step_machine "actor_step aging deadline is_json is_object slug" "commits_counted s"
  for aging deadline is_json is_object slug s
  by unfold_locales (rule actor_step_counts)

interpretation drained_machine: step_machine "actor_step aging deadline is_json is_object slug" drained
  for aging deadline is_json is_object slug
  by unfold_locales (rule actor_step_drained)

text \<open>\<open>open_with\<close> publishes the loaded ledgers as commit 0, with an empty queue.\<close>

definition actor_open :: "ledgers \<Rightarrow> ('d, 'e) company_db \<Rightarrow> ('d, 'e, 't) actor" where
  "actor_open l db = \<lparr>ac_queue = queue_new,
     ac_shared = \<lparr>ws_snapshot = committed l 0, ws_db = db, ws_feed_sink = None, ws_current = None\<rparr>,
     ac_answers = [], ac_stopped = False\<rparr>"

lemma enqueued_append: "enqueued (xs @ ys) = enqueued xs + enqueued ys"
  by (induction xs rule: enqueued.induct) auto

lemma actor_accounts:
  "mset (map fst (ac_answers (foldl (actor_step aging deadline is_json is_object slug) a es)))
     + queued (ac_queue (foldl (actor_step aging deadline is_json is_object slug) a es))
   = mset (map fst (ac_answers a)) + queued (ac_queue a) + enqueued es"
proof (induction es rule: rev_induct)
  case (snoc e es)
  let ?a = "foldl (actor_step aging deadline is_json is_object slug) a es"
  show ?case
    using actor_step_accounts[of aging deadline is_json is_object slug ?a e] snoc.IH
    by (simp add: enqueued_append)
qed simp

lemma shutdown_drains: "drained (actor_step aging deadline is_json is_object slug a Shutdown)"
proof -
  obtain q' rs where d: "close_and_drain ''stopping'' (ac_queue a) = (q', rs)" by (metis surj_pair)
  show ?thesis using drain_mset[OF d] d by (auto simp: drained_def shutdown_def request_stop_def queued_def)
qed

text \<open>
  C14. Every caller is answered exactly once, whatever the order of enqueues, turns, quiesces and
  shutdowns and whatever the storage does: the answers and the queue together are exactly the jobs the
  callers brought, the commit number counts the values answered, and once a shutdown has happened no
  caller is left waiting.
\<close>

theorem every_caller_is_answered:
  "let a = foldl (actor_step aging deadline is_json is_object slug) (actor_open l db) es
   in mset (map fst (ac_answers a)) + queued (ac_queue a) = enqueued es
    \<and> sn_commit_seq (ws_snapshot (ac_shared a)) = min (values_answered a) u64_max
    \<and> (Shutdown \<in> set es \<longrightarrow> mset (map fst (ac_answers a)) = enqueued es)"
proof -
  let ?step = "actor_step aging deadline is_json is_object slug"
  let ?a = "foldl ?step (actor_open l db) es"
  have acc: "mset (map fst (ac_answers ?a)) + queued (ac_queue ?a) = enqueued es"
    using actor_accounts[of aging deadline is_json is_object slug "actor_open l db" es]
    by (simp add: actor_open_def queue_new_def queued_def)
  have "commits_counted 0 ?a"
    by (rule actor_machine.run_inv)
      (simp add: commits_counted_def actor_open_def values_answered_def sat_add_u64_def committed_def)
  moreover have "drained ?a" if shut: "Shutdown \<in> set es"
  proof -
    obtain xs ys where "es = xs @ Shutdown # ys" using split_list[OF shut] by blast
    then show ?thesis using drained_machine.run_inv[OF shutdown_drains] by simp
  qed
  ultimately show ?thesis using acc
    by (auto simp: Let_def commits_counted_def sat_add_u64_def drained_def)
qed

theorem every_caller_is_answered_witness:
  "mset (map fst (ac_answers (foldl (actor_step aging_default 30000 (\<lambda>_. True) (\<lambda>_. True) ''co'')
      (actor_open (ledgers_empty 0) (ws_db fresh_shared))
      [Enqueue Small ''op'' 1 (plain_job 1 [] ()), Shutdown])))
   = {#\<lparr>job_class = Small, job_name = Some ''op'', job_enqueued_at = 1, job_closures = plain_job 1 [] ()\<rparr>#}"
  using every_caller_is_answered[of aging_default 30000 "\<lambda>_. True" "\<lambda>_. True" "''co''" "ledgers_empty 0"
      "ws_db fresh_shared" "[Enqueue Small ''op'' 1 (plain_job 1 [] ()), Shutdown]"]
  unfolding Let_def by simp

section \<open>Reopening\<close>

text \<open>
  What \<open>open\<close> reads back: the journal of host actions, refused when a row's payload schema, plan or
  phase is unreadable, and the counters of this company, whose key carries the slug as a suffix. The
  rows come in the order the query returns them.
\<close>

definition load_host_action_row ::
  "(string \<Rightarrow> bool) \<Rightarrow> (string, host_action_record) omap \<Rightarrow> string \<times> host_action_cells
     \<Rightarrow> string + (string, host_action_record) omap" where
  "load_host_action_row is_object m e = (case e of (action_id, c) \<Rightarrow>
     if hc_payload_schema c \<noteq> payload_schema_for_kind (hc_kind c)
     then Inl (''host action '' @ quoted action_id @ '' kind '' @ quoted (hc_kind c)
            @ '' has payload schema '' @ quoted (hc_payload_schema c) @ '', expected ''
            @ quoted (payload_schema_for_kind (hc_kind c)))
     else if \<not> is_object (hc_plan_json c)
     then Inl (''host action '' @ quoted action_id
            @ '' payload is not a schema-discriminated JSON object'')
     else case phase_parse (hc_phase c) of
       None \<Rightarrow> Inl (''host action '' @ quoted action_id @ '' has unreadable phase '' @ quoted (hc_phase c))
     | Some phase \<Rightarrow> Inr (om_put action_id
          \<lparr>ha_kind = hc_kind c, ha_plan_json = hc_plan_json c, ha_phase = phase,
           ha_created_at = hc_created_at c\<rparr> m))"

definition load_host_actions ::
  "(string \<Rightarrow> bool) \<Rightarrow> (string \<times> host_action_cells) list \<Rightarrow> string + (string, host_action_record) omap" where
  "load_host_actions is_object rows = res_fold (load_host_action_row is_object) [] rows"

definition strip_suffix :: "string \<Rightarrow> string \<Rightarrow> string option" where
  "strip_suffix s p = map_option rev (strip_prefix (rev s) (rev p))"

definition load_counters :: "string \<Rightarrow> (string \<times> int) list \<Rightarrow> (string, int) omap" where
  "load_counters slug rows =
     foldl (\<lambda>m (name, v). case strip_suffix name ('':'' @ slug) of
        Some base \<Rightarrow> om_put base v m | None \<Rightarrow> m) [] rows"

lemma strip_suffix_iff: "strip_suffix s p = Some r \<longleftrightarrow> s = r @ p"
  by (auto simp: strip_suffix_def strip_prefix_Some_iff) (metis rev_append rev_rev_ident)

lemma load_host_action_row_ok:
  assumes "host_action_ok is_object r"
  shows "load_host_action_row is_object m (aid, host_action_row r) = Inr (om_put aid r m)"
  using assms by (cases r) (simp add: load_host_action_row_def host_action_row_def phase_codec.dec_enc host_action_ok_def)

lemma load_host_actions_get:
  assumes "distinct (map fst rows)"
    and "\<forall>(aid, c) \<in> set rows. \<exists>r. c = host_action_row r \<and> host_action_ok is_object r"
    and "om_wf m"
  shows "\<exists>m'. res_fold (load_host_action_row is_object) m rows = Inr m' \<and> om_wf m'
     \<and> (\<forall>k. case map_of rows k of
            Some c \<Rightarrow> \<exists>r. om_get m' k = Some r \<and> c = host_action_row r
          | None \<Rightarrow> om_get m' k = om_get m k)"
  using assms
proof (induction rows arbitrary: m)
  case (Cons e rows)
  obtain aid r where e: "e = (aid, host_action_row r)" "host_action_ok is_object r"
    using Cons.prems(2) by (cases e) auto
  have "\<exists>m'. res_fold (load_host_action_row is_object) (om_put aid r m) rows = Inr m' \<and> om_wf m'
     \<and> (\<forall>k. case map_of rows k of
            Some c \<Rightarrow> \<exists>r. om_get m' k = Some r \<and> c = host_action_row r
          | None \<Rightarrow> om_get m' k = om_get (om_put aid r m) k)"
    using Cons.prems by (intro Cons.IH) (auto simp: om_wf_put)
  then obtain m' where m': "res_fold (load_host_action_row is_object) (om_put aid r m) rows = Inr m'"
      "om_wf m'"
      "\<And>k. case map_of rows k of
            Some c \<Rightarrow> \<exists>r. om_get m' k = Some r \<and> c = host_action_row r
          | None \<Rightarrow> om_get m' k = om_get (om_put aid r m) k"
    by blast
  have "map_of rows aid = None" using Cons.prems(1) e(1) by (simp add: map_of_eq_None_iff)
  then have "case map_of (e # rows) k of
            Some c \<Rightarrow> \<exists>r. om_get m' k = Some r \<and> c = host_action_row r
          | None \<Rightarrow> om_get m' k = om_get m k" for k
    using m'(3)[of k] e(1) by (cases "k = aid"; cases "map_of rows k") (simp_all add: store_simps)
  then show ?case using m'(1,2) e by (auto simp: load_host_action_row_ok)
qed simp

lemma host_action_row_inj [simp]: "host_action_row r = host_action_row r' \<longleftrightarrow> r = r'"
  by (cases r; cases r') (auto simp: host_action_row_def phase_codec.enc_inj)

lemma load_counters_get:
  assumes "distinct (map fst rows)" "om_wf m"
  shows "om_wf (foldl (\<lambda>m (name, v). case strip_suffix name ('':'' @ slug) of
        Some base \<Rightarrow> om_put base v m | None \<Rightarrow> m) m rows)
    \<and> om_get (foldl (\<lambda>m (name, v). case strip_suffix name ('':'' @ slug) of
        Some base \<Rightarrow> om_put base v m | None \<Rightarrow> m) m rows) k
      = (case map_of rows (counter_key slug k) of Some v \<Rightarrow> Some v | None \<Rightarrow> om_get m k)"
  using assms
proof (induction rows arbitrary: m)
  case (Cons e rows)
  obtain name v where e: "e = (name, v)" by (cases e)
  show ?case
  proof (cases "strip_suffix name ('':'' @ slug)")
    case None
    then have "name \<noteq> counter_key slug k"
      using strip_suffix_iff[of name "'':'' @ slug" k] by (auto simp: counter_key_def)
    with None Cons show ?thesis by (simp add: e)
  next
    case (Some base)
    then have n: "name = counter_key slug base" by (simp add: strip_suffix_iff counter_key_def)
    have "map_of rows name = None" using Cons.prems(1) e by (simp add: map_of_eq_None_iff)
    with Cons.IH[of "om_put base v m"] Cons.prems Some n show ?thesis
      by (auto simp: e store_simps om_wf_put split: option.splits)
  qed
qed simp

text \<open>
  C29. A restart loses no journalled host action and no counter. If the tables hold a valid ledger, then
  reading them back, in whatever order the rows come, succeeds and gives exactly the ledger's host
  actions and its counters; the sequences the row transactions keep in the same table come back with the
  values of their rows. When those are what the ledger held too, it is the ledger's counters exactly.
\<close>

theorem reopen_round_trip:
  assumes "represents st slug l db" "ledger_wf l" "validate_non_documents is_object l = Inr ()"
    and "distinct (map fst ha)" "map_of ha = om_get (db_host_actions db)"
    and "distinct (map fst cn)" "map_of cn = om_get (db_counters db)"
  shows "load_host_actions is_object ha = Inr (lg_host_actions l)
    \<and> (\<forall>name. om_get (load_counters slug cn) name
          = (if name \<in> set row_sequences then om_get (db_counters db) (counter_key slug name)
             else om_get (lg_counters l) name))
    \<and> ((\<forall>name \<in> set row_sequences. om_get (db_counters db) (counter_key slug name) = om_get (lg_counters l) name)
        \<longrightarrow> load_counters slug cn = lg_counters l)"
proof -
  have rows: "\<exists>r. c = host_action_row r \<and> om_get (lg_host_actions l) aid = Some r"
    if "(aid, c) \<in> set ha" for aid c
  proof -
    have "om_get (db_host_actions db) aid = Some c" using that assms(4,5) by (metis map_of_is_SomeI)
    then show ?thesis
      using assms(1) by (auto simp: represents_def holds_def option_rel_Some2 dest!: spec[of _ aid])
  qed
  have "host_action_ok is_object r" if "om_get (lg_host_actions l) aid = Some r" for aid r
    using that assms(3) om_get_Some_mem by (fastforce simp: validate_non_documents_iff)
  with rows have "\<forall>(aid, c) \<in> set ha. \<exists>r. c = host_action_row r \<and> host_action_ok is_object r"
    by blast
  from load_host_actions_get[OF assms(4) this om_wf_Nil, folded load_host_actions_def, unfolded om_get_Nil]
  obtain m where m: "load_host_actions is_object ha = Inr m" "om_wf m"
      "\<And>k. case map_of ha k of
            Some c \<Rightarrow> \<exists>r. om_get m k = Some r \<and> c = host_action_row r
          | None \<Rightarrow> om_get m k = None"
    by blast
  have "om_get m k = om_get (lg_host_actions l) k" for k
  proof -
    have "rel_option (\<lambda>r c. c = host_action_row r) (om_get (lg_host_actions l) k) (om_get (db_host_actions db) k)"
      using assms(1) by (auto simp: represents_def holds_def elim!: allE[of _ k] option.rel_mono_strong)
    then show ?thesis using m(3)[of k] unfolding assms(5)
      by (cases "om_get (lg_host_actions l) k"; cases "om_get (db_host_actions db) k") auto
  qed
  then have "load_host_actions is_object ha = Inr (lg_host_actions l)"
    using m(1,2) assms(2) om_ext[of m "lg_host_actions l"] by (simp add: ledger_wf_def)
  moreover have cn: "om_get (load_counters slug cn) name
          = (if name \<in> set row_sequences then om_get (db_counters db) (counter_key slug name)
             else om_get (lg_counters l) name)" for name
    using load_counters_get[OF assms(6) om_wf_Nil, of slug name] assms(1)
    by (auto simp: load_counters_def represents_def assms(7) split: option.splits)
  moreover have "load_counters slug cn = lg_counters l"
    if "\<forall>name \<in> set row_sequences. om_get (db_counters db) (counter_key slug name) = om_get (lg_counters l) name"
    using load_counters_get[OF assms(6) om_wf_Nil] assms(2) that cn
    by (intro om_ext) (auto simp: load_counters_def ledger_wf_def)
  ultimately show ?thesis by blast
qed

theorem reopen_round_trip_witness:
  "load_host_actions (\<lambda>_. True)
      [(''b'', host_action_row (host_action_pending ''k'' ''{}'' 4)),
       (''a'', host_action_row (host_action_pending ''converge'' ''{}'' 3))]
     = Inr [(''a'', host_action_pending ''converge'' ''{}'' 3), (''b'', host_action_pending ''k'' ''{}'' 4)]
   \<and> load_counters ''co'' [(''n:co'', 7), (''n:other'', 9)] = [(''n'', 7)]"
  using reopen_round_trip[where st = quiet_storage and slug = "''co''" and is_object = "\<lambda>_. True"
      and l = "(ledgers_empty 0)\<lparr>lg_host_actions := [(''a'', host_action_pending ''converge'' ''{}'' 3),
                 (''b'', host_action_pending ''k'' ''{}'' 4)], lg_counters := [(''n'', 7)]\<rparr>"
      and db = "(ws_db fresh_shared)\<lparr>db_host_actions := [(''b'', host_action_row (host_action_pending ''k'' ''{}'' 4)),
       (''a'', host_action_row (host_action_pending ''converge'' ''{}'' 3))],
         db_counters := [(''n:co'', 7), (''n:other'', 9)]\<rparr>"
      and ha = "[(''b'', host_action_row (host_action_pending ''k'' ''{}'' 4)),
       (''a'', host_action_row (host_action_pending ''converge'' ''{}'' 3))]"
      and cn = "[(''n:co'', 7), (''n:other'', 9)]"]
  by (simp add: represents_def holds_def fresh_shared_def ledgers_empty_def ledger_wf_def om_wf_def
      validate_non_documents_iff host_action_ok_def host_action_pending_def effects_ok_def om_get_def row_sequences_def
      om_has_def NEXT_EFFECT_SEQUENCE_def counter_key_def fun_eq_iff)

end
