(* ===== verification/Mailbox.thy ===== *)
theory Mailbox
  imports Isotime Ledger
begin

text \<open>
  The mailbox operations (\<open>chiefd-core/src/store/mailbox.rs\<close>) over the ledgers' mailbox rows: enqueueing
  an envelope, the pending inbox of a person, archiving, the recipients with pending mail, those whose
  pending mail is a launch demand, and the wake scan. The runtime's in-flight test and its \<open>wake\<close> are
  parameters, as they are traits in the source.
\<close>

section \<open>The operations\<close>

definition row_state :: "mailbox_row \<Rightarrow> mailbox_state option" where
  "row_state row = mailbox_state_parse (mb_state row)"

definition enqueue_one ::
  "mailbox_envelope \<Rightarrow> ledgers \<times> string list \<Rightarrow> string \<Rightarrow> ledgers \<times> string list" where
  "enqueue_one env acc person = (case acc of (l, pending) \<Rightarrow>
     (let rid = row_id env person
      in case map_option (\<lambda>row. row_state row = Some Pending) (mailbox l rid) of
           Some True \<Rightarrow> (l, pending @ [person])
         | Some False \<Rightarrow> (l, pending)
         | None \<Rightarrow>
             (put_mailbox rid \<lparr>mb_person = person, mb_envelope = env,
                mb_state = mailbox_state_as_str Pending, mb_updated_at = lg_now l\<rparr> l,
              pending @ [person])))"

definition mailbox_enqueue :: "mailbox_envelope \<Rightarrow> ledgers \<Rightarrow> ledgers \<times> string list" where
  "mailbox_enqueue env l = foldl (enqueue_one env) (l, []) (sorted_set (env_recipients env))"

definition pending_for :: "ledgers \<Rightarrow> string \<Rightarrow> mailbox_envelope list" where
  "pending_for l person =
     map snd (sort_key (\<lambda>(rid, env). (env_created_at env, rid))
       (map (\<lambda>(rid, row). (rid, mb_envelope row))
         (filter (\<lambda>(rid, row). mb_person row = person \<and> row_state row = Some Pending) (lg_mailbox l))))"

definition archive :: "string \<Rightarrow> mailbox_state \<Rightarrow> ledgers \<Rightarrow> ledgers \<times> bool" where
  "archive rid target l =
     (if \<not> is_terminal target then (l, False)
      else case mailbox l rid of
        None \<Rightarrow> (l, False)
      | Some row \<Rightarrow>
          if row_state row \<noteq> Some Pending then (l, False)
          else (put_mailbox rid (row\<lparr>mb_state := mailbox_state_as_str target, mb_updated_at := lg_now l\<rparr>) l,
                True))"

definition pending_recipients :: "ledgers \<Rightarrow> string list" where
  "pending_recipients l =
     sorted_set (map (mb_person \<circ> snd) (filter (\<lambda>(rid, row). row_state row = Some Pending) (lg_mailbox l)))"

definition is_launcher_re_emission :: "mailbox_envelope \<Rightarrow> bool" where
  "is_launcher_re_emission env =
     (if env_from_person_id env \<noteq> ''launcher'' \<or> env_urgency env = Urgency_Interrupt
         \<or> env_health_incident env \<noteq> None
      then False
      else starts_with (env_id env) ''supervision-'')"

definition pending_demand_recipients :: "ledgers \<Rightarrow> int option \<Rightarrow> string list" where
  "pending_demand_recipients l since_exclusive_ms =
     sorted_set (map (mb_person \<circ> snd) (filter (\<lambda>(rid, row).
         row_state row = Some Pending
       \<and> \<not> is_launcher_re_emission (mb_envelope row)
       \<and> (case since_exclusive_ms of None \<Rightarrow> True | Some since \<Rightarrow>
            (case parse_iso_millis (env_created_at (mb_envelope row)) of
               None \<Rightarrow> False | Some created \<Rightarrow> since < created))) (lg_mailbox l)))"

record wake_scan_plan =
  wp_wake :: "string list"
  wp_coalesced :: "string list"

definition wake_scan_step ::
  "(string \<Rightarrow> bool) \<Rightarrow> wake_scan_plan \<Rightarrow> string \<Rightarrow> wake_scan_plan" where
  "wake_scan_step in_flight plan person =
     (if in_flight person then plan\<lparr>wp_coalesced := wp_coalesced plan @ [person]\<rparr>
      else plan\<lparr>wp_wake := wp_wake plan @ [person]\<rparr>)"

definition pending_mailbox_wake_scan :: "ledgers \<Rightarrow> (string \<Rightarrow> bool) \<Rightarrow> wake_scan_plan" where
  "pending_mailbox_wake_scan l in_flight =
     foldl (wake_scan_step in_flight) \<lparr>wp_wake = [], wp_coalesced = []\<rparr> (pending_recipients l)"

definition run_pending_mailbox_wake ::
  "ledgers \<Rightarrow> (string \<Rightarrow> bool) \<Rightarrow> (string list \<Rightarrow> string list) \<Rightarrow> string list \<times> string list" where
  "run_pending_mailbox_wake l in_flight wake =
     (let plan = pending_mailbox_wake_scan l in_flight;
          woken = (if wp_wake plan = [] then [] else wake (wp_wake plan))
      in (woken, wp_coalesced plan))"

section \<open>Enqueueing\<close>

lemma mailbox_put [simp]:
  "mailbox (put_mailbox rid row l) rid' = (if rid' = rid then Some row else mailbox l rid')"
  by (simp add: mailbox_def put_mailbox_def store_simps)

lemma now_put [simp]: "lg_now (put_mailbox rid row l) = lg_now l"
  by (simp add: put_mailbox_def)

lemma row_id_person [simp]: "row_id env p = row_id env q \<longleftrightarrow> p = q"
  by (simp add: row_id_def)

definition new_row :: "mailbox_envelope \<Rightarrow> string \<Rightarrow> int \<Rightarrow> mailbox_row" where
  "new_row env person now = \<lparr>mb_person = person, mb_envelope = env,
     mb_state = mailbox_state_as_str Pending, mb_updated_at = now\<rparr>"

definition is_pending :: "ledgers \<Rightarrow> string \<Rightarrow> bool" where
  "is_pending l rid \<longleftrightarrow> (\<exists>row. mailbox l rid = Some row \<and> row_state row = Some Pending)"

lemma new_row_pending [simp]: "row_state (new_row env p t) = Some Pending"
  by (simp add: row_state_def new_row_def mailbox_state_parse_def)

lemma enqueue_one_cases:
  "enqueue_one env (l, pending) p =
     (if mailbox l (row_id env p) = None
      then (put_mailbox (row_id env p) (new_row env p (lg_now l)) l, pending @ [p])
      else if is_pending l (row_id env p) then (l, pending @ [p]) else (l, pending))"
  by (auto simp: enqueue_one_def is_pending_def new_row_def Let_def split: option.splits bool.splits)

definition enqueued_row :: "mailbox_envelope \<Rightarrow> ledgers \<Rightarrow> string \<Rightarrow> mailbox_row" where
  "enqueued_row env l p = (case mailbox l (row_id env p) of
     None \<Rightarrow> new_row env p (lg_now l) | Some row \<Rightarrow> row)"

definition delivers :: "mailbox_envelope \<Rightarrow> ledgers \<Rightarrow> string \<Rightarrow> bool" where
  "delivers env l p \<longleftrightarrow> mailbox l (row_id env p) = None \<or> is_pending l (row_id env p)"

lemma delivers_iff: "delivers env l p \<longleftrightarrow> row_state (enqueued_row env l p) = Some Pending"
  by (auto simp: delivers_def enqueued_row_def is_pending_def split: option.splits)

lemma enqueue_fold:
  assumes "distinct ps" "foldl (enqueue_one env) (l, pending) ps = (l', pending')"
  shows "pending' = pending @ filter (delivers env l) ps
     \<and> lg_now l' = lg_now l
     \<and> (\<forall>p \<in> set ps. mailbox l' (row_id env p) = Some (enqueued_row env l p))
     \<and> (\<forall>rid. rid \<notin> row_id env ` set ps \<longrightarrow> mailbox l' rid = mailbox l rid)"
  using assms
proof (induction ps arbitrary: l pending)
  case (Cons p ps)
  obtain l1 pending1 where e: "enqueue_one env (l, pending) p = (l1, pending1)" by (metis surj_pair)
  have one: "pending1 = pending @ filter (delivers env l) [p]" "lg_now l1 = lg_now l"
      "mailbox l1 (row_id env p) = Some (enqueued_row env l p)"
      "\<And>rid. rid \<noteq> row_id env p \<Longrightarrow> mailbox l1 rid = mailbox l rid"
    using e by (auto simp: enqueue_one_cases enqueued_row_def delivers_def is_pending_def
        split: if_splits option.splits)
  then have same: "delivers env l1 q = delivers env l q" "enqueued_row env l1 q = enqueued_row env l q"
    if "q \<in> set ps" for q
  proof -
    have "mailbox l1 (row_id env q) = mailbox l (row_id env q)" using that Cons.prems(1) one(4)[of "row_id env q"] by auto
    then show "delivers env l1 q = delivers env l q" "enqueued_row env l1 q = enqueued_row env l q"
      using one(2) by (simp_all add: delivers_def enqueued_row_def is_pending_def split: option.splits)
  qed
  have f: "filter (delivers env l1) ps = filter (delivers env l) ps"
    using same(1) by (rule filter_cong[OF refl])
  have "foldl (enqueue_one env) (l1, pending1) ps = (l', pending')" using Cons.prems(2) e by simp
  then have ih: "pending' = pending1 @ filter (delivers env l1) ps" "lg_now l' = lg_now l1"
      "\<forall>q \<in> set ps. mailbox l' (row_id env q) = Some (enqueued_row env l1 q)"
      "\<forall>rid. rid \<notin> row_id env ` set ps \<longrightarrow> mailbox l' rid = mailbox l1 rid"
    using Cons.IH[of l1 pending1] Cons.prems(1) by auto
  have "row_id env p \<notin> row_id env ` set ps" using Cons.prems(1) by auto
  then have "mailbox l' (row_id env p) = Some (enqueued_row env l p)"
    using ih(4) one(3) by simp
  then show ?case using ih one f same(2) by auto
qed simp

text \<open>
  Enqueueing. Every recipient's row exists afterwards: the one there was, untouched whatever its
  state, or a new pending row carrying the envelope and stamped now. Nothing else in the mailbox
  changes, and the answer is exactly the recipients whose row is pending, each once, in order.
\<close>

theorem enqueue_delivers_once:
  "let (l', pending) = mailbox_enqueue env l
   in (\<forall>p \<in> set (env_recipients env).
         mailbox l' (row_id env p) = Some (case mailbox l (row_id env p) of
            None \<Rightarrow> \<lparr>mb_person = p, mb_envelope = env, mb_state = ''pending'', mb_updated_at = lg_now l\<rparr>
          | Some row \<Rightarrow> row))
    \<and> (\<forall>rid. rid \<notin> row_id env ` set (env_recipients env) \<longrightarrow> mailbox l' rid = mailbox l rid)
    \<and> sorted pending \<and> distinct pending
    \<and> set pending = {p \<in> set (env_recipients env). is_pending l' (row_id env p)}"
proof -
  obtain l' pending where e: "mailbox_enqueue env l = (l', pending)" by (metis surj_pair)
  note f = enqueue_fold[OF distinct_sorted_set e[unfolded mailbox_enqueue_def]]
  have "sorted pending" "distinct pending"
    using f by (simp_all add: sorted_wrt_filter)
  moreover have "set pending = {p \<in> set (env_recipients env). is_pending l' (row_id env p)}"
    using f by (auto simp: delivers_iff is_pending_def)
  ultimately show ?thesis using f e by (auto simp: enqueued_row_def new_row_def split: option.splits)
qed

theorem enqueue_delivers_once_witness:
  "let env = \<lparr>env_schema_version = 1, env_id = ''m1'', env_organization = ''co'', env_from_person_id = ''a'',
       env_to = ''b'', env_recipients = [''b'', ''b''], env_body = ''hi'', env_urgency = Urgency_Normal,
       env_reply_to = None, env_health_incident = None, env_created_at = ''t''\<rparr>
   in mailbox (fst (mailbox_enqueue env (ledgers_empty 7))) (row_id env ''b'')
      = Some \<lparr>mb_person = ''b'', mb_envelope = env, mb_state = ''pending'', mb_updated_at = 7\<rparr>"
proof -
  have none: "mailbox (ledgers_empty 7) r = None" "lg_now (ledgers_empty 7) = 7" for r
    by (simp_all add: mailbox_def ledgers_empty_def)
  have "mailbox (fst (mailbox_enqueue env (ledgers_empty 7))) (row_id env ''b'')
      = Some \<lparr>mb_person = ''b'', mb_envelope = env, mb_state = ''pending'', mb_updated_at = 7\<rparr>"
    if "env_recipients env = [''b'', ''b'']" for env
    using enqueue_delivers_once[of env "ledgers_empty 7"] that none
    by (cases "mailbox_enqueue env (ledgers_empty 7)") simp
  then show ?thesis by simp
qed

text \<open>
  A retry is a no-op. Enqueueing any re-rendering of the same logical message (same id, same set of
  recipients; any body, any time) again changes no mailbox row and answers the same people.
\<close>

theorem enqueue_idempotent:
  assumes "mailbox_enqueue env l = (l1, p1)"
    and "env_id env' = env_id env" "set (env_recipients env') = set (env_recipients env)"
    and "mailbox_enqueue env' (set_now t l1) = (l2, p2)"
  shows "(\<forall>rid. mailbox l2 rid = mailbox l1 rid) \<and> p2 = p1"
proof -
  have rid: "row_id env' = row_id env" using assms(2) by (simp add: row_id_def fun_eq_iff)
  have rec: "sorted_set (env_recipients env') = sorted_set (env_recipients env)"
    using assms(3) by (metis distinct_sorted_set set_sorted_set sorted_distinct_set_unique sorted_sorted_set)
  have mb [simp]: "mailbox (set_now t l1) = mailbox l1" by (simp add: mailbox_def set_now_def fun_eq_iff)
  note f1 = enqueue_fold[OF distinct_sorted_set assms(1)[unfolded mailbox_enqueue_def]]
  note f2 = enqueue_fold[OF distinct_sorted_set assms(4)[unfolded mailbox_enqueue_def]]
  have row: "enqueued_row env' (set_now t l1) p = enqueued_row env l p"
    if "p \<in> set (env_recipients env)" for p
    using that f1 by (simp add: enqueued_row_def[of env'] rid)
  then have "filter (delivers env' (set_now t l1)) (sorted_set (env_recipients env))
      = filter (delivers env l) (sorted_set (env_recipients env))"
    by (intro filter_cong) (simp_all add: delivers_iff)
  moreover have "mailbox l2 r = mailbox l1 r" for r
    using f1 f2 row assms(3) unfolding rid by (cases "r \<in> row_id env ` set (env_recipients env)") auto
  ultimately show ?thesis using f1 f2 rec by simp
qed

theorem enqueue_idempotent_witness:
  "let env = \<lparr>env_schema_version = 1, env_id = ''m1'', env_organization = ''co'', env_from_person_id = ''a'',
       env_to = ''b'', env_recipients = [''c'', ''b''], env_body = ''hi'', env_urgency = Urgency_Normal,
       env_reply_to = None, env_health_incident = None, env_created_at = ''t''\<rparr>;
       env' = env\<lparr>env_recipients := [''b'', ''c'', ''b''], env_body := ''re-rendered''\<rparr>
   in snd (mailbox_enqueue env' (set_now 9 (fst (mailbox_enqueue env (ledgers_empty 7)))))
      = snd (mailbox_enqueue env (ledgers_empty 7))"
  unfolding Let_def
  by (rule conjunct2[OF enqueue_idempotent[OF prod.collapse[symmetric] _ _ prod.collapse[symmetric]]]) auto

section \<open>Terminal rows are frozen\<close>

datatype mailbox_event =
    MEnqueue mailbox_envelope
  | MArchive string mailbox_state
  | MTick int

fun mailbox_step :: "ledgers \<Rightarrow> mailbox_event \<Rightarrow> ledgers" where
  "mailbox_step l (MEnqueue env) = fst (mailbox_enqueue env l)"
| "mailbox_step l (MArchive rid target) = fst (archive rid target l)"
| "mailbox_step l (MTick now) = set_now now l"

text \<open>
  The order a mailbox moves in: no row disappears, a row's recipient and envelope never change, and a row
  that is not pending is never written again.
\<close>

definition mailbox_le :: "ledgers \<Rightarrow> ledgers \<Rightarrow> bool" where
  "mailbox_le l l' \<longleftrightarrow> (\<forall>rid row. mailbox l rid = Some row \<longrightarrow>
     (\<exists>row'. mailbox l' rid = Some row' \<and> mb_person row' = mb_person row
        \<and> mb_envelope row' = mb_envelope row \<and> (row_state row \<noteq> Some Pending \<longrightarrow> row' = row)))"

lemma mailbox_le_refl: "mailbox_le l l"
  by (simp add: mailbox_le_def)

lemma mailbox_le_trans: "mailbox_le l m \<Longrightarrow> mailbox_le m n \<Longrightarrow> mailbox_le l n"
  unfolding mailbox_le_def by metis

lemma enqueue_le: "mailbox_le l (fst (mailbox_enqueue env l))"
proof -
  obtain l' pending where e: "mailbox_enqueue env l = (l', pending)" by (metis surj_pair)
  note f = enqueue_fold[OF distinct_sorted_set e[unfolded mailbox_enqueue_def]]
  have "mailbox l' rid = Some row" if "mailbox l rid = Some row" for rid row
    using f that by (cases "rid \<in> row_id env ` set (env_recipients env)") (auto simp: enqueued_row_def)
  then show ?thesis by (simp add: e mailbox_le_def)
qed

lemma archive_le: "mailbox_le l (fst (archive rid target l))"
  by (auto simp: archive_def mailbox_le_def split: option.splits)

lemma step_le: "mailbox_le l (mailbox_step l e)"
  by (cases e) (auto simp: enqueue_le archive_le, simp add: mailbox_le_def mailbox_def set_now_def)

interpretation mailbox_forward: forward_machine mailbox_step "\<lambda>_. True" mailbox_le
  by unfold_locales (auto simp: mailbox_le_refl step_le intro: mailbox_le_trans)

text \<open>
  C31. A drained message never comes back. Whatever is enqueued, archived or waited for afterwards, a row
  in a terminal state keeps that very row for ever: it is never pending again, so it never again counts
  for the inbox, a wake or a launch demand.
\<close>

theorem terminal_rows_frozen:
  assumes "mailbox l rid = Some row" "row_state row = Some s" "is_terminal s"
  shows "mailbox (foldl mailbox_step l es) rid = Some row"
proof -
  have "mailbox_le l (foldl mailbox_step l es)" by (rule mailbox_forward.run_le) simp
  then show ?thesis using assms unfolding mailbox_le_def is_terminal_def by fastforce
qed

theorem terminal_rows_frozen_witness:
  "let env = \<lparr>env_schema_version = 1, env_id = ''m1'', env_organization = ''co'', env_from_person_id = ''a'',
       env_to = ''b'', env_recipients = [''b''], env_body = ''hi'', env_urgency = Urgency_Normal,
       env_reply_to = None, env_health_incident = None, env_created_at = ''t''\<rparr>;
       row = \<lparr>mb_person = ''b'', mb_envelope = env, mb_state = ''delivered'', mb_updated_at = 3\<rparr>;
       l = put_mailbox ''m1@b'' row (ledgers_empty 7)
   in mailbox (foldl mailbox_step l [MEnqueue env, MTick 9, MArchive ''m1@b'' Accepted]) ''m1@b'' = Some row"
  unfolding Let_def
  by (rule terminal_rows_frozen[where s = Delivered])
    (simp_all add: row_state_def mailbox_state_parse_def is_terminal_def)

section \<open>Reading the inbox\<close>

lemma insort_key_map: "insort_key k (f x) (map f xs) = map f (insort_key (k \<circ> f) x xs)"
  by (induction xs) auto

lemma sort_key_map: "sort_key k (map f xs) = map f (sort_key (k \<circ> f) xs)"
  by (induction xs) (simp_all add: insort_key_map o_def)

text \<open>
  The inbox. A person's pending messages are exactly the envelopes of that person's pending rows,
  each row once, oldest first by \<open>created_at\<close> and then by row id.
\<close>

theorem pending_for_sorted_complete:
  assumes "ledger_wf l"
  shows "\<exists>rows. pending_for l person = map (mb_envelope \<circ> snd) rows
    \<and> distinct rows \<and> sorted (map (\<lambda>(rid, row). (env_created_at (mb_envelope row), rid)) rows)
    \<and> set rows = {(rid, row). mailbox l rid = Some row \<and> mb_person row = person
                     \<and> row_state row = Some Pending}"
proof -
  let ?keep = "filter (\<lambda>(rid, row). mb_person row = person \<and> row_state row = Some Pending) (lg_mailbox l)"
  let ?key = "\<lambda>(rid, row). (env_created_at (mb_envelope row), rid)"
  have wf: "om_wf (lg_mailbox l)" using assms by (simp add: ledger_wf_def)
  have "map snd (sort_key (\<lambda>(rid, env). (env_created_at env, rid)) (map (\<lambda>(rid, row). (rid, mb_envelope row)) ?keep))
      = map snd (map (\<lambda>(rid, row). (rid, mb_envelope row)) (sort_key ?key ?keep))"
    by (simp add: sort_key_map o_def split_def)
  also have "\<dots> = map (mb_envelope \<circ> snd) (sort_key ?key ?keep)"
    by (simp add: o_def split_def)
  finally have p: "pending_for l person = map (mb_envelope \<circ> snd) (sort_key ?key ?keep)"
    by (simp add: pending_for_def)
  have "distinct ?keep" using om_wf_distinct[OF wf] by (simp add: distinct_map)
  moreover have "set ?keep = {(rid, row). mailbox l rid = Some row \<and> mb_person row = person
      \<and> row_state row = Some Pending}"
    by (auto simp: om_mem_iff[OF wf] mailbox_def)
  ultimately show ?thesis using p by (intro exI[of _ "sort_key ?key ?keep"]) simp
qed

theorem pending_for_sorted_complete_witness:
  "\<exists>rows. pending_for (ledgers_empty 3) ''b'' = map (mb_envelope \<circ> snd) rows \<and> distinct rows \<and> set rows = {}"
proof -
  have "ledger_wf (ledgers_empty 3)" by (simp add: ledger_wf_def ledgers_empty_def)
  from pending_for_sorted_complete[OF this, of "''b''"] show ?thesis
    by (auto simp: mailbox_def ledgers_empty_def)
qed

section \<open>Wakes and launch demand\<close>

lemma pending_recipients_iff:
  "ledger_wf l \<Longrightarrow> p \<in> set (pending_recipients l) \<longleftrightarrow>
     (\<exists>rid row. mailbox l rid = Some row \<and> row_state row = Some Pending \<and> mb_person row = p)"
  by (force simp: pending_recipients_def mailbox_def om_mem_iff[symmetric] ledger_wf_def)

lemma wake_scan_fold:
  "foldl (wake_scan_step f) plan ps =
     \<lparr>wp_wake = wp_wake plan @ filter (\<lambda>p. \<not> f p) ps, wp_coalesced = wp_coalesced plan @ filter f ps\<rparr>"
  by (induction ps arbitrary: plan) (auto simp: wake_scan_step_def)

text \<open>
  No pending recipient is lost by the wake scan. Those it wakes and those it leaves to a reconcile
  already in flight are disjoint, in order, and together exactly the people with a pending row; and the
  runtime is called at most once, never with an empty list.
\<close>

theorem wake_scan_partitions:
  assumes "ledger_wf l"
  shows "let plan = pending_mailbox_wake_scan l in_flight;
             (woken, coalesced) = run_pending_mailbox_wake l in_flight wake
         in set (wp_wake plan) \<union> set (wp_coalesced plan)
              = {p. \<exists>rid row. mailbox l rid = Some row \<and> row_state row = Some Pending \<and> mb_person row = p}
          \<and> set (wp_wake plan) \<inter> set (wp_coalesced plan) = {}
          \<and> (\<forall>p \<in> set (wp_wake plan). \<not> in_flight p) \<and> (\<forall>p \<in> set (wp_coalesced plan). in_flight p)
          \<and> sorted (wp_wake plan) \<and> distinct (wp_wake plan)
          \<and> coalesced = wp_coalesced plan
          \<and> woken = (if wp_wake plan = [] then [] else wake (wp_wake plan))"
proof -
  have plan: "pending_mailbox_wake_scan l in_flight =
      \<lparr>wp_wake = filter (\<lambda>p. \<not> in_flight p) (pending_recipients l),
       wp_coalesced = filter in_flight (pending_recipients l)\<rparr>"
    by (simp add: pending_mailbox_wake_scan_def wake_scan_fold)
  have "sorted (pending_recipients l)" "distinct (pending_recipients l)"
    by (simp_all add: pending_recipients_def)
  then show ?thesis
    using pending_recipients_iff[OF assms]
    by (auto simp: plan run_pending_mailbox_wake_def Let_def sorted_wrt_filter)
qed

theorem wake_scan_partitions_witness:
  "set (wp_wake (pending_mailbox_wake_scan (ledgers_empty 3) (\<lambda>_. False))) = {}"
proof -
  have "ledger_wf (ledgers_empty 3)" by (simp add: ledger_wf_def ledgers_empty_def)
  from wake_scan_partitions[OF this, of "\<lambda>_. False" "\<lambda>ps. ps"] show ?thesis
    by (auto simp: mailbox_def ledgers_empty_def Let_def split: prod.splits)
qed

text \<open>
  Launch demand is never more than the inbox. Everyone whose mail is a launch demand since an
  instant has a pending row that is not one of the launcher's own re-emissions and, when an instant is
  given, was created strictly after it; a later instant never adds anyone, and an unreadable creation
  time never counts against an instant.
\<close>

theorem demand_within_pending:
  assumes "ledger_wf l"
  shows "set (pending_demand_recipients l since) \<subseteq> set (pending_recipients l)
    \<and> (since = None \<or> set (pending_demand_recipients l since) \<subseteq> set (pending_demand_recipients l None))
    \<and> (\<forall>a b. a \<le> b \<longrightarrow> set (pending_demand_recipients l (Some b)) \<subseteq> set (pending_demand_recipients l (Some a)))
    \<and> (\<forall>p \<in> set (pending_demand_recipients l since). \<exists>rid row. mailbox l rid = Some row
         \<and> mb_person row = p \<and> row_state row = Some Pending \<and> \<not> is_launcher_re_emission (mb_envelope row)
         \<and> (case since of None \<Rightarrow> True | Some t \<Rightarrow>
              \<exists>c. parse_iso_millis (env_created_at (mb_envelope row)) = Some c \<and> t < c))"
proof -
  let ?P = "\<lambda>since (rid :: string, row). row_state row = Some Pending \<and> \<not> is_launcher_re_emission (mb_envelope row)
     \<and> (case since of None \<Rightarrow> True | Some since \<Rightarrow>
          (case parse_iso_millis (env_created_at (mb_envelope row)) of None \<Rightarrow> False | Some created \<Rightarrow> since < created))"
  have d: "set (pending_demand_recipients l s) = (mb_person \<circ> snd) ` {e \<in> set (lg_mailbox l). ?P s e}" for s
    by (simp add: pending_demand_recipients_def)
  have r: "set (pending_recipients l) = (mb_person \<circ> snd) ` {e \<in> set (lg_mailbox l). row_state (snd e) = Some Pending}"
    by (auto simp: pending_recipients_def)
  have mono: "?P (Some b) e \<Longrightarrow> ?P (Some a) e" if "a \<le> b" for a b e
    using that by (auto split: option.splits)
  have wf: "om_wf (lg_mailbox l)" using assms by (simp add: ledger_wf_def)
  show ?thesis
  proof (intro conjI allI impI ballI)
    show "set (pending_demand_recipients l since) \<subseteq> set (pending_recipients l)"
      unfolding d r by (rule image_mono) auto
    show "since = None \<or> set (pending_demand_recipients l since) \<subseteq> set (pending_demand_recipients l None)"
      unfolding d by (rule disjI2, rule image_mono) auto
    show "set (pending_demand_recipients l (Some b)) \<subseteq> set (pending_demand_recipients l (Some a))"
      if "a \<le> b" for a b
      unfolding d using mono[OF that] by (intro image_mono) auto
    fix p assume "p \<in> set (pending_demand_recipients l since)"
    then obtain rid row where "(rid, row) \<in> set (lg_mailbox l)" "?P since (rid, row)" "mb_person row = p"
      unfolding d by auto
    then show "\<exists>rid row. mailbox l rid = Some row
         \<and> mb_person row = p \<and> row_state row = Some Pending \<and> \<not> is_launcher_re_emission (mb_envelope row)
         \<and> (case since of None \<Rightarrow> True | Some t \<Rightarrow>
              \<exists>c. parse_iso_millis (env_created_at (mb_envelope row)) = Some c \<and> t < c)"
      by (intro exI[of _ rid] exI[of _ row])
        (auto simp: mailbox_def om_mem_iff[OF wf, symmetric] split: option.splits)
  qed
qed

theorem demand_within_pending_witness:
  "set (pending_demand_recipients (ledgers_empty 3) (Some 5)) \<subseteq> set (pending_recipients (ledgers_empty 3))"
proof -
  have "ledger_wf (ledgers_empty 3)" by (simp add: ledger_wf_def ledgers_empty_def)
  from demand_within_pending[OF this, of "Some 5"] show ?thesis by blast
qed

end
