(* ===== verification/Document_Slot.thy ===== *)
theory Document_Slot
  imports Ledger
begin

text \<open>
  The stores whose whole state is one document (\<open>converge_safety\<close>, \<open>launch_intent\<close>) use four
  operations of the ledgers: the instant, the body under their name, writing it and removing it.
  \<open>doc_slot\<close> is that view, over an arbitrary body type, and \<open>slot_of\<close> projects the ledgers on it: the
  lemmas say that the ledger operations implement the slot's, and that writing another store leaves
  the slot alone. \<open>serde_json\<close> is an encoder and a decoder; what the stores rely on is \<open>json_faithful\<close>.
\<close>

record 'b doc_slot =
  slot_now :: int
  slot_body :: "'b option"

definition slot_put :: "'b \<Rightarrow> 'b doc_slot \<Rightarrow> 'b doc_slot" where
  "slot_put b s = s\<lparr>slot_body := Some b\<rparr>"

definition slot_clear :: "'b doc_slot \<Rightarrow> 'b doc_slot \<times> bool" where
  "slot_clear s = (s\<lparr>slot_body := None\<rparr>, slot_body s \<noteq> None)"

definition slot_of :: "string \<Rightarrow> ledgers \<Rightarrow> string doc_slot" where
  "slot_of store l = \<lparr>slot_now = lg_now l, slot_body = document_body l store\<rparr>"

lemma slot_of_put [simp]:
  "slot_of store (put_document ref store body l) = slot_put body (slot_of store l)"
  by (simp add: slot_of_def slot_put_def put_document_def document_body_def document_def store_simps)

lemma slot_of_put_other [simp]:
  "store' \<noteq> store \<Longrightarrow> slot_of store' (put_document ref store body l) = slot_of store' l"
  by (simp add: slot_of_def put_document_def document_body_def document_def store_simps)

lemma slot_of_remove [simp]:
  "slot_of store (fst (remove_document store l)) = fst (slot_clear (slot_of store l))"
  "snd (remove_document store l) = snd (slot_clear (slot_of store l))"
  by (simp_all add: slot_of_def slot_clear_def remove_document_def document_body_def document_def
      store_simps om_has_def)

lemma slot_of_remove_other [simp]:
  "store' \<noteq> store \<Longrightarrow> slot_of store' (fst (remove_document store l)) = slot_of store' l"
  by (simp add: slot_of_def remove_document_def document_body_def document_def store_simps)

definition json_faithful :: "('a \<Rightarrow> 'b option) \<Rightarrow> ('b \<Rightarrow> string + 'a) \<Rightarrow> bool" where
  "json_faithful enc dec \<longleftrightarrow> (\<forall>a. \<exists>b. enc a = Some b \<and> dec b = Inr a)"

lemma json_faithfulE:
  assumes "json_faithful enc dec"
  obtains b where "enc a = Some b" "dec b = Inr a"
  using assms by (auto simp: json_faithful_def)

lemma json_faithful_id [simp]: "json_faithful Some Inr"
  by (simp add: json_faithful_def)

end
