(* ===== verification/Converge_Safety.thy ===== *)
theory Converge_Safety
  imports Document_Slot Isotime
begin

text \<open>
  The durable safety gate of the converge cycle (\<open>chiefd-core/src/store/converge_safety.rs\<close>): actuation
  mode, three-strike breaker, single-flight claim with a floor between starts. The row is one JSON
  document; reading it never fails, an absent row is the shadow default and an unreadable one is the
  restrictive value.
\<close>

section \<open>The state\<close>

definition CONVERGE_SAFETY_SCHEMA_VERSION :: nat where "CONVERGE_SAFETY_SCHEMA_VERSION = 1"
definition BREAKER_TRIP_THRESHOLD :: nat where "BREAKER_TRIP_THRESHOLD = 3"
definition CLAIM_STALE_MS :: int where "CLAIM_STALE_MS = 600000"

datatype actuation_mode = Shadow | Apply

record safety_config =
  sc_actuation_mode :: actuation_mode
  sc_sweep_live :: bool
  sc_budget_override_active :: bool

datatype breaker_action = Continue | Tripped

datatype skip_reason = AlreadyRunning | FloorNotElapsed

datatype cycle_gate = Proceed | Skipped skip_reason

definition may_proceed :: "cycle_gate \<Rightarrow> bool" where
  "may_proceed g \<longleftrightarrow> g = Proceed"

record refusal_record =
  rr_kind :: string
  rr_detail :: string
  rr_at :: string

record converge_safety_state =
  cs_schema_version :: nat
  cs_actuation_mode :: actuation_mode
  cs_sweep_live :: bool
  cs_budget_override :: bool
  cs_consecutive_failures :: nat
  cs_breaker_tripped :: bool
  cs_breaker_tripped_at :: "string option"
  cs_cycle_in_progress :: bool
  cs_cycle_started_at_ms :: "int option"
  cs_last_refusal :: "refusal_record option"

definition default_shadow :: converge_safety_state where
  "default_shadow = \<lparr>cs_schema_version = CONVERGE_SAFETY_SCHEMA_VERSION, cs_actuation_mode = Shadow,
     cs_sweep_live = False, cs_budget_override = False, cs_consecutive_failures = 0,
     cs_breaker_tripped = False, cs_breaker_tripped_at = None, cs_cycle_in_progress = False,
     cs_cycle_started_at_ms = None, cs_last_refusal = None\<rparr>"

definition cs_restrictive :: converge_safety_state where
  "cs_restrictive = \<lparr>cs_schema_version = CONVERGE_SAFETY_SCHEMA_VERSION, cs_actuation_mode = Shadow,
     cs_sweep_live = False, cs_budget_override = False,
     cs_consecutive_failures = BREAKER_TRIP_THRESHOLD,
     cs_breaker_tripped = True, cs_breaker_tripped_at = None, cs_cycle_in_progress = False,
     cs_cycle_started_at_ms = None, cs_last_refusal = None\<rparr>"

definition effective_config :: "converge_safety_state \<Rightarrow> safety_config" where
  "effective_config s = \<lparr>sc_actuation_mode = (if cs_breaker_tripped s then Shadow else cs_actuation_mode s),
     sc_sweep_live = (cs_sweep_live s \<and> \<not> cs_breaker_tripped s),
     sc_budget_override_active = cs_budget_override s\<rparr>"

section \<open>Reading and writing the row\<close>

definition CONVERGE_SAFETY_NAME :: string where "CONVERGE_SAFETY_NAME = ''converge-safety''"

definition cs_parse :: "('b \<Rightarrow> string + converge_safety_state) \<Rightarrow> 'b \<Rightarrow> string + converge_safety_state" where
  "cs_parse dec body =
     res_bind (map_err (\<lambda>error. ''the body did not decode: '' @ error) (dec body)) (\<lambda>state.
       if cs_schema_version state \<noteq> CONVERGE_SAFETY_SCHEMA_VERSION
       then Inl (''the body is schema version '' @ show_nat (cs_schema_version state) @ '', not ''
              @ show_nat CONVERGE_SAFETY_SCHEMA_VERSION)
       else Inr state)"

definition cs_read ::
  "('b \<Rightarrow> string + converge_safety_state) \<Rightarrow> 'b doc_slot \<Rightarrow> converge_safety_state decoded" where
  "cs_read dec l = (case slot_body l of
     None \<Rightarrow> Decoded_Absent default_shadow None
   | Some body \<Rightarrow> decode_fail_safe_value CONVERGE_SAFETY_NAME cs_restrictive (cs_parse dec body))"

definition cs_current :: "('b \<Rightarrow> string + converge_safety_state) \<Rightarrow> 'b doc_slot \<Rightarrow> converge_safety_state" where
  "cs_current dec l = fst (into_parts (cs_read dec l))"

definition cs_put ::
  "(converge_safety_state \<Rightarrow> 'b option) \<Rightarrow> converge_safety_state \<Rightarrow> 'b doc_slot
     \<Rightarrow> 'b doc_slot \<times> converge_safety_state" where
  "cs_put enc state l =
     (let state' = state\<lparr>cs_schema_version := CONVERGE_SAFETY_SCHEMA_VERSION\<rparr>
      in (case enc state' of Some encoded \<Rightarrow> slot_put encoded l | None \<Rightarrow> l, state'))"

definition cs_configured :: "'b doc_slot \<Rightarrow> bool" where
  "cs_configured l \<longleftrightarrow> slot_body l \<noteq> None"

definition cs_clear :: "'b doc_slot \<Rightarrow> 'b doc_slot \<times> bool" where
  "cs_clear l = slot_clear l"

section \<open>The mutators\<close>

text \<open>\<open>J\<close> pairs the encoder and the decoder of the body.\<close>

type_synonym 'b cs_json =
  "(converge_safety_state \<Rightarrow> 'b option) \<times> ('b \<Rightarrow> string + converge_safety_state)"

definition set_actuation_config ::
  "'b cs_json \<Rightarrow> actuation_mode \<Rightarrow> bool \<Rightarrow> bool \<Rightarrow> 'b doc_slot \<Rightarrow> 'b doc_slot \<times> converge_safety_state" where
  "set_actuation_config J mode sweep_live budget_override l =
     cs_put (fst J) ((cs_current (snd J) l)\<lparr>cs_actuation_mode := mode, cs_sweep_live := sweep_live,
       cs_budget_override := budget_override, cs_consecutive_failures := 0,
       cs_breaker_tripped := False, cs_breaker_tripped_at := None\<rparr>) l"

definition record_cycle_outcome ::
  "'b cs_json \<Rightarrow> bool \<Rightarrow> 'b doc_slot \<Rightarrow> 'b doc_slot \<times> breaker_action" where
  "record_cycle_outcome J cycle_succeeded l =
     (let state = cs_current (snd J) l
      in if cycle_succeeded
         then (fst (cs_put (fst J) (state\<lparr>cs_consecutive_failures := 0\<rparr>) l), Continue)
         else
           (let failures = sat_add_u32 (cs_consecutive_failures state) 1;
                newly_tripped = (BREAKER_TRIP_THRESHOLD \<le> failures \<and> \<not> cs_breaker_tripped state);
                counted = state\<lparr>cs_consecutive_failures := failures\<rparr>;
                at = iso_millis (slot_now l);
                state' = (if newly_tripped
                  then counted\<lparr>cs_breaker_tripped := True, cs_breaker_tripped_at := Some at,
                         cs_last_refusal := Some \<lparr>rr_kind = ''circuit-breaker'',
                           rr_detail = show_nat failures
                             @ '' consecutive apply-cycle failures; company dropped to shadow'',
                           rr_at = at\<rparr>\<rparr>
                  else counted)
            in (fst (cs_put (fst J) state' l), if newly_tripped then Tripped else Continue)))"

definition operator_clear_breaker ::
  "'b cs_json \<Rightarrow> 'b doc_slot \<Rightarrow> 'b doc_slot \<times> converge_safety_state" where
  "operator_clear_breaker J l =
     cs_put (fst J) ((cs_current (snd J) l)\<lparr>cs_consecutive_failures := 0, cs_breaker_tripped := False,
       cs_breaker_tripped_at := None\<rparr>) l"

definition begin_cycle :: "'b cs_json \<Rightarrow> int \<Rightarrow> 'b doc_slot \<Rightarrow> 'b doc_slot \<times> cycle_gate" where
  "begin_cycle J floor_interval_ms l =
     (let now = slot_now l;
          state = cs_current (snd J) l;
          claim_fresh = (case cs_cycle_started_at_ms state of None \<Rightarrow> True
            | Some started \<Rightarrow> sat_sub_i64 now started < CLAIM_STALE_MS)
      in if cs_cycle_in_progress state \<and> claim_fresh then (l, Skipped AlreadyRunning)
         else if (case cs_cycle_started_at_ms state of None \<Rightarrow> False
            | Some started \<Rightarrow> sat_sub_i64 now started < floor_interval_ms)
         then (l, Skipped FloorNotElapsed)
         else (fst (cs_put (fst J) (state\<lparr>cs_cycle_in_progress := True,
                 cs_cycle_started_at_ms := Some now\<rparr>) l), Proceed))"

definition end_cycle :: "'b cs_json \<Rightarrow> 'b doc_slot \<Rightarrow> 'b doc_slot \<times> converge_safety_state" where
  "end_cycle J l = cs_put (fst J) ((cs_current (snd J) l)\<lparr>cs_cycle_in_progress := False\<rparr>) l"

definition record_refusal ::
  "'b cs_json \<Rightarrow> string \<Rightarrow> string \<Rightarrow> 'b doc_slot \<Rightarrow> 'b doc_slot \<times> converge_safety_state" where
  "record_refusal J kind detail l =
     cs_put (fst J) ((cs_current (snd J) l)\<lparr>cs_last_refusal :=
       Some \<lparr>rr_kind = kind, rr_detail = detail, rr_at = iso_millis (slot_now l)\<rparr>\<rparr>) l"

section \<open>Runs\<close>

datatype safety_event =
    SetConfig actuation_mode bool bool
  | Outcome bool
  | ClearBreaker
  | Begin int
  | End
  | Refuse string string
  | At int

fun safety_step :: "'b cs_json \<Rightarrow> 'b doc_slot \<Rightarrow> safety_event \<Rightarrow> 'b doc_slot" where
  "safety_step J l (SetConfig m s b) = fst (set_actuation_config J m s b l)"
| "safety_step J l (Outcome ok) = fst (record_cycle_outcome J ok l)"
| "safety_step J l ClearBreaker = fst (operator_clear_breaker J l)"
| "safety_step J l (Begin floor_ms) = fst (begin_cycle J floor_ms l)"
| "safety_step J l End = fst (end_cycle J l)"
| "safety_step J l (Refuse k d) = fst (record_refusal J k d l)"
| "safety_step J l (At now) = l\<lparr>slot_now := now\<rparr>"

definition faithful :: "'b cs_json \<Rightarrow> bool" where
  "faithful J \<longleftrightarrow> json_faithful (fst J) (snd J)"

lemma current_put:
  assumes "faithful J"
  shows "cs_current (snd J) (fst (cs_put (fst J) s l)) = s\<lparr>cs_schema_version := CONVERGE_SAFETY_SCHEMA_VERSION\<rparr>"
    and "slot_now (fst (cs_put (fst J) s l)) = slot_now l"
proof -
  let ?s = "s\<lparr>cs_schema_version := CONVERGE_SAFETY_SCHEMA_VERSION\<rparr>"
  obtain b where "fst J ?s = Some b" "snd J b = Inr ?s"
    using assms unfolding faithful_def by (rule json_faithfulE)
  then show "cs_current (snd J) (fst (cs_put (fst J) s l)) = ?s"
      "slot_now (fst (cs_put (fst J) s l)) = slot_now l"
    by (simp_all add: cs_put_def cs_current_def cs_read_def cs_parse_def slot_put_def
        decode_fail_safe_value_def Let_def)
qed

lemma current_at [simp]: "cs_current dec (l\<lparr>slot_now := t\<rparr>) = cs_current dec l"
  by (simp add: cs_current_def cs_read_def)

text \<open>The step on the state that is read back, and the instant.\<close>

fun state_step :: "int \<times> converge_safety_state \<Rightarrow> safety_event \<Rightarrow> int \<times> converge_safety_state" where
  "state_step (t, s) (SetConfig m sw b) = (t, s\<lparr>cs_actuation_mode := m, cs_sweep_live := sw,
     cs_budget_override := b, cs_consecutive_failures := 0, cs_breaker_tripped := False,
     cs_breaker_tripped_at := None\<rparr>)"
| "state_step (t, s) (Outcome ok) = (t,
     if ok then s\<lparr>cs_consecutive_failures := 0\<rparr>
     else let f = sat_add_u32 (cs_consecutive_failures s) 1
          in if 3 \<le> f \<and> \<not> cs_breaker_tripped s
             then s\<lparr>cs_consecutive_failures := f, cs_breaker_tripped := True,
                    cs_breaker_tripped_at := Some (iso_millis t),
                    cs_last_refusal := Some \<lparr>rr_kind = ''circuit-breaker'', rr_detail = show_nat f
                       @ '' consecutive apply-cycle failures; company dropped to shadow'',
                       rr_at = iso_millis t\<rparr>\<rparr>
             else s\<lparr>cs_consecutive_failures := f\<rparr>)"
| "state_step (t, s) ClearBreaker = (t, s\<lparr>cs_consecutive_failures := 0, cs_breaker_tripped := False,
     cs_breaker_tripped_at := None\<rparr>)"
| "state_step (t, s) (Begin fl) = (t,
     if (case cs_cycle_started_at_ms s of None \<Rightarrow> cs_cycle_in_progress s
         | Some b \<Rightarrow> cs_cycle_in_progress s \<and> sat_sub_i64 t b < CLAIM_STALE_MS \<or> sat_sub_i64 t b < fl)
     then s else s\<lparr>cs_cycle_in_progress := True, cs_cycle_started_at_ms := Some t\<rparr>)"
| "state_step (t, s) End = (t, s\<lparr>cs_cycle_in_progress := False\<rparr>)"
| "state_step (t, s) (Refuse k d) = (t, s\<lparr>cs_last_refusal :=
     Some \<lparr>rr_kind = k, rr_detail = d, rr_at = iso_millis t\<rparr>\<rparr>)"
| "state_step (t, s) (At now) = (now, s)"

definition current_version :: "int \<times> converge_safety_state \<Rightarrow> bool" where
  "current_version ts \<longleftrightarrow> cs_schema_version (snd ts) = CONVERGE_SAFETY_SCHEMA_VERSION"

definition read_back :: "'b cs_json \<Rightarrow> 'b doc_slot \<Rightarrow> int \<times> converge_safety_state" where
  "read_back J l = (slot_now l, cs_current (snd J) l)"

lemma current_is_versioned: "current_version (read_back J l)"
proof (cases "slot_body l")
  case None
  then show ?thesis by (simp add: current_version_def read_back_def cs_current_def cs_read_def default_shadow_def)
next
  case (Some b)
  then show ?thesis
    by (cases "snd J b") (auto simp: current_version_def read_back_def cs_current_def cs_read_def
        cs_parse_def decode_fail_safe_value_def cs_restrictive_def)
qed

lemma same_version:
  "cs_schema_version s = CONVERGE_SAFETY_SCHEMA_VERSION \<Longrightarrow> s\<lparr>cs_schema_version := CONVERGE_SAFETY_SCHEMA_VERSION\<rparr> = s"
  by (cases s) simp

lemma step_reads_back:
  assumes "faithful J"
  shows "read_back J (safety_step J l e) = state_step (read_back J l) e"
proof -
  have v: "cs_schema_version (cs_current (snd J) l) = CONVERGE_SAFETY_SCHEMA_VERSION"
    using current_is_versioned[of J l] by (simp add: current_version_def read_back_def)
  note cp = current_put[OF assms]
  show ?thesis
  proof (cases e)
    case (Begin fl)
    then show ?thesis
      by (cases "cs_cycle_started_at_ms (cs_current (snd J) l)")
        (auto simp: read_back_def begin_cycle_def Let_def cp v intro!: same_version)
  next
    case (Outcome ok)
    then show ?thesis
      by (auto simp: read_back_def record_cycle_outcome_def Let_def cp v BREAKER_TRIP_THRESHOLD_def
          intro!: same_version)
  qed (auto simp: read_back_def set_actuation_config_def operator_clear_breaker_def end_cycle_def
      record_refusal_def cp v intro!: same_version)
qed

lemma run_reads_back:
  "faithful J \<Longrightarrow> read_back J (foldl (safety_step J) l es) = foldl state_step (read_back J l) es"
  by (induction es rule: rev_induct) (simp_all add: step_reads_back)

section \<open>The breaker\<close>

datatype strike = Fail | Success | Resume

fun strike_of :: "safety_event \<Rightarrow> strike list" where
  "strike_of (SetConfig _ _ _) = [Resume]"
| "strike_of (Outcome ok) = [if ok then Success else Fail]"
| "strike_of ClearBreaker = [Resume]"
| "strike_of (Begin _) = []"
| "strike_of End = []"
| "strike_of (Refuse _ _) = []"
| "strike_of (At _) = []"

definition strikes :: "safety_event list \<Rightarrow> strike list" where
  "strikes es = concat (map strike_of es)"

definition struck_out :: "strike list \<Rightarrow> bool" where
  "struck_out ks \<longleftrightarrow> (\<exists>before after. ks = before @ [Fail, Fail, Fail] @ after \<and> Resume \<notin> set after)"

definition trailing :: "strike list \<Rightarrow> nat" where
  "trailing ks = length (takeWhile (\<lambda>k. k = Fail) (rev ks))"

lemma two_trailing: "2 \<le> trailing ks \<longleftrightarrow> (\<exists>before. ks = before @ [Fail, Fail])"
proof -
  have "2 \<le> length (takeWhile (\<lambda>k. k = Fail) xs) \<longleftrightarrow> (\<exists>r. xs = Fail # Fail # r)" for xs
    by (cases xs; cases "tl xs") auto
  also have "(\<exists>r. rev ks = Fail # Fail # r) \<longleftrightarrow> (\<exists>before. ks = before @ [Fail, Fail])"
    by (metis append_Cons append_Nil append_eq_appendI rev.simps rev_append rev_rev_ident rev_singleton_conv)
  finally show ?thesis by (simp add: trailing_def)
qed

lemma struck_out_snoc:
  "struck_out (ks @ [k]) \<longleftrightarrow> k \<noteq> Resume \<and> (struck_out ks \<or> k = Fail \<and> 2 \<le> trailing ks)"
proof
  assume "struck_out (ks @ [k])"
  then obtain b a where ba: "ks @ [k] = b @ [Fail, Fail, Fail] @ a" "Resume \<notin> set a"
    unfolding struck_out_def by blast
  show "k \<noteq> Resume \<and> (struck_out ks \<or> k = Fail \<and> 2 \<le> trailing ks)"
  proof (cases a rule: rev_cases)
    case Nil
    then have "ks @ [k] = (b @ [Fail, Fail]) @ [Fail]" using ba(1) by simp
    then show ?thesis unfolding two_trailing append1_eq_conv by blast
  next
    case (snoc a' k')
    then have "ks @ [k] = (b @ [Fail, Fail, Fail] @ a') @ [k']" using ba(1) by simp
    then have "ks = b @ [Fail, Fail, Fail] @ a'" "k = k'" unfolding append1_eq_conv by simp_all
    then show ?thesis using snoc ba(2) unfolding struck_out_def by auto
  qed
next
  assume r: "k \<noteq> Resume \<and> (struck_out ks \<or> k = Fail \<and> 2 \<le> trailing ks)"
  then consider (out) "struck_out ks" | (third) "k = Fail" "2 \<le> trailing ks" by blast
  then show "struck_out (ks @ [k])"
  proof cases
    case out
    then obtain b a where "ks = b @ [Fail, Fail, Fail] @ a" "Resume \<notin> set a"
      unfolding struck_out_def by blast
    then show ?thesis unfolding struck_out_def using r
      by (intro exI[of _ b] exI[of _ "a @ [k]"]) auto
  next
    case third
    then obtain b where "ks = b @ [Fail, Fail]" unfolding two_trailing by blast
    then show ?thesis unfolding struck_out_def using third(1)
      by (intro exI[of _ b] exI[of _ "[]"]) auto
  qed
qed

lemma trailing_snoc: "trailing (ks @ [k]) = (if k = Fail then Suc (trailing ks) else 0)"
  by (simp add: trailing_def)

lemma strikes_snoc: "strikes (es @ [e]) = strikes es @ strike_of e"
  by (simp add: strikes_def)

lemma breaker_state:
  assumes "cs_consecutive_failures s = 0" "\<not> cs_breaker_tripped s"
  shows "cs_consecutive_failures (snd (foldl state_step (t, s) es)) = min (trailing (strikes es)) u32_max
     \<and> (cs_breaker_tripped (snd (foldl state_step (t, s) es)) \<longleftrightarrow> struck_out (strikes es))"
proof (induction es rule: rev_induct)
  case Nil
  then show ?case using assms by (simp add: strikes_def trailing_def struck_out_def)
next
  case (snoc e es)
  obtain t' s' where r: "foldl state_step (t, s) es = (t', s')" by (metis surj_pair)
  have big: "3 \<le> min (Suc (min n u32_max)) u32_max \<longleftrightarrow> 2 \<le> n" for n
    by (auto simp: u32_max_def)
  have u: "3 \<le> u32_max" by (simp add: u32_max_def)
  show ?case
    using snoc.IH r u
    by (cases e) (auto simp: strikes_snoc trailing_snoc struck_out_snoc Let_def sat_add_u32_def big
        trailing_def[of "[]"] split: if_splits)
qed

text \<open>
  C32. Three strikes. On a fresh company, after any sequence of events, the breaker is tripped exactly if
  three failed cycles came in a row (no success and no resume among them) and no operator clear or
  configuration change has come since; and while it is tripped nothing is actuated, whatever mode and
  sweep the operator had set.
\<close>

theorem tripped_iff_three_strikes:
  assumes "faithful J" "slot_body l = None"
  shows "let s = cs_current (snd J) (foldl (safety_step J) l es)
     in (cs_breaker_tripped s \<longleftrightarrow>
           (\<exists>before after. strikes es = before @ [Fail, Fail, Fail] @ after \<and> Resume \<notin> set after))
      \<and> (cs_breaker_tripped s \<longrightarrow>
           sc_actuation_mode (effective_config s) = Shadow \<and> \<not> sc_sweep_live (effective_config s))"
proof -
  have "read_back J l = (slot_now l, default_shadow)"
    using assms(2) by (simp add: read_back_def cs_current_def cs_read_def)
  then have "cs_current (snd J) (foldl (safety_step J) l es)
      = snd (foldl state_step (slot_now l, default_shadow) es)"
    using run_reads_back[OF assms(1), of l es] by (metis read_back_def snd_conv)
  then show ?thesis
    using breaker_state[of default_shadow "slot_now l" es]
    by (simp add: Let_def default_shadow_def struck_out_def effective_config_def)
qed

theorem tripped_iff_three_strikes_witness:
  "cs_breaker_tripped (cs_current Inr (foldl (safety_step (Some, Inr)) \<lparr>slot_now = 0, slot_body = None\<rparr>
     [SetConfig Apply True False, Outcome False, Begin 0, Outcome False, End, Outcome False, Outcome True]))"
proof -
  let ?l = "\<lparr>slot_now = 0, slot_body = None\<rparr> :: converge_safety_state doc_slot"
  let ?es = "[SetConfig Apply True False, Outcome False, Begin 0, Outcome False, End, Outcome False, Outcome True]"
  have "faithful (Some, Inr :: _ \<Rightarrow> _ + converge_safety_state)" "slot_body ?l = None"
    by (simp_all add: faithful_def)
  note tripped_iff_three_strikes[OF this, of ?es, unfolded Let_def snd_conv, THEN conjunct1]
  moreover have "strikes ?es = [Resume] @ [Fail, Fail, Fail] @ [Success]" by (simp add: strikes_def)
  then have "\<exists>before after. strikes ?es = before @ [Fail, Fail, Fail] @ after \<and> Resume \<notin> set after"
    by (intro exI[of _ "[Resume]"] exI[of _ "[Success]"]) simp
  ultimately show ?thesis by blast
qed

definition unreadable :: "'b cs_json \<Rightarrow> 'b doc_slot \<Rightarrow> bool" where
  "unreadable J l \<longleftrightarrow> (\<exists>b. slot_body l = Some b
     \<and> (case snd J b of Inl _ \<Rightarrow> True | Inr s \<Rightarrow> cs_schema_version s \<noteq> CONVERGE_SAFETY_SCHEMA_VERSION))"

lemma unreadable_restrictive: "unreadable J l \<Longrightarrow> cs_current (snd J) l = cs_restrictive"
proof -
  assume "unreadable J l"
  then obtain b where b: "slot_body l = Some b"
      "case snd J b of Inl _ \<Rightarrow> True | Inr s \<Rightarrow> cs_schema_version s \<noteq> CONVERGE_SAFETY_SCHEMA_VERSION"
    by (auto simp: unreadable_def)
  then show ?thesis
    by (cases "snd J b") (simp_all add: cs_current_def cs_read_def cs_parse_def decode_fail_safe_value_def)
qed

lemma tripped_until_resumed:
  assumes "cs_breaker_tripped (snd ts)" "Resume \<notin> set (strikes es)"
  shows "cs_breaker_tripped (snd (foldl state_step ts es))"
  using assms
proof (induction es arbitrary: ts)
  case (Cons e es)
  obtain t s where "ts = (t, s)" by (cases ts)
  with Cons.prems have "cs_breaker_tripped (snd (state_step ts e))"
    by (cases e) (auto simp: strikes_def Let_def)
  with Cons show ?case by (simp add: strikes_def)
qed simp

text \<open>
  An unreadable row never applies. From a row that does not decode, or decodes to another schema
  version, no event other than a configuration change or an operator clear ever lets the gate answer
  anything but shadow with the sweep off.
\<close>

theorem unreadable_row_never_applies:
  assumes "faithful J" "unreadable J l" "Resume \<notin> set (strikes es)"
  shows "let c = effective_config (cs_current (snd J) (foldl (safety_step J) l es))
     in sc_actuation_mode c = Shadow \<and> \<not> sc_sweep_live c"
proof -
  have "cs_breaker_tripped (snd (read_back J l))"
    using unreadable_restrictive[OF assms(2)] by (simp add: read_back_def cs_restrictive_def)
  then have "cs_breaker_tripped (snd (foldl state_step (read_back J l) es))"
    using assms(3) by (rule tripped_until_resumed)
  then show ?thesis
    unfolding run_reads_back[OF assms(1), symmetric]
    by (simp add: Let_def read_back_def effective_config_def)
qed

theorem unreadable_row_never_applies_witness:
  "sc_actuation_mode (effective_config (cs_current Inr (foldl (safety_step (Some, Inr))
      \<lparr>slot_now = 0, slot_body = Some (default_shadow\<lparr>cs_schema_version := 9, cs_actuation_mode := Apply\<rparr>)\<rparr>
      [Outcome True, Begin 5, End]))) = Shadow"
  using unreadable_row_never_applies[of "(Some, Inr)"
      "\<lparr>slot_now = 0, slot_body = Some (default_shadow\<lparr>cs_schema_version := 9, cs_actuation_mode := Apply\<rparr>)\<rparr>"
      "[Outcome True, Begin 5, End]"]
  unfolding Let_def snd_conv
  by (simp add: faithful_def unreadable_def strikes_def CONVERGE_SAFETY_SCHEMA_VERSION_def
      del: safety_step.simps)

section \<open>Single flight\<close>

text \<open>After a cycle started, the last start is remembered, and the claim is held until it is released.\<close>

definition started :: "converge_safety_state \<Rightarrow> bool \<Rightarrow> bool" where
  "started s held \<longleftrightarrow> cs_cycle_started_at_ms s \<noteq> None \<and> (held \<longrightarrow> cs_cycle_in_progress s)"

lemma started_run:
  assumes "started (snd ts) True"
  shows "started (snd (foldl state_step ts es)) (End \<notin> set es)"
    and "(\<And>fl. Begin fl \<notin> set es) \<Longrightarrow>
      cs_cycle_started_at_ms (snd (foldl state_step ts es)) = cs_cycle_started_at_ms (snd ts)"
proof -
  have "started (snd (foldl state_step ts es)) (End \<notin> set es)
      \<and> ((\<forall>fl. Begin fl \<notin> set es) \<longrightarrow>
          cs_cycle_started_at_ms (snd (foldl state_step ts es)) = cs_cycle_started_at_ms (snd ts))"
  proof (induction es rule: rev_induct)
    case (snoc e es)
    obtain t s where "foldl state_step ts es = (t, s)" by (metis surj_pair)
    with snoc.IH show ?case by (cases e) (auto simp: started_def Let_def)
  qed (use assms in simp)
  then show "started (snd (foldl state_step ts es)) (End \<notin> set es)"
    and "(\<And>fl. Begin fl \<notin> set es) \<Longrightarrow>
      cs_cycle_started_at_ms (snd (foldl state_step ts es)) = cs_cycle_started_at_ms (snd ts)"
    by simp_all
qed

lemma begin_proceeds:
  assumes "begin_cycle J fl l = (l', Proceed)" "0 \<le> fl" "fl \<le> i64_max"
    and "cs_cycle_started_at_ms (cs_current (snd J) l) = Some t0"
  shows "fl \<le> slot_now l - t0"
    and "cs_cycle_in_progress (cs_current (snd J) l) \<Longrightarrow> CLAIM_STALE_MS \<le> slot_now l - t0"
proof -
  have "\<not> sat_sub_i64 (slot_now l) t0 < fl"
    using assms(1,4) by (auto simp: begin_cycle_def Let_def split: if_splits)
  then show "fl \<le> slot_now l - t0"
    using sat_sub_i64_lt_iff[of fl "slot_now l" t0] assms(2,3) by (simp add: i64_min_def)
  assume "cs_cycle_in_progress (cs_current (snd J) l)"
  then have "\<not> sat_sub_i64 (slot_now l) t0 < CLAIM_STALE_MS"
    using assms(1,4) by (auto simp: begin_cycle_def Let_def split: if_splits)
  then show "CLAIM_STALE_MS \<le> slot_now l - t0"
    using sat_sub_i64_lt_iff[of CLAIM_STALE_MS "slot_now l" t0]
    by (simp add: CLAIM_STALE_MS_def i64_min_def i64_max_def)
qed

lemma begin_starts:
  assumes "faithful J" "begin_cycle J fl l = (l', Proceed)"
  shows "started (snd (read_back J l')) True"
    and "cs_cycle_started_at_ms (snd (read_back J l')) = Some (slot_now l)"
  using assms current_put[OF assms(1)]
  by (auto simp: begin_cycle_def Let_def read_back_def started_def split: if_splits)

text \<open>The instant of the last cycle that was let through: \<open>t\<close> to begin with, then that of every proceeding
  \<open>Begin\<close> of the events.\<close>

definition lets_through :: "'b cs_json \<Rightarrow> 'b doc_slot \<Rightarrow> safety_event \<Rightarrow> bool" where
  "lets_through J l e \<longleftrightarrow> (case e of Begin fl \<Rightarrow> snd (begin_cycle J fl l) = Proceed | _ \<Rightarrow> False)"

fun last_start :: "'b cs_json \<Rightarrow> 'b doc_slot \<Rightarrow> int \<Rightarrow> safety_event list \<Rightarrow> int" where
  "last_start J l t [] = t"
| "last_start J l t (e # es) =
     last_start J (safety_step J l e) (if lets_through J l e then slot_now l else t) es"

lemma begin_refused: "snd (begin_cycle J fl l) \<noteq> Proceed \<Longrightarrow> fst (begin_cycle J fl l) = l"
  by (auto simp: begin_cycle_def Let_def split: if_splits)

lemma last_start_is_stored:
  assumes "faithful J" "cs_cycle_started_at_ms (cs_current (snd J) l) = Some t"
  shows "cs_cycle_started_at_ms (cs_current (snd J) (foldl (safety_step J) l es)) = Some (last_start J l t es)"
  using assms(2)
proof (induction es arbitrary: l t)
  case (Cons e es)
  have step: "read_back J (safety_step J l e) = state_step (read_back J l) e"
    using run_reads_back[OF assms(1), of l "[e]"] by simp
  have "cs_cycle_started_at_ms (cs_current (snd J) (safety_step J l e))
      = Some (if lets_through J l e then slot_now l else t)"
  proof (cases "\<exists>fl. e = Begin fl")
    case True
    then obtain fl where e: "e = Begin fl" ..
    show ?thesis
    proof (cases "snd (begin_cycle J fl l) = Proceed")
      case True
      then have "begin_cycle J fl l = (fst (begin_cycle J fl l), Proceed)" by (metis prod.collapse)
      from begin_starts(2)[OF assms(1) this] True show ?thesis
        by (simp add: e lets_through_def read_back_def)
    next
      case False
      then show ?thesis using Cons.prems begin_refused[OF False] by (simp add: e lets_through_def)
    qed
  next
    case False
    then show ?thesis using Cons.prems step
      by (cases e) (auto simp: lets_through_def read_back_def Let_def simp del: safety_step.simps)
  qed
  from Cons.IH[OF this] show ?case by simp
qed simp

lemma last_start_none: "\<forall>f. Begin f \<notin> set es \<Longrightarrow> last_start J l t es = t"
proof (induction es arbitrary: l)
  case (Cons e es)
  then show ?case by (cases e) (auto simp: lets_through_def simp del: safety_step.simps)
qed simp

text \<open>
  C33. Single flight with a floor. Once a cycle was let through, take any events at any instants: refused
  starts, releases, outcomes, further cycles. The instant the store remembers is that of the last cycle let
  through among them, and the next cycle is let through no earlier than its floor after that one; if no
  cycle was released in between, no earlier than the ten minutes after which a claim counts as abandoned.
\<close>

theorem starts_are_spaced:
  assumes "faithful J" "begin_cycle J fl l = (l1, Proceed)"
    and "begin_cycle J fl' (foldl (safety_step J) l1 es) = (l2, Proceed)" "0 \<le> fl'" "fl' \<le> i64_max"
  shows "\<exists>t0. cs_cycle_started_at_ms (cs_current (snd J) (foldl (safety_step J) l1 es)) = Some t0
     \<and> fl' \<le> slot_now (foldl (safety_step J) l1 es) - t0
     \<and> (End \<notin> set es \<longrightarrow> 600000 \<le> slot_now (foldl (safety_step J) l1 es) - t0)
     \<and> t0 = last_start J l1 (slot_now l) es
     \<and> ((\<forall>f. Begin f \<notin> set es) \<longrightarrow> t0 = slot_now l)"
proof -
  let ?l = "foldl (safety_step J) l1 es"
  note b = begin_starts[OF assms(1,2)]
  note run = started_run[OF b(1), of es, folded run_reads_back[OF assms(1)]]
  have t0: "cs_cycle_started_at_ms (cs_current (snd J) ?l) = Some (last_start J l1 (slot_now l) es)"
    using b(2) by (intro last_start_is_stored[OF assms(1)]) (simp add: read_back_def)
  have "End \<notin> set es \<Longrightarrow> cs_cycle_in_progress (cs_current (snd J) ?l)"
    using run(1) by (simp add: started_def read_back_def)
  then show ?thesis
    using begin_proceeds[OF assms(3-5) t0] t0 last_start_none[of es J l1 "slot_now l"] unfolding CLAIM_STALE_MS_def
    by (intro exI[of _ "last_start J l1 (slot_now l) es"] conjI impI) simp_all
qed

text \<open>
  In the example two starts are refused in between, the first because a cycle is running and the second by
  its floor; the next is still measured from the first.
\<close>

theorem starts_are_spaced_witness:
  "\<exists>l1 l2. let es = [Begin 5, End, At 103, Begin 5, At 600100] in
     begin_cycle (Some, Inr) 5 \<lparr>slot_now = 100, slot_body = None\<rparr> = (l1, Proceed)
     \<and> begin_cycle (Some, Inr) 5 (foldl (safety_step (Some, Inr)) l1 es) = (l2, Proceed)
     \<and> last_start (Some, Inr) l1 100 es = 100
     \<and> 5 \<le> slot_now (foldl (safety_step (Some, Inr)) l1 es) - 100"
proof -
  let ?l = "\<lparr>slot_now = 100, slot_body = None\<rparr> :: converge_safety_state doc_slot"
  let ?s = "default_shadow\<lparr>cs_cycle_in_progress := True, cs_cycle_started_at_ms := Some 100\<rparr>"
  let ?es = "[Begin 5, End, At 103, Begin 5, At 600100]"
  let ?l1 = "?l\<lparr>slot_body := Some ?s\<rparr>"
  note cs = begin_cycle_def end_cycle_def cs_current_def cs_read_def cs_put_def slot_put_def cs_parse_def
    decode_fail_safe_value_def default_shadow_def Let_def sat_sub_i64_def clamp_i64_def i64_min_def i64_max_def
    CLAIM_STALE_MS_def
  have b1: "begin_cycle (Some, Inr) 5 ?l = (?l1, Proceed)" by (simp add: cs)
  let ?l2 = "foldl (safety_step (Some, Inr)) ?l1 ?es"
  obtain l2 g where eq: "begin_cycle (Some, Inr) 5 ?l2 = (l2, g)" by (metis surj_pair)
  have "snd (begin_cycle (Some, Inr) 5 ?l2) = Proceed" by (simp add: cs)
  then have b2: "begin_cycle (Some, Inr) 5 ?l2 = (l2, Proceed)" using eq by simp
  have f: "faithful (Some, Inr)" by (simp add: faithful_def)
  have ls: "last_start (Some, Inr) ?l1 100 ?es = 100" by (simp add: lets_through_def) (simp add: cs)
  have five: "(0::int) \<le> 5" "(5::int) \<le> i64_max" by (simp_all add: i64_max_def)
  have "5 \<le> slot_now ?l2 - last_start (Some, Inr) ?l1 (slot_now ?l) ?es"
    using starts_are_spaced[OF f b1 b2 five] by (elim exE conjE) (simp only:)
  then have "5 \<le> slot_now ?l2 - 100" using ls by (simp only: doc_slot.select_convs)
  then show ?thesis using b1 b2 ls unfolding Let_def by blast
qed

end
