(* ===== verification/Organization.thy ===== *)
theory Organization
  imports Errors Isotime
begin

text \<open>
  The organization manifest (\<open>chiefd-core/src/store/organization.rs\<close>): departments in a tree, people in
  departments, a head per department; its validation, and the questions asked of a validated one (who
  manages whom, what kind a unit is, whether a unit or an ancestor of it is stopped). The \<open>extra\<close> keys
  and the staffing history carry JSON values the code here never reads: the type parameter \<open>'v\<close>.
\<close>

section \<open>The manifest\<close>

definition ORGANIZATION_SCHEMA_VERSION :: nat where "ORGANIZATION_SCHEMA_VERSION = 1"
definition ROOT_DEPARTMENT_ID :: string where "ROOT_DEPARTMENT_ID = ''executive''"
definition MANIFEST_INVALID :: string where "MANIFEST_INVALID = ''manifest-invalid''"

datatype employment_state = Employment_Active | Benched | Departed

datatype person_kind = Executive | Head | Worker

definition is_manager :: "person_kind \<Rightarrow> bool" where
  "is_manager k \<longleftrightarrow> k \<noteq> Worker"

datatype unit_kind = Company | Department | Contract

datatype unit_state = Unit_Active | Paused

record contract_metadata =
  cm_engagement :: string
  cm_launched_at :: string
  cm_expires_at :: "string option"

record 'v department_record =
  dp_id :: string
  dp_name :: string
  dp_purpose :: string
  dp_kind :: "unit_kind option"
  dp_transient :: "contract_metadata option"
  dp_parent_department_id :: "string option"
  dp_head_person_id :: string
  dp_state :: unit_state
  dp_created_at :: string
  dp_extra :: "(string, 'v) omap"

record 'v person_record =
  ps_id :: string
  ps_name :: string
  ps_title :: string
  ps_mandate :: string
  ps_kind :: person_kind
  ps_department_id :: string
  ps_employment_state :: employment_state
  ps_activation :: string
  ps_tools :: "string list"
  ps_prompts :: "string list"
  ps_created_at :: string
  ps_staffing_history :: "'v list option"
  ps_extra :: "(string, 'v) omap"

record organization_policy =
  op_supervision_interval_ms :: int
  op_acknowledgement_timeout_ms :: int
  op_acknowledgement_retry_limit :: nat
  op_replacement_limit :: nat

record 'v organization_manifest =
  mf_schema_version :: nat
  mf_kind :: string
  mf_slug :: string
  mf_name :: string
  mf_purpose :: string
  mf_root_department_id :: string
  mf_policy :: organization_policy
  mf_department_order :: "string list"
  mf_people_order :: "string list"
  mf_departments :: "(string, 'v department_record) omap"
  mf_people :: "(string, 'v person_record) omap"
  mf_created_at :: string
  mf_updated_at :: string
  mf_extra :: "(string, 'v) omap"

definition runtime_session_for_slug :: "string \<Rightarrow> string" where
  "runtime_session_for_slug slug = ''org-'' @ slug"

definition manifest_invalid :: "string \<Rightarrow> refusal" where
  "manifest_invalid message = refusal_new MANIFEST_INVALID message"

definition department :: "'v organization_manifest \<Rightarrow> string \<Rightarrow> 'v department_record option" where
  "department m department_id = om_get (mf_departments m) department_id"

definition person :: "'v organization_manifest \<Rightarrow> string \<Rightarrow> 'v person_record option" where
  "person m person_id = om_get (mf_people m) person_id"

definition chief_person_id :: "'v organization_manifest \<Rightarrow> refusal + string" where
  "chief_person_id m = (case department m (mf_root_department_id m) of
     Some root \<Rightarrow> Inr (dp_head_person_id root)
   | None \<Rightarrow> Inl (manifest_invalid ''Organization root department is missing''))"

definition headed_department :: "'v organization_manifest \<Rightarrow> string \<Rightarrow> 'v department_record option" where
  "headed_department m person_id =
     find (\<lambda>d. dp_head_person_id d = person_id) (List.map_filter (department m) (mf_department_order m))"

definition head_of :: "'v organization_manifest \<Rightarrow> string \<Rightarrow> string option" where
  "head_of m department_id = map_option dp_head_person_id (department m department_id)"

definition manager_of :: "'v organization_manifest \<Rightarrow> string \<Rightarrow> string option" where
  "manager_of m person_id = (case person m person_id of
     None \<Rightarrow> None
   | Some p \<Rightarrow>
       (case headed_department m person_id of
          Some headed \<Rightarrow>
            (case dp_parent_department_id headed of None \<Rightarrow> None | Some parent \<Rightarrow> head_of m parent)
        | None \<Rightarrow> head_of m (ps_department_id p)))"

definition manager_ids :: "'v organization_manifest \<Rightarrow> string list" where
  "manager_ids m =
     filter (\<lambda>p. p \<in> set (map (dp_head_person_id \<circ> snd) (mf_departments m))) (mf_people_order m)"

definition organization_unit_kind :: "'v organization_manifest \<Rightarrow> 'v department_record \<Rightarrow> unit_kind" where
  "organization_unit_kind m d = (case dp_kind d of
     Some k \<Rightarrow> k
   | None \<Rightarrow> if dp_id d = mf_root_department_id m then Company else Department)"

section \<open>Walking up the tree\<close>

text \<open>
  The loops that climb from a department carry the set of ids seen. \<open>unseen\<close> is the number of
  departments still unseen: it falls at every step, so each loop ends on any manifest.
\<close>

definition unseen :: "'v organization_manifest \<Rightarrow> string set \<Rightarrow> nat" where
  "unseen m visited = card (set (map (dp_id \<circ> snd) (mf_departments m)) - visited)"

lemma unseen_less:
  assumes "department m unit_id = Some cursor" "dp_id cursor \<notin> visited"
  shows "unseen m (insert (dp_id cursor) visited) < unseen m visited"
proof -
  have "dp_id cursor \<in> set (map (dp_id \<circ> snd) (mf_departments m))"
    using om_get_Some_mem[OF assms(1)[unfolded department_def]] by force
  then show ?thesis unfolding unseen_def using assms(2)
    by (intro psubset_card_mono) auto
qed

function stopped_walk ::
  "'v organization_manifest \<Rightarrow> string set \<Rightarrow> string \<Rightarrow> refusal + 'v department_record option" where
  "stopped_walk m visited unit_id = (case department m unit_id of
     None \<Rightarrow> Inr None
   | Some cursor \<Rightarrow>
       if dp_id cursor \<in> visited
       then Inl (manifest_invalid (''Department cycle includes '' @ quoted (dp_id cursor)))
       else if dp_state cursor \<noteq> Unit_Active then Inr (Some cursor)
       else (case dp_parent_department_id cursor of
          None \<Rightarrow> Inr None
        | Some parent \<Rightarrow> stopped_walk m (insert (dp_id cursor) visited) parent))"
  by pat_completeness auto
termination
  by (relation "measure (\<lambda>(m, visited, unit_id). unseen m visited)") (auto intro: unseen_less)

definition stopped_organization_unit_ancestor ::
  "'v organization_manifest \<Rightarrow> string \<Rightarrow> refusal + 'v department_record option" where
  "stopped_organization_unit_ancestor m unit_id =
     (if department m unit_id = None
      then Inl (manifest_invalid (''Unknown department '' @ quoted unit_id))
      else stopped_walk m {} unit_id)"

definition organization_unit_is_active :: "'v organization_manifest \<Rightarrow> string \<Rightarrow> bool" where
  "organization_unit_is_active m unit_id \<longleftrightarrow> stopped_organization_unit_ancestor m unit_id = Inr None"

text \<open>The walk of the validation: where climbing from a department ends.\<close>

function root_walk :: "'v organization_manifest \<Rightarrow> string set \<Rightarrow> string \<Rightarrow> refusal + string" where
  "root_walk m visited unit_id = (case department m unit_id of
     None \<Rightarrow> Inr unit_id
   | Some cursor \<Rightarrow>
       (case dp_parent_department_id cursor of
          None \<Rightarrow> Inr (dp_id cursor)
        | Some parent \<Rightarrow>
            if dp_id cursor \<in> visited
            then Inl (manifest_invalid (''Department cycle includes '' @ quoted (dp_id cursor)))
            else if department m parent = None then Inr (dp_id cursor)
            else root_walk m (insert (dp_id cursor) visited) parent))"
  by pat_completeness auto
termination
  by (relation "measure (\<lambda>(m, visited, unit_id). unseen m visited)") (auto intro: unseen_less)

declare stopped_walk.simps [simp del] root_walk.simps [simp del]

section \<open>Validation\<close>

definition nonempty :: "string \<Rightarrow> string \<Rightarrow> refusal + unit" where
  "nonempty value label =
     (if trim value = [] then Inl (manifest_invalid (label @ '' is required'')) else Inr ())"

definition iso :: "string \<Rightarrow> string \<Rightarrow> refusal + int" where
  "iso value label = (case parse_iso_millis value of
     Some t \<Rightarrow> Inr t
   | None \<Rightarrow> Inl (manifest_invalid (label @ '' must be an ISO-8601 timestamp'')))"

definition second_char_colon :: "string \<Rightarrow> bool" where
  "second_char_colon s = (case s of [] \<Rightarrow> False
     | _ # cs \<Rightarrow> (case dropWhile is_continuation cs of [] \<Rightarrow> False | d # _ \<Rightarrow> d = CHR '':''))"

definition prompt_template_reference :: "string \<Rightarrow> string \<Rightarrow> refusal + unit" where
  "prompt_template_reference value label =
     (if value = [] \<or> trim value \<noteq> value
      then Inl (manifest_invalid (label @ '' must be a non-empty prompt template path''))
      else if CHR 0x5C \<in> set value \<or> starts_with value ''/'' \<or> second_char_colon value
      then Inl (manifest_invalid (label @ '' must be a relative path under prompts/''))
      else if list_ex (\<lambda>segment. segment = [] \<or> segment = ''.'' \<or> segment = ''..'') (split_on (CHR ''/'') value)
              \<or> \<not> starts_with value ''prompts/'' \<or> \<not> ends_with value ''.md''
      then Inl (manifest_invalid (label @ '' must name a Markdown template under prompts/ without traversal''))
      else Inr ())"

definition check_contract :: "'v organization_manifest \<Rightarrow> 'v department_record \<Rightarrow> refusal + unit" where
  "check_contract m d =
     (let missing = ''Contract unit '' @ quoted (dp_id d) @ '' requires transient engagement and launchedAt metadata''
      in if organization_unit_kind m d = Contract
         then (case dp_transient d of
             None \<Rightarrow> Inl (manifest_invalid missing)
           | Some transient \<Rightarrow>
               if trim (cm_engagement transient) = [] \<or> trim (cm_launched_at transient) = []
               then Inl (manifest_invalid missing)
               else res_bind (iso (cm_launched_at transient)
                        (''Contract unit '' @ quoted (dp_id d) @ ''.transient.launchedAt'')) (\<lambda>launched.
                 (case cm_expires_at transient of
                    None \<Rightarrow> Inr ()
                  | Some expires \<Rightarrow>
                      res_bind (iso expires (''Contract unit '' @ quoted (dp_id d) @ ''.transient.expiresAt''))
                        (\<lambda>expires. if expires \<le> launched
                           then Inl (manifest_invalid (''Contract unit '' @ quoted (dp_id d)
                                  @ ''.transient.expiresAt must be later than launchedAt''))
                           else Inr ()))))
         else if dp_transient d \<noteq> None
         then Inl (manifest_invalid (''Non-contract unit '' @ quoted (dp_id d)
                @ '' cannot retain transient metadata''))
         else Inr ())"

definition check_head ::
  "'v organization_manifest \<Rightarrow> string set \<Rightarrow> 'v department_record \<Rightarrow> refusal + string set" where
  "check_head m headed d = (case person m (dp_head_person_id d) of
     None \<Rightarrow> Inl (manifest_invalid (''Department '' @ quoted (dp_id d) @ '' has unknown head ''
               @ quoted (dp_head_person_id d)))
   | Some h \<Rightarrow>
       if ps_department_id h \<noteq> dp_id d
       then Inl (manifest_invalid (''Head '' @ quoted (ps_id h) @ '' must belong to department ''
              @ quoted (dp_id d)))
       else if ps_id h \<in> headed
       then Inl (manifest_invalid (''Person '' @ quoted (ps_id h) @ '' cannot head more than one department''))
       else (let expected = (if dp_id d = mf_root_department_id m then Executive else Head);
                 label = (if expected = Executive then ''executive'' else ''head'')
         in if ps_kind h \<noteq> expected
            then Inl (manifest_invalid (''Department '' @ quoted (dp_id d) @ '' requires a '' @ label @ '' head''))
            else if ps_employment_state h = Departed
            then Inl (manifest_invalid (''Head '' @ quoted (ps_id h)
                   @ '' cannot depart while heading department '' @ quoted (dp_id d)))
            else Inr (insert (ps_id h) headed)))"

definition check_department ::
  "'v organization_manifest \<Rightarrow> string set \<Rightarrow> string \<Rightarrow> refusal + string set" where
  "check_department m headed did = (case department m did of
     None \<Rightarrow> Inl (manifest_invalid ''Organization department order is invalid'')
   | Some d \<Rightarrow>
       if dp_id d \<noteq> did then Inl (manifest_invalid (''Department '' @ quoted did @ '' has a mismatched id''))
       else if dp_id d = mf_root_department_id m \<and> organization_unit_kind m d \<noteq> Company
       then Inl (manifest_invalid (''Organization root unit must have kind '' @ quoted ''company''))
       else if dp_id d \<noteq> mf_root_department_id m \<and> organization_unit_kind m d = Company
       then Inl (manifest_invalid (''Only the organization root may have kind '' @ quoted ''company''))
       else res_bind (check_contract m d) (\<lambda>_.
         if (case dp_parent_department_id d of None \<Rightarrow> False | Some parent \<Rightarrow> department m parent = None)
         then Inl (manifest_invalid (''Department '' @ quoted (dp_id d) @ '' has unknown parent ''
                @ quoted (the (dp_parent_department_id d))))
         else check_head m headed d))"

definition check_connected :: "'v organization_manifest \<Rightarrow> unit \<Rightarrow> string \<Rightarrow> refusal + unit" where
  "check_connected m u did = res_bind (root_walk m {} did) (\<lambda>top.
     if top \<noteq> mf_root_department_id m
     then Inl (manifest_invalid (''Department '' @ quoted did @ '' is disconnected from the organization root''))
     else Inr ())"

definition check_prompt ::
  "'v person_record \<Rightarrow> nat \<Rightarrow> string \<Rightarrow> refusal + nat" where
  "check_prompt p index prompt =
     res_bind (prompt_template_reference prompt
         (''Person '' @ quoted (ps_id p) @ ''.prompts['' @ show_nat index @ '']'')) (\<lambda>_. Inr (Suc index))"

definition check_person ::
  "'v organization_manifest \<Rightarrow> string set \<Rightarrow> unit \<Rightarrow> string \<Rightarrow> refusal + unit" where
  "check_person m headed u pid = (case person m pid of
     None \<Rightarrow> Inl (manifest_invalid ''Organization people order is invalid'')
   | Some p \<Rightarrow>
       if ps_id p \<noteq> pid then Inl (manifest_invalid (''Person '' @ quoted pid @ '' has a mismatched id''))
       else if department m (ps_department_id p) = None
       then Inl (manifest_invalid (''Person '' @ quoted (ps_id p) @ '' has unknown department ''
              @ quoted (ps_department_id p)))
       else if is_manager (ps_kind p) \<and> ps_id p \<notin> headed
       then Inl (manifest_invalid (''Leader '' @ quoted (ps_id p) @ '' must head exactly one department''))
       else if \<not> is_manager (ps_kind p) \<and> ps_id p \<in> headed
       then Inl (manifest_invalid (''Worker '' @ quoted (ps_id p) @ '' cannot head a department''))
       else if list_ex (\<lambda>tool. trim tool = []) (ps_tools p)
       then Inl (manifest_invalid (''Person '' @ quoted (ps_id p) @ '' tools must be a string array''))
       else res_bind (res_fold (check_prompt p) 0 (ps_prompts p)) (\<lambda>_.
            res_bind (iso (ps_created_at p) (''Person '' @ quoted (ps_id p) @ ''.createdAt'')) (\<lambda>_. Inr ())))"

definition order_invalid :: "string list \<Rightarrow> (string, 'a) omap \<Rightarrow> bool" where
  "order_invalid order entries \<longleftrightarrow>
     length (remdups order) \<noteq> length order \<or> list_ex (\<lambda>i. \<not> om_has entries i) order"

definition validate_orders :: "'v organization_manifest \<Rightarrow> refusal + unit" where
  "validate_orders m =
     (if order_invalid (mf_department_order m) (mf_departments m)
      then Inl (manifest_invalid ''Organization department order is invalid'')
      else if order_invalid (mf_people_order m) (mf_people m)
      then Inl (manifest_invalid ''Organization people order is invalid'')
      else if length (mf_department_order m) \<noteq> length (mf_departments m)
        \<or> length (mf_people_order m) \<noteq> length (mf_people m)
      then Inl (manifest_invalid ''Organization order must include every department and person'')
      else (case department m (mf_root_department_id m) of
          None \<Rightarrow> Inl (manifest_invalid ''Organization root department is missing'')
        | Some root \<Rightarrow>
            if dp_parent_department_id root \<noteq> None
            then Inl (manifest_invalid ''Organization root department cannot have a parent'')
            else Inr ()))"

definition validate_members :: "'v organization_manifest \<Rightarrow> refusal + unit" where
  "validate_members m =
     res_bind (res_fold (check_department m) {} (mf_department_order m)) (\<lambda>headed.
     res_bind (res_fold (check_connected m) () (mf_department_order m)) (\<lambda>_.
     res_fold (check_person m headed) () (mf_people_order m)))"

definition validate_organization_manifest :: "'v organization_manifest \<Rightarrow> refusal + unit" where
  "validate_organization_manifest m =
     (if mf_schema_version m \<noteq> ORGANIZATION_SCHEMA_VERSION \<or> mf_kind m \<noteq> ''organization''
      then Inl (manifest_invalid ''Unsupported organization manifest'')
      else if mf_root_department_id m \<noteq> ROOT_DEPARTMENT_ID
      then Inl (manifest_invalid ''Organization root department id is not the reserved root'')
      else if department m (mf_root_department_id m) = None
      then Inl (manifest_invalid ''Organization root department is missing'')
      else
        res_bind (nonempty (mf_slug m) ''Organization slug'') (\<lambda>_.
        res_bind (nonempty (mf_name m) ''Organization name'') (\<lambda>_.
        res_bind (validate_orders m) (\<lambda>_.
        res_bind (validate_members m) (\<lambda>_.
        res_bind (iso (mf_created_at m) ''Organization createdAt'') (\<lambda>_.
        res_bind (iso (mf_updated_at m) ''Organization updatedAt'') (\<lambda>_. Inr ())))))))"

section \<open>What validation accepts\<close>

text \<open>The climb of one level, and the people's one.\<close>

definition parent_edge :: "'v organization_manifest \<Rightarrow> (string \<times> string) set" where
  "parent_edge m = {(a, b). \<exists>d. department m a = Some d \<and> dp_parent_department_id d = Some b
     \<and> department m b \<noteq> None}"

definition manages_edge :: "'v organization_manifest \<Rightarrow> (string \<times> string) set" where
  "manages_edge m = {(p, q). manager_of m p = Some q}"

definition head_ps_id :: "'v organization_manifest \<Rightarrow> string \<Rightarrow> string" where
  "head_ps_id m did = ps_id (the (person m (dp_head_person_id (the (department m did)))))"

definition department_ok :: "'v organization_manifest \<Rightarrow> string \<Rightarrow> bool" where
  "department_ok m did \<longleftrightarrow> (\<exists>d h. department m did = Some d \<and> dp_id d = did
     \<and> (\<forall>parent. dp_parent_department_id d = Some parent \<longrightarrow> department m parent \<noteq> None)
     \<and> person m (dp_head_person_id d) = Some h \<and> ps_department_id h = did
     \<and> ps_kind h = (if did = mf_root_department_id m then Executive else Head)
     \<and> ps_employment_state h \<noteq> Departed
     \<and> (organization_unit_kind m d = Company \<longleftrightarrow> did = mf_root_department_id m)
     \<and> check_contract m d = Inr ())"

definition person_ok :: "'v organization_manifest \<Rightarrow> string set \<Rightarrow> string \<Rightarrow> bool" where
  "person_ok m headed pid \<longleftrightarrow> (\<exists>p. person m pid = Some p \<and> ps_id p = pid
     \<and> department m (ps_department_id p) \<noteq> None
     \<and> (is_manager (ps_kind p) \<longleftrightarrow> pid \<in> headed)
     \<and> (\<forall>prompt \<in> set (ps_prompts p). \<exists>label. prompt_template_reference prompt label = Inr ()))"

lemma check_head_iff:
  "check_head m headed d = Inr headed' \<longleftrightarrow> (\<exists>h. person m (dp_head_person_id d) = Some h
     \<and> ps_department_id h = dp_id d \<and> ps_id h \<notin> headed
     \<and> ps_kind h = (if dp_id d = mf_root_department_id m then Executive else Head)
     \<and> ps_employment_state h \<noteq> Departed \<and> headed' = insert (ps_id h) headed)"
  by (auto simp: check_head_def Let_def split: option.splits)

lemma check_department_ok:
  assumes "check_department m headed did = Inr headed'"
  shows "department_ok m did \<and> headed' = insert (head_ps_id m did) headed \<and> head_ps_id m did \<notin> headed"
proof -
  obtain d where d: "department m did = Some d" "dp_id d = did" "check_contract m d = Inr ()"
      "organization_unit_kind m d = Company \<longleftrightarrow> did = mf_root_department_id m"
      "\<not> (case dp_parent_department_id d of None \<Rightarrow> False | Some parent \<Rightarrow> department m parent = None)"
      "check_head m headed d = Inr headed'"
    using assms by (auto simp: check_department_def res_bind_Inr_iff split: option.splits if_splits)
  from d(6)[unfolded check_head_iff] obtain h where "person m (dp_head_person_id d) = Some h"
      "ps_department_id h = dp_id d" "ps_id h \<notin> headed"
      "ps_kind h = (if dp_id d = mf_root_department_id m then Executive else Head)"
      "ps_employment_state h \<noteq> Departed" "headed' = insert (ps_id h) headed"
    by blast
  with d show ?thesis by (auto simp: department_ok_def head_ps_id_def split: option.splits)
qed

lemma check_departments:
  "res_fold (check_department m) headed ids = Inr headed' \<Longrightarrow>
     (\<forall>did \<in> set ids. department_ok m did) \<and> headed' = headed \<union> head_ps_id m ` set ids
     \<and> (distinct ids \<longrightarrow> inj_on (head_ps_id m) (set ids)) \<and> head_ps_id m ` set ids \<inter> headed = {}"
proof (induction ids arbitrary: headed)
  case (Cons did ids)
  then obtain h1 where "check_department m headed did = Inr h1" "res_fold (check_department m) h1 ids = Inr headed'"
    by (auto simp: res_bind_Inr_iff)
  with Cons.IH[of h1] check_department_ok[of m headed did h1] show ?case by auto
qed simp

lemma check_prompts:
  "res_fold (check_prompt p) i prompts = Inr j \<Longrightarrow>
     prompt \<in> set prompts \<Longrightarrow> \<exists>label. prompt_template_reference prompt label = Inr ()"
  by (induction prompts arbitrary: i) (auto simp: res_bind_Inr_iff check_prompt_def)

lemma check_person_ok: "check_person m headed u pid = Inr u' \<Longrightarrow> person_ok m headed pid"
  by (auto simp: check_person_def person_ok_def res_bind_Inr_iff dest: check_prompts
      split: option.splits if_splits)

lemma check_people:
  "res_fold (check_person m headed) u ids = Inr u' \<Longrightarrow> pid \<in> set ids \<Longrightarrow> person_ok m headed pid"
  by (induction ids arbitrary: u) (auto simp: res_bind_Inr_iff dest: check_person_ok)

lemma check_connected_all:
  "res_fold (check_connected m) u ids = Inr u' \<Longrightarrow> did \<in> set ids \<Longrightarrow>
     root_walk m {} did = Inr (mf_root_department_id m)"
  by (induction ids arbitrary: u) (auto simp: res_bind_Inr_iff check_connected_def split: if_splits)

lemma om_keys_set: "set (om_keys entries) = {k. om_get entries k \<noteq> None}"
  by (simp add: set_eq_iff om_keys_iff)

lemma order_covers:
  assumes "\<not> order_invalid order entries" "length order = length entries" "om_wf entries"
  shows "set order = set (om_keys entries) \<and> distinct order"
proof -
  have d: "distinct order"
    using assms(1) by (metis order_invalid_def distinct_card length_remdups_card_conv card_distinct)
  have sub: "set order \<subseteq> set (om_keys entries)"
    using assms(1) by (auto simp: order_invalid_def list_ex_iff om_has_def om_keys_iff)
  have "card (set order) = card (set (om_keys entries))"
    using distinct_card[OF d] distinct_card[OF om_wf_distinct[OF assms(3)]] assms(2) by (simp add: om_keys_def)
  with sub show ?thesis using d by (simp add: card_subset_eq)
qed

text \<open>A manifest the validation accepts, its two maps in key order as every \<open>BTreeMap\<close> is.\<close>

definition validated :: "'v organization_manifest \<Rightarrow> bool" where
  "validated m \<longleftrightarrow> om_wf (mf_departments m) \<and> om_wf (mf_people m)
     \<and> validate_organization_manifest m = Inr ()"

lemma validated_facts:
  assumes "validated m"
  shows "\<And>did. department m did \<noteq> None \<Longrightarrow> department_ok m did"
    and "\<And>did. department m did \<noteq> None \<Longrightarrow> root_walk m {} did = Inr (mf_root_department_id m)"
    and "\<And>pid. person m pid \<noteq> None \<Longrightarrow> person_ok m (head_ps_id m ` set (mf_department_order m)) pid"
    and "inj_on (head_ps_id m) (set (mf_department_order m))"
    and "set (mf_department_order m) = {did. department m did \<noteq> None}"
    and "set (mf_people_order m) = {pid. person m pid \<noteq> None}"
    and "\<exists>root. department m (mf_root_department_id m) = Some root \<and> dp_parent_department_id root = None"
proof -
  have "validate_organization_manifest m = Inr ()" using assms by (simp add: validated_def)
  then have parts: "validate_orders m = Inr ()" "validate_members m = Inr ()"
    by (simp_all add: validate_organization_manifest_def if_Inl_iff res_bind_Inr_iff)
  have v: "\<not> order_invalid (mf_department_order m) (mf_departments m)"
      "\<not> order_invalid (mf_people_order m) (mf_people m)"
      "length (mf_department_order m) = length (mf_departments m)"
      "length (mf_people_order m) = length (mf_people m)"
    using parts(1) unfolding validate_orders_def if_Inl_iff by blast+
  have root: "\<exists>root. department m (mf_root_department_id m) = Some root \<and> dp_parent_department_id root = None"
    using parts(1) unfolding validate_orders_def if_Inl_iff
    by (cases "department m (mf_root_department_id m)") (simp_all split: if_splits)
  obtain headed where f: "res_fold (check_department m) {} (mf_department_order m) = Inr headed"
      "res_fold (check_connected m) () (mf_department_order m) = Inr ()"
      "res_fold (check_person m headed) () (mf_people_order m) = Inr ()"
    using parts(2) by (auto simp: validate_members_def res_bind_Inr_iff)
  have wf: "om_wf (mf_departments m)" "om_wf (mf_people m)" using assms by (auto simp: validated_def)
  have do: "set (mf_department_order m) = {did. department m did \<noteq> None}" "distinct (mf_department_order m)"
    using order_covers[OF v(1,3) wf(1)] unfolding department_def by (simp_all only: om_keys_set)
  have po: "set (mf_people_order m) = {pid. person m pid \<noteq> None}"
    using order_covers[OF v(2,4) wf(2)] unfolding person_def by (simp_all only: om_keys_set)
  note cd = check_departments[OF f(1)]
  show "department_ok m did" if "department m did \<noteq> None" for did using that cd do(1) by auto
  show "root_walk m {} did = Inr (mf_root_department_id m)" if "department m did \<noteq> None" for did
    using that check_connected_all[OF f(2)] do(1) by auto
  show "person_ok m (head_ps_id m ` set (mf_department_order m)) pid" if "person m pid \<noteq> None" for pid
    using that check_people[OF f(3)] po cd by auto
  show "inj_on (head_ps_id m) (set (mf_department_order m))" using cd do(2) by blast
  show "set (mf_department_order m) = {did. department m did \<noteq> None}" by (rule do(1))
  show "set (mf_people_order m) = {pid. person m pid \<noteq> None}" by (rule po)
  show "\<exists>root. department m (mf_root_department_id m) = Some root \<and> dp_parent_department_id root = None"
    by (rule root)
qed

lemma validated_order:
  assumes "validated m"
  shows "distinct (mf_people_order m)" "distinct (mf_department_order m)"
proof -
  have "validate_orders m = Inr ()"
    using assms by (simp add: validated_def validate_organization_manifest_def if_Inl_iff res_bind_Inr_iff)
  then have "\<not> order_invalid (mf_department_order m) (mf_departments m)"
      "\<not> order_invalid (mf_people_order m) (mf_people m)"
    unfolding validate_orders_def if_Inl_iff by blast+
  then show "distinct (mf_people_order m)" "distinct (mf_department_order m)"
    unfolding order_invalid_def by (metis distinct_card length_remdups_card_conv card_distinct)+
qed

section \<open>A concrete manifest\<close>

text \<open>
  The manifest the witnesses use: the root with its chief, and one department below it with a head and a
  worker. \<open>sample_manifest\<close> takes the state of that department, so that both a running and a paused
  unit can be looked at.
\<close>

definition sample_person :: "string \<Rightarrow> person_kind \<Rightarrow> string \<Rightarrow> 'v person_record" where
  "sample_person pid kind did = \<lparr>ps_id = pid, ps_name = pid, ps_title = ''t'', ps_mandate = ''m'', ps_kind = kind,
     ps_department_id = did, ps_employment_state = Employment_Active, ps_activation = ''resident'',
     ps_tools = [''t''], ps_prompts = [''prompts/a.md''], ps_created_at = ''2026-01-01T00:00:00.000Z'',
     ps_staffing_history = None, ps_extra = []\<rparr>"

definition sample_department :: "string \<Rightarrow> string option \<Rightarrow> string \<Rightarrow> unit_state \<Rightarrow> 'v department_record" where
  "sample_department did parent head state = \<lparr>dp_id = did, dp_name = did, dp_purpose = ''p'', dp_kind = None,
     dp_transient = None, dp_parent_department_id = parent, dp_head_person_id = head, dp_state = state,
     dp_created_at = ''2026-01-01T00:00:00.000Z'', dp_extra = []\<rparr>"

definition sample_manifest :: "unit_state \<Rightarrow> 'v organization_manifest" where
  "sample_manifest state = \<lparr>mf_schema_version = 1, mf_kind = ''organization'', mf_slug = ''s'', mf_name = ''n'',
     mf_purpose = ''p'', mf_root_department_id = ''executive'',
     mf_policy = \<lparr>op_supervision_interval_ms = 60000, op_acknowledgement_timeout_ms = 60000,
        op_acknowledgement_retry_limit = 2, op_replacement_limit = 1\<rparr>,
     mf_department_order = [''executive'', ''eng''], mf_people_order = [''chief'', ''head'', ''worker''],
     mf_departments = [(''eng'', sample_department ''eng'' (Some ''executive'') ''head'' state),
        (''executive'', sample_department ''executive'' None ''chief'' Unit_Active)],
     mf_people = [(''chief'', sample_person ''chief'' Executive ''executive''),
        (''head'', sample_person ''head'' Head ''eng''), (''worker'', sample_person ''worker'' Worker ''eng'')],
     mf_created_at = ''2026-01-01T00:00:00.000Z'', mf_updated_at = ''2026-01-01T00:00:00.000Z'',
     mf_extra = []\<rparr>"

lemma sample_validated: "validated (sample_manifest state :: 'v organization_manifest)"
  unfolding validated_def sample_manifest_def sample_department_def sample_person_def
  by code_simp

section \<open>The tree\<close>

lemma parent_edge_function: "(a, b) \<in> parent_edge m \<Longrightarrow> (a, c) \<in> parent_edge m \<Longrightarrow> b = c"
  by (auto simp: parent_edge_def)

lemma root_walk_path:
  "root_walk m visited did = Inr dst \<Longrightarrow> department m did \<noteq> None \<Longrightarrow>
     (\<And>did d. department m did = Some d \<Longrightarrow> dp_id d = did) \<Longrightarrow> (did, dst) \<in> (parent_edge m)\<^sup>*"
proof (induction m visited did rule: root_walk.induct)
  case (1 m visited did)
  obtain d where d: "department m did = Some d" using 1(3) by auto
  then have i: "dp_id d = did" using 1(4) by blast
  show ?case
  proof (cases "\<exists>parent. dp_parent_department_id d = Some parent \<and> department m parent \<noteq> None")
    case False
    then have "root_walk m visited did = Inr did \<or> (\<exists>e. root_walk m visited did = Inl e)"
      using d i by (auto simp: root_walk.simps[of m visited did] split: option.splits)
    then show ?thesis using 1(2) by auto
  next
    case True
    then obtain parent where p: "dp_parent_department_id d = Some parent" "department m parent \<noteq> None"
      by blast
    then have nv: "dp_id d \<notin> visited" and w: "root_walk m (insert (dp_id d) visited) parent = Inr dst"
      using 1(2) d by (auto simp: root_walk.simps[of m visited did] split: if_splits)
    have "(parent, dst) \<in> (parent_edge m)\<^sup>*" using 1(1)[OF d p(1) nv p(2) w p(2) 1(4)] .
    moreover have "(did, parent) \<in> parent_edge m" using d p by (auto simp: parent_edge_def)
    ultimately show ?thesis by (rule converse_rtrancl_into_rtrancl[rotated])
  qed
qed

lemma validated_id: "validated m \<Longrightarrow> department m did = Some d \<Longrightarrow> dp_id d = did"
  using validated_facts(1)[of m did] by (auto simp: department_ok_def)

lemma reaches_root:
  assumes "validated m" "department m did \<noteq> None"
  shows "(did, mf_root_department_id m) \<in> (parent_edge m)\<^sup>*"
  using root_walk_path[OF validated_facts(2)[OF assms] assms(2) validated_id[OF assms(1)]] .

lemma root_no_parent: "validated m \<Longrightarrow> (mf_root_department_id m, x) \<notin> parent_edge m"
  using validated_facts(7)[of m] by (auto simp: parent_edge_def)

lemma no_cycle_above:
  assumes "(a, r) \<in> E\<^sup>*" "\<And>x. (r, x) \<notin> E" "\<And>a b c. (a, b) \<in> E \<Longrightarrow> (a, c) \<in> E \<Longrightarrow> b = c"
  shows "(a, a) \<notin> E\<^sup>+"
  using assms(1)
proof (induction rule: converse_rtrancl_induct)
  case base
  then show ?case using assms(2) by (auto dest: tranclD)
next
  case (step x y)
  show ?case
  proof
    assume "(x, x) \<in> E\<^sup>+"
    then obtain z where "(x, z) \<in> E" "(z, x) \<in> E\<^sup>*" by (auto dest: tranclD)
    then have "(y, x) \<in> E\<^sup>*" using assms(3) step(1) by blast
    then have "(y, y) \<in> E\<^sup>+" using step(1) by (rule rtrancl_into_trancl1)
    with step(3) show False ..
  qed
qed

lemma parent_edge_source: "(a, b) \<in> parent_edge m \<Longrightarrow> department m a \<noteq> None"
  by (auto simp: parent_edge_def)

lemma validated_acyclic: "validated m \<Longrightarrow> acyclic (parent_edge m)"
  unfolding acyclic_def
proof (intro allI)
  fix a assume v: "validated m"
  show "(a, a) \<notin> (parent_edge m)\<^sup>+"
  proof
    assume c: "(a, a) \<in> (parent_edge m)\<^sup>+"
    then have n: "department m a \<noteq> None" by (auto dest!: tranclD parent_edge_source)
    have "(a, a) \<notin> (parent_edge m)\<^sup>+"
      by (rule no_cycle_above[OF reaches_root[OF v n]])
        (simp add: root_no_parent[OF v], rule parent_edge_function)
    with c show False by contradiction
  qed
qed

lemma validated_manifest_tree_root:
  assumes "validated m" "department m did = Some d"
  shows "dp_parent_department_id d = None \<longleftrightarrow> did = mf_root_department_id m"
proof
  assume n: "dp_parent_department_id d = None"
  have "(did, x) \<notin> parent_edge m" for x using n assms(2) by (auto simp: parent_edge_def)
  then show "did = mf_root_department_id m"
    using reaches_root[OF assms(1), of did] assms(2) by (auto elim: converse_rtranclE)
qed (use validated_facts(7)[OF assms(1)] assms(2) in auto)

text \<open>
  C15. A validated manifest is a tree. Every department climbs to the reserved root along existing parents,
  the root alone has none, and no department is its own ancestor.
\<close>

theorem validated_manifest_is_a_tree:
  assumes "validated m" "department m did = Some d"
  shows "(did, ROOT_DEPARTMENT_ID) \<in> (parent_edge m)\<^sup>* \<and> (did, did) \<notin> (parent_edge m)\<^sup>+
    \<and> (dp_parent_department_id d = None \<longleftrightarrow> did = ROOT_DEPARTMENT_ID)"
proof -
  have root: "mf_root_department_id m = ROOT_DEPARTMENT_ID"
    using assms(1) by (auto simp: validated_def validate_organization_manifest_def split: if_splits)
  note validated_manifest_tree_root[OF assms]
  moreover have "(did, did) \<notin> (parent_edge m)\<^sup>+"
    using validated_acyclic[OF assms(1)] by (simp add: acyclic_def)
  ultimately show ?thesis using reaches_root[OF assms(1), of did] assms(2) root by simp
qed

lemma sample_department_eng:
  "department (sample_manifest state) ''eng'' = Some (sample_department ''eng'' (Some ''executive'') ''head'' state)"
  by (simp add: department_def sample_manifest_def om_get_def)

theorem validated_manifest_is_a_tree_witness:
  "(''eng'', ROOT_DEPARTMENT_ID) \<in> (parent_edge (sample_manifest Paused :: unit organization_manifest))\<^sup>*
    \<and> (''eng'', ''eng'') \<notin> (parent_edge (sample_manifest Paused :: unit organization_manifest))\<^sup>+"
  using validated_manifest_is_a_tree[OF sample_validated sample_department_eng, of Paused] by blast

section \<open>The chain of command\<close>

lemma validated_head:
  assumes "validated m" "department m did = Some d"
  shows "\<exists>h. person m (dp_head_person_id d) = Some h \<and> ps_id h = dp_head_person_id d
     \<and> ps_department_id h = did \<and> head_ps_id m did = dp_head_person_id d"
proof -
  obtain h where h: "person m (dp_head_person_id d) = Some h" "ps_department_id h = did"
    using validated_facts(1)[OF assms(1), of did] assms(2) by (auto simp: department_ok_def)
  then have "ps_id h = dp_head_person_id d"
    using validated_facts(3)[OF assms(1), of "dp_head_person_id d"] by (auto simp: person_ok_def)
  with h assms(2) show ?thesis by (simp add: head_ps_id_def)
qed

lemma head_unique:
  assumes "validated m" "department m a = Some d" "department m b = Some e"
    and "dp_head_person_id d = dp_head_person_id e"
  shows "a = b"
proof (rule inj_onD[OF validated_facts(4)[OF assms(1)]])
  show "head_ps_id m a = head_ps_id m b"
    using validated_head[OF assms(1,2)] validated_head[OF assms(1,3)] assms(4) by auto
  show "a \<in> set (mf_department_order m)" "b \<in> set (mf_department_order m)"
    using assms(2,3) by (simp_all add: validated_facts(5)[OF assms(1)])
qed

lemma find_SomeD: "find P xs = Some x \<Longrightarrow> x \<in> set xs \<and> P x"
  by (induction xs) (auto split: if_splits)

lemma mem_map_filter: "x \<in> set (List.map_filter f xs) \<longleftrightarrow> (\<exists>y \<in> set xs. f y = Some x)"
  by (induction xs) (auto simp: List.map_filter_simps split: option.splits)

lemma headed_department_iff:
  assumes "validated m"
  shows "headed_department m p = Some d \<longleftrightarrow> department m (dp_id d) = Some d \<and> dp_head_person_id d = p"
proof -
  have mem: "d \<in> set (List.map_filter (department m) (mf_department_order m)) \<longleftrightarrow> department m (dp_id d) = Some d" for d
    unfolding mem_map_filter validated_facts(5)[OF assms] using validated_id[OF assms] by blast
  show ?thesis
  proof
    assume "headed_department m p = Some d"
    then have "d \<in> set (List.map_filter (department m) (mf_department_order m)) \<and> dp_head_person_id d = p"
      unfolding headed_department_def by (rule find_SomeD)
    then show "department m (dp_id d) = Some d \<and> dp_head_person_id d = p" using mem by blast
  next
    assume d: "department m (dp_id d) = Some d \<and> dp_head_person_id d = p"
    then have "headed_department m p \<noteq> None"
      using mem[of d] unfolding headed_department_def find_None_iff by blast
    then obtain e where e: "headed_department m p = Some e" by auto
    then have "e \<in> set (List.map_filter (department m) (mf_department_order m)) \<and> dp_head_person_id e = p"
      unfolding headed_department_def by (rule find_SomeD)
    then have "department m (dp_id e) = Some e" "dp_head_person_id e = p"
      using mem[of e] by simp_all
    then have "dp_id d = dp_id e"
      using head_unique[OF assms conjunct1[OF d], of "dp_id e" e] conjunct2[OF d] by simp
    then have "Some d = Some e" using conjunct1[OF d] \<open>department m (dp_id e) = Some e\<close> by metis
    then show "headed_department m p = Some d" using e by simp
  qed
qed

lemma manager_of_head:
  assumes "validated m" "department m did = Some d"
  shows "manager_of m (dp_head_person_id d)
    = (case dp_parent_department_id d of None \<Rightarrow> None | Some parent \<Rightarrow> head_of m parent)"
proof -
  have "headed_department m (dp_head_person_id d) = Some d"
    using headed_department_iff[OF assms(1)] assms(2) validated_id[OF assms] by simp
  then show ?thesis using validated_head[OF assms] by (auto simp: manager_of_def)
qed

lemma heads_climb:
  assumes "validated m" "(x, y) \<in> (parent_edge m)\<^sup>*" "department m x = Some d" "department m y = Some e"
  shows "(dp_head_person_id d, dp_head_person_id e) \<in> (manages_edge m)\<^sup>*"
  using assms(2,3)
proof (induction arbitrary: d rule: converse_rtrancl_induct)
  case base
  then show ?case using assms(4) by simp
next
  case (step x z)
  then obtain f where "dp_parent_department_id d = Some z" "department m z = Some f"
    by (auto simp: parent_edge_def)
  then have "(dp_head_person_id d, dp_head_person_id f) \<in> manages_edge m"
    using manager_of_head[OF assms(1) step(4)] by (simp add: manages_edge_def head_of_def)
  then show ?case using step(3)[OF \<open>department m z = Some f\<close>] by (rule converse_rtrancl_into_rtrancl)
qed

text \<open>Up to the head of one's own department it is at most one step.\<close>

lemma own_head:
  assumes "validated m" "person m pid = Some p" "department m (ps_department_id p) = Some d"
  shows "(pid, dp_head_person_id d) \<in> (manages_edge m)\<^sup>*"
    and "headed_department m pid = None \<Longrightarrow> manager_of m pid = Some (dp_head_person_id d)"
    and "headed_department m pid = Some e \<Longrightarrow> e = d"
proof -
  show n: "headed_department m pid = None \<Longrightarrow> manager_of m pid = Some (dp_head_person_id d)"
    using assms(2,3) by (simp add: manager_of_def head_of_def)
  have h: "e = d \<and> dp_head_person_id d = pid" if "headed_department m pid = Some e" for e
  proof -
    have e: "department m (dp_id e) = Some e" "dp_head_person_id e = pid"
      using that headed_department_iff[OF assms(1)] by auto
    then have "ps_department_id p = dp_id e" using validated_head[OF assms(1) e(1)] assms(2) by auto
    then show ?thesis using e assms(3) by simp
  qed
  then show "headed_department m pid = Some e \<Longrightarrow> e = d" by blast
  show "(pid, dp_head_person_id d) \<in> (manages_edge m)\<^sup>*"
    by (cases "headed_department m pid") (use n h in \<open>auto simp: manages_edge_def\<close>)
qed

lemma validated_person:
  assumes "validated m" "person m pid = Some p"
  obtains d where "department m (ps_department_id p) = Some d" "ps_id p = pid"
  using validated_facts(3)[OF assms(1), of pid] assms(2) by (auto simp: person_ok_def)

text \<open>
  C16. The chain of command. In a validated manifest everyone's chain of managers ends, after finitely many
  steps, at the chief, the head of the root; the chief alone has no manager; and nobody manages themselves,
  directly or through others.
\<close>

theorem chain_of_command:
  assumes "validated m" "person m pid \<noteq> None"
  shows "\<exists>chief. chief_person_id m = Inr chief \<and> (pid, chief) \<in> (manages_edge m)\<^sup>*
    \<and> (manager_of m pid = None \<longleftrightarrow> pid = chief) \<and> (pid, pid) \<notin> (manages_edge m)\<^sup>+"
proof -
  let ?root = "mf_root_department_id m"
  obtain root where root: "department m ?root = Some root" "dp_parent_department_id root = None"
    using validated_facts(7)[OF assms(1)] by blast
  let ?chief = "dp_head_person_id root"
  have top: "manager_of m ?chief = None" using manager_of_head[OF assms(1) root(1)] root(2) by simp
  obtain p where p: "person m pid = Some p" using assms(2) by auto
  obtain d where d: "department m (ps_department_id p) = Some d" by (rule validated_person[OF assms(1) p])
  have "(ps_department_id p, ?root) \<in> (parent_edge m)\<^sup>*" using reaches_root[OF assms(1)] d by simp
  then have reach: "(pid, ?chief) \<in> (manages_edge m)\<^sup>*"
    using own_head(1)[OF assms(1) p d] heads_climb[OF assms(1) _ d root(1)] by (meson rtrancl_trans)
  have last: "pid = ?chief" if none: "manager_of m pid = None"
    using reach none by (auto simp: manages_edge_def elim: converse_rtranclE)
  have "(pid, pid) \<notin> (manages_edge m)\<^sup>+"
    by (rule no_cycle_above[OF reach]) (use top in \<open>auto simp: manages_edge_def\<close>)
  then show ?thesis using reach last top root(1) by (auto simp: chief_person_id_def)
qed

theorem chain_of_command_witness:
  "(''worker'', ''chief'') \<in> (manages_edge (sample_manifest Paused :: unit organization_manifest))\<^sup>*"
proof -
  have "person (sample_manifest Paused :: unit organization_manifest) ''worker'' \<noteq> None"
    by (simp add: person_def sample_manifest_def om_get_def)
  from chain_of_command[OF sample_validated this]
  show ?thesis
    by (auto simp: chief_person_id_def department_def sample_manifest_def om_get_def sample_department_def)
qed

end
