(* ===== verification/Launch_Intent.thy ===== *)
theory Launch_Intent
  imports Document_Slot Isotime
begin

text \<open>
  The launch fence (\<open>chiefd-core/src/store/launch_intent.rs\<close>): who, besides the chief, may be launched.
  The fence is one JSON document naming people in manifest order; an absent or unreadable one authorizes
  nobody. \<open>CompanyContext\<close> (\<open>store/context.rs\<close>) carries the company's slug, chief and people. A
  \<open>BTreeSet\<close> is the sorted list of its elements; the JSON of the body is a parameter, and so is the type
  of the attribution values, which the code writes empty and never reads.
\<close>

section \<open>The company's context\<close>

record company_context =
  ctx_slug :: string
  ctx_chief_person_id :: string
  ctx_people_order :: "string list"

definition knows_person :: "company_context \<Rightarrow> string \<Rightarrow> bool" where
  "knows_person ctx person_id \<longleftrightarrow> list_ex (\<lambda>known. known = person_id) (ctx_people_order ctx)"

definition in_manifest_order :: "company_context \<Rightarrow> string list \<Rightarrow> string list" where
  "in_manifest_order ctx person_ids = filter (\<lambda>p. p \<in> set person_ids) (ctx_people_order ctx)"

section \<open>The fence\<close>

datatype launch_intent = Fenced "string list"

fun intent_person_ids :: "launch_intent \<Rightarrow> string list" where
  "intent_person_ids (Fenced ids) = ids"

definition deny_all :: launch_intent where "deny_all = Fenced []"

record 'v launch_intent_body =
  lib_version :: nat
  lib_organization :: string
  lib_retired_session_name :: "string option"
  lib_person_ids :: "string list"
  lib_updated_at :: string
  lib_attributions :: "(string, 'v) omap"

definition LAUNCH_INTENT_NAME :: string where "LAUNCH_INTENT_NAME = ''launch-intent''"

type_synonym ('b, 'v) li_json =
  "('v launch_intent_body \<Rightarrow> string + 'b) \<times> ('b \<Rightarrow> string + 'v launch_intent_body)"

definition li_parse ::
  "('b \<Rightarrow> string + 'v launch_intent_body) \<Rightarrow> company_context \<Rightarrow> 'b \<Rightarrow> string + string list" where
  "li_parse dec ctx body =
     res_bind (map_err (\<lambda>error. ''the body did not decode: '' @ error) (dec body)) (\<lambda>stored.
     if lib_version stored \<noteq> 1
     then Inl (''the body is version '' @ show_nat (lib_version stored) @ '', not 1'')
     else if lib_organization stored \<noteq> ctx_slug ctx
     then Inl (''the ledger names organization '' @ quoted (lib_organization stored) @ '', not ''
            @ quoted (ctx_slug ctx))
     else if trim (lib_updated_at stored) = []
     then Inl ''the ledger carries no updatedAt stamp''
     else Inr (sorted_set (filter (knows_person ctx) (lib_person_ids stored))))"

definition li_read ::
  "('b \<Rightarrow> string + 'v launch_intent_body) \<Rightarrow> company_context \<Rightarrow> 'b doc_slot \<Rightarrow> launch_intent decoded" where
  "li_read dec ctx l = (case slot_body l of
     None \<Rightarrow> Decoded_Absent deny_all (Some (''store '' @ LAUNCH_INTENT_NAME
               @ '' has no row; no launch fence has been written, so it authorizes nobody''))
   | Some body \<Rightarrow> decode_fail_safe_value LAUNCH_INTENT_NAME deny_all
       (case li_parse dec ctx body of Inl e \<Rightarrow> Inl e | Inr ids \<Rightarrow> Inr (Fenced ids)))"

definition person_can_run :: "company_context \<Rightarrow> string \<Rightarrow> launch_intent \<Rightarrow> bool" where
  "person_can_run ctx person_id intent \<longleftrightarrow>
     person_id = ctx_chief_person_id ctx \<or> person_id \<in> set (intent_person_ids intent)"

section \<open>Changing the fence\<close>

definition li_write ::
  "('v launch_intent_body \<Rightarrow> string + 'b) \<Rightarrow> company_context \<Rightarrow> string list \<Rightarrow> 'b doc_slot
     \<Rightarrow> refusal + ('b doc_slot \<times> launch_intent)" where
  "li_write enc ctx ordered l =
     res_bind (map_err (\<lambda>error. refusal_new ''launch-intent-unserializable''
                          (''cannot encode launch intent: '' @ error))
       (enc \<lparr>lib_version = 1, lib_organization = ctx_slug ctx, lib_retired_session_name = None,
             lib_person_ids = ordered, lib_updated_at = iso_millis (slot_now l), lib_attributions = []\<rparr>))
       (\<lambda>encoded. Inr (slot_put encoded l, Fenced (sorted_set ordered)))"

definition li_known :: "company_context \<Rightarrow> unit \<Rightarrow> string \<Rightarrow> refusal + unit" where
  "li_known ctx u person_id =
     (if \<not> knows_person ctx person_id
      then Inl (with_routes (refusal_new ''launch-intent-unknown-person''
                  (''launch intent names unknown person '' @ quoted person_id))
                [''org.roster to list the people this organization knows''])
      else Inr ())"

definition li_add ::
  "('v launch_intent_body \<Rightarrow> string + 'b) \<Rightarrow> company_context \<Rightarrow> launch_intent \<Rightarrow> string list
     \<Rightarrow> 'b doc_slot \<Rightarrow> refusal + ('b doc_slot \<times> launch_intent)" where
  "li_add enc ctx current requested l =
     res_bind (res_fold (li_known ctx) () requested) (\<lambda>_.
       let merged = sorted_set (intent_person_ids current @ requested)
       in li_write enc ctx (in_manifest_order ctx merged) l)"

definition li_remove ::
  "('v launch_intent_body \<Rightarrow> string + 'b) \<Rightarrow> company_context \<Rightarrow> launch_intent \<Rightarrow> string list
     \<Rightarrow> 'b doc_slot \<Rightarrow> refusal + ('b doc_slot \<times> launch_intent)" where
  "li_remove enc ctx current requested l =
     (let remaining = filter (\<lambda>p. p \<notin> set requested) (intent_person_ids current)
      in if length remaining = length (intent_person_ids current) then Inr (l, current)
         else li_write enc ctx (in_manifest_order ctx remaining) l)"

definition li_clear :: "'b doc_slot \<Rightarrow> 'b doc_slot \<times> bool" where
  "li_clear l = slot_clear l"

record activity_decision =
  ad_active :: bool
  ad_transition_id :: "string option"

definition stale_launch_intent_person_ids ::
  "string list \<Rightarrow> (string, activity_decision) omap \<Rightarrow> string list" where
  "stale_launch_intent_person_ids ids people =
     filter (\<lambda>p. case om_get people p of
         Some d \<Rightarrow> \<not> ad_active d \<and> ad_transition_id d = None
       | None \<Rightarrow> False) ids"

section \<open>The stamp is readable\<close>

lemma byte_Z: "byte (CHR ''Z'') = 90"
  by (simp add: byte_def)

lemma white_len_Z: "CHR ''Z'' \<notin> set (take (white_len s) s)"
proof (cases s)
  case (Cons c cs)
  show ?thesis
  proof (cases "9 \<le> byte c \<and> byte c \<le> 13 \<or> byte c = 32")
    case True
    then show ?thesis using byte_Z Cons by auto
  next
    case False
    note c = this
    show ?thesis
    proof (cases cs)
      case Nil
      then show ?thesis using c Cons by auto
    next
      case (Cons d ds)
      note cs = this
      show ?thesis
      proof (cases "white2 (byte c) (byte d)")
        case True
        then show ?thesis using c byte_Z \<open>s = c # cs\<close> cs by (auto simp: white2_def numeral_2_eq_2)
      next
        case False
        then show ?thesis using c byte_Z \<open>s = c # cs\<close> cs
          by (cases ds) (auto simp: white3_def numeral_3_eq_3)
      qed
    qed
  qed
qed simp

lemma white_len_back_Z: "CHR ''Z'' \<notin> set (take (white_len_back s) s)"
proof (cases s)
  case (Cons c cs)
  show ?thesis
  proof (cases "9 \<le> byte c \<and> byte c \<le> 13 \<or> byte c = 32")
    case True
    then show ?thesis using byte_Z Cons by auto
  next
    case False
    note c = this
    show ?thesis
    proof (cases cs)
      case Nil
      then show ?thesis using c Cons by auto
    next
      case (Cons d ds)
      note cs = this
      show ?thesis
      proof (cases "white2 (byte d) (byte c)")
        case True
        then show ?thesis using c byte_Z \<open>s = c # cs\<close> cs by (auto simp: white2_def numeral_2_eq_2)
      next
        case False
        then show ?thesis using c byte_Z \<open>s = c # cs\<close> cs
          by (cases ds) (auto simp: white3_def numeral_3_eq_3)
      qed
    qed
  qed
qed simp

lemma white_keeps_Z:
  "CHR ''Z'' \<in> set s \<Longrightarrow> CHR ''Z'' \<in> set (drop (white_len s) s)"
  "CHR ''Z'' \<in> set s \<Longrightarrow> CHR ''Z'' \<in> set (drop (white_len_back s) s)"
  using white_len_Z[of s] white_len_back_Z[of s] by (metis UnE append_take_drop_id set_append)+

lemma trim_start_keeps_Z: "CHR ''Z'' \<in> set s \<Longrightarrow> CHR ''Z'' \<in> set (trim_start s)"
proof (induction s rule: trim_start.induct)
  case (1 s)
  then show ?case using white_keeps_Z(1)[of s] by (simp add: trim_start.simps[of s])
qed

lemma trim_rev_keeps_Z: "CHR ''Z'' \<in> set s \<Longrightarrow> CHR ''Z'' \<in> set (trim_rev s)"
proof (induction s rule: trim_rev.induct)
  case (1 s)
  then show ?case using white_keeps_Z(2)[of s] by (simp add: trim_rev.simps[of s])
qed

lemma trim_stamp: "trim (iso_millis t) \<noteq> []"
proof -
  have "CHR ''Z'' \<in> set (iso_millis t)" 
    by (cases "civil_from_days (t div 86400000)") (simp add: iso_millis_def Let_def)
  then have "CHR ''Z'' \<in> set (trim (iso_millis t))"
    unfolding trim_def set_rev by (intro trim_rev_keeps_Z) (simp add: trim_start_keeps_Z)
  then show ?thesis by auto
qed

section \<open>The fence is a set\<close>

text \<open>
  What the store needs of \<open>serde_json\<close>: a body without the retired field decodes to itself (the field is
  never written).
\<close>

definition li_faithful :: "('b, 'v) li_json \<Rightarrow> bool" where
  "li_faithful J \<longleftrightarrow> (\<forall>body. lib_retired_session_name body = None \<longrightarrow>
     (\<exists>b. fst J body = Inr b \<and> snd J b = Inr body))"

definition li_current :: "('b, 'v) li_json \<Rightarrow> company_context \<Rightarrow> 'b doc_slot \<Rightarrow> launch_intent" where
  "li_current J ctx l = fst (into_parts (li_read (snd J) ctx l))"

datatype intent_event = LAdd "string list" | LRemove "string list" | LClear | LAt int

definition li_commit :: "'b doc_slot \<Rightarrow> refusal + ('b doc_slot \<times> launch_intent) \<Rightarrow> 'b doc_slot" where
  "li_commit l r = (case r of Inl _ \<Rightarrow> l | Inr (l', _) \<Rightarrow> l')"

fun li_step :: "('b, 'v) li_json \<Rightarrow> company_context \<Rightarrow> 'b doc_slot \<Rightarrow> intent_event \<Rightarrow> 'b doc_slot" where
  "li_step J ctx l (LAdd ids) = li_commit l (li_add (fst J) ctx (li_current J ctx l) ids l)"
| "li_step J ctx l (LRemove ids) = li_commit l (li_remove (fst J) ctx (li_current J ctx l) ids l)"
| "li_step J ctx l LClear = fst (li_clear l)"
| "li_step J ctx l (LAt now) = l\<lparr>slot_now := now\<rparr>"

text \<open>The abstract fence: a set of people.\<close>

fun fence_spec :: "company_context \<Rightarrow> string set \<Rightarrow> intent_event \<Rightarrow> string set" where
  "fence_spec ctx A (LAdd ids) = (if set ids \<subseteq> set (ctx_people_order ctx) then A \<union> set ids else A)"
| "fence_spec ctx A (LRemove ids) = A - set ids"
| "fence_spec ctx A LClear = {}"
| "fence_spec ctx A (LAt now) = A"

definition fence :: "('b, 'v) li_json \<Rightarrow> company_context \<Rightarrow> 'b doc_slot \<Rightarrow> string set" where
  "fence J ctx l = set (intent_person_ids (li_current J ctx l))"

lemma knows_iff: "knows_person ctx p \<longleftrightarrow> p \<in> set (ctx_people_order ctx)"
  by (auto simp: knows_person_def list_ex_iff)

lemma known_fold: "res_fold (li_known ctx) u ids = Inr u' \<longleftrightarrow> set ids \<subseteq> set (ctx_people_order ctx)"
  by (induction ids arbitrary: u) (auto simp: li_known_def knows_iff)

lemma written_reads_back:
  assumes "li_faithful J" "set ordered \<subseteq> set (ctx_people_order ctx)"
  obtains l' where "li_write (fst J) ctx ordered l = Inr (l', Fenced (sorted_set ordered))"
    "li_read (snd J) ctx l' = Decoded_Value (Fenced (sorted_set ordered))"
proof -
  let ?body = "\<lparr>lib_version = 1, lib_organization = ctx_slug ctx, lib_retired_session_name = None,
      lib_person_ids = ordered, lib_updated_at = iso_millis (slot_now l), lib_attributions = []\<rparr>"
  obtain b where b: "fst J ?body = Inr b" "snd J b = Inr ?body"
    using assms(1)[unfolded li_faithful_def, rule_format, of ?body] by auto
  have f: "filter (knows_person ctx) ordered = ordered"
    using assms(2) by (simp add: filter_id_conv knows_iff subset_iff)
  show thesis
    by (rule that[of "slot_put b l"])
      (use b f in \<open>simp_all add: li_write_def li_read_def li_parse_def slot_put_def trim_stamp
         decode_fail_safe_value_def\<close>)
qed

lemma fence_at [simp]: "fence J ctx (l\<lparr>slot_now := now\<rparr>) = fence J ctx l"
  by (simp add: fence_def li_current_def li_read_def)

lemma fence_known: "fence J ctx l \<subseteq> set (ctx_people_order ctx)"
proof (cases "slot_body l")
  case None
  then show ?thesis by (simp add: fence_def li_current_def li_read_def deny_all_def)
next
  case (Some b)
  show ?thesis
  proof (cases "li_parse (snd J) ctx b")
    case (Inl e)
    then show ?thesis using Some
      by (simp add: fence_def li_current_def li_read_def deny_all_def decode_fail_safe_value_def)
  next
    case (Inr ids)
    then have "set ids \<subseteq> set (ctx_people_order ctx)"
      by (auto simp: li_parse_def res_bind_Inr_iff knows_iff split: if_splits)
    then show ?thesis using Some Inr
      by (simp add: fence_def li_current_def li_read_def decode_fail_safe_value_def)
  qed
qed

lemma manifest_order_set: "set (in_manifest_order ctx ids) = set ids \<inter> set (ctx_people_order ctx)"
  by (auto simp: in_manifest_order_def)

lemma step_refines_fence:
  assumes "li_faithful J"
  shows "fence J ctx (li_step J ctx l e) = fence_spec ctx (fence J ctx l) e"
proof (cases e)
  case (LAdd ids)
  let ?ordered = "in_manifest_order ctx (sorted_set (intent_person_ids (li_current J ctx l) @ ids))"
  have "set ?ordered \<subseteq> set (ctx_people_order ctx)" by (simp add: manifest_order_set)
  then obtain l' where w: "li_write (fst J) ctx ?ordered l = Inr (l', Fenced (sorted_set ?ordered))"
      "li_read (snd J) ctx l' = Decoded_Value (Fenced (sorted_set ?ordered))"
    using written_reads_back[OF assms] by metis
  then have f: "fence J ctx l' = (fence J ctx l \<union> set ids) \<inter> set (ctx_people_order ctx)"
    by (simp add: fence_def li_current_def manifest_order_set)
  show ?thesis
  proof (cases "set ids \<subseteq> set (ctx_people_order ctx)")
    case True
    then have "res_fold (li_known ctx) () ids = Inr ()" by (simp add: known_fold)
    then show ?thesis
      using LAdd True w(1) f fence_known[of J ctx l] by (auto simp: li_add_def li_commit_def Let_def)
  next
    case False
    then obtain r where "res_fold (li_known ctx) () ids = Inl r"
      using known_fold[of ctx "()" ids "()"] by (cases "res_fold (li_known ctx) () ids") auto
    then show ?thesis using LAdd False by (simp add: li_add_def li_commit_def)
  qed
next
  case (LRemove ids)
  let ?cur = "intent_person_ids (li_current J ctx l)"
  let ?rest = "filter (\<lambda>p. p \<notin> set ids) ?cur"
  show ?thesis
  proof (cases "length ?rest = length ?cur")
    case True
    then have "?rest = ?cur" by (metis filter_id_conv filter_True length_filter_less less_irrefl)
    then have "fence J ctx l - set ids = fence J ctx l" by (auto simp: fence_def filter_id_conv)
    then show ?thesis using LRemove True by (simp add: li_remove_def li_commit_def Let_def)
  next
    case False
    have "set (in_manifest_order ctx ?rest) \<subseteq> set (ctx_people_order ctx)" by (simp add: manifest_order_set)
    then obtain l' where w: "li_write (fst J) ctx (in_manifest_order ctx ?rest) l
          = Inr (l', Fenced (sorted_set (in_manifest_order ctx ?rest)))"
        "li_read (snd J) ctx l' = Decoded_Value (Fenced (sorted_set (in_manifest_order ctx ?rest)))"
      using written_reads_back[OF assms] by metis
    then have "fence J ctx l' = (fence J ctx l - set ids) \<inter> set (ctx_people_order ctx)"
      by (auto simp: fence_def li_current_def manifest_order_set)
    then show ?thesis using LRemove False w(1) fence_known[of J ctx l]
      by (auto simp: li_remove_def li_commit_def Let_def)
  qed
next
  case LClear
  then show ?thesis
    by (simp add: li_clear_def slot_clear_def fence_def li_current_def li_read_def deny_all_def)
qed simp

text \<open>
  The launch fence implements a set of people. Through any adds, removes and clears (each against the
  fence that is read then), from any document, readable or not, the people the fence authorizes are those
  of the abstract set: an add that names a stranger is refused whole, a remove takes people out, and
  besides the chief nobody outside that set can run.
\<close>

theorem fence_refines_set:
  assumes "li_faithful J"
  shows "let l' = foldl (li_step J ctx) l es; A = foldl (fence_spec ctx) (fence J ctx l) es
     in fence J ctx l' = A
      \<and> (person_can_run ctx p (li_current J ctx l') \<longleftrightarrow> p = ctx_chief_person_id ctx \<or> p \<in> A)"
proof -
  have "fence J ctx (foldl (li_step J ctx) l es) = foldl (fence_spec ctx) (fence J ctx l) es"
    by (induction es rule: rev_induct) (simp_all add: step_refines_fence[OF assms])
  then show ?thesis by (simp add: Let_def person_can_run_def fence_def)
qed

theorem fence_refines_set_witness:
  "fence (\<lambda>b. Inr b, \<lambda>b. Inr b) \<lparr>ctx_slug = ''co'', ctx_chief_person_id = ''chief'', ctx_people_order = [''chief'', ''ada'', ''bob'']\<rparr>
     (foldl (li_step (\<lambda>b. Inr b, \<lambda>b. Inr b) \<lparr>ctx_slug = ''co'', ctx_chief_person_id = ''chief'', ctx_people_order = [''chief'', ''ada'', ''bob'']\<rparr>)
       (\<lparr>slot_now = 0, slot_body = None\<rparr> :: unit launch_intent_body doc_slot)
       [LAdd [''ada'', ''bob''], LAdd [''eve''], LRemove [''bob'']])
   = {''ada''}"
proof -
  let ?J = "(\<lambda>b. Inr b, \<lambda>b. Inr b) :: (unit launch_intent_body, unit) li_json"
  let ?ctx = "\<lparr>ctx_slug = ''co'', ctx_chief_person_id = ''chief'', ctx_people_order = [''chief'', ''ada'', ''bob'']\<rparr>"
  let ?l = "\<lparr>slot_now = 0, slot_body = None\<rparr> :: unit launch_intent_body doc_slot"
  have "li_faithful ?J" by (simp add: li_faithful_def)
  from fence_refines_set[OF this, of ?ctx ?l "[LAdd [''ada'', ''bob''], LAdd [''eve''], LRemove [''bob'']]"]
  have "fence ?J ?ctx (foldl (li_step ?J ?ctx) ?l [LAdd [''ada'', ''bob''], LAdd [''eve''], LRemove [''bob'']])
      = foldl (fence_spec ?ctx) (fence ?J ?ctx ?l) [LAdd [''ada'', ''bob''], LAdd [''eve''], LRemove [''bob'']]"
    unfolding Let_def by blast
  also have "\<dots> = {''ada''}"
    by (auto simp: fence_def li_current_def li_read_def deny_all_def)
  finally show ?thesis .
qed

end
