(* ===== verification/Organization_Store.thy ===== *)
theory Organization_Store
  imports Organization Launch_Intent
begin

text \<open>
  The manifest as a stored document (\<open>chiefd-core/src/store/organization.rs\<close>): reading it fails closed,
  creation is once only, every write validates first, and the company's context is derived from it. The
  JSON of a manifest is an encoder and a decoder; \<open>dbg\<close> is the \<open>Debug\<close> rendering of a refusal, which is
  only kept as the cause of a store failure. The closure of \<open>mutate\<close> is a function that refuses or returns
  its result and the new draft.
\<close>

definition ORGANIZATION_STORE_NAME :: string where "ORGANIZATION_STORE_NAME = ''org-manifest''"
definition ORGANIZATION_EXISTS :: string where "ORGANIZATION_EXISTS = ''organization-exists''"
definition UNKNOWN_COMPANY :: string where "UNKNOWN_COMPANY = ''unknown-company''"

record ('b, 'v) org_json =
  oj_enc :: "'v organization_manifest \<Rightarrow> string + 'b"
  oj_dec :: "'b \<Rightarrow> string + 'v organization_manifest"
  oj_dbg :: "refusal \<Rightarrow> string"

definition is_organization_store :: "string \<Rightarrow> bool" where
  "is_organization_store store \<longleftrightarrow> store = ORGANIZATION_STORE_NAME"

definition org_read :: "('b, 'v) org_json \<Rightarrow> 'b doc_slot \<Rightarrow> chiefd_error + 'v organization_manifest" where
  "org_read J l = (case slot_body l of
     None \<Rightarrow> Inl (refused UNKNOWN_COMPANY ''this company has no organization manifest'')
   | Some body \<Rightarrow>
       res_bind (map_err (Corrupt ORGANIZATION_STORE_NAME) (oj_dec J body)) (\<lambda>manifest.
       res_bind (map_err (\<lambda>refusal. StoreFailure ORGANIZATION_STORE_NAME (oj_dbg J refusal))
          (validate_organization_manifest manifest)) (\<lambda>_. Inr manifest)))"

definition org_exists :: "'b doc_slot \<Rightarrow> bool" where
  "org_exists l \<longleftrightarrow> slot_body l \<noteq> None"

definition org_put :: "('b, 'v) org_json \<Rightarrow> 'v organization_manifest \<Rightarrow> 'b doc_slot \<Rightarrow> refusal + 'b doc_slot" where
  "org_put J manifest l =
     res_bind (map_err (\<lambda>error. refusal_new MANIFEST_INVALID (''cannot encode the organization manifest: '' @ error))
       (oj_enc J manifest)) (\<lambda>encoded. Inr (slot_put encoded l))"

definition org_create ::
  "('b, 'v) org_json \<Rightarrow> 'v organization_manifest \<Rightarrow> 'b doc_slot
     \<Rightarrow> chiefd_error + ('b doc_slot \<times> 'v organization_manifest)" where
  "org_create J manifest l =
     (if org_exists l
      then Inl (refused ORGANIZATION_EXISTS (''organization '' @ quoted (mf_slug manifest) @ '' already exists''))
      else res_bind (map_err Refused (validate_organization_manifest manifest)) (\<lambda>_.
           res_bind (map_err Refused (org_put J manifest l)) (\<lambda>l'. Inr (l', manifest))))"

definition create_if_absent ::
  "('b, 'v) org_json \<Rightarrow> 'b \<Rightarrow> 'b doc_slot \<Rightarrow> chiefd_error + ('b doc_slot \<times> bool)" where
  "create_if_absent J body l =
     (if org_exists l then Inr (l, False)
      else res_bind (map_err (Corrupt ORGANIZATION_STORE_NAME) (oj_dec J body)) (\<lambda>manifest.
           res_bind (org_create J manifest l) (\<lambda>(l', _). Inr (l', True))))"

definition org_mutate ::
  "('b, 'v) org_json \<Rightarrow> ('v organization_manifest \<Rightarrow> refusal + ('r \<times> 'v organization_manifest)) \<Rightarrow> 'b doc_slot
     \<Rightarrow> chiefd_error + ('b doc_slot \<times> 'r \<times> 'v organization_manifest)" where
  "org_mutate J f l =
     res_bind (org_read J l) (\<lambda>current.
     res_bind (map_err Refused (f current)) (\<lambda>(result, draft0).
       let draft = draft0\<lparr>mf_updated_at := iso_millis (slot_now l)\<rparr>
       in res_bind (map_err Refused (validate_organization_manifest draft)) (\<lambda>_.
          res_bind (map_err Refused (org_put J draft l)) (\<lambda>l'. Inr (l', result, draft)))))"

definition org_clear :: "('b, 'v) org_json \<Rightarrow> 'b doc_slot \<Rightarrow> chiefd_error + ('b doc_slot \<times> bool)" where
  "org_clear J l =
     (if org_exists l then res_bind (org_read J l) (\<lambda>_. Inr (slot_clear l)) else Inr (slot_clear l))"

definition company_context_of :: "'v organization_manifest \<Rightarrow> refusal + company_context" where
  "company_context_of m = res_bind (chief_person_id m) (\<lambda>chief.
     Inr \<lparr>ctx_slug = mf_slug m, ctx_chief_person_id = chief, ctx_people_order = mf_people_order m\<rparr>)"

section \<open>Runs\<close>

datatype ('b, 'v) org_event =
    OCreate "'v organization_manifest"
  | OCreateIfAbsent 'b
  | OMutate "'v organization_manifest \<Rightarrow> refusal + (unit \<times> 'v organization_manifest)"
  | OClear
  | OAt int

definition org_commit :: "'b doc_slot \<Rightarrow> chiefd_error + ('b doc_slot \<times> 'a) \<Rightarrow> 'b doc_slot" where
  "org_commit l r = (case r of Inl _ \<Rightarrow> l | Inr (l', _) \<Rightarrow> l')"

fun org_step :: "('b, 'v) org_json \<Rightarrow> 'b doc_slot \<Rightarrow> ('b, 'v) org_event \<Rightarrow> 'b doc_slot" where
  "org_step J l (OCreate m) = org_commit l (org_create J m l)"
| "org_step J l (OCreateIfAbsent body) = org_commit l (create_if_absent J body l)"
| "org_step J l (OMutate f) = org_commit l (org_mutate J f l)"
| "org_step J l OClear = org_commit l (org_clear J l)"
| "org_step J l (OAt now) = l\<lparr>slot_now := now\<rparr>"

text \<open>
  What the store relies on in \<open>serde_json\<close>: a manifest that encodes decodes to itself, and a decoded one
  has its maps in key order, as a \<open>BTreeMap\<close> is (so an association list out of order, which no
  \<open>BTreeMap\<close> is, does not encode).
\<close>

definition maps_ordered :: "'v organization_manifest \<Rightarrow> bool" where
  "maps_ordered m \<longleftrightarrow> om_wf (mf_departments m) \<and> om_wf (mf_people m)"

definition org_json_faithful :: "('b, 'v) org_json \<Rightarrow> bool" where
  "org_json_faithful J \<longleftrightarrow> (\<forall>m b. oj_enc J m = Inr b \<longrightarrow> oj_dec J b = Inr m)
     \<and> (\<forall>m b. oj_dec J b = Inr m \<longrightarrow> maps_ordered m)"

definition org_inv :: "('b, 'v) org_json \<Rightarrow> 'b doc_slot \<Rightarrow> bool" where
  "org_inv J l \<longleftrightarrow> (case slot_body l of None \<Rightarrow> True
     | Some body \<Rightarrow> \<exists>m. oj_dec J body = Inr m \<and> validated m)"

lemma org_put_inv:
  assumes "org_json_faithful J" "validate_organization_manifest m = Inr ()" "org_put J m l = Inr l'"
  shows "org_inv J l'"
proof -
  obtain b where b: "oj_enc J m = Inr b" "l' = slot_put b l"
    using assms(3) by (auto simp: org_put_def res_bind_Inr_iff)
  then have "oj_dec J b = Inr m" "maps_ordered m" using assms(1) unfolding org_json_faithful_def by blast+
  then show ?thesis using b assms(2) by (simp add: org_inv_def slot_put_def validated_def maps_ordered_def)
qed

lemma org_create_inv:
  assumes "org_json_faithful J" "org_create J m l = Inr (l', s)"
  shows "org_inv J l'"
proof -
  have "validate_organization_manifest m = Inr ()" "org_put J m l = Inr l'"
    using assms(2) by (auto simp: org_create_def res_bind_Inr_iff split: if_splits)
  then show ?thesis by (rule org_put_inv[OF assms(1)])
qed

lemma org_commit_inv:
  assumes "org_inv J l" "\<And>l' s. r = Inr (l', s) \<Longrightarrow> org_inv J l'"
  shows "org_inv J (org_commit l r)"
  using assms by (auto simp: org_commit_def split: sum.splits)

lemma org_step_inv:
  assumes "org_json_faithful J" "org_inv J l"
  shows "org_inv J (org_step J l e)"
proof (cases e)
  case (OCreate m)
  then show ?thesis by (auto intro!: org_commit_inv assms(2) elim: org_create_inv[OF assms(1)])
next
  case (OCreateIfAbsent body)
  have "org_inv J l'" if c: "create_if_absent J body l = Inr (l', s)" for l' s
  proof (cases "org_exists l")
    case False
    then obtain m x where "org_create J m l = Inr (l', x)"
      using c by (auto simp: create_if_absent_def res_bind_Inr_iff)
    then show ?thesis by (rule org_create_inv[OF assms(1)])
  qed (use c assms(2) in \<open>simp add: create_if_absent_def\<close>)
  then show ?thesis using OCreateIfAbsent by (simp add: org_commit_inv assms(2))
next
  case (OMutate f)
  have "org_inv J l'" if c: "org_mutate J f l = Inr (l', s)" for l' s
  proof -
    obtain draft where "validate_organization_manifest draft = Inr ()" "org_put J draft l = Inr l'"
      using c by (auto simp: org_mutate_def Let_def res_bind_Inr_iff)
    then show ?thesis by (rule org_put_inv[OF assms(1)])
  qed
  then show ?thesis using OMutate by (simp add: org_commit_inv assms(2))
next
  case OClear
  have "org_inv J l'" if "org_clear J l = Inr (l', s)" for l' s
    using that by (auto simp: org_clear_def slot_clear_def org_inv_def res_bind_Inr_iff split: if_splits)
  then show ?thesis using OClear by (simp add: org_commit_inv assms(2))
next
  case (OAt now)
  then show ?thesis using assms(2) by (simp add: org_inv_def)
qed

interpretation org_machine: step_machine "org_step J"
  "\<lambda>l. org_json_faithful J \<longrightarrow> org_inv J l" for J
  by unfold_locales (use org_step_inv in blast)

lemma validated_context:
  assumes "validated m"
  obtains ctx where "company_context_of m = Inr ctx" "knows_person ctx (ctx_chief_person_id ctx)"
proof -
  obtain root where root: "department m (mf_root_department_id m) = Some root"
    using validated_facts(7)[OF assms] by blast
  then have "dp_head_person_id root \<in> set (mf_people_order m)"
    using validated_head[OF assms root] validated_facts(6)[OF assms] by auto
  then show thesis
    using that[of "\<lparr>ctx_slug = mf_slug m, ctx_chief_person_id = dp_head_person_id root,
      ctx_people_order = mf_people_order m\<rparr>"]
    by (simp add: company_context_of_def chief_person_id_def root knows_iff)
qed

text \<open>
  C17. The stored manifest stays valid. From a company without a manifest, through any creates, inserts of
  a body, mutations by any closure and clears, a read either says the company is unknown, exactly when
  there is no row, or gives a valid manifest, whose context knows its chief; it is never corrupt or a store
  failure. And while a manifest is there, no create or insert changes it.
\<close>

theorem stored_manifest_stays_valid:
  assumes "org_json_faithful J" "slot_body l = None"
  shows "let l' = foldl (org_step J) l es in
    (case org_read J l' of
       Inl e \<Rightarrow> e = refused UNKNOWN_COMPANY ''this company has no organization manifest'' \<and> \<not> org_exists l'
     | Inr m \<Rightarrow> validated m \<and> org_exists l' \<and> (\<exists>ctx. company_context_of m = Inr ctx
         \<and> knows_person ctx (ctx_chief_person_id ctx)))
    \<and> (\<not> org_exists l' \<or> org_step J l' (OCreate m') = l' \<and> org_step J l' (OCreateIfAbsent b') = l')"
proof -
  let ?l = "foldl (org_step J) l es"
  have "org_inv J ?l"
    using org_machine.run_inv[of J l es] assms by (simp add: org_inv_def)
  then have "case org_read J ?l of
       Inl e \<Rightarrow> e = refused UNKNOWN_COMPANY ''this company has no organization manifest'' \<and> \<not> org_exists ?l
     | Inr m \<Rightarrow> validated m \<and> org_exists ?l \<and> (\<exists>ctx. company_context_of m = Inr ctx
         \<and> knows_person ctx (ctx_chief_person_id ctx))"
  proof (cases "slot_body ?l")
    case (Some b)
    then obtain m where m: "oj_dec J b = Inr m" "validated m"
      using \<open>org_inv J ?l\<close> by (auto simp: org_inv_def)
    then have "org_read J ?l = Inr m" using Some by (simp add: org_read_def validated_def)
    then show ?thesis using m(2) Some validated_context[OF m(2)] by (auto simp: org_exists_def)
  qed (simp add: org_read_def org_exists_def)
  then show ?thesis
    by (simp add: Let_def org_create_def create_if_absent_def org_commit_def)
qed

text \<open>The JSON of the witness: the manifests themselves are the bodies.\<close>

definition plain_org_json :: "('v organization_manifest, 'v) org_json" where
  "plain_org_json = \<lparr>oj_enc = (\<lambda>m. if maps_ordered m then Inr m else Inl ''''),
     oj_dec = (\<lambda>m. if maps_ordered m then Inr m else Inl ''''), oj_dbg = rf_message\<rparr>"

lemma plain_org_json_faithful: "org_json_faithful plain_org_json"
  by (auto simp: org_json_faithful_def plain_org_json_def split: if_splits)

definition plain_org_run :: "unit organization_manifest doc_slot" where
  "plain_org_run = foldl (org_step plain_org_json) \<lparr>slot_now = 0, slot_body = None\<rparr>
     [OCreate (sample_manifest Unit_Active)]"

lemma plain_org_run_exists: "org_exists plain_org_run"
  using sample_validated[of Unit_Active, where 'v = unit]
  by (simp add: plain_org_run_def plain_org_json_def org_create_def org_exists_def org_put_def slot_put_def
      org_commit_def maps_ordered_def validated_def)

theorem stored_manifest_stays_valid_witness:
  "\<exists>m. org_read plain_org_json plain_org_run = Inr m \<and> validated m"
proof -
  have "slot_body (\<lparr>slot_now = 0, slot_body = None\<rparr> :: unit organization_manifest doc_slot) = None" by simp
  from conjunct1[OF stored_manifest_stays_valid[OF plain_org_json_faithful this,
      of "[OCreate (sample_manifest Unit_Active)]", unfolded Let_def, folded plain_org_run_def]]
  show ?thesis using plain_org_run_exists by (cases "org_read plain_org_json plain_org_run") auto
qed

end
