(* ===== verification/Control_Authority.thy ===== *)
theory Control_Authority
  imports Organization
begin

text \<open>
  Who may act on which department and person (\<open>chiefd-core/src/store/control_authority.rs\<close>): the operator
  on everything, the chief on everything, a head on the subtree of their department, everybody on
  themselves. On a validated manifest this is exactly the chain of command.
\<close>

datatype control_actor = Operator | Actor_Person string

definition headed_department_id :: "'v organization_manifest \<Rightarrow> string \<Rightarrow> string option" where
  "headed_department_id m manager_person_id = map_option dp_id
     (find (\<lambda>d. dp_head_person_id d = manager_person_id)
        (List.map_filter (om_get (mf_departments m)) (mf_department_order m)))"

function within_walk :: "'v organization_manifest \<Rightarrow> string \<Rightarrow> string set \<Rightarrow> string \<Rightarrow> bool" where
  "within_walk m root_department_id seen unit_id = (case department m unit_id of
     None \<Rightarrow> False
   | Some cursor \<Rightarrow>
       if dp_id cursor = root_department_id then True
       else if dp_id cursor \<in> seen then False
       else (case dp_parent_department_id cursor of
          None \<Rightarrow> False
        | Some parent \<Rightarrow> within_walk m root_department_id (insert (dp_id cursor) seen) parent))"
  by pat_completeness auto
termination
  by (relation "measure (\<lambda>(m, root, seen, unit_id). unseen m seen)") (auto intro: unseen_less)

declare within_walk.simps [simp del]

definition department_is_within :: "'v organization_manifest \<Rightarrow> string \<Rightarrow> string \<Rightarrow> bool" where
  "department_is_within m root_department_id department_id =
     (if \<not> om_has (mf_departments m) department_id then False
      else within_walk m root_department_id {} department_id)"

definition department_is_in_scope :: "'v organization_manifest \<Rightarrow> control_actor \<Rightarrow> string \<Rightarrow> bool" where
  "department_is_in_scope m actor department_id =
     (if \<not> om_has (mf_departments m) department_id then False
      else (case actor of
         Operator \<Rightarrow> True
       | Actor_Person actor_person_id \<Rightarrow>
           (case person m actor_person_id of
              None \<Rightarrow> False
            | Some p \<Rightarrow>
                if ps_kind p = Executive then True
                else (case headed_department_id m actor_person_id of
                   None \<Rightarrow> False
                 | Some root \<Rightarrow> department_is_within m root department_id))))"

definition disclosure_scope_department_id :: "'v organization_manifest \<Rightarrow> string \<Rightarrow> string option" where
  "disclosure_scope_department_id m person_id = (case person m person_id of
     None \<Rightarrow> None
   | Some p \<Rightarrow>
       if ps_kind p = Executive then Some (mf_root_department_id m)
       else (case headed_department_id m person_id of
          Some headed \<Rightarrow> Some headed
        | None \<Rightarrow> map_option dp_id (department m (ps_department_id p))))"

definition person_is_in_scope :: "'v organization_manifest \<Rightarrow> control_actor \<Rightarrow> string \<Rightarrow> bool" where
  "person_is_in_scope m actor target_person_id = (case person m target_person_id of
     None \<Rightarrow> False
   | Some target \<Rightarrow>
       (case actor of
          Operator \<Rightarrow> True
        | Actor_Person actor_person_id \<Rightarrow>
            if actor_person_id = target_person_id then True
            else department_is_in_scope m actor (ps_department_id target)))"

section \<open>The walk is reachability\<close>

lemma within_walk_iff:
  "validated m \<Longrightarrow> department m did \<noteq> None \<Longrightarrow> \<forall>s \<in> seen. (did, s) \<notin> (parent_edge m)\<^sup>* \<Longrightarrow>
     within_walk m root seen did \<longleftrightarrow> (did, root) \<in> (parent_edge m)\<^sup>*"
proof (induction m root seen did rule: within_walk.induct)
  case (1 m root seen did)
  note v = 1(2)
  obtain d where d: "department m did = Some d" using 1(3) by auto
  have i: "dp_id d = did" by (rule validated_id[OF v d])
  have ns: "did \<notin> seen" using 1(4) by auto
  show ?case
  proof (cases "did = root")
    case True
    then show ?thesis using d i by (simp add: within_walk.simps[of m root seen root])
  next
    case neq: False
    show ?thesis
    proof (cases "dp_parent_department_id d")
      case None
      then have "(did, x) \<notin> parent_edge m" for x using d by (simp add: parent_edge_def)
      then show ?thesis using neq None d i ns
        by (auto simp: within_walk.simps[of m root seen did] elim: converse_rtranclE)
    next
      case (Some parent)
      have pd: "department m parent \<noteq> None"
        using validated_facts(1)[OF v, of did] d Some by (auto simp: department_ok_def)
      then have e: "(did, parent) \<in> parent_edge m" using d Some by (simp add: parent_edge_def)
      have np: "(parent, s) \<notin> (parent_edge m)\<^sup>*" if "s \<in> insert did seen" for s
      proof (cases "s = did")
        case True
        show ?thesis
        proof
          assume "(parent, s) \<in> (parent_edge m)\<^sup>*"
          then have "(did, did) \<in> (parent_edge m)\<^sup>+" using e True by simp
          then show False using validated_acyclic[OF v] by (simp add: acyclic_def)
        qed
      qed (use that 1(4) e in \<open>blast intro: converse_rtrancl_into_rtrancl\<close>)
      have "within_walk m root seen did \<longleftrightarrow> within_walk m root (insert did seen) parent"
        using neq Some d i ns by (simp add: within_walk.simps[of m root seen did])
      also have "\<dots> \<longleftrightarrow> (parent, root) \<in> (parent_edge m)\<^sup>*"
        using 1(1)[OF d _ _ Some v pd] neq ns i np by simp
      also have "\<dots> \<longleftrightarrow> (did, root) \<in> (parent_edge m)\<^sup>*"
      proof
        assume "(did, root) \<in> (parent_edge m)\<^sup>*"
        then obtain y where "(did, y) \<in> parent_edge m" "(y, root) \<in> (parent_edge m)\<^sup>*"
          using neq by (blast elim: converse_rtranclE)
        then show "(parent, root) \<in> (parent_edge m)\<^sup>*" using parent_edge_function[OF e] by metis
      qed (rule converse_rtrancl_into_rtrancl[OF e])
      finally show ?thesis .
    qed
  qed
qed

lemma department_is_within_iff:
  "validated m \<Longrightarrow> department_is_within m root did \<longleftrightarrow>
     department m did \<noteq> None \<and> (did, root) \<in> (parent_edge m)\<^sup>*"
  using within_walk_iff[of m did "{}" root]
  by (auto simp: department_is_within_def om_has_def department_def)

lemma headed_department_id_eq: "headed_department_id m pid = map_option dp_id (headed_department m pid)"
  by (simp add: headed_department_id_def headed_department_def department_def[abs_def])

section \<open>Authority and the chain of command\<close>

lemma executive_is_chief:
  assumes "validated m" "person m pid = Some p" "ps_kind p = Executive"
  obtains root where "department m (mf_root_department_id m) = Some root" "dp_head_person_id root = pid"
proof -
  have "pid \<in> head_ps_id m ` set (mf_department_order m)"
    using validated_facts(3)[OF assms(1), of pid] assms(2,3) by (auto simp: person_ok_def is_manager_def)
  then obtain did d where d: "department m did = Some d" "pid = head_ps_id m did"
    using validated_facts(5)[OF assms(1)] by auto
  then have h: "dp_head_person_id d = pid" using validated_head[OF assms(1) d(1)] by auto
  then have "did = mf_root_department_id m"
    using validated_facts(1)[OF assms(1), of did] d(1) assms(2,3)
    by (auto simp: department_ok_def split: if_splits)
  with d h show thesis by (intro that) auto
qed

lemma manages_within:
  assumes "validated m" "(x, y) \<in> manages_edge m" "person m x = Some p"
  shows "\<exists>q d. person m y = Some q \<and> department m (ps_department_id q) = Some d \<and> dp_head_person_id d = y
     \<and> (ps_department_id p, ps_department_id q) \<in> (parent_edge m)\<^sup>*"
proof -
  obtain e where e: "department m (ps_department_id p) = Some e" by (rule validated_person[OF assms(1,3)])
  have head: "\<exists>q d. person m y = Some q \<and> department m (ps_department_id q) = Some d \<and> dp_head_person_id d = y
     \<and> (ps_department_id p, ps_department_id q) \<in> (parent_edge m)\<^sup>*"
    if "department m did = Some d" "dp_head_person_id d = y" "(ps_department_id p, did) \<in> (parent_edge m)\<^sup>*"
    for did d
    using validated_head[OF assms(1) that(1)] that by auto
  show ?thesis
  proof (cases "headed_department m x")
    case None
    then have "dp_head_person_id e = y"
      using own_head(2)[OF assms(1,3) e] assms(2) by (simp add: manages_edge_def)
    with e show ?thesis by (intro head) auto
  next
    case (Some d)
    then have "d = e" "dp_head_person_id d = x"
      using own_head(3)[OF assms(1,3) e] headed_department_iff[OF assms(1)] by auto
    then have "manager_of m x = (case dp_parent_department_id e of None \<Rightarrow> None | Some parent \<Rightarrow> head_of m parent)"
      using manager_of_head[OF assms(1) e] by simp
    then obtain parent f where "dp_parent_department_id e = Some parent" "department m parent = Some f"
        "dp_head_person_id f = y"
      using assms(2) by (auto simp: manages_edge_def head_of_def split: option.splits)
    moreover from this have "(ps_department_id p, parent) \<in> parent_edge m"
      using e by (simp add: parent_edge_def)
    ultimately show ?thesis by (intro head) auto
  qed
qed

lemma manages_chain_within:
  assumes "validated m" "person m x = Some p" "(x, y) \<in> (manages_edge m)\<^sup>+"
  shows "\<exists>q d. person m y = Some q \<and> department m (ps_department_id q) = Some d \<and> dp_head_person_id d = y
     \<and> (ps_department_id p, ps_department_id q) \<in> (parent_edge m)\<^sup>*"
  using assms(3)
proof (induction rule: trancl_induct)
  case (base y)
  then show ?case by (rule manages_within[OF assms(1) _ assms(2)])
next
  case (step y z)
  then obtain q where q: "person m y = Some q" "(ps_department_id p, ps_department_id q) \<in> (parent_edge m)\<^sup>*"
    by blast
  from manages_within[OF assms(1) step(2) q(1)] show ?case by (blast intro: rtrancl_trans[OF q(2)])
qed

lemma head_commands_subtree:
  assumes "validated m" "person m t = Some p" "department m did = Some d"
    and "(ps_department_id p, did) \<in> (parent_edge m)\<^sup>*"
  shows "(t, dp_head_person_id d) \<in> (manages_edge m)\<^sup>*"
proof -
  obtain e where e: "department m (ps_department_id p) = Some e" by (rule validated_person[OF assms(1,2)])
  show ?thesis using own_head(1)[OF assms(1,2) e] heads_climb[OF assms(1,4) e assms(3)] by (rule rtrancl_trans)
qed

lemma disclosure_is_own_department:
  assumes "validated m" "person m pid = Some p"
  shows "disclosure_scope_department_id m pid = Some (ps_department_id p)"
proof -
  obtain e where e: "department m (ps_department_id p) = Some e" by (rule validated_person[OF assms])
  then have i: "dp_id e = ps_department_id p" by (rule validated_id[OF assms(1)])
  show ?thesis
  proof (cases "ps_kind p = Executive")
    case True
    obtain root where r: "department m (mf_root_department_id m) = Some root" "dp_head_person_id root = pid"
      by (rule executive_is_chief[OF assms True])
    then show ?thesis
      using validated_head[OF assms(1) r(1)] assms(2) True by (auto simp: disclosure_scope_department_id_def)
  next
    case False
    then show ?thesis using assms(2) e i own_head(3)[OF assms e]
      by (cases "headed_department m pid")
        (auto simp: disclosure_scope_department_id_def headed_department_id_eq)
  qed
qed

text \<open>
  C18. Authority over people is the chain of command. On a validated manifest the operator may act on
  everyone; a person may act on another exactly if that other reports to them, directly or through others,
  or is them; and what a person is shown starts at the department they sit in.
\<close>

theorem authority_is_the_chain_of_command:
  assumes "validated m"
  shows "(person_is_in_scope m Operator t \<longleftrightarrow> person m t \<noteq> None)
    \<and> (person_is_in_scope m (Actor_Person a) t \<longleftrightarrow> person m t \<noteq> None \<and> (t, a) \<in> (manages_edge m)\<^sup>*)
    \<and> disclosure_scope_department_id m t = map_option ps_department_id (person m t)"
proof -
  have scope: "person_is_in_scope m (Actor_Person a) t \<longleftrightarrow> (t, a) \<in> (manages_edge m)\<^sup>*"
    if p: "person m t = Some p" for p
  proof
    assume s: "person_is_in_scope m (Actor_Person a) t"
    show "(t, a) \<in> (manages_edge m)\<^sup>*"
    proof (cases "a = t")
      case False
      then obtain q where q: "person m a = Some q" "department m (ps_department_id p) \<noteq> None"
          "ps_kind q = Executive \<or> (\<exists>d. headed_department m a = Some d
             \<and> department_is_within m (dp_id d) (ps_department_id p))"
      proof -
        have "department_is_in_scope m (Actor_Person a) (ps_department_id p)"
          using s p False by (simp add: person_is_in_scope_def)
        then show thesis using that
          by (cases "person m a"; cases "headed_department m a")
            (auto simp: department_is_in_scope_def om_has_def department_def headed_department_id_eq split: if_splits)
      qed
      from q(3) show ?thesis
      proof
        assume k: "ps_kind q = Executive"
        show ?thesis
          by (rule executive_is_chief[OF assms q(1) k])
            (use head_commands_subtree[OF assms p] reaches_root[OF assms q(2)] in blast)
      next
        assume "\<exists>d. headed_department m a = Some d \<and> department_is_within m (dp_id d) (ps_department_id p)"
        then obtain d where "department m (dp_id d) = Some d" "dp_head_person_id d = a"
            "(ps_department_id p, dp_id d) \<in> (parent_edge m)\<^sup>*"
          using headed_department_iff[OF assms] department_is_within_iff[OF assms] by blast
        then show ?thesis using head_commands_subtree[OF assms p] by blast
      qed
    qed simp
  next
    assume c: "(t, a) \<in> (manages_edge m)\<^sup>*"
    show "person_is_in_scope m (Actor_Person a) t"
    proof (cases "a = t")
      case False
      with c have "(t, a) \<in> (manages_edge m)\<^sup>+" by (simp add: rtrancl_eq_or_trancl)
      then obtain q d where q: "person m a = Some q" "department m (ps_department_id q) = Some d"
          "dp_head_person_id d = a" "(ps_department_id p, ps_department_id q) \<in> (parent_edge m)\<^sup>*"
        using manages_chain_within[OF assms p] by blast
      have "dp_id d = ps_department_id q" by (rule validated_id[OF assms q(2)])
      then have "headed_department m a = Some d" using q by (simp add: headed_department_iff[OF assms])
      moreover obtain e where "department m (ps_department_id p) = Some e" by (rule validated_person[OF assms p])
      ultimately show ?thesis using False p q \<open>dp_id d = ps_department_id q\<close>
        by (simp add: person_is_in_scope_def department_is_in_scope_def om_has_def headed_department_id_eq
            department_is_within_iff[OF assms]) (simp add: department_def)
    qed (simp add: person_is_in_scope_def p)
  qed
  then show ?thesis
    using disclosure_is_own_department[OF assms, of t]
    by (cases "person m t") (auto simp: person_is_in_scope_def disclosure_scope_department_id_def)
qed

theorem authority_is_the_chain_of_command_witness:
  "person_is_in_scope (sample_manifest Paused :: unit organization_manifest) (Actor_Person ''chief'') ''worker''
   \<and> \<not> person_is_in_scope (sample_manifest Paused :: unit organization_manifest) (Actor_Person ''worker'') ''head''"
proof -
  let ?m = "sample_manifest Paused :: unit organization_manifest"
  note t = authority_is_the_chain_of_command[OF sample_validated[where 'v = unit]]
  have "manager_of ?m ''worker'' = Some ''head''" "manager_of ?m ''head'' = Some ''chief''"
    "manager_of ?m ''chief'' = None" "person ?m ''worker'' \<noteq> None" "person ?m ''head'' \<noteq> None"
    unfolding sample_manifest_def sample_department_def sample_person_def by code_simp+
  note facts = this
  have "(''worker'', ''head'') \<in> manages_edge ?m" "(''head'', ''chief'') \<in> manages_edge ?m"
    using facts(1,2) by (simp_all add: manages_edge_def)
  then have up: "(''worker'', ''chief'') \<in> (manages_edge ?m)\<^sup>*" by (meson r_into_rtrancl rtrancl_trans)
  have "y = ''head'' \<or> y = ''chief''" if "(''head'', y) \<in> (manages_edge ?m)\<^sup>*" for y
    using that by (induction rule: rtrancl_induct) (use facts(2,3) in \<open>auto simp: manages_edge_def\<close>)
  then have "(''head'', ''worker'') \<notin> (manages_edge ?m)\<^sup>*" by fastforce
  then show ?thesis using t[of Paused "''worker''" "''chief''"] t[of Paused "''head''" "''worker''"] up facts(4)
    by blast
qed

end
