(* ===== verification/Activity_Ledger.thy ===== *)
theory Activity_Ledger
  imports Organization
begin

text \<open>
  The activity ledger (\<open>chiefd-core/src/store/activity.rs\<close>, the ledger half): what the company last
  decided about each person, and the graceful transitions (park, transfer, offboard) they are taken
  through. Here: the records, the status of a transition, the validation of a ledger, the structural
  repair against the manifest, and the steps on transitions (new, ensure, cancel). Indexing a map with a
  key the code has just looked up (a panic when absent) is the look-up's other branch.
\<close>

section \<open>Vocabulary\<close>

definition ACTIVITY_SCHEMA_VERSION :: nat where "ACTIVITY_SCHEMA_VERSION = 1"
definition HANDOFF_GRACE_MS :: int where "HANDOFF_GRACE_MS = 2 * 60 * 1000"
definition TRANSITION_MAX_REASON_CHARACTERS :: nat where "TRANSITION_MAX_REASON_CHARACTERS = 500"
definition ACTIVITY_TERMINAL_TRANSITION_LIMIT :: nat where "ACTIVITY_TERMINAL_TRANSITION_LIMIT = 200"
definition IDLE_AUTO_PARK_REASON :: string where "IDLE_AUTO_PARK_REASON = ''Idle auto-park.''"
definition UNKNOWN_TRANSITION :: string where "UNKNOWN_TRANSITION = ''unknown-transition''"
definition TRANSITION_RELEASED :: string where "TRANSITION_RELEASED = ''transition-released''"
definition TRANSITION_TERMINAL :: string where "TRANSITION_TERMINAL = ''transition-terminal''"
definition HANDOFF_REQUIRED :: string where "HANDOFF_REQUIRED = ''handoff-required''"
definition INVALID_INPUT :: string where "INVALID_INPUT = ''invalid-input''"
definition UNKNOWN_PERSON :: string where "UNKNOWN_PERSON = ''unknown-person''"
definition TRANSITION_CONFLICT :: string where "TRANSITION_CONFLICT = ''transition-conflict''"
definition LEDGER_UNSERIALIZABLE :: string where "LEDGER_UNSERIALIZABLE = ''activity-unserializable''"
definition INTERNAL_INCONSISTENCY :: string where
  "INTERNAL_INCONSISTENCY = ''activity-internal-inconsistency''"

datatype transition_action = Park | Transfer | Offboard

fun action_as_str :: "transition_action \<Rightarrow> string" where
  "action_as_str Park = ''park''"
| "action_as_str Transfer = ''transfer''"
| "action_as_str Offboard = ''offboard''"

definition action_parse :: "string \<Rightarrow> transition_action option" where
  "action_parse text =
     (if text = ''park'' then Some Park
      else if text = ''transfer'' then Some Transfer
      else if text = ''offboard'' then Some Offboard
      else None)"

interpretation transition_action: codec action_as_str action_parse
proof
  show "action_parse (action_as_str x) = Some x" for x by (cases x) (simp_all add: action_parse_def)
  show "action_parse s = Some x \<Longrightarrow> s = action_as_str x" for s x
    by (auto simp: action_parse_def split: if_splits)
qed

definition needs_target :: "transition_action \<Rightarrow> bool" where
  "needs_target a \<longleftrightarrow> a = Transfer"

definition is_removal :: "transition_action \<Rightarrow> bool" where
  "is_removal a \<longleftrightarrow> a = Park \<or> a = Offboard"

datatype transition_status = AwaitingHandoff | Overdue | Ready | Applied | Cancelled | Forced

fun status_as_str :: "transition_status \<Rightarrow> string" where
  "status_as_str AwaitingHandoff = ''awaiting_handoff''"
| "status_as_str Overdue = ''overdue''"
| "status_as_str Ready = ''ready''"
| "status_as_str Applied = ''applied''"
| "status_as_str Cancelled = ''cancelled''"
| "status_as_str Forced = ''forced''"

fun status_is_pending :: "transition_status \<Rightarrow> bool" where
  "status_is_pending s \<longleftrightarrow> s = AwaitingHandoff \<or> s = Overdue"

fun status_is_released :: "transition_status \<Rightarrow> bool" where
  "status_is_released s \<longleftrightarrow> s = Ready \<or> s = Applied"

fun status_is_terminal :: "transition_status \<Rightarrow> bool" where
  "status_is_terminal s \<longleftrightarrow> s = Applied \<or> s = Cancelled \<or> s = Forced"

datatype activity_reason =
    ManagingOpenWork | OrganizationRoot | Requested | HandoffRequired | TransitionReady | MaintenanceBackpressure

fun reason_as_str :: "activity_reason \<Rightarrow> string" where
  "reason_as_str ManagingOpenWork = ''managing-open-work''"
| "reason_as_str OrganizationRoot = ''organization-root''"
| "reason_as_str Requested = ''requested''"
| "reason_as_str HandoffRequired = ''handoff-required''"
| "reason_as_str TransitionReady = ''transition-ready''"
| "reason_as_str MaintenanceBackpressure = ''maintenance-backpressure''"

definition is_effective_demand :: "activity_reason \<Rightarrow> bool" where
  "is_effective_demand r \<longleftrightarrow> r \<notin> {HandoffRequired, TransitionReady, MaintenanceBackpressure, ManagingOpenWork}"

section \<open>The ledger\<close>

record graceful_transition =
  gt_id :: string
  gt_person_id :: string
  gt_action :: transition_action
  gt_reason :: string
  gt_intent_id :: "string option"
  gt_placement_department_id :: string
  gt_to_department_id :: "string option"
  gt_status :: transition_status
  gt_requested_at :: string
  gt_handoff_deadline_at :: string
  gt_applied_at :: "string option"
  gt_cancelled_at :: "string option"
  gt_forced_at :: "string option"
  gt_abandoned_at :: "string option"

record person_activity_state =
  pa_person_id :: string
  pa_last_employment_state :: employment_state
  pa_last_department_id :: string
  pa_last_operational :: bool
  pa_last_desired_active :: bool
  pa_idle_since :: "string option"
  pa_agent_quiet_at :: "string option"
  pa_agent_active_at :: "string option"
  pa_operator_wake_at :: "string option"
  pa_active_transition_id :: "string option"
  pa_updated_at :: string

record activity_ledger =
  al_schema_version :: nat
  al_organization :: string
  al_person_order :: "string list"
  al_people :: "(string, person_activity_state) omap"
  al_transition_order :: "string list"
  al_transitions :: "(string, graceful_transition) omap"
  al_next_transition_sequence :: nat
  al_automatic_park_cursor :: "nat option"
  al_created_at :: string
  al_updated_at :: string

definition seed_person_state :: "'v organization_manifest \<Rightarrow> string \<Rightarrow> string \<Rightarrow> person_activity_state option" where
  "seed_person_state m person_id now = map_option (\<lambda>p.
     \<lparr>pa_person_id = person_id, pa_last_employment_state = ps_employment_state p,
      pa_last_department_id = ps_department_id p,
      pa_last_operational = organization_unit_is_active m (ps_department_id p),
      pa_last_desired_active = False, pa_idle_since = None, pa_agent_quiet_at = None,
      pa_agent_active_at = None, pa_operator_wake_at = None, pa_active_transition_id = None,
      pa_updated_at = now\<rparr>) (person m person_id)"

definition activity_initial :: "'v organization_manifest \<Rightarrow> string \<Rightarrow> activity_ledger" where
  "activity_initial m now =
     \<lparr>al_schema_version = ACTIVITY_SCHEMA_VERSION, al_organization = mf_slug m,
      al_person_order = mf_people_order m,
      al_people = om_of_list (List.map_filter
        (\<lambda>pid. map_option (\<lambda>state. (pid, state)) (seed_person_state m pid now)) (mf_people_order m)),
      al_transition_order = [], al_transitions = [], al_next_transition_sequence = 1,
      al_automatic_park_cursor = Some 0, al_created_at = now, al_updated_at = now\<rparr>"

definition active_transition :: "activity_ledger \<Rightarrow> string \<Rightarrow> graceful_transition option" where
  "active_transition l person_id = (case om_get (al_people l) person_id of
     None \<Rightarrow> None
   | Some state \<Rightarrow>
       (case pa_active_transition_id state of
          None \<Rightarrow> None
        | Some tid \<Rightarrow>
            (case om_get (al_transitions l) tid of
               None \<Rightarrow> None
             | Some t \<Rightarrow> if gt_status t \<noteq> Cancelled then Some t else None)))"

definition active_transition_id_of :: "activity_ledger \<Rightarrow> string \<Rightarrow> string option" where
  "active_transition_id_of l person_id = map_option gt_id (active_transition l person_id)"

definition vanished :: "string \<Rightarrow> chiefd_error" where
  "vanished what = refused INTERNAL_INCONSISTENCY
     (what @ '' disappeared inside a single mutation; this is a chiefd bug'')"

section \<open>Validation\<close>

definition exact_order :: "string list \<Rightarrow> (string, 'a) omap \<Rightarrow> string \<Rightarrow> refusal + unit" where
  "exact_order order records label =
     (if order_invalid order records \<or> length order \<noteq> length records
      then Inl (refusal_new INVALID_INPUT (''Activity '' @ label @ '' order is invalid''))
      else Inr ())"

definition activity_person_error :: "string \<Rightarrow> string \<Rightarrow> refusal" where
  "activity_person_error person_id what =
     refusal_new INVALID_INPUT (''Activity person '' @ quoted person_id @ what)"

definition bad_stamp :: "string option \<Rightarrow> bool" where
  "bad_stamp field = (case field of None \<Rightarrow> False | Some v \<Rightarrow> parse_iso_millis v = None)"

definition check_activity_person ::
  "activity_ledger \<Rightarrow> 'v organization_manifest \<Rightarrow> unit \<Rightarrow> string \<Rightarrow> refusal + unit" where
  "check_activity_person l m u person_id = (case om_get (al_people l) person_id of
     None \<Rightarrow> Inl (refusal_new INVALID_INPUT ''Activity person order is invalid'')
   | Some state \<Rightarrow>
       if person m person_id = None \<or> pa_person_id state \<noteq> person_id
       then Inl (refusal_new UNKNOWN_PERSON (''Unknown activity person '' @ quoted person_id))
       else if department m (pa_last_department_id state) = None
       then Inl (activity_person_error person_id ('' has a prior placement at ''
              @ quoted (pa_last_department_id state)
              @ '', which this organization has no department for; a prior placement must name one of its current departments''))
       else if parse_iso_millis (pa_updated_at state) = None
       then Inl (activity_person_error person_id '' has invalid desired state'')
       else if bad_stamp (pa_idle_since state)
       then Inl (activity_person_error person_id '' has invalid idle lease time'')
       else if bad_stamp (pa_agent_active_at state)
       then Inl (activity_person_error person_id '' has invalid agent activity time'')
       else (case pa_active_transition_id state of
          None \<Rightarrow> Inr ()
        | Some tid \<Rightarrow>
            (case om_get (al_transitions l) tid of
               None \<Rightarrow> Inl (activity_person_error person_id '' has an invalid active transition'')
             | Some t \<Rightarrow>
                 if gt_person_id t \<noteq> person_id \<or> gt_status t = Cancelled
                 then Inl (activity_person_error person_id '' has an invalid active transition'')
                 else Inr ())))"

text \<open>\<open>str::parse::<u64>()\<close>: an optional plus sign, at least one digit, in range.\<close>

definition parse_u64 :: "string \<Rightarrow> nat option" where
  "parse_u64 s = (case parse_digits (case s of c # cs \<Rightarrow> if c = CHR ''+'' then cs else s | [] \<Rightarrow> s) of
     None \<Rightarrow> None
   | Some n \<Rightarrow> if n \<le> u64_max then Some n else None)"

definition transition_sequence :: "string \<Rightarrow> nat option" where
  "transition_sequence transition_id = (case strip_prefix transition_id ''transition:'' of
     None \<Rightarrow> None
   | Some rest \<Rightarrow> (case split_on (CHR '':'') rest of [] \<Rightarrow> None | digits # _ \<Rightarrow> parse_u64 digits))"

definition transition_error :: "string \<Rightarrow> string \<Rightarrow> refusal" where
  "transition_error transition_id what =
     refusal_new INVALID_INPUT (''Graceful transition '' @ quoted transition_id @ what)"

definition stamp_missing :: "string option \<Rightarrow> bool" where
  "stamp_missing field \<longleftrightarrow> field = None \<or> bad_stamp field"

definition check_terms :: "'v organization_manifest \<Rightarrow> string \<Rightarrow> graceful_transition \<Rightarrow> refusal + unit" where
  "check_terms m tid t =
     (if trim (gt_reason t) = [] \<or> TRANSITION_MAX_REASON_CHARACTERS < char_count (gt_reason t)
      then Inl (transition_error tid '' has an invalid reason'')
      else if department m (gt_placement_department_id t) = None
      then Inl (transition_error tid '' has invalid prior placement'')
      else if needs_target (gt_action t) \<noteq> (gt_to_department_id t \<noteq> None)
        \<or> (case gt_to_department_id t of None \<Rightarrow> False | Some unit_id \<Rightarrow> department m unit_id = None)
      then Inl (transition_error tid '' has an invalid target'')
      else (case (parse_iso_millis (gt_requested_at t), parse_iso_millis (gt_handoff_deadline_at t)) of
          (Some requested, Some deadline) \<Rightarrow>
            if requested \<le> deadline then Inr () else Inl (transition_error tid '' has an invalid deadline'')
        | _ \<Rightarrow> Inl (transition_error tid '' has an invalid deadline'')))"

definition check_stamps :: "string \<Rightarrow> graceful_transition \<Rightarrow> refusal + unit" where
  "check_stamps tid t =
     (if gt_status t = Applied \<and> stamp_missing (gt_applied_at t)
      then Inl (transition_error tid '' has no applied timestamp'')
      else if gt_status t = Cancelled \<and> stamp_missing (gt_cancelled_at t)
      then Inl (transition_error tid '' has no cancelled timestamp'')
      else if gt_status t = Forced \<and> gt_action t \<noteq> Park
      then Inl (transition_error tid ('' is '' @ quoted ''forced'' @ '' but not a '' @ quoted ''park''))
      else if gt_status t = Forced \<and> stamp_missing (gt_forced_at t)
      then Inl (transition_error tid '' has no forced timestamp'')
      else if gt_abandoned_at t \<noteq> None \<and> (gt_status t \<noteq> Cancelled \<or> bad_stamp (gt_abandoned_at t))
      then Inl (transition_error tid '' has an invalid abandoned timestamp'')
      else Inr ())"

definition check_transition ::
  "activity_ledger \<Rightarrow> 'v organization_manifest \<Rightarrow> nat \<Rightarrow> string \<Rightarrow> refusal + nat" where
  "check_transition l m maximum tid = (case om_get (al_transitions l) tid of
     None \<Rightarrow> Inl (refusal_new INVALID_INPUT ''Activity transition order is invalid'')
   | Some t \<Rightarrow>
       if gt_id t \<noteq> tid \<or> person m (gt_person_id t) = None
       then Inl (transition_error tid '' is invalid'')
       else (case transition_sequence tid of
          None \<Rightarrow> Inl (transition_error tid '' has an invalid id'')
        | Some sequence \<Rightarrow>
            res_bind (check_terms m tid t) (\<lambda>_.
            res_bind (check_stamps tid t) (\<lambda>_. Inr (max maximum sequence)))))"

definition validate_activity :: "activity_ledger \<Rightarrow> 'v organization_manifest \<Rightarrow> refusal + unit" where
  "validate_activity l m =
     (if al_schema_version l \<noteq> ACTIVITY_SCHEMA_VERSION
      then Inl (refusal_new INVALID_INPUT ''Unsupported activity ledger'')
      else if al_organization l \<noteq> mf_slug m
      then Inl (refusal_new INVALID_INPUT (''Activity ledger belongs to '' @ quoted (al_organization l)
             @ '', not '' @ quoted (mf_slug m)))
      else
        res_bind (exact_order (al_person_order l) (al_people l) ''person'') (\<lambda>_.
        res_bind (exact_order (al_transition_order l) (al_transitions l) ''transition'') (\<lambda>_.
        res_bind (res_fold (check_activity_person l m) () (al_person_order l)) (\<lambda>_.
        res_bind (res_fold (check_transition l m) 0 (al_transition_order l)) (\<lambda>maximum.
          if al_next_transition_sequence l \<le> maximum
          then Inl (refusal_new INVALID_INPUT ''Activity transition sequence is invalid'')
          else Inr ())))))"


section \<open>The structural repair\<close>

text \<open>
  Every pass answers the repaired ledger and whether it changed anything, as the source's passes do.
\<close>

definition known_department :: "'v organization_manifest \<Rightarrow> string \<Rightarrow> bool" where
  "known_department m did \<longleftrightarrow> department m did \<noteq> None"

definition dangling :: "'v organization_manifest \<Rightarrow> graceful_transition \<Rightarrow> bool" where
  "dangling m t \<longleftrightarrow> \<not> known_department m (gt_placement_department_id t)
     \<or> (case gt_to_department_id t of None \<Rightarrow> False | Some unit_id \<Rightarrow> \<not> known_department m unit_id)"

definition forget_pointers :: "(string \<Rightarrow> bool) \<Rightarrow> activity_ledger \<Rightarrow> activity_ledger" where
  "forget_pointers gone l = l\<lparr>al_people := om_map (\<lambda>state.
     case pa_active_transition_id state of
       Some tid \<Rightarrow> if gone tid then state\<lparr>pa_active_transition_id := None\<rparr> else state
     | None \<Rightarrow> state) (al_people l)\<rparr>"

definition repair_placement ::
  "'v organization_manifest \<Rightarrow> string \<Rightarrow> activity_ledger \<times> bool \<Rightarrow> string \<Rightarrow> activity_ledger \<times> bool" where
  "repair_placement m now lc person_id = (case lc of (l, changed) \<Rightarrow>
     (case person m person_id of
        None \<Rightarrow> (l, changed)
      | Some p \<Rightarrow>
          (case om_get (al_people l) person_id of
             None \<Rightarrow> (l, changed)
           | Some state \<Rightarrow>
               if known_department m (pa_last_department_id state) then (l, changed)
               else (l\<lparr>al_people := om_put person_id
                      (state\<lparr>pa_last_department_id := ps_department_id p, pa_updated_at := now\<rparr>)
                      (al_people l)\<rparr>, True))))"

definition drop_dangling :: "activity_ledger \<Rightarrow> 'v organization_manifest \<Rightarrow> activity_ledger \<times> bool" where
  "drop_dangling l m =
     (let doomed = filter (\<lambda>tid. case om_get (al_transitions l) tid of None \<Rightarrow> False | Some t \<Rightarrow> dangling m t)
            (al_transition_order l)
      in if doomed = [] then (l, False)
         else (forget_pointers (\<lambda>tid. tid \<in> set doomed)
                (l\<lparr>al_transition_order := filter (\<lambda>tid. tid \<notin> set doomed) (al_transition_order l),
                   al_transitions := om_del_all doomed (al_transitions l)\<rparr>), True))"

definition repair_dangling_departments ::
  "activity_ledger \<Rightarrow> 'v organization_manifest \<Rightarrow> string \<Rightarrow> activity_ledger \<times> bool" where
  "repair_dangling_departments l m now =
     foldl (repair_placement m now) (drop_dangling l m) (mf_people_order m)"

definition adopt_order :: "activity_ledger \<Rightarrow> 'v organization_manifest \<Rightarrow> activity_ledger \<times> bool" where
  "adopt_order l m =
     (if al_person_order l \<noteq> mf_people_order m then (l\<lparr>al_person_order := mf_people_order m\<rparr>, True)
      else (l, False))"

definition seed_missing ::
  "'v organization_manifest \<Rightarrow> string \<Rightarrow> activity_ledger \<times> bool \<Rightarrow> string \<Rightarrow> activity_ledger \<times> bool" where
  "seed_missing m now lc person_id = (case lc of (l, changed) \<Rightarrow>
     if om_has (al_people l) person_id then (l, changed)
     else (case seed_person_state m person_id now of
        None \<Rightarrow> (l, changed)
      | Some state \<Rightarrow> (l\<lparr>al_people := om_put person_id state (al_people l)\<rparr>, True)))"

definition drop_departed :: "activity_ledger \<Rightarrow> 'v organization_manifest \<Rightarrow> activity_ledger \<times> bool" where
  "drop_departed l m =
     (let departed = filter (\<lambda>pid. pid \<notin> set (mf_people_order m)) (om_keys (al_people l))
      in (l\<lparr>al_people := om_del_all departed (al_people l)\<rparr>, departed \<noteq> []))"

definition retain_known :: "activity_ledger \<Rightarrow> 'v organization_manifest \<Rightarrow> activity_ledger \<times> bool" where
  "retain_known l m =
     (let retained = filter (\<lambda>tid. case om_get (al_transitions l) tid of None \<Rightarrow> False
            | Some t \<Rightarrow> gt_person_id t \<in> set (mf_people_order m) \<and> \<not> dangling m t) (al_transition_order l)
      in if length retained = length (al_transition_order l) then (l, False)
         else (let dropped = filter (\<lambda>tid. tid \<notin> set retained) (al_transition_order l)
               in (forget_pointers (\<lambda>tid. tid \<notin> set retained)
                     (l\<lparr>al_transition_order := retained,
                        al_transitions := om_del_all dropped (al_transitions l)\<rparr>), True)))"

definition bound_terminal :: "activity_ledger \<Rightarrow> activity_ledger \<times> bool" where
  "bound_terminal l =
     (let referenced = List.map_filter (pa_active_transition_id \<circ> snd) (al_people l);
          droppable = filter (\<lambda>tid. tid \<notin> set referenced
            \<and> (case om_get (al_transitions l) tid of None \<Rightarrow> False | Some t \<Rightarrow> status_is_terminal (gt_status t)))
            (al_transition_order l)
      in if ACTIVITY_TERMINAL_TRANSITION_LIMIT < length droppable
         then (let doomed = take (length droppable - ACTIVITY_TERMINAL_TRANSITION_LIMIT) droppable
               in (l\<lparr>al_transitions := om_del_all doomed (al_transitions l),
                     al_transition_order := filter (\<lambda>tid. tid \<notin> set doomed) (al_transition_order l)\<rparr>, True))
         else (l, False))"

definition cancel_transition :: "activity_ledger \<Rightarrow> string \<Rightarrow> string \<Rightarrow> activity_ledger" where
  "cancel_transition l transition_id at = (case om_get (al_transitions l) transition_id of
     None \<Rightarrow> l
   | Some t \<Rightarrow>
       l\<lparr>al_transitions := om_put transition_id
            (t\<lparr>gt_status := Cancelled, gt_cancelled_at := Some at, gt_forced_at := None\<rparr>) (al_transitions l),
         al_people := om_adjust (gt_person_id t) (\<lambda>state.
            if pa_active_transition_id state = Some transition_id
            then state\<lparr>pa_active_transition_id := None, pa_updated_at := at\<rparr> else state) (al_people l)\<rparr>)"

definition is_routine_idle_park :: "graceful_transition \<Rightarrow> bool" where
  "is_routine_idle_park t \<longleftrightarrow> gt_action t = Park \<and> gt_intent_id t = None \<and> gt_reason t = IDLE_AUTO_PARK_REASON"

definition expired_transition :: "activity_ledger \<Rightarrow> int \<Rightarrow> string \<Rightarrow> string option" where
  "expired_transition l now_ms person_id = (case om_get (al_people l) person_id of
     None \<Rightarrow> None
   | Some state \<Rightarrow>
       (case pa_active_transition_id state of
          None \<Rightarrow> None
        | Some tid \<Rightarrow>
            (case om_get (al_transitions l) tid of
               None \<Rightarrow> None
             | Some t \<Rightarrow>
                 if gt_status t \<notin> {AwaitingHandoff, Overdue, Ready} then None
                 else if gt_action t = Park \<and> gt_reason t = IDLE_AUTO_PARK_REASON \<and> gt_intent_id t = None then None
                 else (case parse_iso_millis (gt_handoff_deadline_at t) of
                    None \<Rightarrow> None
                  | Some deadline_ms \<Rightarrow>
                      if now_ms \<le> deadline_ms + HANDOFF_GRACE_MS then None else Some tid))))"

definition sweep_expired_transitions :: "activity_ledger \<Rightarrow> string \<Rightarrow> activity_ledger \<times> bool" where
  "sweep_expired_transitions l now = (case parse_iso_millis now of
     None \<Rightarrow> (l, False)
   | Some now_ms \<Rightarrow>
       (let expired = List.map_filter (expired_transition l now_ms) (al_person_order l)
        in (foldl (\<lambda>l tid. cancel_transition l tid now) l expired, expired \<noteq> [])))"

definition reconcile_people ::
  "activity_ledger \<Rightarrow> 'v organization_manifest \<Rightarrow> string \<Rightarrow> activity_ledger \<times> bool" where
  "reconcile_people l0 m now =
     (let (l1, c1) = adopt_order l0 m;
          (l2, c2) = foldl (seed_missing m now) (l1, c1) (mf_people_order m);
          (l3, c3) = drop_departed l2 m;
          (l4, c4) = repair_dangling_departments l3 m now;
          (l5, c5) = retain_known l4 m;
          (l6, c6) = bound_terminal l5;
          (l7, c7) = sweep_expired_transitions l6 now
      in (l7, c2 \<or> c3 \<or> c4 \<or> c5 \<or> c6 \<or> c7))"

section \<open>The steps on transitions\<close>

record transition_spec =
  sp_person_id :: string
  sp_action :: transition_action
  sp_reason :: string
  sp_to_department_id :: "string option"
  sp_intent_id :: "string option"

definition unknown_person :: "string \<Rightarrow> chiefd_error" where
  "unknown_person person_id = refused UNKNOWN_PERSON (''Unknown organization person '' @ quoted person_id)"

definition new_transition ::
  "activity_ledger \<Rightarrow> transition_spec \<Rightarrow> string \<Rightarrow> chiefd_error + (activity_ledger \<times> graceful_transition)" where
  "new_transition l spec at =
     (let routine = sp_action spec = Park \<and> sp_intent_id spec = None \<and> sp_reason spec = IDLE_AUTO_PARK_REASON;
          sequence = al_next_transition_sequence l;
          l1 = l\<lparr>al_next_transition_sequence := sat_add_u64 sequence 1\<rparr>;
          tid = ''transition:'' @ show_nat sequence @ '':'' @ sp_person_id spec @ '':'' @ action_as_str (sp_action spec)
      in (case parse_iso_millis at of
         None \<Rightarrow> Inl (refused INVALID_INPUT ''commit timestamp is not ISO-8601'')
       | Some requested \<Rightarrow>
           (case om_get (al_people l1) (sp_person_id spec) of
              None \<Rightarrow> Inl (unknown_person (sp_person_id spec))
            | Some state \<Rightarrow>
                (let t = \<lparr>gt_id = tid, gt_person_id = sp_person_id spec, gt_action = sp_action spec,
                       gt_reason = sp_reason spec, gt_intent_id = sp_intent_id spec,
                       gt_placement_department_id = pa_last_department_id state,
                       gt_to_department_id = sp_to_department_id spec,
                       gt_status = (if routine then Forced else AwaitingHandoff),
                       gt_requested_at = at,
                       gt_handoff_deadline_at = (if routine then at else iso_millis (requested + HANDOFF_GRACE_MS)),
                       gt_applied_at = None, gt_cancelled_at = None,
                       gt_forced_at = (if routine then Some at else None), gt_abandoned_at = None\<rparr>
                 in Inr (l1\<lparr>al_transitions := om_put tid t (al_transitions l1),
                            al_transition_order := al_transition_order l1 @ [tid],
                            al_people := om_put (sp_person_id spec)
                              (state\<lparr>pa_active_transition_id := Some tid, pa_updated_at := at\<rparr>) (al_people l1)\<rparr>, t)))))"

text \<open>
  The two supersessions of an existing transition: an intent-bearing park replaces a park without one,
  and an intent replaces what is not applied and differs from its terms.
\<close>

definition supersedes_plain_park :: "transition_spec \<Rightarrow> graceful_transition \<Rightarrow> bool" where
  "supersedes_plain_park spec current \<longleftrightarrow>
     gt_action current = Park \<and> sp_action spec = Park \<and> sp_intent_id spec \<noteq> None \<and> gt_intent_id current = None"

definition supersedes_terms :: "transition_spec \<Rightarrow> graceful_transition \<Rightarrow> bool" where
  "supersedes_terms spec current \<longleftrightarrow>
     sp_intent_id spec \<noteq> None \<and> gt_status current \<noteq> Applied
     \<and> (gt_action current \<noteq> sp_action spec \<or> gt_to_department_id current \<noteq> sp_to_department_id spec
        \<or> gt_intent_id current \<noteq> sp_intent_id spec)"

definition supersede_if ::
  "(graceful_transition \<Rightarrow> bool) \<Rightarrow> string \<Rightarrow> activity_ledger \<times> string option \<Rightarrow> activity_ledger \<times> string option" where
  "supersede_if test at le = (case le of
     (l, None) \<Rightarrow> (l, None)
   | (l, Some tid) \<Rightarrow>
       (case om_get (al_transitions l) tid of
          None \<Rightarrow> (l, Some tid)
        | Some current \<Rightarrow> if test current then (cancel_transition l tid at, None) else (l, Some tid)))"

definition own_structural_retry :: "transition_spec \<Rightarrow> graceful_transition \<Rightarrow> bool" where
  "own_structural_retry spec current \<longleftrightarrow>
     gt_status current = Applied \<and> gt_action current = sp_action spec
     \<and> gt_to_department_id current = sp_to_department_id spec \<and> gt_intent_id current \<noteq> None
     \<and> (sp_intent_id spec = None \<or> gt_intent_id current = sp_intent_id spec)"

definition ensure_matching_transition ::
  "activity_ledger \<Rightarrow> transition_spec \<Rightarrow> string \<Rightarrow> chiefd_error + (activity_ledger \<times> graceful_transition)" where
  "ensure_matching_transition l0 spec at =
     (let (l, existing) = supersede_if (supersedes_terms spec) at
            (supersede_if (supersedes_plain_park spec) at (l0, active_transition_id_of l0 (sp_person_id spec)))
      in (case existing of
         None \<Rightarrow> new_transition l spec at
       | Some tid \<Rightarrow>
           (case om_get (al_transitions l) tid of
              None \<Rightarrow> Inl (vanished ''the active transition'')
            | Some current \<Rightarrow>
                if status_is_terminal (gt_status current) \<and> \<not> own_structural_retry spec current
                then new_transition l spec at
                else if gt_action current \<noteq> sp_action spec \<or> gt_to_department_id current \<noteq> sp_to_department_id spec
                then Inl (refused TRANSITION_CONFLICT (''Person '' @ quoted (sp_person_id spec) @ '' already has ''
                       @ action_as_str (gt_action current) @ '' transition '' @ quoted tid))
                else if sp_intent_id spec \<noteq> None \<and> gt_intent_id current \<noteq> sp_intent_id spec
                then Inl (refused TRANSITION_CONFLICT (''Person '' @ quoted (sp_person_id spec)
                       @ '' already has transition '' @ quoted tid @ '' for another lifecycle intent''))
                else Inr (l, current))))"


section \<open>What validation accepts\<close>

text \<open>
  A valid ledger, entry by entry: \<open>activity_shape\<close> is what does not depend on the manifest (but the
  order of the people), \<open>roster_exact\<close> and \<open>activity_fits\<close> what does.
\<close>

definition pointer_ok :: "activity_ledger \<Rightarrow> string \<Rightarrow> person_activity_state \<Rightarrow> bool" where
  "pointer_ok l pid state \<longleftrightarrow> (\<forall>tid. pa_active_transition_id state = Some tid \<longrightarrow>
     (\<exists>t. om_get (al_transitions l) tid = Some t \<and> gt_person_id t = pid \<and> gt_status t \<noteq> Cancelled))"

definition state_shape :: "string \<Rightarrow> person_activity_state \<Rightarrow> bool" where
  "state_shape pid state \<longleftrightarrow> pa_person_id state = pid \<and> parse_iso_millis (pa_updated_at state) \<noteq> None
     \<and> \<not> bad_stamp (pa_idle_since state) \<and> \<not> bad_stamp (pa_agent_active_at state)"

definition transition_shape :: "nat \<Rightarrow> string \<Rightarrow> graceful_transition \<Rightarrow> bool" where
  "transition_shape next_seq tid t \<longleftrightarrow> gt_id t = tid
     \<and> (\<exists>n. transition_sequence tid = Some n \<and> n < next_seq)
     \<and> trim (gt_reason t) \<noteq> [] \<and> char_count (gt_reason t) \<le> TRANSITION_MAX_REASON_CHARACTERS
     \<and> (needs_target (gt_action t) \<longleftrightarrow> gt_to_department_id t \<noteq> None)
     \<and> (\<exists>r d. parse_iso_millis (gt_requested_at t) = Some r
          \<and> parse_iso_millis (gt_handoff_deadline_at t) = Some d \<and> r \<le> d)
     \<and> check_stamps tid t = Inr ()"

definition activity_shape :: "activity_ledger \<Rightarrow> bool" where
  "activity_shape l \<longleftrightarrow> om_wf (al_people l) \<and> om_wf (al_transitions l)
     \<and> al_schema_version l = ACTIVITY_SCHEMA_VERSION
     \<and> distinct (al_transition_order l)
     \<and> set (al_transition_order l) = {tid. om_get (al_transitions l) tid \<noteq> None}
     \<and> (\<forall>pid state. om_get (al_people l) pid = Some state \<longrightarrow> state_shape pid state \<and> pointer_ok l pid state)
     \<and> (\<forall>tid t. om_get (al_transitions l) tid = Some t \<longrightarrow> transition_shape (al_next_transition_sequence l) tid t)
     \<and> 0 < al_next_transition_sequence l"

definition activity_fits :: "activity_ledger \<Rightarrow> 'v organization_manifest \<Rightarrow> bool" where
  "activity_fits l m \<longleftrightarrow> al_organization l = mf_slug m
     \<and> (\<forall>pid state. om_get (al_people l) pid = Some state \<longrightarrow>
          person m pid \<noteq> None \<and> known_department m (pa_last_department_id state))
     \<and> (\<forall>tid t. om_get (al_transitions l) tid = Some t \<longrightarrow> person m (gt_person_id t) \<noteq> None \<and> \<not> dangling m t)"

definition order_exact :: "string list \<Rightarrow> (string, 'a) omap \<Rightarrow> bool" where
  "order_exact order entries \<longleftrightarrow> distinct order \<and> set order = {k. om_get entries k \<noteq> None}"

lemma exact_order_iff:
  assumes "om_wf records"
  shows "exact_order order records label = Inr () \<longleftrightarrow> order_exact order records"
proof
  assume "exact_order order records label = Inr ()"
  then have "\<not> order_invalid order records" "length order = length records"
    by (auto simp: exact_order_def split: if_splits)
  from order_covers[OF this assms] show "order_exact order records"
    unfolding order_exact_def by (simp only: om_keys_set simp_thms)
next
  assume e: "order_exact order records"
  then have "length order = card (set (om_keys records))"
    unfolding order_exact_def om_keys_set by (metis distinct_card)
  also have "\<dots> = length records"
    using distinct_card[OF om_wf_distinct[OF assms]] by (simp add: om_keys_def)
  finally show "exact_order order records label = Inr ()"
    using e by (auto simp: exact_order_def order_exact_def order_invalid_def om_has_def list_ex_iff
        distinct_remdups_id)
qed

lemma check_activity_person_iff:
  "check_activity_person l m u pid = Inr u' \<longleftrightarrow> (\<exists>state. om_get (al_people l) pid = Some state
     \<and> person m pid \<noteq> None \<and> known_department m (pa_last_department_id state)
     \<and> state_shape pid state \<and> pointer_ok l pid state)"
  by (auto simp: check_activity_person_def state_shape_def pointer_ok_def known_department_def if_Inl_iff
      split: option.splits)

lemma check_terms_iff:
  "check_terms m tid t = Inr () \<longleftrightarrow> trim (gt_reason t) \<noteq> []
     \<and> char_count (gt_reason t) \<le> TRANSITION_MAX_REASON_CHARACTERS
     \<and> (needs_target (gt_action t) \<longleftrightarrow> gt_to_department_id t \<noteq> None) \<and> \<not> dangling m t
     \<and> (\<exists>r d. parse_iso_millis (gt_requested_at t) = Some r
          \<and> parse_iso_millis (gt_handoff_deadline_at t) = Some d \<and> r \<le> d)"
  by (auto simp: check_terms_def dangling_def known_department_def split: option.splits)

lemma check_transition_iff:
  "check_transition l m mx tid = Inr mx' \<longleftrightarrow> (\<exists>t n. om_get (al_transitions l) tid = Some t
     \<and> gt_id t = tid \<and> person m (gt_person_id t) \<noteq> None \<and> transition_sequence tid = Some n
     \<and> check_terms m tid t = Inr () \<and> check_stamps tid t = Inr () \<and> mx' = max mx n)"
  by (auto simp: check_transition_def res_bind_Inr_iff split: option.splits)

lemma check_activity_people_iff:
  "res_fold (check_activity_person l m) u ids = Inr u' \<longleftrightarrow> (\<forall>pid \<in> set ids. check_activity_person l m () pid = Inr ())"
  by (induction ids arbitrary: u) (auto simp: res_bind_Inr_iff check_activity_person_iff)

lemma check_transitions_iff:
  "(\<exists>mx'. res_fold (check_transition l m) mx ids = Inr mx' \<and> mx' < next_seq) \<longleftrightarrow>
     mx < next_seq \<and> (\<forall>tid \<in> set ids. \<exists>n < next_seq. check_transition l m 0 tid = Inr n)"
proof (induction ids arbitrary: mx)
  case (Cons tid ids)
  show ?case
  proof (cases "\<exists>n. check_transition l m 0 tid = Inr n")
    case False
    then have "\<nexists>mx'. check_transition l m mx tid = Inr mx'" unfolding check_transition_iff by blast
    then show ?thesis using False by (cases "check_transition l m mx tid") (auto simp: res_bind_Inr_iff)
  next
    case True
    then obtain n where n: "check_transition l m 0 tid = Inr n" by blast
    then have "check_transition l m mx tid = Inr (max mx n)" by (auto simp: check_transition_iff)
    then show ?thesis using Cons[of "max mx n"] n by (simp add: conj_ac)
  qed
qed simp

definition activity_ok :: "activity_ledger \<Rightarrow> 'v organization_manifest \<Rightarrow> bool" where
  "activity_ok l m \<longleftrightarrow> activity_shape l \<and> activity_fits l m \<and> order_exact (al_person_order l) (al_people l)"

lemma validate_activity_iff:
  assumes "om_wf (al_people l)" "om_wf (al_transitions l)"
  shows "validate_activity l m = Inr () \<longleftrightarrow> activity_ok l m"
proof -
  have people: "res_fold (check_activity_person l m) () (al_person_order l) = Inr () \<longleftrightarrow>
      (\<forall>pid state. om_get (al_people l) pid = Some state \<longrightarrow> person m pid \<noteq> None
        \<and> known_department m (pa_last_department_id state) \<and> state_shape pid state \<and> pointer_ok l pid state)"
    if "order_exact (al_person_order l) (al_people l)"
    using that unfolding check_activity_people_iff check_activity_person_iff order_exact_def by fastforce
  have trans: "(\<exists>mx. res_fold (check_transition l m) 0 (al_transition_order l) = Inr mx
        \<and> mx < al_next_transition_sequence l) \<longleftrightarrow> 0 < al_next_transition_sequence l
      \<and> (\<forall>tid t. om_get (al_transitions l) tid = Some t \<longrightarrow> transition_shape (al_next_transition_sequence l) tid t
           \<and> person m (gt_person_id t) \<noteq> None \<and> \<not> dangling m t)"
    if "order_exact (al_transition_order l) (al_transitions l)"
    using that unfolding check_transitions_iff check_transition_iff check_terms_iff transition_shape_def order_exact_def
    by fastforce
  have "validate_activity l m = Inr () \<longleftrightarrow> al_schema_version l = ACTIVITY_SCHEMA_VERSION
      \<and> al_organization l = mf_slug m \<and> order_exact (al_person_order l) (al_people l)
      \<and> order_exact (al_transition_order l) (al_transitions l)
      \<and> res_fold (check_activity_person l m) () (al_person_order l) = Inr ()
      \<and> (\<exists>mx. res_fold (check_transition l m) 0 (al_transition_order l) = Inr mx \<and> mx < al_next_transition_sequence l)"
    by (auto simp: validate_activity_def res_bind_Inr_iff exact_order_iff assms not_le)
  then show ?thesis
    using people trans assms unfolding activity_ok_def activity_shape_def activity_fits_def order_exact_def by blast
qed

end
