(* ===== verification/Activity_Repair.thy ===== *)
theory Activity_Repair
  imports Activity_Ledger
begin

text \<open>
  The structural repair of the activity ledger, pass by pass: each keeps the shape of a valid ledger, and
  together they make any formerly valid ledger valid for the manifest of now.
\<close>

section \<open>The passes heal\<close>

text \<open>Cancelling keeps everything but the one transition and the pointer at it.\<close>

lemma cancelled_stamps:
  "parse_iso_millis at \<noteq> None \<Longrightarrow> check_stamps tid t = Inr () \<Longrightarrow>
     check_stamps tid (t\<lparr>gt_status := Cancelled, gt_cancelled_at := Some at, gt_forced_at := None\<rparr>) = Inr ()"
  by (auto simp: check_stamps_def stamp_missing_def bad_stamp_def split: if_splits option.splits)

lemma cancelled_shape:
  "parse_iso_millis at \<noteq> None \<Longrightarrow> transition_shape k tid t \<Longrightarrow>
     transition_shape k tid (t\<lparr>gt_status := Cancelled, gt_cancelled_at := Some at, gt_forced_at := None\<rparr>)"
  by (simp add: transition_shape_def cancelled_stamps)

lemma cancel_none: "om_get (al_transitions l) tid = None \<Longrightarrow> cancel_transition l tid at = l"
  by (simp add: cancel_transition_def)

lemma cancel_fields:
  "al_schema_version (cancel_transition l tid at) = al_schema_version l"
  "al_organization (cancel_transition l tid at) = al_organization l"
  "al_person_order (cancel_transition l tid at) = al_person_order l"
  "al_transition_order (cancel_transition l tid at) = al_transition_order l"
  "al_next_transition_sequence (cancel_transition l tid at) = al_next_transition_sequence l"
  by (simp_all add: cancel_transition_def split: option.splits)

lemma cancel_transitions:
  "om_get (al_transitions (cancel_transition l tid at)) tid' =
     (if tid' = tid then map_option (\<lambda>t. t\<lparr>gt_status := Cancelled, gt_cancelled_at := Some at, gt_forced_at := None\<rparr>)
        (om_get (al_transitions l) tid)
      else om_get (al_transitions l) tid')"
  by (auto simp: cancel_transition_def store_simps split: option.splits)

lemma cancel_people:
  "om_get (al_people (cancel_transition l tid at)) pid =
     map_option (\<lambda>state. if pa_active_transition_id state = Some tid
         \<and> (\<exists>t. om_get (al_transitions l) tid = Some t \<and> gt_person_id t = pid)
       then state\<lparr>pa_active_transition_id := None, pa_updated_at := at\<rparr> else state) (om_get (al_people l) pid)"
proof (cases "om_get (al_transitions l) tid")
  case (Some t)
  then show ?thesis
    by (cases "om_get (al_people l) pid") (auto simp: cancel_transition_def store_simps)
qed (simp add: cancel_none map_option.identity[unfolded id_def])

lemma cancel_shape:
  assumes "activity_shape l" "parse_iso_millis at \<noteq> None"
  shows "activity_shape (cancel_transition l tid at)"
proof -
  let ?l = "cancel_transition l tid at"
  have wf: "om_wf (al_people ?l)" "om_wf (al_transitions ?l)"
    using assms(1) by (auto simp: cancel_transition_def activity_shape_def om_wf_put om_wf_adjust split: option.splits)
  have d: "{t. om_get (al_transitions ?l) t \<noteq> None} = {t. om_get (al_transitions l) t \<noteq> None}"
    by (auto simp: cancel_transitions)
  have t: "transition_shape (al_next_transition_sequence ?l) tid' t" if "om_get (al_transitions ?l) tid' = Some t" for tid' t
    using that assms(1) cancelled_shape[OF assms(2)]
    by (auto simp: cancel_transitions cancel_fields activity_shape_def split: if_splits)
  have p: "state_shape pid state \<and> pointer_ok ?l pid state" if g: "om_get (al_people ?l) pid = Some state" for pid state
  proof -
    obtain st where st: "om_get (al_people l) pid = Some st"
        "state = (if pa_active_transition_id st = Some tid
           \<and> (\<exists>t. om_get (al_transitions l) tid = Some t \<and> gt_person_id t = pid)
         then st\<lparr>pa_active_transition_id := None, pa_updated_at := at\<rparr> else st)"
      using g by (auto simp: cancel_people)
    have ok: "state_shape pid st" "pointer_ok l pid st" using assms(1) st(1) by (auto simp: activity_shape_def)
    show ?thesis
    proof (cases "pa_active_transition_id st = Some tid")
      case True
      then have "state = st\<lparr>pa_active_transition_id := None, pa_updated_at := at\<rparr>"
        using st(2) ok(2) by (auto simp: pointer_ok_def)
      then show ?thesis using ok(1) assms(2) by (simp add: state_shape_def pointer_ok_def)
    next
      case False
      then show ?thesis using st(2) ok by (auto simp: pointer_ok_def cancel_transitions)
    qed
  qed
  show ?thesis
    unfolding activity_shape_def d using wf t p assms(1) by (simp add: activity_shape_def cancel_fields)
qed

lemma cancel_fits: "activity_fits l m \<Longrightarrow> activity_fits (cancel_transition l tid at) m"
  by (auto simp: activity_fits_def cancel_fields cancel_transitions cancel_people dangling_def split: if_splits)

lemma cancel_keys:
  "om_get (al_people (cancel_transition l tid at)) pid = None \<longleftrightarrow> om_get (al_people l) pid = None"
  by (simp add: cancel_people)

lemma sweep_shape:
  assumes "activity_shape l"
  shows "activity_shape (fst (sweep_expired_transitions l now))"
    and "activity_fits l m \<Longrightarrow> activity_fits (fst (sweep_expired_transitions l now)) m"
    and "al_person_order (fst (sweep_expired_transitions l now)) = al_person_order l"
    and "om_get (al_people (fst (sweep_expired_transitions l now))) pid = None \<longleftrightarrow> om_get (al_people l) pid = None"
proof -
  have "activity_shape (foldl (\<lambda>l tid. cancel_transition l tid now) l ids)
      \<and> (activity_fits l m \<longrightarrow> activity_fits (foldl (\<lambda>l tid. cancel_transition l tid now) l ids) m)
      \<and> al_person_order (foldl (\<lambda>l tid. cancel_transition l tid now) l ids) = al_person_order l
      \<and> (om_get (al_people (foldl (\<lambda>l tid. cancel_transition l tid now) l ids)) pid = None
          \<longleftrightarrow> om_get (al_people l) pid = None)"
    if "parse_iso_millis now \<noteq> None" "activity_shape l" for ids l
    using that(2)
    by (induction ids arbitrary: l) (simp_all add: cancel_shape cancel_fits cancel_fields cancel_keys that(1))
  then show "activity_shape (fst (sweep_expired_transitions l now))"
    "activity_fits l m \<Longrightarrow> activity_fits (fst (sweep_expired_transitions l now)) m"
    "al_person_order (fst (sweep_expired_transitions l now)) = al_person_order l"
    "om_get (al_people (fst (sweep_expired_transitions l now))) pid = None \<longleftrightarrow> om_get (al_people l) pid = None"
    using assms by (auto simp: sweep_expired_transitions_def Let_def split: option.splits)
qed

text \<open>Dropping transitions, with the pointers at them.\<close>

definition drop_ids :: "(string \<Rightarrow> bool) \<Rightarrow> string list \<Rightarrow> activity_ledger \<Rightarrow> activity_ledger" where
  "drop_ids gone ds l = forget_pointers gone
     (l\<lparr>al_transition_order := filter (\<lambda>tid. tid \<notin> set ds) (al_transition_order l),
        al_transitions := om_del_all ds (al_transitions l)\<rparr>)"

lemma drop_ids_fields:
  "al_schema_version (drop_ids gone ds l) = al_schema_version l"
  "al_organization (drop_ids gone ds l) = al_organization l"
  "al_person_order (drop_ids gone ds l) = al_person_order l"
  "al_next_transition_sequence (drop_ids gone ds l) = al_next_transition_sequence l"
  "al_transition_order (drop_ids gone ds l) = filter (\<lambda>tid. tid \<notin> set ds) (al_transition_order l)"
  "om_get (al_transitions (drop_ids gone ds l)) tid = (if tid \<in> set ds then None else om_get (al_transitions l) tid)"
  "om_get (al_people (drop_ids gone ds l)) pid = map_option (\<lambda>state.
     case pa_active_transition_id state of
       Some tid \<Rightarrow> if gone tid then state\<lparr>pa_active_transition_id := None\<rparr> else state
     | None \<Rightarrow> state) (om_get (al_people l) pid)"
  by (simp_all add: drop_ids_def forget_pointers_def store_simps)

lemma drop_ids_state:
  assumes "om_get (al_people (drop_ids gone ds l)) pid = Some state"
  obtains st where "om_get (al_people l) pid = Some st"
    "state = st \<and> (\<forall>tid. pa_active_transition_id st = Some tid \<longrightarrow> \<not> gone tid)
     \<or> state = st\<lparr>pa_active_transition_id := None\<rparr>"
proof -
  obtain st where "om_get (al_people l) pid = Some st" "state = (case pa_active_transition_id st of
       Some tid \<Rightarrow> if gone tid then st\<lparr>pa_active_transition_id := None\<rparr> else st | None \<Rightarrow> st)"
    using assms by (auto simp: drop_ids_fields)
  then show thesis by (intro that[of st]) (auto split: option.splits)
qed

lemma drop_ids_shape:
  assumes "activity_shape l"
    and "\<And>pid st tid. om_get (al_people l) pid = Some st \<Longrightarrow> pa_active_transition_id st = Some tid \<Longrightarrow>
           tid \<in> set ds \<Longrightarrow> gone tid"
  shows "activity_shape (drop_ids gone ds l)"
proof -
  have wf: "om_wf (al_people (drop_ids gone ds l))" "om_wf (al_transitions (drop_ids gone ds l))"
    using assms(1) by (simp_all add: drop_ids_def forget_pointers_def activity_shape_def om_wf_map om_wf_del_all)
  have p: "state_shape pid state \<and> pointer_ok (drop_ids gone ds l) pid state"
    if g: "om_get (al_people (drop_ids gone ds l)) pid = Some state" for pid state
  proof -
    obtain st where st: "om_get (al_people l) pid = Some st"
        "state = st \<and> (\<forall>tid. pa_active_transition_id st = Some tid \<longrightarrow> \<not> gone tid)
         \<or> state = st\<lparr>pa_active_transition_id := None\<rparr>"
      by (rule drop_ids_state[OF g])
    have ok: "state_shape pid st" "pointer_ok l pid st" using assms(1) st(1) by (auto simp: activity_shape_def)
    from st(2) show ?thesis
    proof
      assume e: "state = st \<and> (\<forall>tid. pa_active_transition_id st = Some tid \<longrightarrow> \<not> gone tid)"
      then have "tid \<notin> set ds" if "pa_active_transition_id st = Some tid" for tid
        using assms(2)[OF st(1)] that by blast
      then show ?thesis using e ok by (simp add: pointer_ok_def drop_ids_fields)
    next
      assume "state = st\<lparr>pa_active_transition_id := None\<rparr>"
      then show ?thesis using ok(1) by (simp add: state_shape_def pointer_ok_def)
    qed
  qed
  show ?thesis
    unfolding activity_shape_def using wf p assms(1) by (auto simp: activity_shape_def drop_ids_fields)
qed

lemma om_map_ident: "(\<And>x. f x = x) \<Longrightarrow> om_map f m = m"
  by (simp add: om_map_def)

lemma forget_none: "forget_pointers (\<lambda>_. False) l = l"
proof -
  have "om_map (\<lambda>state. case pa_active_transition_id state of Some tid \<Rightarrow>
      if False then state\<lparr>pa_active_transition_id := None\<rparr> else state | None \<Rightarrow> state) (al_people l) = al_people l"
    by (rule om_map_ident) (auto split: option.splits)
  then show ?thesis unfolding forget_pointers_def by simp
qed

lemma drop_dangling_cases:
  "fst (drop_dangling l m) = l \<and> (\<forall>tid \<in> set (al_transition_order l).
       \<forall>t. om_get (al_transitions l) tid = Some t \<longrightarrow> \<not> dangling m t)
   \<or> (\<exists>ds. fst (drop_dangling l m) = drop_ids (\<lambda>tid. tid \<in> set ds) ds l
       \<and> (\<forall>tid \<in> set (al_transition_order l). tid \<notin> set ds \<longrightarrow>
            (\<forall>t. om_get (al_transitions l) tid = Some t \<longrightarrow> \<not> dangling m t)))"
proof -
  let ?ds = "filter (\<lambda>tid. case om_get (al_transitions l) tid of None \<Rightarrow> False | Some t \<Rightarrow> dangling m t)
      (al_transition_order l)"
  have keep: "\<forall>tid \<in> set (al_transition_order l). tid \<notin> set ?ds \<longrightarrow>
      (\<forall>t. om_get (al_transitions l) tid = Some t \<longrightarrow> \<not> dangling m t)" by (auto split: option.splits)
  show ?thesis
  proof (cases "?ds = []")
    case True
    then show ?thesis using keep by (auto simp: drop_dangling_def filter_empty_conv)
  next
    case False
    then have "fst (drop_dangling l m) = drop_ids (\<lambda>tid. tid \<in> set ?ds) ?ds l"
      unfolding drop_dangling_def drop_ids_def Let_def by (simp only: if_False fst_conv)
    then show ?thesis using keep by blast
  qed
qed

lemma filter_length_all: "length (filter P xs) = length xs \<Longrightarrow> \<forall>x \<in> set xs. P x"
  by (metis length_filter_less less_irrefl)

lemma retain_known_cases:
  "fst (retain_known l m) = l \<and> (\<forall>tid \<in> set (al_transition_order l). case om_get (al_transitions l) tid of
       None \<Rightarrow> False | Some t \<Rightarrow> gt_person_id t \<in> set (mf_people_order m) \<and> \<not> dangling m t)
   \<or> (\<exists>ds gone. fst (retain_known l m) = drop_ids gone ds l \<and> (\<forall>tid \<in> set ds. gone tid)
       \<and> (\<forall>tid \<in> set (al_transition_order l). tid \<notin> set ds \<longrightarrow> (case om_get (al_transitions l) tid of
            None \<Rightarrow> False | Some t \<Rightarrow> gt_person_id t \<in> set (mf_people_order m) \<and> \<not> dangling m t)))"
proof -
  let ?P = "\<lambda>tid. case om_get (al_transitions l) tid of None \<Rightarrow> False
      | Some t \<Rightarrow> gt_person_id t \<in> set (mf_people_order m) \<and> \<not> dangling m t"
  let ?retained = "filter ?P (al_transition_order l)"
  let ?ds = "filter (\<lambda>tid. tid \<notin> set ?retained) (al_transition_order l)"
  show ?thesis
  proof (cases "length ?retained = length (al_transition_order l)")
    case True
    then have "\<forall>tid \<in> set (al_transition_order l). ?P tid"
      by (rule filter_length_all)
    then show ?thesis using True by (simp add: retain_known_def Let_def)
  next
    case False
    have "filter (\<lambda>tid. tid \<notin> set ?ds) (al_transition_order l) = ?retained"
      by (rule filter_cong) auto
    then have "fst (retain_known l m) = drop_ids (\<lambda>tid. tid \<notin> set ?retained) ?ds l"
      using False unfolding retain_known_def drop_ids_def Let_def by (simp only: if_False fst_conv)
    moreover have "\<forall>tid \<in> set ?ds. tid \<notin> set ?retained" by simp
    moreover have "\<forall>tid \<in> set (al_transition_order l). tid \<notin> set ?ds \<longrightarrow> ?P tid" by simp
    ultimately show ?thesis by blast
  qed
qed

lemma bound_terminal_cases:
  "fst (bound_terminal l) = l \<or> (\<exists>ds. fst (bound_terminal l) = drop_ids (\<lambda>_. False) ds l
     \<and> (\<forall>pid st tid. om_get (al_people l) pid = Some st \<longrightarrow> pa_active_transition_id st = Some tid \<longrightarrow> tid \<notin> set ds))"
proof -
  let ?referenced = "List.map_filter (pa_active_transition_id \<circ> snd) (al_people l)"
  let ?droppable = "filter (\<lambda>tid. tid \<notin> set ?referenced
      \<and> (case om_get (al_transitions l) tid of None \<Rightarrow> False | Some t \<Rightarrow> status_is_terminal (gt_status t)))
      (al_transition_order l)"
  let ?ds = "take (length ?droppable - ACTIVITY_TERMINAL_TRANSITION_LIMIT) ?droppable"
  have ref: "tid \<in> set ?referenced" if "om_get (al_people l) pid = Some st" "pa_active_transition_id st = Some tid"
    for pid st tid
    using om_get_Some_mem[OF that(1)] that(2) by (force simp: mem_map_filter)
  have "set ?ds \<subseteq> set ?droppable" by (rule set_take_subset)
  then have "tid \<notin> set ?ds" if "om_get (al_people l) pid = Some st" "pa_active_transition_id st = Some tid"
    for pid st tid using ref[OF that] by auto
  moreover have "fst (bound_terminal l) = l \<or> fst (bound_terminal l) = drop_ids (\<lambda>_. False) ?ds l"
    unfolding bound_terminal_def drop_ids_def forget_none Let_def by simp
  ultimately show ?thesis by blast
qed

text \<open>The passes over the people.\<close>

lemma seeded_state:
  "seed_person_state m pid now = Some state \<Longrightarrow> parse_iso_millis now \<noteq> None \<Longrightarrow>
     state_shape pid state \<and> pa_active_transition_id state = None"
  by (auto simp: seed_person_state_def state_shape_def bad_stamp_def)

lemma put_state_shape:
  assumes "activity_shape l" "state_shape pid state" "pointer_ok l pid state"
  shows "activity_shape (l\<lparr>al_people := om_put pid state (al_people l)\<rparr>)"
  using assms by (auto simp: activity_shape_def om_wf_put store_simps pointer_ok_def)

lemma seed_fold:
  assumes "activity_shape l" "parse_iso_millis now \<noteq> None"
  shows "activity_shape (fst (foldl (seed_missing m now) (l, c) ids))
    \<and> (\<forall>pid. om_get (al_people (fst (foldl (seed_missing m now) (l, c) ids))) pid
         = (if om_get (al_people l) pid = None \<and> pid \<in> set ids then seed_person_state m pid now
            else om_get (al_people l) pid))
    \<and> al_organization (fst (foldl (seed_missing m now) (l, c) ids)) = al_organization l
    \<and> al_person_order (fst (foldl (seed_missing m now) (l, c) ids)) = al_person_order l"
  using assms(1)
proof (induction ids arbitrary: l c)
  case (Cons pid ids)
  let ?s = "seed_missing m now (l, c) pid"
  have s: "activity_shape (fst ?s)" "al_organization (fst ?s) = al_organization l"
      "al_person_order (fst ?s) = al_person_order l"
      "om_get (al_people (fst ?s)) p = (if om_get (al_people l) p = None \<and> p = pid then seed_person_state m p now
         else om_get (al_people l) p)" for p
    using Cons.prems seeded_state[of m pid now] assms(2) put_state_shape[OF Cons.prems]
    by (auto simp: seed_missing_def om_has_def store_simps pointer_ok_def split: option.splits)
  from Cons.IH[OF s(1), of "snd ?s"] s(2,3) show ?case by (auto simp: s(4))
qed simp

lemma repair_step:
  assumes "activity_shape l" "parse_iso_millis now \<noteq> None" "validated m"
  shows "let l' = fst (repair_placement m now (l, c) pid) in activity_shape l'
    \<and> al_transitions l' = al_transitions l \<and> al_transition_order l' = al_transition_order l
    \<and> al_organization l' = al_organization l \<and> al_person_order l' = al_person_order l
    \<and> (\<forall>p. om_get (al_people l') p = None \<longleftrightarrow> om_get (al_people l) p = None)
    \<and> (\<forall>p st'. om_get (al_people l') p = Some st' \<longrightarrow> person m p \<noteq> None \<longrightarrow>
         p = pid \<or> (\<exists>st. om_get (al_people l) p = Some st \<and> known_department m (pa_last_department_id st))
         \<longrightarrow> known_department m (pa_last_department_id st'))"
proof (cases "person m pid")
  case (Some p)
  obtain d where "department m (ps_department_id p) = Some d" by (rule validated_person[OF assms(3) Some])
  then have k: "known_department m (ps_department_id p)" by (simp add: known_department_def)
  show ?thesis
  proof (cases "om_get (al_people l) pid")
    case None
    then show ?thesis using Some assms(1) by (auto simp: repair_placement_def Let_def)
  next
    case st: (Some st)
    have "state_shape pid st" "pointer_ok l pid st" using assms(1) st by (auto simp: activity_shape_def)
    then have "activity_shape (l\<lparr>al_people := om_put pid
        (st\<lparr>pa_last_department_id := ps_department_id p, pa_updated_at := now\<rparr>) (al_people l)\<rparr>)"
      using assms(2) by (intro put_state_shape[OF assms(1)]) (simp_all add: state_shape_def pointer_ok_def)
    then show ?thesis using Some st assms(1) k by (auto simp: repair_placement_def Let_def store_simps)
  qed
qed (use assms(1) in \<open>auto simp: repair_placement_def Let_def\<close>)

lemma repair_fold:
  assumes "activity_shape l" "parse_iso_millis now \<noteq> None" "validated m"
  shows "let l' = fst (foldl (repair_placement m now) (l, c) ids) in activity_shape l'
    \<and> al_transitions l' = al_transitions l \<and> al_transition_order l' = al_transition_order l
    \<and> al_organization l' = al_organization l \<and> al_person_order l' = al_person_order l
    \<and> (\<forall>p. om_get (al_people l') p = None \<longleftrightarrow> om_get (al_people l) p = None)
    \<and> (\<forall>p st'. om_get (al_people l') p = Some st' \<longrightarrow> person m p \<noteq> None \<longrightarrow>
         p \<in> set ids \<or> (\<exists>st. om_get (al_people l) p = Some st \<and> known_department m (pa_last_department_id st))
         \<longrightarrow> known_department m (pa_last_department_id st'))"
  using assms(1)
proof (induction ids arbitrary: l c)
  case (Cons pid ids)
  obtain l1 c1 where r: "repair_placement m now (l, c) pid = (l1, c1)" by fastforce
  note step = repair_step[OF Cons.prems assms(2,3), of c pid, unfolded r Let_def fst_conv]
  note rest = Cons.IH[OF conjunct1[OF step], of c1, unfolded Let_def]
  show ?case unfolding foldl_Cons r Let_def
  proof (intro conjI)
    show "activity_shape (fst (foldl (repair_placement m now) (l1, c1) ids))" using rest by blast
    show "\<forall>p st'. om_get (al_people (fst (foldl (repair_placement m now) (l1, c1) ids))) p = Some st' \<longrightarrow>
        person m p \<noteq> None \<longrightarrow> p \<in> set (pid # ids)
          \<or> (\<exists>st. om_get (al_people l) p = Some st \<and> known_department m (pa_last_department_id st)) \<longrightarrow>
        known_department m (pa_last_department_id st')"
    proof (intro allI impI)
      fix p st'
      assume g: "om_get (al_people (fst (foldl (repair_placement m now) (l1, c1) ids))) p = Some st'"
        and k: "person m p \<noteq> None"
        and c: "p \<in> set (pid # ids)
          \<or> (\<exists>st. om_get (al_people l) p = Some st \<and> known_department m (pa_last_department_id st))"
      obtain st1 where st1: "om_get (al_people l1) p = Some st1" using rest g by (metis option.exhaust)
      then have "p \<in> set ids \<or> known_department m (pa_last_department_id st1)"
        using step k c by auto
      then show "known_department m (pa_last_department_id st')" using rest g k st1 by blast
    qed
  qed (use step rest in simp_all)
qed simp

lemma drop_departed_shape:
  assumes "activity_shape l"
  shows "activity_shape (fst (drop_departed l m))"
    and "om_get (al_people (fst (drop_departed l m))) pid
      = (if pid \<in> set (mf_people_order m) then om_get (al_people l) pid else None)"
proof -
  show g: "om_get (al_people (fst (drop_departed l m))) pid
      = (if pid \<in> set (mf_people_order m) then om_get (al_people l) pid else None)" for pid
    by (auto simp: drop_departed_def Let_def store_simps om_keys_iff)
  have wf: "om_wf (al_people (fst (drop_departed l m)))"
    using assms by (simp add: drop_departed_def Let_def activity_shape_def om_wf_del_all)
  have same: "al_transitions (fst (drop_departed l m)) = al_transitions l"
      "al_transition_order (fst (drop_departed l m)) = al_transition_order l"
      "al_schema_version (fst (drop_departed l m)) = al_schema_version l"
      "al_next_transition_sequence (fst (drop_departed l m)) = al_next_transition_sequence l"
    by (simp_all add: drop_departed_def Let_def)
  show "activity_shape (fst (drop_departed l m))"
    using assms wf unfolding activity_shape_def pointer_ok_def same g by (simp split: if_splits)
qed

lemma drop_dangling_shape:
  assumes "activity_shape l"
  shows "let l' = fst (drop_dangling l m) in activity_shape l'
    \<and> al_organization l' = al_organization l \<and> al_person_order l' = al_person_order l
    \<and> (\<forall>p. om_get (al_people l') p = None \<longleftrightarrow> om_get (al_people l) p = None)
    \<and> (\<forall>tid t. om_get (al_transitions l') tid = Some t \<longrightarrow> \<not> dangling m t)"
proof -
  have order: "tid \<in> set (al_transition_order l)" if "om_get (al_transitions l) tid = Some t" for tid t
    using assms that by (auto simp: activity_shape_def)
  from drop_dangling_cases[of l m] show ?thesis
  proof (elim disjE exE conjE)
    assume "fst (drop_dangling l m) = l" "\<forall>tid \<in> set (al_transition_order l).
        \<forall>t. om_get (al_transitions l) tid = Some t \<longrightarrow> \<not> dangling m t"
    then show ?thesis using assms order by (simp add: Let_def) blast
  next
    fix ds
    assume d: "fst (drop_dangling l m) = drop_ids (\<lambda>tid. tid \<in> set ds) ds l"
      and k: "\<forall>tid \<in> set (al_transition_order l). tid \<notin> set ds \<longrightarrow>
        (\<forall>t. om_get (al_transitions l) tid = Some t \<longrightarrow> \<not> dangling m t)"
    have "activity_shape (drop_ids (\<lambda>tid. tid \<in> set ds) ds l)" by (rule drop_ids_shape[OF assms])
    moreover have "\<not> dangling m t" if "om_get (al_transitions l) tid = Some t" "tid \<notin> set ds" for tid t
      using k order[OF that(1)] that by blast
    ultimately show ?thesis unfolding Let_def d by (simp add: drop_ids_fields)
  qed
qed

lemma retain_known_shape:
  assumes "activity_shape l"
  shows "let l' = fst (retain_known l m) in activity_shape l'
    \<and> al_organization l' = al_organization l \<and> al_person_order l' = al_person_order l
    \<and> (\<forall>p st'. om_get (al_people l') p = Some st' \<longrightarrow>
         (\<exists>st. om_get (al_people l) p = Some st \<and> pa_last_department_id st' = pa_last_department_id st))
    \<and> (\<forall>p. om_get (al_people l') p = None \<longleftrightarrow> om_get (al_people l) p = None)
    \<and> (\<forall>tid t. om_get (al_transitions l') tid = Some t \<longrightarrow> gt_person_id t \<in> set (mf_people_order m) \<and> \<not> dangling m t)"
proof -
  have order: "tid \<in> set (al_transition_order l)" if "om_get (al_transitions l) tid = Some t" for tid t
    using assms that by (auto simp: activity_shape_def)
  from retain_known_cases[of l m] show ?thesis
  proof (elim disjE exE conjE)
    assume "fst (retain_known l m) = l" "\<forall>tid \<in> set (al_transition_order l). case om_get (al_transitions l) tid of
       None \<Rightarrow> False | Some t \<Rightarrow> gt_person_id t \<in> set (mf_people_order m) \<and> \<not> dangling m t"
    then show ?thesis using assms order by (fastforce simp: Let_def)
  next
    fix ds gone
    assume d: "fst (retain_known l m) = drop_ids gone ds l" and g: "\<forall>tid \<in> set ds. gone tid"
      and k: "\<forall>tid \<in> set (al_transition_order l). tid \<notin> set ds \<longrightarrow> (case om_get (al_transitions l) tid of
            None \<Rightarrow> False | Some t \<Rightarrow> gt_person_id t \<in> set (mf_people_order m) \<and> \<not> dangling m t)"
    have s: "activity_shape (drop_ids gone ds l)" by (rule drop_ids_shape[OF assms]) (use g in blast)
    have t: "gt_person_id t \<in> set (mf_people_order m) \<and> \<not> dangling m t"
      if "om_get (al_transitions l) tid = Some t" "tid \<notin> set ds" for tid t
      using k order[OF that(1)] that by fastforce
    show ?thesis unfolding Let_def d
      using s t by (auto simp: drop_ids_fields split: option.splits if_splits)
  qed
qed

lemma bound_terminal_shape:
  assumes "activity_shape l"
  shows "let l' = fst (bound_terminal l) in activity_shape l' \<and> (activity_fits l m \<longrightarrow> activity_fits l' m)
    \<and> al_organization l' = al_organization l \<and> al_person_order l' = al_person_order l
    \<and> (\<forall>p. om_get (al_people l') p = om_get (al_people l) p)"
  using bound_terminal_cases[of l]
proof (elim disjE exE conjE)
  assume "fst (bound_terminal l) = l"
  then show ?thesis using assms by (simp add: Let_def)
next
  fix ds
  assume d: "fst (bound_terminal l) = drop_ids (\<lambda>_. False) ds l"
    and k: "\<forall>pid st tid. om_get (al_people l) pid = Some st \<longrightarrow> pa_active_transition_id st = Some tid \<longrightarrow> tid \<notin> set ds"
  have s: "activity_shape (drop_ids (\<lambda>_. False) ds l)"
    by (rule drop_ids_shape[OF assms]) (use k in blast)
  have p: "om_get (al_people (drop_ids (\<lambda>_. False) ds l)) p = om_get (al_people l) p" for p
    by (cases "om_get (al_people l) p") (auto simp: drop_ids_fields split: option.splits)
  then have "activity_fits l m \<longrightarrow> activity_fits (drop_ids (\<lambda>_. False) ds l) m"
    by (auto simp: activity_fits_def drop_ids_fields(2,6) split: if_splits)
  then show ?thesis unfolding Let_def d using s p by (simp add: drop_ids_fields(2,3))
qed

lemma reconcile_people_ok:
  assumes "validated m" "activity_shape l" "al_organization l = mf_slug m" "parse_iso_millis now \<noteq> None"
  shows "activity_ok (fst (reconcile_people l m now)) m"
    and "al_person_order (fst (reconcile_people l m now)) = mf_people_order m"
proof -
  let ?ids = "mf_people_order m"
  have roster: "pid \<in> set ?ids \<longleftrightarrow> person m pid \<noteq> None" for pid using validated_facts(6)[OF assms(1)] by auto
  obtain l1 c1 where r1: "adopt_order l m = (l1, c1)" by fastforce
  have s1: "activity_shape l1" "al_organization l1 = mf_slug m" "al_person_order l1 = ?ids"
    using assms(2,3) r1
    by (auto simp: adopt_order_def activity_shape_def pointer_ok_def split: if_splits)
  obtain l2 c2 where r2: "foldl (seed_missing m now) (l1, c1) ?ids = (l2, c2)" by fastforce
  note s2 = seed_fold[OF s1(1) assms(4), of m c1 ?ids, unfolded r2 fst_conv]
  have full: "om_get (al_people l2) pid \<noteq> None" if "pid \<in> set ?ids" for pid
  proof -
    have "seed_person_state m pid now \<noteq> None" using that roster by (simp add: seed_person_state_def)
    then show ?thesis using s2 that by simp
  qed
  obtain l3 c3 where r3: "drop_departed l2 m = (l3, c3)" by fastforce
  have s3: "activity_shape l3" "al_organization l3 = mf_slug m" "al_person_order l3 = ?ids"
    using drop_departed_shape(1)[of l2 m] s2 s1(2,3) r3 by (auto simp: drop_departed_def Let_def)
  have keys3: "om_get (al_people l3) pid \<noteq> None \<longleftrightarrow> pid \<in> set ?ids" for pid
    using drop_departed_shape(2)[of l2 m pid] full s2 r3 by auto
  obtain ld cd where rd: "drop_dangling l3 m = (ld, cd)" by fastforce
  note sd = drop_dangling_shape[OF s3(1), of m, unfolded rd Let_def fst_conv]
  obtain l4 c4 where r4: "repair_dangling_departments l3 m now = (l4, c4)" by fastforce
  note s4 = repair_fold[OF conjunct1[OF sd] assms(4,1), of cd ?ids, folded rd,
      folded repair_dangling_departments_def, unfolded r4 Let_def fst_conv]
  have placed: "known_department m (pa_last_department_id st)" if g: "om_get (al_people l4) p = Some st" for p st
  proof -
    have "om_get (al_people l3) p \<noteq> None" using s4 sd g by (metis option.distinct(1))
    then have "p \<in> set ?ids" using keys3 by blast
    moreover from this have "person m p \<noteq> None" by (simp add: roster)
    ultimately show ?thesis using s4 g by blast
  qed
  obtain l5 c5 where r5: "retain_known l4 m = (l5, c5)" by fastforce
  note s5 = retain_known_shape[OF conjunct1[OF s4], of m, unfolded r5 Let_def fst_conv]
  have keys5: "om_get (al_people l5) pid \<noteq> None \<longleftrightarrow> pid \<in> set ?ids" for pid
    using s5 s4 sd keys3[of pid] by metis
  have org5: "al_organization l5 = mf_slug m" using s5 s4 sd s3(2) by simp
  have fits5: "activity_fits l5 m"
    unfolding activity_fits_def
  proof (intro conjI allI impI)
    show "al_organization l5 = mf_slug m" by (rule org5)
    fix pid state assume g: "om_get (al_people l5) pid = Some state"
    then have "om_get (al_people l5) pid \<noteq> None" by simp
    then show "person m pid \<noteq> None" using keys5 roster by blast
    obtain st where "om_get (al_people l4) pid = Some st" "pa_last_department_id state = pa_last_department_id st"
      using s5 g by blast
    then show "known_department m (pa_last_department_id state)" using placed by simp
  next
    fix tid t assume "om_get (al_transitions l5) tid = Some t"
    then have "gt_person_id t \<in> set ?ids \<and> \<not> dangling m t" using s5 by blast
    then show "person m (gt_person_id t) \<noteq> None" "\<not> dangling m t" using roster by blast+
  qed
  obtain l6 c6 where r6: "bound_terminal l5 = (l6, c6)" by fastforce
  note s6 = bound_terminal_shape[OF conjunct1[OF s5], of m, unfolded r6 Let_def fst_conv]
  obtain l7 c7 where r7: "sweep_expired_transitions l6 now = (l7, c7)" by fastforce
  note s7 = sweep_shape[OF conjunct1[OF s6], where now = now, unfolded r7 fst_conv]
  have fin: "fst (reconcile_people l m now) = l7"
    unfolding reconcile_people_def by (simp only: r1 r2 r3 r4 r5 r6 r7 Let_def prod.case fst_conv)
  have order: "al_person_order l7 = ?ids" using s7(3) s6 s5 s4 sd s3(3) by simp
  then show "al_person_order (fst (reconcile_people l m now)) = ?ids" by (simp only: fin)
  have "distinct ?ids" using validated_order[OF assms(1)] by blast
  moreover have "om_get (al_people l7) pid \<noteq> None \<longleftrightarrow> pid \<in> set ?ids" for pid
    using s7(4)[of pid] s6 keys5[of pid] by metis
  ultimately have "order_exact (al_person_order l7) (al_people l7)"
    unfolding order_exact_def order by blast
  then show "activity_ok (fst (reconcile_people l m now)) m"
    unfolding activity_ok_def fin using s7(1,2) s6 fits5 by blast
qed

text \<open>
  C34. A restructuring never strands the activity ledger. Take a ledger that was valid against any former
  state of the organization (same slug), and a validated manifest of it now, whatever people and departments
  came and went in between: at any readable instant the structural repair gives a ledger that validates
  against the new manifest and lists exactly its people in its order.
\<close>

theorem restructure_never_strands:
  assumes "om_wf (al_people l)" "om_wf (al_transitions l)" "validate_activity l m0 = Inr ()"
    and "validated m" "mf_slug m = mf_slug m0" "parse_iso_millis now \<noteq> None"
  shows "validate_activity (fst (reconcile_people l m now)) m = Inr ()
    \<and> al_person_order (fst (reconcile_people l m now)) = mf_people_order m"
proof -
  have "activity_ok l m0" using validate_activity_iff[OF assms(1,2)] assms(3) by blast
  then have l: "activity_shape l" "al_organization l = mf_slug m"
    using assms(5) by (auto simp: activity_ok_def activity_fits_def)
  note ok = reconcile_people_ok[OF assms(4) l assms(6)]
  have "om_wf (al_people (fst (reconcile_people l m now)))" "om_wf (al_transitions (fst (reconcile_people l m now)))"
    using ok(1) by (auto simp: activity_ok_def activity_shape_def)
  from validate_activity_iff[OF this] ok show ?thesis by blast
qed

text \<open>The id a new transition gets carries its sequence number.\<close>

lemma split_on_prefix: "sep \<notin> set p \<Longrightarrow> split_on sep (p @ sep # rest) = p # split_on sep rest"
  by (induction p) auto

lemma parse_u64_show_nat: "n \<le> u64_max \<Longrightarrow> parse_u64 (show_nat n) = Some n"
proof -
  assume "n \<le> u64_max"
  obtain c cs where s: "show_nat n = c # cs" by (cases "show_nat n") auto
  then have "c \<noteq> CHR ''+''" using digits_first_not_sign[OF show_nat_digits[of n]] by blast
  moreover have "parse_digits (show_nat n) = Some n" using parse_digits_zeros[of 0 n] by simp
  ultimately show ?thesis using s \<open>n \<le> u64_max\<close> by (simp add: parse_u64_def)
qed

lemma new_id_sequence:
  "n \<le> u64_max \<Longrightarrow> transition_sequence (''transition:'' @ show_nat n @ '':'' @ rest) = Some n"
  using split_on_prefix[OF colon_not_digit[OF show_nat_digits], of n rest]
    strip_prefix_append[of "''transition:''" "show_nat n @ '':'' @ rest"]
  unfolding transition_sequence_def by (simp add: parse_u64_show_nat)

text \<open>A ledger for the witnesses: nobody desired, and one benched head's transfer in flight.\<close>

definition sample_state :: "string \<Rightarrow> string \<Rightarrow> string option \<Rightarrow> person_activity_state" where
  "sample_state pid did tid = \<lparr>pa_person_id = pid, pa_last_employment_state = Employment_Active,
     pa_last_department_id = did, pa_last_operational = True, pa_last_desired_active = True,
     pa_idle_since = None, pa_agent_quiet_at = None, pa_agent_active_at = None, pa_operator_wake_at = None,
     pa_active_transition_id = tid, pa_updated_at = ''2026-01-01T00:00:00.000Z''\<rparr>"

definition sample_transition :: graceful_transition where
  "sample_transition = \<lparr>gt_id = ''transition:1:worker:park'', gt_person_id = ''worker'', gt_action = Park,
     gt_reason = ''leave'', gt_intent_id = None, gt_placement_department_id = ''eng'', gt_to_department_id = None,
     gt_status = AwaitingHandoff, gt_requested_at = ''2026-01-01T00:00:00.000Z'',
     gt_handoff_deadline_at = ''2026-01-01T00:02:00.000Z'', gt_applied_at = None, gt_cancelled_at = None,
     gt_forced_at = None, gt_abandoned_at = None\<rparr>"

definition sample_ledger :: activity_ledger where
  "sample_ledger = \<lparr>al_schema_version = 1, al_organization = ''s'', al_person_order = [''chief'', ''head'', ''worker''],
     al_people = [(''chief'', sample_state ''chief'' ''executive'' None), (''head'', sample_state ''head'' ''eng'' None),
       (''worker'', sample_state ''worker'' ''eng'' (Some ''transition:1:worker:park''))],
     al_transition_order = [''transition:1:worker:park''],
     al_transitions = [(''transition:1:worker:park'', sample_transition)],
     al_next_transition_sequence = 2, al_automatic_park_cursor = Some 0,
     al_created_at = ''2026-01-01T00:00:00.000Z'', al_updated_at = ''2026-01-01T00:00:00.000Z''\<rparr>"

lemma sample_terms:
  "check_terms (sample_manifest state) ''transition:1:worker:park'' sample_transition = Inr ()"
proof -
  have "trim ''leave'' \<noteq> []" "parse_iso_millis ''2026-01-01T00:00:00.000Z'' = Some 1767225600000"
     "parse_iso_millis ''2026-01-01T00:02:00.000Z'' = Some 1767225720000"
    by code_simp+
  moreover have "char_count ''leave'' \<le> TRANSITION_MAX_REASON_CHARACTERS"
    by (simp add: TRANSITION_MAX_REASON_CHARACTERS_def char_count_def is_continuation_def)
  ultimately show ?thesis
    by (simp add: check_terms_def sample_transition_def needs_target_def sample_department_eng)
qed

lemma sample_activity:
  "om_wf (al_people sample_ledger)" "om_wf (al_transitions sample_ledger)"
  "validate_activity sample_ledger (sample_manifest state :: unit organization_manifest) = Inr ()"
proof -
  let ?m = "sample_manifest state :: unit organization_manifest"
  show "om_wf (al_people sample_ledger)" "om_wf (al_transitions sample_ledger)"
    unfolding sample_ledger_def by code_simp+
  have orders: "exact_order (al_person_order sample_ledger) (al_people sample_ledger) ''person'' = Inr ()"
      "exact_order (al_transition_order sample_ledger) (al_transitions sample_ledger) ''transition'' = Inr ()"
    unfolding sample_ledger_def by code_simp+
  have "parse_iso_millis ''2026-01-01T00:00:00.000Z'' = Some 1767225600000" by code_simp
  then have people: "res_fold (check_activity_person sample_ledger ?m) () (al_person_order sample_ledger) = Inr ()"
    by (simp add: check_activity_person_def sample_ledger_def sample_state_def sample_transition_def
        bad_stamp_def sample_manifest_def sample_department_def person_def department_def om_get_def)
  have "show_nat 1 = ''1''" by code_simp
  then have "transition_sequence ''transition:1:worker:park'' = Some 1"
    using new_id_sequence[of 1 "''worker:park''"] by (simp add: u64_max_def)
  moreover have "check_stamps ''transition:1:worker:park'' sample_transition = Inr ()"
    unfolding sample_transition_def by code_simp
  moreover have "check_terms ?m ''transition:1:worker:park'' sample_transition = Inr ()" by (rule sample_terms)
  moreover have "person ?m ''worker'' \<noteq> None" by (simp add: person_def sample_manifest_def om_get_def)
  ultimately have "check_transition sample_ledger ?m 0 ''transition:1:worker:park'' = Inr 1"
    by (simp add: check_transition_def sample_ledger_def om_get_def)
      (simp add: sample_transition_def)
  then have "res_fold (check_transition sample_ledger ?m) 0 (al_transition_order sample_ledger) = Inr 1"
    by (simp add: sample_ledger_def)
  then show "validate_activity sample_ledger ?m = Inr ()"
    using orders people
    by (simp add: validate_activity_def) (simp add: sample_ledger_def sample_manifest_def ACTIVITY_SCHEMA_VERSION_def)
qed

theorem restructure_never_strands_witness:
  "validate_activity (fst (reconcile_people sample_ledger (sample_manifest Paused :: unit organization_manifest)
     ''2026-01-02T00:00:00.000Z'')) (sample_manifest Paused :: unit organization_manifest) = Inr ()"
proof -
  have "mf_slug (sample_manifest Paused :: unit organization_manifest)
      = mf_slug (sample_manifest Unit_Active :: unit organization_manifest)"
    by (simp add: sample_manifest_def)
  moreover have "parse_iso_millis ''2026-01-02T00:00:00.000Z'' \<noteq> None" by code_simp
  ultimately show ?thesis
    using restructure_never_strands[OF sample_activity(1,2) sample_activity(3)[of Unit_Active] sample_validated] by blast
qed

end
