(* ===== verification/Activity_Store.thy ===== *)
theory Activity_Store
  imports Activity_Repair Document_Slot
begin

text \<open>
  The activity ledger as a stored document and the commands on it (\<open>chiefd-core/src/store/activity.rs\<close>):
  reading, the one transaction shape \<open>mutate\<close> (read, repair the structure, validate, apply, validate, write),
  and the commands that begin, settle, abandon and release transitions and note an agent's activity.

  \<open>serde_json\<close> and the derived codecs are parameters: text to \<open>Value\<close>, \<open>Value\<close> to ledger and back, ledger to
  text. The reader's own check of unmodelled keys is modelled. The supervision ledger the context carries is
  read by none of these closures and is left out.
\<close>

section \<open>Reading\<close>

definition ACTIVITY_STORE_NAME :: string where "ACTIVITY_STORE_NAME = ''activity''"

datatype json =
    JNull
  | JBool bool
  | JNumber string
  | JString string
  | JArray "json list"
  | JObject "(string \<times> json) list"

lemma size_entry: "(a, b) \<in> set i \<Longrightarrow> size b \<le> size_list (size_prod (\<lambda>_. 0) size) i"
  by (induction i) auto

function collect_unknown_leaves :: "json \<Rightarrow> json \<Rightarrow> string list" where
  "collect_unknown_leaves incoming modeled = (case (incoming, modeled) of
     (JObject i, JObject m) \<Rightarrow>
       concat (map (\<lambda>e. case om_get m (fst e) of
         None \<Rightarrow> [fst e] | Some mv \<Rightarrow> collect_unknown_leaves (snd e) mv) i)
   | (JArray i, JArray m) \<Rightarrow> concat (map (\<lambda>p. collect_unknown_leaves (fst p) (snd p)) (zip i m))
   | _ \<Rightarrow> [])"
  by pat_completeness auto
termination
  by (relation "measure (size \<circ> fst)")
    (auto dest!: set_zip_leftD intro: size_list_estimation' size_entry simp: less_Suc_eq_le)

declare collect_unknown_leaves.simps [simp del]

definition LEGACY_READ_ALLOWLIST :: "string list" where
  "LEGACY_READ_ALLOWLIST = [''automaticParkRetryAfter'', ''lastPaneDepartmentId'', ''fromPaneDepartmentId'']"

record 'b activity_json =
  aj_parse :: "'b \<Rightarrow> json option"
  aj_from :: "json \<Rightarrow> activity_ledger option"
  aj_to :: "activity_ledger \<Rightarrow> json option"
  aj_enc :: "activity_ledger \<Rightarrow> string + 'b"
  aj_dbg :: "refusal \<Rightarrow> string"

definition parse_ledger_tolerating_legacy :: "'b activity_json \<Rightarrow> 'b \<Rightarrow> activity_ledger option" where
  "parse_ledger_tolerating_legacy J body = (case aj_parse J body of
     None \<Rightarrow> None
   | Some incoming \<Rightarrow>
       (case aj_from J incoming of
          None \<Rightarrow> None
        | Some ledger \<Rightarrow>
            (case aj_to J ledger of
               None \<Rightarrow> None
             | Some modeled \<Rightarrow>
                 if list_ex (\<lambda>leaf. leaf \<notin> set LEGACY_READ_ALLOWLIST) (collect_unknown_leaves incoming modeled)
                 then None else Some ledger)))"

definition did_not_parse :: "string \<Rightarrow> chiefd_error" where
  "did_not_parse what = Corrupt ACTIVITY_STORE_NAME (CHR 0x22 # ''the '' @ what @ '' body did not parse'' @ [CHR 0x22])"

definition activity_parse :: "'b activity_json \<Rightarrow> string \<Rightarrow> 'b \<Rightarrow> chiefd_error + activity_ledger" where
  "activity_parse J what body = (case parse_ledger_tolerating_legacy J body of
     None \<Rightarrow> Inl (did_not_parse what) | Some ledger \<Rightarrow> Inr ledger)"

definition activity_checked :: "'b activity_json \<Rightarrow> activity_ledger \<Rightarrow> 'v organization_manifest \<Rightarrow> chiefd_error + unit" where
  "activity_checked J l m =
     map_err (\<lambda>refusal. StoreFailure ACTIVITY_STORE_NAME (aj_dbg J refusal)) (validate_activity l m)"

definition activity_read ::
  "'b activity_json \<Rightarrow> 'b doc_slot \<Rightarrow> 'v organization_manifest \<Rightarrow> chiefd_error + activity_ledger" where
  "activity_read J l m = (case slot_body l of
     None \<Rightarrow> Inl (Absent ACTIVITY_STORE_NAME)
   | Some body \<Rightarrow>
       res_bind (activity_parse J ''activity'' body) (\<lambda>ledger.
         let repaired = fst (repair_dangling_departments ledger m (iso_millis (slot_now l)))
         in res_bind (activity_checked J repaired m) (\<lambda>_. Inr repaired)))"

definition activity_put :: "'b activity_json \<Rightarrow> activity_ledger \<Rightarrow> 'b doc_slot \<Rightarrow> refusal + 'b doc_slot" where
  "activity_put J ledger l =
     res_bind (map_err (\<lambda>error. refusal_new LEDGER_UNSERIALIZABLE (''cannot encode the activity ledger: '' @ error))
       (aj_enc J ledger)) (\<lambda>encoded. Inr (slot_put encoded l))"

definition activity_seed ::
  "'b activity_json \<Rightarrow> 'b doc_slot \<Rightarrow> 'v organization_manifest \<Rightarrow> chiefd_error + ('b doc_slot \<times> activity_ledger)" where
  "activity_seed J l m =
     (let ledger = activity_initial m (iso_millis (slot_now l))
      in res_bind (map_err Refused (validate_activity ledger m)) (\<lambda>_.
         res_bind (map_err Refused (activity_put J ledger l)) (\<lambda>l'. Inr (l', ledger))))"

definition read_for_mutation :: "'b activity_json \<Rightarrow> 'b doc_slot \<Rightarrow> chiefd_error + activity_ledger" where
  "read_for_mutation J l = (case slot_body l of
     None \<Rightarrow> Inl (Absent ACTIVITY_STORE_NAME)
   | Some body \<Rightarrow> activity_parse J ''activity'' body)"

section \<open>The transaction shape\<close>

type_synonym 'r activity_closure = "activity_ledger \<Rightarrow> string \<Rightarrow> chiefd_error + (activity_ledger \<times> 'r)"

definition activity_mutate ::
  "'b activity_json \<Rightarrow> 'v organization_manifest \<Rightarrow> 'r activity_closure \<Rightarrow> 'b doc_slot
     \<Rightarrow> chiefd_error + ('b doc_slot \<times> 'r)" where
  "activity_mutate J m f l =
     (let at = iso_millis (slot_now l)
      in res_bind (read_for_mutation J l) (\<lambda>current.
         let rec = reconcile_people current m at
         in res_bind (activity_checked J (fst rec) m) (\<lambda>_.
            res_bind (f (fst rec) at) (\<lambda>(draft, result).
              if snd rec \<or> draft \<noteq> current
              then (let final = draft\<lparr>al_updated_at := at\<rparr>
                    in res_bind (map_err Refused (validate_activity final m)) (\<lambda>_.
                       res_bind (map_err Refused (activity_put J final l)) (\<lambda>l'. Inr (l', result))))
              else Inr (l, result)))))"

definition reconcile_structural ::
  "'b activity_json \<Rightarrow> 'v organization_manifest \<Rightarrow> 'b doc_slot \<Rightarrow> chiefd_error + ('b doc_slot \<times> bool)" where
  "reconcile_structural J m l =
     res_bind (read_for_mutation J l) (\<lambda>current.
       let at = iso_millis (slot_now l); draft = fst (reconcile_people current m at)
       in if draft = current then res_bind (activity_checked J draft m) (\<lambda>_. Inr (l, False))
          else (let final = draft\<lparr>al_updated_at := at\<rparr>
                in res_bind (activity_checked J final m) (\<lambda>_.
                   res_bind (map_err Refused (activity_put J final l)) (\<lambda>l'. Inr (l', True)))))"

definition clear_orphaned_terminal_transitions ::
  "'b activity_json \<Rightarrow> 'v organization_manifest \<Rightarrow> 'b doc_slot \<Rightarrow> chiefd_error + ('b doc_slot \<times> bool)" where
  "clear_orphaned_terminal_transitions J m l =
     res_bind (activity_read J l m) (\<lambda>ledger.
       let orphaned = List.map_filter (\<lambda>(pid, state). case pa_active_transition_id state of
              None \<Rightarrow> None
            | Some tid \<Rightarrow> (case om_get (al_transitions ledger) tid of
                  None \<Rightarrow> None | Some t \<Rightarrow> if status_is_terminal (gt_status t) then Some pid else None)) (al_people ledger)
       in if orphaned = [] then Inr (l, False)
          else (let final = ledger\<lparr>al_people := foldl (\<lambda>people pid.
                      om_adjust pid (\<lambda>state. state\<lparr>pa_active_transition_id := None\<rparr>) people) (al_people ledger) orphaned,
                    al_updated_at := iso_millis (slot_now l)\<rparr>
                in res_bind (map_err Refused (activity_put J final l)) (\<lambda>l'. Inr (l', True))))"

definition activity_clear ::
  "'b activity_json \<Rightarrow> 'v organization_manifest \<Rightarrow> 'b doc_slot \<Rightarrow> chiefd_error + ('b doc_slot \<times> bool)" where
  "activity_clear J m l =
     (if slot_body l \<noteq> None then res_bind (activity_read J l m) (\<lambda>_. Inr (slot_clear l)) else Inr (slot_clear l))"

definition is_activity_store :: "string \<Rightarrow> bool" where
  "is_activity_store store \<longleftrightarrow> store = ACTIVITY_STORE_NAME"

definition activity_create_if_absent ::
  "'b activity_json \<Rightarrow> 'b \<Rightarrow> 'b doc_slot \<Rightarrow> chiefd_error + ('b doc_slot \<times> bool)" where
  "activity_create_if_absent J body l =
     (if slot_body l \<noteq> None then Inr (l, False)
      else res_bind (activity_parse J ''offered'' body) (\<lambda>ledger.
           res_bind (map_err Refused (activity_put J ledger l)) (\<lambda>l'. Inr (l', True))))"

definition ingest_external_document ::
  "'b activity_json \<Rightarrow> 'v organization_manifest \<Rightarrow> 'b \<Rightarrow> 'b doc_slot \<Rightarrow> chiefd_error + ('b doc_slot \<times> unit)" where
  "ingest_external_document J m body l =
     (let at = iso_millis (slot_now l)
      in res_bind (activity_parse J ''offered'' body) (\<lambda>incoming.
         res_bind (read_for_mutation J l) (\<lambda>_.
           let final = (fst (reconcile_people incoming m at))\<lparr>al_updated_at := at\<rparr>
           in res_bind (map_err Refused (validate_activity final m)) (\<lambda>_.
              res_bind (map_err Refused (activity_put J final l)) (\<lambda>l'. Inr (l', ()))))))"

section \<open>The commands, on the repaired ledger\<close>

definition required :: "string \<Rightarrow> string \<Rightarrow> nat \<Rightarrow> chiefd_error + string" where
  "required value label maximum =
     (let trimmed = trim value
      in if trimmed = [] then Inl (refused INVALID_INPUT (label @ '' is required''))
         else if maximum < char_count trimmed
         then Inl (refused INVALID_INPUT (label @ '' must be at most '' @ show_nat maximum @ '' characters''))
         else Inr trimmed)"

record begin_transition_input =
  bt_person_id :: string
  bt_action :: transition_action
  bt_reason :: string
  bt_to_department_id :: "string option"
  bt_intent_id :: "string option"

definition begin_target :: "begin_transition_input \<Rightarrow> string option" where
  "begin_target input = (case bt_to_department_id input of
     None \<Rightarrow> None | Some value \<Rightarrow> if trim value = [] then None else Some (trim value))"

definition begin_spec :: "begin_transition_input \<Rightarrow> chiefd_error + transition_spec" where
  "begin_spec input =
     res_bind (case bt_intent_id input of
         None \<Rightarrow> Inr None
       | Some value \<Rightarrow> res_bind (required value ''transition.intentId'' 300) (\<lambda>i. Inr (Some i))) (\<lambda>intent_id.
     res_bind (required (bt_reason input) ''transition.reason'' TRANSITION_MAX_REASON_CHARACTERS) (\<lambda>reason.
       Inr \<lparr>sp_person_id = bt_person_id input, sp_action = bt_action input, sp_reason = reason,
            sp_to_department_id = begin_target input, sp_intent_id = intent_id\<rparr>))"

definition begin_transition_in ::
  "'v organization_manifest \<Rightarrow> begin_transition_input \<Rightarrow> graceful_transition activity_closure" where
  "begin_transition_in m input draft at =
     (if person m (bt_person_id input) = None then Inl (unknown_person (bt_person_id input))
      else (case om_get (al_people draft) (bt_person_id input) of
         None \<Rightarrow> Inl (unknown_person (bt_person_id input))
       | Some state \<Rightarrow>
          (let target = begin_target input
           in if needs_target (bt_action input)
                \<and> \<not> (case target of None \<Rightarrow> False | Some unit_id \<Rightarrow> known_department m unit_id)
              then Inl (refused INVALID_INPUT (action_as_str (bt_action input)
                     @ '' transition requires a known target department''))
              else if \<not> needs_target (bt_action input) \<and> target \<noteq> None
              then Inl (refused INVALID_INPUT (action_as_str (bt_action input)
                     @ '' transition cannot have a target department''))
              else if target = Some (pa_last_department_id state)
              then Inl (refused INVALID_INPUT (''Person '' @ quoted (bt_person_id input)
                     @ '' is already assigned to '' @ quoted (pa_last_department_id state)))
              else res_bind (begin_spec input) (\<lambda>spec. ensure_matching_transition draft spec at))))"

definition settle_applied_move_in :: "'v organization_manifest \<Rightarrow> string \<Rightarrow> bool activity_closure" where
  "settle_applied_move_in m person_id draft at = (case person m person_id of
     None \<Rightarrow> Inl (unknown_person person_id)
   | Some p \<Rightarrow>
       if \<not> om_has (al_people draft) person_id then Inl (unknown_person person_id)
       else (case active_transition draft person_id of
          None \<Rightarrow> Inr (draft, False)
        | Some current \<Rightarrow>
            if is_removal (gt_action current) \<or> \<not> status_is_released (gt_status current) then Inr (draft, False)
            else Inr (draft
              \<lparr>al_transitions := om_adjust (gt_id current) (\<lambda>t. if gt_status t \<noteq> Applied
                   then t\<lparr>gt_status := Applied, gt_applied_at := Some at\<rparr> else t) (al_transitions draft),
               al_people := om_adjust person_id (\<lambda>state. state\<lparr>pa_active_transition_id := None,
                   pa_last_employment_state := ps_employment_state p,
                   pa_last_department_id := ps_department_id p,
                   pa_last_operational := organization_unit_is_active m (ps_department_id p),
                   pa_updated_at := at\<rparr>) (al_people draft)\<rparr>, True)))"

definition owned_transition ::
  "activity_ledger \<Rightarrow> string \<Rightarrow> string \<Rightarrow> chiefd_error + graceful_transition" where
  "owned_transition draft transition_id person_id = (case om_get (al_transitions draft) transition_id of
     None \<Rightarrow> Inl (refused UNKNOWN_TRANSITION (''Unknown graceful transition '' @ quoted transition_id
               @ '' for '' @ quoted person_id))
   | Some t \<Rightarrow>
       if gt_person_id t \<noteq> person_id
       then Inl (refused UNKNOWN_TRANSITION (''Unknown graceful transition '' @ quoted transition_id
               @ '' for '' @ quoted person_id))
       else Inr t)"

definition abandon_transition_in :: "string \<Rightarrow> string \<Rightarrow> string \<Rightarrow> graceful_transition activity_closure" where
  "abandon_transition_in transition_id person_id reason draft at =
     res_bind (owned_transition draft transition_id person_id) (\<lambda>current.
       if status_is_released (gt_status current)
       then Inl (refused TRANSITION_RELEASED (''Graceful transition '' @ quoted transition_id
              @ '' has been released and cannot be abandoned''))
       else if gt_status current = Forced
       then Inl (refused TRANSITION_TERMINAL (''Graceful transition '' @ quoted transition_id
              @ '' was already force-completed without a release and cannot be abandoned''))
       else if gt_status current = Cancelled
       then Inl (refused TRANSITION_TERMINAL (''Graceful transition '' @ quoted transition_id @ '' is already cancelled''))
       else (let merged = take_chars TRANSITION_MAX_REASON_CHARACTERS (trim (gt_reason current @ '' '' @ reason));
                 t = current\<lparr>gt_status := Cancelled, gt_cancelled_at := Some at, gt_abandoned_at := Some at,
                       gt_reason := merged\<rparr>
             in Inr (draft
               \<lparr>al_transitions := om_put transition_id t (al_transitions draft),
                al_people := om_adjust person_id (\<lambda>state. if pa_active_transition_id state = Some transition_id
                    then state\<lparr>pa_active_transition_id := None\<rparr> else state) (al_people draft)\<rparr>, t)))"

definition release_in :: "string \<Rightarrow> string \<Rightarrow> graceful_transition activity_closure" where
  "release_in transition_id person_id draft at =
     res_bind (owned_transition draft transition_id person_id) (\<lambda>current.
       if status_is_terminal (gt_status current)
       then Inl (refused TRANSITION_TERMINAL (''Graceful transition '' @ quoted transition_id @ '' is already ''
              @ status_as_str (gt_status current)))
       else (let t = current\<lparr>gt_status := Ready\<rparr>
             in Inr (draft\<lparr>al_transitions := om_put transition_id t (al_transitions draft)\<rparr>, t)))"

definition note_agent_activity_in :: "string \<Rightarrow> bool \<Rightarrow> bool activity_closure" where
  "note_agent_activity_in person_id working draft at =
     (if \<not> om_has (al_people draft) person_id
      then Inl (refused UNKNOWN_PERSON (''Unknown person '' @ quoted person_id @ '' for an agent activity beat''))
      else
        (let cancelled = (if working then (case active_transition draft person_id of
               None \<Rightarrow> None
             | Some t \<Rightarrow> if is_routine_idle_park t \<and> status_is_pending (gt_status t) then Some (gt_id t) else None)
               else None);
             d1 = (case cancelled of None \<Rightarrow> draft | Some tid \<Rightarrow> cancel_transition draft tid at)
         in (case om_get (al_people d1) person_id of
              None \<Rightarrow> Inl (vanished ''the person receiving an agent activity beat'')
            | Some before \<Rightarrow>
                (let state = (if working
                     then before\<lparr>pa_agent_active_at := Some at, pa_agent_quiet_at := None, pa_idle_since := None\<rparr>
                     else before\<lparr>pa_agent_active_at := None, pa_agent_quiet_at := Some at\<rparr>);
                     changed = (state \<noteq> before);
                     final = (if changed then state\<lparr>pa_updated_at := at\<rparr> else state)
                 in Inr (d1\<lparr>al_people := om_put person_id final (al_people d1)\<rparr>, changed \<or> cancelled \<noteq> None)))))"

section \<open>The commands, on the store\<close>

definition begin_transition where
  "begin_transition J m input = activity_mutate J m (begin_transition_in m input)"

definition settle_applied_move where
  "settle_applied_move J m person_id = activity_mutate J m (settle_applied_move_in m person_id)"

definition abandon_transition where
  "abandon_transition J m transition_id person_id reason =
     activity_mutate J m (abandon_transition_in transition_id person_id reason)"

definition release_transition where
  "release_transition J m transition_id person_id = activity_mutate J m (release_in transition_id person_id)"

definition note_agent_activity where
  "note_agent_activity J m person_id working = activity_mutate J m (note_agent_activity_in person_id working)"

definition require_ready ::
  "'b activity_json \<Rightarrow> 'v organization_manifest \<Rightarrow> string \<Rightarrow> transition_action \<Rightarrow> 'b doc_slot
     \<Rightarrow> chiefd_error + graceful_transition" where
  "require_ready J m person_id action l =
     res_bind (activity_read J l m) (\<lambda>ledger.
       case active_transition ledger person_id of
         Some t \<Rightarrow> if gt_action t = action \<and> status_is_released (gt_status t) then Inr t
           else Inl (refused HANDOFF_REQUIRED (''Person '' @ quoted person_id
                 @ '' must release their graceful transition before '' @ action_as_str action))
       | None \<Rightarrow> Inl (refused HANDOFF_REQUIRED (''Person '' @ quoted person_id
                 @ '' must release their graceful transition before '' @ action_as_str action)))"

end
