(* ===== verification/Activity_Commands.thy ===== *)
theory Activity_Commands
  imports Activity_Store
begin

text \<open>
  What the commands on the activity ledger guarantee: each keeps the ledger valid, so the validation of
  the transaction never refuses what a command did; transitions only move forward; and a command repeated
  is answered with the transition it started.
\<close>

section \<open>Changing one entry of a valid ledger\<close>

lemma ok_put_state:
  assumes "activity_ok l m" "om_get (al_people l) pid \<noteq> None" "state_shape pid st" "pointer_ok l pid st"
    and "known_department m (pa_last_department_id st)"
  shows "activity_ok (l\<lparr>al_people := om_put pid st (al_people l)\<rparr>) m"
proof -
  have "activity_shape (l\<lparr>al_people := om_put pid st (al_people l)\<rparr>)"
    using assms by (intro put_state_shape) (auto simp: activity_ok_def)
  moreover have "{k. om_get (om_put pid st (al_people l)) k \<noteq> None} = {k. om_get (al_people l) k \<noteq> None}"
    using assms(2) by (auto simp: store_simps)
  moreover have "person m pid \<noteq> None" using assms(1,2) by (auto simp: activity_ok_def activity_fits_def)
  ultimately show ?thesis
    using assms(1,5) by (auto simp: activity_ok_def activity_fits_def order_exact_def store_simps)
qed

lemma ok_put_transition:
  assumes "activity_ok l m" "om_get (al_transitions l) tid = Some t0"
    and "transition_shape (al_next_transition_sequence l) tid t" "gt_person_id t = gt_person_id t0" "\<not> dangling m t"
    and "gt_status t = Cancelled \<Longrightarrow> (\<forall>st. om_get (al_people l) (gt_person_id t0) = Some st \<longrightarrow>
           pa_active_transition_id st \<noteq> Some tid)"
  shows "activity_ok (l\<lparr>al_transitions := om_put tid t (al_transitions l)\<rparr>) m"
proof -
  let ?l = "l\<lparr>al_transitions := om_put tid t (al_transitions l)\<rparr>"
  have p: "pointer_ok ?l pid st" if g: "om_get (al_people l) pid = Some st" for pid st
    unfolding pointer_ok_def
  proof (intro allI impI)
    fix tid' assume a: "pa_active_transition_id st = Some tid'"
    have "pointer_ok l pid st" using assms(1) g by (auto simp: activity_ok_def activity_shape_def)
    then obtain u where u: "om_get (al_transitions l) tid' = Some u" "gt_person_id u = pid" "gt_status u \<noteq> Cancelled"
      using a by (auto simp: pointer_ok_def)
    show "\<exists>u. om_get (al_transitions ?l) tid' = Some u \<and> gt_person_id u = pid \<and> gt_status u \<noteq> Cancelled"
    proof (cases "tid' = tid")
      case True
      then have "gt_person_id t0 = pid" using u assms(2) by simp
      then have "gt_status t \<noteq> Cancelled" using assms(6) g a True by auto
      then show ?thesis using True assms(4) \<open>gt_person_id t0 = pid\<close> by (simp add: store_simps)
    qed (use u in \<open>simp add: store_simps\<close>)
  qed
  have keys: "{k. om_get (al_transitions ?l) k \<noteq> None} = {k. om_get (al_transitions l) k \<noteq> None}"
    using assms(2) by (auto simp: store_simps)
  have "om_wf (al_transitions ?l)" using assms(1) by (simp add: activity_ok_def activity_shape_def om_wf_put)
  then have shape: "activity_shape ?l"
    unfolding activity_shape_def keys using p assms(1,3) by (auto simp: activity_ok_def activity_shape_def store_simps)
  have "person m (gt_person_id t) \<noteq> None"
    using assms(1,2,4) by (auto simp: activity_ok_def activity_fits_def)
  then have "activity_fits ?l m" using assms(1,5) by (auto simp: activity_ok_def activity_fits_def store_simps)
  then show ?thesis using shape assms(1) by (simp add: activity_ok_def)
qed

lemma ok_seq_mono:
  assumes "activity_ok l m" "al_next_transition_sequence l \<le> k"
  shows "activity_ok (l\<lparr>al_next_transition_sequence := k\<rparr>) m"
proof -
  have "transition_shape (al_next_transition_sequence l) tid t \<Longrightarrow> transition_shape k tid t" for tid t
    using assms(2) by (auto simp: transition_shape_def)
  then show ?thesis
    using assms by (auto simp: activity_ok_def activity_shape_def activity_fits_def pointer_ok_def order_exact_def)
qed

lemma ok_add_transition:
  assumes "activity_ok l m" "om_get (al_transitions l) tid = None"
    and "transition_shape (al_next_transition_sequence l) tid t" "\<not> dangling m t" "person m (gt_person_id t) \<noteq> None"
  shows "activity_ok (l\<lparr>al_transitions := om_put tid t (al_transitions l),
      al_transition_order := al_transition_order l @ [tid]\<rparr>) m"
proof -
  let ?l = "l\<lparr>al_transitions := om_put tid t (al_transitions l), al_transition_order := al_transition_order l @ [tid]\<rparr>"
  have order: "set (al_transition_order l) = {k. om_get (al_transitions l) k \<noteq> None}" "distinct (al_transition_order l)"
    using assms(1) by (auto simp: activity_ok_def activity_shape_def)
  then have "distinct (al_transition_order ?l)" "set (al_transition_order ?l) = {k. om_get (al_transitions ?l) k \<noteq> None}"
    using assms(2) by (auto simp: store_simps)
  moreover have "pointer_ok ?l pid st" if "pointer_ok l pid st" for pid st
    using that assms(2) by (auto simp: pointer_ok_def store_simps)
  moreover have "om_wf (al_transitions ?l)" using assms(1) by (simp add: activity_ok_def activity_shape_def om_wf_put)
  ultimately have "activity_shape ?l"
    using assms(1,3) by (auto simp: activity_ok_def activity_shape_def store_simps)
  then show ?thesis
    using assms(1,4,5) by (auto simp: activity_ok_def activity_fits_def store_simps)
qed

lemma ok_cancel: "activity_ok l m \<Longrightarrow> parse_iso_millis at \<noteq> None \<Longrightarrow> activity_ok (cancel_transition l tid at) m"
proof -
  assume ok: "activity_ok l m" and at: "parse_iso_millis at \<noteq> None"
  have "{k. om_get (al_people (cancel_transition l tid at)) k \<noteq> None} = {k. om_get (al_people l) k \<noteq> None}"
    by (auto simp: cancel_people)
  then show ?thesis
    using ok cancel_shape[of l at tid] cancel_fits[of l m tid at] at
    unfolding activity_ok_def order_exact_def cancel_fields by metis
qed

lemma ok_state:
  assumes "activity_ok l m" "om_get (al_people l) pid = Some st"
  shows "state_shape pid st" "pointer_ok l pid st" "known_department m (pa_last_department_id st)" "person m pid \<noteq> None"
  using assms by (auto simp: activity_ok_def activity_shape_def activity_fits_def)

lemma ok_transition:
  assumes "activity_ok l m" "om_get (al_transitions l) tid = Some t"
  shows "transition_shape (al_next_transition_sequence l) tid t" "\<not> dangling m t" "gt_id t = tid"
    "person m (gt_person_id t) \<noteq> None"
  using assms by (auto simp: activity_ok_def activity_shape_def activity_fits_def transition_shape_def)

lemma ok_active:
  assumes "activity_ok l m" "active_transition l pid = Some t"
  shows "om_get (al_transitions l) (gt_id t) = Some t" "gt_person_id t = pid" "gt_status t \<noteq> Cancelled"
    "\<exists>st. om_get (al_people l) pid = Some st \<and> pa_active_transition_id st = Some (gt_id t)"
proof -
  obtain st tid where s: "om_get (al_people l) pid = Some st" "pa_active_transition_id st = Some tid"
      "om_get (al_transitions l) tid = Some t" "gt_status t \<noteq> Cancelled"
    using assms(2) by (auto simp: active_transition_def split: option.splits if_splits)
  have "gt_person_id t = pid" using ok_state(2)[OF assms(1) s(1)] s by (auto simp: pointer_ok_def)
  then show "om_get (al_transitions l) (gt_id t) = Some t" "gt_person_id t = pid" "gt_status t \<noteq> Cancelled"
    "\<exists>st. om_get (al_people l) pid = Some st \<and> pa_active_transition_id st = Some (gt_id t)"
    using s ok_transition(3)[OF assms(1) s(3)] by auto
qed

section \<open>The commands keep a valid ledger valid\<close>

text \<open>An instant at which stamps and deadlines can be written, and the stamp written at it.\<close>

definition stamp_at :: "int \<Rightarrow> string \<Rightarrow> bool" where
  "stamp_at now at \<longleftrightarrow> at = iso_millis now \<and> writable_instant now \<and> writable_instant (now + HANDOFF_GRACE_MS)"

lemma stamp_parses: "stamp_at now at \<Longrightarrow> parse_iso_millis at = Some now"
  by (simp add: stamp_at_def written_stamp_parses)

definition spec_ok :: "'v organization_manifest \<Rightarrow> transition_spec \<Rightarrow> bool" where
  "spec_ok m spec \<longleftrightarrow> trim (sp_reason spec) \<noteq> [] \<and> char_count (sp_reason spec) \<le> TRANSITION_MAX_REASON_CHARACTERS
     \<and> (needs_target (sp_action spec) \<longleftrightarrow> sp_to_department_id spec \<noteq> None)
     \<and> (\<forall>unit_id. sp_to_department_id spec = Some unit_id \<longrightarrow> known_department m unit_id)"

definition fits_spec :: "transition_spec \<Rightarrow> graceful_transition \<Rightarrow> bool" where
  "fits_spec spec t \<longleftrightarrow> gt_person_id t = sp_person_id spec \<and> gt_action t = sp_action spec
     \<and> gt_to_department_id t = sp_to_department_id spec"

lemma new_transition_ok:
  assumes "activity_ok l m" "spec_ok m spec" "stamp_at now at" "al_next_transition_sequence l < u64_max"
    and "om_get (al_people l) (sp_person_id spec) = Some st"
  obtains l' t where "new_transition l spec at = Inr (l', t)" "activity_ok l' m" "fits_spec spec t"
    "om_get (al_transitions l) (gt_id t) = None"
    "al_next_transition_sequence l' = Suc (al_next_transition_sequence l)"
    "\<And>k. om_get (al_transitions l') k = (if k = gt_id t then Some t else om_get (al_transitions l) k)"
    "transition_sequence (gt_id t) = Some (al_next_transition_sequence l)"
    "\<exists>st. om_get (al_people l') (sp_person_id spec) = Some st \<and> pa_active_transition_id st = Some (gt_id t)"
    "gt_status t \<noteq> Cancelled" "gt_intent_id t = sp_intent_id spec" "gt_reason t = sp_reason spec"
    "gt_status t = AwaitingHandoff \<or> is_routine_idle_park t \<and> gt_status t = Forced"
proof -
  let ?n = "al_next_transition_sequence l"
  let ?routine = "sp_action spec = Park \<and> sp_intent_id spec = None \<and> sp_reason spec = IDLE_AUTO_PARK_REASON"
  define tid where "tid = ''transition:'' @ show_nat ?n @ '':'' @ sp_person_id spec @ '':'' @ action_as_str (sp_action spec)"
  define l1 where "l1 = l\<lparr>al_next_transition_sequence := Suc ?n\<rparr>"
  define t where "t = \<lparr>gt_id = tid, gt_person_id = sp_person_id spec, gt_action = sp_action spec,
     gt_reason = sp_reason spec, gt_intent_id = sp_intent_id spec,
     gt_placement_department_id = pa_last_department_id st, gt_to_department_id = sp_to_department_id spec,
     gt_status = (if ?routine then Forced else AwaitingHandoff), gt_requested_at = at,
     gt_handoff_deadline_at = (if ?routine then at else iso_millis (now + HANDOFF_GRACE_MS)),
     gt_applied_at = None, gt_cancelled_at = None, gt_forced_at = (if ?routine then Some at else None),
     gt_abandoned_at = None\<rparr>"
  let ?st = "st\<lparr>pa_active_transition_id := Some tid, pa_updated_at := at\<rparr>"
  let ?l2 = "l1\<lparr>al_transitions := om_put tid t (al_transitions l1), al_transition_order := al_transition_order l1 @ [tid]\<rparr>"
  let ?l' = "?l2\<lparr>al_people := om_put (sp_person_id spec) ?st (al_people l1)\<rparr>"
  note at = stamp_parses[OF assms(3)]
  have ok1: "activity_ok l1 m" unfolding l1_def by (rule ok_seq_mono[OF assms(1)]) simp
  have seq: "transition_sequence tid = Some ?n" unfolding tid_def
    by (rule new_id_sequence) (use assms(4) in simp)
  have fresh: "om_get (al_transitions l) tid = None"
  proof (rule ccontr)
    assume "om_get (al_transitions l) tid \<noteq> None"
    then obtain u where "om_get (al_transitions l) tid = Some u" by auto
    from ok_transition(1)[OF assms(1) this] seq show False by (simp add: transition_shape_def)
  qed
  have d: "parse_iso_millis (iso_millis (now + HANDOFF_GRACE_MS)) = Some (now + HANDOFF_GRACE_MS)"
    using assms(3) by (simp add: stamp_at_def written_stamp_parses)
  have shape: "transition_shape (al_next_transition_sequence l1) tid t"
    using assms(2) seq at d
    by (auto simp: transition_shape_def t_def l1_def spec_ok_def check_stamps_def stamp_missing_def bad_stamp_def
        HANDOFF_GRACE_MS_def)
  have dang: "\<not> dangling m t" using assms(2) ok_state(3)[OF assms(1,5)]
    by (auto simp: dangling_def t_def spec_ok_def split: option.splits)
  have "activity_ok ?l2 m"
    by (rule ok_add_transition[OF ok1]) (use fresh shape dang ok_state(4)[OF assms(1,5)] in \<open>simp_all add: l1_def t_def\<close>)
  moreover have "state_shape (sp_person_id spec) ?st"
    using ok_state(1)[OF assms(1,5)] at by (simp add: state_shape_def)
  moreover have "pointer_ok ?l2 (sp_person_id spec) ?st" by (simp add: pointer_ok_def t_def store_simps)
  moreover have "al_people ?l2 = al_people l1" by simp
  ultimately have "activity_ok (?l2\<lparr>al_people := om_put (sp_person_id spec) ?st (al_people ?l2)\<rparr>) m"
    using ok_state(3)[OF assms(1,5)] assms(5) by (intro ok_put_state) (simp_all add: l1_def)
  then have ok': "activity_ok ?l' m" by simp
  have "sat_add_u64 ?n 1 = Suc ?n" using assms(4) by (simp add: sat_add_u64_def)
  then have run: "new_transition l spec at = Inr (?l', t)"
    using assms(5) at by (simp add: new_transition_def Let_def l1_def t_def tid_def)
  show thesis
    by (rule that[OF run ok'])
      (use fresh seq in \<open>auto simp: t_def l1_def store_simps fits_spec_def is_routine_idle_park_def\<close>)
qed

section \<open>Transitions only move forward\<close>

text \<open>
  The stages of a transition. A park that is forced at birth stands beside an applied one; a cancelled one
  is at the end.
\<close>

fun stage :: "transition_status \<Rightarrow> nat" where
  "stage AwaitingHandoff = 0"
| "stage Overdue = 1"
| "stage Ready = 2"
| "stage Applied = 3"
| "stage Forced = 3"
| "stage Cancelled = 4"

definition status_le :: "transition_status \<Rightarrow> transition_status \<Rightarrow> bool" where
  "status_le s s' \<longleftrightarrow> s = s' \<or> stage s < stage s' \<and> s' \<noteq> Forced"

lemma status_le_refl [simp]: "status_le s s" by (simp add: status_le_def)

lemma status_le_trans: "status_le s s' \<Longrightarrow> status_le s' s'' \<Longrightarrow> status_le s s''"
  by (auto simp: status_le_def)

lemma status_le_Cancelled [simp]: "status_le s Cancelled"
  by (cases s) (simp_all add: status_le_def)

text \<open>What a transition keeps for life, and how far it got.\<close>

definition evolves :: "graceful_transition \<Rightarrow> graceful_transition \<Rightarrow> bool" where
  "evolves t t' \<longleftrightarrow> gt_id t' = gt_id t \<and> gt_person_id t' = gt_person_id t \<and> gt_action t' = gt_action t
     \<and> gt_intent_id t' = gt_intent_id t \<and> gt_to_department_id t' = gt_to_department_id t
     \<and> gt_placement_department_id t' = gt_placement_department_id t
     \<and> gt_requested_at t' = gt_requested_at t \<and> gt_handoff_deadline_at t' = gt_handoff_deadline_at t
     \<and> status_le (gt_status t) (gt_status t')"

lemma evolves_refl [simp]: "evolves t t" by (simp add: evolves_def)

lemma evolves_trans: "evolves t u \<Longrightarrow> evolves u w \<Longrightarrow> evolves t w"
  by (auto simp: evolves_def intro: status_le_trans)

definition moves :: "activity_ledger \<Rightarrow> activity_ledger \<Rightarrow> bool" where
  "moves l l' \<longleftrightarrow> al_next_transition_sequence l \<le> al_next_transition_sequence l'
     \<and> (\<forall>tid t'. om_get (al_transitions l') tid = Some t' \<longrightarrow>
          (\<exists>t. om_get (al_transitions l) tid = Some t \<and> evolves t t')
          \<or> (\<exists>n. transition_sequence tid = Some n \<and> al_next_transition_sequence l \<le> n))"

lemma moves_refl [simp]: "moves l l"
  by (auto simp: moves_def)

lemma moves_trans: "moves l l' \<Longrightarrow> moves l' l'' \<Longrightarrow> moves l l''"
  unfolding moves_def by (meson evolves_trans order_trans)

lemma moves_drop:
  "al_next_transition_sequence l' = al_next_transition_sequence l \<Longrightarrow>
     (\<And>tid t. om_get (al_transitions l') tid = Some t \<Longrightarrow> om_get (al_transitions l) tid = Some t) \<Longrightarrow> moves l l'"
  unfolding moves_def by fastforce

lemma moves_put:
  assumes "om_get (al_transitions l) tid = Some t0" "evolves t0 t"
    and "al_next_transition_sequence l' = al_next_transition_sequence l"
    and "al_transitions l' = om_put tid t (al_transitions l)"
  shows "moves l l'"
proof -
  have "\<exists>u. om_get (al_transitions l) k = Some u \<and> evolves u t'" if "om_get (al_transitions l') k = Some t'" for k t'
    using that assms(1,2,4) by (cases "k = tid") (auto simp: store_simps)
  then show ?thesis using assms(3) unfolding moves_def by simp
qed

lemma moves_cancel: "moves l (cancel_transition l tid at)"
proof (cases "om_get (al_transitions l) tid")
  case (Some t)
  show ?thesis
    by (rule moves_put[OF Some, of "t\<lparr>gt_status := Cancelled, gt_cancelled_at := Some at, gt_forced_at := None\<rparr>"])
      (simp_all add: evolves_def cancel_transition_def Some)
qed (simp add: cancel_none)

lemma moves_reconcile: "moves l (fst (reconcile_people l m now))"
proof -
  have seeds: "al_transitions (fst (foldl (seed_missing m now) lc ids)) = al_transitions (fst lc)
      \<and> al_next_transition_sequence (fst (foldl (seed_missing m now) lc ids)) = al_next_transition_sequence (fst lc)" for lc ids
    by (induction ids arbitrary: lc) (auto simp: seed_missing_def split: prod.splits option.splits)
  have places: "al_transitions (fst (foldl (repair_placement m now) lc ids)) = al_transitions (fst lc)
      \<and> al_next_transition_sequence (fst (foldl (repair_placement m now) lc ids)) = al_next_transition_sequence (fst lc)" for lc ids
    by (induction ids arbitrary: lc) (auto simp: repair_placement_def split: prod.splits option.splits)
  have drop: "moves l (drop_ids gone ds l)" for gone ds l
    by (rule moves_drop) (auto simp: drop_ids_fields split: if_splits)
  have sweeps: "moves l (foldl (\<lambda>l tid. cancel_transition l tid now) l ids)" for l ids
    by (induction ids arbitrary: l) (auto intro: moves_trans[OF moves_cancel])
  obtain l1 c1 where r1: "adopt_order l m = (l1, c1)" by fastforce
  obtain l2 c2 where r2: "foldl (seed_missing m now) (l1, c1) (mf_people_order m) = (l2, c2)" by fastforce
  obtain l3 c3 where r3: "drop_departed l2 m = (l3, c3)" by fastforce
  obtain l4 c4 where r4: "repair_dangling_departments l3 m now = (l4, c4)" by fastforce
  obtain l5 c5 where r5: "retain_known l4 m = (l5, c5)" by fastforce
  obtain l6 c6 where r6: "bound_terminal l5 = (l6, c6)" by fastforce
  obtain l7 c7 where r7: "sweep_expired_transitions l6 now = (l7, c7)" by fastforce
  have "moves l l3"
    using r1 r3 seeds[of "(l1, c1)" "mf_people_order m", unfolded r2]
    by (intro moves_drop) (auto simp: adopt_order_def drop_departed_def Let_def split: if_splits)
  moreover have "moves l3 (fst (drop_dangling l3 m))"
    using drop_dangling_cases[of l3 m] drop by fastforce
  moreover have "moves (fst (drop_dangling l3 m)) l4"
    using places[of "drop_dangling l3 m" "mf_people_order m"] r4
    by (intro moves_drop) (auto simp: repair_dangling_departments_def)
  moreover have "moves l4 l5" using retain_known_cases[of l4 m] drop r5 by fastforce
  moreover have "moves l5 l6" using bound_terminal_cases[of l5] drop r6 by fastforce
  moreover have "moves l6 l7" using r7 sweeps
    by (auto simp: sweep_expired_transitions_def Let_def split: option.splits)
  moreover have "fst (reconcile_people l m now) = l7"
    unfolding reconcile_people_def by (simp only: r1 r2 r3 r4 r5 r6 r7 Let_def prod.case fst_conv)
  ultimately show ?thesis by (metis moves_trans)
qed

section \<open>The commands\<close>

datatype activity_command =
    Begin begin_transition_input
  | Settle string
  | Abandon string string string
  | Release string string
  | Note string bool

text \<open>A command on the repaired ledger, its answer forgotten.\<close>

definition forget :: "chiefd_error + ('l \<times> 'r) \<Rightarrow> chiefd_error + ('l \<times> unit)" where
  "forget r = res_bind r (\<lambda>lr. Inr (fst lr, ()))"

fun command_in :: "'v organization_manifest \<Rightarrow> activity_command \<Rightarrow> unit activity_closure" where
  "command_in m (Begin input) l at = forget (begin_transition_in m input l at)"
| "command_in m (Settle pid) l at = forget (settle_applied_move_in m pid l at)"
| "command_in m (Abandon tid pid reason) l at = forget (abandon_transition_in tid pid reason l at)"
| "command_in m (Release tid pid) l at = forget (release_in tid pid l at)"
| "command_in m (Note pid working) l at = forget (note_agent_activity_in pid working l at)"

lemma forget_Inr [simp]: "forget r = Inr lu \<longleftrightarrow> (\<exists>x. r = Inr (fst lu, x))"
  by (cases lu) (auto simp: forget_def res_bind_Inr_iff)

lemma forget_Inl [simp]: "forget r = Inl e \<longleftrightarrow> r = Inl e"
  by (auto simp: forget_def res_bind_Inl_iff)

definition command_codes :: "string set" where
  "command_codes = {UNKNOWN_PERSON, INVALID_INPUT, TRANSITION_CONFLICT, UNKNOWN_TRANSITION, TRANSITION_RELEASED,
     TRANSITION_TERMINAL}"

text \<open>What a command does to a valid ledger: refuse with one of its codes, or a valid step forward.\<close>

definition good_answer :: "'v organization_manifest \<Rightarrow> activity_ledger \<Rightarrow> chiefd_error + (activity_ledger \<times> 'r) \<Rightarrow> bool" where
  "good_answer m l r \<longleftrightarrow> (case r of
     Inl e \<Rightarrow> \<exists>code msg. e = refused code msg \<and> code \<in> command_codes
   | Inr (l', _) \<Rightarrow> activity_ok l' m \<and> moves l l'
       \<and> al_next_transition_sequence l' \<le> Suc (al_next_transition_sequence l))"

lemma good_refusal [intro]: "code \<in> command_codes \<Longrightarrow> good_answer m l (Inl (refused code msg))"
  by (auto simp: good_answer_def)

lemma good_step: "activity_ok l' m \<Longrightarrow> moves l l' \<Longrightarrow>
    al_next_transition_sequence l' \<le> Suc (al_next_transition_sequence l) \<Longrightarrow> good_answer m l (Inr (l', r))"
  by (simp add: good_answer_def)

lemma good_unchanged [intro]: "activity_ok l m \<Longrightarrow> good_answer m l (Inr (l, r))"
  by (simp add: good_answer_def)

lemma codes [simp]:
  "UNKNOWN_PERSON \<in> command_codes" "INVALID_INPUT \<in> command_codes" "TRANSITION_CONFLICT \<in> command_codes"
  "UNKNOWN_TRANSITION \<in> command_codes" "TRANSITION_RELEASED \<in> command_codes" "TRANSITION_TERMINAL \<in> command_codes"
  by (simp_all add: command_codes_def)

subsection \<open>Ensuring a transition\<close>

lemma new_transition_good:
  assumes "activity_ok l m" "spec_ok m spec" "stamp_at now at" "al_next_transition_sequence l < u64_max"
    and "om_get (al_people l) (sp_person_id spec) = Some st"
  shows "\<exists>l' t. new_transition l spec at = Inr (l', t) \<and> activity_ok l' m \<and> moves l l'
     \<and> al_next_transition_sequence l' \<le> Suc (al_next_transition_sequence l) \<and> fits_spec spec t
     \<and> active_transition l' (sp_person_id spec) = Some t \<and> gt_intent_id t = sp_intent_id spec
     \<and> (gt_status t = AwaitingHandoff \<or> is_routine_idle_park t \<and> gt_status t = Forced)"
  by (rule new_transition_ok[OF assms])
    (auto simp: active_transition_def moves_def)

lemma cancel_keeps:
  assumes "om_get (al_people l) pid = Some st"
  shows "\<exists>st'. om_get (al_people (cancel_transition l tid at)) pid = Some st'"
    and "al_next_transition_sequence (cancel_transition l tid at) = al_next_transition_sequence l"
  using assms by (simp_all add: cancel_people cancel_fields)

text \<open>
  The outcome of \<open>ensure\<close>: a conflict, the transition the person already has, or a new one, and then the
  one they had is cancelled or was terminal.
\<close>

lemma ensure_cases:
  assumes "activity_ok l m" "spec_ok m spec" "stamp_at now at" "al_next_transition_sequence l < u64_max"
    and "om_get (al_people l) (sp_person_id spec) = Some st"
  shows "(\<exists>msg. ensure_matching_transition l spec at = Inl (refused TRANSITION_CONFLICT msg))
    \<or> (\<exists>t. ensure_matching_transition l spec at = Inr (l, t) \<and> active_transition l (sp_person_id spec) = Some t
         \<and> fits_spec spec t \<and> (sp_intent_id spec \<noteq> None \<longrightarrow> gt_intent_id t = sp_intent_id spec)
         \<and> (status_is_terminal (gt_status t) \<longrightarrow> own_structural_retry spec t)
         \<and> \<not> supersedes_plain_park spec t \<and> \<not> supersedes_terms spec t)
    \<or> (\<exists>l' t. ensure_matching_transition l spec at = Inr (l', t) \<and> activity_ok l' m \<and> moves l l'
         \<and> al_next_transition_sequence l' \<le> Suc (al_next_transition_sequence l)
         \<and> active_transition l' (sp_person_id spec) = Some t \<and> fits_spec spec t
         \<and> gt_intent_id t = sp_intent_id spec
         \<and> (gt_status t = AwaitingHandoff \<or> is_routine_idle_park t \<and> gt_status t = Forced))"
proof -
  let ?pid = "sp_person_id spec"
  have fresh: "\<exists>l' t. new_transition l0 spec at = Inr (l', t) \<and> activity_ok l' m \<and> moves l l'
     \<and> al_next_transition_sequence l' \<le> Suc (al_next_transition_sequence l) \<and> fits_spec spec t
     \<and> active_transition l' ?pid = Some t \<and> gt_intent_id t = sp_intent_id spec
     \<and> (gt_status t = AwaitingHandoff \<or> is_routine_idle_park t \<and> gt_status t = Forced)"
    if which: "l0 = l \<or> (\<exists>tid. l0 = cancel_transition l tid at)" for l0
  proof -
    have p: "parse_iso_millis at \<noteq> None" using stamp_parses[OF assms(3)] by simp
    have ok0: "activity_ok l0 m" using which ok_cancel[OF assms(1) p] assms(1) by auto
    obtain st0 where st0: "om_get (al_people l0) ?pid = Some st0"
      using which cancel_keeps(1)[OF assms(5)] assms(5) by metis
    have mv0: "moves l l0" and n0: "al_next_transition_sequence l0 = al_next_transition_sequence l"
      using which moves_cancel by (auto simp: cancel_fields)
    have "al_next_transition_sequence l0 < u64_max" using n0 assms(4) by simp
    then obtain l' t where "new_transition l0 spec at = Inr (l', t)" "activity_ok l' m" "moves l0 l'"
        "al_next_transition_sequence l' \<le> Suc (al_next_transition_sequence l0)" "fits_spec spec t"
        "active_transition l' ?pid = Some t" "gt_intent_id t = sp_intent_id spec"
        "gt_status t = AwaitingHandoff \<or> is_routine_idle_park t \<and> gt_status t = Forced"
      using new_transition_good[OF ok0 assms(2,3) _ st0] by blast
    then show ?thesis using moves_trans[OF mv0] n0 by auto
  qed
  show ?thesis
  proof (cases "active_transition l ?pid")
    case None
    then have "ensure_matching_transition l spec at = new_transition l spec at"
      by (simp add: ensure_matching_transition_def active_transition_id_of_def supersede_if_def)
    then show ?thesis using fresh[of l] by auto
  next
    case (Some t)
    note a = ok_active[OF assms(1) Some]
    have t: "om_get (al_transitions l) (gt_id t) = Some t" by (rule a(1))
    have i: "active_transition_id_of l ?pid = Some (gt_id t)" by (simp add: active_transition_id_of_def Some)
    show ?thesis
    proof (cases "supersedes_plain_park spec t \<or> supersedes_terms spec t")
      case True
      then have "ensure_matching_transition l spec at = new_transition (cancel_transition l (gt_id t) at) spec at"
        using t i by (auto simp: ensure_matching_transition_def supersede_if_def)
      then show ?thesis using fresh[of "cancel_transition l (gt_id t) at"] by auto
    next
      case False
      then have e: "ensure_matching_transition l spec at =
          (if status_is_terminal (gt_status t) \<and> \<not> own_structural_retry spec t then new_transition l spec at
           else if gt_action t \<noteq> sp_action spec \<or> gt_to_department_id t \<noteq> sp_to_department_id spec
           then Inl (refused TRANSITION_CONFLICT (''Person '' @ quoted ?pid @ '' already has ''
              @ action_as_str (gt_action t) @ '' transition '' @ quoted (gt_id t)))
           else if sp_intent_id spec \<noteq> None \<and> gt_intent_id t \<noteq> sp_intent_id spec
           then Inl (refused TRANSITION_CONFLICT (''Person '' @ quoted ?pid
              @ '' already has transition '' @ quoted (gt_id t) @ '' for another lifecycle intent''))
           else Inr (l, t))"
        using t i by (auto simp: ensure_matching_transition_def supersede_if_def)
      show ?thesis
      proof (cases "status_is_terminal (gt_status t) \<and> \<not> own_structural_retry spec t")
        case True
        then show ?thesis using e fresh[of l] by auto
      next
        case nt: False
        show ?thesis
          using e nt False Some a(2) by (auto simp: fits_spec_def)
      qed
    qed
  qed
qed

subsection \<open>Every command is good\<close>

lemma required_Inr: "required v label mx = Inr r \<Longrightarrow> r = trim v \<and> r \<noteq> [] \<and> char_count r \<le> mx"
  by (auto simp: required_def Let_def split: if_splits)

lemma begin_good:
  assumes "activity_ok l m" "stamp_at now at" "al_next_transition_sequence l < u64_max"
  shows "good_answer m l (begin_transition_in m input l at)"
proof -
  let ?pid = "bt_person_id input"
  show ?thesis
  proof (cases "person m ?pid = None \<or> om_get (al_people l) ?pid = None")
    case True
    then show ?thesis
      by (auto simp: begin_transition_in_def unknown_person_def split: option.splits intro: good_refusal)
  next
    case False
    then obtain st where st: "person m ?pid \<noteq> None" "om_get (al_people l) ?pid = Some st" by auto
    then obtain p where p: "person m ?pid = Some p" by auto
    let ?bad = "needs_target (bt_action input)
          \<and> \<not> (case begin_target input of None \<Rightarrow> False | Some unit_id \<Rightarrow> known_department m unit_id)
        \<or> \<not> needs_target (bt_action input) \<and> begin_target input \<noteq> None
        \<or> begin_target input = Some (pa_last_department_id st)"
    show ?thesis
    proof (cases ?bad)
      case True
      have "\<exists>msg. begin_transition_in m input l at = Inl (refused INVALID_INPUT msg)"
        using st(2) p True unfolding begin_transition_in_def Let_def
        by (cases "begin_target input") (auto split: if_splits)
      then show ?thesis by (elim exE) (simp only: good_refusal codes)
    next
      case ok: False
      then have run: "begin_transition_in m input l at
          = res_bind (begin_spec input) (\<lambda>spec. ensure_matching_transition l spec at)"
        using st by (auto simp: begin_transition_in_def Let_def)
      show ?thesis
      proof (cases "begin_spec input")
        case (Inl e)
        then have "\<exists>msg. e = refused INVALID_INPUT msg"
          by (auto simp: begin_spec_def required_def Let_def res_bind_Inl_iff split: option.splits if_splits)
        then show ?thesis using run Inl by (auto intro: good_refusal)
      next
        case (Inr spec)
        then have sp: "sp_person_id spec = ?pid" "spec_ok m spec"
          using ok
          by (auto simp: begin_spec_def res_bind_Inr_iff spec_ok_def dest!: required_Inr split: option.splits)
        from ensure_cases[OF assms(1) sp(2) assms(2,3), of st] sp(1) st(2)
        show ?thesis unfolding run Inr res_bind.simps
          by (auto simp: good_refusal good_step good_unchanged[OF assms(1)])
      qed
    qed
  qed
qed

lemma settle_good:
  assumes "activity_ok l m" "validated m" "stamp_at now at"
  shows "good_answer m l (settle_applied_move_in m pid l at)"
proof -
  consider (refuse) "person m pid = None \<or> om_get (al_people l) pid = None"
    | (nothing) p where "person m pid = Some p" "om_get (al_people l) pid \<noteq> None"
        "\<forall>t. active_transition l pid = Some t \<longrightarrow> is_removal (gt_action t) \<or> \<not> status_is_released (gt_status t)"
    | (settle) p t where "person m pid = Some p" "active_transition l pid = Some t"
        "\<not> is_removal (gt_action t)" "status_is_released (gt_status t)"
    by (cases "person m pid"; cases "active_transition l pid") auto
  then show ?thesis
  proof cases
    case refuse
    then show ?thesis
      by (auto simp: settle_applied_move_in_def om_has_def unknown_person_def split: option.splits intro: good_refusal)
  next
    case nothing
    then have "settle_applied_move_in m pid l at = Inr (l, False)"
      by (auto simp: settle_applied_move_in_def om_has_def split: option.splits)
    then show ?thesis using good_unchanged[OF assms(1)] by simp
  next
    case settle
    note a = ok_active[OF assms(1) settle(2)]
    obtain st where st: "om_get (al_people l) pid = Some st" "pa_active_transition_id st = Some (gt_id t)"
      using a(4) by blast
    let ?st = "st\<lparr>pa_active_transition_id := None, pa_last_employment_state := ps_employment_state p,
        pa_last_department_id := ps_department_id p,
        pa_last_operational := organization_unit_is_active m (ps_department_id p), pa_updated_at := at\<rparr>"
    let ?t = "if gt_status t \<noteq> Applied then t\<lparr>gt_status := Applied, gt_applied_at := Some at\<rparr> else t"
    let ?l1 = "l\<lparr>al_people := om_put pid ?st (al_people l)\<rparr>"
    have at: "parse_iso_millis at \<noteq> None" using stamp_parses[OF assms(3)] by simp
    obtain d where "department m (ps_department_id p) = Some d" by (rule validated_person[OF assms(2) settle(1)])
    then have k: "known_department m (ps_department_id p)" by (simp add: known_department_def)
    have "state_shape pid ?st" using ok_state(1)[OF assms(1) st(1)] at by (simp add: state_shape_def)
    then have ok1: "activity_ok ?l1 m"
      by (intro ok_put_state[OF assms(1)]) (use st(1) k in \<open>simp_all add: pointer_ok_def\<close>)
    have sh: "transition_shape (al_next_transition_sequence l) (gt_id t) t" "\<not> dangling m t"
      using ok_transition[OF assms(1) a(1)] by blast+
    have sh': "transition_shape (al_next_transition_sequence ?l1) (gt_id t) ?t"
      using sh(1) at settle(4) by (auto simp: transition_shape_def check_stamps_def stamp_missing_def bad_stamp_def split: if_splits)
    have "om_get (al_transitions ?l1) (gt_id t) = Some t" using a(1) by simp
    then have ok2: "activity_ok (?l1\<lparr>al_transitions := om_put (gt_id t) ?t (al_transitions ?l1)\<rparr>) m"
      by (rule ok_put_transition[OF ok1 _ sh']) (use sh(2) settle(4) in \<open>auto simp: dangling_def\<close>)
    have "evolves t ?t" using settle(4) by (auto simp: evolves_def status_le_def)
    then have mv: "moves l (?l1\<lparr>al_transitions := om_put (gt_id t) ?t (al_transitions ?l1)\<rparr>)"
      by (intro moves_put[OF a(1)]) simp_all
    have nx: "al_next_transition_sequence (?l1\<lparr>al_transitions := om_put (gt_id t) ?t (al_transitions ?l1)\<rparr>)
        \<le> Suc (al_next_transition_sequence l)" by simp
    have "settle_applied_move_in m pid l at
        = Inr (?l1\<lparr>al_transitions := om_put (gt_id t) ?t (al_transitions ?l1)\<rparr>, True)"
      using settle st(1) a(1) by (simp add: settle_applied_move_in_def om_has_def om_adjust_def)
    then show ?thesis by (simp only: good_step[OF ok2 mv nx])
  qed
qed

lemma owned_cases:
  "(\<exists>msg. owned_transition l tid pid = Inl (refused UNKNOWN_TRANSITION msg))
   \<or> (\<exists>t. owned_transition l tid pid = Inr t \<and> om_get (al_transitions l) tid = Some t \<and> gt_person_id t = pid)"
  by (auto simp: owned_transition_def split: option.splits)

lemma release_good:
  assumes "activity_ok l m"
  shows "good_answer m l (release_in tid pid l at)"
  using owned_cases[of l tid pid]
proof (elim disjE exE conjE)
  fix msg assume "owned_transition l tid pid = Inl (refused UNKNOWN_TRANSITION msg)"
  then show ?thesis by (simp add: release_in_def good_refusal)
next
  fix t assume t: "owned_transition l tid pid = Inr t" "om_get (al_transitions l) tid = Some t"
  show ?thesis
  proof (cases "status_is_terminal (gt_status t)")
    case True
    then show ?thesis using t(1) by (simp add: release_in_def good_refusal)
  next
    case False
    let ?t = "t\<lparr>gt_status := Ready\<rparr>"
    have "transition_shape (al_next_transition_sequence l) tid ?t"
      using ok_transition(1)[OF assms t(2)] False
      by (auto simp: transition_shape_def check_stamps_def split: if_splits)
    then have ok: "activity_ok (l\<lparr>al_transitions := om_put tid ?t (al_transitions l)\<rparr>) m"
      by (rule ok_put_transition[OF assms t(2)]) (use ok_transition(2)[OF assms t(2)] in \<open>simp_all add: dangling_def\<close>)
    have "evolves t ?t" using False by (cases "gt_status t") (simp_all add: evolves_def status_le_def)
    then have "moves l (l\<lparr>al_transitions := om_put tid ?t (al_transitions l)\<rparr>)"
      by (intro moves_put[OF t(2)]) simp_all
    with ok show ?thesis using t(1) False by (simp add: release_in_def good_step Let_def)
  qed
qed

lemma om_adjust_get: "om_get m k = Some v \<Longrightarrow> om_adjust k f m = om_put k (f v) m"
  by (simp add: om_adjust_def)

lemma abandon_good:
  assumes "activity_ok l m" "stamp_at now at"
  shows "good_answer m l (abandon_transition_in tid pid reason l at)"
  using owned_cases[of l tid pid]
proof (elim disjE exE conjE)
  fix msg assume "owned_transition l tid pid = Inl (refused UNKNOWN_TRANSITION msg)"
  then show ?thesis by (simp add: abandon_transition_in_def good_refusal)
next
  fix t assume t: "owned_transition l tid pid = Inr t" "om_get (al_transitions l) tid = Some t" "gt_person_id t = pid"
  note sh = ok_transition(1)[OF assms(1) t(2)]
  show ?thesis
  proof (cases "status_is_pending (gt_status t)")
    case False
    then show ?thesis using t(1) by (cases "gt_status t") (simp_all add: abandon_transition_in_def good_refusal)
  next
    case True
    let ?merged = "take_chars TRANSITION_MAX_REASON_CHARACTERS (trim (gt_reason t @ '' '' @ reason))"
    let ?t = "t\<lparr>gt_status := Cancelled, gt_cancelled_at := Some at, gt_abandoned_at := Some at, gt_reason := ?merged\<rparr>"
    let ?people = "om_adjust pid (\<lambda>state. if pa_active_transition_id state = Some tid
        then state\<lparr>pa_active_transition_id := None\<rparr> else state) (al_people l)"
    let ?l1 = "l\<lparr>al_people := ?people\<rparr>"
    have at: "parse_iso_millis at \<noteq> None" using stamp_parses[OF assms(2)] by simp
    have ok1: "activity_ok ?l1 m"
    proof (cases "om_get (al_people l) pid")
      case None
      then show ?thesis using assms(1) by (simp add: om_adjust_def)
    next
      case (Some st)
      have "activity_ok (l\<lparr>al_people := om_put pid (if pa_active_transition_id st = Some tid
          then st\<lparr>pa_active_transition_id := None\<rparr> else st) (al_people l)\<rparr>) m"
        using ok_state[OF assms(1) Some] Some
        by (intro ok_put_state[OF assms(1)]) (auto simp: state_shape_def pointer_ok_def)
      then show ?thesis by (simp add: om_adjust_get[OF Some])
    qed
    have "trim_start (gt_reason t) \<noteq> []" using sh by (simp add: transition_shape_def trim_Nil_iff)
    then have "trim_start (gt_reason t @ CHR '' '' # reason) \<noteq> []" using trim_start_space by blast
    then have "trim (gt_reason t @ '' '' @ reason) \<noteq> []" by (simp add: trim_Nil_iff)
    then have r: "trim ?merged \<noteq> []" "char_count ?merged \<le> TRANSITION_MAX_REASON_CHARACTERS"
      by (simp_all add: trim_take_chars char_count_take_chars TRANSITION_MAX_REASON_CHARACTERS_def)
    have "transition_shape (al_next_transition_sequence ?l1) tid ?t"
      using sh r at True
      by (auto simp: transition_shape_def check_stamps_def stamp_missing_def bad_stamp_def split: if_splits)
    moreover have "om_get (al_transitions ?l1) tid = Some t" using t(2) by simp
    moreover have "pa_active_transition_id st \<noteq> Some tid" if "om_get (al_people ?l1) (gt_person_id t) = Some st" for st
      using that t(3) by (cases "om_get (al_people l) pid") (auto simp: store_simps split: if_splits)
    ultimately have ok2: "activity_ok (?l1\<lparr>al_transitions := om_put tid ?t (al_transitions ?l1)\<rparr>) m"
      using ok_transition(2)[OF assms(1) t(2)] t(3)
      by (intro ok_put_transition[OF ok1, of tid t]) (simp_all add: dangling_def)
    have "evolves t ?t" by (simp add: evolves_def)
    then have mv: "moves l (?l1\<lparr>al_transitions := om_put tid ?t (al_transitions ?l1)\<rparr>)"
      by (intro moves_put[OF t(2)]) simp_all
    have nx: "al_next_transition_sequence (?l1\<lparr>al_transitions := om_put tid ?t (al_transitions ?l1)\<rparr>)
        \<le> Suc (al_next_transition_sequence l)" by simp
    have "abandon_transition_in tid pid reason l at
        = Inr (?l1\<lparr>al_transitions := om_put tid ?t (al_transitions ?l1)\<rparr>, ?t)"
      using t(1) True by (auto simp: abandon_transition_in_def Let_def)
    then show ?thesis by (simp only: good_step[OF ok2 mv nx])
  qed
qed

lemma note_good:
  assumes "activity_ok l m" "stamp_at now at"
  shows "good_answer m l (note_agent_activity_in pid working l at)"
proof (cases "om_get (al_people l) pid")
  case None
  then show ?thesis by (simp add: note_agent_activity_in_def om_has_def good_refusal)
next
  case (Some st)
  have at: "parse_iso_millis at \<noteq> None" using stamp_parses[OF assms(2)] by simp
  define cancelled where "cancelled = (if working then (case active_transition l pid of
               None \<Rightarrow> None
             | Some t \<Rightarrow> if is_routine_idle_park t \<and> status_is_pending (gt_status t) then Some (gt_id t) else None)
               else None)"
  define d1 where "d1 = (case cancelled of None \<Rightarrow> l | Some tid \<Rightarrow> cancel_transition l tid at)"
  have d1: "activity_ok d1 m" "moves l d1"
    using assms(1) ok_cancel[OF assms(1) at] moves_cancel by (auto simp: d1_def split: option.splits)
  obtain before where b: "om_get (al_people d1) pid = Some before"
  proof (cases cancelled)
    case (Some tid)
    then show thesis using that cancel_keeps(1)[OF \<open>om_get (al_people l) pid = Some st\<close>] by (auto simp: d1_def)
  qed (use Some that in \<open>auto simp: d1_def\<close>)
  define final where "final = (let state = (if working
                     then before\<lparr>pa_agent_active_at := Some at, pa_agent_quiet_at := None, pa_idle_since := None\<rparr>
                     else before\<lparr>pa_agent_active_at := None, pa_agent_quiet_at := Some at\<rparr>)
                 in if state \<noteq> before then state\<lparr>pa_updated_at := at\<rparr> else state)"
  have "state_shape pid final" "pa_last_department_id final = pa_last_department_id before"
      "pa_active_transition_id final = pa_active_transition_id before"
    using ok_state(1)[OF d1(1) b] at by (auto simp: final_def state_shape_def bad_stamp_def Let_def)
  then have "activity_ok (d1\<lparr>al_people := om_put pid final (al_people d1)\<rparr>) m"
    using ok_state[OF d1(1) b] b by (intro ok_put_state[OF d1(1)]) (auto simp: pointer_ok_def)
  moreover have "moves l (d1\<lparr>al_people := om_put pid final (al_people d1)\<rparr>)"
    by (rule moves_trans[OF d1(2)], rule moves_drop) simp_all
  moreover have "\<exists>r. note_agent_activity_in pid working l at = Inr (d1\<lparr>al_people := om_put pid final (al_people d1)\<rparr>, r)"
    using Some b unfolding note_agent_activity_in_def cancelled_def[symmetric] Let_def d1_def[symmetric]
    by (auto simp: om_has_def final_def Let_def)
  moreover have "al_next_transition_sequence d1 = al_next_transition_sequence l"
    by (simp add: d1_def cancel_fields split: option.splits)
  ultimately show ?thesis by (auto simp: good_step)
qed

lemma good_forget: "good_answer m l r \<Longrightarrow> good_answer m l (forget r)"
  by (cases r) (auto simp: good_answer_def forget_def split: prod.splits)

lemma command_good:
  assumes "activity_ok l m" "validated m" "stamp_at now at" "al_next_transition_sequence l < u64_max"
  shows "good_answer m l (command_in m c l at)"
  by (cases c) (simp_all only: command_in.simps good_forget begin_good[OF assms(1,3,4)]
      settle_good[OF assms(1,2,3)] abandon_good[OF assms(1,3)] release_good[OF assms(1)] note_good[OF assms(1,3)])

end
