(* ===== verification/Activity_Contract.thy ===== *)
theory Activity_Contract
  imports Activity_Commands
begin

text \<open>
  The contract of the activity store: a transaction is the command on the repaired ledger and nothing else,
  through any commands transitions only move forward, and beginning a transition again is answered with the
  one that was begun.
\<close>

section \<open>What is relied on in the codecs\<close>

function json_wf :: "json \<Rightarrow> bool" where
  "json_wf v = (case v of
     JObject es \<Rightarrow> distinct (map fst es) \<and> (\<forall>e \<in> set es. json_wf (snd e))
   | JArray xs \<Rightarrow> (\<forall>x \<in> set xs. json_wf x)
   | _ \<Rightarrow> True)"
  by pat_completeness auto
termination
  by (relation "measure size") (auto intro: size_list_estimation' size_entry simp: less_Suc_eq_le)

declare json_wf.simps [simp del]

lemma own_leaves_known: "json_wf v \<Longrightarrow> collect_unknown_leaves v v = []"
proof (induction v rule: json_wf.induct)
  case (1 v)
  show ?case
  proof (cases v)
    case (JArray xs)
    have "collect_unknown_leaves x x = []" if "x \<in> set xs" for x
      using 1(1)[OF JArray that] 1(3) that by (simp add: JArray json_wf.simps[of "JArray xs"])
    moreover have "fst p = snd p \<and> fst p \<in> set xs" if "p \<in> set (zip xs xs)" for p
      using that by (auto simp: zip_same_conv_map)
    ultimately have "\<forall>p \<in> set (zip xs xs). collect_unknown_leaves (fst p) (snd p) = []" by metis
    then show ?thesis by (simp add: JArray collect_unknown_leaves.simps[of "JArray xs"])
  next
    case (JObject es)
    have d: "distinct (map fst es)" using 1(3) by (simp add: JObject json_wf.simps[of "JObject es"])
    have "om_get es (fst e) = Some (snd e) \<and> collect_unknown_leaves (snd e) (snd e) = []" if "e \<in> set es" for e
      using 1(2)[OF JObject that] 1(3) that d
      by (simp add: JObject json_wf.simps[of "JObject es"] om_get_def map_of_eq_Some_iff)
    then show ?thesis by (auto simp: JObject collect_unknown_leaves.simps[of "JObject es"])
  qed (simp_all add: collect_unknown_leaves.simps)
qed

text \<open>
  A ledger whose maps are in key order (as a \<open>BTreeMap\<close>'s are) encodes to a text that parses to the very
  value it serializes to, whose objects have no duplicate keys, and that value decodes to the ledger.
\<close>

definition activity_json_faithful :: "'b activity_json \<Rightarrow> bool" where
  "activity_json_faithful J \<longleftrightarrow> (\<forall>led. om_wf (al_people led) \<and> om_wf (al_transitions led) \<longrightarrow>
     (\<exists>b v. aj_enc J led = Inr b \<and> aj_parse J b = Some v \<and> aj_from J v = Some led \<and> aj_to J led = Some v \<and> json_wf v))"

definition holds :: "'b activity_json \<Rightarrow> 'b doc_slot \<Rightarrow> activity_ledger \<Rightarrow> bool" where
  "holds J l led \<longleftrightarrow> (\<exists>b. slot_body l = Some b \<and> parse_ledger_tolerating_legacy J b = Some led)"

lemma put_holds:
  assumes "activity_json_faithful J" "activity_shape led"
  obtains l' where "activity_put J led l = Inr l'" "holds J l' led" "slot_now l' = slot_now l"
proof -
  obtain b v where b: "aj_enc J led = Inr b" "aj_parse J b = Some v" "aj_from J v = Some led" "aj_to J led = Some v" "json_wf v"
    using assms unfolding activity_json_faithful_def activity_shape_def by blast
  then have "parse_ledger_tolerating_legacy J b = Some led"
    by (simp add: parse_ledger_tolerating_legacy_def own_leaves_known)
  then show thesis
    using b by (intro that[of "slot_put b l"]) (simp_all add: activity_put_def slot_put_def holds_def)
qed

section \<open>A transaction is the command on the repaired ledger\<close>

definition run_command ::
  "'b activity_json \<Rightarrow> 'v organization_manifest \<Rightarrow> activity_command \<Rightarrow> 'b doc_slot \<Rightarrow> chiefd_error + ('b doc_slot \<times> unit)" where
  "run_command J m c l = activity_mutate J m (command_in m c) l"

lemma stamped_ok: "activity_ok l m \<Longrightarrow> activity_ok (l\<lparr>al_updated_at := at\<rparr>) m"
  by (auto simp: activity_ok_def activity_shape_def activity_fits_def order_exact_def pointer_ok_def)

lemma ok_validates: "activity_ok l m \<Longrightarrow> validate_activity l m = Inr ()"
  using validate_activity_iff[of l m] by (auto simp: activity_ok_def activity_shape_def)

lemma reconcile_next: "al_next_transition_sequence (fst (reconcile_people l m now)) = al_next_transition_sequence l"
proof -
  have seeds: "al_next_transition_sequence (fst (foldl (seed_missing m now) lc ids)) = al_next_transition_sequence (fst lc)" for lc ids
    by (induction ids arbitrary: lc) (auto simp: seed_missing_def split: prod.splits option.splits)
  have places: "al_next_transition_sequence (fst (foldl (repair_placement m now) lc ids)) = al_next_transition_sequence (fst lc)" for lc ids
    by (induction ids arbitrary: lc) (auto simp: repair_placement_def split: prod.splits option.splits)
  have sweeps: "al_next_transition_sequence (foldl (\<lambda>l tid. cancel_transition l tid now) l ids) = al_next_transition_sequence l" for l ids
    by (induction ids arbitrary: l) (auto simp: cancel_fields)
  obtain l1 c1 where r1: "adopt_order l m = (l1, c1)" by fastforce
  obtain l2 c2 where r2: "foldl (seed_missing m now) (l1, c1) (mf_people_order m) = (l2, c2)" by fastforce
  obtain l3 c3 where r3: "drop_departed l2 m = (l3, c3)" by fastforce
  obtain l4 c4 where r4: "repair_dangling_departments l3 m now = (l4, c4)" by fastforce
  obtain l5 c5 where r5: "retain_known l4 m = (l5, c5)" by fastforce
  obtain l6 c6 where r6: "bound_terminal l5 = (l6, c6)" by fastforce
  obtain l7 c7 where r7: "sweep_expired_transitions l6 now = (l7, c7)" by fastforce
  have "al_next_transition_sequence l1 = al_next_transition_sequence l" using r1 by (auto simp: adopt_order_def split: if_splits)
  moreover have "al_next_transition_sequence l2 = al_next_transition_sequence l1" using seeds[of "(l1, c1)" "mf_people_order m", unfolded r2] by simp
  moreover have "al_next_transition_sequence l3 = al_next_transition_sequence l2" using r3 by (auto simp: drop_departed_def Let_def)
  moreover have "al_next_transition_sequence (fst (drop_dangling l3 m)) = al_next_transition_sequence l3"
    using drop_dangling_cases[of l3 m] by (auto simp: drop_ids_fields)
  moreover have "al_next_transition_sequence l4 = al_next_transition_sequence (fst (drop_dangling l3 m))"
    using places[of "drop_dangling l3 m" "mf_people_order m"] r4 by (simp add: repair_dangling_departments_def)
  moreover have "al_next_transition_sequence l5 = al_next_transition_sequence l4"
    using retain_known_cases[of l4 m] r5 by (auto simp: drop_ids_fields)
  moreover have "al_next_transition_sequence l6 = al_next_transition_sequence l5"
    using bound_terminal_cases[of l5] r6 by (auto simp: drop_ids_fields)
  moreover have "al_next_transition_sequence l7 = al_next_transition_sequence l6"
    using r7 sweeps by (auto simp: sweep_expired_transitions_def Let_def split: option.splits)
  moreover have "fst (reconcile_people l m now) = l7"
    unfolding reconcile_people_def by (simp only: r1 r2 r3 r4 r5 r6 r7 Let_def prod.case fst_conv)
  ultimately show ?thesis by simp
qed

lemma mutate_refines:
  assumes "activity_json_faithful J" "validated m" "holds J l led" "activity_shape led" "al_organization led = mf_slug m"
    and "parse_iso_millis (iso_millis (slot_now l)) \<noteq> None"
    and "\<And>led' r. f (fst (reconcile_people led m (iso_millis (slot_now l)))) (iso_millis (slot_now l)) = Inr (led', r) \<Longrightarrow>
           activity_ok led' m"
  shows "case f (fst (reconcile_people led m (iso_millis (slot_now l)))) (iso_millis (slot_now l)) of
      Inl e \<Rightarrow> activity_mutate J m f l = Inl e
    | Inr (led', r) \<Rightarrow> \<exists>l' led''. activity_mutate J m f l = Inr (l', r) \<and> holds J l' led'' \<and> slot_now l' = slot_now l
        \<and> (led'' = led' \<or> led'' = led'\<lparr>al_updated_at := iso_millis (slot_now l)\<rparr>) \<and> activity_ok led'' m"
proof -
  let ?at = "iso_millis (slot_now l)"
  let ?healed = "fst (reconcile_people led m ?at)"
  obtain b where b: "slot_body l = Some b" "parse_ledger_tolerating_legacy J b = Some led"
    using assms(3) by (auto simp: holds_def)
  then have r: "read_for_mutation J l = Inr led" by (simp add: read_for_mutation_def activity_parse_def)
  have "activity_ok ?healed m" by (rule reconcile_people_ok(1)[OF assms(2,4,5,6)])
  then have c: "activity_checked J ?healed m = Inr ()" by (simp add: activity_checked_def ok_validates)
  show ?thesis
  proof (cases "f ?healed ?at")
    case (Inl e)
    then show ?thesis using r c by (simp add: activity_mutate_def Let_def)
  next
    case (Inr p)
    obtain led' x where p: "p = (led', x)" by (cases p)
    have ok: "activity_ok led' m" using assms(7) Inr p by blast
    show ?thesis
    proof (cases "snd (reconcile_people led m ?at) \<or> led' \<noteq> led")
      case True
      let ?final = "led'\<lparr>al_updated_at := ?at\<rparr>"
      have okf: "activity_ok ?final m" by (rule stamped_ok[OF ok])
      then have "activity_shape ?final" by (simp add: activity_ok_def)
      then obtain l' where l': "activity_put J ?final l = Inr l'" "holds J l' ?final" "slot_now l' = slot_now l"
        by (rule put_holds[OF assms(1)])
      have "activity_mutate J m f l = Inr (l', x)"
        using r c Inr p True l'(1) ok_validates[OF okf] by (simp add: activity_mutate_def Let_def)
      then show ?thesis using l' okf Inr p by auto
    next
      case False
      then have "activity_mutate J m f l = Inr (l, x)" using r c Inr p by (simp add: activity_mutate_def Let_def)
      then show ?thesis using False ok assms(3) Inr p by auto
    qed
  qed
qed

text \<open>
  C3. A transaction on the activity store is exactly its command on the repaired ledger. On a row that
  holds a ledger of this company, at a writable instant, with sequence numbers left: the transaction never
  reports damage, a store failure or a validation refusal of its own; it is refused exactly when the command
  is, with one of the commands' six codes, and leaves then nothing; and otherwise the row holds the
  command's ledger (its stamp aside), valid for the manifest.
\<close>

theorem transaction_is_the_command:
  assumes "activity_json_faithful J" "validated m" "holds J l led" "activity_shape led" "al_organization led = mf_slug m"
    and "stamp_at (slot_now l) at" "al_next_transition_sequence led < u64_max"
  shows "case command_in m c (fst (reconcile_people led m at)) at of
      Inl e \<Rightarrow> run_command J m c l = Inl e \<and> (\<exists>code msg. e = refused code msg \<and> code \<in> command_codes)
    | Inr (led', r) \<Rightarrow> \<exists>l' led''. run_command J m c l = Inr (l', r) \<and> holds J l' led'' \<and> slot_now l' = slot_now l
        \<and> (led'' = led' \<or> led'' = led'\<lparr>al_updated_at := at\<rparr>) \<and> activity_ok led'' m"
proof -
  have at: "at = iso_millis (slot_now l)" "parse_iso_millis at \<noteq> None"
    using stamp_parses[OF assms(6)] assms(6) by (auto simp: stamp_at_def)
  have ok: "activity_ok (fst (reconcile_people led m at)) m"
    by (rule reconcile_people_ok(1)[OF assms(2,4,5) at(2)])
  have good: "good_answer m (fst (reconcile_people led m at)) (command_in m c (fst (reconcile_people led m at)) at)"
    using assms(7) by (intro command_good[OF ok assms(2,6)]) (simp add: reconcile_next)
  have "activity_ok led' m" if "command_in m c (fst (reconcile_people led m at)) at = Inr (led', r)" for led' r
    using good that by (simp add: good_answer_def)
  note step = mutate_refines[OF assms(1-5), of "command_in m c", folded at(1), OF at(2) this]
  then show ?thesis
    using good unfolding run_command_def good_answer_def by (auto split: sum.splits)
qed

section \<open>A concrete codec\<close>

text \<open>For the witnesses: every record as the array of its fields.\<close>

definition j_opt :: "('a \<Rightarrow> json) \<Rightarrow> 'a option \<Rightarrow> json" where
  "j_opt f x = (case x of None \<Rightarrow> JNull | Some y \<Rightarrow> JArray [f y])"

definition j_nat :: "nat \<Rightarrow> json" where "j_nat n = JNumber (show_nat n)"

definition j_employment :: "employment_state \<Rightarrow> json" where
  "j_employment e = JString (case e of Employment_Active \<Rightarrow> ''active'' | Benched \<Rightarrow> ''benched'' | Departed \<Rightarrow> ''departed'')"

definition j_transition :: "graceful_transition \<Rightarrow> json" where
  "j_transition t = JArray [JString (gt_id t), JString (gt_person_id t), JString (action_as_str (gt_action t)),
     JString (gt_reason t), j_opt JString (gt_intent_id t), JString (gt_placement_department_id t),
     j_opt JString (gt_to_department_id t), JString (status_as_str (gt_status t)), JString (gt_requested_at t),
     JString (gt_handoff_deadline_at t), j_opt JString (gt_applied_at t), j_opt JString (gt_cancelled_at t),
     j_opt JString (gt_forced_at t), j_opt JString (gt_abandoned_at t)]"

definition j_state :: "person_activity_state \<Rightarrow> json" where
  "j_state s = JArray [JString (pa_person_id s), j_employment (pa_last_employment_state s),
     JString (pa_last_department_id s), JBool (pa_last_operational s), JBool (pa_last_desired_active s),
     j_opt JString (pa_idle_since s), j_opt JString (pa_agent_quiet_at s), j_opt JString (pa_agent_active_at s),
     j_opt JString (pa_operator_wake_at s), j_opt JString (pa_active_transition_id s), JString (pa_updated_at s)]"

definition j_entries :: "('a \<Rightarrow> json) \<Rightarrow> (string, 'a) omap \<Rightarrow> json" where
  "j_entries f m = JArray (map (\<lambda>e. JArray [JString (fst e), f (snd e)]) m)"

definition j_ledger :: "activity_ledger \<Rightarrow> json" where
  "j_ledger l = JArray [j_nat (al_schema_version l), JString (al_organization l),
     JArray (map JString (al_person_order l)), j_entries j_state (al_people l),
     JArray (map JString (al_transition_order l)), j_entries j_transition (al_transitions l),
     j_nat (al_next_transition_sequence l), j_opt j_nat (al_automatic_park_cursor l),
     JString (al_created_at l), JString (al_updated_at l)]"

lemma j_opt_inj: "inj f \<Longrightarrow> j_opt f x = j_opt f y \<longleftrightarrow> x = y"
  by (auto simp: j_opt_def inj_def split: option.splits)

lemma inj_JString: "inj JString" by (simp add: inj_def)

lemma inj_j_nat: "inj j_nat"
  unfolding inj_def j_nat_def by (metis dec_val_show_nat json.inject(2))

lemma status_inj: "status_as_str s = status_as_str s' \<longleftrightarrow> s = s'"
  by (cases s; cases s') simp_all

lemma inj_j_transition: "inj j_transition"
  by (rule injI)
    (auto simp: j_transition_def j_opt_inj inj_JString transition_action.enc_inj status_inj
      intro!: graceful_transition.equality)

lemma inj_j_state: "inj j_state"
proof (rule injI)
  fix x y :: person_activity_state
  assume e: "j_state x = j_state y"
  then have "pa_last_employment_state x = pa_last_employment_state y"
    by (auto simp: j_state_def j_employment_def split: employment_state.splits)
  then show "x = y"
    using e by (auto simp: j_state_def j_opt_inj inj_JString intro!: person_activity_state.equality)
qed

lemma j_entries_inj: "inj f \<Longrightarrow> j_entries f m = j_entries f m' \<longleftrightarrow> m = m'"
proof
  assume "inj f" "j_entries f m = j_entries f m'"
  then show "m = m'"
  proof (induction m arbitrary: m')
    case (Cons e m)
    then show ?case by (cases m') (auto simp: j_entries_def inj_def prod_eq_iff)
  qed (simp add: j_entries_def)
qed simp

lemma inj_j_ledger: "inj j_ledger"
  by (rule injI)
    (auto simp: j_ledger_def j_opt_inj j_entries_inj inj_j_state inj_j_transition inj_j_nat inj_eq
       inj_JString inj_map_eq_map intro!: activity_ledger.equality dest: injD[OF inj_j_nat])

lemma json_wf_simps:
  "json_wf (JString s)" "json_wf (JBool b)" "json_wf (JNumber n)" "json_wf JNull"
  "json_wf (JArray xs) \<longleftrightarrow> (\<forall>x \<in> set xs. json_wf x)"
  by (simp_all add: json_wf.simps)

lemma json_wf_ledger: "json_wf (j_ledger l)"
  by (auto simp: j_ledger_def j_entries_def j_state_def j_transition_def j_opt_def j_nat_def j_employment_def
      json_wf_simps split: option.splits)

definition sample_codec :: "activity_ledger activity_json" where
  "sample_codec = \<lparr>aj_parse = (\<lambda>l. Some (j_ledger l)), aj_from = (\<lambda>v. Some (inv j_ledger v)),
     aj_to = (\<lambda>l. Some (j_ledger l)), aj_enc = Inr, aj_dbg = rf_message\<rparr>"

lemma sample_codec_faithful: "activity_json_faithful sample_codec"
  by (simp add: activity_json_faithful_def sample_codec_def json_wf_ledger inj_j_ledger)

lemma sample_codec_holds: "holds sample_codec \<lparr>slot_now = t, slot_body = Some l\<rparr> l"
  by (simp add: holds_def sample_codec_def parse_ledger_tolerating_legacy_def inj_j_ledger
      own_leaves_known json_wf_ledger)

lemma sample_ledger_ok: "activity_shape sample_ledger" "al_organization sample_ledger = ''s''"
proof -
  have "activity_ok sample_ledger (sample_manifest Unit_Active :: unit organization_manifest)"
    using validate_activity_iff[OF sample_activity(1,2)] sample_activity(3) by blast
  then show "activity_shape sample_ledger" by (simp add: activity_ok_def)
qed (simp add: sample_ledger_def)

lemma sample_stamp: "stamp_at 1767225660000 (iso_millis 1767225660000)"
  by (simp add: stamp_at_def writable_instant_def HANDOFF_GRACE_MS_def)

lemma sample_bounds:
  "mf_slug (sample_manifest state) = ''s''" "al_next_transition_sequence sample_ledger = 2"
  by (simp_all add: sample_manifest_def sample_ledger_def)

theorem transaction_is_the_command_witness:
  "case run_command sample_codec (sample_manifest Paused :: unit organization_manifest)
       (Release ''transition:1:worker:park'' ''worker'') \<lparr>slot_now = 1767225660000, slot_body = Some sample_ledger\<rparr> of
     Inl e \<Rightarrow> \<exists>code msg. e = refused code msg \<and> code \<in> command_codes
   | Inr (l', _) \<Rightarrow> \<exists>led. holds sample_codec l' led \<and> activity_ok led (sample_manifest Paused :: unit organization_manifest)"
proof -
  let ?l = "\<lparr>slot_now = 1767225660000, slot_body = Some sample_ledger\<rparr>"
  have "al_organization sample_ledger = mf_slug (sample_manifest Paused :: unit organization_manifest)"
    by (simp add: sample_ledger_ok sample_bounds)
  moreover have "stamp_at (slot_now ?l) (iso_millis 1767225660000)" using sample_stamp by simp
  moreover have "al_next_transition_sequence sample_ledger < u64_max" by (simp add: sample_bounds u64_max_def)
  ultimately have "case command_in (sample_manifest Paused :: unit organization_manifest)
        (Release ''transition:1:worker:park'' ''worker'')
        (fst (reconcile_people sample_ledger (sample_manifest Paused :: unit organization_manifest) (iso_millis 1767225660000)))
        (iso_millis 1767225660000) of
      Inl e \<Rightarrow> run_command sample_codec (sample_manifest Paused :: unit organization_manifest)
          (Release ''transition:1:worker:park'' ''worker'') ?l = Inl e \<and> (\<exists>code msg. e = refused code msg \<and> code \<in> command_codes)
    | Inr (led', r) \<Rightarrow> \<exists>l' led''. run_command sample_codec (sample_manifest Paused :: unit organization_manifest)
          (Release ''transition:1:worker:park'' ''worker'') ?l = Inr (l', r)
        \<and> holds sample_codec l' led'' \<and> slot_now l' = slot_now ?l
        \<and> (led'' = led' \<or> led'' = led'\<lparr>al_updated_at := iso_millis 1767225660000\<rparr>)
        \<and> activity_ok led'' (sample_manifest Paused :: unit organization_manifest)"
    by (intro transaction_is_the_command[OF sample_codec_faithful sample_validated sample_codec_holds sample_ledger_ok(1)])
      (simp_all add: u64_max_def)
  then show ?thesis by (auto split: sum.splits)
qed

section \<open>Through any commands\<close>

type_synonym 'v activity_event = "int \<times> 'v organization_manifest \<times> activity_command"

fun activity_step :: "'b activity_json \<Rightarrow> 'b doc_slot \<Rightarrow> 'v activity_event \<Rightarrow> 'b doc_slot" where
  "activity_step J l (now, m, c) =
     (case run_command J m c (l\<lparr>slot_now := now\<rparr>) of Inl _ \<Rightarrow> l\<lparr>slot_now := now\<rparr> | Inr (l', _) \<Rightarrow> l')"

definition event_ok :: "string \<Rightarrow> 'v activity_event \<Rightarrow> bool" where
  "event_ok slug e \<longleftrightarrow> (case e of (now, m, c) \<Rightarrow>
     validated m \<and> mf_slug m = slug \<and> stamp_at now (iso_millis now))"

lemma moves_stamp: "moves l l' \<Longrightarrow> moves l (l'\<lparr>al_updated_at := at\<rparr>)"
  by (simp add: moves_def)

lemma step_moves:
  assumes "activity_json_faithful J" "holds J l led" "activity_shape led" "al_organization led = slug"
    and "event_ok slug e" "al_next_transition_sequence led < u64_max"
  shows "\<exists>led'. holds J (activity_step J l e) led' \<and> activity_shape led' \<and> al_organization led' = slug
     \<and> moves led led' \<and> al_next_transition_sequence led' \<le> Suc (al_next_transition_sequence led)"
proof -
  obtain now m c where e: "e = (now, m, c)" by (cases e)
  let ?l = "l\<lparr>slot_now := now\<rparr>" let ?at = "iso_millis now"
  let ?healed = "fst (reconcile_people led m ?at)"
  have v: "validated m" "mf_slug m = slug" "stamp_at now ?at" using assms(5) by (auto simp: event_ok_def e)
  have h: "holds J ?l led" using assms(2) by (simp add: holds_def)
  have p: "parse_iso_millis ?at \<noteq> None" using stamp_parses[OF v(3)] by simp
  have org: "al_organization led = mf_slug m" using assms(4) v(2) by simp
  have ok: "activity_ok ?healed m" by (rule reconcile_people_ok(1)[OF v(1) assms(3) org p])
  have good: "good_answer m ?healed (command_in m c ?healed ?at)"
    using assms(6) by (intro command_good[OF ok v(1,3)]) (simp add: reconcile_next)
  have keep: "activity_ok led' m" if "command_in m c ?healed ?at = Inr (led', r)" for led' r
    using good that by (simp add: good_answer_def)
  note run = mutate_refines[OF assms(1) v(1) h assms(3) org, of "command_in m c", simplified, OF p[simplified] keep]
  show ?thesis
  proof (cases "command_in m c ?healed ?at")
    case (Inl err)
    then have "activity_step J l e = ?l" using run by (simp add: e run_command_def)
    then show ?thesis using h assms(3,4) by (intro exI[of _ led]) simp
  next
    case (Inr p)
    obtain led1 r where p: "p = (led1, r)" by (cases p)
    have g: "moves ?healed led1" "al_next_transition_sequence led1 \<le> Suc (al_next_transition_sequence ?healed)"
      using good Inr p by (simp_all add: good_answer_def)
    have mv: "moves led led1" "al_next_transition_sequence led1 \<le> Suc (al_next_transition_sequence led)"
      using moves_trans[OF moves_reconcile g(1)] g(2) by (simp_all only: reconcile_next)
    obtain l' led2 where run': "activity_mutate J m (command_in m c) ?l = Inr (l', r)" "holds J l' led2"
        "led2 = led1 \<or> led2 = led1\<lparr>al_updated_at := ?at\<rparr>" "activity_ok led2 m"
      using run Inr p by auto
    have "moves led led2" "al_next_transition_sequence led2 \<le> Suc (al_next_transition_sequence led)"
      using run'(3) mv moves_stamp by auto
    then show ?thesis using run' v(2) by (intro exI[of _ led2])
        (simp add: e run_command_def activity_ok_def activity_fits_def)
  qed
qed

lemma run_moves:
  assumes "activity_json_faithful J" "holds J l led" "activity_shape led" "al_organization led = slug"
    and "list_all (event_ok slug) es" "al_next_transition_sequence led + length es < u64_max"
  shows "\<exists>led'. holds J (foldl (activity_step J) l es) led' \<and> activity_shape led' \<and> moves led led'"
  using assms(2-6)
proof (induction es arbitrary: l led)
  case Nil
  then show ?case by auto
next
  case (Cons e es)
  then obtain led1 where s: "holds J (activity_step J l e) led1" "activity_shape led1" "al_organization led1 = slug"
      "moves led led1" "al_next_transition_sequence led1 \<le> Suc (al_next_transition_sequence led)"
    using step_moves[OF assms(1) Cons.prems(1-3), of e] by auto
  have "al_next_transition_sequence led1 + length es < u64_max" using s(5) Cons.prems(5) by simp
  then obtain led' where "holds J (foldl (activity_step J) (activity_step J l e) es) led'" "activity_shape led'" "moves led1 led'"
    using Cons.IH[OF s(1-3)] Cons.prems(4) by auto
  then show ?case using moves_trans[OF s(4)] by auto
qed

text \<open>
  C4. Transitions only move forward. Through any commands, at any writable instants, against any validated
  manifests of this company, refused ones included: a transition that is still there keeps its person, its
  action, its target and its lifecycle intent; a cancelled one stays cancelled, a finished one finished, and
  a released one is never pending again; and a new one has a number no earlier one had.
\<close>

theorem transitions_only_move_forward:
  assumes "activity_json_faithful J" "holds J l led" "activity_shape led" "al_organization led = slug"
    and "list_all (event_ok slug) es" "al_next_transition_sequence led + length es < u64_max"
  shows "\<exists>led'. holds J (foldl (activity_step J) l es) led' \<and> activity_shape led'
    \<and> (\<forall>tid t'. om_get (al_transitions led') tid = Some t' \<longrightarrow> (case om_get (al_transitions led) tid of
         None \<Rightarrow> (\<exists>n. transition_sequence tid = Some n \<and> al_next_transition_sequence led \<le> n)
       | Some t \<Rightarrow> gt_person_id t' = gt_person_id t \<and> gt_action t' = gt_action t
           \<and> gt_to_department_id t' = gt_to_department_id t \<and> gt_intent_id t' = gt_intent_id t
           \<and> (gt_status t = Cancelled \<longrightarrow> gt_status t' = Cancelled)
           \<and> (status_is_terminal (gt_status t) \<longrightarrow> status_is_terminal (gt_status t'))
           \<and> (status_is_released (gt_status t) \<longrightarrow> \<not> status_is_pending (gt_status t'))))"
proof -
  obtain led' where r: "holds J (foldl (activity_step J) l es) led'" "activity_shape led'" "moves led led'"
    using run_moves[OF assms] by blast
  have le: "(s = Cancelled \<longrightarrow> s' = Cancelled) \<and> (status_is_terminal s \<longrightarrow> status_is_terminal s')
      \<and> (status_is_released s \<longrightarrow> \<not> status_is_pending s')" if "status_le s s'" for s s'
    using that by (cases s; cases s') (simp_all add: status_le_def)
  have "case om_get (al_transitions led) tid of
         None \<Rightarrow> (\<exists>n. transition_sequence tid = Some n \<and> al_next_transition_sequence led \<le> n)
       | Some t \<Rightarrow> evolves t t'" if t': "om_get (al_transitions led') tid = Some t'" for tid t'
  proof (cases "om_get (al_transitions led) tid")
    case (Some t)
    then have "transition_shape (al_next_transition_sequence led) tid t" using assms(3) by (simp add: activity_shape_def)
    then have "\<nexists>n. transition_sequence tid = Some n \<and> al_next_transition_sequence led \<le> n"
      by (auto simp: transition_shape_def)
    then show ?thesis using r(3) t' Some unfolding moves_def by fastforce
  qed (use r(3) t' in \<open>fastforce simp: moves_def\<close>)
  note life = this
  show ?thesis
  proof (intro exI[of _ led'] conjI allI impI r(1,2))
    fix tid t' assume g: "om_get (al_transitions led') tid = Some t'"
    show "case om_get (al_transitions led) tid of
         None \<Rightarrow> (\<exists>n. transition_sequence tid = Some n \<and> al_next_transition_sequence led \<le> n)
       | Some t \<Rightarrow> gt_person_id t' = gt_person_id t \<and> gt_action t' = gt_action t
           \<and> gt_to_department_id t' = gt_to_department_id t \<and> gt_intent_id t' = gt_intent_id t
           \<and> (gt_status t = Cancelled \<longrightarrow> gt_status t' = Cancelled)
           \<and> (status_is_terminal (gt_status t) \<longrightarrow> status_is_terminal (gt_status t'))
           \<and> (status_is_released (gt_status t) \<longrightarrow> \<not> status_is_pending (gt_status t'))"
    proof (cases "om_get (al_transitions led) tid")
      case (Some t)
      then have "evolves t t'" using life[OF g] by simp
      then show ?thesis using Some le[of "gt_status t" "gt_status t'"] by (simp add: evolves_def)
    qed (use life[OF g] in simp)
  qed
qed

theorem transitions_only_move_forward_witness:
  "\<exists>led'. holds sample_codec (foldl (activity_step sample_codec) \<lparr>slot_now = 0, slot_body = Some sample_ledger\<rparr>
     [(1767225660000, sample_manifest Paused :: unit organization_manifest, Release ''transition:1:worker:park'' ''worker''),
      (1767225660001, sample_manifest Paused, Settle ''worker'')]) led' \<and> activity_shape led'"
proof -
  let ?es = "[(1767225660000, sample_manifest Paused :: unit organization_manifest, Release ''transition:1:worker:park'' ''worker''),
      (1767225660001, sample_manifest Paused, Settle ''worker'')]"
  have "list_all (event_ok ''s'') ?es"
    using sample_validated[of Paused, where 'v = unit]
    by (simp add: event_ok_def sample_bounds stamp_at_def writable_instant_def HANDOFF_GRACE_MS_def)
  moreover have "al_next_transition_sequence sample_ledger + length ?es < u64_max" by (simp add: sample_bounds u64_max_def)
  ultimately show ?thesis
    using transitions_only_move_forward[OF sample_codec_faithful sample_codec_holds sample_ledger_ok, of ?es 0] by blast
qed

section \<open>Beginning again\<close>

lemma ensure_reuse:
  assumes "active_transition l (sp_person_id spec) = Some t" "om_get (al_transitions l) (gt_id t) = Some t"
    and "\<not> supersedes_plain_park spec t" "\<not> supersedes_terms spec t" "fits_spec spec t"
    and "status_is_terminal (gt_status t) \<Longrightarrow> own_structural_retry spec t"
    and "sp_intent_id spec \<noteq> None \<Longrightarrow> gt_intent_id t = sp_intent_id spec"
  shows "ensure_matching_transition l spec at = Inr (l, t)"
  using assms
  by (auto simp: ensure_matching_transition_def active_transition_id_of_def supersede_if_def fits_spec_def)

lemma cancel_placement:
  "map_option pa_last_department_id (om_get (al_people (cancel_transition l tid at)) p)
     = map_option pa_last_department_id (om_get (al_people l) p)"
  by (cases "om_get (al_people l) p") (simp_all add: cancel_people)

lemma new_placement:
  "new_transition l spec at = Inr (l', t) \<Longrightarrow>
     map_option pa_last_department_id (om_get (al_people l') p) = map_option pa_last_department_id (om_get (al_people l) p)"
  by (auto simp: new_transition_def Let_def store_simps split: option.splits)

lemma ensure_placement:
  assumes "ensure_matching_transition l spec at = Inr (l', t)"
  shows "map_option pa_last_department_id (om_get (al_people l') p) = map_option pa_last_department_id (om_get (al_people l) p)"
proof -
  obtain l1 e where s: "supersede_if (supersedes_terms spec) at
        (supersede_if (supersedes_plain_park spec) at (l, active_transition_id_of l (sp_person_id spec))) = (l1, e)"
    by fastforce
  have sup: "map_option pa_last_department_id (om_get (al_people (fst (supersede_if test at le))) p)
      = map_option pa_last_department_id (om_get (al_people (fst le)) p)" for test le
    by (auto simp: supersede_if_def cancel_placement split: prod.splits option.splits)
  have "map_option pa_last_department_id (om_get (al_people l1) p) = map_option pa_last_department_id (om_get (al_people l) p)"
    using sup[of "supersedes_terms spec" "supersede_if (supersedes_plain_park spec) at (l, active_transition_id_of l (sp_person_id spec))"]
      sup[of "supersedes_plain_park spec" "(l, active_transition_id_of l (sp_person_id spec))"] s by simp
  moreover have "l' = l1 \<or> new_transition l1 spec at = Inr (l', t)"
    using assms s by (auto simp: ensure_matching_transition_def split: option.splits if_splits)
  ultimately show ?thesis using new_placement by metis
qed

lemma begin_run:
  assumes "begin_transition_in m input l at = Inr (l', t)"
  obtains spec st where "begin_spec input = Inr spec" "ensure_matching_transition l spec at = Inr (l', t)"
    "sp_person_id spec = bt_person_id input" "sp_action spec = bt_action input"
    "sp_to_department_id spec = begin_target input" "spec_ok m spec"
    "person m (bt_person_id input) \<noteq> None" "om_get (al_people l) (bt_person_id input) = Some st"
    "begin_target input \<noteq> Some (pa_last_department_id st)"
    "\<And>l2 st2 at2. om_get (al_people l2) (bt_person_id input) = Some st2 \<Longrightarrow>
       pa_last_department_id st2 = pa_last_department_id st \<Longrightarrow>
       begin_transition_in m input l2 at2 = ensure_matching_transition l2 spec at2"
proof -
  let ?pid = "bt_person_id input"
  have p: "person m ?pid \<noteq> None"
  proof
    assume "person m ?pid = None"
    then show False using assms by (simp add: begin_transition_in_def)
  qed
  then obtain st where st: "om_get (al_people l) ?pid = Some st"
    using assms by (auto simp: begin_transition_in_def split: option.splits if_splits)
  define bad where "bad = (needs_target (bt_action input)
          \<and> \<not> (case begin_target input of None \<Rightarrow> False | Some unit_id \<Rightarrow> known_department m unit_id)
        \<or> \<not> needs_target (bt_action input) \<and> begin_target input \<noteq> None
        \<or> begin_target input = Some (pa_last_department_id st))"
  have nb: "\<not> bad"
    using assms p st by (auto simp: begin_transition_in_def Let_def bad_def split: if_splits)
  have run: "begin_transition_in m input l2 at2 = res_bind (begin_spec input) (\<lambda>spec. ensure_matching_transition l2 spec at2)"
    if "om_get (al_people l2) ?pid = Some st2" "pa_last_department_id st2 = pa_last_department_id st" for l2 st2 at2
    using that nb p unfolding bad_def begin_transition_in_def Let_def by auto
  have "res_bind (begin_spec input) (\<lambda>spec. ensure_matching_transition l spec at) = Inr (l', t)"
    using run[OF st refl, of at] assms by simp
  then obtain spec where spec: "begin_spec input = Inr spec"
      "ensure_matching_transition l spec at = Inr (l', t)" by (auto simp: res_bind_Inr_iff)
  have "sp_person_id spec = ?pid" "sp_action spec = bt_action input" "sp_to_department_id spec = begin_target input"
      "spec_ok m spec"
    using spec(1) nb unfolding bad_def
    by (auto simp: begin_spec_def res_bind_Inr_iff spec_ok_def dest!: required_Inr split: option.splits)
  then show thesis using that[OF spec _ _ _ _ p st] nb run spec(1) by (simp add: bad_def)
qed

text \<open>
  Beginning a transition is idempotent. On a valid ledger, what \<open>begin\<close> answers is the transition the
  person is now in, with the action and target asked for and the intent asked for, if any; and asking again,
  at any later instant, answers that very transition and changes nothing, unless it is a routine idle park,
  which is over as soon as it begins.
\<close>

theorem begin_is_idempotent:
  assumes "activity_ok l m" "stamp_at now at" "al_next_transition_sequence l < u64_max"
    and "begin_transition_in m input l at = Inr (l', t)"
  shows "active_transition l' (bt_person_id input) = Some t \<and> gt_person_id t = bt_person_id input
    \<and> gt_action t = bt_action input \<and> gt_to_department_id t = begin_target input
    \<and> (bt_intent_id input = None \<or> gt_intent_id t = map_option trim (bt_intent_id input))
    \<and> (is_routine_idle_park t \<and> gt_status t = Forced \<or> begin_transition_in m input l' at' = Inr (l', t))"
proof -
  obtain spec st where b: "begin_spec input = Inr spec" "ensure_matching_transition l spec at = Inr (l', t)"
    "sp_person_id spec = bt_person_id input" "sp_action spec = bt_action input"
    "sp_to_department_id spec = begin_target input" "spec_ok m spec"
    "om_get (al_people l) (bt_person_id input) = Some st"
    and again: "\<And>l2 st2 at2. om_get (al_people l2) (bt_person_id input) = Some st2 \<Longrightarrow>
       pa_last_department_id st2 = pa_last_department_id st \<Longrightarrow>
       begin_transition_in m input l2 at2 = ensure_matching_transition l2 spec at2"
    by (rule begin_run[OF assms(4)]) blast
  have intent: "sp_intent_id spec = map_option trim (bt_intent_id input)"
    using b(1) by (auto simp: begin_spec_def res_bind_Inr_iff required_def Let_def split: option.splits if_splits)
  obtain st' where st': "om_get (al_people l') (bt_person_id input) = Some st'"
      "pa_last_department_id st' = pa_last_department_id st"
    using ensure_placement[OF b(2), of "bt_person_id input"] b(7) by auto
  have "active_transition l' (sp_person_id spec) = Some t \<and> fits_spec spec t
      \<and> (sp_intent_id spec \<noteq> None \<longrightarrow> gt_intent_id t = sp_intent_id spec)
      \<and> om_get (al_transitions l') (gt_id t) = Some t
      \<and> (is_routine_idle_park t \<and> gt_status t = Forced \<or> \<not> supersedes_plain_park spec t \<and> \<not> supersedes_terms spec t
          \<and> (status_is_terminal (gt_status t) \<longrightarrow> own_structural_retry spec t))"
    using ensure_cases[OF assms(1) b(6) assms(2,3), of st] b(2,3,7)
      ok_active(1)[of l' m "sp_person_id spec" t] ok_active(1)[of l m "sp_person_id spec" t] assms(1)
    by (auto simp: supersedes_plain_park_def supersedes_terms_def fits_spec_def)
  then have f: "active_transition l' (sp_person_id spec) = Some t" "fits_spec spec t"
      "sp_intent_id spec \<noteq> None \<Longrightarrow> gt_intent_id t = sp_intent_id spec" "om_get (al_transitions l') (gt_id t) = Some t"
      "is_routine_idle_park t \<and> gt_status t = Forced \<or> \<not> supersedes_plain_park spec t \<and> \<not> supersedes_terms spec t
          \<and> (status_is_terminal (gt_status t) \<longrightarrow> own_structural_retry spec t)"
    by blast+
  have "is_routine_idle_park t \<and> gt_status t = Forced \<or> begin_transition_in m input l' at' = Inr (l', t)"
    using f(5) ensure_reuse[OF f(1,4) _ _ f(2) _ f(3)] again[OF st'] by metis
  moreover have "bt_intent_id input = None \<or> gt_intent_id t = map_option trim (bt_intent_id input)"
    using f(3) intent by (cases "bt_intent_id input") simp_all
  ultimately show ?thesis using f(1,2) b(3-5) by (simp add: fits_spec_def)
qed

theorem begin_is_idempotent_witness:
  "\<exists>l' t. begin_transition_in (sample_manifest Unit_Active :: unit organization_manifest)
      \<lparr>bt_person_id = ''head'', bt_action = Park, bt_reason = ''leave'', bt_to_department_id = None, bt_intent_id = Some ''i1''\<rparr>
      sample_ledger (iso_millis 1767225660000) = Inr (l', t)
    \<and> begin_transition_in (sample_manifest Unit_Active :: unit organization_manifest)
      \<lparr>bt_person_id = ''head'', bt_action = Park, bt_reason = ''leave'', bt_to_department_id = None, bt_intent_id = Some ''i1''\<rparr>
      l' (iso_millis 1767225670000) = Inr (l', t)"
proof -
  let ?m = "sample_manifest Unit_Active :: unit organization_manifest"
  let ?input = "\<lparr>bt_person_id = ''head'', bt_action = Park, bt_reason = ''leave'', bt_to_department_id = None, bt_intent_id = Some ''i1''\<rparr>"
  have ok: "activity_ok sample_ledger ?m"
    using validate_activity_iff[OF sample_activity(1,2)] sample_activity(3) by blast
  have n: "al_next_transition_sequence sample_ledger < u64_max" by (simp add: sample_bounds u64_max_def)
  have tr: "trim ''leave'' = ''leave''" "trim ''i1'' = ''i1''" by code_simp+
  have spec: "begin_spec ?input = Inr \<lparr>sp_person_id = ''head'', sp_action = Park, sp_reason = ''leave'',
      sp_to_department_id = None, sp_intent_id = Some ''i1''\<rparr>"
    by (simp add: begin_spec_def required_def begin_target_def tr TRANSITION_MAX_REASON_CHARACTERS_def
        char_count_def is_continuation_def)
  have run: "begin_transition_in ?m ?input sample_ledger (iso_millis 1767225660000)
      = new_transition sample_ledger \<lparr>sp_person_id = ''head'', sp_action = Park, sp_reason = ''leave'',
          sp_to_department_id = None, sp_intent_id = Some ''i1''\<rparr> (iso_millis 1767225660000)"
    using spec by (simp add: begin_transition_in_def begin_target_def needs_target_def sample_ledger_def sample_manifest_def
        person_def om_get_def sample_state_def ensure_matching_transition_def active_transition_id_of_def
        active_transition_def supersede_if_def)
  obtain l' t where lt: "new_transition sample_ledger \<lparr>sp_person_id = ''head'', sp_action = Park, sp_reason = ''leave'',
          sp_to_department_id = None, sp_intent_id = Some ''i1''\<rparr> (iso_millis 1767225660000) = Inr (l', t)"
    using stamp_parses[OF sample_stamp]
    by (auto simp: new_transition_def Let_def sample_ledger_def om_get_def)
  then have "t = t \<and> gt_intent_id t = Some ''i1''"
    by (auto simp: new_transition_def Let_def split: option.splits)
  then have "\<not> is_routine_idle_park t" by (simp add: is_routine_idle_park_def)
  then show ?thesis
    using begin_is_idempotent[OF ok sample_stamp n, of ?input l' t "iso_millis 1767225670000"] run lt by auto
qed

end
