(* ===== verification/Activity_Reconcile.thy ===== *)
theory Activity_Reconcile
  imports Activity_Contract
begin

text \<open>
  The demand reconciliation of the activity ledger (\<open>chiefd-core/src/store/activity.rs\<close>, \<open>reconcile\<close> and
  what it is made of): from the manifest, the launch fence and the people asked for it decides who should be
  running, opens and advances the transitions that takes, and answers a decision for every person. The loops
  over the people are folds over \<open>al_person_order\<close>; what the loop carries is the record \<open>reconcile_state\<close>.
\<close>

definition ORGANIZATION_AUTOMATIC_PARK_MAX_IN_FLIGHT :: nat where "ORGANIZATION_AUTOMATIC_PARK_MAX_IN_FLIGHT = 2"
definition ORGANIZATION_SETTLED_IDLE_STOP_LEASE_MS :: int where "ORGANIZATION_SETTLED_IDLE_STOP_LEASE_MS = 300 * 1000"
definition AGENT_ACTIVITY_LIVENESS_MS :: int where "AGENT_ACTIVITY_LIVENESS_MS = 300 * 1000"

section \<open>The fence and the input\<close>

datatype launch_fence = Fenced "string set" | Unfenced

definition fence_fenced :: "string list \<Rightarrow> launch_fence" where "fence_fenced ids = Fenced (set ids)"
definition fence_deny_all :: launch_fence where "fence_deny_all = Fenced {}"

fun admits :: "launch_fence \<Rightarrow> string \<Rightarrow> string \<Rightarrow> bool" where
  "admits Unfenced person_id chief \<longleftrightarrow> True"
| "admits (Fenced allowed) person_id chief \<longleftrightarrow> person_id = chief \<or> person_id \<in> allowed"

record reconcile_input =
  ri_launch_intent :: launch_fence
  ri_requested_person_ids :: "string list"
  ri_watching_since :: string

record person_activity_decision =
  pd_person_id :: string
  pd_active :: bool
  pd_reasons :: "activity_reason list"
  pd_transition_id :: "string option"

type_synonym activity_snapshot = "(string, person_activity_decision) omap"

section \<open>Reasons\<close>

text \<open>
  The reasons of one person are an ordered set, in the order the enumeration declares them, which is the
  order a decision lists them in.
\<close>

fun reason_rank :: "activity_reason \<Rightarrow> nat" where
  "reason_rank ManagingOpenWork = 0"
| "reason_rank OrganizationRoot = 1"
| "reason_rank Requested = 2"
| "reason_rank HandoffRequired = 3"
| "reason_rank TransitionReady = 4"
| "reason_rank MaintenanceBackpressure = 5"

lemma reason_rank_inj: "reason_rank r = reason_rank s \<Longrightarrow> r = s"
  by (cases r; cases s) simp_all

instantiation activity_reason :: linorder
begin

definition "r \<le> s \<longleftrightarrow> reason_rank r \<le> reason_rank s"
definition "r < s \<longleftrightarrow> reason_rank r < reason_rank s"

instance
  by standard (auto simp: less_eq_activity_reason_def less_activity_reason_def dest: reason_rank_inj)

end

type_synonym reasons = "(string, activity_reason set) omap"

definition reasons_of :: "reasons \<Rightarrow> string \<Rightarrow> activity_reason set" where
  "reasons_of r person_id = (case om_get r person_id of None \<Rightarrow> {} | Some s \<Rightarrow> s)"

definition add_reason :: "reasons \<Rightarrow> string \<Rightarrow> activity_reason \<Rightarrow> reasons" where
  "add_reason r person_id reason = om_put person_id (insert reason (reasons_of r person_id)) r"

definition has_effective_demand :: "reasons \<Rightarrow> string \<Rightarrow> bool" where
  "has_effective_demand r person_id \<longleftrightarrow> (\<exists>reason \<in> reasons_of r person_id. is_effective_demand reason)"

definition has_own_pinning_demand :: "reasons \<Rightarrow> string \<Rightarrow> bool" where
  "has_own_pinning_demand r person_id \<longleftrightarrow> (\<exists>reason \<in> reasons_of r person_id. reason \<noteq> ManagingOpenWork)"

section \<open>What a person's row says\<close>

definition person_is_operational :: "'v organization_manifest \<Rightarrow> string \<Rightarrow> bool" where
  "person_is_operational m person_id = (case person m person_id of
     None \<Rightarrow> False
   | Some p \<Rightarrow>
       if ps_employment_state p \<noteq> Employment_Active \<or> \<not> organization_unit_is_active m (ps_department_id p)
       then False
       else (case headed_department m person_id of
          None \<Rightarrow> True | Some headed \<Rightarrow> organization_unit_is_active m (dp_id headed)))"

definition agent_quiet_since :: "person_activity_state \<Rightarrow> int \<Rightarrow> int \<Rightarrow> string option" where
  "agent_quiet_since state watching_since now = (case pa_agent_quiet_at state of
     Some quiet_at \<Rightarrow> Some quiet_at
   | None \<Rightarrow>
       (case Option.bind (pa_agent_active_at state) parse_iso_millis of
          None \<Rightarrow> None
        | Some active_at \<Rightarrow>
            (let conclusive_at = sat_add_i64 (max active_at watching_since) AGENT_ACTIVITY_LIVENESS_MS
             in if conclusive_at \<le> now then Some (iso_millis conclusive_at) else None)))"

definition operator_wake_lease_active :: "person_activity_state \<Rightarrow> int \<Rightarrow> bool" where
  "operator_wake_lease_active state now = (case Option.bind (pa_operator_wake_at state) parse_iso_millis of
     None \<Rightarrow> False
   | Some woke_at \<Rightarrow> woke_at \<le> now \<and> now < woke_at + ORGANIZATION_SETTLED_IDLE_STOP_LEASE_MS)"

definition settled_idle_stop_lease_expired :: "person_activity_state \<Rightarrow> int \<Rightarrow> bool" where
  "settled_idle_stop_lease_expired state now \<longleftrightarrow>
     \<not> operator_wake_lease_active state now \<and> pa_last_desired_active state
     \<and> (case Option.bind (pa_idle_since state) parse_iso_millis of
          None \<Rightarrow> False
        | Some idle_at \<Rightarrow> idle_at + ORGANIZATION_SETTLED_IDLE_STOP_LEASE_MS \<le> now)"

text \<open>The transition a change of the manifest asks of a person.\<close>

record structural_change =
  sc_action :: transition_action
  sc_to_department_id :: "string option"
  sc_force_removal :: bool

definition plain_change :: "transition_action \<Rightarrow> structural_change" where
  "plain_change action = \<lparr>sc_action = action, sc_to_department_id = None, sc_force_removal = False\<rparr>"

definition structural_transition ::
  "person_activity_state \<Rightarrow> 'v organization_manifest \<Rightarrow> string \<Rightarrow> structural_change option" where
  "structural_transition state m person_id = (case person m person_id of
     None \<Rightarrow> None
   | Some p \<Rightarrow>
       if pa_last_employment_state state = Employment_Active \<and> ps_employment_state p = Departed
       then Some (plain_change Offboard)
       else if pa_last_employment_state state = Employment_Active \<and> ps_employment_state p \<noteq> Employment_Active
       then Some (plain_change Park)
       else if pa_last_operational state \<and> \<not> organization_unit_is_active m (ps_department_id p)
       then Some ((plain_change Park)\<lparr>sc_force_removal := True\<rparr>)
       else if pa_last_department_id state \<noteq> ps_department_id p
       then Some \<lparr>sc_action = Transfer, sc_to_department_id = Some (ps_department_id p), sc_force_removal = False\<rparr>
       else None)"

section \<open>Before the loop: requests, idle people, automatic parks\<close>

definition check_requested :: "'v organization_manifest \<Rightarrow> string list \<Rightarrow> chiefd_error + unit" where
  "check_requested m requested = res_fold (\<lambda>_ person_id.
     if person m person_id = None
     then Inl (refused UNKNOWN_PERSON (''Unknown requested person '' @ quoted person_id)) else Inr ()) () requested"

definition initial_reasons :: "'v organization_manifest \<Rightarrow> string \<Rightarrow> string list \<Rightarrow> reasons" where
  "initial_reasons m ceo requested = foldl (\<lambda>r person_id.
     if person_is_operational m person_id then add_reason r person_id Requested else r)
     (add_reason [] ceo OrganizationRoot) requested"

definition note_idle ::
  "string \<Rightarrow> reasons \<Rightarrow> int \<Rightarrow> int \<Rightarrow> activity_ledger \<Rightarrow> string \<Rightarrow> activity_ledger" where
  "note_idle ceo r watching_since now draft person_id = draft\<lparr>al_people := om_adjust person_id (\<lambda>state.
     state\<lparr>pa_idle_since := (if person_id = ceo \<or> has_effective_demand r person_id \<or> \<not> pa_last_desired_active state
       then None else agent_quiet_since state watching_since now)\<rparr>) (al_people draft)\<rparr>"

definition parks_in_flight :: "activity_ledger \<Rightarrow> nat" where
  "parks_in_flight draft = length (filter (\<lambda>person_id. case active_transition draft person_id of
     None \<Rightarrow> False
   | Some t \<Rightarrow> is_routine_idle_park t \<and> status_is_pending (gt_status t)) (al_person_order draft))"

definition park_round_robin :: "activity_ledger \<Rightarrow> string list" where
  "park_round_robin draft =
     (let order = al_person_order draft;
          cursor = (if order = [] then 0
            else (case al_automatic_park_cursor draft of None \<Rightarrow> 0 | Some c \<Rightarrow> c) mod length order)
      in drop cursor order @ take cursor order)"

definition is_park_candidate ::
  "'v organization_manifest \<Rightarrow> string \<Rightarrow> reasons \<Rightarrow> int \<Rightarrow> activity_ledger \<Rightarrow> string \<Rightarrow> bool" where
  "is_park_candidate m ceo r now draft person_id =
     (if person_id = ceo then False
      else (case om_get (al_people draft) person_id of
         None \<Rightarrow> False
       | Some state \<Rightarrow>
           if \<not> pa_last_desired_active state \<or> has_own_pinning_demand r person_id
             \<or> structural_transition state m person_id \<noteq> None
             \<or> \<not> settled_idle_stop_lease_expired state now
           then False
           else active_transition draft person_id = None))"

definition admitted_parks ::
  "'v organization_manifest \<Rightarrow> string \<Rightarrow> reasons \<Rightarrow> int \<Rightarrow> activity_ledger \<Rightarrow> string list" where
  "admitted_parks m ceo r now draft =
     take (ORGANIZATION_AUTOMATIC_PARK_MAX_IN_FLIGHT - parks_in_flight draft)
       (filter (is_park_candidate m ceo r now draft) (park_round_robin draft))"

text \<open>
  \<open>position\<close> of an id in the order, 0 where it is absent, and \<open>max_by_key\<close> over a set's iteration in key
  order, where the last of equal maxima wins.
\<close>

definition position_or_0 :: "string list \<Rightarrow> string \<Rightarrow> nat" where
  "position_or_0 order person_id =
     (if person_id \<in> set order then length (takeWhile (\<lambda>x. x \<noteq> person_id) order) else 0)"

definition max_by_key :: "('a \<Rightarrow> nat) \<Rightarrow> 'a list \<Rightarrow> 'a option" where
  "max_by_key key xs = foldl (\<lambda>best x. case best of
     None \<Rightarrow> Some x | Some b \<Rightarrow> if key b \<le> key x then Some x else Some b) None xs"

definition advance_park_cursor :: "string list \<Rightarrow> activity_ledger \<Rightarrow> activity_ledger" where
  "advance_park_cursor admitted draft =
     (let order = al_person_order draft
      in case max_by_key (position_or_0 order) (sorted_set admitted) of
           None \<Rightarrow> draft
         | Some last_admitted \<Rightarrow>
             if 0 < length order
             then draft\<lparr>al_automatic_park_cursor :=
               Some ((position_or_0 order last_admitted + 1) mod length order)\<rparr>
             else draft)"

section \<open>The loop over the people: opening and advancing transitions\<close>

record reconcile_state =
  rs_draft :: activity_ledger
  rs_reasons :: reasons
  rs_abandoned :: "string set"
  rs_direct_transfers :: "string set"

text \<open>
  The source indexes the maps by an id it just read out of the ledger. A missing key would panic there; here
  it is a refusal, which \<open>reconcile\<close> never answers on a valid ledger.
\<close>

definition transition_at :: "activity_ledger \<Rightarrow> string \<Rightarrow> chiefd_error + graceful_transition" where
  "transition_at draft tid = (case om_get (al_transitions draft) tid of
     None \<Rightarrow> Inl (vanished ''an indexed transition'') | Some t \<Rightarrow> Inr t)"

definition person_at :: "activity_ledger \<Rightarrow> string \<Rightarrow> chiefd_error + person_activity_state" where
  "person_at draft person_id = (case om_get (al_people draft) person_id of
     None \<Rightarrow> Inl (vanished ''an indexed person'') | Some state \<Rightarrow> Inr state)"

definition mark_overdue :: "int \<Rightarrow> activity_ledger \<Rightarrow> string option \<Rightarrow> chiefd_error + activity_ledger" where
  "mark_overdue now draft transition = (case transition of
     None \<Rightarrow> Inr draft
   | Some tid \<Rightarrow> res_bind (transition_at draft tid) (\<lambda>current.
       Inr (if gt_status current = AwaitingHandoff
              \<and> (case parse_iso_millis (gt_handoff_deadline_at current) of None \<Rightarrow> False | Some d \<Rightarrow> d \<le> now)
            then draft\<lparr>al_transitions := om_put tid (current\<lparr>gt_status := Overdue\<rparr>) (al_transitions draft)\<rparr>
            else draft)))"

text \<open>A fenced person with a change of placement: what they have in flight is cancelled and stamped.\<close>

definition abandon_active :: "activity_ledger \<Rightarrow> string \<Rightarrow> string \<Rightarrow> activity_ledger" where
  "abandon_active draft person_id at = (case active_transition_id_of draft person_id of
     None \<Rightarrow> draft
   | Some tid \<Rightarrow>
       (let d = cancel_transition draft tid at
        in d\<lparr>al_transitions := om_adjust tid (\<lambda>t. t\<lparr>gt_abandoned_at := Some at\<rparr>) (al_transitions d)\<rparr>))"

definition pending_or_none :: "activity_ledger \<Rightarrow> string \<Rightarrow> bool" where
  "pending_or_none draft person_id = (case active_transition draft person_id of
     None \<Rightarrow> True | Some t \<Rightarrow> status_is_pending (gt_status t))"

definition structural_spec :: "string \<Rightarrow> structural_change \<Rightarrow> transition_spec" where
  "structural_spec person_id change =
     \<lparr>sp_person_id = person_id, sp_action = sc_action change,
      sp_reason = ''Release the transition before '' @ action_as_str (sc_action change)
        @ '' changes pane ownership.'',
      sp_to_department_id = sc_to_department_id change, sp_intent_id = None\<rparr>"

definition idle_park_spec :: "string \<Rightarrow> transition_spec" where
  "idle_park_spec person_id = \<lparr>sp_person_id = person_id, sp_action = Park, sp_reason = IDLE_AUTO_PARK_REASON,
     sp_to_department_id = None, sp_intent_id = None\<rparr>"

definition reconcile_structural_change ::
  "string \<Rightarrow> structural_change \<Rightarrow> string \<Rightarrow> reconcile_state \<Rightarrow> chiefd_error + reconcile_state" where
  "reconcile_structural_change person_id change at s =
     res_bind (ensure_matching_transition (rs_draft s) (structural_spec person_id change) at) (\<lambda>(draft, t).
       Inr (s\<lparr>rs_draft := draft,
              rs_reasons := add_reason (rs_reasons s) person_id
                (if status_is_pending (gt_status t) then HandoffRequired else TransitionReady)\<rparr>))"

definition reconcile_idle ::
  "string set \<Rightarrow> string \<Rightarrow> string \<Rightarrow> reconcile_state \<Rightarrow> chiefd_error + reconcile_state" where
  "reconcile_idle admitted person_id at s =
     (if case active_transition (rs_draft s) person_id of None \<Rightarrow> False | Some t \<Rightarrow> gt_action t \<noteq> Park then Inr s
      else if active_transition (rs_draft s) person_id \<noteq> None \<or> person_id \<in> admitted
      then res_bind (ensure_matching_transition (rs_draft s) (idle_park_spec person_id) at) (\<lambda>(draft, t).
         Inr (s\<lparr>rs_draft := draft,
                rs_reasons := (if status_is_pending (gt_status t)
                  then add_reason (rs_reasons s) person_id HandoffRequired else rs_reasons s)\<rparr>))
      else Inr (s\<lparr>rs_reasons := add_reason (rs_reasons s) person_id MaintenanceBackpressure\<rparr>))"

text \<open>A park without an intent yields to demand: an applied one is let go, another is cancelled.\<close>

definition yield_park :: "string \<Rightarrow> string \<Rightarrow> activity_ledger \<Rightarrow> chiefd_error + activity_ledger" where
  "yield_park person_id at draft =
     (if case active_transition draft person_id of
           None \<Rightarrow> False | Some t \<Rightarrow> gt_action t = Park \<and> gt_intent_id t = None
      then (case active_transition_id_of draft person_id of
           None \<Rightarrow> Inr draft
         | Some tid \<Rightarrow> res_bind (transition_at draft tid) (\<lambda>t.
             Inr (if gt_status t = Applied
                  then draft\<lparr>al_people := om_adjust person_id (\<lambda>state.
                    state\<lparr>pa_active_transition_id := None, pa_updated_at := at\<rparr>) (al_people draft)\<rparr>
                  else cancel_transition draft tid at)))
      else Inr draft)"

definition note_pending :: "string \<Rightarrow> reconcile_state \<Rightarrow> chiefd_error + reconcile_state" where
  "note_pending person_id s = (case active_transition_id_of (rs_draft s) person_id of
     None \<Rightarrow> Inr s
   | Some tid \<Rightarrow> res_bind (transition_at (rs_draft s) tid) (\<lambda>t.
       Inr (if status_is_pending (gt_status t)
            then s\<lparr>rs_reasons := add_reason (rs_reasons s) person_id HandoffRequired\<rparr> else s)))"

definition reconcile_person ::
  "'v organization_manifest \<Rightarrow> launch_fence \<Rightarrow> string \<Rightarrow> string set \<Rightarrow> int \<Rightarrow> string
     \<Rightarrow> reconcile_state \<Rightarrow> string \<Rightarrow> chiefd_error + reconcile_state" where
  "reconcile_person m fence ceo admitted now at s0 person_id =
     (let transition = active_transition_id_of (rs_draft s0) person_id
      in res_bind (mark_overdue now (rs_draft s0) transition) (\<lambda>draft.
         let s = s0\<lparr>rs_draft := draft\<rparr>
         in res_bind (person_at draft person_id) (\<lambda>state.
            case structural_transition state m person_id of
              Some change \<Rightarrow>
                if sc_action change = Transfer \<and> transition = None \<and> admits fence person_id ceo
                then Inr (s\<lparr>rs_direct_transfers := insert person_id (rs_direct_transfers s)\<rparr>)
                else if pending_or_none draft person_id \<and> \<not> admits fence person_id ceo
                then Inr (s\<lparr>rs_draft := abandon_active draft person_id at,
                            rs_abandoned := insert person_id (rs_abandoned s)\<rparr>)
                else res_bind (reconcile_structural_change person_id change at s) (note_pending person_id)
            | None \<Rightarrow>
                if \<not> has_own_pinning_demand (rs_reasons s) person_id \<and> pa_last_desired_active state
                then res_bind (reconcile_idle admitted person_id at s) (note_pending person_id)
                else if has_own_pinning_demand (rs_reasons s) person_id
                then res_bind (yield_park person_id at draft) (\<lambda>d. note_pending person_id (s\<lparr>rs_draft := d\<rparr>))
                else note_pending person_id s)))"

section \<open>The decision for each person\<close>

definition put_applied :: "string \<Rightarrow> graceful_transition \<Rightarrow> string \<Rightarrow> activity_ledger \<Rightarrow> activity_ledger" where
  "put_applied tid t at draft =
     (if gt_status t \<noteq> Applied
      then draft\<lparr>al_transitions :=
        om_put tid (t\<lparr>gt_status := Applied, gt_applied_at := Some at\<rparr>) (al_transitions draft)\<rparr>
      else draft)"

text \<open>
  The match over the structural change and the transition in flight: the draft, the reasons, whether the
  person is to run and whether the row's placement advances.
\<close>

definition decide_transition ::
  "reconcile_state \<Rightarrow> string \<Rightarrow> string \<Rightarrow> structural_change option \<Rightarrow> string option \<Rightarrow> bool \<Rightarrow> bool \<times> bool
     \<Rightarrow> chiefd_error + (activity_ledger \<times> reasons \<times> bool \<times> bool)" where
  "decide_transition s person_id at structural transition has_work_lease aa =
     (let draft = rs_draft s; r = rs_reasons s; same = Inr (draft, r, aa)
      in case (structural, transition) of
        (None, None) \<Rightarrow> same
      | (Some change, None) \<Rightarrow> if person_id \<in> rs_abandoned s then Inr (draft, r, False, True) else same
      | (Some change, Some tid) \<Rightarrow>
          if person_id \<in> rs_abandoned s then Inr (draft, r, False, True)
          else res_bind (transition_at draft tid) (\<lambda>current.
            if \<not> status_is_released (gt_status current) then same
            else (let removal = is_removal (gt_action current)
              in if \<not> removal \<or> \<not> has_work_lease \<or> sc_force_removal change
                 then (let d = put_applied tid current at draft
                   in Inr (d\<lparr>al_people := om_adjust person_id (\<lambda>state. state\<lparr>pa_active_transition_id := None\<rparr>)
                        (al_people d)\<rparr>, r, (if removal then False else has_work_lease), True))
                 else Inr (draft, r, True, snd aa)))
      | (None, Some tid) \<Rightarrow> res_bind (transition_at draft tid) (\<lambda>t.
          if gt_action t = Park \<and> status_is_released (gt_status t)
            \<and> (\<not> has_work_lease \<or> gt_intent_id t \<noteq> None)
          then Inr (put_applied tid t at draft, r, False, snd aa)
          else if gt_action t \<noteq> Park
          then Inr (draft, add_reason r person_id (if gt_status t = Ready then TransitionReady else HandoffRequired),
                    True, snd aa)
          else same))"

definition decided_state ::
  "'v organization_manifest \<Rightarrow> 'v person_record \<Rightarrow> string \<Rightarrow> bool \<Rightarrow> bool \<Rightarrow> person_activity_state
     \<Rightarrow> person_activity_state" where
  "decided_state m p at active advance_placement state =
     (let woken = (if active \<and> \<not> pa_last_desired_active state
            then state\<lparr>pa_agent_quiet_at := None, pa_agent_active_at := None, pa_idle_since := None\<rparr> else state);
          decided = woken\<lparr>pa_last_desired_active := active\<rparr>;
          placed = (if advance_placement
            then decided\<lparr>pa_last_employment_state := ps_employment_state p,
                   pa_last_department_id := ps_department_id p,
                   pa_last_operational := organization_unit_is_active m (ps_department_id p)\<rparr> else decided)
      in placed\<lparr>pa_updated_at := at\<rparr>)"

definition decide_person ::
  "'v organization_manifest \<Rightarrow> launch_fence \<Rightarrow> string \<Rightarrow> string
     \<Rightarrow> reconcile_state \<times> activity_snapshot \<Rightarrow> string \<Rightarrow> chiefd_error + (reconcile_state \<times> activity_snapshot)" where
  "decide_person m fence ceo at sp person_id = (case sp of (s, people) \<Rightarrow>
     (case person m person_id of
        None \<Rightarrow> Inl (vanished ''an indexed person'')
      | Some p \<Rightarrow>
          res_bind (person_at (rs_draft s) person_id) (\<lambda>state.
            let structural = structural_transition state m person_id;
                transition = active_transition_id_of (rs_draft s) person_id;
                lease = reasons_of (rs_reasons s) person_id;
                has_work_lease = (\<exists>reason \<in> lease. is_effective_demand reason);
                active = (has_work_lease \<or> HandoffRequired \<in> lease \<or> MaintenanceBackpressure \<in> lease);
                advance = (structural = None);
                direct = (person_id \<in> rs_direct_transfers s)
            in res_bind (decide_transition s person_id at structural transition has_work_lease
                   (active \<or> direct \<and> pa_last_desired_active state, advance \<or> direct)) (\<lambda>(draft, r, act, adv).
               let act' = (act \<and> admits fence person_id ceo);
                   final = draft\<lparr>al_people := om_adjust person_id (decided_state m p at act' adv) (al_people draft)\<rparr>
               in Inr (s\<lparr>rs_draft := final, rs_reasons := r\<rparr>,
                       om_put person_id \<lparr>pd_person_id = person_id, pd_active = act',
                         pd_reasons = sorted_list_of_set (reasons_of r person_id),
                         pd_transition_id = active_transition_id_of final person_id\<rparr> people)))))"

section \<open>The whole reconciliation\<close>

definition reconcile_in ::
  "'v organization_manifest \<Rightarrow> string \<Rightarrow> reconcile_input \<Rightarrow> int \<Rightarrow> activity_snapshot activity_closure" where
  "reconcile_in m ceo input now draft0 at =
     (let watching_since = (case parse_iso_millis (ri_watching_since input) of None \<Rightarrow> i64_max | Some w \<Rightarrow> w);
          requested = sorted_set (ri_requested_person_ids input)
      in res_bind (check_requested m requested) (\<lambda>_.
         let r = initial_reasons m ceo requested;
             draft1 = foldl (note_idle ceo r watching_since now) draft0 (al_person_order draft0);
             admitted = admitted_parks m ceo r now draft1;
             draft2 = advance_park_cursor admitted draft1;
             s0 = \<lparr>rs_draft = draft2, rs_reasons = r, rs_abandoned = {}, rs_direct_transfers = {}\<rparr>
         in res_bind (res_fold (reconcile_person m (ri_launch_intent input) ceo (set admitted) now at) s0
                        (al_person_order draft2)) (\<lambda>s.
            res_bind (res_fold (decide_person m (ri_launch_intent input) ceo at) (s, [])
                        (al_person_order (rs_draft s))) (\<lambda>(s', people).
            Inr (rs_draft s', people)))))"

definition activity_reconcile ::
  "'b activity_json \<Rightarrow> 'v organization_manifest \<Rightarrow> reconcile_input \<Rightarrow> 'b doc_slot
     \<Rightarrow> chiefd_error + ('b doc_slot \<times> activity_snapshot)" where
  "activity_reconcile J m input l =
     res_bind (map_err Refused (chief_person_id m)) (\<lambda>ceo.
       activity_mutate J m (reconcile_in m ceo input (slot_now l)) l)"

end
