(* ===== verification/Activity_Reconcile_Safety.thy ===== *)
theory Activity_Reconcile_Safety
  imports Activity_Reconcile
begin

text \<open>
  What the demand reconciliation guarantees on a valid ledger: every step of its loops is about one person
  and keeps the ledger valid, so the whole never breaks it; nobody outside the launch fence is left wanted;
  and the people asked for are.
\<close>

section \<open>Steps about one person\<close>

definition only :: "string \<Rightarrow> activity_ledger \<Rightarrow> activity_ledger \<Rightarrow> bool" where
  "only pid l l' \<longleftrightarrow> al_person_order l' = al_person_order l
     \<and> (\<forall>q. q \<noteq> pid \<longrightarrow> om_get (al_people l') q = om_get (al_people l) q
          \<and> active_transition l' q = active_transition l q)"

definition step_for :: "'v organization_manifest \<Rightarrow> string \<Rightarrow> nat \<Rightarrow> activity_ledger \<Rightarrow> activity_ledger \<Rightarrow> bool" where
  "step_for m pid k l l' \<longleftrightarrow> activity_ok l' m \<and> moves l l' \<and> only pid l l'
     \<and> al_next_transition_sequence l' \<le> al_next_transition_sequence l + k"

lemma step_refl: "activity_ok l m \<Longrightarrow> step_for m pid k l l"
  by (simp add: step_for_def only_def)

lemma step_trans: "step_for m pid j l l' \<Longrightarrow> step_for m pid k l' l'' \<Longrightarrow> j + k \<le> n \<Longrightarrow> step_for m pid n l l''"
  unfolding step_for_def only_def using moves_trans by fastforce

lemma step_ok: "step_for m pid k l l' \<Longrightarrow> activity_ok l' m"
  by (simp add: step_for_def)

lemma active_frame:
  assumes "om_get (al_people l') q = om_get (al_people l) q"
    and "\<And>st tid. om_get (al_people l) q = Some st \<Longrightarrow> pa_active_transition_id st = Some tid \<Longrightarrow>
           om_get (al_transitions l') tid = om_get (al_transitions l) tid"
  shows "active_transition l' q = active_transition l q"
  using assms by (auto simp: active_transition_def split: option.splits)

lemma step_put_state:
  assumes "activity_ok l m" "om_get (al_people l) pid \<noteq> None" "state_shape pid st" "pointer_ok l pid st"
    and "known_department m (pa_last_department_id st)"
  shows "step_for m pid 0 l (l\<lparr>al_people := om_put pid st (al_people l)\<rparr>)"
  unfolding step_for_def only_def
  using ok_put_state[OF assms] by (auto simp: store_simps intro: moves_drop active_frame)

text \<open>A pointer to a transition is held by the person the transition is about, if by anyone.\<close>

lemma pointed_owner:
  assumes "activity_ok l m" "om_get (al_people l) q = Some st" "pa_active_transition_id st = Some tid"
    and "om_get (al_transitions l) tid = Some t"
  shows "gt_person_id t = q"
  using ok_state(2)[OF assms(1,2)] assms(3,4) by (auto simp: pointer_ok_def)

lemma step_put_transition:
  assumes "activity_ok l m" "om_get (al_transitions l) tid = Some t0" "gt_person_id t0 = pid" "evolves t0 t"
    and "transition_shape (al_next_transition_sequence l) tid t"
    and "gt_status t = Cancelled \<Longrightarrow> (\<forall>st. om_get (al_people l) pid = Some st \<longrightarrow> pa_active_transition_id st \<noteq> Some tid)"
  shows "step_for m pid 0 l (l\<lparr>al_transitions := om_put tid t (al_transitions l)\<rparr>)"
proof -
  let ?l = "l\<lparr>al_transitions := om_put tid t (al_transitions l)\<rparr>"
  have "\<not> dangling m t"
    using ok_transition(2)[OF assms(1,2)] assms(4) by (simp add: dangling_def evolves_def)
  then have "activity_ok ?l m"
    using assms by (intro ok_put_transition) (auto simp: evolves_def)
  moreover have "moves l ?l" by (rule moves_put[OF assms(2,4)]) simp_all
  moreover have "active_transition ?l q = active_transition l q" if "q \<noteq> pid" for q
    using that pointed_owner[OF assms(1)] assms(2,3) by (intro active_frame) (auto simp: store_simps)
  ultimately show ?thesis by (simp add: step_for_def only_def)
qed

lemma step_cancel:
  assumes "activity_ok l m" "parse_iso_millis at \<noteq> None" "active_transition l pid = Some t"
  shows "step_for m pid 0 l (cancel_transition l (gt_id t) at)"
    and "active_transition (cancel_transition l (gt_id t) at) pid = None"
proof -
  let ?l = "cancel_transition l (gt_id t) at"
  note a = ok_active[OF assms(1,3)]
  obtain st where st: "om_get (al_people l) pid = Some st" "pa_active_transition_id st = Some (gt_id t)"
    using a(4) by blast
  have p: "om_get (al_people ?l) q = om_get (al_people l) q" if "q \<noteq> pid" for q
    using that a(1,2) by (cases "om_get (al_people l) q") (auto simp: cancel_people)
  have "active_transition ?l q = active_transition l q" if "q \<noteq> pid" for q
    using that p pointed_owner[OF assms(1)] a(1,2) by (intro active_frame) (auto simp: cancel_transitions)
  then show "step_for m pid 0 l ?l"
    using ok_cancel[OF assms(1,2)] moves_cancel p by (simp add: step_for_def only_def cancel_fields)
  show "active_transition ?l pid = None"
    using st a(1,2) by (simp add: active_transition_def cancel_people)
qed

lemma step_new_transition:
  assumes "activity_ok l m" "spec_ok m spec" "stamp_at now at" "al_next_transition_sequence l < u64_max"
    and "om_get (al_people l) (sp_person_id spec) = Some st" "new_transition l spec at = Inr (l', t)"
  shows "step_for m (sp_person_id spec) 1 l l'" "active_transition l' (sp_person_id spec) = Some t" "fits_spec spec t"
proof -
  from new_transition_good[OF assms(1-5)] assms(6)
  have g: "activity_ok l' m" "moves l l'" "al_next_transition_sequence l' \<le> Suc (al_next_transition_sequence l)"
    "fits_spec spec t" "active_transition l' (sp_person_id spec) = Some t" by auto
  then show "active_transition l' (sp_person_id spec) = Some t" "fits_spec spec t" by blast+
  have n: "om_get (al_transitions l) (gt_id t) = None"
    by (rule new_transition_ok[OF assms(1-5)]) (use assms(6) in auto)
  have f: "al_person_order l' = al_person_order l"
    "\<And>q. q \<noteq> sp_person_id spec \<Longrightarrow> om_get (al_people l') q = om_get (al_people l) q"
    "al_transitions l' = om_put (gt_id t) t (al_transitions l)"
    using assms(6) by (auto simp: new_transition_def Let_def store_simps split: option.splits)
  have "active_transition l' q = active_transition l q" if "q \<noteq> sp_person_id spec" for q
  proof (rule active_frame)
    fix st tid assume q: "om_get (al_people l) q = Some st" "pa_active_transition_id st = Some tid"
    then have "om_get (al_transitions l) tid \<noteq> None"
      using ok_state(2)[OF assms(1) q(1)] by (auto simp: pointer_ok_def)
    then show "om_get (al_transitions l') tid = om_get (al_transitions l) tid" using n by (auto simp: f(3) store_simps)
  qed (use f(2) that in simp)
  then show "step_for m (sp_person_id spec) 1 l l'" using g f by (simp add: step_for_def only_def)
qed

lemma step_ensure:
  assumes "activity_ok l m" "spec_ok m spec" "stamp_at now at" "al_next_transition_sequence l < u64_max"
    and "om_get (al_people l) (sp_person_id spec) = Some st"
  shows "(\<exists>msg. ensure_matching_transition l spec at = Inl (refused TRANSITION_CONFLICT msg))
    \<or> (\<exists>l' t. ensure_matching_transition l spec at = Inr (l', t) \<and> step_for m (sp_person_id spec) 1 l l'
         \<and> active_transition l' (sp_person_id spec) = Some t \<and> fits_spec spec t)"
proof -
  let ?pid = "sp_person_id spec"
  have at: "parse_iso_millis at \<noteq> None" using stamp_parses[OF assms(3)] by simp
  have new: "step_for m ?pid 1 l l'" if w: "l0 = l \<or> (\<exists>t. active_transition l ?pid = Some t \<and> l0 = cancel_transition l (gt_id t) at)"
    and r: "new_transition l0 spec at = Inr (l', t')" for l0 l' t'
  proof -
    have s0: "step_for m ?pid 0 l l0" using w step_refl[OF assms(1)] step_cancel(1)[OF assms(1) at] by blast
    have "al_next_transition_sequence l0 < u64_max" using s0 assms(4) by (simp add: step_for_def)
    moreover obtain st0 where "om_get (al_people l0) ?pid = Some st0"
      using w cancel_keeps(1)[OF assms(5)] assms(5) by blast
    ultimately have "step_for m ?pid 1 l0 l'"
      using step_new_transition(1)[OF step_ok[OF s0] assms(2,3) _ _ r] by blast
    then show ?thesis by (rule step_trans[OF s0]) simp
  qed
  have how: "l' = l \<or> (\<exists>l0. (l0 = l \<or> (\<exists>t. active_transition l ?pid = Some t \<and> l0 = cancel_transition l (gt_id t) at))
      \<and> new_transition l0 spec at = Inr (l', t'))" if r: "ensure_matching_transition l spec at = Inr (l', t')" for l' t'
  proof (cases "active_transition l ?pid")
    case None
    then show ?thesis using r by (auto simp: ensure_matching_transition_def active_transition_id_of_def supersede_if_def)
  next
    case (Some t)
    then have "om_get (al_transitions l) (gt_id t) = Some t" using ok_active(1)[OF assms(1)] by blast
    with Some r show ?thesis
      by (auto simp: ensure_matching_transition_def active_transition_id_of_def supersede_if_def split: if_splits)
  qed
  have step: "step_for m ?pid 1 l l'" if "ensure_matching_transition l spec at = Inr (l', t')" for l' t'
    using how[OF that] new step_refl[OF assms(1)] by blast
  from ensure_cases[OF assms] show ?thesis
    using step by (elim disjE exE conjE) auto
qed

section \<open>The steps of the first loop\<close>

lemma reasons_of_add [store_simps]:
  "reasons_of (add_reason r p x) q = (if q = p then insert x (reasons_of r p) else reasons_of r q)"
  by (simp add: reasons_of_def add_reason_def store_simps)

lemma reasons_of_Nil [simp]: "reasons_of [] q = {}"
  by (simp add: reasons_of_def)

definition advances :: "'v organization_manifest \<Rightarrow> string \<Rightarrow> nat \<Rightarrow> reconcile_state \<Rightarrow> reconcile_state \<Rightarrow> bool" where
  "advances m pid k s s' \<longleftrightarrow> step_for m pid k (rs_draft s) (rs_draft s')
     \<and> (\<forall>q. reasons_of (rs_reasons s) q \<subseteq> reasons_of (rs_reasons s') q)
     \<and> (\<forall>q. q \<noteq> pid \<longrightarrow> reasons_of (rs_reasons s') q = reasons_of (rs_reasons s) q
          \<and> (q \<in> rs_abandoned s' \<longleftrightarrow> q \<in> rs_abandoned s)
          \<and> (q \<in> rs_direct_transfers s' \<longleftrightarrow> q \<in> rs_direct_transfers s))"

definition good_loop :: "'v organization_manifest \<Rightarrow> string \<Rightarrow> nat \<Rightarrow> reconcile_state \<Rightarrow> chiefd_error + reconcile_state \<Rightarrow> bool" where
  "good_loop m pid k s r \<longleftrightarrow> (case r of
     Inl e \<Rightarrow> \<exists>msg. e = refused TRANSITION_CONFLICT msg | Inr s' \<Rightarrow> advances m pid k s s')"

lemma advances_trans:
  assumes "advances m pid j s s'" "advances m pid k s' s''" "j + k \<le> n"
  shows "advances m pid n s s''"
proof -
  have "step_for m pid j (rs_draft s) (rs_draft s')" "step_for m pid k (rs_draft s') (rs_draft s'')"
    using assms(1,2) by (simp_all add: advances_def)
  from step_trans[OF this assms(3)] have "step_for m pid n (rs_draft s) (rs_draft s'')" .
  moreover have "reasons_of (rs_reasons s) q \<subseteq> reasons_of (rs_reasons s'') q" for q
    using assms(1,2) unfolding advances_def by blast
  ultimately show ?thesis using assms(1,2) by (simp add: advances_def)
qed

lemma good_loop_bind:
  assumes "good_loop m pid j s r" "\<And>s'. r = Inr s' \<Longrightarrow> good_loop m pid k s' (f s')" "j + k \<le> n"
  shows "good_loop m pid n s (res_bind r f)"
proof (cases r)
  case (Inr s')
  then have a: "advances m pid j s s'" and g: "good_loop m pid k s' (f s')"
    using assms(1,2) by (auto simp: good_loop_def)
  show ?thesis
  proof (cases "f s'")
    case (Inr s'')
    then show ?thesis using advances_trans[OF a _ assms(3)] g \<open>r = Inr s'\<close> by (simp add: good_loop_def)
  qed (use g Inr in \<open>simp add: good_loop_def\<close>)
qed (use assms(1) in \<open>simp add: good_loop_def\<close>)

lemma active_id: "active_transition_id_of l pid = Some tid \<longleftrightarrow> (\<exists>t. active_transition l pid = Some t \<and> gt_id t = tid)"
  by (auto simp: active_transition_id_of_def)

lemma active_at: "activity_ok l m \<Longrightarrow> active_transition l pid = Some t \<Longrightarrow> transition_at l (gt_id t) = Inr t"
  using ok_active(1)[of l m pid t] by (simp add: transition_at_def)

lemma mark_overdue_step:
  assumes "activity_ok l m"
  obtains l' where "mark_overdue now l (active_transition_id_of l pid) = Inr l'" "step_for m pid 0 l l'"
    "al_people l' = al_people l"
    "rel_option (\<lambda>t t'. evolves t t' \<and> (gt_status t' = gt_status t \<or> status_is_pending (gt_status t')))
       (active_transition l pid) (active_transition l' pid)"
proof (cases "active_transition l pid")
  case None
  then show thesis using that[of l] step_refl[OF assms] by (simp add: mark_overdue_def active_transition_id_of_def)
next
  case (Some t)
  note a = ok_active[OF assms Some]
  let ?late = "gt_status t = AwaitingHandoff
     \<and> (case parse_iso_millis (gt_handoff_deadline_at t) of None \<Rightarrow> False | Some d \<Rightarrow> d \<le> now)"
  let ?t = "t\<lparr>gt_status := Overdue\<rparr>"
  let ?l = "l\<lparr>al_transitions := om_put (gt_id t) ?t (al_transitions l)\<rparr>"
  have run: "mark_overdue now l (active_transition_id_of l pid) = Inr (if ?late then ?l else l)"
    using Some active_at[OF assms Some] by (simp add: mark_overdue_def active_transition_id_of_def)
  show thesis
  proof (cases ?late)
    case True
    have "transition_shape (al_next_transition_sequence l) (gt_id t) ?t"
      using ok_transition(1)[OF assms a(1)] True
      by (auto simp: transition_shape_def check_stamps_def split: if_splits)
    moreover have "evolves t ?t" using True by (simp add: evolves_def status_le_def)
    ultimately have "step_for m pid 0 l ?l" by (intro step_put_transition[OF assms a(1,2)]) simp_all
    moreover have "active_transition ?l pid = Some ?t"
      using a(4) by (auto simp: active_transition_def store_simps)
    ultimately show thesis using that[of ?l] run True Some \<open>evolves t ?t\<close> by simp
  next
    case False
    then show thesis using that[of l] run Some step_refl[OF assms] by (simp only: if_False) simp
  qed
qed

lemma note_pending_good:
  assumes "activity_ok (rs_draft s) m"
  shows "good_loop m pid 0 s (note_pending pid s)"
proof (cases "active_transition (rs_draft s) pid")
  case None
  then show ?thesis
    using step_refl[OF assms] by (simp add: note_pending_def active_transition_id_of_def good_loop_def advances_def)
next
  case (Some t)
  then show ?thesis using active_at[OF assms Some] step_refl[OF assms]
    by (auto simp: note_pending_def active_transition_id_of_def good_loop_def advances_def store_simps)
qed

lemma idle_spec_ok: "spec_ok m (idle_park_spec pid)"
proof -
  have "trim IDLE_AUTO_PARK_REASON \<noteq> []" by code_simp
  moreover have "char_count IDLE_AUTO_PARK_REASON \<le> TRANSITION_MAX_REASON_CHARACTERS"
    by (rule order_trans[OF char_count_le_length]) (simp add: IDLE_AUTO_PARK_REASON_def TRANSITION_MAX_REASON_CHARACTERS_def)
  ultimately show ?thesis by (simp add: spec_ok_def idle_park_spec_def needs_target_def)
qed

lemma white_len_R: "white_len (CHR ''R'' # s) = 0"
  by (simp add: white2_def white3_def byte_def split: list.splits)

lemma structural_spec_ok:
  assumes "validated m" "structural_transition state m pid = Some change"
  shows "spec_ok m (structural_spec pid change)"
proof -
  obtain p where p: "person m pid = Some p" using assms(2) by (auto simp: structural_transition_def split: option.splits)
  obtain d where d: "department m (ps_department_id p) = Some d" by (rule validated_person[OF assms(1) p])
  have t: "trim (''Release the transition before '' @ action_as_str a @ '' changes pane ownership.'') \<noteq> []" for a
    by (simp add: trim_Nil_iff trim_start_id white_len_R del: white_len.simps)
  have "char_count (''Release the transition before '' @ action_as_str a @ '' changes pane ownership.'')
      \<le> TRANSITION_MAX_REASON_CHARACTERS" for a
    by (rule order_trans[OF char_count_le_length]) (cases a; simp add: TRANSITION_MAX_REASON_CHARACTERS_def)
  with t show ?thesis using assms(2) p d
    by (auto simp: spec_ok_def structural_spec_def structural_transition_def plain_change_def needs_target_def
        known_department_def split: if_splits)
qed

lemma structural_change_good:
  assumes "activity_ok (rs_draft s) m" "validated m" "stamp_at now at"
    and "al_next_transition_sequence (rs_draft s) < u64_max" "om_get (al_people (rs_draft s)) pid = Some st"
    and "structural_transition state m pid = Some change"
  shows "good_loop m pid 1 s (reconcile_structural_change pid change at s)"
proof -
  have p: "sp_person_id (structural_spec pid change) = pid" by (simp add: structural_spec_def)
  from step_ensure[OF assms(1) structural_spec_ok[OF assms(2,6)] assms(3,4), unfolded p, OF assms(5)]
  show ?thesis
    by (elim disjE exE conjE)
      (auto simp: reconcile_structural_change_def good_loop_def advances_def store_simps)
qed

lemma idle_good:
  assumes "activity_ok (rs_draft s) m" "stamp_at now at"
    and "al_next_transition_sequence (rs_draft s) < u64_max" "om_get (al_people (rs_draft s)) pid = Some st"
  shows "good_loop m pid 1 s (reconcile_idle admitted pid at s)"
proof -
  have p: "sp_person_id (idle_park_spec pid) = pid" by (simp add: idle_park_spec_def)
  have same: "good_loop m pid 1 s (Inr s)"
    "good_loop m pid 1 s (Inr (s\<lparr>rs_reasons := add_reason (rs_reasons s) pid MaintenanceBackpressure\<rparr>))"
    using step_refl[OF assms(1)] by (auto simp: good_loop_def advances_def store_simps)
  have ensured: "good_loop m pid 1 s (res_bind (ensure_matching_transition (rs_draft s) (idle_park_spec pid) at) (\<lambda>(draft, t).
         Inr (s\<lparr>rs_draft := draft, rs_reasons := (if status_is_pending (gt_status t)
                  then add_reason (rs_reasons s) pid HandoffRequired else rs_reasons s)\<rparr>)))"
    using step_ensure[OF assms(1) idle_spec_ok[of m pid] assms(2,3), unfolded p, OF assms(4)]
    by (elim disjE exE conjE) (auto simp: good_loop_def advances_def store_simps)
  show ?thesis unfolding reconcile_idle_def using same ensured by presburger
qed

text \<open>What the structural change asked of a person depends on.\<close>

definition placement_of :: "activity_ledger \<Rightarrow> string \<Rightarrow> (employment_state \<times> bool \<times> string) option" where
  "placement_of l pid = map_option (\<lambda>st.
     (pa_last_employment_state st, pa_last_operational st, pa_last_department_id st)) (om_get (al_people l) pid)"

lemma structural_by_placement:
  assumes "om_get (al_people l) pid = Some st" "om_get (al_people l') pid = Some st'"
    and "placement_of l' pid = placement_of l pid"
  shows "structural_transition st' m pid = structural_transition st m pid"
proof -
  have "pa_last_employment_state st' = pa_last_employment_state st" "pa_last_operational st' = pa_last_operational st"
    "pa_last_department_id st' = pa_last_department_id st"
    using assms by (simp_all add: placement_of_def)
  then show ?thesis unfolding structural_transition_def by (simp only:)
qed

lemma yield_good:
  assumes "activity_ok l m" "parse_iso_millis at \<noteq> None"
  obtains l' where "yield_park pid at l = Inr l'" "step_for m pid 0 l l'"
    "placement_of l' pid = placement_of l pid"
    "(\<forall>t. active_transition l pid = Some t \<longrightarrow> gt_action t = Park \<and> gt_intent_id t = None) \<Longrightarrow> active_transition l' pid = None"
proof (cases "active_transition l pid")
  case None
  then show thesis using that[of l] step_refl[OF assms(1)] by (simp add: yield_park_def)
next
  case (Some t)
  note a = ok_active[OF assms(1) Some]
  obtain st where st: "om_get (al_people l) pid = Some st" "pa_active_transition_id st = Some (gt_id t)"
    using a(4) by blast
  have i: "active_transition_id_of l pid = Some (gt_id t)" "transition_at l (gt_id t) = Inr t"
    using Some active_at[OF assms(1) Some] by (simp_all add: active_transition_id_of_def)
  let ?st = "st\<lparr>pa_active_transition_id := None, pa_updated_at := at\<rparr>"
  show thesis
  proof (cases "gt_action t = Park \<and> gt_intent_id t = None")
    case False
    then have "yield_park pid at l = Inr l" using Some by (auto simp: yield_park_def)
    then show thesis by (rule that[OF _ step_refl[OF assms(1)] refl]) (use False Some in auto)
  next
    case plain: True
    show thesis
    proof (cases "gt_status t = Applied")
      case True
      have "step_for m pid 0 l (l\<lparr>al_people := om_put pid ?st (al_people l)\<rparr>)"
        using ok_state[OF assms(1) st(1)] assms(2) st(1)
        by (intro step_put_state[OF assms(1)]) (simp_all add: state_shape_def pointer_ok_def)
      moreover have "active_transition (l\<lparr>al_people := om_put pid ?st (al_people l)\<rparr>) pid = None"
        by (simp add: active_transition_def store_simps)
      moreover have "placement_of (l\<lparr>al_people := om_put pid ?st (al_people l)\<rparr>) pid = placement_of l pid"
        using st(1) by (simp add: placement_of_def store_simps)
      ultimately show thesis using that plain True Some i st(1) by (simp add: yield_park_def om_adjust_get)
    next
      case False
      have "placement_of (cancel_transition l (gt_id t) at) pid = placement_of l pid"
        using st(1) by (simp add: placement_of_def cancel_people)
      then show thesis using that[OF _ step_cancel(1)[OF assms Some]] step_cancel(2)[OF assms Some] plain Some i False
        by (simp add: yield_park_def)
    qed
  qed
qed

lemma abandon_step:
  assumes "activity_ok l m" "parse_iso_millis at \<noteq> None"
  shows "step_for m pid 0 l (abandon_active l pid at)"
proof (cases "active_transition l pid")
  case None
  then show ?thesis using step_refl[OF assms(1)] by (simp add: abandon_active_def active_transition_id_of_def)
next
  case (Some t)
  note a = ok_active[OF assms(1) Some]
  let ?d = "cancel_transition l (gt_id t) at"
  let ?c = "t\<lparr>gt_status := Cancelled, gt_cancelled_at := Some at, gt_forced_at := None\<rparr>"
  let ?t = "?c\<lparr>gt_abandoned_at := Some at\<rparr>"
  note s = step_cancel[OF assms Some]
  note ok = step_ok[OF s(1)]
  have c: "om_get (al_transitions ?d) (gt_id t) = Some ?c" using a(1) by (simp add: cancel_transitions)
  have "transition_shape (al_next_transition_sequence ?d) (gt_id t) ?t"
    using ok_transition(1)[OF ok c] assms(2)
    by (auto simp: transition_shape_def check_stamps_def stamp_missing_def bad_stamp_def split: if_splits)
  moreover have "evolves ?c ?t" by (simp add: evolves_def)
  moreover obtain st where "om_get (al_people l) pid = Some st" "pa_active_transition_id st = Some (gt_id t)"
    using a(4) by blast
  then have "om_get (al_people ?d) pid = Some (st\<lparr>pa_active_transition_id := None, pa_updated_at := at\<rparr>)"
    using a(1,2) by (simp add: cancel_people)
  ultimately have "step_for m pid 0 ?d (?d\<lparr>al_transitions := om_put (gt_id t) ?t (al_transitions ?d)\<rparr>)"
    using a(2) by (intro step_put_transition[OF ok c]) simp_all
  moreover have "abandon_active l pid at = ?d\<lparr>al_transitions := om_put (gt_id t) ?t (al_transitions ?d)\<rparr>"
    using Some c by (simp add: abandon_active_def active_transition_id_of_def om_adjust_get Let_def)
  ultimately show ?thesis using step_trans[OF s(1)] by simp
qed

lemma reconcile_person_good:
  assumes "activity_ok (rs_draft s) m" "validated m" "stamp_at now at"
    and "al_next_transition_sequence (rs_draft s) < u64_max" "om_get (al_people (rs_draft s)) pid = Some st"
  shows "good_loop m pid 1 s (reconcile_person m fence ceo admitted now at s pid)"
proof -
  have at: "parse_iso_millis at \<noteq> None" using stamp_parses[OF assms(3)] by simp
  obtain d where d: "mark_overdue now (rs_draft s) (active_transition_id_of (rs_draft s) pid) = Inr d"
      "step_for m pid 0 (rs_draft s) d" "al_people d = al_people (rs_draft s)"
    by (rule mark_overdue_step[OF assms(1)])
  let ?s = "s\<lparr>rs_draft := d\<rparr>"
  note ok = step_ok[OF d(2)]
  have st: "om_get (al_people d) pid = Some st" using assms(5) d(3) by simp
  have n: "al_next_transition_sequence d < u64_max" using d(2) assms(4) by (simp add: step_for_def)
  have adv: "advances m pid 0 s ?s" using d(2) by (simp add: advances_def)
  have adv_good: "good_loop m pid 1 s r" if "good_loop m pid 1 ?s r" for r
    using that advances_trans[OF adv] by (cases r) (auto simp: good_loop_def)
  have np: "good_loop m pid 0 s' (note_pending pid s')" if "good_loop m pid k s0 r" "r = Inr s'" for s0 s' k r
    using that by (intro note_pending_good) (simp add: good_loop_def advances_def step_for_def)
  have structural: "good_loop m pid 1 ?s (res_bind (reconcile_structural_change pid change at ?s) (note_pending pid))"
    if "structural_transition st m pid = Some change" for change
  proof -
    have g: "good_loop m pid 1 ?s (reconcile_structural_change pid change at ?s)"
      by (rule structural_change_good[OF _ assms(2,3) _ _ that, of _ st]) (use ok n st in simp_all)
    show ?thesis by (rule good_loop_bind[OF g np[OF g]]) simp_all
  qed
  have idle: "good_loop m pid 1 ?s (res_bind (reconcile_idle admitted pid at ?s) (note_pending pid))"
  proof -
    have g: "good_loop m pid 1 ?s (reconcile_idle admitted pid at ?s)"
      by (rule idle_good[OF _ assms(3), of _ _ _ st]) (use ok n st in simp_all)
    show ?thesis by (rule good_loop_bind[OF g np[OF g]]) simp_all
  qed
  have yield: "good_loop m pid 1 ?s (res_bind (yield_park pid at d) (\<lambda>l. note_pending pid (?s\<lparr>rs_draft := l\<rparr>)))"
  proof -
    obtain l where l: "yield_park pid at d = Inr l" "step_for m pid 0 d l" by (rule yield_good[OF ok at]) blast
    then have g: "good_loop m pid 0 ?s (Inr (?s\<lparr>rs_draft := l\<rparr>))" by (simp add: good_loop_def advances_def)
    have "good_loop m pid 1 ?s (res_bind (Inr (?s\<lparr>rs_draft := l\<rparr>)) (note_pending pid))"
      by (rule good_loop_bind[OF g np[OF g]]) simp_all
    then show ?thesis using l(1) by simp
  qed
  have quiet: "good_loop m pid 1 ?s (note_pending pid ?s)"
    using good_loop_bind[of m pid 0 ?s "Inr ?s" 0 "note_pending pid" 1] note_pending_good[of ?s m pid] ok step_refl[OF ok]
    by (simp add: good_loop_def advances_def)
  have direct: "good_loop m pid 1 ?s (Inr (?s\<lparr>rs_direct_transfers := insert pid (rs_direct_transfers ?s)\<rparr>))"
    using step_refl[OF ok] by (simp add: good_loop_def advances_def)
  have abandon: "good_loop m pid 1 ?s (Inr (?s\<lparr>rs_draft := abandon_active d pid at,
      rs_abandoned := insert pid (rs_abandoned ?s)\<rparr>))"
    using step_trans[OF abandon_step[OF ok at] step_refl, of pid 1] step_ok[OF abandon_step[OF ok at]]
    by (simp add: good_loop_def advances_def)
  have run: "reconcile_person m fence ceo admitted now at s pid = (case structural_transition st m pid of
              Some change \<Rightarrow>
                if sc_action change = Transfer \<and> active_transition_id_of (rs_draft s) pid = None \<and> admits fence pid ceo
                then Inr (?s\<lparr>rs_direct_transfers := insert pid (rs_direct_transfers ?s)\<rparr>)
                else if pending_or_none d pid \<and> \<not> admits fence pid ceo
                then Inr (?s\<lparr>rs_draft := abandon_active d pid at,
                            rs_abandoned := insert pid (rs_abandoned ?s)\<rparr>)
                else res_bind (reconcile_structural_change pid change at ?s) (note_pending pid)
            | None \<Rightarrow>
                if \<not> has_own_pinning_demand (rs_reasons ?s) pid \<and> pa_last_desired_active st
                then res_bind (reconcile_idle admitted pid at ?s) (note_pending pid)
                else if has_own_pinning_demand (rs_reasons ?s) pid
                then res_bind (yield_park pid at d) (\<lambda>l. note_pending pid (?s\<lparr>rs_draft := l\<rparr>))
                else note_pending pid ?s)"
    unfolding reconcile_person_def Let_def d(1) res_bind.simps person_at_def st option.case ..
  show ?thesis unfolding run
    by (rule adv_good)
      (use idle yield quiet direct abandon structural in \<open>auto simp only: split: option.split if_split\<close>)
qed

section \<open>The steps of the second loop\<close>

lemma put_applied_step:
  assumes "activity_ok l m" "parse_iso_millis at \<noteq> None" "active_transition l pid = Some t"
    and "status_is_released (gt_status t)"
  shows "step_for m pid 0 l (put_applied (gt_id t) t at l)"
    and "al_people (put_applied (gt_id t) t at l) = al_people l"
proof -
  note a = ok_active[OF assms(1,3)]
  let ?t = "t\<lparr>gt_status := Applied, gt_applied_at := Some at\<rparr>"
  show "step_for m pid 0 l (put_applied (gt_id t) t at l)"
  proof (cases "gt_status t = Applied")
    case False
    have "transition_shape (al_next_transition_sequence l) (gt_id t) ?t"
      using ok_transition(1)[OF assms(1) a(1)] assms(2,4) False
      by (auto simp: transition_shape_def check_stamps_def stamp_missing_def bad_stamp_def split: if_splits)
    moreover have "evolves t ?t" using assms(4) False by (cases "gt_status t") (simp_all add: evolves_def status_le_def)
    ultimately have "step_for m pid 0 l (l\<lparr>al_transitions := om_put (gt_id t) ?t (al_transitions l)\<rparr>)"
      by (intro step_put_transition[OF assms(1) a(1,2)]) simp_all
    then show ?thesis using False by (simp add: put_applied_def)
  qed (simp add: put_applied_def step_refl[OF assms(1)])
qed (simp add: put_applied_def)

lemma clear_pointer_step:
  assumes "activity_ok l m"
  shows "step_for m pid 0 l (l\<lparr>al_people := om_adjust pid (\<lambda>state. state\<lparr>pa_active_transition_id := None\<rparr>) (al_people l)\<rparr>)"
proof (cases "om_get (al_people l) pid")
  case None
  then show ?thesis using step_refl[OF assms] by (simp add: om_adjust_def)
next
  case (Some st)
  then show ?thesis
    using step_put_state[OF assms, of pid "st\<lparr>pa_active_transition_id := None\<rparr>"] ok_state[OF assms Some]
    by (simp add: om_adjust_get state_shape_def pointer_ok_def)
qed

lemma finite_reasons: "finite (A :: activity_reason set)"
proof -
  have "(UNIV :: activity_reason set)
      = {ManagingOpenWork, OrganizationRoot, Requested, HandoffRequired, TransitionReady, MaintenanceBackpressure}"
    using activity_reason.exhaust by blast
  then have "finite (UNIV :: activity_reason set)" by (metis finite.emptyI finite_insert)
  then show ?thesis by (rule finite_subset[OF subset_UNIV])
qed

definition decides :: "'v organization_manifest \<Rightarrow> string \<Rightarrow> reconcile_state
    \<Rightarrow> chiefd_error + (activity_ledger \<times> reasons \<times> bool \<times> bool) \<Rightarrow> bool" where
  "decides m pid s r \<longleftrightarrow> (case r of Inl _ \<Rightarrow> False
   | Inr (l', r', _) \<Rightarrow> step_for m pid 0 (rs_draft s) l'
       \<and> (\<forall>q. reasons_of (rs_reasons s) q \<subseteq> reasons_of r' q)
       \<and> (\<forall>q. q \<noteq> pid \<longrightarrow> reasons_of r' q = reasons_of (rs_reasons s) q))"

lemma decide_transition_decides:
  assumes "activity_ok (rs_draft s) m" "parse_iso_millis at \<noteq> None"
  shows "decides m pid s (decide_transition s pid at structural (active_transition_id_of (rs_draft s) pid) work aa)"
proof (cases "active_transition (rs_draft s) pid")
  case None
  then have "active_transition_id_of (rs_draft s) pid = None" by (simp add: active_transition_id_of_def)
  then show ?thesis using step_refl[OF assms(1)]
    by (cases structural; cases aa) (simp_all add: decide_transition_def decides_def Let_def)
next
  case (Some t)
  let ?l = "rs_draft s"
  have i: "active_transition_id_of ?l pid = Some (gt_id t)" "transition_at ?l (gt_id t) = Inr t"
    using Some active_at[OF assms(1) Some] by (simp_all add: active_transition_id_of_def)
  have same: "decides m pid s (Inr (?l, rs_reasons s, x))" for x
    using step_refl[OF assms(1)] by (cases x) (simp add: decides_def)
  have added: "decides m pid s (Inr (?l, add_reason (rs_reasons s) pid r, x))" for x r
    using step_refl[OF assms(1)] by (cases x) (auto simp: decides_def store_simps)
  have applied: "decides m pid s (Inr (put_applied (gt_id t) t at ?l, rs_reasons s, x))"
    and cleared: "decides m pid s (Inr ((put_applied (gt_id t) t at ?l)\<lparr>al_people :=
        om_adjust pid (\<lambda>state. state\<lparr>pa_active_transition_id := None\<rparr>) (al_people (put_applied (gt_id t) t at ?l))\<rparr>,
        rs_reasons s, x))"
    if "status_is_released (gt_status t)" for x
  proof -
    note a = put_applied_step(1)[OF assms Some that]
    show "decides m pid s (Inr (put_applied (gt_id t) t at ?l, rs_reasons s, x))"
      using a by (cases x) (simp add: decides_def)
    from step_trans[OF a clear_pointer_step[OF step_ok[OF a], of pid]]
    show "decides m pid s (Inr ((put_applied (gt_id t) t at ?l)\<lparr>al_people :=
        om_adjust pid (\<lambda>state. state\<lparr>pa_active_transition_id := None\<rparr>) (al_people (put_applied (gt_id t) t at ?l))\<rparr>,
        rs_reasons s, x))"
      by (cases x) (simp add: decides_def)
  qed
  show ?thesis
    unfolding decide_transition_def Let_def i option.case prod.case res_bind.simps
    using same added applied cleared by (auto simp only: split: option.split if_split)
qed

lemma decided_state_fields:
  "pa_person_id (decided_state m p at act adv st) = pa_person_id st"
  "pa_active_transition_id (decided_state m p at act adv st) = pa_active_transition_id st"
  "pa_last_desired_active (decided_state m p at act adv st) = act"
  "pa_updated_at (decided_state m p at act adv st) = at"
  "pa_last_department_id (decided_state m p at act adv st) = (if adv then ps_department_id p else pa_last_department_id st)"
  "pa_idle_since (decided_state m p at act adv st) \<in> {None, pa_idle_since st}"
  "pa_agent_active_at (decided_state m p at act adv st) \<in> {None, pa_agent_active_at st}"
  by (auto simp: decided_state_def Let_def)

text \<open>The decision a snapshot holds for a person, against the ledger written with it.\<close>

definition decision_ok ::
  "launch_fence \<Rightarrow> string \<Rightarrow> activity_ledger \<Rightarrow> string \<Rightarrow> person_activity_decision \<Rightarrow> bool" where
  "decision_ok fence ceo l pid d \<longleftrightarrow> pd_person_id d = pid \<and> (pd_active d \<longrightarrow> admits fence pid ceo)
     \<and> pd_transition_id d = active_transition_id_of l pid
     \<and> (\<exists>st. om_get (al_people l) pid = Some st \<and> pa_last_desired_active st = pd_active d)"

lemma decide_person_good:
  assumes "activity_ok (rs_draft s) m" "validated m" "parse_iso_millis at \<noteq> None"
    and "om_get (al_people (rs_draft s)) pid = Some st"
  obtains s' d where "decide_person m fence ceo at (s, people) pid = Inr (s', om_put pid d people)"
    "advances m pid 0 s s'" "decision_ok fence ceo (rs_draft s') pid d"
    "set (pd_reasons d) = reasons_of (rs_reasons s') pid"
    "structural_transition st m pid = None \<and> active_transition (rs_draft s) pid = None
       \<and> has_effective_demand (rs_reasons s) pid \<and> admits fence pid ceo \<longrightarrow> pd_active d \<and> pd_transition_id d = None"
proof -
  have pm: "person m pid \<noteq> None" by (rule ok_state(4)[OF assms(1,4)])
  then obtain p where p: "person m pid = Some p" by auto
  obtain dep where "department m (ps_department_id p) = Some dep" by (rule validated_person[OF assms(2) p])
  then have k: "known_department m (ps_department_id p)" by (simp add: known_department_def)
  define structural where "structural = structural_transition st m pid"
  define lease where "lease = reasons_of (rs_reasons s) pid"
  define work where "work = (\<exists>reason \<in> lease. is_effective_demand reason)"
  define direct where "direct = (pid \<in> rs_direct_transfers s)"
  define aa where "aa = ((work \<or> HandoffRequired \<in> lease \<or> MaintenanceBackpressure \<in> lease)
    \<or> direct \<and> pa_last_desired_active st, structural = None \<or> direct)"
  let ?dt = "decide_transition s pid at structural (active_transition_id_of (rs_draft s) pid) work aa"
  have dec: "decides m pid s ?dt" by (rule decide_transition_decides[OF assms(1,3)])
  then obtain l r act adv where dt: "?dt = Inr (l, r, act, adv)"
    by (cases ?dt) (auto simp: decides_def)
  have step: "step_for m pid 0 (rs_draft s) l" "\<And>q. reasons_of (rs_reasons s) q \<subseteq> reasons_of r q"
      "\<And>q. q \<noteq> pid \<Longrightarrow> reasons_of r q = reasons_of (rs_reasons s) q"
    using dec unfolding dt decides_def by simp_all
  note ok = step_ok[OF step(1)]
  have "set (al_person_order l) = set (al_person_order (rs_draft s))" using step(1) by (simp add: step_for_def only_def)
  then have "om_get (al_people l) pid \<noteq> None"
    using ok assms(1,4) by (auto simp: activity_ok_def order_exact_def)
  then obtain st1 where st1: "om_get (al_people l) pid = Some st1" by auto
  define act' where "act' = (act \<and> admits fence pid ceo)"
  let ?st = "decided_state m p at act' adv st1"
  let ?final = "l\<lparr>al_people := om_put pid ?st (al_people l)\<rparr>"
  let ?d = "\<lparr>pd_person_id = pid, pd_active = act', pd_reasons = sorted_list_of_set (reasons_of r pid),
      pd_transition_id = active_transition_id_of ?final pid\<rparr>"
  let ?s = "s\<lparr>rs_draft := ?final, rs_reasons := r\<rparr>"
  have run: "decide_person m fence ceo at (s, people) pid = Inr (?s, om_put pid ?d people)"
    using p assms(4) dt st1
    by (simp add: decide_person_def person_at_def Let_def structural_def lease_def work_def direct_def aa_def
        act'_def om_adjust_get)
  have "state_shape pid ?st"
    using ok_state(1)[OF ok st1] assms(3) decided_state_fields(6,7)[of m p at act' adv st1]
    by (auto simp: state_shape_def decided_state_fields(1-5) bad_stamp_def)
  moreover have "pointer_ok l pid ?st" using ok_state(2)[OF ok st1] by (simp add: pointer_ok_def decided_state_fields)
  moreover have "known_department m (pa_last_department_id ?st)"
    using ok_state(3)[OF ok st1] k by (simp add: decided_state_fields)
  ultimately have "step_for m pid 0 l ?final" using st1 by (intro step_put_state[OF ok]) simp_all
  from step_trans[OF step(1) this] have adv: "advances m pid 0 s ?s" using step(2,3) by (simp add: advances_def)
  have dok: "decision_ok fence ceo (rs_draft ?s) pid ?d"
    by (simp add: decision_ok_def act'_def store_simps decided_state_fields)
  have fin: "finite (reasons_of r pid)" by (rule finite_reasons)
  have wake: "pd_active ?d \<and> pd_transition_id ?d = None" if "structural_transition st m pid = None \<and> active_transition (rs_draft s) pid = None
       \<and> has_effective_demand (rs_reasons s) pid \<and> admits fence pid ceo"
  proof -
    have "?dt = Inr (rs_draft s, rs_reasons s, aa)"
      using that by (simp add: decide_transition_def structural_def active_transition_id_of_def)
    then have same: "l = rs_draft s" "act = fst aa" using dt by auto
    moreover have "work" using that by (simp add: work_def lease_def has_effective_demand_def)
    moreover have "active_transition ?final pid = active_transition (rs_draft s) pid"
    proof -
      have "al_transitions ?final = al_transitions (rs_draft s)" "om_get (al_people ?final) pid = Some ?st"
        "om_get (al_people (rs_draft s)) pid = Some st1"
        using st1 by (simp_all add: same(1) store_simps)
      then show ?thesis unfolding active_transition_def by (simp only: option.case decided_state_fields)
    qed
    ultimately show ?thesis using that by (simp add: act'_def aa_def active_transition_id_of_def)
  qed
  show thesis
  proof (rule that[OF run adv dok])
    show "set (pd_reasons ?d) = reasons_of (rs_reasons ?s) pid" using fin by simp
  qed (use wake in blast)
qed

end
