(* ===== verification/Activity_Demand.thy ===== *)
theory Activity_Demand
  imports Activity_Reconcile_Safety
begin

text \<open>
  The contract of the demand reconciliation: its two loops over all people, the phase before them, and what
  a caller may rely on: the ledger it leaves is valid, the snapshot is exactly what the ledger says, the
  launch fence holds for everybody, and a person asked for who may run is to run.
\<close>

section \<open>Whole loops\<close>

definition span :: "'v organization_manifest \<Rightarrow> string set \<Rightarrow> nat \<Rightarrow> reconcile_state \<Rightarrow> reconcile_state \<Rightarrow> bool" where
  "span m A k s s' \<longleftrightarrow> activity_ok (rs_draft s') m \<and> moves (rs_draft s) (rs_draft s')
     \<and> al_person_order (rs_draft s') = al_person_order (rs_draft s)
     \<and> al_next_transition_sequence (rs_draft s') \<le> al_next_transition_sequence (rs_draft s) + k
     \<and> (\<forall>q. reasons_of (rs_reasons s) q \<subseteq> reasons_of (rs_reasons s') q)
     \<and> (\<forall>q. q \<notin> A \<longrightarrow> om_get (al_people (rs_draft s')) q = om_get (al_people (rs_draft s)) q
          \<and> active_transition (rs_draft s') q = active_transition (rs_draft s) q
          \<and> reasons_of (rs_reasons s') q = reasons_of (rs_reasons s) q)"

lemma span_refl: "activity_ok (rs_draft s) m \<Longrightarrow> span m {} 0 s s"
  by (simp add: span_def)

lemma advances_span: "advances m pid k s s' \<Longrightarrow> span m {pid} k s s'"
  by (simp add: span_def advances_def step_for_def only_def)

lemma span_trans:
  assumes "span m A j s s'" "span m B k s' s''"
  shows "span m (A \<union> B) (j + k) s s''"
proof -
  have "moves (rs_draft s) (rs_draft s'')"
    using assms moves_trans[of "rs_draft s" "rs_draft s'" "rs_draft s''"] by (simp add: span_def)
  moreover have "reasons_of (rs_reasons s) q \<subseteq> reasons_of (rs_reasons s'') q" for q
    using assms unfolding span_def by blast
  ultimately show ?thesis using assms by (simp add: span_def)
qed

lemma span_rows:
  assumes "activity_ok (rs_draft s) m" "span m A k s s'"
  shows "om_get (al_people (rs_draft s')) q = None \<longleftrightarrow> om_get (al_people (rs_draft s)) q = None"
proof -
  have o: "al_person_order (rs_draft s') = al_person_order (rs_draft s)" using assms(2) by (simp add: span_def)
  have "order_exact (al_person_order (rs_draft s')) (al_people (rs_draft s'))"
    using assms(2) unfolding span_def activity_ok_def by blast
  moreover have "order_exact (al_person_order (rs_draft s)) (al_people (rs_draft s))"
    using assms(1) by (simp add: activity_ok_def)
  ultimately show ?thesis unfolding o order_exact_def by blast
qed

lemma first_loop:
  assumes "activity_ok (rs_draft s) m" "validated m" "stamp_at now at"
    and "al_next_transition_sequence (rs_draft s) + length pids \<le> u64_max"
    and "\<forall>q \<in> set pids. om_get (al_people (rs_draft s)) q \<noteq> None"
  shows "case res_fold (reconcile_person m fence ceo admitted now at) s pids of
      Inl e \<Rightarrow> \<exists>msg. e = refused TRANSITION_CONFLICT msg
    | Inr s' \<Rightarrow> span m (set pids) (length pids) s s'"
  using assms(1,4,5)
proof (induction pids arbitrary: s)
  case Nil
  then show ?case using span_refl by simp
next
  case (Cons p pids)
  obtain st where st: "om_get (al_people (rs_draft s)) p = Some st" using Cons.prems(3) by auto
  have "al_next_transition_sequence (rs_draft s) < u64_max" using Cons.prems(2) by simp
  note g = reconcile_person_good[OF Cons.prems(1) assms(2,3) this st, of fence ceo admitted]
  show ?case
  proof (cases "reconcile_person m fence ceo admitted now at s p")
    case (Inl e)
    then show ?thesis using g by (simp add: good_loop_def)
  next
    case (Inr s1)
    then have s1: "span m {p} 1 s s1" using g advances_span by (simp add: good_loop_def)
    have "\<forall>q \<in> set pids. om_get (al_people (rs_draft s1)) q \<noteq> None"
      using Cons.prems(3) span_rows[OF Cons.prems(1) s1] by simp
    with Cons.IH[of s1] Cons.prems(2) s1
    have "case res_fold (reconcile_person m fence ceo admitted now at) s1 pids of
        Inl e \<Rightarrow> \<exists>msg. e = refused TRANSITION_CONFLICT msg
      | Inr s' \<Rightarrow> span m (set pids) (length pids) s1 s'" by (simp add: span_def)
    then show ?thesis using Inr span_trans[OF s1] by (auto split: sum.splits)
  qed
qed




text \<open>What the second loop promises of a person who comes to it without a change or a transition.\<close>

definition to_be_woken :: "'v organization_manifest \<Rightarrow> launch_fence \<Rightarrow> string \<Rightarrow> reconcile_state \<Rightarrow> string \<Rightarrow> bool" where
  "to_be_woken m fence ceo s pid \<longleftrightarrow> (\<exists>st. om_get (al_people (rs_draft s)) pid = Some st
     \<and> structural_transition st m pid = None) \<and> active_transition (rs_draft s) pid = None
     \<and> has_effective_demand (rs_reasons s) pid \<and> admits fence pid ceo"

definition answered :: "'v organization_manifest \<Rightarrow> launch_fence \<Rightarrow> string \<Rightarrow> reconcile_state \<Rightarrow> reconcile_state
    \<Rightarrow> string \<Rightarrow> person_activity_decision \<Rightarrow> bool" where
  "answered m fence ceo s s' pid d \<longleftrightarrow> decision_ok fence ceo (rs_draft s') pid d
     \<and> set (pd_reasons d) = reasons_of (rs_reasons s') pid \<and> (to_be_woken m fence ceo s pid \<longrightarrow> pd_active d \<and> pd_transition_id d = None)"

lemma answered_later:
  assumes "answered m fence ceo s s1 pid d" "span m A k s1 s'" "pid \<notin> A"
  shows "answered m fence ceo s s' pid d"
  using assms by (auto simp: answered_def decision_ok_def span_def active_transition_id_of_def)

lemma second_loop:
  assumes "activity_ok (rs_draft s) m" "validated m" "parse_iso_millis at \<noteq> None" "distinct pids"
    and "\<forall>q \<in> set pids. om_get (al_people (rs_draft s)) q \<noteq> None"
  shows "\<exists>s' people'. res_fold (decide_person m fence ceo at) (s, people) pids = Inr (s', people')
    \<and> span m (set pids) 0 s s' \<and> (\<forall>q \<in> set pids. \<exists>d. om_get people' q = Some d \<and> answered m fence ceo s s' q d)
    \<and> (\<forall>q. q \<notin> set pids \<longrightarrow> om_get people' q = om_get people q)"
  using assms(1,4,5)
proof (induction pids arbitrary: s people)
  case Nil
  then show ?case using span_refl by (intro exI[of _ s] exI[of _ people]) simp
next
  case (Cons p pids)
  obtain st where st: "om_get (al_people (rs_draft s)) p = Some st" using Cons.prems(3) by auto
  obtain s1 d where r: "decide_person m fence ceo at (s, people) p = Inr (s1, om_put p d people)"
      and adv: "advances m p 0 s s1" and ok: "decision_ok fence ceo (rs_draft s1) p d"
      and rs: "set (pd_reasons d) = reasons_of (rs_reasons s1) p"
      and w: "structural_transition st m p = None \<and> active_transition (rs_draft s) p = None
       \<and> has_effective_demand (rs_reasons s) p \<and> admits fence p ceo \<longrightarrow> pd_active d \<and> pd_transition_id d = None"
    by (rule decide_person_good[OF Cons.prems(1) assms(2,3) st, where fence = fence and ceo = ceo and people = people])
  have a: "answered m fence ceo s s1 p d"
    using ok rs w st by (simp add: answered_def to_be_woken_def)
  note span1 = advances_span[OF adv]
  have "activity_ok (rs_draft s1) m" using span1 by (simp add: span_def)
  moreover have "distinct pids" using Cons.prems(2) by simp
  moreover have "\<forall>q \<in> set pids. om_get (al_people (rs_draft s1)) q \<noteq> None"
    using Cons.prems(3) span_rows[OF Cons.prems(1) span1] by simp
  ultimately obtain s' people' where s': "res_fold (decide_person m fence ceo at) (s1, om_put p d people) pids = Inr (s', people')"
      "span m (set pids) 0 s1 s'" "\<forall>q \<in> set pids. \<exists>d. om_get people' q = Some d \<and> answered m fence ceo s1 s' q d"
      "\<forall>q. q \<notin> set pids \<longrightarrow> om_get people' q = om_get (om_put p d people) q"
    using Cons.IH[of s1 "om_put p d people"] by blast
  have n: "p \<notin> set pids" using Cons.prems(2) by simp
  have "to_be_woken m fence ceo s q \<longleftrightarrow> to_be_woken m fence ceo s1 q" if "q \<in> set pids" for q
  proof -
    have "q \<noteq> p" using that n by auto
    then show ?thesis using span1 by (simp add: to_be_woken_def span_def has_effective_demand_def)
  qed
  then have "\<exists>e. om_get people' q = Some e \<and> answered m fence ceo s s' q e" if "q \<in> set pids" for q
    using s'(3) that by (auto simp: answered_def)
  moreover have "om_get people' p = Some d \<and> answered m fence ceo s s' p d"
    using s'(4) n answered_later[OF a s'(2) n] by (simp add: store_simps)
  moreover have "span m (set (p # pids)) 0 s s'" using span_trans[OF span1 s'(2)] by simp
  moreover have "\<forall>q. q \<notin> set (p # pids) \<longrightarrow> om_get people' q = om_get people q"
    using s'(4) by (simp add: store_simps)
  ultimately show ?case using r s'(1) by (intro exI[of _ s'] exI[of _ people']) auto
qed

section \<open>Before the loops\<close>

definition readable_quiet :: "activity_ledger \<Rightarrow> bool" where
  "readable_quiet l \<longleftrightarrow> (\<forall>pid st q. om_get (al_people l) pid = Some st \<longrightarrow> pa_agent_quiet_at st = Some q \<longrightarrow>
     parse_iso_millis q \<noteq> None)"

text \<open>The instant since when the agents have been watched is absent, unreadable or one that can be written.\<close>

definition watch_ok :: "reconcile_input \<Rightarrow> bool" where
  "watch_ok input \<longleftrightarrow> (case parse_iso_millis (ri_watching_since input) of None \<Rightarrow> True | Some w \<Rightarrow> writable_instant w)"

definition idled :: "activity_ledger \<Rightarrow> activity_ledger \<Rightarrow> bool" where
  "idled l l' \<longleftrightarrow> al_transitions l' = al_transitions l \<and> al_person_order l' = al_person_order l
     \<and> al_next_transition_sequence l' = al_next_transition_sequence l
     \<and> (\<forall>q. rel_option (\<lambda>st st'. \<exists>i. st' = st\<lparr>pa_idle_since := i\<rparr>) (om_get (al_people l) q) (om_get (al_people l') q))"

lemma idled_refl: "idled l l"
proof -
  have "\<exists>i. st = st\<lparr>pa_idle_since := i\<rparr>" for st :: person_activity_state
    by (rule exI[of _ "pa_idle_since st"]) simp
  then show ?thesis by (simp add: idled_def option.rel_refl)
qed

lemma idled_trans:
  assumes "idled l l'" "idled l' l''"
  shows "idled l l''"
proof -
  let ?r = "\<lambda>st st'. \<exists>i. st' = st\<lparr>pa_idle_since := i\<rparr>"
  have "rel_option ?r (om_get (al_people l) q) (om_get (al_people l'') q)" for q
  proof -
    have "rel_option ?r (om_get (al_people l) q) (om_get (al_people l') q)"
      "rel_option ?r (om_get (al_people l') q) (om_get (al_people l'') q)" using assms by (simp_all add: idled_def)
    then show ?thesis
      by (cases "om_get (al_people l) q"; cases "om_get (al_people l') q"; cases "om_get (al_people l'') q") auto
  qed
  then show ?thesis using assms by (simp add: idled_def)
qed

lemma quiet_since_parses:
  assumes "watching = (case parse_iso_millis w of None \<Rightarrow> i64_max | Some x \<Rightarrow> x)"
    and "case parse_iso_millis w of None \<Rightarrow> True | Some x \<Rightarrow> writable_instant x"
    and "writable_instant now" "\<And>q. pa_agent_quiet_at st = Some q \<Longrightarrow> parse_iso_millis q \<noteq> None"
    and "agent_quiet_since st watching now = Some i"
  shows "parse_iso_millis i \<noteq> None"
proof (cases "pa_agent_quiet_at st")
  case None
  then obtain active where i: "sat_add_i64 (max active watching) AGENT_ACTIVITY_LIVENESS_MS \<le> now"
      "i = iso_millis (sat_add_i64 (max active watching) AGENT_ACTIVITY_LIVENESS_MS)"
    using assms(5) by (auto simp: agent_quiet_since_def Let_def split: option.splits if_splits)
  have "- 62162035200000 \<le> watching" using assms(1,2)
    by (auto simp: writable_instant_def i64_max_def split: option.splits)
  then have "- 62162035200000 \<le> sat_add_i64 (max active watching) AGENT_ACTIVITY_LIVENESS_MS"
    by (auto simp: rust_simps AGENT_ACTIVITY_LIVENESS_MS_def)
  then have "writable_instant (sat_add_i64 (max active watching) AGENT_ACTIVITY_LIVENESS_MS)"
    using i(1) assms(3) by (simp add: writable_instant_def)
  then show ?thesis using i(2) by (simp add: written_stamp_parses)
qed (use assms(4,5) in \<open>simp add: agent_quiet_since_def\<close>)

lemma idled_rows:
  assumes "idled l l'"
  shows "om_get (al_people l') q = None \<longleftrightarrow> om_get (al_people l) q = None"
    and "om_get (al_people l) q = Some st \<Longrightarrow> \<exists>i. om_get (al_people l') q = Some (st\<lparr>pa_idle_since := i\<rparr>)"
proof -
  have r: "rel_option (\<lambda>st st'. \<exists>i. st' = st\<lparr>pa_idle_since := i\<rparr>) (om_get (al_people l) q) (om_get (al_people l') q)"
    using assms by (simp add: idled_def)
  show "om_get (al_people l') q = None \<longleftrightarrow> om_get (al_people l) q = None"
    using r by (cases "om_get (al_people l) q"; cases "om_get (al_people l') q") simp_all
  show "om_get (al_people l) q = Some st \<Longrightarrow> \<exists>i. om_get (al_people l') q = Some (st\<lparr>pa_idle_since := i\<rparr>)"
    using r by (cases "om_get (al_people l') q") simp_all
qed


lemma idled_quiet:
  assumes "idled l l'" "readable_quiet l"
  shows "readable_quiet l'"
  unfolding readable_quiet_def
proof (intro allI impI)
  fix pid st' q assume s: "om_get (al_people l') pid = Some st'" "pa_agent_quiet_at st' = Some q"
  then obtain st where st: "om_get (al_people l) pid = Some st"
    using idled_rows(1)[OF assms(1), of pid] by fastforce
  obtain i where "om_get (al_people l') pid = Some (st\<lparr>pa_idle_since := i\<rparr>)"
    using idled_rows(2)[OF assms(1) st] by blast
  then have "pa_agent_quiet_at st = Some q" using s by auto
  then show "parse_iso_millis q \<noteq> None" using assms(2) st by (auto simp: readable_quiet_def)
qed

lemma note_idle_step:
  assumes "activity_ok l m" "readable_quiet l" "watch_ok input" "writable_instant now"
    and "watching = (case parse_iso_millis (ri_watching_since input) of None \<Rightarrow> i64_max | Some x \<Rightarrow> x)"
  shows "activity_ok (note_idle ceo r watching now l pid) m" "idled l (note_idle ceo r watching now l pid)"
proof -
  have "activity_ok (note_idle ceo r watching now l pid) m \<and> idled l (note_idle ceo r watching now l pid)"
  proof (cases "om_get (al_people l) pid")
    case None
    then have "note_idle ceo r watching now l pid = l" by (simp add: note_idle_def om_adjust_def)
    then show ?thesis using assms(1) idled_refl by simp
  next
    case (Some st)
    define i where "i = (if pid = ceo \<or> has_effective_demand r pid \<or> \<not> pa_last_desired_active st
       then None else agent_quiet_since st watching now)"
    let ?l = "l\<lparr>al_people := om_put pid (st\<lparr>pa_idle_since := i\<rparr>) (al_people l)\<rparr>"
    have run: "note_idle ceo r watching now l pid = ?l"
      by (simp add: note_idle_def om_adjust_get[OF Some] i_def)
    have "\<not> bad_stamp i"
    proof (cases i)
      case (Some x)
      then have a: "agent_quiet_since st watching now = Some x" by (simp add: i_def split: if_splits)
      have q: "parse_iso_millis q \<noteq> None" if "pa_agent_quiet_at st = Some q" for q
        using assms(2) \<open>om_get (al_people l) pid = Some st\<close> that unfolding readable_quiet_def by blast
      have "parse_iso_millis x \<noteq> None"
        by (rule quiet_since_parses[OF assms(5) assms(3)[unfolded watch_ok_def] assms(4) q a])
      then show ?thesis using Some by (simp add: bad_stamp_def)
    qed (simp add: bad_stamp_def)
    then have "state_shape pid (st\<lparr>pa_idle_since := i\<rparr>)" using ok_state(1)[OF assms(1) Some] by (simp add: state_shape_def)
    then have "activity_ok ?l m" using ok_state[OF assms(1) Some] Some
      by (intro ok_put_state[OF assms(1)]) (simp_all add: pointer_ok_def)
    moreover have "idled l ?l" using idled_refl[of l] Some by (auto simp: idled_def store_simps)
    ultimately show ?thesis using run by simp
  qed
  then show "activity_ok (note_idle ceo r watching now l pid) m" "idled l (note_idle ceo r watching now l pid)" by blast+
qed

lemma idle_phase:
  assumes "activity_ok l m" "readable_quiet l" "watch_ok input" "writable_instant now"
    and "watching = (case parse_iso_millis (ri_watching_since input) of None \<Rightarrow> i64_max | Some x \<Rightarrow> x)"
  shows "activity_ok (foldl (note_idle ceo r watching now) l pids) m \<and> idled l (foldl (note_idle ceo r watching now) l pids)"
  using assms(1,2)
proof (induction pids arbitrary: l)
  case (Cons p pids)
  note step = note_idle_step[OF Cons.prems assms(3-5), of ceo r p]
  have "readable_quiet (note_idle ceo r watching now l p)" by (rule idled_quiet[OF step(2) Cons.prems(2)])
  from Cons.IH[OF step(1) this] show ?case using idled_trans[OF step(2)] by simp
qed (simp add: idled_refl)

lemma cursor_step:
  assumes "activity_ok l m"
  shows "activity_ok (advance_park_cursor admitted l) m \<and> idled l (advance_park_cursor admitted l)"
proof -
  have ok: "activity_ok (l\<lparr>al_automatic_park_cursor := c\<rparr>) m" for c
    using assms by (auto simp: activity_ok_def activity_shape_def activity_fits_def order_exact_def pointer_ok_def)
  have same: "idled l (l\<lparr>al_automatic_park_cursor := c\<rparr>)" for c
    using idled_refl[of l] by (simp add: idled_def)
  show ?thesis
    unfolding advance_park_cursor_def Let_def
    using ok same assms idled_refl by (auto simp only: split: option.split if_split)
qed


lemma check_requested_Inr: "check_requested m requested = Inr u \<longleftrightarrow> (\<forall>pid \<in> set requested. person m pid \<noteq> None)"
  unfolding check_requested_def by (induction requested) (auto simp: res_bind_Inr_iff)

lemma check_requested_Inl:
  "check_requested m requested = Inl e \<Longrightarrow> \<exists>pid \<in> set requested. person m pid = None
     \<and> e = refused UNKNOWN_PERSON (''Unknown requested person '' @ quoted pid)"
  unfolding check_requested_def by (induction requested) (auto simp: res_bind_Inl_iff split: if_splits)

section \<open>The whole reconciliation\<close>

text \<open>The state the first loop starts from, on a valid ledger.\<close>

lemma start_of_loops:
  assumes "activity_ok l m" "readable_quiet l" "watch_ok input" "writable_instant now"
  obtains s0 where "idled l (rs_draft s0)" "activity_ok (rs_draft s0) m"
    "rs_reasons s0 = initial_reasons m ceo (sorted_set (ri_requested_person_ids input))"
    "\<exists>admitted. reconcile_in m ceo input now l at
      = res_bind (check_requested m (sorted_set (ri_requested_person_ids input))) (\<lambda>_.
          res_bind (res_fold (reconcile_person m (ri_launch_intent input) ceo (set admitted) now at) s0
                     (al_person_order (rs_draft s0))) (\<lambda>s.
          res_bind (res_fold (decide_person m (ri_launch_intent input) ceo at) (s, [])
                     (al_person_order (rs_draft s))) (\<lambda>(s', people). Inr (rs_draft s', people))))"
proof -
  let ?requested = "sorted_set (ri_requested_person_ids input)"
  define w where "w = (case parse_iso_millis (ri_watching_since input) of None \<Rightarrow> i64_max | Some x \<Rightarrow> x)"
  define r where "r = initial_reasons m ceo ?requested"
  define d1 where "d1 = foldl (note_idle ceo r w now) l (al_person_order l)"
  define ad where "ad = admitted_parks m ceo r now d1"
  have d1: "activity_ok d1 m" "idled l d1"
    using idle_phase[OF assms w_def, of ceo r "al_person_order l"] by (simp_all add: d1_def)
  let ?s0 = "\<lparr>rs_draft = advance_park_cursor ad d1, rs_reasons = r, rs_abandoned = {}, rs_direct_transfers = {}\<rparr>"
  have "idled l (rs_draft ?s0)" "activity_ok (rs_draft ?s0) m"
    using cursor_step[OF d1(1), of ad] idled_trans[OF d1(2)] by simp_all
  then show thesis
  proof (rule that)
    show "rs_reasons ?s0 = initial_reasons m ceo ?requested" by (simp add: r_def)
    show "\<exists>admitted. reconcile_in m ceo input now l at
      = res_bind (check_requested m ?requested) (\<lambda>_.
          res_bind (res_fold (reconcile_person m (ri_launch_intent input) ceo (set admitted) now at) ?s0
                     (al_person_order (rs_draft ?s0))) (\<lambda>s.
          res_bind (res_fold (decide_person m (ri_launch_intent input) ceo at) (s, [])
                     (al_person_order (rs_draft s))) (\<lambda>(s', people). Inr (rs_draft s', people))))"
      by (rule exI[of _ ad])
        (simp only: reconcile_in_def Let_def w_def[symmetric] r_def[symmetric] d1_def[symmetric] ad_def[symmetric]
          reconcile_state.simps)
  qed
qed

text \<open>The whole run, refusals first.\<close>

lemma reconcile_runs:
  assumes "activity_ok l m" "validated m" "stamp_at now at" "readable_quiet l" "watch_ok input"
    and "al_next_transition_sequence l + length (al_person_order l) \<le> u64_max"
  shows "case reconcile_in m ceo input now l at of
      Inl e \<Rightarrow> (\<exists>pid \<in> set (ri_requested_person_ids input). person m pid = None
          \<and> e = refused UNKNOWN_PERSON (''Unknown requested person '' @ quoted pid))
        \<or> (\<exists>msg. e = refused TRANSITION_CONFLICT msg)
    | Inr (l', people) \<Rightarrow> \<exists>s0 s s' admitted. idled l (rs_draft s0) \<and> activity_ok (rs_draft s0) m
        \<and> rs_reasons s0 = initial_reasons m ceo (sorted_set (ri_requested_person_ids input))
        \<and> res_fold (reconcile_person m (ri_launch_intent input) ceo admitted now at) s0 (al_person_order l) = Inr s
        \<and> span m (set (al_person_order l)) (length (al_person_order l)) s0 s
        \<and> span m (set (al_person_order l)) 0 s s' \<and> l' = rs_draft s'
        \<and> (\<forall>q \<in> set (al_person_order l). \<exists>d. om_get people q = Some d \<and> answered m (ri_launch_intent input) ceo s s' q d)
        \<and> (\<forall>q. q \<notin> set (al_person_order l) \<longrightarrow> om_get people q = None)"
proof -
  let ?fence = "ri_launch_intent input" and ?requested = "sorted_set (ri_requested_person_ids input)"
  let ?order = "al_person_order l"
  have w: "writable_instant now" and p: "parse_iso_millis at \<noteq> None"
    using assms(3) stamp_parses[OF assms(3)] by (simp_all add: stamp_at_def)
  obtain s0 admitted where s0: "idled l (rs_draft s0)" "activity_ok (rs_draft s0) m"
      "rs_reasons s0 = initial_reasons m ceo ?requested"
    and run: "reconcile_in m ceo input now l at
      = res_bind (check_requested m ?requested) (\<lambda>_.
          res_bind (res_fold (reconcile_person m ?fence ceo (set admitted) now at) s0
                     (al_person_order (rs_draft s0))) (\<lambda>s.
          res_bind (res_fold (decide_person m ?fence ceo at) (s, [])
                     (al_person_order (rs_draft s))) (\<lambda>(s', people). Inr (rs_draft s', people))))"
    by (rule start_of_loops[OF assms(1,4,5) w, of ceo at]) blast
  have o0: "al_person_order (rs_draft s0) = ?order"
      "al_next_transition_sequence (rs_draft s0) = al_next_transition_sequence l"
    using s0(1) by (simp_all add: idled_def)
  have order: "distinct ?order" "set ?order = {k. om_get (al_people l) k \<noteq> None}"
    using assms(1) unfolding activity_ok_def order_exact_def by blast+
  then have rows0: "\<forall>q \<in> set ?order. om_get (al_people (rs_draft s0)) q \<noteq> None"
    using idled_rows(1)[OF s0(1)] by simp
  have loop1: "case res_fold (reconcile_person m ?fence ceo (set admitted) now at) s0 ?order of
      Inl e \<Rightarrow> \<exists>msg. e = refused TRANSITION_CONFLICT msg
    | Inr s \<Rightarrow> span m (set ?order) (length ?order) s0 s"
    by (rule first_loop[OF s0(2) assms(2,3) _ rows0]) (use assms(6) o0(2) in simp)
  show ?thesis
  proof (cases "check_requested m ?requested")
    case (Inl e)
    then show ?thesis using run check_requested_Inl[OF Inl] by simp
  next
    case checked: (Inr u)
    show ?thesis
    proof (cases "res_fold (reconcile_person m ?fence ceo (set admitted) now at) s0 ?order")
      case (Inl e)
      then show ?thesis using run checked loop1 o0 by simp
    next
      case (Inr s)
      then have sp: "span m (set ?order) (length ?order) s0 s" using loop1 by simp
      then have s: "activity_ok (rs_draft s) m" "al_person_order (rs_draft s) = ?order"
        using o0 by (simp_all add: span_def)
      have rows: "\<forall>q \<in> set ?order. om_get (al_people (rs_draft s)) q \<noteq> None"
        using rows0 span_rows[OF s0(2) sp] by simp
      obtain s' people where s': "res_fold (decide_person m ?fence ceo at) (s, []) ?order = Inr (s', people)"
          "span m (set ?order) 0 s s'"
          "\<forall>q \<in> set ?order. \<exists>d. om_get people q = Some d \<and> answered m ?fence ceo s s' q d"
          "\<forall>q. q \<notin> set ?order \<longrightarrow> om_get people q = None"
        using second_loop[OF s(1) assms(2) p order(1) rows, of ?fence ceo "[]"] by auto
      have "reconcile_in m ceo input now l at = Inr (rs_draft s', people)"
        using run checked Inr o0 s(2) s'(1) by simp
      then show ?thesis using s0 Inr sp s' by auto
    qed
  qed
qed

lemma reconcile_respects_fence:
  assumes "activity_ok l m" "validated m" "stamp_at now at" "readable_quiet l" "watch_ok input"
    and "al_next_transition_sequence l + length (al_person_order l) \<le> u64_max"
  shows "case reconcile_in m ceo input now l at of
      Inl e \<Rightarrow> (\<exists>pid \<in> set (ri_requested_person_ids input). person m pid = None
          \<and> e = refused UNKNOWN_PERSON (''Unknown requested person '' @ quoted pid))
        \<or> (\<exists>msg. e = refused TRANSITION_CONFLICT msg)
    | Inr (l', people) \<Rightarrow> activity_ok l' m \<and> moves l l'
        \<and> (\<forall>pid. om_get people pid = None \<longleftrightarrow> om_get (al_people l) pid = None)
        \<and> (\<forall>pid d. om_get people pid = Some d \<longrightarrow> pd_person_id d = pid
             \<and> pd_transition_id d = active_transition_id_of l' pid
             \<and> map_option pa_last_desired_active (om_get (al_people l') pid) = Some (pd_active d)
             \<and> (pd_active d \<longrightarrow> admits (ri_launch_intent input) pid ceo))"
proof (cases "reconcile_in m ceo input now l at")
  case (Inl e)
  then show ?thesis using reconcile_runs[OF assms, of ceo] by simp
next
  case (Inr lp)
  obtain l' people where lp: "lp = (l', people)" by (cases lp)
  obtain s0 s s' where i: "idled l (rs_draft s0)" and a: "span m (set (al_person_order l)) (length (al_person_order l)) s0 s"
    and b: "span m (set (al_person_order l)) 0 s s'" "l' = rs_draft s'"
    and d: "\<forall>q \<in> set (al_person_order l). \<exists>d. om_get people q = Some d \<and> answered m (ri_launch_intent input) ceo s s' q d"
    and n: "\<forall>q. q \<notin> set (al_person_order l) \<longrightarrow> om_get people q = None"
    using reconcile_runs[OF assms, of ceo] unfolding Inr lp sum.case prod.case by blast
  have "moves l (rs_draft s0)" by (rule moves_drop) (use i in \<open>simp_all add: idled_def\<close>)
  moreover have "moves (rs_draft s0) l'" using span_trans[OF a b(1)] b(2) by (simp add: span_def)
  ultimately have mv: "moves l l'" by (rule moves_trans)
  have order: "set (al_person_order l) = {k. om_get (al_people l) k \<noteq> None}"
    using assms(1) unfolding activity_ok_def order_exact_def by blast
  have keys: "om_get people pid = None \<longleftrightarrow> om_get (al_people l) pid = None" for pid
    using d n order by (cases "pid \<in> set (al_person_order l)") auto
  have dec: "decision_ok (ri_launch_intent input) ceo l' pid e" if g: "om_get people pid = Some e" for pid e
  proof -
    have "pid \<in> set (al_person_order l)" using n g by (cases "pid \<in> set (al_person_order l)") auto
    then show ?thesis using d b(2) g by (auto simp: answered_def)
  qed
  have "activity_ok l' m" using b by (simp add: span_def)
  then show ?thesis
    unfolding Inr lp sum.case prod.case
    using mv keys dec unfolding decision_ok_def by (auto 0 3)
qed

text \<open>
  C5. The demand reconciliation respects the launch fence and does not break the ledger. On a valid ledger
  whose stamps of quiet agents parse, at a watch instant that is absent, unreadable or one that can be
  written, and with a sequence number left for every person (none of which validation gives), it is refused
  only for a requested person who is unknown or for a transition in conflict. Otherwise the ledger it leaves is valid and its transitions only moved
  forward; it answers a decision for exactly the people the ledger has; what a decision says, who is to run
  and in which transition, is what the ledger now says; and nobody the fence does not admit is to run, the
  chief apart.
\<close>

theorem reconcile_respects_the_fence:
  assumes "activity_ok l m" "validated m" "stamp_at now at" "readable_quiet l" "watch_ok input"
    and "al_next_transition_sequence l + length (al_person_order l) \<le> u64_max"
  shows "case reconcile_in m ceo input now l at of
      Inl e \<Rightarrow> (\<exists>pid \<in> set (ri_requested_person_ids input). person m pid = None
          \<and> e = refused UNKNOWN_PERSON (''Unknown requested person '' @ quoted pid))
        \<or> (\<exists>msg. e = refused TRANSITION_CONFLICT msg)
    | Inr (l', people) \<Rightarrow> activity_ok l' m \<and> moves l l'
        \<and> (\<forall>pid. om_get people pid = None \<longleftrightarrow> om_get (al_people l) pid = None)
        \<and> (\<forall>pid d. om_get people pid = Some d \<longrightarrow> pd_person_id d = pid
             \<and> pd_transition_id d = active_transition_id_of l' pid
             \<and> map_option pa_last_desired_active (om_get (al_people l') pid) = Some (pd_active d)
             \<and> (pd_active d \<longrightarrow> admits (ri_launch_intent input) pid ceo))"
  by (rule reconcile_respects_fence[OF assms])

section \<open>A concrete reconciliation\<close>

text \<open>The worker, who is being parked, is asked for and alone admitted.\<close>

definition sample_input :: reconcile_input where
  "sample_input = \<lparr>ri_launch_intent = Fenced {''worker''}, ri_requested_person_ids = [''worker''],
     ri_watching_since = ''2026-01-01T00:00:00.000Z''\<rparr>"

lemma sample_run:
  "case reconcile_in (sample_manifest Unit_Active :: unit organization_manifest) ''chief'' sample_input 1767225660000
      sample_ledger ''2026-01-01T00:01:00.000Z'' of Inl _ \<Rightarrow> False | Inr _ \<Rightarrow> True"
  unfolding sample_input_def sample_manifest_def sample_ledger_def by code_simp

lemma sample_facts:
  "activity_ok sample_ledger (sample_manifest Unit_Active :: unit organization_manifest)"
  "stamp_at 1767225660000 ''2026-01-01T00:01:00.000Z''" "readable_quiet sample_ledger" "watch_ok sample_input"
  "al_next_transition_sequence sample_ledger + length (al_person_order sample_ledger) \<le> u64_max"
proof -
  show "activity_ok sample_ledger (sample_manifest Unit_Active :: unit organization_manifest)"
    using validate_activity_iff[OF sample_activity(1,2)] sample_activity(3) by blast
  have "iso_millis 1767225660000 = ''2026-01-01T00:01:00.000Z''" by code_simp
  then show "stamp_at 1767225660000 ''2026-01-01T00:01:00.000Z''" using sample_stamp by simp
  show "readable_quiet sample_ledger"
    by (auto simp: readable_quiet_def sample_ledger_def sample_state_def om_get_def split: if_splits)
  have "parse_iso_millis ''2026-01-01T00:00:00.000Z'' = Some 1767225600000" by code_simp
  then show "watch_ok sample_input" by (simp add: watch_ok_def sample_input_def writable_instant_def)
  show "al_next_transition_sequence sample_ledger + length (al_person_order sample_ledger) \<le> u64_max"
    by (simp add: sample_ledger_def u64_max_def)
qed

theorem reconcile_respects_the_fence_witness:
  "\<exists>l' people. reconcile_in (sample_manifest Unit_Active :: unit organization_manifest) ''chief'' sample_input
      1767225660000 sample_ledger ''2026-01-01T00:01:00.000Z'' = Inr (l', people)
    \<and> activity_ok l' (sample_manifest Unit_Active :: unit organization_manifest)
    \<and> (\<forall>d. om_get people ''head'' = Some d \<longrightarrow> \<not> pd_active d)"
proof -
  let ?r = "reconcile_in (sample_manifest Unit_Active :: unit organization_manifest) ''chief'' sample_input
      1767225660000 sample_ledger ''2026-01-01T00:01:00.000Z''"
  obtain l' people where r: "?r = Inr (l', people)" using sample_run by (auto split: sum.splits)
  have "\<not> admits (ri_launch_intent sample_input) ''head'' ''chief''" by (simp add: sample_input_def)
  then show ?thesis
    using reconcile_respects_the_fence[OF sample_facts(1) sample_validated sample_facts(2-5), of "''chief''"] r by auto
qed

section \<open>Waking\<close>



end
