(* ===== verification/Desired_Runtime.thy ===== *)
theory Desired_Runtime
  imports Activity_Demand Converge_Safety
begin

text \<open>
  Who should be running (\<open>chiefd-core/src/runtime/desired.rs\<close>, \<open>project.rs\<close>, \<open>roster.rs\<close>, \<open>actuation.rs\<close>):
  the narrow projection of the manifest and the activity ledger, the one predicate over it, the roster built
  from it and the set published to the actuator. \<open>active_department\<close> climbs without a cycle guard, so it and
  what calls it are partial here: \<open>None\<close> is a call that does not return.
\<close>

definition HANDOFF_REQUIRED_REASON :: string where "HANDOFF_REQUIRED_REASON = ''handoff-required''"

section \<open>The projection's types\<close>

datatype department_state = Department_Active | Department_Paused

datatype desired_employment = Desired_Active | Desired_Benched | Desired_Departed

record desired_department =
  dd_id :: string
  dd_name :: string
  dd_parent_department_id :: "string option"
  dd_head_person_id :: string
  dd_state :: department_state

record planned_person =
  pp_id :: string
  pp_department_id :: string
  pp_employment_state :: desired_employment

record desired_manifest =
  dm_slug :: string
  dm_root_department_id :: string
  dm_departments :: "(string, desired_department) omap"
  dm_people :: "(string, planned_person) omap"
  dm_department_order :: "string list"
  dm_people_order :: "string list"

record desired_decision =
  dc_person_id :: string
  dc_active :: bool
  dc_reasons :: "string list"

record desired_snapshot =
  ds_organization :: string
  ds_people :: "(string, desired_decision) omap"

datatype desired_error =
    ManifestInvalid string
  | ActivityMismatch string
  | ActivityIncomplete
  | ActivityDecision string

definition is_handoff_required :: "desired_decision \<Rightarrow> bool" where
  "is_handoff_required d \<longleftrightarrow> HANDOFF_REQUIRED_REASON \<in> set (dc_reasons d)"

section \<open>The predicate\<close>

partial_function (option) active_walk :: "desired_manifest \<Rightarrow> desired_department option \<Rightarrow> bool option" where
  "active_walk m cursor = (case cursor of
     None \<Rightarrow> Some True
   | Some d \<Rightarrow>
       if dd_state d \<noteq> Department_Active then Some False
       else active_walk m (case dd_parent_department_id d of
         Some parent \<Rightarrow> om_get (dm_departments m) parent | None \<Rightarrow> None))"

definition active_department :: "desired_manifest \<Rightarrow> string \<Rightarrow> bool option" where
  "active_department m department_id = active_walk m (om_get (dm_departments m) department_id)"

definition is_desired_person :: "desired_manifest \<Rightarrow> planned_person \<Rightarrow> desired_snapshot \<Rightarrow> bool option" where
  "is_desired_person m p activity =
     (let decision = om_get (ds_people activity) (pp_id p);
          decided = Some (case decision of Some d \<Rightarrow> dc_active d | None \<Rightarrow> True)
      in case (case decision of None \<Rightarrow> None | Some d \<Rightarrow> if is_handoff_required d then Some d else None) of
           Some d \<Rightarrow> Some (dc_active d)
         | None \<Rightarrow> Option.bind (active_department m (pp_department_id p)) (\<lambda>up.
             if \<not> up then Some False
             else if pp_employment_state p \<noteq> Desired_Active then Some False
             else (case find (\<lambda>d. dd_head_person_id d = pp_id p) (map snd (dm_departments m)) of
                None \<Rightarrow> decided
              | Some headed \<Rightarrow> Option.bind (active_department m (dd_id headed)) (\<lambda>up.
                  if \<not> up then Some False else decided))))"

section \<open>The consistency check\<close>

text \<open>The source indexes the decisions last, when every person is known to have one.\<close>

definition desired_validate :: "desired_manifest \<Rightarrow> desired_snapshot \<Rightarrow> desired_error + unit" where
  "desired_validate m activity =
     (if order_invalid (dm_department_order m) (dm_departments m)
        \<or> length (dm_department_order m) \<noteq> length (dm_departments m)
      then Inl (ManifestInvalid ''department order is invalid'')
      else if order_invalid (dm_people_order m) (dm_people m)
        \<or> length (dm_people_order m) \<noteq> length (dm_people m)
      then Inl (ManifestInvalid ''people order is invalid'')
      else if ds_organization activity \<noteq> dm_slug m then Inl (ActivityMismatch (dm_slug m))
      else if length (ds_people activity) \<noteq> length (dm_people_order m)
        \<or> list_ex (\<lambda>pid. \<not> om_has (ds_people activity) pid) (dm_people_order m)
      then Inl ActivityIncomplete
      else res_fold (\<lambda>_ pid. case om_get (ds_people activity) pid of
             None \<Rightarrow> Inl (ActivityDecision pid)
           | Some d \<Rightarrow> if dc_person_id d \<noteq> pid then Inl (ActivityDecision pid) else Inr ())
         () (dm_people_order m))"

section \<open>Projecting the stores\<close>

fun map_department_state :: "unit_state \<Rightarrow> department_state" where
  "map_department_state Unit_Active = Department_Active"
| "map_department_state Paused = Department_Paused"

fun map_employment :: "employment_state \<Rightarrow> desired_employment" where
  "map_employment Employment_Active = Desired_Active"
| "map_employment Benched = Desired_Benched"
| "map_employment Departed = Desired_Departed"

definition project_manifest :: "'v organization_manifest \<Rightarrow> desired_manifest" where
  "project_manifest m =
     \<lparr>dm_slug = mf_slug m, dm_root_department_id = mf_root_department_id m,
      dm_departments = om_map (\<lambda>d. \<lparr>dd_id = dp_id d, dd_name = dp_name d,
        dd_parent_department_id = dp_parent_department_id d, dd_head_person_id = dp_head_person_id d,
        dd_state = map_department_state (dp_state d)\<rparr>) (mf_departments m),
      dm_people = om_map (\<lambda>p. \<lparr>pp_id = ps_id p, pp_department_id = ps_department_id p,
        pp_employment_state = map_employment (ps_employment_state p)\<rparr>) (mf_people m),
      dm_department_order = mf_department_order m, dm_people_order = mf_people_order m\<rparr>"

definition project_activity :: "'v organization_manifest \<Rightarrow> activity_snapshot \<Rightarrow> desired_snapshot" where
  "project_activity m snapshot =
     \<lparr>ds_organization = mf_slug m,
      ds_people = om_map (\<lambda>d. \<lparr>dc_person_id = pd_person_id d, dc_active = pd_active d,
        dc_reasons = map reason_as_str (pd_reasons d)\<rparr>) snapshot\<rparr>"

definition project_activity_from_ledger :: "'v organization_manifest \<Rightarrow> activity_ledger \<Rightarrow> desired_snapshot" where
  "project_activity_from_ledger m activity =
     \<lparr>ds_organization = mf_slug m,
      ds_people = om_of_list (List.map_filter (\<lambda>pid. case om_get (al_people activity) pid of
          None \<Rightarrow> None
        | Some state \<Rightarrow>
            (let handoff_required = (case active_transition activity pid of
                   None \<Rightarrow> False | Some t \<Rightarrow> status_is_pending (gt_status t))
             in Some (pid, \<lparr>dc_person_id = pid, dc_active = pa_last_desired_active state,
                   dc_reasons = (if handoff_required then [HANDOFF_REQUIRED_REASON] else [])\<rparr>)))
        (al_person_order activity))\<rparr>"

section \<open>The roster and what is published\<close>

record roster_department =
  rd_id :: string
  rd_name :: string
  rd_parent_department_id :: "string option"
  rd_head_person_id :: string
  rd_order :: nat
  rd_state :: string

record roster_person =
  rp_id :: string
  rp_display_name :: string
  rp_title :: string
  rp_department_id :: string
  rp_is_head_of :: "string option"
  rp_display_order :: nat
  rp_desired_active :: bool
  rp_employment_state :: string

record desired_roster =
  dr_slug :: string
  dr_display_name :: string
  dr_root_department_id :: string
  dr_departments :: "roster_department list"
  dr_people :: "roster_person list"

fun employment_lowercase :: "employment_state \<Rightarrow> string" where
  "employment_lowercase Employment_Active = ''active''"
| "employment_lowercase Benched = ''benched''"
| "employment_lowercase Departed = ''departed''"

definition roster_departments :: "'v organization_manifest \<Rightarrow> roster_department list" where
  "roster_departments m = List.map_filter (\<lambda>(order, did). map_option (\<lambda>u.
     \<lparr>rd_id = dp_id u, rd_name = dp_name u, rd_parent_department_id = dp_parent_department_id u,
      rd_head_person_id = dp_head_person_id u, rd_order = order,
      rd_state = (case dp_state u of Unit_Active \<Rightarrow> ''active'' | Paused \<Rightarrow> ''paused'')\<rparr>) (department m did))
     (List.enumerate 0 (mf_department_order m))"

definition roster_people :: "'v organization_manifest \<Rightarrow> desired_snapshot \<Rightarrow> roster_person list option" where
  "roster_people m snapshot =
     (let plan = project_manifest m
      in those (List.map_filter (\<lambda>(display_order, pid).
           case (person m pid, om_get (dm_people plan) pid) of
             (Some p, Some planned) \<Rightarrow> Some (map_option (\<lambda>desired.
               \<lparr>rp_id = ps_id p, rp_display_name = ps_name p, rp_title = ps_title p,
                rp_department_id = ps_department_id p, rp_is_head_of = map_option dp_id (headed_department m pid),
                rp_display_order = display_order, rp_desired_active = desired,
                rp_employment_state = employment_lowercase (ps_employment_state p)\<rparr>)
               (is_desired_person plan planned snapshot))
           | _ \<Rightarrow> None) (List.enumerate 0 (mf_people_order m))))"

definition project_desired_roster :: "'v organization_manifest \<Rightarrow> activity_ledger option \<Rightarrow> desired_roster option" where
  "project_desired_roster m activity =
     (let snapshot = (case activity of
            Some ledger \<Rightarrow> project_activity_from_ledger m ledger
          | None \<Rightarrow> \<lparr>ds_organization = mf_slug m, ds_people = []\<rparr>)
      in map_option (\<lambda>people. \<lparr>dr_slug = mf_slug m, dr_display_name = mf_name m,
           dr_root_department_id = mf_root_department_id m,
           dr_departments = roster_departments m, dr_people = people\<rparr>) (roster_people m snapshot))"

datatype hold_reason = BreakerTripped | HoldShadow

record published_person =
  pu_person_id :: string
  pu_launch_hash :: string

record desired_runtime =
  rt_company :: string
  rt_actuation_mode :: actuation_mode
  rt_people :: "published_person list"
  rt_hold :: "hold_reason option"

definition publish_desired_runtime ::
  "desired_roster \<Rightarrow> actuation_mode \<Rightarrow> bool \<Rightarrow> bool \<Rightarrow> (string \<Rightarrow> string) \<Rightarrow> desired_runtime" where
  "publish_desired_runtime roster mode breaker_tripped stopped hash_of =
     \<lparr>rt_company = dr_slug roster, rt_actuation_mode = mode,
      rt_people = map (\<lambda>p. \<lparr>pu_person_id = rp_id p, pu_launch_hash = hash_of (rp_id p)\<rparr>)
        (filter rp_desired_active (filter (\<lambda>_. \<not> stopped) (dr_people roster))),
      rt_hold = (if breaker_tripped then Some BreakerTripped
        else if mode = Shadow then Some HoldShadow else None)\<rparr>"

end
