(* ===== verification/Desired_Contract.thy ===== *)
theory Desired_Contract
  imports Desired_Runtime
begin

text \<open>
  What the published set means: on a validated manifest the unguarded climb returns and agrees with the
  manifest's own test, so the desired-person predicate is a function of the company's own facts; and after a
  reconciliation nobody the launch fence does not admit is published.
\<close>

section \<open>The climb returns\<close>

lemma plan_department:
  "om_get (dm_departments (project_manifest m)) did = map_option (\<lambda>d.
     \<lparr>dd_id = dp_id d, dd_name = dp_name d, dd_parent_department_id = dp_parent_department_id d,
      dd_head_person_id = dp_head_person_id d, dd_state = map_department_state (dp_state d)\<rparr>) (department m did)"
  by (simp add: project_manifest_def department_def store_simps)

lemma plan_person:
  "om_get (dm_people (project_manifest m)) pid = map_option (\<lambda>p.
     \<lparr>pp_id = ps_id p, pp_department_id = ps_department_id p, pp_employment_state = map_employment (ps_employment_state p)\<rparr>)
     (person m pid)"
  by (simp add: project_manifest_def person_def store_simps)

lemma map_state_active: "map_department_state s = Department_Active \<longleftrightarrow> s = Unit_Active"
  by (cases s) simp_all

lemma map_employment_active: "map_employment s = Desired_Active \<longleftrightarrow> s = Employment_Active"
  by (cases s) simp_all

text \<open>Climbing from a department whose ancestors were not seen, the two walks agree and the plain one returns.\<close>

lemma walks_agree:
  assumes "validated m" "(did, r) \<in> (parent_edge m)\<^sup>*" "department m did \<noteq> None"
    and "\<And>x. (r, x) \<notin> parent_edge m" "\<forall>a. (did, a) \<in> (parent_edge m)\<^sup>* \<longrightarrow> a \<notin> seen"
  shows "active_walk (project_manifest m) (om_get (dm_departments (project_manifest m)) did)
    = Some (stopped_walk m seen did = Inr None)"
  using assms(2,3,5)
proof (induction arbitrary: seen rule: converse_rtrancl_induct)
  case base
  then obtain d where d: "department m r = Some d" by auto
  have i: "dp_id d = r" by (rule validated_id[OF assms(1) d])
  have "dp_parent_department_id d = None"
  proof (rule ccontr)
    assume "dp_parent_department_id d \<noteq> None"
    then obtain parent where p: "dp_parent_department_id d = Some parent" by auto
    then have "department m parent \<noteq> None"
      using validated_facts(1)[OF assms(1), of r] d by (auto simp: department_ok_def)
    then have "(r, parent) \<in> parent_edge m" using d p by (simp add: parent_edge_def)
    then show False using assms(4) by blast
  qed
  moreover have "r \<notin> seen" using base(2) by blast
  ultimately show ?case
    using d i by (simp add: plan_department active_walk.simps stopped_walk.simps[of m seen r] map_state_active)
next
  case (step did parent)
  obtain d where d: "department m did = Some d" "dp_parent_department_id d = Some parent" "department m parent \<noteq> None"
    using step(1) by (auto simp: parent_edge_def)
  have i: "dp_id d = did" by (rule validated_id[OF assms(1) d(1)])
  have "did \<notin> seen" using step(5) by blast
  have fresh: "a \<notin> insert did seen" if a: "(parent, a) \<in> (parent_edge m)\<^sup>*" for a
  proof -
    have "(did, a) \<in> (parent_edge m)\<^sup>+" using step(1) a by (rule rtrancl_into_trancl2)
    then have "a \<noteq> did" using validated_acyclic[OF assms(1)] by (auto simp: acyclic_def)
    then show ?thesis using step(5) a step(1) by (auto intro: converse_rtrancl_into_rtrancl)
  qed
  have "active_walk (project_manifest m) (om_get (dm_departments (project_manifest m)) parent)
      = Some (stopped_walk m (insert did seen) parent = Inr None)"
    using step(3)[OF d(3)] fresh by blast
  then show ?case
    using d i \<open>did \<notin> seen\<close>
    by (simp add: plan_department active_walk.simps[of _ "Some _"] stopped_walk.simps[of m seen did] map_state_active)
qed

lemma active_department_returns:
  assumes "validated m"
  shows "active_department (project_manifest m) did
    = Some (department m did = None \<or> organization_unit_is_active m did)"
proof (cases "department m did")
  case None
  then show ?thesis by (simp add: active_department_def plan_department active_walk.simps)
next
  case (Some d)
  then have n: "department m did \<noteq> None" by simp
  have "active_department (project_manifest m) did = Some (stopped_walk m {} did = Inr None)"
    unfolding active_department_def
    by (rule walks_agree[OF assms reaches_root[OF assms n] n root_no_parent[OF assms]]) simp
  then show ?thesis
    using Some by (simp add: organization_unit_is_active_def stopped_organization_unit_ancestor_def)
qed

section \<open>The predicate is the company's own\<close>

lemma find_head:
  assumes "validated m"
  shows "rel_option (\<lambda>h d. dd_id h = dp_id d)
    (find (\<lambda>d. dd_head_person_id d = pid) (map snd (dm_departments (project_manifest m)))) (headed_department m pid)"
proof -
  let ?f = "\<lambda>d. \<lparr>dd_id = dp_id d, dd_name = dp_name d, dd_parent_department_id = dp_parent_department_id d,
      dd_head_person_id = dp_head_person_id d, dd_state = map_department_state (dp_state d)\<rparr>"
  have deps: "map snd (dm_departments (project_manifest m)) = map (?f \<circ> snd) (mf_departments m)"
    by (simp add: project_manifest_def om_map_def comp_def case_prod_unfold)
  have wf: "om_wf (mf_departments m)" using assms by (simp add: validated_def)
  show ?thesis
  proof (cases "find (\<lambda>d. dd_head_person_id d = pid) (map snd (dm_departments (project_manifest m)))")
    case None
    then have n: "dp_head_person_id (snd kd) \<noteq> pid" if "kd \<in> set (mf_departments m)" for kd
      unfolding deps find_None_iff using that by auto
    have "headed_department m pid = None"
    proof (rule ccontr)
      assume "headed_department m pid \<noteq> None"
      then obtain d where d: "department m (dp_id d) = Some d" "dp_head_person_id d = pid"
        using headed_department_iff[OF assms] by auto
      then have "(dp_id d, d) \<in> set (mf_departments m)" by (intro om_get_Some_mem) (simp add: department_def)
      with n[of "(dp_id d, d)"] d(2) show False by simp
    qed
    then show ?thesis using None by simp
  next
    case (Some h)
    from find_SomeD[OF Some] obtain k d where kd: "(k, d) \<in> set (mf_departments m)" "h = ?f d" "dp_head_person_id d = pid"
      unfolding deps by auto
    have "department m k = Some d" using om_mem_iff[OF wf] kd(1) by (simp add: department_def)
    moreover have "dp_id d = k" by (rule validated_id[OF assms \<open>department m k = Some d\<close>])
    ultimately have "headed_department m pid = Some d" using headed_department_iff[OF assms] kd(3) by simp
    then show ?thesis using Some kd(2) by simp
  qed
qed

text \<open>Whether a decision forces the answer, and the answer.\<close>

definition wanted_by :: "'v organization_manifest \<Rightarrow> desired_snapshot \<Rightarrow> string \<Rightarrow> bool" where
  "wanted_by m snapshot pid = (case om_get (ds_people snapshot) pid of
     None \<Rightarrow> person_is_operational m pid
   | Some d \<Rightarrow> dc_active d \<and> (is_handoff_required d \<or> person_is_operational m pid))"

lemma desired_on_validated:
  assumes "validated m" "om_get (dm_people (project_manifest m)) pid = Some planned"
  shows "is_desired_person (project_manifest m) planned snapshot = Some (wanted_by m snapshot pid)"
proof -
  obtain p where p: "person m pid = Some p" "planned = \<lparr>pp_id = ps_id p, pp_department_id = ps_department_id p,
      pp_employment_state = map_employment (ps_employment_state p)\<rparr>"
    using assms(2) by (auto simp: plan_person)
  obtain d where d: "department m (ps_department_id p) = Some d" "ps_id p = pid"
    by (rule validated_person[OF assms(1) p(1)])
  have up: "active_department (project_manifest m) (ps_department_id p)
      = Some (organization_unit_is_active m (ps_department_id p))"
    using active_department_returns[OF assms(1)] d(1) by simp
  let ?find = "find (\<lambda>d. dd_head_person_id d = pid) (map snd (dm_departments (project_manifest m)))"
  have rest: "Option.bind (active_department (project_manifest m) (ps_department_id p)) (\<lambda>up.
             if \<not> up then Some False
             else if map_employment (ps_employment_state p) \<noteq> Desired_Active then Some False
             else (case ?find of None \<Rightarrow> Some decided
              | Some headed \<Rightarrow> Option.bind (active_department (project_manifest m) (dd_id headed)) (\<lambda>up.
                  if \<not> up then Some False else Some decided)))
      = Some (person_is_operational m pid \<and> decided)" for decided
  proof (cases "headed_department m pid")
    case None
    then have "?find = None" using find_head[OF assms(1), of pid] by simp
    then show ?thesis using up p(1) None by (auto simp: person_is_operational_def map_employment_active)
  next
    case (Some e)
    then obtain h where h: "?find = Some h" "dd_id h = dp_id e"
      using find_head[OF assms(1), of pid] by (auto simp: option_rel_Some2)
    have "department m (dp_id e) \<noteq> None" using Some headed_department_iff[OF assms(1)] by simp
    then have "active_department (project_manifest m) (dp_id e) = Some (organization_unit_is_active m (dp_id e))"
      using active_department_returns[OF assms(1), of "dp_id e"] by auto
    then show ?thesis using up p(1) Some h by (auto simp: person_is_operational_def map_employment_active)
  qed
  show ?thesis
  proof (cases "om_get (ds_people snapshot) pid")
    case None
    then have w: "wanted_by m snapshot pid = (person_is_operational m pid \<and> True)" by (simp add: wanted_by_def)
    show ?thesis unfolding w is_desired_person_def Let_def p(2) planned_person.simps d(2) None option.case
      by (rule rest)
  next
    case (Some dec)
    show ?thesis
    proof (cases "is_handoff_required dec")
      case True
      then show ?thesis using Some p(2) d(2) by (simp add: is_desired_person_def wanted_by_def)
    next
      case False
      then have w: "wanted_by m snapshot pid = (person_is_operational m pid \<and> dc_active dec)"
        using Some by (auto simp: wanted_by_def)
      show ?thesis
        unfolding w is_desired_person_def Let_def p(2) planned_person.simps d(2) Some option.case if_not_P[OF False]
        by (rule rest)
    qed
  qed
qed

text \<open>
  C36. The desired-person predicate always returns on a validated manifest, although the climb it makes has
  no cycle guard: for a person of the manifest its answer is the decision where a handoff is required, and
  otherwise that the person is operational by the store's own test and not decided against.
\<close>

theorem desired_predicate_returns:
  assumes "validated m" "om_get (dm_people (project_manifest m)) pid = Some planned"
  shows "is_desired_person (project_manifest m) planned snapshot = Some (case om_get (ds_people snapshot) pid of
       None \<Rightarrow> person_is_operational m pid
     | Some d \<Rightarrow> dc_active d \<and> (is_handoff_required d \<or> person_is_operational m pid))
    \<and> (\<forall>did. active_department (project_manifest m) did = Some (department m did = None \<or> organization_unit_is_active m did))"
  using desired_on_validated[OF assms] active_department_returns[OF assms(1)] by (simp add: wanted_by_def)

theorem desired_predicate_returns_witness:
  "\<exists>planned. om_get (dm_people (project_manifest (sample_manifest Paused :: unit organization_manifest))) ''worker'' = Some planned
    \<and> is_desired_person (project_manifest (sample_manifest Paused :: unit organization_manifest)) planned
        \<lparr>ds_organization = ''s'', ds_people = []\<rparr> = Some False"
proof -
  let ?m = "sample_manifest Paused :: unit organization_manifest"
  have "person ?m ''worker'' \<noteq> None" by (simp add: person_def sample_manifest_def om_get_def)
  then obtain planned where p: "om_get (dm_people (project_manifest ?m)) ''worker'' = Some planned"
    by (auto simp: plan_person)
  have "\<not> person_is_operational ?m ''worker''" unfolding sample_manifest_def by code_simp
  then show ?thesis
    using desired_predicate_returns[OF sample_validated p, of "\<lparr>ds_organization = ''s'', ds_people = []\<rparr>"] p by simp
qed

section \<open>What is published\<close>

lemma those_map_Some: "those (map (\<lambda>x. Some (f x)) xs) = Some (map f xs)"
  by (induction xs) simp_all

lemma map_filter_all: "(\<And>x. x \<in> set xs \<Longrightarrow> f x = Some (g x)) \<Longrightarrow> List.map_filter f xs = map g xs"
  by (induction xs) (simp_all add: List.map_filter_simps)

lemma om_get_of_list_map_filter:
  "om_get (om_of_list (List.map_filter (\<lambda>p. map_option (Pair p) (f p)) ps)) k = (if k \<in> set ps then f k else None)"
proof -
  have "om_get (foldl (\<lambda>m e. om_put (fst e) (snd e) m) m0 (List.map_filter (\<lambda>p. map_option (Pair p) (f p)) ps)) k
      = (if k \<in> set ps \<and> f k \<noteq> None then f k else om_get m0 k)" for m0
    by (induction ps arbitrary: m0) (auto simp: List.map_filter_simps store_simps split: option.splits)
  then show ?thesis unfolding om_of_list_def by simp
qed

lemma roster_on_validated:
  assumes "validated m"
  obtains people where "roster_people m snapshot = Some people"
    "map rp_id people = mf_people_order m"
    "map rp_desired_active people = map (wanted_by m snapshot) (mf_people_order m)"
proof -
  let ?plan = "project_manifest m"
  let ?row = "\<lambda>(i, pid). \<lparr>rp_id = pid, rp_display_name = ps_name (the (person m pid)), rp_title = ps_title (the (person m pid)),
                rp_department_id = ps_department_id (the (person m pid)),
                rp_is_head_of = map_option dp_id (headed_department m pid),
                rp_display_order = i, rp_desired_active = wanted_by m snapshot pid,
                rp_employment_state = employment_lowercase (ps_employment_state (the (person m pid)))\<rparr>"
  let ?f = "\<lambda>(display_order, pid).
           case (person m pid, om_get (dm_people ?plan) pid) of
             (Some p, Some planned) \<Rightarrow> Some (map_option (\<lambda>desired.
               \<lparr>rp_id = ps_id p, rp_display_name = ps_name p, rp_title = ps_title p,
                rp_department_id = ps_department_id p, rp_is_head_of = map_option dp_id (headed_department m pid),
                rp_display_order = display_order, rp_desired_active = desired,
                rp_employment_state = employment_lowercase (ps_employment_state p)\<rparr>)
               (is_desired_person ?plan planned snapshot))
           | _ \<Rightarrow> None"
  have "?f ip = Some (Some (?row ip))" if g: "ip \<in> set (List.enumerate 0 (mf_people_order m))" for ip
  proof -
    obtain i pid where ip: "ip = (i, pid)" by (cases ip)
    then have "pid \<in> set (mf_people_order m)" using g by (auto simp: in_set_enumerate_eq)
    then obtain p where p: "person m pid = Some p" using validated_facts(6)[OF assms] by auto
    then obtain planned where pl: "om_get (dm_people ?plan) pid = Some planned" by (simp add: plan_person)
    obtain d where "department m (ps_department_id p) = Some d" "ps_id p = pid" by (rule validated_person[OF assms p])
    then show ?thesis using p pl desired_on_validated[OF assms pl, of snapshot] by (simp add: ip)
  qed
  then have "List.map_filter ?f (List.enumerate 0 (mf_people_order m))
      = map (\<lambda>ip. Some (?row ip)) (List.enumerate 0 (mf_people_order m))"
    by (rule map_filter_all)
  then have r: "roster_people m snapshot = Some (map ?row (List.enumerate 0 (mf_people_order m)))"
    unfolding roster_people_def Let_def by (simp only: those_map_Some)
  have e: "map (\<lambda>(i, x). g x) (List.enumerate n xs) = map g xs" for g :: "string \<Rightarrow> 'x" and n xs
    by (induction xs arbitrary: n) simp_all
  show thesis
    by (rule that[OF r]) (use e[of id] e[of "wanted_by m snapshot"] in \<open>simp_all add: comp_def case_prod_unfold\<close>)
qed

lemma published_people:
  assumes "map rp_desired_active people = map w (map rp_id people)"
  shows "map pu_person_id (map (\<lambda>p. \<lparr>pu_person_id = rp_id p, pu_launch_hash = h (rp_id p)\<rparr>)
      (filter rp_desired_active people)) = filter w (map rp_id people)"
  using assms by (induction people) auto

lemma published_set:
  assumes "validated m"
  shows "\<exists>roster. project_desired_roster m activity = Some roster \<and> map rp_id (dr_people roster) = mf_people_order m
    \<and> map pu_person_id (rt_people (publish_desired_runtime roster mode tripped stopped h))
        = (if stopped then [] else filter (wanted_by m (case activity of
             Some led \<Rightarrow> project_activity_from_ledger m led | None \<Rightarrow> \<lparr>ds_organization = mf_slug m, ds_people = []\<rparr>))
             (mf_people_order m))
    \<and> (\<forall>p \<in> set (rt_people (publish_desired_runtime roster mode tripped stopped h)). pu_launch_hash p = h (pu_person_id p))
    \<and> rt_hold (publish_desired_runtime roster mode tripped stopped h)
        = (if tripped then Some BreakerTripped else case mode of Shadow \<Rightarrow> Some HoldShadow | Apply \<Rightarrow> None)
    \<and> rt_company (publish_desired_runtime roster mode tripped stopped h) = mf_slug m
    \<and> rt_actuation_mode (publish_desired_runtime roster mode tripped stopped h) = mode"
proof -
  let ?snap = "case activity of Some led \<Rightarrow> project_activity_from_ledger m led
     | None \<Rightarrow> \<lparr>ds_organization = mf_slug m, ds_people = []\<rparr>"
  obtain people where p: "roster_people m ?snap = Some people" "map rp_id people = mf_people_order m"
      "map rp_desired_active people = map (wanted_by m ?snap) (mf_people_order m)"
    by (rule roster_on_validated[OF assms])
  let ?roster = "\<lparr>dr_slug = mf_slug m, dr_display_name = mf_name m, dr_root_department_id = mf_root_department_id m,
           dr_departments = roster_departments m, dr_people = people\<rparr>"
  have r: "project_desired_roster m activity = Some ?roster"
    using p(1) by (simp add: project_desired_roster_def)
  have "map pu_person_id (map (\<lambda>p. \<lparr>pu_person_id = rp_id p, pu_launch_hash = h (rp_id p)\<rparr>)
      (filter rp_desired_active people)) = filter (wanted_by m ?snap) (mf_people_order m)"
    using published_people[of people "wanted_by m ?snap" h] p(2,3) by simp
  then show ?thesis
    using r p(2) by (intro exI[of _ ?roster]) (auto simp: publish_desired_runtime_def split: actuation_mode.split)
qed

text \<open>
  C11. What is published is the people who are wanted, in the company's own order. On a validated manifest the
  roster is always built and has a row for every person; a company that is not stopped publishes exactly
  the wanted people, each with the hash asked of it, a stopped one nobody. The hold says why the actuator
  keeps its hands off, without emptying the set: the tripped breaker first, else the shadow mode, else
  nothing holds it. Company and mode are published as they are.
\<close>

theorem published_set_is_the_wanted:
  assumes "validated m"
  shows "\<exists>roster. project_desired_roster m activity = Some roster \<and> map rp_id (dr_people roster) = mf_people_order m
    \<and> map pu_person_id (rt_people (publish_desired_runtime roster mode tripped stopped h))
        = (if stopped then [] else filter (wanted_by m (case activity of
             Some led \<Rightarrow> project_activity_from_ledger m led | None \<Rightarrow> \<lparr>ds_organization = mf_slug m, ds_people = []\<rparr>))
             (mf_people_order m))
    \<and> (\<forall>p \<in> set (rt_people (publish_desired_runtime roster mode tripped stopped h)). pu_launch_hash p = h (pu_person_id p))
    \<and> rt_hold (publish_desired_runtime roster mode tripped stopped h)
        = (if tripped then Some BreakerTripped else case mode of Shadow \<Rightarrow> Some HoldShadow | Apply \<Rightarrow> None)
    \<and> rt_company (publish_desired_runtime roster mode tripped stopped h) = mf_slug m
    \<and> rt_actuation_mode (publish_desired_runtime roster mode tripped stopped h) = mode"
  by (rule published_set[OF assms])

theorem published_set_is_the_wanted_witness:
  "\<exists>roster. project_desired_roster (sample_manifest Paused :: unit organization_manifest) None = Some roster
    \<and> map pu_person_id (rt_people (publish_desired_runtime roster Shadow False False id)) = [''chief'']
    \<and> rt_hold (publish_desired_runtime roster Shadow False False id) = Some HoldShadow"
proof -
  let ?m = "sample_manifest Paused :: unit organization_manifest"
  let ?snap = "\<lparr>ds_organization = mf_slug ?m, ds_people = []\<rparr> :: desired_snapshot"
  have "filter (wanted_by ?m ?snap) (mf_people_order ?m) = [''chief'']"
    unfolding sample_manifest_def by code_simp
  then show ?thesis
    using published_set_is_the_wanted[OF sample_validated, of Paused None Shadow False False id] by auto
qed

section \<open>From the fence to the published set\<close>

lemma project_lookup:
  "om_get (ds_people (project_activity_from_ledger m l)) pid =
     (if pid \<in> set (al_person_order l) then map_option (\<lambda>state.
        \<lparr>dc_person_id = pid, dc_active = pa_last_desired_active state,
         dc_reasons = (if (case active_transition l pid of None \<Rightarrow> False | Some t \<Rightarrow> status_is_pending (gt_status t))
           then [HANDOFF_REQUIRED_REASON] else [])\<rparr>) (om_get (al_people l) pid) else None)"
proof -
  define f where "f = (\<lambda>pid. map_option (\<lambda>state.
        \<lparr>dc_person_id = pid, dc_active = pa_last_desired_active state,
         dc_reasons = (if (case active_transition l pid of None \<Rightarrow> False | Some t \<Rightarrow> status_is_pending (gt_status t))
           then [HANDOFF_REQUIRED_REASON] else [])\<rparr>) (om_get (al_people l) pid))"
  have "(\<lambda>pid. case om_get (al_people l) pid of
          None \<Rightarrow> None
        | Some state \<Rightarrow>
            (let handoff_required = (case active_transition l pid of
                   None \<Rightarrow> False | Some t \<Rightarrow> status_is_pending (gt_status t))
             in Some (pid, \<lparr>dc_person_id = pid, dc_active = pa_last_desired_active state,
                   dc_reasons = (if handoff_required then [HANDOFF_REQUIRED_REASON] else [])\<rparr>)))
      = (\<lambda>p. map_option (Pair p) (f p))"
    by (rule ext) (simp add: f_def Let_def split: option.split)
  then show ?thesis
    using om_get_of_list_map_filter[of f "al_person_order l" pid] by (simp add: project_activity_from_ledger_def f_def)
qed

text \<open>
  Nobody the launch fence does not admit is ever published. After a reconciliation of the stored ledger
  that was answered, whatever the ledger said before, everyone in the set published from the ledger it
  left is the chief or admitted by the fence it was given, and was answered an active decision by it.
\<close>

theorem published_within_the_fence:
  assumes "activity_json_faithful J" "validated m" "holds J l led" "activity_shape led" "al_organization led = mf_slug m"
    and "stamp_at (slot_now l) at" "chief_person_id m = Inr ceo" "watch_ok input"
    and "readable_quiet (fst (reconcile_people led m at))"
    and "al_next_transition_sequence led + length (mf_people_order m) \<le> u64_max"
    and "activity_reconcile J m input l = Inr (l', people)"
  shows "\<exists>led' roster. holds J l' led' \<and> activity_ok led' m \<and> project_desired_roster m (Some led') = Some roster
    \<and> (\<forall>p \<in> set (rt_people (publish_desired_runtime roster mode tripped stopped h)).
         admits (ri_launch_intent input) (pu_person_id p) ceo
         \<and> (\<exists>d. om_get people (pu_person_id p) = Some d \<and> pd_active d))"
proof -
  let ?healed = "fst (reconcile_people led m at)" and ?f = "reconcile_in m ceo input (slot_now l)"
  have at: "at = iso_millis (slot_now l)" "parse_iso_millis at \<noteq> None"
    using stamp_parses[OF assms(6)] assms(6) by (auto simp: stamp_at_def)
  note healed = reconcile_people_ok[OF assms(2,4,5) at(2)]
  have bound: "al_next_transition_sequence ?healed + length (al_person_order ?healed) \<le> u64_max"
    using assms(10) by (simp add: reconcile_next healed(2))
  note respects = reconcile_respects_fence[OF healed(1) assms(2,6,9,8) bound, of ceo]
  have keep: "activity_ok led' m" if "?f ?healed at = Inr (led', r)" for led' r
    using respects that by simp
  have run: "case ?f ?healed at of
      Inl e \<Rightarrow> activity_mutate J m ?f l = Inl e
    | Inr (led', r) \<Rightarrow> \<exists>l' led''. activity_mutate J m ?f l = Inr (l', r) \<and> holds J l' led'' \<and> slot_now l' = slot_now l
        \<and> (led'' = led' \<or> led'' = led'\<lparr>al_updated_at := at\<rparr>) \<and> activity_ok led'' m"
    by (rule mutate_refines[OF assms(1-5), of ?f, folded at(1), OF at(2)]) (rule keep)
  have m: "activity_mutate J m ?f l = Inr (l', people)"
    using assms(7,11) by (simp add: activity_reconcile_def)
  then obtain led1 where f: "?f ?healed at = Inr (led1, people)"
    using run by (auto split: sum.splits)
  then obtain led' where led': "holds J l' led'" "led' = led1 \<or> led' = led1\<lparr>al_updated_at := at\<rparr>" "activity_ok led' m"
    using run m by auto
  have facts: "om_get people pid = None \<longleftrightarrow> om_get (al_people ?healed) pid = None"
    "om_get people pid = Some d \<Longrightarrow> map_option pa_last_desired_active (om_get (al_people led1) pid) = Some (pd_active d)
       \<and> (pd_active d \<longrightarrow> admits (ri_launch_intent input) pid ceo)" for pid d
    using respects unfolding f by simp_all
  obtain roster where r: "project_desired_roster m (Some led') = Some roster"
    "map pu_person_id (rt_people (publish_desired_runtime roster mode tripped stopped h))
        = (if stopped then [] else filter (wanted_by m (project_activity_from_ledger m led')) (mf_people_order m))"
    using published_set[OF assms(2), of "Some led'" mode tripped stopped h, unfolded option.case] by blast
  have "admits (ri_launch_intent input) pid ceo \<and> (\<exists>d. om_get people pid = Some d \<and> pd_active d)"
    if w: "wanted_by m (project_activity_from_ledger m led') pid" and i: "pid \<in> set (mf_people_order m)" for pid
  proof -
    have "om_get (al_people ?healed) pid \<noteq> None"
      using healed i by (auto simp: activity_ok_def order_exact_def)
    then obtain d where d: "om_get people pid = Some d" using facts(1)[of pid] by auto
    then obtain st where st: "om_get (al_people led1) pid = Some st" "pa_last_desired_active st = pd_active d"
      using facts(2)[OF d] by auto
    then have "om_get (al_people led') pid = Some st" using led'(2) by auto
    moreover have "pid \<in> set (al_person_order led')"
      using led'(3) calculation by (auto simp: activity_ok_def order_exact_def)
    ultimately have "pa_last_desired_active st" using w by (auto simp: wanted_by_def project_lookup)
    then show ?thesis using d st(2) facts(2)[OF d] by simp
  qed
  moreover have "pu_person_id ` set (rt_people (publish_desired_runtime roster mode tripped stopped h))
      \<subseteq> {pid. wanted_by m (project_activity_from_ledger m led') pid \<and> pid \<in> set (mf_people_order m)}"
    unfolding set_map[symmetric] r(2) by auto
  ultimately show ?thesis using led'(1,3) r(1) by (intro exI[of _ led'] exI[of _ roster]) auto
qed

lemma sample_healed:
  "fst (reconcile_people sample_ledger (sample_manifest Unit_Active :: unit organization_manifest)
     ''2026-01-01T00:01:00.000Z'') = sample_ledger"
proof -
  have "reconcile_people sample_ledger (sample_manifest Unit_Active :: unit organization_manifest)
     ''2026-01-01T00:01:00.000Z'' = (sample_ledger, False)"
    unfolding sample_manifest_def sample_ledger_def by code_simp
  then show ?thesis by simp
qed

theorem published_within_the_fence_witness:
  "\<exists>l' people led' roster. activity_reconcile sample_codec (sample_manifest Unit_Active :: unit organization_manifest)
      sample_input \<lparr>slot_now = 1767225660000, slot_body = Some sample_ledger\<rparr> = Inr (l', people)
    \<and> holds sample_codec l' led'
    \<and> project_desired_roster (sample_manifest Unit_Active :: unit organization_manifest) (Some led') = Some roster
    \<and> (\<forall>p \<in> set (rt_people (publish_desired_runtime roster Apply False False id)). pu_person_id p \<in> {''chief'', ''worker''})"
proof -
  let ?m = "sample_manifest Unit_Active :: unit organization_manifest"
  let ?l = "\<lparr>slot_now = 1767225660000, slot_body = Some sample_ledger\<rparr>"
  let ?at = "''2026-01-01T00:01:00.000Z''"
  have at: "iso_millis (slot_now ?l) = ?at" by simp code_simp
  have org: "al_organization sample_ledger = mf_slug ?m" by (simp add: sample_ledger_ok sample_bounds)
  have ceo: "chief_person_id ?m = Inr ''chief''" unfolding sample_manifest_def by code_simp
  have stamp: "stamp_at (slot_now ?l) ?at" using sample_facts(2) by simp
  have bound: "al_next_transition_sequence sample_ledger + length (mf_people_order ?m) \<le> u64_max"
    by (simp add: sample_ledger_def sample_manifest_def u64_max_def)
  have p: "parse_iso_millis (iso_millis (slot_now ?l)) \<noteq> None" using stamp_parses[OF stamp] at by simp
  obtain led1 people where f: "reconcile_in ?m ''chief'' sample_input 1767225660000 sample_ledger ?at = Inr (led1, people)"
    using sample_run by (auto split: sum.splits)
  have "activity_ok led1 ?m"
    using reconcile_respects_fence[OF sample_facts(1) sample_validated sample_facts(2-5), of "''chief''"] f by simp
  then obtain l' where "activity_mutate sample_codec ?m (reconcile_in ?m ''chief'' sample_input 1767225660000) ?l = Inr (l', people)"
    using mutate_refines[OF sample_codec_faithful sample_validated sample_codec_holds sample_ledger_ok(1) org p,
        of "reconcile_in ?m ''chief'' sample_input 1767225660000", unfolded at sample_healed f] by auto
  then have run: "activity_reconcile sample_codec ?m sample_input ?l = Inr (l', people)"
    using ceo by (simp add: activity_reconcile_def)
  from published_within_the_fence[OF sample_codec_faithful sample_validated sample_codec_holds sample_ledger_ok(1) org
      stamp ceo sample_facts(4) _ bound run, unfolded sample_healed, OF sample_facts(3), of Apply False False id]
  show ?thesis using run by (fastforce simp: sample_input_def)
qed

end
