(* ===== verification/Pointer_Sweep.thy ===== *)
theory Pointer_Sweep
  imports Desired_Runtime
begin

text \<open>
  The live pointer sweep (\<open>chiefd-core/src/runtime/pointer_sweep.rs\<close>), its projection of the activity ledger
  (\<open>project.rs\<close>) and the transaction that applies its plan (\<open>activity.rs\<close>, \<open>apply_pointer_clears\<close>): a plan is
  computed from one reading of the ledger and every clear is verified again against the ledger it is applied to.
\<close>

section \<open>The plan\<close>

datatype sweep_status =
    Sweep_AwaitingHandoff | Sweep_Overdue | Sweep_Ready | Sweep_Applied | Sweep_Cancelled | Sweep_Forced

record sweep_transition =
  sw_transition_id :: string
  sw_person_id :: string
  sw_status :: sweep_status

record sweep_person =
  sn_person_id :: string
  sn_active_transition_id :: "string option"

record sweep_input =
  si_people :: "sweep_person list"
  si_transitions :: "(string, sweep_transition) omap"

datatype clear_reason = Clear_Cancelled

record clear_pointer_action =
  cp_person_id :: string
  cp_transition_id :: string
  cp_reason :: clear_reason

fun clear_reason_of :: "sweep_status \<Rightarrow> clear_reason option" where
  "clear_reason_of Sweep_Cancelled = Some Clear_Cancelled"
| "clear_reason_of Sweep_Applied = None"
| "clear_reason_of Sweep_AwaitingHandoff = None"
| "clear_reason_of Sweep_Overdue = None"
| "clear_reason_of Sweep_Ready = None"
| "clear_reason_of Sweep_Forced = None"

definition compute_pointer_sweep :: "sweep_input \<Rightarrow> clear_pointer_action list" where
  "compute_pointer_sweep input = List.map_filter (\<lambda>p. case sn_active_transition_id p of
     None \<Rightarrow> None
   | Some tid \<Rightarrow>
       (case om_get (si_transitions input) tid of
          None \<Rightarrow> None
        | Some t \<Rightarrow> map_option (\<lambda>reason.
            \<lparr>cp_person_id = sn_person_id p, cp_transition_id = tid, cp_reason = reason\<rparr>)
            (clear_reason_of (sw_status t)))) (si_people input)"

record clear_recheck =
  cr_active_transition_id :: "string option"
  cr_status :: "sweep_status option"

definition reverify_clear :: "clear_pointer_action \<Rightarrow> clear_recheck \<Rightarrow> bool" where
  "reverify_clear action current =
     (if cr_active_transition_id current \<noteq> Some (cp_transition_id action) then False
      else case cp_reason action of Clear_Cancelled \<Rightarrow> cr_status current = Some Sweep_Cancelled)"

section \<open>From and to the ledger\<close>

fun map_status :: "transition_status \<Rightarrow> sweep_status" where
  "map_status AwaitingHandoff = Sweep_AwaitingHandoff"
| "map_status Overdue = Sweep_Overdue"
| "map_status Ready = Sweep_Ready"
| "map_status Applied = Sweep_Applied"
| "map_status Cancelled = Sweep_Cancelled"
| "map_status Forced = Sweep_Forced"

definition project_sweep_input :: "activity_ledger \<Rightarrow> sweep_input" where
  "project_sweep_input activity =
     \<lparr>si_people = List.map_filter (\<lambda>pid. map_option (\<lambda>state.
        \<lparr>sn_person_id = pid, sn_active_transition_id = pa_active_transition_id state\<rparr>)
        (om_get (al_people activity) pid)) (al_person_order activity),
      si_transitions = om_map (\<lambda>t. \<lparr>sw_transition_id = gt_id t, sw_person_id = gt_person_id t,
        sw_status = map_status (gt_status t)\<rparr>) (al_transitions activity)\<rparr>"

fun sweep_status_of :: "transition_status \<Rightarrow> sweep_status" where
  "sweep_status_of AwaitingHandoff = Sweep_AwaitingHandoff"
| "sweep_status_of Overdue = Sweep_Overdue"
| "sweep_status_of Ready = Sweep_Ready"
| "sweep_status_of Applied = Sweep_Applied"
| "sweep_status_of Cancelled = Sweep_Cancelled"
| "sweep_status_of Forced = Sweep_Forced"

definition pointer_recheck :: "activity_ledger \<Rightarrow> clear_pointer_action \<Rightarrow> clear_recheck" where
  "pointer_recheck draft action =
     \<lparr>cr_active_transition_id = Option.bind (om_get (al_people draft) (cp_person_id action)) pa_active_transition_id,
      cr_status = map_option (\<lambda>t. sweep_status_of (gt_status t)) (om_get (al_transitions draft) (cp_transition_id action))\<rparr>"

definition apply_clear ::
  "string \<Rightarrow> activity_ledger \<times> clear_pointer_action list \<Rightarrow> clear_pointer_action
     \<Rightarrow> activity_ledger \<times> clear_pointer_action list" where
  "apply_clear at lc action = (case lc of (draft, cleared) \<Rightarrow>
     if \<not> reverify_clear action (pointer_recheck draft action) then (draft, cleared)
     else (case om_get (al_people draft) (cp_person_id action) of
        None \<Rightarrow> (draft, cleared)
      | Some state \<Rightarrow>
          (draft\<lparr>al_people := om_put (cp_person_id action)
              (state\<lparr>pa_active_transition_id := None, pa_updated_at := at\<rparr>) (al_people draft)\<rparr>,
           cleared @ [action])))"

definition apply_pointer_clears_in :: "clear_pointer_action list \<Rightarrow> clear_pointer_action list activity_closure" where
  "apply_pointer_clears_in actions draft at = Inr (foldl (apply_clear at) (draft, []) actions)"

definition apply_pointer_clears where
  "apply_pointer_clears J m actions = activity_mutate J m (apply_pointer_clears_in actions)"

section \<open>What it may clear\<close>

lemma sweep_status_cancelled [simp]:
  "sweep_status_of s = Sweep_Cancelled \<longleftrightarrow> s = Cancelled" "map_status s = Sweep_Cancelled \<longleftrightarrow> s = Cancelled"
  by (cases s; simp)+

lemma clear_reason_iff [simp]: "clear_reason_of s = Some r \<longleftrightarrow> s = Sweep_Cancelled"
  by (cases s; cases r) simp_all

text \<open>A person who points at a cancelled transition.\<close>

definition points_at_cancelled :: "activity_ledger \<Rightarrow> string \<Rightarrow> string \<Rightarrow> bool" where
  "points_at_cancelled l pid tid \<longleftrightarrow> (\<exists>st t. om_get (al_people l) pid = Some st \<and> pa_active_transition_id st = Some tid
     \<and> om_get (al_transitions l) tid = Some t \<and> gt_status t = Cancelled)"

lemma reverified:
  "reverify_clear a (pointer_recheck l a) \<longleftrightarrow> points_at_cancelled l (cp_person_id a) (cp_transition_id a)"
  by (cases "cp_reason a"; cases "om_get (al_people l) (cp_person_id a)")
    (auto simp: reverify_clear_def pointer_recheck_def points_at_cancelled_def split: option.splits)

lemma planned_for_person:
  "(case sn_active_transition_id p of
     None \<Rightarrow> None
   | Some tid \<Rightarrow>
       (case om_get ts tid of
          None \<Rightarrow> None
        | Some t \<Rightarrow> map_option (\<lambda>reason.
            \<lparr>cp_person_id = sn_person_id p, cp_transition_id = tid, cp_reason = reason\<rparr>)
            (clear_reason_of (sw_status t)))) = Some a \<longleftrightarrow>
    sn_active_transition_id p = Some (cp_transition_id a) \<and> cp_person_id a = sn_person_id p
      \<and> (\<exists>t. om_get ts (cp_transition_id a) = Some t \<and> sw_status t = Sweep_Cancelled)"
  by (cases a; cases "cp_reason a") (auto split: option.splits)

lemma projected_person:
  "p \<in> set (si_people (project_sweep_input l)) \<longleftrightarrow> sn_person_id p \<in> set (al_person_order l)
     \<and> map_option pa_active_transition_id (om_get (al_people l) (sn_person_id p)) = Some (sn_active_transition_id p)"
  by (cases p) (auto simp: project_sweep_input_def mem_map_filter)

lemma planned_clear:
  "a \<in> set (compute_pointer_sweep (project_sweep_input l)) \<longleftrightarrow>
     cp_person_id a \<in> set (al_person_order l) \<and> points_at_cancelled l (cp_person_id a) (cp_transition_id a)"
proof -
  have "a \<in> set (compute_pointer_sweep (project_sweep_input l)) \<longleftrightarrow>
      (\<exists>p. p \<in> set (si_people (project_sweep_input l)) \<and> sn_active_transition_id p = Some (cp_transition_id a)
        \<and> cp_person_id a = sn_person_id p \<and> (\<exists>t. om_get (al_transitions l) (cp_transition_id a) = Some t \<and> gt_status t = Cancelled))"
    unfolding compute_pointer_sweep_def mem_map_filter planned_for_person
    by (auto simp: project_sweep_input_def store_simps)
  also have "\<dots> \<longleftrightarrow> cp_person_id a \<in> set (al_person_order l) \<and> points_at_cancelled l (cp_person_id a) (cp_transition_id a)"
    (is "?planned \<longleftrightarrow> ?points")
  proof
    assume ?planned
    then show ?points unfolding projected_person by (auto simp: points_at_cancelled_def)
  next
    assume ?points
    then show ?planned
      unfolding projected_person
      by (intro exI[of _ "\<lparr>sn_person_id = cp_person_id a, sn_active_transition_id = Some (cp_transition_id a)\<rparr>"])
        (auto simp: points_at_cancelled_def)
  qed
  finally show ?thesis .
qed

text \<open>What a clear leaves: everything but the pointers, and these only where they pointed at a cancelled one.\<close>

definition cleared_from :: "string \<Rightarrow> activity_ledger \<Rightarrow> activity_ledger \<Rightarrow> bool" where
  "cleared_from at l l' \<longleftrightarrow> l' = l\<lparr>al_people := al_people l'\<rparr>
     \<and> (\<forall>pid. om_get (al_people l') pid = om_get (al_people l) pid
          \<or> (\<exists>st tid. om_get (al_people l) pid = Some st \<and> points_at_cancelled l pid tid
               \<and> om_get (al_people l') pid = Some (st\<lparr>pa_active_transition_id := None, pa_updated_at := at\<rparr>)))"

lemma apply_clear_step:
  assumes "cleared_from at l d" "apply_clear at (d, cleared) a = (d', cleared')"
  shows "cleared_from at l d'"
    and "cleared' = cleared \<or> cleared' = cleared @ [a] \<and> points_at_cancelled l (cp_person_id a) (cp_transition_id a)"
proof -
  have same: "al_transitions d = al_transitions l"
    using assms(1) unfolding cleared_from_def by (metis activity_ledger.select_convs(6) activity_ledger.surjective activity_ledger.update_convs(4))
  have "cleared_from at l d' \<and> (cleared' = cleared \<or> cleared' = cleared @ [a]
      \<and> points_at_cancelled l (cp_person_id a) (cp_transition_id a))"
  proof (cases "points_at_cancelled d (cp_person_id a) (cp_transition_id a)")
    case False
    then show ?thesis using assms by (simp add: apply_clear_def reverified)
  next
    case True
    then obtain st where st: "om_get (al_people d) (cp_person_id a) = Some st"
        "pa_active_transition_id st = Some (cp_transition_id a)"
      by (auto simp: points_at_cancelled_def)
    have "om_get (al_people d) (cp_person_id a) = om_get (al_people l) (cp_person_id a)
        \<or> (\<exists>st'. om_get (al_people d) (cp_person_id a) = Some (st'\<lparr>pa_active_transition_id := None, pa_updated_at := at\<rparr>))"
      using assms(1) unfolding cleared_from_def by blast
    then have row: "om_get (al_people l) (cp_person_id a) = Some st" using st by auto
    then have p: "points_at_cancelled l (cp_person_id a) (cp_transition_id a)"
      using True st same by (simp add: points_at_cancelled_def)
    have "d' = d\<lparr>al_people := om_put (cp_person_id a) (st\<lparr>pa_active_transition_id := None, pa_updated_at := at\<rparr>) (al_people d)\<rparr>"
      "cleared' = cleared @ [a]"
      using assms(2) True st(1) by (simp_all add: apply_clear_def reverified)
    moreover have "d = l\<lparr>al_people := al_people d\<rparr>" using assms(1) by (simp add: cleared_from_def)
    from arg_cong[OF this] have "d\<lparr>al_people := x\<rparr> = (l\<lparr>al_people := al_people d\<rparr>)\<lparr>al_people := x\<rparr>" for x .
    then have "d\<lparr>al_people := x\<rparr> = l\<lparr>al_people := x\<rparr>" for x by simp
    ultimately show ?thesis using assms(1) p row unfolding cleared_from_def by (auto simp: store_simps)
  qed
  then show "cleared_from at l d'"
    "cleared' = cleared \<or> cleared' = cleared @ [a] \<and> points_at_cancelled l (cp_person_id a) (cp_transition_id a)" by blast+
qed

lemma apply_clears:
  assumes "cleared_from at l d"
  shows "cleared_from at l (fst (foldl (apply_clear at) (d, cleared) actions))
    \<and> (\<forall>a \<in> set (snd (foldl (apply_clear at) (d, cleared) actions)).
         a \<in> set cleared \<or> a \<in> set actions \<and> points_at_cancelled l (cp_person_id a) (cp_transition_id a))"
  using assms
proof (induction actions arbitrary: d cleared)
  case (Cons a actions)
  obtain d' cleared' where r: "apply_clear at (d, cleared) a = (d', cleared')" by fastforce
  note step = apply_clear_step[OF Cons.prems r]
  from Cons.IH[OF step(1), of cleared'] step(2) show ?case by (auto simp: r)
qed simp

lemma cleared_refl: "cleared_from at l l"
  by (simp add: cleared_from_def)

lemma valid_points_nowhere: "activity_ok l m \<Longrightarrow> \<not> points_at_cancelled l pid tid"
  using ok_state(2)[of l m pid] by (fastforce simp: points_at_cancelled_def pointer_ok_def)

text \<open>
  The live sweep only ever drops pointers that nothing can consume. On any ledger the plan is exactly the
  people whose pointer is at a cancelled transition; whatever plan is applied to whatever ledger, however
  stale, only people whose pointer is at a cancelled transition by then lose it, everything else of the
  ledger stays as it is, and only planned clears are reported; and on a valid ledger there is nothing to plan
  and any plan is a no-op.
\<close>

theorem sweep_drops_only_dead_pointers:
  "(a \<in> set (compute_pointer_sweep (project_sweep_input l)) \<longleftrightarrow>
       cp_person_id a \<in> set (al_person_order l) \<and> points_at_cancelled l (cp_person_id a) (cp_transition_id a))
   \<and> (\<exists>l' cleared. apply_pointer_clears_in actions l at = Inr (l', cleared) \<and> cleared_from at l l'
       \<and> set cleared \<subseteq> {a \<in> set actions. points_at_cancelled l (cp_person_id a) (cp_transition_id a)}
       \<and> (activity_ok l m \<longrightarrow> compute_pointer_sweep (project_sweep_input l) = [] \<and> l' = l \<and> cleared = []))"
proof -
  obtain l' cleared where r: "foldl (apply_clear at) (l, []) actions = (l', cleared)" by fastforce
  have c: "cleared_from at l l'" "set cleared \<subseteq> {a \<in> set actions. points_at_cancelled l (cp_person_id a) (cp_transition_id a)}"
    using apply_clears[OF cleared_refl, of at l "[]" actions] by (auto simp: r)
  have none: "compute_pointer_sweep (project_sweep_input l) = [] \<and> l' = l \<and> cleared = []" if ok: "activity_ok l m"
  proof -
    note n = valid_points_nowhere[OF ok]
    have "b \<notin> set (compute_pointer_sweep (project_sweep_input l))" for b using planned_clear[of b l] n by blast
    then have "compute_pointer_sweep (project_sweep_input l) = []" by (metis list.set_intros(1) neq_Nil_conv)
    moreover have "foldl (apply_clear at) (l, []) actions = (l, [])"
      by (induction actions) (simp_all add: apply_clear_def reverified n)
    ultimately show ?thesis using r by simp
  qed
  then show ?thesis using planned_clear[of a l] r c by (auto simp: apply_pointer_clears_in_def)
qed

theorem sweep_drops_only_dead_pointers_witness:
  "compute_pointer_sweep (project_sweep_input sample_ledger) = []"
proof -
  have "activity_ok sample_ledger (sample_manifest Unit_Active :: unit organization_manifest)" by (rule sample_facts(1))
  then show ?thesis
    using sweep_drops_only_dead_pointers[of _ sample_ledger "[]" "[]" "sample_manifest Unit_Active :: unit organization_manifest"]
    by blast
qed

end
