(* ===== verification/Change_Feed.thy ===== *)
theory Change_Feed
  imports Chief_Prelude
begin

text \<open>
  The change feed of the document store (\<open>chiefd-api/src/docstore/feed.rs\<close>): a counter, a bounded ring of the
  latest events and the replay a reconnecting client asks for. The mutex serialises the operations, so a feed
  is a sequence of publishes; the broadcast channel behind it is a third-party crate and carries no state of
  the feed. Sequence numbers are a \<open>u64\<close> that one company cannot exhaust, and are natural numbers here.
\<close>

definition DEFAULT_CAPACITY :: nat where "DEFAULT_CAPACITY = 1024"

record watch_event =
  we_seq :: nat
  we_slug :: string
  we_store :: string
  we_updated_at :: string
  we_removed :: bool

datatype replay = Events "watch_event list" | Gap

record change_feed =
  cf_seq :: nat
  cf_ring :: "watch_event list"
  cf_capacity :: nat

definition feed_with_capacity :: "nat \<Rightarrow> change_feed" where
  "feed_with_capacity capacity = \<lparr>cf_seq = 0, cf_ring = [], cf_capacity = max capacity 1\<rparr>"

definition feed_new :: change_feed where "feed_new = feed_with_capacity DEFAULT_CAPACITY"

definition feed_publish :: "string \<Rightarrow> string \<Rightarrow> string \<Rightarrow> bool \<Rightarrow> change_feed \<Rightarrow> change_feed \<times> watch_event" where
  "feed_publish slug store updated_at removed state =
     (let seq = cf_seq state + 1;
          event = \<lparr>we_seq = seq, we_slug = slug, we_store = store, we_updated_at = updated_at, we_removed = removed\<rparr>;
          ring = (if cf_capacity state \<le> length (cf_ring state) then tl (cf_ring state) else cf_ring state)
      in (state\<lparr>cf_seq := seq, cf_ring := ring @ [event]\<rparr>, event))"

definition replay_from :: "nat \<Rightarrow> change_feed \<Rightarrow> replay" where
  "replay_from after_seq state =
     (if cf_seq state < after_seq then Gap
      else if after_seq = 0 then Events (cf_ring state)
      else (case cf_ring state of
         [] \<Rightarrow> Events []
       | oldest # _ \<Rightarrow>
           if after_seq + 1 < we_seq oldest then Gap
           else Events (filter (\<lambda>e. after_seq < we_seq e) (cf_ring state))))"

definition oldest_seq :: "change_feed \<Rightarrow> nat option" where
  "oldest_seq state = (case cf_ring state of [] \<Rightarrow> None | e # _ \<Rightarrow> Some (we_seq e))"

definition current_seq :: "change_feed \<Rightarrow> nat" where "current_seq state = cf_seq state"

section \<open>The log a feed has published\<close>

record publication =
  pb_slug :: string
  pb_store :: string
  pb_updated_at :: string
  pb_removed :: bool

definition feed_step :: "change_feed \<Rightarrow> publication \<Rightarrow> change_feed" where
  "feed_step f p = fst (feed_publish (pb_slug p) (pb_store p) (pb_updated_at p) (pb_removed p) f)"

definition event_of :: "nat \<Rightarrow> publication \<Rightarrow> watch_event" where
  "event_of n p = \<lparr>we_seq = n, we_slug = pb_slug p, we_store = pb_store p, we_updated_at = pb_updated_at p,
     we_removed = pb_removed p\<rparr>"

text \<open>The specification: every event ever published, numbered from one, without gaps.\<close>

definition log_of :: "publication list \<Rightarrow> watch_event list" where
  "log_of ps = map (\<lambda>(n, p). event_of n p) (List.enumerate 1 ps)"

lemma log_of_snoc: "log_of (ps @ [p]) = log_of ps @ [event_of (Suc (length ps)) p]"
  by (simp add: log_of_def enumerate_append_eq)

lemma length_log_of [simp]: "length (log_of ps) = length ps"
  by (simp add: log_of_def)

lemma log_of_seq: "i < length ps \<Longrightarrow> we_seq (log_of ps ! i) = Suc i"
  by (simp add: log_of_def event_of_def nth_enumerate_eq)

definition feed_shows :: "nat \<Rightarrow> publication list \<Rightarrow> change_feed \<Rightarrow> bool" where
  "feed_shows c ps f \<longleftrightarrow> cf_seq f = length ps \<and> cf_capacity f = c \<and> cf_ring f = drop (length ps - c) (log_of ps)"

lemma feed_shows_step:
  assumes "0 < c" "feed_shows c ps f"
  shows "feed_shows c (ps @ [p]) (feed_step f p)"
proof -
  have r: "cf_ring f = drop (length ps - c) (log_of ps)" using assms(2) by (simp add: feed_shows_def)
  have "(if c \<le> length (cf_ring f) then tl (cf_ring f) else cf_ring f) = drop (Suc (length ps) - c) (log_of ps)"
    using assms(1) by (auto simp: r tl_drop drop_Suc[symmetric] Suc_diff_le simp flip: drop_Suc)
  then show ?thesis
    using assms by (simp add: feed_shows_def feed_step_def feed_publish_def Let_def log_of_snoc event_of_def)
qed

lemma feed_runs: "feed_shows (max capacity 1) ps (foldl feed_step (feed_with_capacity capacity) ps)"
proof (induction ps rule: rev_induct)
  case Nil
  then show ?case by (simp add: feed_shows_def feed_with_capacity_def log_of_def)
next
  case (snoc p ps)
  then show ?case using feed_shows_step[of "max capacity 1"] by simp
qed

section \<open>What a replay answers\<close>

lemma filter_numbered:
  "filter (\<lambda>e. k < we_seq e) (map (\<lambda>(n, p). event_of n p) (List.enumerate s ps))
     = drop (Suc k - s) (map (\<lambda>(n, p). event_of n p) (List.enumerate s ps))"
proof (induction ps arbitrary: s)
  case (Cons p ps)
  show ?case
  proof (cases "k < s")
    case True
    then have "filter (\<lambda>e. k < we_seq e) (map (\<lambda>(n, p). event_of n p) (List.enumerate (Suc s) ps))
        = map (\<lambda>(n, p). event_of n p) (List.enumerate (Suc s) ps)" using Cons[of "Suc s"] by simp
    then show ?thesis using True by (simp add: event_of_def)
  next
    case False
    then have "Suc k - s = Suc (Suc k - Suc s)" by simp
    then show ?thesis using Cons[of "Suc s"] False by (simp add: event_of_def)
  qed
qed simp

lemma drop_numbered: "drop m (List.enumerate s ps) = List.enumerate (s + m) (drop m ps)"
  by (induction ps arbitrary: m s) (auto simp: drop_Cons' split: nat.split)

lemma filter_log: "filter (\<lambda>e. k < we_seq e) (drop m (log_of ps)) = drop (max k m) (log_of ps)"
proof -
  have "filter (\<lambda>e. k < we_seq e) (drop m (log_of ps)) = drop (Suc k - Suc m) (drop m (log_of ps))"
    using filter_numbered[of k "1 + m" "drop m ps"] by (simp add: log_of_def drop_map drop_numbered)
  also have "\<dots> = drop (max k m) (log_of ps)" by (simp add: add.commute max_def)
  finally show ?thesis .
qed

lemma replay_shown:
  assumes "0 < c" "feed_shows c ps f"
  shows "replay_from k f = (if length ps < k \<or> 0 < k \<and> k + c < length ps then Gap
     else Events (drop (max k (length ps - c)) (log_of ps)))"
proof -
  have f: "cf_seq f = length ps" "cf_ring f = drop (length ps - c) (log_of ps)"
    using assms(2) by (simp_all add: feed_shows_def)
  show ?thesis
  proof (cases "cf_ring f")
    case Nil
    then have "ps = []" using assms(1) f(2) by (cases "length ps") auto
    then show ?thesis using f by (simp add: replay_from_def log_of_def)
  next
    case (Cons oldest rest)
    then have n: "length ps - c < length ps" using f(2) by (cases "length ps - c < length ps") simp_all
    have "oldest = log_of ps ! (length ps - c)"
      using Cons f(2) n by (metis Cons_nth_drop_Suc length_log_of list.inject)
    then have "we_seq oldest = Suc (length ps - c)" using log_of_seq[OF n] by simp
    then have old: "k + 1 < we_seq oldest \<longleftrightarrow> k + c < length ps" if "0 < k" using that by auto
    have "replay_from k f = (if length ps < k then Gap else if k = 0 then Events (cf_ring f)
        else if k + 1 < we_seq oldest then Gap else Events (filter (\<lambda>e. k < we_seq e) (cf_ring f)))"
      using f(1) Cons by (simp add: replay_from_def)
    then show ?thesis
      unfolding f(2) filter_log using old by (cases "k = 0") simp_all
  qed
qed

text \<open>
  C37. A replay never has a hole. After any publications into a feed of any capacity, a client that has seen
  event \<open>k\<close> is answered, when events it has not seen were evicted or \<open>k\<close> was never published, that there is
  a gap, and otherwise exactly the events published after \<open>k\<close>, all of them, in order; a client with no
  cursor, \<open>k = 0\<close>, is given the ring, the latest events up to the capacity. The ring never exceeds the capacity.
\<close>

theorem replay_is_exact:
  "replay_from k (foldl feed_step (feed_with_capacity capacity) ps)
     = (if length ps < k \<or> 0 < k \<and> k + max capacity 1 < length ps then Gap
        else Events (drop (max k (length ps - max capacity 1)) (log_of ps)))
   \<and> current_seq (foldl feed_step (feed_with_capacity capacity) ps) = length ps
   \<and> length (cf_ring (foldl feed_step (feed_with_capacity capacity) ps)) = min (length ps) (max capacity 1)"
  using replay_shown[OF _ feed_runs, of capacity k ps] feed_runs[of capacity ps]
  by (auto simp: feed_shows_def current_seq_def)

end
