(* ===== verification/Nonce_Store.thy ===== *)
theory Nonce_Store
  imports Chief_Prelude
begin

text \<open>
  The login challenges outstanding (\<open>chiefd-api/src/authn/nonce.rs\<close>): the live nonces by id, and each
  identity's ids in the order they were issued, so that the oldest makes room. Both hash maps are ordered
  maps here, as neither is ever iterated. A nonce id is a random text made by the caller.
\<close>

record nonce_entry =
  ne_nonce :: string
  ne_identity_id :: string
  ne_expires_at_ms :: int

record nonce_store =
  ns_entries :: "(string, nonce_entry) omap"
  ns_order_per_identity :: "(string, string list) omap"
  ns_ttl_ms :: int
  ns_max_per_identity :: nat

definition nonce_store_new :: "int \<Rightarrow> nat \<Rightarrow> nonce_store" where
  "nonce_store_new ttl_ms max_per_identity =
     \<lparr>ns_entries = [], ns_order_per_identity = [], ns_ttl_ms = ttl_ms, ns_max_per_identity = max max_per_identity 1\<rparr>"

text \<open>\<open>retain\<close> with the removal of what expired.\<close>

fun retain_live ::
  "int \<Rightarrow> string list \<Rightarrow> (string, nonce_entry) omap \<Rightarrow> string list \<times> (string, nonce_entry) omap" where
  "retain_live now [] entries = ([], entries)"
| "retain_live now (nonce_id # queue) entries = (case om_get entries nonce_id of
     Some entry \<Rightarrow>
       if ne_expires_at_ms entry < now then retain_live now queue (om_del nonce_id entries)
       else (let (kept, rest) = retain_live now queue entries in (nonce_id # kept, rest))
   | None \<Rightarrow> retain_live now queue entries)"

definition prune_identity :: "string \<Rightarrow> int \<Rightarrow> nonce_store \<Rightarrow> nonce_store" where
  "prune_identity identity_id now s = (case om_get (ns_order_per_identity s) identity_id of
     None \<Rightarrow> s
   | Some queue \<Rightarrow>
       (let (kept, entries) = retain_live now queue (ns_entries s)
        in s\<lparr>ns_entries := entries, ns_order_per_identity :=
             (if kept = [] then om_del identity_id (ns_order_per_identity s)
              else om_put identity_id kept (ns_order_per_identity s))\<rparr>))"

text \<open>The loop that makes room: it stops when fewer than the limit are left, or none.\<close>

fun make_room ::
  "nat \<Rightarrow> string list \<Rightarrow> (string, nonce_entry) omap \<Rightarrow> string list \<times> (string, nonce_entry) omap" where
  "make_room limit [] entries = ([], entries)"
| "make_room limit (oldest # queue) entries =
     (if limit \<le> length (oldest # queue) then make_room limit queue (om_del oldest entries)
      else (oldest # queue, entries))"

definition nonce_issue :: "string \<Rightarrow> string \<Rightarrow> string \<Rightarrow> int \<Rightarrow> nonce_store \<Rightarrow> nonce_store" where
  "nonce_issue identity_id nonce_id nonce now s0 =
     (let s = prune_identity identity_id now s0;
          queue0 = (case om_get (ns_order_per_identity s) identity_id of None \<Rightarrow> [] | Some q \<Rightarrow> q);
          (queue, entries) = make_room (ns_max_per_identity s) queue0 (ns_entries s)
      in s\<lparr>ns_order_per_identity := om_put identity_id (queue @ [nonce_id]) (ns_order_per_identity s),
           ns_entries := om_put nonce_id \<lparr>ne_nonce = nonce, ne_identity_id = identity_id,
             ne_expires_at_ms = sat_add_i64 now (ns_ttl_ms s)\<rparr> entries\<rparr>)"

definition nonce_consume :: "string \<Rightarrow> int \<Rightarrow> nonce_store \<Rightarrow> nonce_store \<times> (string \<times> string) option" where
  "nonce_consume nonce_id now s = (case om_get (ns_entries s) nonce_id of
     None \<Rightarrow> (s, None)
   | Some entry \<Rightarrow>
       (let s' = s\<lparr>ns_entries := om_del nonce_id (ns_entries s),
              ns_order_per_identity := om_adjust (ne_identity_id entry) (filter (\<lambda>i. i \<noteq> nonce_id))
                (ns_order_per_identity s)\<rparr>
        in (s', if ne_expires_at_ms entry < now then None else Some (ne_identity_id entry, ne_nonce entry))))"

definition nonce_len :: "nonce_store \<Rightarrow> nat" where "nonce_len s = length (ns_entries s)"
definition nonce_is_empty :: "nonce_store \<Rightarrow> bool" where "nonce_is_empty s \<longleftrightarrow> ns_entries s = []"

section \<open>Histories\<close>

datatype nonce_event =
    Issue string string string int
  | Consume string int

fun nonce_step :: "nonce_store \<Rightarrow> nonce_event \<Rightarrow> nonce_store" where
  "nonce_step s (Issue identity_id nonce_id nonce now) = nonce_issue identity_id nonce_id nonce now s"
| "nonce_step s (Consume nonce_id now) = fst (nonce_consume nonce_id now s)"

fun touches :: "string \<Rightarrow> nonce_event \<Rightarrow> bool" where
  "touches nid (Issue identity_id nonce_id nonce now) \<longleftrightarrow> nonce_id = nid"
| "touches nid (Consume nonce_id now) \<longleftrightarrow> nonce_id = nid"

lemma retain_entries:
  "om_get (snd (retain_live now queue entries)) k = om_get entries k
     \<or> om_get (snd (retain_live now queue entries)) k = None"
  by (induction now queue entries rule: retain_live.induct) (auto simp: store_simps split: option.splits prod.splits)

lemma room_entries:
  "om_get (snd (make_room limit queue entries)) k = om_get entries k
     \<or> om_get (snd (make_room limit queue entries)) k = None"
  by (induction limit queue entries rule: make_room.induct) (auto simp: store_simps)

lemma prune_entries:
  "om_get (ns_entries (prune_identity i now s)) k = om_get (ns_entries s) k
     \<or> om_get (ns_entries (prune_identity i now s)) k = None"
proof (cases "om_get (ns_order_per_identity s) i")
  case None
  then show ?thesis by (simp add: prune_identity_def)
next
  case (Some queue)
  obtain kept rest where r: "retain_live now queue (ns_entries s) = (kept, rest)" by fastforce
  show ?thesis using retain_entries[of now queue "ns_entries s" k] by (simp add: prune_identity_def Some r)
qed

lemma prune_params [simp]:
  "ns_ttl_ms (prune_identity i now s) = ns_ttl_ms s" "ns_max_per_identity (prune_identity i now s) = ns_max_per_identity s"
  by (simp_all add: prune_identity_def split: option.splits prod.splits)

lemma issue_params [simp]:
  "ns_ttl_ms (nonce_issue i nid n now s) = ns_ttl_ms s"
  "ns_max_per_identity (nonce_issue i nid n now s) = ns_max_per_identity s"
  by (simp_all add: nonce_issue_def Let_def split: prod.splits)

lemma issue_entries:
  "om_get (ns_entries (nonce_issue i nid n now s)) k = (if k = nid
     then Some \<lparr>ne_nonce = n, ne_identity_id = i, ne_expires_at_ms = sat_add_i64 now (ns_ttl_ms s)\<rparr>
     else om_get (ns_entries (nonce_issue i nid n now s)) k)"
  by (simp add: nonce_issue_def Let_def store_simps split: prod.splits)

lemma issue_keeps_or_drops:
  assumes "k \<noteq> nid"
  shows "om_get (ns_entries (nonce_issue i nid n now s)) k = om_get (ns_entries s) k
     \<or> om_get (ns_entries (nonce_issue i nid n now s)) k = None"
proof -
  define p where "p = prune_identity i now s"
  define q where "q = (case om_get (ns_order_per_identity p) i of None \<Rightarrow> [] | Some q \<Rightarrow> q)"
  obtain queue entries where r: "make_room (ns_max_per_identity p) q (ns_entries p) = (queue, entries)" by fastforce
  have e: "om_get (ns_entries (nonce_issue i nid n now s)) k = om_get entries k"
    using assms r by (simp add: nonce_issue_def Let_def p_def q_def store_simps)
  have "om_get entries k = om_get (ns_entries p) k \<or> om_get entries k = None"
    using room_entries[of "ns_max_per_identity p" q "ns_entries p" k] by (simp add: r)
  moreover have "om_get (ns_entries p) k = om_get (ns_entries s) k \<or> om_get (ns_entries p) k = None"
    unfolding p_def by (rule prune_entries)
  ultimately show ?thesis unfolding e by metis
qed


definition nonce_run :: "nonce_store \<Rightarrow> nonce_event list \<Rightarrow> nonce_store" where
  "nonce_run s es = foldl nonce_step s es"

lemma nonce_run_snoc [simp]: "nonce_run s (es @ [e]) = nonce_step (nonce_run s es) e"
  by (simp add: nonce_run_def)

lemma consume_params [simp]:
  "ns_ttl_ms (fst (nonce_consume nid now s)) = ns_ttl_ms s"
  "ns_max_per_identity (fst (nonce_consume nid now s)) = ns_max_per_identity s"
  by (simp_all add: nonce_consume_def Let_def split: option.splits)

lemma step_params [simp]:
  "ns_ttl_ms (nonce_step s e) = ns_ttl_ms s" "ns_max_per_identity (nonce_step s e) = ns_max_per_identity s"
  by (cases e; simp)+

lemma run_params [simp]:
  "ns_ttl_ms (nonce_run s es) = ns_ttl_ms s" "ns_max_per_identity (nonce_run s es) = ns_max_per_identity s"
  by (induction es rule: rev_induct) (simp_all add: nonce_run_def)

lemma consume_entries:
  "om_get (ns_entries (fst (nonce_consume nid now s))) k = (if k = nid then None else om_get (ns_entries s) k)"
  by (simp add: nonce_consume_def Let_def store_simps split: option.splits)

text \<open>An entry of the store is the trace of its issue, which nothing has touched since.\<close>

definition issued_untouched :: "int \<Rightarrow> nonce_event list \<Rightarrow> string \<Rightarrow> nonce_entry \<Rightarrow> bool" where
  "issued_untouched ttl es nid e \<longleftrightarrow> (\<exists>es1 t0 es2. es = es1 @ Issue (ne_identity_id e) nid (ne_nonce e) t0 # es2
     \<and> list_all (\<lambda>ev. \<not> touches nid ev) es2 \<and> ne_expires_at_ms e = sat_add_i64 t0 ttl)"

lemma issued_untouched_snoc:
  assumes "issued_untouched ttl es nid e" "\<not> touches nid ev"
  shows "issued_untouched ttl (es @ [ev]) nid e"
proof -
  obtain es1 t0 es2 where "es = es1 @ Issue (ne_identity_id e) nid (ne_nonce e) t0 # es2"
    "list_all (\<lambda>ev. \<not> touches nid ev) es2" "ne_expires_at_ms e = sat_add_i64 t0 ttl"
    using assms(1) unfolding issued_untouched_def by blast
  then show ?thesis unfolding issued_untouched_def using assms(2)
    by (intro exI[of _ es1] exI[of _ t0] exI[of _ "es2 @ [ev]"]) simp
qed

lemma entries_are_issued:
  assumes "om_get (ns_entries (nonce_run (nonce_store_new ttl limit) es)) nid = Some e"
  shows "issued_untouched ttl es nid e"
  using assms
proof (induction es rule: rev_induct)
  case Nil
  then show ?case by (simp add: nonce_run_def nonce_store_new_def store_simps)
next
  case (snoc ev es)
  let ?s = "nonce_run (nonce_store_new ttl limit) es"
  show ?case
  proof (cases "touches nid ev")
    case False
    have "om_get (ns_entries ?s) nid = Some e"
    proof (cases ev)
      case (Issue i n x now)
      then have "nid \<noteq> n" using False by simp
      from issue_keeps_or_drops[OF this, of i x now ?s] snoc.prems show ?thesis by (simp add: Issue)
    next
      case (Consume n now)
      then show ?thesis using snoc.prems False by (simp add: consume_entries)
    qed
    then show ?thesis by (intro issued_untouched_snoc snoc.IH False)
  next
    case True
    show ?thesis
    proof (cases ev)
      case (Issue i n x now)
      then have n: "n = nid" using True by simp
      have "e = \<lparr>ne_nonce = x, ne_identity_id = i, ne_expires_at_ms = sat_add_i64 now ttl\<rparr>"
        using snoc.prems issue_entries[of i nid x now ?s nid] by (simp add: Issue n nonce_store_new_def)
      then show ?thesis unfolding issued_untouched_def Issue n
        by (intro exI[of _ es] exI[of _ now] exI[of _ "[]"]) simp
    next
      case (Consume n now)
      then show ?thesis using snoc.prems True by (simp add: consume_entries)
    qed
  qed
qed

section \<open>The cap\<close>

definition queue_of :: "nonce_store \<Rightarrow> string \<Rightarrow> string list" where
  "queue_of s i = (case om_get (ns_order_per_identity s) i of None \<Rightarrow> [] | Some q \<Rightarrow> q)"

definition queued :: "nonce_store \<Rightarrow> bool" where
  "queued s \<longleftrightarrow> (\<forall>k e. om_get (ns_entries s) k = Some e \<longrightarrow> k \<in> set (queue_of s (ne_identity_id e)))
     \<and> (\<forall>i. length (queue_of s i) \<le> ns_max_per_identity s) \<and> 1 \<le> ns_max_per_identity s"

lemma queuedD:
  assumes "queued s"
  shows "om_get (ns_entries s) k = Some e \<Longrightarrow> k \<in> set (queue_of s (ne_identity_id e))"
    "length (queue_of s i) \<le> ns_max_per_identity s" "1 \<le> ns_max_per_identity s"
  using assms by (auto simp: queued_def)

lemma queuedI:
  assumes "\<And>k e. om_get (ns_entries s) k = Some e \<Longrightarrow> k \<in> set (queue_of s (ne_identity_id e))"
    "\<And>i. length (queue_of s i) \<le> ns_max_per_identity s" "1 \<le> ns_max_per_identity s"
  shows "queued s"
  using assms by (auto simp: queued_def)

lemma retain_live_kept:
  "length (fst (retain_live now queue entries)) \<le> length queue
     \<and> (k \<in> set queue \<and> om_get (snd (retain_live now queue entries)) k = Some e
          \<longrightarrow> k \<in> set (fst (retain_live now queue entries)))"
proof (induction now queue entries rule: retain_live.induct)
  case (2 now n queue entries)
  show ?case
  proof (cases "om_get entries n")
    case None
    then have "om_get (snd (retain_live now queue entries)) n = None"
      using retain_entries[of now queue entries n] by simp
    then show ?thesis using 2(1)[OF None] None by auto
  next
    case (Some x)
    show ?thesis
    proof (cases "ne_expires_at_ms x < now")
      case True
      have "om_get (snd (retain_live now queue (om_del n entries))) n = None"
        using retain_entries[of now queue "om_del n entries" n] by (simp add: store_simps)
      then show ?thesis using 2(2)[OF Some True] Some True by auto
    next
      case False
      then show ?thesis using 2(3)[OF Some False] Some by (auto split: prod.splits)
    qed
  qed
qed simp

lemma make_room_kept:
  "(1 \<le> limit \<longrightarrow> length (fst (make_room limit queue entries)) < limit)
     \<and> (k \<in> set queue \<and> om_get (snd (make_room limit queue entries)) k = Some e
          \<longrightarrow> k \<in> set (fst (make_room limit queue entries)))"
proof (induction limit queue entries rule: make_room.induct)
  case (2 limit n queue entries)
  show ?case
  proof (cases "limit \<le> length (n # queue)")
    case True
    have "om_get (snd (make_room limit queue (om_del n entries))) n = None"
      using room_entries[of limit queue "om_del n entries" n] by (simp add: store_simps)
    then show ?thesis using 2[OF True] True by auto
  next
    case False
    then show ?thesis by auto
  qed
qed simp


lemma retain_live_length: "length (fst (retain_live now queue entries)) \<le> length queue"
  using retain_live_kept by blast

lemma retain_live_keeps:
  "k \<in> set queue \<Longrightarrow> om_get (snd (retain_live now queue entries)) k = Some e
     \<Longrightarrow> k \<in> set (fst (retain_live now queue entries))"
  using retain_live_kept by blast

lemma make_room_length: "1 \<le> limit \<Longrightarrow> length (fst (make_room limit queue entries)) < limit"
  using make_room_kept by blast

lemma make_room_keeps:
  "k \<in> set queue \<Longrightarrow> om_get (snd (make_room limit queue entries)) k = Some e
     \<Longrightarrow> k \<in> set (fst (make_room limit queue entries))"
  using make_room_kept by blast

lemma queued_prune:
  assumes q: "queued s"
  shows "queued (prune_identity i now s)"
proof (cases "om_get (ns_order_per_identity s) i")
  case None
  then show ?thesis using q by (simp add: prune_identity_def)
next
  case (Some queue)
  obtain kept rest where r: "retain_live now queue (ns_entries s) = (kept, rest)" by fastforce
  let ?p = "prune_identity i now s"
  have entries: "ns_entries ?p = rest" by (simp add: prune_identity_def Some r)
  have queue: "queue_of ?p j = (if j = i then kept else queue_of s j)" for j
    by (simp add: queue_of_def prune_identity_def Some r store_simps)
  have len: "length kept \<le> length queue" using retain_live_length[of now queue "ns_entries s"] by (simp add: r)
  have own: "queue_of s i = queue" by (simp add: queue_of_def Some)
  show ?thesis
  proof (rule queuedI)
    fix k e assume k: "om_get (ns_entries ?p) k = Some e"
    then have rest: "om_get rest k = Some e" by (simp add: entries)
    then have old: "om_get (ns_entries s) k = Some e"
      using retain_entries[of now queue "ns_entries s" k] by (simp add: r)
    have in_q: "k \<in> set (queue_of s (ne_identity_id e))" by (rule queuedD(1)[OF q old])
    show "k \<in> set (queue_of ?p (ne_identity_id e))"
    proof (cases "ne_identity_id e = i")
      case True
      then have "k \<in> set queue" using in_q own by simp
      then show ?thesis using retain_live_keeps[of k queue now "ns_entries s" e] rest True by (simp add: r queue)
    qed (use in_q queue in simp)
  next
    show "length (queue_of ?p j) \<le> ns_max_per_identity ?p" for j
      using len own queuedD(2)[OF q, of i] queuedD(2)[OF q, of j] by (simp add: queue)
  qed (use queuedD(3)[OF q] in simp)
qed

lemma queued_issue:
  assumes q: "queued s"
  shows "queued (nonce_issue i nid n now s)"
proof -
  define p where "p = prune_identity i now s"
  have qp: "queued p" unfolding p_def by (rule queued_prune[OF q])
  obtain queue rest where r: "make_room (ns_max_per_identity p) (queue_of p i) (ns_entries p) = (queue, rest)" by fastforce
  let ?n = "nonce_issue i nid n now s"
  have entries: "ns_entries ?n = om_put nid \<lparr>ne_nonce = n, ne_identity_id = i,
      ne_expires_at_ms = sat_add_i64 now (ns_ttl_ms s)\<rparr> rest"
    and order: "ns_order_per_identity ?n = om_put i (queue @ [nid]) (ns_order_per_identity p)"
    using r by (simp_all add: nonce_issue_def Let_def p_def queue_of_def)
  have queue: "queue_of ?n j = (if j = i then queue @ [nid] else queue_of p j)" for j
    by (simp add: queue_of_def order store_simps)
  have len: "length queue < ns_max_per_identity p"
    using make_room_length[OF queuedD(3)[OF qp], of "queue_of p i" "ns_entries p"] by (simp add: r)
  have max: "ns_max_per_identity ?n = ns_max_per_identity p" by (simp add: p_def)
  show ?thesis
  proof (rule queuedI)
    fix k e assume k: "om_get (ns_entries ?n) k = Some e"
    show "k \<in> set (queue_of ?n (ne_identity_id e))"
    proof (cases "k = nid")
      case True
      then have "ne_identity_id e = i" using k by (auto simp: entries store_simps)
      then show ?thesis using True by (simp add: queue)
    next
      case False
      then have rest: "om_get rest k = Some e" using k by (simp add: entries store_simps)
      then have "om_get (ns_entries p) k = Some e"
        using room_entries[of "ns_max_per_identity p" "queue_of p i" "ns_entries p" k] by (simp add: r)
      then have "k \<in> set (queue_of p (ne_identity_id e))" by (rule queuedD(1)[OF qp])
      then show ?thesis
        using make_room_keeps[of k "queue_of p i" "ns_max_per_identity p" "ns_entries p" e] rest
        by (auto simp: r queue)
    qed
  next
    show "length (queue_of ?n j) \<le> ns_max_per_identity ?n" for j
      using len queuedD(2)[OF qp, of j] by (simp add: queue p_def)
  qed (use queuedD(3)[OF qp] max in simp)
qed

lemma queued_consume:
  assumes q: "queued s"
  shows "queued (fst (nonce_consume nid now s))"
proof (cases "om_get (ns_entries s) nid")
  case None
  then show ?thesis using q by (simp add: nonce_consume_def)
next
  case (Some x)
  let ?c = "fst (nonce_consume nid now s)"
  have queue: "queue_of ?c j = (if j = ne_identity_id x then filter (\<lambda>i. i \<noteq> nid) (queue_of s j) else queue_of s j)" for j
    by (simp add: nonce_consume_def Some queue_of_def Let_def store_simps split: option.splits)
  show ?thesis
  proof (rule queuedI)
    fix k e assume "om_get (ns_entries ?c) k = Some e"
    then have "k \<noteq> nid" "om_get (ns_entries s) k = Some e" by (simp_all add: consume_entries split: if_splits)
    then show "k \<in> set (queue_of ?c (ne_identity_id e))" using queuedD(1)[OF q, of k e] by (auto simp: queue)
  next
    show "length (queue_of ?c j) \<le> ns_max_per_identity ?c" for j
      using queuedD(2)[OF q, of j] by (auto simp: queue intro: le_trans[OF length_filter_le])
  qed (use queuedD(3)[OF q] in simp)
qed

lemma queued_run: "queued (nonce_run (nonce_store_new ttl limit) es)"
proof (induction es rule: rev_induct)
  case Nil
  show ?case by (rule queuedI) (simp_all add: nonce_run_def nonce_store_new_def store_simps queue_of_def)
next
  case (snoc ev es)
  then show ?case by (cases ev) (simp_all add: queued_issue queued_consume)
qed

text \<open>The challenges of an identity that are outstanding.\<close>

definition outstanding :: "string \<Rightarrow> nonce_store \<Rightarrow> string set" where
  "outstanding i s = {k. \<exists>e. om_get (ns_entries s) k = Some e \<and> ne_identity_id e = i}"

section \<open>Properties\<close>

text \<open>
  C38. A challenge is consumed at most once, by whom it was issued to, and in time: whatever was issued and
  consumed since the store was made, a consume that answers an identity and a nonce finds the issue of
  exactly that challenge to that identity, nothing issued or consumed under its id since (no earlier consume
  in particular), and a life not yet over. A second consume of the same id answers nothing.
\<close>
theorem challenge_is_single_use:
  assumes "nonce_consume nid now (nonce_run (nonce_store_new ttl limit) es) = (s', Some (ident, nonce))"
  shows "(\<exists>es1 t0 es2. es = es1 @ Issue ident nid nonce t0 # es2 \<and> list_all (\<lambda>ev. \<not> touches nid ev) es2
           \<and> now \<le> sat_add_i64 t0 ttl)
         \<and> (\<forall>later. snd (nonce_consume nid later s') = None)"
proof -
  let ?s = "nonce_run (nonce_store_new ttl limit) es"
  obtain e where e: "om_get (ns_entries ?s) nid = Some e"
    using assms by (cases "om_get (ns_entries ?s) nid") (simp_all add: nonce_consume_def)
  then have answer: "ident = ne_identity_id e" "nonce = ne_nonce e" "now \<le> ne_expires_at_ms e"
    using assms by (simp_all add: nonce_consume_def Let_def split: if_splits)
  have "\<exists>es1 t0 es2. es = es1 @ Issue ident nid nonce t0 # es2 \<and> list_all (\<lambda>ev. \<not> touches nid ev) es2
      \<and> now \<le> sat_add_i64 t0 ttl"
    using entries_are_issued[OF e] answer unfolding issued_untouched_def by metis
  moreover have "om_get (ns_entries s') nid = None"
    using assms consume_entries[of nid now ?s nid] by simp
  then have "snd (nonce_consume nid later s') = None" for later by (simp add: nonce_consume_def)
  ultimately show ?thesis by blast
qed

definition sample_history :: "nonce_event list" where
  "sample_history = [Issue ''ada'' ''n1'' ''x1'' 0, Issue ''ada'' ''n2'' ''x2'' 5, Consume ''n1'' 6]"

lemma challenge_is_single_use_witness:
  "snd (nonce_consume ''n2'' 8 (nonce_run (nonce_store_new 10 3) sample_history)) = Some (''ada'', ''x2'')
   \<and> snd (nonce_consume ''n2'' 9 (fst (nonce_consume ''n2'' 8 (nonce_run (nonce_store_new 10 3) sample_history)))) = None"
proof -
  have a: "snd (nonce_consume ''n2'' 8 (nonce_run (nonce_store_new 10 3) sample_history)) = Some (''ada'', ''x2'')"
    by code_simp
  then have "nonce_consume ''n2'' 8 (nonce_run (nonce_store_new 10 3) sample_history)
      = (fst (nonce_consume ''n2'' 8 (nonce_run (nonce_store_new 10 3) sample_history)), Some (''ada'', ''x2''))"
    by (metis prod.collapse)
  from challenge_is_single_use[OF this] a show ?thesis by blast
qed

text \<open>
  However many challenges an identity asks for, at most the limit are outstanding for it, one at the
  least: issuing more makes the oldest fall out, and no event of another identity adds to them.
\<close>
theorem outstanding_is_bounded:
  "card (outstanding i (nonce_run (nonce_store_new ttl limit) es)) \<le> max limit 1
   \<and> finite (outstanding i (nonce_run (nonce_store_new ttl limit) es))"
proof -
  let ?s = "nonce_run (nonce_store_new ttl limit) es"
  have sub: "outstanding i ?s \<subseteq> set (queue_of ?s i)"
    using queuedD(1)[OF queued_run] unfolding outstanding_def by blast
  have "card (outstanding i ?s) \<le> length (queue_of ?s i)"
    using card_mono[OF _ sub] card_length[of "queue_of ?s i"] by simp
  also have "\<dots> \<le> max limit 1"
    using queuedD(2)[OF queued_run, of ttl limit es i] by (simp add: nonce_store_new_def)
  finally show ?thesis using finite_subset[OF sub] by simp
qed

end
