(* ===== verification/Session_Maintenance.thy ===== *)
theory Session_Maintenance
  imports Control_Authority Launch_Intent Isotime
begin

text \<open>
  Session maintenance (\<open>chiefd-core/src/store/session_maintenance.rs\<close> and
  \<open>session_maintenance_ops.rs\<close>): the requests to compact an agent's session, and the state machine they
  run through. A request is queued once per person, action and force; the agent's process claims it, may
  give it back, is recovered from when it died, and finishes it. SHA-256 is a function of the bytes it
  digests; what serde did not model is kept as the names of the keys.
\<close>

section \<open>Vocabulary\<close>

definition SESSION_MAINTENANCE_SCHEMA_VERSION :: nat where "SESSION_MAINTENANCE_SCHEMA_VERSION = 1"
definition SESSION_MAINTENANCE_MAX_ATTEMPTS :: nat where "SESSION_MAINTENANCE_MAX_ATTEMPTS = 3"
definition SESSION_MAINTENANCE_RETRY_ATTEMPT_INVALID :: string where
  "SESSION_MAINTENANCE_RETRY_ATTEMPT_INVALID = ''session-maintenance-retry-attempt-invalid''"
definition SESSION_MAINTENANCE_RETRY_BASE_DELAY_MS :: int where "SESSION_MAINTENANCE_RETRY_BASE_DELAY_MS = 250"
definition SESSION_MAINTENANCE_RETRY_MAX_DELAY_MS :: int where "SESSION_MAINTENANCE_RETRY_MAX_DELAY_MS = 30000"
definition COMPANY_REQUESTED_BY :: string where "COMPANY_REQUESTED_BY = ''human''"
definition SESSION_MAINTENANCE_PROCESS_INTERRUPTION_ERROR :: string where
  "SESSION_MAINTENANCE_PROCESS_INTERRUPTION_ERROR = ''The Pi process ended before session maintenance completed; the durable attempt was recovered on the next exact runtime startup.''"
definition SESSION_MAINTENANCE_TARGET_PARKED_ERROR :: string where
  "SESSION_MAINTENANCE_TARGET_PARKED_ERROR = ''The targeted person parked before company session maintenance completed.''"
definition PERSON_LEFT_ERROR :: string where
  "PERSON_LEFT_ERROR = ''The person left the company before maintenance ran.''"
definition MAINTENANCE_LEDGER_INVALID :: string where
  "MAINTENANCE_LEDGER_INVALID = ''session-maintenance-ledger-invalid''"
definition SESSION_MAINTENANCE_OPERATOR_REQUESTER :: string where
  "SESSION_MAINTENANCE_OPERATOR_REQUESTER = ''operator''"
definition INVALID_MAINTENANCE :: string where "INVALID_MAINTENANCE = ''invalid-session-maintenance''"
definition UNKNOWN_MAINTENANCE_REQUEST :: string where
  "UNKNOWN_MAINTENANCE_REQUEST = ''unknown-session-maintenance-request''"
definition MAINTENANCE_IDENTITY_MISMATCH :: string where
  "MAINTENANCE_IDENTITY_MISMATCH = ''session-maintenance-identity-mismatch''"
definition MAINTENANCE_CLAIM_MISMATCH :: string where
  "MAINTENANCE_CLAIM_MISMATCH = ''session-maintenance-claim-mismatch''"
definition MAINTENANCE_STATUS_CONFLICT :: string where
  "MAINTENANCE_STATUS_CONFLICT = ''session-maintenance-status-conflict''"
definition MAINTENANCE_REPLAY_WINDOW_MS :: int where "MAINTENANCE_REPLAY_WINDOW_MS = 60000"

text \<open>The delay doubles from the base, and is capped; a \<open>saturating_mul\<close> of small factors.\<close>

definition session_maintenance_retry_delay_ms :: "nat \<Rightarrow> refusal + int" where
  "session_maintenance_retry_delay_ms next_attempt =
     (if next_attempt < 2 then Inl (refusal_new SESSION_MAINTENANCE_RETRY_ATTEMPT_INVALID
        ''Session maintenance retry attempt must be a safe integer greater than one'')
      else (let exponent = min (next_attempt - 2) 16;
                scaled = clamp_i64 (SESSION_MAINTENANCE_RETRY_BASE_DELAY_MS * 2 ^ exponent)
            in Inr (min scaled SESSION_MAINTENANCE_RETRY_MAX_DELAY_MS)))"

datatype maintenance_action = Compact

fun maintenance_action_as_str :: "maintenance_action \<Rightarrow> string" where
  "maintenance_action_as_str Compact = ''compact''"

datatype maintenance_status = MQueued | MRunning | MApplying | MCompleted | MFailed | MSkipped

definition is_open :: "maintenance_status \<Rightarrow> bool" where
  "is_open s \<longleftrightarrow> s \<in> {MQueued, MRunning, MApplying}"

definition maintenance_is_terminal :: "maintenance_status \<Rightarrow> bool" where
  "maintenance_is_terminal s \<longleftrightarrow> s \<in> {MCompleted, MFailed, MSkipped}"

record maintenance_request =
  mr_id :: string
  mr_action :: maintenance_action
  mr_person_id :: string
  mr_requested_by :: string
  mr_reason :: string
  mr_automatic :: bool
  mr_status :: maintenance_status
  mr_requested_at :: string
  mr_started_at :: "string option"
  mr_completed_at :: "string option"
  mr_error :: "string option"
  mr_attempt :: "nat option"
  mr_recovered_from_request_id :: "string option"
  mr_retry_not_before :: "string option"
  mr_claimed_process_id :: "int option"
  mr_claimed_session_id :: "string option"
  mr_claim_token :: "string option"
  mr_completed_process_id :: "int option"
  mr_completed_session_id :: "string option"
  mr_completion_claim_token :: "string option"
  mr_company_action_id :: "string option"
  mr_force :: "bool option"
  mr_interrupted_process_id :: "int option"
  mr_interrupted_session_id :: "string option"
  mr_interrupted_claim_token :: "string option"
  mr_interrupted_at :: "string option"
  mr_compact_session_id :: "string option"
  mr_compact_anchor_entry_id :: "string option"
  mr_completed_compaction_entry_id :: "string option"
  mr_extra :: "string list"

definition is_company_request :: "maintenance_request \<Rightarrow> bool" where
  "is_company_request r \<longleftrightarrow> (case mr_company_action_id r of None \<Rightarrow> False | Some rid \<Rightarrow> trim rid \<noteq> [])"

record maintenance_ledger =
  ml_schema_version :: nat
  ml_organization :: string
  ml_request_order :: "string list"
  ml_requests :: "(string, maintenance_request) omap"
  ml_created_at :: string
  ml_updated_at :: string
  ml_extra :: "string list"

definition maintenance_initial :: "string \<Rightarrow> string \<Rightarrow> maintenance_ledger" where
  "maintenance_initial organization at = \<lparr>ml_schema_version = SESSION_MAINTENANCE_SCHEMA_VERSION,
     ml_organization = organization, ml_request_order = [], ml_requests = [], ml_created_at = at,
     ml_updated_at = at, ml_extra = []\<rparr>"

definition ordered_requests :: "maintenance_ledger \<Rightarrow> maintenance_request list" where
  "ordered_requests l = List.map_filter (om_get (ml_requests l)) (ml_request_order l)"

definition maintenance_request_of :: "maintenance_ledger \<Rightarrow> string \<Rightarrow> maintenance_request option" where
  "maintenance_request_of l rid = om_get (ml_requests l) rid"

section \<open>Validation\<close>

definition all_or_none :: "bool list \<Rightarrow> bool" where
  "all_or_none absent \<longleftrightarrow> list_all (\<lambda>v. v = hd absent) absent"

definition blank :: "string option \<Rightarrow> bool" where
  "blank s \<longleftrightarrow> (case s of None \<Rightarrow> False | Some t \<Rightarrow> trim t = [])"

definition below_one :: "int option \<Rightarrow> bool" where
  "below_one pid \<longleftrightarrow> (case pid of None \<Rightarrow> False | Some p \<Rightarrow> p < 1)"

fun option_less :: "int option \<Rightarrow> int option \<Rightarrow> bool" where
  "option_less None (Some _) = True"
| "option_less (Some a) (Some b) = (a < b)"
| "option_less _ None = False"

definition bad_request ::
  "company_context \<Rightarrow> bool \<Rightarrow> bool \<Rightarrow> string \<Rightarrow> maintenance_request \<Rightarrow> bool" where
  "bad_request ctx allow_orphaned_open allow_unbounded_diagnostics rid r \<longleftrightarrow>
     mr_id r \<noteq> rid
     \<or> (\<not> allow_orphaned_open \<and> is_open (mr_status r)
         \<and> \<not> (knows_person ctx (mr_person_id r)
               \<and> (knows_person ctx (mr_requested_by r)
                  \<or> is_company_request r \<and> mr_requested_by r = COMPANY_REQUESTED_BY)))
     \<or> parse_iso_millis (mr_requested_at r) = None
     \<or> (case mr_attempt r of None \<Rightarrow> False
         | Some attempt \<Rightarrow> attempt < 1
             \<or> \<not> is_company_request r \<and> SESSION_MAINTENANCE_MAX_ATTEMPTS < attempt)
     \<or> mr_recovered_from_request_id r = Some []
     \<or> (case mr_retry_not_before r of None \<Rightarrow> False
         | Some at \<Rightarrow> \<not> is_company_request r \<or> mr_status r \<noteq> MQueued \<or> parse_iso_millis at = None
             \<or> option_less (parse_iso_millis at) (parse_iso_millis (mr_requested_at r)))
     \<or> below_one (mr_claimed_process_id r) \<or> blank (mr_claimed_session_id r) \<or> blank (mr_claim_token r)
     \<or> below_one (mr_completed_process_id r) \<or> blank (mr_completed_session_id r)
     \<or> blank (mr_completion_claim_token r)
     \<or> blank (mr_company_action_id r) \<or> mr_company_action_id r \<noteq> None
     \<or> \<not> all_or_none [mr_interrupted_process_id r = None, mr_interrupted_session_id r = None,
          mr_interrupted_claim_token r = None, mr_interrupted_at r = None]
     \<or> below_one (mr_interrupted_process_id r) \<or> blank (mr_interrupted_session_id r)
     \<or> blank (mr_interrupted_claim_token r)
     \<or> (case mr_interrupted_at r of None \<Rightarrow> False | Some at \<Rightarrow> parse_iso_millis at = None)
     \<or> \<not> all_or_none [mr_compact_session_id r = None, mr_compact_anchor_entry_id r = None]
     \<or> (case mr_compact_session_id r of None \<Rightarrow> False | Some s \<Rightarrow> mr_action r \<noteq> Compact \<or> trim s = [])
     \<or> (case mr_compact_anchor_entry_id r of None \<Rightarrow> False | Some s \<Rightarrow> mr_action r \<noteq> Compact \<or> trim s = [])
     \<or> (case mr_completed_compaction_entry_id r of None \<Rightarrow> False
         | Some s \<Rightarrow> mr_action r \<noteq> Compact \<or> mr_status r \<noteq> MCompleted \<or> trim s = [])
     \<or> (\<not> allow_unbounded_diagnostics
         \<and> (case mr_error r of None \<Rightarrow> False | Some e \<Rightarrow> 600 < char_count e))
     \<or> \<not> all_or_none [mr_claimed_process_id r = None, mr_claimed_session_id r = None, mr_claim_token r = None]
     \<or> \<not> all_or_none [mr_completed_process_id r = None, mr_completed_session_id r = None,
          mr_completion_claim_token r = None]
     \<or> mr_completed_process_id r \<noteq> None \<and> mr_status r \<noteq> MCompleted"

definition maintenance_invalid :: "string \<Rightarrow> refusal" where
  "maintenance_invalid detail = refusal_new MAINTENANCE_LEDGER_INVALID detail"

definition check_maintenance_request ::
  "company_context \<Rightarrow> bool \<Rightarrow> bool \<Rightarrow> maintenance_ledger \<Rightarrow> unit \<Rightarrow> string \<Rightarrow> refusal + unit" where
  "check_maintenance_request ctx orphaned unbounded l u rid =
     (let invalid = maintenance_invalid (''session maintenance request '' @ quoted rid @ '' is invalid'')
      in case om_get (ml_requests l) rid of
        None \<Rightarrow> Inl invalid
      | Some request \<Rightarrow>
          if bad_request ctx orphaned unbounded rid request then Inl invalid
          else if maintenance_is_terminal (mr_status request) \<and> mr_completed_at request = None
          then Inl (maintenance_invalid (''finished session maintenance request '' @ quoted rid
                 @ '' has no completion timestamp''))
          else Inr ())"

definition validate_maintenance ::
  "maintenance_ledger \<Rightarrow> company_context \<Rightarrow> bool \<Rightarrow> bool \<Rightarrow> refusal + unit" where
  "validate_maintenance l ctx allow_orphaned_open allow_unbounded_diagnostics =
     (if ml_schema_version l \<noteq> SESSION_MAINTENANCE_SCHEMA_VERSION \<or> ml_organization l \<noteq> ctx_slug ctx
      then Inl (maintenance_invalid ''session maintenance ledger is invalid'')
      else if \<not> distinct (ml_request_order l) \<or> length (ml_request_order l) \<noteq> length (ml_requests l)
      then Inl (maintenance_invalid ''session maintenance request order is invalid'')
      else res_fold (check_maintenance_request ctx allow_orphaned_open allow_unbounded_diagnostics l) ()
        (ml_request_order l))"

section \<open>Claims and identities\<close>

record maintenance_claim =
  cl_process_id :: int
  cl_session_id :: string
  cl_claim_token :: string

definition claim_validated :: "maintenance_claim \<Rightarrow> chiefd_error + unit" where
  "claim_validated c =
     (if cl_process_id c < 1
      then Inl (refused INVALID_MAINTENANCE ''session maintenance claim processId must be a positive integer'')
      else if trim (cl_session_id c) = [] \<or> trim (cl_claim_token c) = []
      then Inl (refused INVALID_MAINTENANCE ''session maintenance claim is incomplete'')
      else Inr ())"

definition claim_owns :: "maintenance_claim \<Rightarrow> maintenance_request \<Rightarrow> bool" where
  "claim_owns c r \<longleftrightarrow> mr_claimed_process_id r = Some (cl_process_id c)
     \<and> mr_claimed_session_id r = Some (cl_session_id c) \<and> mr_claim_token r = Some (cl_claim_token c)"

text \<open>An \<open>ExpectedIdentity\<close> is the person it names.\<close>

definition assert_owns :: "string \<Rightarrow> maintenance_request \<Rightarrow> chiefd_error + unit" where
  "assert_owns identity r =
     (if mr_person_id r \<noteq> identity
      then Inl (refused MAINTENANCE_IDENTITY_MISMATCH
        ''Session maintenance request does not match the ChiefD-injected person'')
      else Inr ())"

record queue_input =
  qi_action :: maintenance_action
  qi_person_id :: string
  qi_requested_by :: string
  qi_reason :: string
  qi_automatic :: bool
  qi_force :: "bool option"

definition bounded :: "string \<Rightarrow> string \<Rightarrow> nat \<Rightarrow> chiefd_error + string" where
  "bounded value label maximum =
     (let trimmed = trim value
      in if trimmed = [] then Inl (refused INVALID_MAINTENANCE (label @ '' is required''))
         else if maximum < char_count trimmed
         then Inl (refused INVALID_MAINTENANCE (label @ '' must be at most '' @ show_nat maximum @ '' characters''))
         else Inr trimmed)"

section \<open>Queueing\<close>

text \<open>The lower-case hex of the digest's bytes (\<open>hexdigest.rs\<close>), and the eight bytes of a length.\<close>

definition hex_char :: "nat \<Rightarrow> char" where
  "hex_char d = char_of (if d < 10 then 48 + d else 87 + d)"

definition hex_digest :: "string \<Rightarrow> string" where
  "hex_digest bytes = concat (map (\<lambda>c. [hex_char (byte c div 16), hex_char (byte c mod 16)]) bytes)"

definition le_bytes :: "nat \<Rightarrow> string" where
  "le_bytes n = map (\<lambda>i. char_of (n div 256 ^ i mod 256)) [0..<8]"

definition hash_field :: "string \<Rightarrow> string" where
  "hash_field value = le_bytes (length value) @ value"

definition request_identity ::
  "(string \<Rightarrow> string) \<Rightarrow> string \<Rightarrow> maintenance_action \<Rightarrow> bool \<Rightarrow> string" where
  "request_identity sha256 person_id action force =
     ''session-maintenance:'' @ hex_digest (sha256 (hash_field person_id
       @ hash_field (maintenance_action_as_str action)
       @ hash_field (if force then ''force'' else ''no-force'')
       @ hash_field ''unset'' @ hash_field ''unset''))"

definition family_member :: "string \<Rightarrow> nat \<Rightarrow> string" where
  "family_member family n = family @ ''#'' @ show_nat n"

lemma show_nat_inj: "show_nat m = show_nat n \<longleftrightarrow> m = n"
  by (metis dec_val_show_nat)

lemma inj_family_member: "inj (family_member family)"
  by (rule injI) (simp add: family_member_def show_nat_inj)

definition members_from :: "(string, 'v) omap \<Rightarrow> string \<Rightarrow> nat \<Rightarrow> nat set" where
  "members_from m family n = {k. n \<le> k \<and> family_member family k \<in> set (om_keys m)}"

lemma finite_members [simp]: "finite (members_from m family n)"
proof -
  have "finite (family_member family -` set (om_keys m))"
    using inj_family_member finite_vimageI by blast
  then show ?thesis by (rule finite_subset[rotated]) (auto simp: members_from_def)
qed

lemma members_step:
  "members_from m family n = (if family_member family n \<in> set (om_keys m)
     then insert n (members_from m family (Suc n)) else members_from m family (Suc n))"
  unfolding members_from_def by (auto simp: Suc_le_eq le_less)

text \<open>
  The walk to the first free id of a family. Its counter is a \<open>u32\<close> in the source, which only wraps in
  a ledger of four thousand million requests of one family.
\<close>

function family_walk ::
  "(string, 'v) omap \<Rightarrow> string \<Rightarrow> string option \<Rightarrow> string \<Rightarrow> nat \<Rightarrow> string option \<times> string" where
  "family_walk m family newest candidate n =
     (if om_has m candidate
      then family_walk m family (Some candidate) (family_member family n) (Suc n)
      else (newest, candidate))"
  by pat_completeness auto
termination
proof (relation "measure (\<lambda>(m, family, newest, candidate, n).
    card (members_from m family n) + (if candidate \<in> set (om_keys m) then 1 else 0))")
  fix m :: "(string, 'v) omap" and family newest candidate n
  assume "om_has m candidate"
  then have c: "candidate \<in> set (om_keys m)" by (auto simp: om_has_def om_keys_iff)
  have "n \<notin> members_from m family (Suc n)" by (simp add: members_from_def)
  with c show "((m, family, Some candidate, family_member family n, Suc n), m, family, newest, candidate, n)
    \<in> measure (\<lambda>(m, family, newest, candidate, n).
        card (members_from m family n) + (if candidate \<in> set (om_keys m) then 1 else 0))"
    by (simp add: members_step[of m family n])
qed simp

declare family_walk.simps [simp del]

definition newest_in_family :: "maintenance_ledger \<Rightarrow> string \<Rightarrow> string option \<times> string" where
  "newest_in_family l family = family_walk (ml_requests l) family None family 1"

definition maintenance_put :: "maintenance_request \<Rightarrow> maintenance_ledger \<Rightarrow> maintenance_ledger" where
  "maintenance_put r l = l\<lparr>ml_requests := om_put (mr_id r) r (ml_requests l)\<rparr>"

definition maintenance_add :: "maintenance_request \<Rightarrow> maintenance_ledger \<Rightarrow> maintenance_ledger" where
  "maintenance_add r l = (maintenance_put r l)\<lparr>ml_request_order := ml_request_order l @ [mr_id r]\<rparr>"

definition fresh_request ::
  "string \<Rightarrow> maintenance_action \<Rightarrow> string \<Rightarrow> string \<Rightarrow> string \<Rightarrow> bool \<Rightarrow> nat \<Rightarrow> bool option \<Rightarrow> string
     \<Rightarrow> maintenance_request" where
  "fresh_request rid action person_id requested_by reason automatic attempt force at =
     \<lparr>mr_id = rid, mr_action = action, mr_person_id = person_id, mr_requested_by = requested_by,
      mr_reason = reason, mr_automatic = automatic, mr_status = MQueued, mr_requested_at = at,
      mr_started_at = None, mr_completed_at = None, mr_error = None, mr_attempt = Some attempt,
      mr_recovered_from_request_id = None, mr_retry_not_before = None, mr_claimed_process_id = None,
      mr_claimed_session_id = None, mr_claim_token = None, mr_completed_process_id = None,
      mr_completed_session_id = None, mr_completion_claim_token = None, mr_company_action_id = None,
      mr_force = force, mr_interrupted_process_id = None, mr_interrupted_session_id = None,
      mr_interrupted_claim_token = None, mr_interrupted_at = None, mr_compact_session_id = None,
      mr_compact_anchor_entry_id = None, mr_completed_compaction_entry_id = None, mr_extra = []\<rparr>"

definition same_request :: "maintenance_action \<Rightarrow> string \<Rightarrow> bool \<Rightarrow> maintenance_request \<Rightarrow> bool" where
  "same_request action person_id force r \<longleftrightarrow> is_open (mr_status r) \<and> mr_action r = action
     \<and> mr_person_id r = person_id \<and> (mr_force r = Some True) = force"

definition within_replay_window :: "string \<Rightarrow> maintenance_request \<Rightarrow> bool" where
  "within_replay_window at prior =
     (case (parse_iso_millis at, parse_iso_millis (mr_requested_at prior)) of
        (Some now, Some prior_at) \<Rightarrow> sat_sub_i64 now prior_at \<le> MAINTENANCE_REPLAY_WINDOW_MS
      | _ \<Rightarrow> True)"

text \<open>Who asks for what, and whether they may: the person, the requester and the reason to record.\<close>

definition queue_terms ::
  "'v organization_manifest \<Rightarrow> queue_input \<Rightarrow> chiefd_error + (string \<times> string \<times> string)" where
  "queue_terms m input =
     res_bind (bounded (qi_person_id input) ''session maintenance.personId'' 128) (\<lambda>person_id.
     res_bind (bounded (qi_requested_by input) ''session maintenance.requestedBy'' 128) (\<lambda>requested_by.
       if person m person_id = None
          \<or> person m requested_by = None \<and> requested_by \<noteq> SESSION_MAINTENANCE_OPERATOR_REQUESTER
       then Inl (refused INVALID_MAINTENANCE ''Session maintenance person is unknown'')
       else if \<not> person_is_in_scope m
            (if requested_by = SESSION_MAINTENANCE_OPERATOR_REQUESTER then Operator else Actor_Person requested_by)
            person_id
       then Inl (refused INVALID_MAINTENANCE (quoted requested_by @ '' does not manage '' @ quoted person_id
         @ '': session maintenance acts on your own subtree, or on yourself''))
       else res_bind
         (if trim (qi_reason input) = []
          then Inr (maintenance_action_as_str (qi_action input) @ '' requested by '' @ requested_by)
          else bounded (qi_reason input) ''session maintenance.reason'' 500) (\<lambda>reason.
            Inr (person_id, requested_by, reason))))"

definition queue_admitted ::
  "(string \<Rightarrow> string) \<Rightarrow> queue_input \<Rightarrow> string \<Rightarrow> maintenance_ledger \<Rightarrow> string \<times> string \<times> string
     \<Rightarrow> maintenance_ledger \<times> maintenance_request" where
  "queue_admitted sha256 input at l terms = (case terms of (person_id, requested_by, reason) \<Rightarrow>
     let force = (qi_force input = Some True)
     in case find (same_request (qi_action input) person_id force) (ordered_requests l) of
       Some existing \<Rightarrow> (l, existing)
     | None \<Rightarrow>
         (let (newest, next_id) = newest_in_family l (request_identity sha256 person_id (qi_action input) force);
              prior = (case newest of None \<Rightarrow> None | Some rid \<Rightarrow> om_get (ml_requests l) rid);
              request = fresh_request next_id (qi_action input) person_id requested_by reason
                (qi_automatic input) 1 (qi_force input) at;
              added = ((maintenance_add request l)\<lparr>ml_updated_at := at\<rparr>, request)
          in case prior of
            Some prior \<Rightarrow> if within_replay_window at prior then (l, prior) else added
          | None \<Rightarrow> added))"

definition queue_maintenance ::
  "(string \<Rightarrow> string) \<Rightarrow> 'v organization_manifest \<Rightarrow> queue_input \<Rightarrow> string \<Rightarrow> maintenance_ledger
     \<Rightarrow> chiefd_error + (maintenance_ledger \<times> maintenance_request)" where
  "queue_maintenance sha256 m input at l =
     res_bind (queue_terms m input) (\<lambda>terms. Inr (queue_admitted sha256 input at l terms))"

end
