(* ===== verification/Maintenance_Lifecycle.thy ===== *)
theory Maintenance_Lifecycle
  imports Session_Maintenance
begin

text \<open>
  The life of a maintenance request after it was queued (\<open>session_maintenance_ops.rs\<close>) and the writer's
  commands on the ledger (\<open>chiefd-core/src/actor/session_lifecycle.rs\<close>). A command works on a draft and a
  refusal discards it, so an operation answers the refusal or the ledger it left.
\<close>

section \<open>Claiming\<close>

record compact_anchor =
  ca_session_id :: string
  ca_entry_id :: string

record start_input =
  si_action :: maintenance_action
  si_request_id :: "string option"
  si_claim :: "maintenance_claim option"
  si_compact_anchor :: "compact_anchor option"

definition startable :: "string \<Rightarrow> start_input \<Rightarrow> maintenance_request \<Rightarrow> bool" where
  "startable identity input r \<longleftrightarrow> mr_status r = MQueued \<and> mr_person_id r = identity
     \<and> mr_action r = si_action input
     \<and> (case si_request_id input of None \<Rightarrow> True | Some rid \<Rightarrow> mr_id r = rid)"

text \<open>Both instants must be readable for a retry to wait.\<close>

definition not_yet :: "string \<Rightarrow> maintenance_request \<Rightarrow> bool" where
  "not_yet at r \<longleftrightarrow> (case (parse_iso_millis at, Option.bind (mr_retry_not_before r) parse_iso_millis) of
     (Some now, Some not_before) \<Rightarrow> now < not_before | _ \<Rightarrow> False)"

definition claimed_by :: "maintenance_claim option \<Rightarrow> maintenance_request \<Rightarrow> maintenance_request" where
  "claimed_by claim r = (case claim of
     None \<Rightarrow> r
   | Some c \<Rightarrow> r\<lparr>mr_claimed_process_id := Some (cl_process_id c),
       mr_claimed_session_id := Some (trim (cl_session_id c)), mr_claim_token := Some (trim (cl_claim_token c))\<rparr>)"

definition anchored ::
  "compact_anchor option \<Rightarrow> maintenance_request \<Rightarrow> chiefd_error + maintenance_request" where
  "anchored anchor r = (case anchor of
     None \<Rightarrow> Inr r
   | Some a \<Rightarrow>
       res_bind (bounded (ca_session_id a) ''session maintenance compact sessionId'' 300) (\<lambda>session_id.
       res_bind (bounded (ca_entry_id a) ''session maintenance compact anchorEntryId'' 300) (\<lambda>entry_id.
         Inr (r\<lparr>mr_compact_session_id := Some session_id, mr_compact_anchor_entry_id := Some entry_id\<rparr>))))"

definition start_maintenance ::
  "string \<Rightarrow> start_input \<Rightarrow> string \<Rightarrow> maintenance_ledger
     \<Rightarrow> chiefd_error + (maintenance_ledger \<times> maintenance_request option)" where
  "start_maintenance identity input at l =
     res_bind (case si_claim input of None \<Rightarrow> Inr () | Some c \<Rightarrow> claim_validated c) (\<lambda>_.
       case find (startable identity input) (ordered_requests l) of
         None \<Rightarrow> Inr (l, None)
       | Some selected \<Rightarrow>
           (case om_get (ml_requests l) (mr_id selected) of
              None \<Rightarrow> Inl (refused UNKNOWN_MAINTENANCE_REQUEST ''the request being claimed'')
            | Some request \<Rightarrow>
                if not_yet at request then Inr (l, None)
                else if si_compact_anchor input \<noteq> None \<and> si_action input \<noteq> Compact
                then Inl (refused INVALID_MAINTENANCE
                  ''Only compact maintenance can persist a native compact anchor'')
                else res_bind (anchored (si_compact_anchor input)
                    (claimed_by (si_claim input)
                      (request\<lparr>mr_status := MRunning, mr_started_at := Some at, mr_retry_not_before := None\<rparr>)))
                  (\<lambda>claimed. Inr ((l\<lparr>ml_requests := om_put (mr_id selected) claimed (ml_requests l)\<rparr>)
                     \<lparr>ml_updated_at := at\<rparr>, Some claimed))))"

definition request_mut :: "maintenance_ledger \<Rightarrow> string \<Rightarrow> chiefd_error + maintenance_request" where
  "request_mut l rid = (case om_get (ml_requests l) rid of
     None \<Rightarrow> Inl (refused UNKNOWN_MAINTENANCE_REQUEST (''Unknown session maintenance request '' @ quoted rid))
   | Some r \<Rightarrow> Inr r)"

definition update_request ::
  "string \<Rightarrow> maintenance_request \<Rightarrow> maintenance_ledger \<Rightarrow> maintenance_ledger" where
  "update_request rid r l = l\<lparr>ml_requests := om_put rid r (ml_requests l)\<rparr>"

definition defer_maintenance ::
  "string \<Rightarrow> maintenance_claim \<Rightarrow> string \<Rightarrow> string \<Rightarrow> maintenance_ledger
     \<Rightarrow> chiefd_error + (maintenance_ledger \<times> maintenance_request)" where
  "defer_maintenance rid claim identity at l =
     res_bind (claim_validated claim) (\<lambda>_.
     res_bind (request_mut l rid) (\<lambda>request.
     res_bind (assert_owns identity request) (\<lambda>_.
       if mr_status request = MQueued \<and> mr_claimed_process_id request = None
          \<and> mr_claimed_session_id request = None \<and> mr_claim_token request = None
       then Inr (l, request)
       else if mr_status request \<noteq> MRunning \<or> \<not> claim_owns claim request
       then Inl (refused MAINTENANCE_CLAIM_MISMATCH (''Session maintenance request '' @ quoted rid
         @ '' is not owned by this exact live claim''))
       else (let deferred = request\<lparr>mr_status := MQueued, mr_started_at := None, mr_claimed_process_id := None,
                   mr_claimed_session_id := None, mr_claim_token := None, mr_compact_session_id := None,
                   mr_compact_anchor_entry_id := None\<rparr>
             in Inr ((update_request rid deferred l)\<lparr>ml_updated_at := at\<rparr>, deferred)))))"

definition record_interrupt ::
  "string \<Rightarrow> maintenance_claim \<Rightarrow> string \<Rightarrow> string \<Rightarrow> maintenance_ledger
     \<Rightarrow> chiefd_error + (maintenance_ledger \<times> maintenance_request)" where
  "record_interrupt rid claim identity at l =
     res_bind (claim_validated claim) (\<lambda>_.
     res_bind (request_mut l rid) (\<lambda>request.
     res_bind (assert_owns identity request) (\<lambda>_.
       if mr_force request \<noteq> Some True
       then Inl (refused MAINTENANCE_STATUS_CONFLICT
         (''Session maintenance request '' @ quoted rid @ '' is not a forced request''))
       else if mr_interrupted_process_id request = Some (cl_process_id claim)
          \<and> mr_interrupted_session_id request = Some (trim (cl_session_id claim))
          \<and> mr_interrupted_claim_token request = Some (trim (cl_claim_token claim))
       then Inr (l, request)
       else if mr_status request \<noteq> MQueued
       then Inl (refused MAINTENANCE_STATUS_CONFLICT (''Session maintenance request '' @ quoted rid
         @ '' is no longer waiting for interruption''))
       else (let recorded = request\<lparr>mr_interrupted_process_id := Some (cl_process_id claim),
                   mr_interrupted_session_id := Some (trim (cl_session_id claim)),
                   mr_interrupted_claim_token := Some (trim (cl_claim_token claim)),
                   mr_interrupted_at := Some at\<rparr>
             in Inr ((update_request rid recorded l)\<lparr>ml_updated_at := at\<rparr>, recorded)))))"

section \<open>Recovery\<close>

record recovered_maintenance =
  rm_interrupted :: "maintenance_request list"
  rm_replacements :: "maintenance_request list"

definition recoverable :: "string \<Rightarrow> maintenance_claim \<Rightarrow> maintenance_request \<Rightarrow> bool" where
  "recoverable identity claim r \<longleftrightarrow> mr_person_id r = identity \<and> mr_status r = MRunning
     \<and> (mr_claimed_process_id r \<noteq> Some (cl_process_id claim)
        \<or> mr_claim_token r \<noteq> Some (trim (cl_claim_token claim)))"

definition replacement_id :: "maintenance_ledger \<Rightarrow> string \<Rightarrow> maintenance_action \<Rightarrow> string" where
  "replacement_id l person_id action =
     ''session-maintenance:'' @ show_nat (length (ml_request_order l) + 1) @ '':'' @ person_id @ '':''
       @ maintenance_action_as_str action"

definition interrupted_request :: "string \<Rightarrow> maintenance_request \<Rightarrow> maintenance_request" where
  "interrupted_request at r =
     (if mr_status r = MRunning
      then r\<lparr>mr_status := MFailed, mr_completed_at := Some at,
             mr_error := Some SESSION_MAINTENANCE_PROCESS_INTERRUPTION_ERROR\<rparr>
      else r)"

definition recover_one ::
  "string \<Rightarrow> string \<Rightarrow> maintenance_ledger \<times> recovered_maintenance \<Rightarrow> string
     \<Rightarrow> chiefd_error + (maintenance_ledger \<times> recovered_maintenance)" where
  "recover_one identity at s rid =
     res_bind (request_mut (fst s) rid) (\<lambda>request.
       let request = interrupted_request at request;
           l = update_request rid request (fst s);
           report = (snd s)\<lparr>rm_interrupted := rm_interrupted (snd s) @ [request]\<rparr>;
           attempt = (case mr_attempt request of None \<Rightarrow> 1 | Some a \<Rightarrow> a);
           is_company = is_company_request request
       in if \<not> is_company \<and> SESSION_MAINTENANCE_MAX_ATTEMPTS \<le> attempt then Inr (l, report)
          else if u32_max \<le> attempt
          then Inl (refused MAINTENANCE_STATUS_CONFLICT
            ''Company session maintenance attempt sequence is exhausted'')
          else res_bind
            (if is_company
             then res_bind (map_err Refused (session_maintenance_retry_delay_ms (attempt + 1))) (\<lambda>delay.
                Inr (map_option (\<lambda>now. iso_millis (now + delay)) (parse_iso_millis at)))
             else Inr None) (\<lambda>retry_not_before.
              let replacement = (fresh_request (replacement_id l identity (mr_action request)) (mr_action request)
                      identity (mr_requested_by request) (mr_reason request) (mr_automatic request) (attempt + 1)
                      (if is_company then Some (mr_force request = Some True) else None) at)
                    \<lparr>mr_recovered_from_request_id := Some rid, mr_retry_not_before := retry_not_before,
                     mr_company_action_id := mr_company_action_id request\<rparr>
              in Inr (maintenance_add replacement l,
                   report\<lparr>rm_replacements := rm_replacements report @ [replacement]\<rparr>)))"

definition recover_interrupted ::
  "string \<Rightarrow> maintenance_claim \<Rightarrow> string \<Rightarrow> maintenance_ledger
     \<Rightarrow> chiefd_error + (maintenance_ledger \<times> recovered_maintenance)" where
  "recover_interrupted identity claim at l =
     res_bind (claim_validated claim) (\<lambda>_.
     res_bind (res_fold (recover_one identity at) (l, \<lparr>rm_interrupted = [], rm_replacements = []\<rparr>)
         (map mr_id (filter (recoverable identity claim) (ordered_requests l)))) (\<lambda>(l', report).
       Inr (if rm_interrupted report \<noteq> [] then l'\<lparr>ml_updated_at := at\<rparr> else l', report)))"

section \<open>Finishing and closing\<close>

record finish_input =
  fi_id :: string
  fi_status :: maintenance_status
  fi_error :: "string option"
  fi_compact_entry_id :: "string option"

definition bounded_error :: "string \<Rightarrow> string" where
  "bounded_error error = (if char_count error \<le> 600 then error else take_chars 600 error)"

definition finish_maintenance ::
  "finish_input \<Rightarrow> string \<Rightarrow> string \<Rightarrow> maintenance_ledger
     \<Rightarrow> chiefd_error + (maintenance_ledger \<times> maintenance_request)" where
  "finish_maintenance input identity at l =
     (if \<not> maintenance_is_terminal (fi_status input)
      then Inl (refused INVALID_MAINTENANCE ''session maintenance.status must be completed, failed, or skipped'')
      else res_bind (request_mut l (fi_id input)) (\<lambda>request.
        res_bind (assert_owns identity request) (\<lambda>_.
          if maintenance_is_terminal (mr_status request)
          then (case fi_compact_entry_id input of
              None \<Rightarrow> Inr (l, request)
            | Some entry \<Rightarrow>
                res_bind (bounded entry ''session maintenance compactEntryId'' 300) (\<lambda>entry.
                  if mr_completed_compaction_entry_id request \<noteq> Some entry
                  then Inl (refused MAINTENANCE_STATUS_CONFLICT (''Session maintenance request ''
                    @ quoted (fi_id input) @ '' was completed by another native compaction entry''))
                  else Inr (l, request)))
          else res_bind
            (if fi_status input = MCompleted \<and> mr_action request = Compact \<and> mr_compact_anchor_entry_id request \<noteq> None
             then res_bind (bounded (case fi_compact_entry_id input of None \<Rightarrow> [] | Some e \<Rightarrow> e)
                 ''session maintenance compactEntryId'' 300) (\<lambda>entry.
                   Inr (request\<lparr>mr_completed_compaction_entry_id := Some entry\<rparr>))
             else if fi_compact_entry_id input \<noteq> None
             then Inl (refused INVALID_MAINTENANCE
               ''A native compaction entry may only complete anchored compact maintenance'')
             else Inr request) (\<lambda>request.
               let closed = request\<lparr>mr_status := fi_status input, mr_completed_at := Some at\<rparr>;
                   finished = (case fi_error input of
                      None \<Rightarrow> closed
                    | Some e \<Rightarrow> if trim e = [] then closed else closed\<lparr>mr_error := Some (bounded_error (trim e))\<rparr>)
               in Inr ((update_request (fi_id input) finished l)\<lparr>ml_updated_at := at\<rparr>, finished)))))"

definition skip_request :: "string \<Rightarrow> string \<Rightarrow> maintenance_request \<Rightarrow> maintenance_request" where
  "skip_request at error r = r\<lparr>mr_status := MSkipped, mr_completed_at := Some at, mr_error := Some error\<rparr>"

definition skip_all :: "string \<Rightarrow> string \<Rightarrow> string list \<Rightarrow> maintenance_ledger \<Rightarrow> maintenance_ledger" where
  "skip_all at error ids l =
     (if ids = [] then l
      else l\<lparr>ml_requests := foldl (\<lambda>m rid. om_adjust rid (skip_request at error) m) (ml_requests l) ids,
             ml_updated_at := at\<rparr>)"

definition skip_parked_company_targets ::
  "string list \<Rightarrow> string \<Rightarrow> maintenance_ledger \<Rightarrow> chiefd_error + (maintenance_ledger \<times> string list)" where
  "skip_parked_company_targets parked at l =
     (let ids = map mr_id (filter (\<lambda>r. mr_status r = MQueued \<and> is_company_request r \<and> mr_person_id r \<in> set parked)
            (ordered_requests l))
      in Inr (skip_all at SESSION_MAINTENANCE_TARGET_PARKED_ERROR ids l, ids))"

definition orphaned_request :: "'v organization_manifest \<Rightarrow> maintenance_request \<Rightarrow> bool" where
  "orphaned_request m r \<longleftrightarrow> is_open (mr_status r)
     \<and> (case person m (mr_person_id r) of None \<Rightarrow> True | Some p \<Rightarrow> ps_employment_state p = Departed)"

definition reconcile_maintenance ::
  "'v organization_manifest \<Rightarrow> string \<Rightarrow> maintenance_ledger \<Rightarrow> maintenance_ledger \<times> bool" where
  "reconcile_maintenance m at l =
     (let orphaned = map mr_id (filter (orphaned_request m) (ordered_requests l))
      in (skip_all at PERSON_LEFT_ERROR orphaned l, orphaned \<noteq> []))"

section \<open>The writer's commands\<close>

definition recover_dead_claim ::
  "string \<Rightarrow> maintenance_ledger \<times> recovered_maintenance \<Rightarrow> string \<times> int
     \<Rightarrow> chiefd_error + (maintenance_ledger \<times> recovered_maintenance)" where
  "recover_dead_claim at s dead = (case maintenance_request_of (fst s) (fst dead) of
     None \<Rightarrow> Inr s
   | Some request \<Rightarrow>
       if mr_status request \<noteq> MRunning \<or> mr_claimed_process_id request \<noteq> Some (snd dead) then Inr s
       else res_bind (recover_interrupted (mr_person_id request)
           \<lparr>cl_process_id = (if snd dead = 1 then 2 else 1), cl_session_id = ''chiefd-supervision-dead-claim'',
            cl_claim_token = ''chiefd-supervision-dead-claim''\<rparr> at (fst s)) (\<lambda>(l, recovered).
         Inr (l, \<lparr>rm_interrupted = rm_interrupted (snd s) @ rm_interrupted recovered,
                  rm_replacements = rm_replacements (snd s) @ rm_replacements recovered\<rparr>)))"

definition recover_dead_claims ::
  "(string \<times> int) list \<Rightarrow> string \<Rightarrow> maintenance_ledger
     \<Rightarrow> chiefd_error + (maintenance_ledger \<times> recovered_maintenance)" where
  "recover_dead_claims dead_claims at l =
     res_fold (recover_dead_claim at) (l, \<lparr>rm_interrupted = [], rm_replacements = []\<rparr>) dead_claims"

text \<open>
  The transaction every command runs in: a ledger that is not there yet is the initial one, the manifest and
  the supervision ledger must read, the structural repair follows the operation.
\<close>

definition maintenance_mutation ::
  "string \<Rightarrow> maintenance_ledger option \<Rightarrow> chiefd_error + 'v organization_manifest \<Rightarrow> chiefd_error + 's \<Rightarrow> int
     \<Rightarrow> ('v organization_manifest \<Rightarrow> string \<Rightarrow> maintenance_ledger \<Rightarrow> chiefd_error + (maintenance_ledger \<times> 'r))
     \<Rightarrow> chiefd_error + (maintenance_ledger \<times> 'r)" where
  "maintenance_mutation slug stored organization supervision now f =
     (let current = (case stored of Some l \<Rightarrow> l | None \<Rightarrow> maintenance_initial slug (iso_millis 0))
      in res_bind organization (\<lambda>m.
         res_bind supervision (\<lambda>_.
         res_bind (f m (iso_millis now) current) (\<lambda>(l, result).
           Inr (fst (reconcile_maintenance m (iso_millis now) l), result)))))"

datatype maintenance_command =
    Queue queue_input
  | Start string start_input
  | Defer string maintenance_claim string
  | Interrupt string maintenance_claim string
  | Recover string maintenance_claim
  | Recover_Dead "(string \<times> int) list"
  | Finish finish_input string
  | Skip_Parked "string list"

definition drop_answer :: "chiefd_error + ('l \<times> 'r) \<Rightarrow> chiefd_error + ('l \<times> unit)" where
  "drop_answer r = res_bind r (\<lambda>(l, _). Inr (l, ()))"

fun maintenance_op ::
  "(string \<Rightarrow> string) \<Rightarrow> maintenance_command \<Rightarrow> 'v organization_manifest \<Rightarrow> string \<Rightarrow> maintenance_ledger
     \<Rightarrow> chiefd_error + (maintenance_ledger \<times> unit)" where
  "maintenance_op sha256 (Queue input) m at l = drop_answer (queue_maintenance sha256 m input at l)"
| "maintenance_op sha256 (Start identity input) m at l = drop_answer (start_maintenance identity input at l)"
| "maintenance_op sha256 (Defer rid claim identity) m at l = drop_answer (defer_maintenance rid claim identity at l)"
| "maintenance_op sha256 (Interrupt rid claim identity) m at l = drop_answer (record_interrupt rid claim identity at l)"
| "maintenance_op sha256 (Recover identity claim) m at l = drop_answer (recover_interrupted identity claim at l)"
| "maintenance_op sha256 (Recover_Dead dead) m at l = drop_answer (recover_dead_claims dead at l)"
| "maintenance_op sha256 (Finish input identity) m at l = drop_answer (finish_maintenance input identity at l)"
| "maintenance_op sha256 (Skip_Parked parked) m at l = drop_answer (skip_parked_company_targets parked at l)"

end
