(* ===== verification/Maintenance_Contract.thy ===== *)
theory Maintenance_Contract
  imports Maintenance_Lifecycle
begin

text \<open>
  What the maintenance ledger promises: every command keeps it valid, a request only moves along its state
  machine and is never lost, a claim is exclusive until its owner gives it back, recovery leaves no claim
  of a dead process, and queueing is idempotent.
\<close>

section \<open>A valid ledger\<close>

definition nonblank :: "string option \<Rightarrow> bool" where
  "nonblank s \<longleftrightarrow> (\<forall>t. s = Some t \<longrightarrow> trim t \<noteq> [])"

definition positive_pid :: "int option \<Rightarrow> bool" where
  "positive_pid p \<longleftrightarrow> (\<forall>i. p = Some i \<longrightarrow> 1 \<le> i)"

definition claim_shape :: "maintenance_request \<Rightarrow> bool" where
  "claim_shape r \<longleftrightarrow> positive_pid (mr_claimed_process_id r) \<and> nonblank (mr_claimed_session_id r)
     \<and> nonblank (mr_claim_token r)
     \<and> (mr_claimed_session_id r = None \<longleftrightarrow> mr_claimed_process_id r = None)
     \<and> (mr_claim_token r = None \<longleftrightarrow> mr_claimed_process_id r = None)"

definition completion_shape :: "maintenance_request \<Rightarrow> bool" where
  "completion_shape r \<longleftrightarrow> positive_pid (mr_completed_process_id r) \<and> nonblank (mr_completed_session_id r)
     \<and> nonblank (mr_completion_claim_token r)
     \<and> (mr_completed_session_id r = None \<longleftrightarrow> mr_completed_process_id r = None)
     \<and> (mr_completion_claim_token r = None \<longleftrightarrow> mr_completed_process_id r = None)
     \<and> (mr_completed_process_id r \<noteq> None \<longrightarrow> mr_status r = MCompleted)
     \<and> nonblank (mr_completed_compaction_entry_id r)
     \<and> (mr_completed_compaction_entry_id r \<noteq> None \<longrightarrow> mr_status r = MCompleted)
     \<and> (maintenance_is_terminal (mr_status r) \<longrightarrow> mr_completed_at r \<noteq> None)
     \<and> (\<forall>e. mr_error r = Some e \<longrightarrow> char_count e \<le> 600)"

definition interrupt_shape :: "maintenance_request \<Rightarrow> bool" where
  "interrupt_shape r \<longleftrightarrow> positive_pid (mr_interrupted_process_id r) \<and> nonblank (mr_interrupted_session_id r)
     \<and> nonblank (mr_interrupted_claim_token r)
     \<and> (\<forall>at. mr_interrupted_at r = Some at \<longrightarrow> parse_iso_millis at \<noteq> None)
     \<and> (mr_interrupted_session_id r = None \<longleftrightarrow> mr_interrupted_process_id r = None)
     \<and> (mr_interrupted_claim_token r = None \<longleftrightarrow> mr_interrupted_process_id r = None)
     \<and> (mr_interrupted_at r = None \<longleftrightarrow> mr_interrupted_process_id r = None)"

definition anchor_shape :: "maintenance_request \<Rightarrow> bool" where
  "anchor_shape r \<longleftrightarrow> nonblank (mr_compact_session_id r) \<and> nonblank (mr_compact_anchor_entry_id r)
     \<and> (mr_compact_anchor_entry_id r = None \<longleftrightarrow> mr_compact_session_id r = None)"

definition terms_shape :: "maintenance_request \<Rightarrow> bool" where
  "terms_shape r \<longleftrightarrow> parse_iso_millis (mr_requested_at r) \<noteq> None
     \<and> (\<forall>a. mr_attempt r = Some a \<longrightarrow> 1 \<le> a \<and> a \<le> SESSION_MAINTENANCE_MAX_ATTEMPTS)
     \<and> mr_recovered_from_request_id r \<noteq> Some [] \<and> mr_retry_not_before r = None \<and> mr_company_action_id r = None"

definition request_ok :: "string \<Rightarrow> maintenance_request \<Rightarrow> bool" where
  "request_ok rid r \<longleftrightarrow> mr_id r = rid \<and> terms_shape r \<and> claim_shape r \<and> completion_shape r
     \<and> interrupt_shape r \<and> anchor_shape r"

lemmas request_shapes = request_ok_def terms_shape_def claim_shape_def completion_shape_def interrupt_shape_def
  anchor_shape_def

lemma all_or_none_pair: "all_or_none [a, b] \<longleftrightarrow> b = a"
  and all_or_none_triple: "all_or_none [a, b, c] \<longleftrightarrow> b = a \<and> c = a"
  and all_or_none_quad: "all_or_none [a, b, c, d] \<longleftrightarrow> b = a \<and> c = a \<and> d = a"
  by (auto simp: all_or_none_def)

lemma blank_iff: "blank s \<longleftrightarrow> \<not> nonblank s"
  by (cases s) (simp_all add: blank_def nonblank_def)

lemma below_one_iff: "below_one p \<longleftrightarrow> \<not> positive_pid p"
  by (cases p) (auto simp: below_one_def positive_pid_def)

lemma compact_only: "mr_action r = Compact"
  by (cases "mr_action r") simp

lemma good_request:
  "\<not> bad_request ctx True False rid r \<and> (maintenance_is_terminal (mr_status r) \<longrightarrow> mr_completed_at r \<noteq> None)
     \<longleftrightarrow> request_ok rid r"
proof (cases "mr_company_action_id r")
  case (Some a)
  then show ?thesis by (simp add: bad_request_def request_shapes)
next
  case None
  then have company: "\<not> is_company_request r" by (simp add: is_company_request_def)
  have attempt: "(case mr_attempt r of None \<Rightarrow> False
      | Some attempt \<Rightarrow> attempt < 1 \<or> \<not> is_company_request r \<and> SESSION_MAINTENANCE_MAX_ATTEMPTS < attempt)
      \<longleftrightarrow> \<not> (\<forall>a. mr_attempt r = Some a \<longrightarrow> 1 \<le> a \<and> a \<le> SESSION_MAINTENANCE_MAX_ATTEMPTS)"
    by (cases "mr_attempt r") (auto simp: company)
  have retry: "(case mr_retry_not_before r of None \<Rightarrow> False
      | Some at \<Rightarrow> \<not> is_company_request r \<or> mr_status r \<noteq> MQueued \<or> parse_iso_millis at = None
          \<or> option_less (parse_iso_millis at) (parse_iso_millis (mr_requested_at r)))
      \<longleftrightarrow> \<not> mr_retry_not_before r = None"
    by (cases "mr_retry_not_before r") (auto simp: company)
  have session: "(case mr_compact_session_id r of None \<Rightarrow> False | Some s \<Rightarrow> mr_action r \<noteq> Compact \<or> trim s = [])
      \<longleftrightarrow> \<not> nonblank (mr_compact_session_id r)"
    by (cases "mr_compact_session_id r") (auto simp: compact_only nonblank_def)
  have anchor: "(case mr_compact_anchor_entry_id r of None \<Rightarrow> False | Some s \<Rightarrow> mr_action r \<noteq> Compact \<or> trim s = [])
      \<longleftrightarrow> \<not> nonblank (mr_compact_anchor_entry_id r)"
    by (cases "mr_compact_anchor_entry_id r") (auto simp: compact_only nonblank_def)
  have entry: "(case mr_completed_compaction_entry_id r of None \<Rightarrow> False
      | Some s \<Rightarrow> mr_action r \<noteq> Compact \<or> mr_status r \<noteq> MCompleted \<or> trim s = [])
      \<longleftrightarrow> \<not> (nonblank (mr_completed_compaction_entry_id r)
            \<and> (mr_completed_compaction_entry_id r \<noteq> None \<longrightarrow> mr_status r = MCompleted))"
    by (cases "mr_completed_compaction_entry_id r") (auto simp: compact_only nonblank_def)
  have err: "(case mr_error r of None \<Rightarrow> False | Some e \<Rightarrow> 600 < char_count e)
      \<longleftrightarrow> \<not> (\<forall>e. mr_error r = Some e \<longrightarrow> char_count e \<le> 600)"
    by (cases "mr_error r") auto
  have at: "(case mr_interrupted_at r of None \<Rightarrow> False | Some at \<Rightarrow> parse_iso_millis at = None)
      \<longleftrightarrow> \<not> (\<forall>at. mr_interrupted_at r = Some at \<longrightarrow> parse_iso_millis at \<noteq> None)"
    by (cases "mr_interrupted_at r") auto
  show ?thesis
    unfolding bad_request_def request_ok_def terms_shape_def claim_shape_def completion_shape_def
      interrupt_shape_def anchor_shape_def blank_iff below_one_iff all_or_none_pair all_or_none_triple
      all_or_none_quad err at attempt retry session anchor entry
    using None by (intro iffI; simp add: nonblank_def[of None] disj_imp del: not_None_eq)
qed

lemma check_request_iff:
  "check_maintenance_request ctx True False l u rid = Inr u' \<longleftrightarrow>
     (\<exists>r. om_get (ml_requests l) rid = Some r \<and> request_ok rid r)"
  unfolding good_request[of ctx, symmetric]
  by (auto simp: check_maintenance_request_def Let_def split: option.splits)

lemma validate_maintenance_iff:
  "validate_maintenance l ctx True False = Inr () \<longleftrightarrow>
     ml_schema_version l = SESSION_MAINTENANCE_SCHEMA_VERSION \<and> ml_organization l = ctx_slug ctx
     \<and> distinct (ml_request_order l) \<and> length (ml_request_order l) = length (ml_requests l)
     \<and> (\<forall>rid \<in> set (ml_request_order l). \<exists>r. om_get (ml_requests l) rid = Some r \<and> request_ok rid r)"
proof -
  have "res_fold (check_maintenance_request ctx True False l) u ids = Inr ()
      \<longleftrightarrow> (\<forall>rid \<in> set ids. \<exists>r. om_get (ml_requests l) rid = Some r \<and> request_ok rid r)" for u ids
    by (induction ids arbitrary: u) (auto simp: res_bind_Inr_iff check_request_iff)
  note folded = this
  show ?thesis unfolding validate_maintenance_def by (auto simp: folded)
qed

section \<open>The invariant\<close>

definition numbered_id :: "string \<Rightarrow> nat \<Rightarrow> bool" where
  "numbered_id rid n \<longleftrightarrow> (\<exists>rest. rid = ''session-maintenance:'' @ show_nat n @ '':'' @ rest)"

definition id_below :: "nat \<Rightarrow> string \<Rightarrow> bool" where
  "id_below k rid \<longleftrightarrow> rid \<noteq> [] \<and> (\<forall>n. numbered_id rid n \<longrightarrow> n \<le> k)"

text \<open>
  A ledger a publication accepts, in which the ids recovery numbered are no further than the order has
  grown. The last is not implied by validation, and recovery needs it: it numbers by the order's length.
\<close>

definition maintenance_ok :: "company_context \<Rightarrow> maintenance_ledger \<Rightarrow> bool" where
  "maintenance_ok ctx l \<longleftrightarrow> om_wf (ml_requests l) \<and> validate_maintenance l ctx True False = Inr ()
     \<and> (\<forall>rid \<in> set (ml_request_order l). id_below (length (ml_request_order l)) rid)"

lemma maintenance_ok_iff:
  "maintenance_ok ctx l \<longleftrightarrow> om_wf (ml_requests l) \<and> ml_schema_version l = SESSION_MAINTENANCE_SCHEMA_VERSION
     \<and> ml_organization l = ctx_slug ctx \<and> distinct (ml_request_order l)
     \<and> set (ml_request_order l) = set (om_keys (ml_requests l))
     \<and> (\<forall>rid r. om_get (ml_requests l) rid = Some r \<longrightarrow> request_ok rid r)
     \<and> (\<forall>rid \<in> set (ml_request_order l). id_below (length (ml_request_order l)) rid)"
proof -
  let ?o = "ml_request_order l" and ?m = "ml_requests l"
  have len: "length ?o = length ?m \<longleftrightarrow> set ?o = set (om_keys ?m)"
    if "om_wf ?m" "distinct ?o" "set ?o \<subseteq> set (om_keys ?m)"
  proof -
    have "card (set (om_keys ?m)) = length ?m"
      using om_wf_distinct[OF that(1)] by (metis distinct_card length_map om_keys_def)
    then show ?thesis using distinct_card[OF that(2)] that(3)
      by (metis List.finite_set card_subset_eq)
  qed
  show ?thesis
  proof (cases "om_wf ?m \<and> distinct ?o \<and> set ?o \<subseteq> set (om_keys ?m)")
    case True
    then show ?thesis
      unfolding maintenance_ok_def validate_maintenance_iff using len
      by (auto simp: om_keys_iff) (metis option.distinct(1) om_keys_iff option.inject)+
  next
    case False
    then show ?thesis
      unfolding maintenance_ok_def validate_maintenance_iff by (auto simp: om_keys_iff)
  qed
qed

lemma ok_request: "maintenance_ok ctx l \<Longrightarrow> om_get (ml_requests l) rid = Some r \<Longrightarrow> request_ok rid r"
  by (simp add: maintenance_ok_iff)

lemma ok_id: "maintenance_ok ctx l \<Longrightarrow> om_get (ml_requests l) rid = Some r \<Longrightarrow> mr_id r = rid"
  using ok_request by (simp add: request_ok_def)

lemma ok_stamp [simp]: "maintenance_ok ctx (l\<lparr>ml_updated_at := at\<rparr>) \<longleftrightarrow> maintenance_ok ctx l"
  by (simp add: maintenance_ok_iff)

lemma keys_put: "om_get m k = Some v \<Longrightarrow> set (om_keys (om_put k w m)) = set (om_keys m)"
  by (auto simp: om_keys_iff store_simps split: if_splits)

lemma ok_update:
  assumes "maintenance_ok ctx l" "om_get (ml_requests l) rid = Some r" "request_ok rid r'"
  shows "maintenance_ok ctx (update_request rid r' l)"
  using assms by (auto simp: maintenance_ok_iff update_request_def om_wf_put keys_put store_simps)

lemma ok_add:
  assumes "maintenance_ok ctx l" "om_get (ml_requests l) (mr_id r) = None" "request_ok (mr_id r) r"
    and "id_below (Suc (length (ml_request_order l))) (mr_id r)"
  shows "maintenance_ok ctx (maintenance_add r l)"
proof -
  have keys: "set (om_keys (om_put (mr_id r) r (ml_requests l))) = insert (mr_id r) (set (om_keys (ml_requests l)))"
    by (auto simp: om_keys_iff store_simps split: if_splits)
  have new: "mr_id r \<notin> set (ml_request_order l)"
    using assms(1,2) by (simp add: maintenance_ok_iff om_keys_iff)
  have "id_below k rid \<Longrightarrow> id_below (Suc k) rid" for k rid by (auto simp: id_below_def intro: le_SucI)
  then show ?thesis
    using assms new
    by (auto simp: maintenance_ok_iff maintenance_add_def maintenance_put_def keys om_wf_put store_simps)
qed

lemma map_filter_get:
  assumes "\<And>k. k \<in> set ks \<Longrightarrow> om_get m k \<noteq> None"
  shows "List.map_filter (om_get m) ks = map (\<lambda>k. the (om_get m k)) ks"
  using assms
proof (induction ks)
  case (Cons k ks)
  then obtain v where "om_get m k = Some v" by fastforce
  then show ?case using Cons by (simp add: List.map_filter_simps)
qed (simp add: List.map_filter_simps)

lemma ok_ordered:
  assumes "maintenance_ok ctx l"
  shows "ordered_requests l = map (\<lambda>rid. the (om_get (ml_requests l) rid)) (ml_request_order l)"
  unfolding ordered_requests_def using assms by (intro map_filter_get) (simp add: maintenance_ok_iff om_keys_iff)

lemma ok_ordered_iff:
  assumes "maintenance_ok ctx l"
  shows "r \<in> set (ordered_requests l) \<longleftrightarrow> om_get (ml_requests l) (mr_id r) = Some r"
proof
  assume "r \<in> set (ordered_requests l)"
  then obtain rid where "rid \<in> set (ml_request_order l)" "r = the (om_get (ml_requests l) rid)"
    using ok_ordered[OF assms] by auto
  then have "om_get (ml_requests l) rid = Some r"
    using assms by (auto simp: maintenance_ok_iff om_keys_iff)
  then show "om_get (ml_requests l) (mr_id r) = Some r" using ok_id[OF assms] by simp
next
  assume r: "om_get (ml_requests l) (mr_id r) = Some r"
  then have "mr_id r \<in> set (ml_request_order l)" using assms by (simp add: maintenance_ok_iff om_keys_iff)
  then show "r \<in> set (ordered_requests l)" using r ok_ordered[OF assms] by force
qed

lemma ordered_ids:
  assumes "maintenance_ok ctx l"
  shows "map mr_id (ordered_requests l) = ml_request_order l"
proof -
  have "mr_id (the (om_get (ml_requests l) rid)) = rid" if "rid \<in> set (ml_request_order l)" for rid
    using that assms ok_id[OF assms] by (auto simp: maintenance_ok_iff om_keys_iff)
  then show ?thesis by (simp add: ok_ordered[OF assms] map_idI)
qed

section \<open>What a request may become\<close>

definition same_terms :: "maintenance_request \<Rightarrow> maintenance_request \<Rightarrow> bool" where
  "same_terms r r' \<longleftrightarrow> mr_id r' = mr_id r \<and> mr_action r' = mr_action r \<and> mr_person_id r' = mr_person_id r
     \<and> mr_requested_by r' = mr_requested_by r \<and> mr_reason r' = mr_reason r \<and> mr_automatic r' = mr_automatic r
     \<and> mr_requested_at r' = mr_requested_at r \<and> mr_attempt r' = mr_attempt r \<and> mr_force r' = mr_force r
     \<and> mr_recovered_from_request_id r' = mr_recovered_from_request_id r"

text \<open>The moves an operation is for; any operation may also close open requests, failed or skipped.\<close>

fun may_move :: "maintenance_command \<Rightarrow> maintenance_request \<Rightarrow> maintenance_request \<Rightarrow> bool" where
  "may_move (Start identity input) r r' \<longleftrightarrow> mr_status r = MQueued \<and> mr_status r' = MRunning
     \<and> mr_person_id r = identity"
| "may_move (Defer rid claim identity) r r' \<longleftrightarrow> rid = mr_id r \<and> mr_status r = MRunning \<and> mr_status r' = MQueued
     \<and> claim_owns claim r \<and> mr_person_id r = identity"
| "may_move (Interrupt rid claim identity) r r' \<longleftrightarrow> rid = mr_id r \<and> mr_status r = MQueued
     \<and> mr_status r' = MQueued \<and> mr_force r = Some True \<and> mr_person_id r = identity"
| "may_move (Finish input identity) r r' \<longleftrightarrow> fi_id input = mr_id r \<and> is_open (mr_status r)
     \<and> mr_status r' = fi_status input \<and> maintenance_is_terminal (mr_status r') \<and> mr_person_id r = identity"
| "may_move _ r r' \<longleftrightarrow> False"

definition closes :: "maintenance_request \<Rightarrow> maintenance_request \<Rightarrow> bool" where
  "closes r r' \<longleftrightarrow> r' = r
     \<or> is_open (mr_status r) \<and> mr_status r' \<in> {MFailed, MSkipped} \<and> same_terms r r'"

definition moves_by :: "maintenance_command \<Rightarrow> maintenance_request \<Rightarrow> maintenance_request \<Rightarrow> bool" where
  "moves_by c r r' \<longleftrightarrow> closes r r' \<or> same_terms r r' \<and> may_move c r r'"

text \<open>A request a command adds is queued, or the repair has closed it at once.\<close>

definition ledger_moves ::
  "(maintenance_request \<Rightarrow> maintenance_request \<Rightarrow> bool) \<Rightarrow> maintenance_ledger \<Rightarrow> maintenance_ledger \<Rightarrow> bool" where
  "ledger_moves R l l' \<longleftrightarrow> (\<exists>new. ml_request_order l' = ml_request_order l @ new)
     \<and> (\<forall>rid r. om_get (ml_requests l) rid = Some r \<longrightarrow> (\<exists>r'. om_get (ml_requests l') rid = Some r' \<and> R r r'))
     \<and> (\<forall>rid r'. om_get (ml_requests l) rid = None \<and> om_get (ml_requests l') rid = Some r'
          \<longrightarrow> mr_status r' \<in> {MQueued, MFailed, MSkipped})"

lemma status_split: "is_open s \<longleftrightarrow> \<not> maintenance_is_terminal s"
  by (cases s) (simp_all add: is_open_def maintenance_is_terminal_def)

lemma same_terms_refl [simp]: "same_terms r r"
  by (simp add: same_terms_def)

lemma same_terms_trans: "same_terms r1 r2 \<Longrightarrow> same_terms r2 r3 \<Longrightarrow> same_terms r1 r3"
  by (simp add: same_terms_def)

lemma closes_refl [simp]: "closes r r"
  by (simp add: closes_def)

lemma closes_trans: "closes r1 r2 \<Longrightarrow> closes r2 r3 \<Longrightarrow> closes r1 r3"
  unfolding closes_def status_split using same_terms_trans by (auto simp: maintenance_is_terminal_def)

lemma request_moves_refl [simp]: "moves_by c r r"
  by (simp add: moves_by_def)

lemma may_move_open: "may_move c r r' \<Longrightarrow> is_open (mr_status r)"
  by (cases c) (auto simp: is_open_def)

lemma moves_closes: "moves_by c r1 r2 \<Longrightarrow> closes r2 r3 \<Longrightarrow> moves_by c r1 r3"
  unfolding moves_by_def closes_def status_split
  using may_move_open[of c r1 r2] same_terms_trans[of r1 r2 r3]
  by (auto simp: maintenance_is_terminal_def is_open_def)

lemma closes_moves: "closes r r' \<Longrightarrow> moves_by c r r'"
  by (simp add: moves_by_def)

lemma request_moves_stamp [simp]:
  "ledger_moves R l (l'\<lparr>ml_updated_at := at\<rparr>) \<longleftrightarrow> ledger_moves R l l'"
  "ledger_moves R (l\<lparr>ml_updated_at := at\<rparr>) l' \<longleftrightarrow> ledger_moves R l l'"
  by (simp_all add: ledger_moves_def)

lemma ledger_moves_refl:
  assumes "\<And>r. R r r"
  shows "ledger_moves R l l"
  using assms by (auto simp: ledger_moves_def)

lemma ledger_moves_update:
  assumes "om_get (ml_requests l) rid = Some r" "R r r'" "\<And>r. R r r"
  shows "ledger_moves R l (update_request rid r' l)"
  using assms by (auto simp: ledger_moves_def update_request_def store_simps)

lemma ledger_moves_add:
  assumes "om_get (ml_requests l) (mr_id n) = None" "mr_status n = MQueued" "\<And>r. R r r"
  shows "ledger_moves R l (maintenance_add n l)"
  using assms by (auto simp: ledger_moves_def maintenance_add_def maintenance_put_def store_simps split: if_splits)

lemma ledger_moves_mono:
  assumes "ledger_moves R l l'" "\<And>r r'. R r r' \<Longrightarrow> S r r'"
  shows "ledger_moves S l l'"
  using assms unfolding ledger_moves_def by meson

lemma ledger_moves_closes:
  assumes "ledger_moves R l1 l2" "ledger_moves closes l2 l3"
    and "\<And>r1 r2 r3. R r1 r2 \<Longrightarrow> closes r2 r3 \<Longrightarrow> R r1 r3"
  shows "ledger_moves R l1 l3"
  unfolding ledger_moves_def
proof (intro conjI allI impI)
  show "\<exists>new. ml_request_order l3 = ml_request_order l1 @ new"
    using assms(1,2) by (auto simp: ledger_moves_def)
next
  fix rid r assume "om_get (ml_requests l1) rid = Some r"
  then obtain r2 where "om_get (ml_requests l2) rid = Some r2" "R r r2"
    using assms(1) unfolding ledger_moves_def by blast
  moreover from this(1) obtain r3 where "om_get (ml_requests l3) rid = Some r3" "closes r2 r3"
    using assms(2) unfolding ledger_moves_def by blast
  ultimately show "\<exists>r'. om_get (ml_requests l3) rid = Some r' \<and> R r r'" using assms(3) by blast
next
  fix rid r3 assume new: "om_get (ml_requests l1) rid = None \<and> om_get (ml_requests l3) rid = Some r3"
  show "mr_status r3 \<in> {MQueued, MFailed, MSkipped}"
  proof (cases "om_get (ml_requests l2) rid")
    case None
    then show ?thesis using new assms(2) unfolding ledger_moves_def by blast
  next
    case (Some r2)
    then have "mr_status r2 \<in> {MQueued, MFailed, MSkipped}"
      using new assms(1) unfolding ledger_moves_def by blast
    moreover have "closes r2 r3" using Some new assms(2) unfolding ledger_moves_def by fastforce
    ultimately show ?thesis by (auto simp: closes_def)
  qed
qed

lemma closes_after: "ledger_moves closes l1 l2 \<Longrightarrow> ledger_moves closes l2 l3 \<Longrightarrow> ledger_moves closes l1 l3"
  using ledger_moves_closes[of closes l1 l2 l3] closes_trans by blast

lemma moves_after:
  "ledger_moves (moves_by c) l1 l2 \<Longrightarrow> ledger_moves closes l2 l3 \<Longrightarrow> ledger_moves (moves_by c) l1 l3"
  using ledger_moves_closes[of "moves_by c" l1 l2 l3] moves_closes by blast

section \<open>Every operation keeps the ledger\<close>

definition op_good ::
  "company_context \<Rightarrow> (maintenance_request \<Rightarrow> maintenance_request \<Rightarrow> bool) \<Rightarrow> maintenance_ledger
     \<Rightarrow> maintenance_ledger \<Rightarrow> bool" where
  "op_good ctx R l l' \<longleftrightarrow> maintenance_ok ctx l' \<and> ledger_moves R l l'"

lemma op_good_same: "maintenance_ok ctx l \<Longrightarrow> (\<And>r. R r r) \<Longrightarrow> op_good ctx R l l"
  by (simp add: op_good_def ledger_moves_refl)

lemma op_good_update:
  assumes "maintenance_ok ctx l" "om_get (ml_requests l) rid = Some r" "request_ok rid r'" "R r r'" "\<And>r. R r r"
  shows "op_good ctx R l (update_request rid r' l)" "op_good ctx R l ((update_request rid r' l)\<lparr>ml_updated_at := at\<rparr>)"
  using ok_update[OF assms(1-3)] ledger_moves_update[of l rid r R r', OF assms(2,4,5)] by (simp_all add: op_good_def)

lemma claim_validated_iff:
  "claim_validated c = Inr u \<longleftrightarrow> 1 \<le> cl_process_id c \<and> trim (cl_session_id c) \<noteq> [] \<and> trim (cl_claim_token c) \<noteq> []"
  by (auto simp: claim_validated_def)

lemma bounded_iff: "bounded v label k = Inr t \<longleftrightarrow> t = trim v \<and> trim v \<noteq> [] \<and> char_count (trim v) \<le> k"
  by (auto simp: bounded_def Let_def)

lemma request_mut_iff: "request_mut l rid = Inr r \<longleftrightarrow> om_get (ml_requests l) rid = Some r"
  by (auto simp: request_mut_def split: option.splits)

lemma assert_owns_iff: "assert_owns identity r = Inr u \<longleftrightarrow> mr_person_id r = identity"
  by (auto simp: assert_owns_def)

lemma some_shapes [simp]:
  "nonblank (Some t) \<longleftrightarrow> trim t \<noteq> []" "nonblank None" "positive_pid (Some p) \<longleftrightarrow> 1 \<le> p" "positive_pid None"
  by (simp_all add: nonblank_def positive_pid_def)

lemma find_SomeE:
  assumes "find P xs = Some x"
  shows "x \<in> set xs" "P x"
  using assms by (induction xs) (auto split: if_splits)

lemma defer_good:
  assumes "maintenance_ok ctx l" "defer_maintenance rid claim identity at l = Inr (l', r')"
  shows "op_good ctx (moves_by (Defer rid claim identity)) l l'"
proof -
  obtain r where r: "om_get (ml_requests l) rid = Some r" "mr_person_id r = identity"
    using assms(2) by (auto simp: defer_maintenance_def res_bind_Inr_iff request_mut_iff assert_owns_iff)
  have ok: "request_ok rid r" by (rule ok_request[OF assms(1) r(1)])
  consider "l' = l" | "mr_status r = MRunning" "claim_owns claim r"
    "l' = (update_request rid (r\<lparr>mr_status := MQueued, mr_started_at := None, mr_claimed_process_id := None,
       mr_claimed_session_id := None, mr_claim_token := None, mr_compact_session_id := None,
       mr_compact_anchor_entry_id := None\<rparr>) l)\<lparr>ml_updated_at := at\<rparr>"
    using assms(2) r
    by (auto simp: defer_maintenance_def res_bind_Inr_iff request_mut_iff assert_owns_iff Let_def split: if_splits)
  then show ?thesis
  proof cases
    case 1
    then show ?thesis using assms(1) by (simp add: op_good_same)
  next
    case 2
    show ?thesis unfolding 2(3)
      using ok 2 r
      by (intro op_good_update[OF assms(1) r(1)])
        (auto simp: request_shapes moves_by_def same_terms_def maintenance_is_terminal_def)
  qed
qed

lemma interrupt_good:
  assumes "maintenance_ok ctx l" "parse_iso_millis at \<noteq> None" "record_interrupt rid claim identity at l = Inr (l', r')"
  shows "op_good ctx (moves_by (Interrupt rid claim identity)) l l'"
proof -
  obtain r where r: "om_get (ml_requests l) rid = Some r" "mr_person_id r = identity"
    using assms(3) by (auto simp: record_interrupt_def res_bind_Inr_iff request_mut_iff assert_owns_iff)
  have ok: "request_ok rid r" by (rule ok_request[OF assms(1) r(1)])
  consider "l' = l" | "mr_status r = MQueued" "mr_force r = Some True" "claim_validated claim = Inr ()"
    "l' = (update_request rid (r\<lparr>mr_interrupted_process_id := Some (cl_process_id claim),
       mr_interrupted_session_id := Some (trim (cl_session_id claim)),
       mr_interrupted_claim_token := Some (trim (cl_claim_token claim)),
       mr_interrupted_at := Some at\<rparr>) l)\<lparr>ml_updated_at := at\<rparr>"
    using assms(3) r
    by (auto simp: record_interrupt_def res_bind_Inr_iff request_mut_iff assert_owns_iff Let_def split: if_splits)
  then show ?thesis
  proof cases
    case 1
    then show ?thesis using assms(1) by (simp add: op_good_same)
  next
    case 2
    show ?thesis unfolding 2(4)
      using ok 2 r assms(2)
      by (intro op_good_update[OF assms(1) r(1)])
        (auto simp: request_shapes moves_by_def same_terms_def maintenance_is_terminal_def claim_validated_iff)
  qed
qed

lemma anchored_ok:
  assumes "anchored a r = Inr r'" "request_ok rid r" "mr_status r = MRunning"
  shows "request_ok rid r' \<and> mr_status r' = MRunning \<and> same_terms r r'"
proof (cases a)
  case None
  then show ?thesis using assms by (simp add: anchored_def)
next
  case (Some x)
  then obtain s e where r': "r' = r\<lparr>mr_compact_session_id := Some s, mr_compact_anchor_entry_id := Some e\<rparr>"
    "trim s \<noteq> []" "trim e \<noteq> []"
    using assms(1) by (auto simp: anchored_def res_bind_Inr_iff bounded_iff)
  show ?thesis using assms(2,3) r'(2,3) unfolding r'(1) by (simp add: request_shapes same_terms_def)
qed

lemma start_good:
  assumes "maintenance_ok ctx l" "start_maintenance identity input at l = Inr (l', answer)"
  shows "op_good ctx (moves_by (Start identity input)) l l'"
proof (cases "l' = l")
  case True
  then show ?thesis using assms(1) by (simp add: op_good_same)
next
  case False
  then obtain selected request claimed where s:
    "find (startable identity input) (ordered_requests l) = Some selected"
    "om_get (ml_requests l) (mr_id selected) = Some request"
    "anchored (si_compact_anchor input) (claimed_by (si_claim input)
      (request\<lparr>mr_status := MRunning, mr_started_at := Some at, mr_retry_not_before := None\<rparr>)) = Inr claimed"
    "l' = (update_request (mr_id selected) claimed l)\<lparr>ml_updated_at := at\<rparr>"
    using assms(2)
    by (auto simp: start_maintenance_def res_bind_Inr_iff update_request_def split: option.splits if_splits)
  have valid: "si_claim input = Some c \<Longrightarrow> claim_validated c = Inr ()" for c
    using assms(2) by (simp add: start_maintenance_def res_bind_Inr_iff)
  have "selected \<in> set (ordered_requests l)" and sel: "startable identity input selected"
    using find_SomeE[OF s(1)] by auto
  then have same: "request = selected" using ok_ordered_iff[OF assms(1)] s(2) by simp
  let ?run = "request\<lparr>mr_status := MRunning, mr_started_at := Some at, mr_retry_not_before := None\<rparr>"
  let ?claimed = "claimed_by (si_claim input) ?run"
  have "request_ok (mr_id selected) request" by (rule ok_request[OF assms(1) s(2)])
  then have "request_ok (mr_id selected) ?claimed" "mr_status ?claimed = MRunning" "same_terms request ?claimed"
    using valid sel same
    by (cases "si_claim input";
        auto simp: claimed_by_def request_shapes same_terms_def claim_validated_iff startable_def
          maintenance_is_terminal_def)+
  from this(3) anchored_ok[OF s(3) this(1,2)] have "request_ok (mr_id selected) claimed" "mr_status claimed = MRunning"
    "same_terms request claimed" using same_terms_trans by blast+
  then show ?thesis unfolding s(4)
    using sel same by (intro op_good_update[OF assms(1) s(2)]) (auto simp: moves_by_def startable_def)
qed

lemma finish_good:
  assumes "maintenance_ok ctx l" "finish_maintenance input identity at l = Inr (l', r')"
  shows "op_good ctx (moves_by (Finish input identity)) l l'"
proof -
  obtain r where r: "om_get (ml_requests l) (fi_id input) = Some r" "mr_person_id r = identity"
    and st: "maintenance_is_terminal (fi_status input)"
    using assms(2)
    by (auto simp: finish_maintenance_def res_bind_Inr_iff request_mut_iff assert_owns_iff split: if_splits)
  have ok: "request_ok (fi_id input) r" by (rule ok_request[OF assms(1) r(1)])
  show ?thesis
  proof (cases "maintenance_is_terminal (mr_status r)")
    case True
    then have "l' = l" using assms(2) r
      by (auto simp: finish_maintenance_def res_bind_Inr_iff request_mut_iff assert_owns_iff
          split: if_splits option.splits)
    then show ?thesis using assms(1) by (simp add: op_good_same)
  next
    case False
    define entered where "entered entry = r\<lparr>mr_completed_compaction_entry_id := entry\<rparr>" for entry
    have old: "mr_completed_compaction_entry_id r = None" "mr_completed_process_id r = None"
      using ok False by (auto simp: request_shapes maintenance_is_terminal_def)
    then have self: "entered None = r" by (simp add: entered_def)
    obtain entry where e: "entry = None \<or> fi_status input = MCompleted" "nonblank entry"
      "l' = (update_request (fi_id input) (let closed = (entered entry)\<lparr>mr_status := fi_status input, mr_completed_at := Some at\<rparr>
         in case fi_error input of None \<Rightarrow> closed
            | Some e \<Rightarrow> if trim e = [] then closed else closed\<lparr>mr_error := Some (bounded_error (trim e))\<rparr>) l)
        \<lparr>ml_updated_at := at\<rparr>"
    proof (cases "fi_status input = MCompleted \<and> mr_compact_anchor_entry_id r \<noteq> None")
      case True
      then obtain t where "trim t \<noteq> []"
        "l' = (update_request (fi_id input) (let closed = (entered (Some (trim t)))\<lparr>mr_status := fi_status input, mr_completed_at := Some at\<rparr>
         in case fi_error input of None \<Rightarrow> closed
            | Some e \<Rightarrow> if trim e = [] then closed else closed\<lparr>mr_error := Some (bounded_error (trim e))\<rparr>) l)
        \<lparr>ml_updated_at := at\<rparr>"
        using assms(2) r False st compact_only[of r]
        by (auto simp: finish_maintenance_def res_bind_Inr_iff request_mut_iff assert_owns_iff bounded_iff Let_def
            entered_def)
      then show thesis using True by (intro that[of "Some (trim t)"]) auto
    next
      case no: False
      then have "l' = (update_request (fi_id input) (let closed = (entered None)\<lparr>mr_status := fi_status input, mr_completed_at := Some at\<rparr>
         in case fi_error input of None \<Rightarrow> closed
            | Some e \<Rightarrow> if trim e = [] then closed else closed\<lparr>mr_error := Some (bounded_error (trim e))\<rparr>) l)
        \<lparr>ml_updated_at := at\<rparr>"
        using assms(2) r False st compact_only[of r] unfolding self
        by (auto simp: finish_maintenance_def res_bind_Inr_iff request_mut_iff assert_owns_iff Let_def
            split: if_splits)
      then show thesis by (intro that[of None]) auto
    qed
    have short: "char_count (bounded_error t) \<le> 600" for t
      by (simp add: bounded_error_def char_count_take_chars)
    show ?thesis unfolding e(3)
      using ok False st e(1,2) r old short
      by (intro op_good_update[OF assms(1) r(1)])
        (auto simp: request_shapes moves_by_def same_terms_def entered_def Let_def status_split split: option.splits)
  qed
qed

lemma error_texts_short:
  "char_count SESSION_MAINTENANCE_PROCESS_INTERRUPTION_ERROR \<le> 600"
  "char_count SESSION_MAINTENANCE_TARGET_PARKED_ERROR \<le> 600" "char_count PERSON_LEFT_ERROR \<le> 600"
  by (rule order_trans[OF char_count_le_length];
      simp add: SESSION_MAINTENANCE_PROCESS_INTERRUPTION_ERROR_def SESSION_MAINTENANCE_TARGET_PARKED_ERROR_def
        PERSON_LEFT_ERROR_def)+

lemma skip_ok:
  assumes "request_ok rid r" "char_count e \<le> 600" "is_open (mr_status r)"
  shows "request_ok rid (skip_request at e r) \<and> closes r (skip_request at e r)"
proof -
  have "mr_status r \<noteq> MCompleted" using assms(3) by (auto simp: is_open_def)
  then have old: "mr_completed_process_id r = None" "mr_completed_compaction_entry_id r = None"
    using assms(1) by (auto simp: request_shapes)
  show ?thesis
    using assms old by (simp add: request_shapes skip_request_def closes_def same_terms_def)
qed

lemma skip_fold:
  assumes "distinct ids"
  shows "om_get (foldl (\<lambda>m rid. om_adjust rid (skip_request at e) m) m ids) k =
     (if k \<in> set ids then map_option (skip_request at e) (om_get m k) else om_get m k)"
  using assms by (induction ids arbitrary: m) (auto simp: store_simps)

lemma wf_fold: "om_wf m \<Longrightarrow> om_wf (foldl (\<lambda>m rid. om_adjust rid f m) m ids)"
  by (induction ids arbitrary: m) (auto simp: om_wf_adjust)

lemma skip_all_good:
  assumes ok: "maintenance_ok ctx l" and e: "char_count e \<le> 600"
    and op: "\<And>r. P r \<Longrightarrow> is_open (mr_status r)"
  shows "op_good ctx closes l (skip_all at e (map mr_id (filter P (ordered_requests l))) l)"
proof (cases "filter P (ordered_requests l) = []")
  case True
  then show ?thesis using ok by (simp add: skip_all_def op_good_same)
next
  case False
  let ?ids = "map mr_id (filter P (ordered_requests l))"
  let ?l = "skip_all at e ?ids l"
  have d: "distinct ?ids"
    by (rule distinct_map_filter) (use ok in \<open>simp add: ordered_ids[OF ok] maintenance_ok_iff\<close>)
  have get: "om_get (ml_requests ?l) k = (if k \<in> set ?ids then map_option (skip_request at e) (om_get (ml_requests l) k)
      else om_get (ml_requests l) k)" for k
    using False skip_fold[OF d, of at e "ml_requests l" k] by (simp add: skip_all_def)
  have one: "request_ok k r' \<and> closes r r'" if "om_get (ml_requests l) k = Some r" "om_get (ml_requests ?l) k = Some r'" for k r r'
  proof (cases "k \<in> set ?ids")
    case True
    then obtain x where "x \<in> set (ordered_requests l)" "P x" "mr_id x = k" by auto
    then have "P r" using ok_ordered_iff[OF ok] that(1) by simp
    moreover have "r' = skip_request at e r" using that get[of k] True by simp
    ultimately show ?thesis using skip_ok[OF ok_request[OF ok that(1)] e op] by blast
  next
    case False
    then show ?thesis using that get[of k] ok_request[OF ok that(1)] by simp
  qed
  have same: "om_get (ml_requests ?l) k = None \<longleftrightarrow> om_get (ml_requests l) k = None" for k by (simp add: get)
  have keys: "set (om_keys (ml_requests ?l)) = set (om_keys (ml_requests l))"
    by (auto simp: om_keys_iff same simp del: not_None_eq)
  have frame: "ml_request_order ?l = ml_request_order l" "ml_schema_version ?l = ml_schema_version l"
    "ml_organization ?l = ml_organization l" by (simp_all add: skip_all_def)
  have "om_wf (ml_requests ?l)" using ok wf_fold[of "ml_requests l" "skip_request at e" ?ids] by (simp add: skip_all_def maintenance_ok_iff)
  moreover have "request_ok k r'" if "om_get (ml_requests ?l) k = Some r'" for k r'
    using one[of k] that same[of k] by (cases "om_get (ml_requests l) k") auto
  ultimately have "maintenance_ok ctx ?l" using ok unfolding maintenance_ok_iff frame keys by blast
  moreover have "ledger_moves closes l ?l"
    unfolding ledger_moves_def frame
  proof (intro conjI allI impI)
    fix rid r assume r: "om_get (ml_requests l) rid = Some r"
    then obtain r' where "om_get (ml_requests ?l) rid = Some r'" using same[of rid] by auto
    then show "\<exists>r'. om_get (ml_requests ?l) rid = Some r' \<and> closes r r'" using one r by blast
  next
    fix rid r' assume "om_get (ml_requests l) rid = None \<and> om_get (ml_requests ?l) rid = Some r'"
    then have False using same[of rid] by simp
    then show "mr_status r' \<in> {MQueued, MFailed, MSkipped}" ..
  qed simp
  ultimately show ?thesis by (simp add: op_good_def)
qed

end
