(* ===== verification/Maintenance_Recovery.thy ===== *)
theory Maintenance_Recovery
  imports Maintenance_Contract
begin

text \<open>
  What a crash recovery does to the maintenance ledger, what queueing does, and the properties of the whole
  command set: validity and the state machine over any history, exclusive claims, recovery, idempotence.
\<close>

section \<open>Recovery\<close>

definition attempt_of :: "maintenance_request \<Rightarrow> nat" where
  "attempt_of r = (case mr_attempt r of None \<Rightarrow> 1 | Some a \<Rightarrow> a)"

definition retried :: "maintenance_request \<Rightarrow> bool" where
  "retried r \<longleftrightarrow> attempt_of r < SESSION_MAINTENANCE_MAX_ATTEMPTS"

definition replacement_of :: "string \<Rightarrow> string \<Rightarrow> maintenance_request \<Rightarrow> maintenance_request" where
  "replacement_of at rid r = (fresh_request rid (mr_action r) (mr_person_id r) (mr_requested_by r) (mr_reason r)
     (mr_automatic r) (attempt_of r + 1) None at)\<lparr>mr_recovered_from_request_id := Some (mr_id r)\<rparr>"

lemma digits_colon:
  assumes "list_all is_ascii_digit a" "list_all is_ascii_digit b" "a @ CHR '':'' # x = b @ CHR '':'' # y"
  shows "a = b"
proof -
  have "takeWhile is_ascii_digit (d @ CHR '':'' # z) = d" if "list_all is_ascii_digit d" for d z
    using that by (induction d) (auto simp: is_ascii_digit_def byte_def)
  then show ?thesis using assms by metis
qed

lemma numbered_id_unique: "numbered_id (''session-maintenance:'' @ show_nat k @ '':'' @ rest) n \<Longrightarrow> n = k"
proof -
  assume "numbered_id (''session-maintenance:'' @ show_nat k @ '':'' @ rest) n"
  then obtain x where "show_nat k @ CHR '':'' # rest = show_nat n @ CHR '':'' # x" by (auto simp: numbered_id_def)
  from digits_colon[OF show_nat_digits show_nat_digits this] show "n = k" by (simp add: show_nat_inj)
qed

lemma replacement_fresh:
  assumes ok: "maintenance_ok ctx l" and len: "length (ml_request_order l') = length (ml_request_order l)"
  shows "om_get (ml_requests l) (replacement_id l' pid act) = None"
    "id_below (Suc (length (ml_request_order l))) (replacement_id l' pid act)"
proof -
  let ?n = "Suc (length (ml_request_order l))"
  have shape: "replacement_id l' pid act = ''session-maintenance:'' @ show_nat ?n @ '':'' @ (pid @ '':'' @ maintenance_action_as_str act)"
    by (simp add: replacement_id_def len)
  then have num: "numbered_id (replacement_id l' pid act) ?n" unfolding numbered_id_def by blast
  show "om_get (ml_requests l) (replacement_id l' pid act) = None"
  proof (rule ccontr)
    assume "om_get (ml_requests l) (replacement_id l' pid act) \<noteq> None"
    then have "replacement_id l' pid act \<in> set (ml_request_order l)" using ok by (simp add: maintenance_ok_iff om_keys_iff)
    then have "id_below (length (ml_request_order l)) (replacement_id l' pid act)" using ok by (simp add: maintenance_ok_iff)
    then show False using num by (fastforce simp: id_below_def)
  qed
  show "id_below ?n (replacement_id l' pid act)"
    unfolding id_below_def shape using numbered_id_unique by fastforce
qed

lemma interrupted_ok:
  assumes "request_ok rid r" "mr_status r = MRunning" "parse_iso_millis at \<noteq> None"
  shows "request_ok rid (interrupted_request at r) \<and> closes r (interrupted_request at r)"
  using assms error_texts_short(1)
  by (auto simp: request_shapes interrupted_request_def closes_def same_terms_def is_open_def)

lemma recover_one_eq:
  assumes "maintenance_ok ctx (fst s)" "om_get (ml_requests (fst s)) (mr_id r) = Some r" "mr_person_id r = identity"
  shows "recover_one identity at s (mr_id r) =
    (let l = update_request (mr_id r) (interrupted_request at r) (fst s);
         n = replacement_of at (replacement_id l identity (mr_action r)) r
     in Inr (if retried r then maintenance_add n l else l,
          \<lparr>rm_interrupted = rm_interrupted (snd s) @ [interrupted_request at r],
           rm_replacements = rm_replacements (snd s) @ (if retried r then [n] else [])\<rparr>))"
proof -
  have ok: "request_ok (mr_id r) r" by (rule ok_request[OF assms(1,2)])
  then have company: "\<not> is_company_request (interrupted_request at r)" "mr_company_action_id r = None"
    by (auto simp: request_shapes is_company_request_def interrupted_request_def)
  have kept: "mr_attempt (interrupted_request at r) = mr_attempt r" "mr_action (interrupted_request at r) = mr_action r"
    "mr_requested_by (interrupted_request at r) = mr_requested_by r" "mr_reason (interrupted_request at r) = mr_reason r"
    "mr_automatic (interrupted_request at r) = mr_automatic r"
    "mr_company_action_id (interrupted_request at r) = mr_company_action_id r"
    "attempt_of (interrupted_request at r) = attempt_of r"
    by (simp_all add: interrupted_request_def attempt_of_def)
  have small: "attempt_of r \<le> SESSION_MAINTENANCE_MAX_ATTEMPTS"
    using ok by (auto simp: request_shapes attempt_of_def SESSION_MAINTENANCE_MAX_ATTEMPTS_def split: option.splits)
  then have "\<not> u32_max \<le> attempt_of r" by (simp add: u32_max_def SESSION_MAINTENANCE_MAX_ATTEMPTS_def)
  then show ?thesis
    unfolding recover_one_def request_mut_def assms(2) attempt_of_def[symmetric]
    using company assms(3)
    by (cases "retried r")
      (simp_all add: Let_def kept retried_def replacement_of_def fresh_request_def not_le attempt_of_def[symmetric])
qed

text \<open>What recovering the requests \<open>rs\<close> does to a ledger and to the rest of it.\<close>

definition recovers ::
  "string \<Rightarrow> maintenance_request list \<Rightarrow> maintenance_ledger \<Rightarrow> maintenance_ledger \<Rightarrow> maintenance_request list \<Rightarrow> bool" where
  "recovers at rs l l' reps \<longleftrightarrow>
     (\<forall>r \<in> set rs. om_get (ml_requests l') (mr_id r) = Some (interrupted_request at r))
     \<and> (\<forall>k. om_get (ml_requests l) k \<noteq> None \<and> k \<notin> mr_id ` set rs
          \<longrightarrow> om_get (ml_requests l') k = om_get (ml_requests l) k)
     \<and> list_all2 (\<lambda>r n. n = replacement_of at (mr_id n) r) (filter retried rs) reps
     \<and> ml_request_order l' = ml_request_order l @ map mr_id reps
     \<and> (\<forall>n \<in> set reps. om_get (ml_requests l') (mr_id n) = Some n)
     \<and> (\<forall>k r'. om_get (ml_requests l) k = None \<and> om_get (ml_requests l') k = Some r' \<longrightarrow> r' \<in> set reps)"

lemma recover_fold:
  assumes "maintenance_ok ctx (fst s)" "parse_iso_millis at \<noteq> None" "distinct (map mr_id rs)"
    and "\<And>r. r \<in> set rs \<Longrightarrow> om_get (ml_requests (fst s)) (mr_id r) = Some r \<and> mr_status r = MRunning
           \<and> mr_person_id r = identity"
  shows "\<exists>l' reps. res_fold (recover_one identity at) s (map mr_id rs) = Inr (l',
      \<lparr>rm_interrupted = rm_interrupted (snd s) @ map (interrupted_request at) rs,
       rm_replacements = rm_replacements (snd s) @ reps\<rparr>)
    \<and> op_good ctx closes (fst s) l' \<and> recovers at rs (fst s) l' reps"
  using assms
proof (induction rs arbitrary: s)
  case Nil
  then show ?case
    by (intro exI[of _ "fst s"] exI[of _ "[]"]) (cases s; auto simp: op_good_same recovers_def)
next
  case (Cons r rs)
  let ?l = "fst s"
  let ?l1 = "update_request (mr_id r) (interrupted_request at r) ?l"
  let ?n = "replacement_of at (replacement_id ?l1 identity (mr_action r)) r"
  let ?l2 = "if retried r then maintenance_add ?n ?l1 else ?l1"
  let ?new = "if retried r then [?n] else []"
  have r: "om_get (ml_requests ?l) (mr_id r) = Some r" "mr_status r = MRunning" "mr_person_id r = identity"
    using Cons.prems(4)[of r] by auto
  have rok: "request_ok (mr_id r) r" by (rule ok_request[OF Cons.prems(1) r(1)])
  note int = interrupted_ok[OF rok r(2) Cons.prems(2)]
  have ok1: "maintenance_ok ctx ?l1" using ok_update[OF Cons.prems(1) r(1)] int by blast
  have mv1: "ledger_moves closes ?l ?l1" using ledger_moves_update[OF r(1)] int by simp
  have len: "length (ml_request_order ?l1) = length (ml_request_order ?l)" by (simp add: update_request_def)
  have nid: "mr_id ?n = replacement_id ?l1 identity (mr_action r)" "mr_status ?n = MQueued"
    by (simp_all add: replacement_of_def fresh_request_def)
  have fresh: "om_get (ml_requests ?l1) (mr_id ?n) = None" "id_below (Suc (length (ml_request_order ?l1))) (mr_id ?n)"
    unfolding nid(1) by (rule replacement_fresh[OF ok1 refl])+
  then have fresh0: "om_get (ml_requests ?l) (mr_id ?n) = None"
    by (auto simp: update_request_def store_simps split: if_splits)
  have idr: "mr_id r \<noteq> []" using Cons.prems(1) r(1) by (auto simp: maintenance_ok_iff om_keys_iff id_below_def)
  have nok: "request_ok (mr_id ?n) ?n" if "retried r"
    using rok that Cons.prems(2) idr
    by (auto simp: request_shapes replacement_of_def fresh_request_def retried_def maintenance_is_terminal_def)
  have ok2: "maintenance_ok ctx ?l2" using ok_add[OF ok1 fresh(1) nok fresh(2)] ok1 by simp
  have mv2: "ledger_moves closes ?l1 ?l2"
    using ledger_moves_add[OF fresh(1) nid(2), of closes] by (simp add: ledger_moves_refl)
  have mv12: "ledger_moves closes ?l ?l2" by (rule closes_after[OF mv1 mv2])
  have get: "om_get (ml_requests ?l2) k = (if retried r \<and> k = mr_id ?n then Some ?n
      else if k = mr_id r then Some (interrupted_request at r) else om_get (ml_requests ?l) k)" for k
    by (simp add: maintenance_add_def maintenance_put_def update_request_def store_simps)
  have order: "ml_request_order ?l2 = ml_request_order ?l @ map mr_id ?new"
    by (simp add: maintenance_add_def maintenance_put_def update_request_def)
  have ne: "mr_id r \<noteq> mr_id ?n" using fresh0 r(1) by auto
  let ?s2 = "(?l2, \<lparr>rm_interrupted = rm_interrupted (snd s) @ [interrupted_request at r],
      rm_replacements = rm_replacements (snd s) @ ?new\<rparr>)"
  have step: "recover_one identity at s (mr_id r) = Inr ?s2"
    unfolding recover_one_eq[OF Cons.prems(1) r(1,3)] by (simp add: Let_def)
  have rest: "om_get (ml_requests (fst ?s2)) (mr_id x) = Some x \<and> mr_status x = MRunning \<and> mr_person_id x = identity"
    if "x \<in> set rs" for x
  proof -
    have x: "om_get (ml_requests ?l) (mr_id x) = Some x" "mr_status x = MRunning" "mr_person_id x = identity"
      using Cons.prems(4)[of x] that by auto
    have "mr_id r \<notin> mr_id ` set rs" using Cons.prems(3) by simp
    then have "mr_id x \<noteq> mr_id r" using imageI[OF that, of mr_id] by metis
    moreover have "mr_id x \<noteq> mr_id ?n" using x(1) fresh0 by auto
    ultimately show ?thesis using x get[of "mr_id x"] by simp
  qed
  have ok2': "maintenance_ok ctx (fst ?s2)" using ok2 by (simp only: fst_conv)
  obtain l' reps where IH: "res_fold (recover_one identity at) ?s2 (map mr_id rs) = Inr (l',
      \<lparr>rm_interrupted = rm_interrupted (snd ?s2) @ map (interrupted_request at) rs,
       rm_replacements = rm_replacements (snd ?s2) @ reps\<rparr>)"
    "op_good ctx closes (fst ?s2) l'" "recovers at rs (fst ?s2) l' reps"
    using Cons.IH[OF ok2' Cons.prems(2) _ rest] Cons.prems(3) by auto
  have "res_fold (recover_one identity at) s (map mr_id (r # rs)) = Inr (l',
      \<lparr>rm_interrupted = rm_interrupted (snd s) @ map (interrupted_request at) (r # rs),
       rm_replacements = rm_replacements (snd s) @ (?new @ reps)\<rparr>)"
    using IH(1) by (simp add: step del: if_split)
  moreover have "op_good ctx closes ?l l'"
    using IH(2) closes_after[OF mv12, of l'] by (simp add: op_good_def)
  moreover have "recovers at (r # rs) ?l l' (?new @ reps)"
  proof -
    note R = IH(3)[unfolded recovers_def fst_conv]
    have kept: "om_get (ml_requests l') k = om_get (ml_requests ?l2) k"
      if "om_get (ml_requests ?l2) k \<noteq> None" "k \<notin> mr_id ` set rs" for k using R that by blast
    have "mr_id r \<notin> mr_id ` set rs" using Cons.prems(3) by simp
    then have a: "om_get (ml_requests l') (mr_id r) = Some (interrupted_request at r)"
      using kept[of "mr_id r"] get[of "mr_id r"] ne by simp
    have notin: "mr_id ?n \<notin> mr_id ` set rs" using Cons.prems(4) fresh0 by fastforce
    have b: "om_get (ml_requests l') (mr_id n) = Some n" if "n \<in> set ?new" for n
      using that kept[OF _ notin] get[of "mr_id ?n"] by (simp split: if_splits)
    have c: "om_get (ml_requests l') k = om_get (ml_requests ?l) k"
      if "om_get (ml_requests ?l) k \<noteq> None" "k \<notin> mr_id ` set (r # rs)" for k
    proof -
      have "k \<noteq> mr_id ?n" using that(1) fresh0 by auto
      then have "om_get (ml_requests ?l2) k = om_get (ml_requests ?l) k" using that(2) get[of k] by simp
      then show ?thesis using kept[of k] that by simp
    qed
    have d: "r' \<in> set (?new @ reps)" if "om_get (ml_requests ?l) k = None" "om_get (ml_requests l') k = Some r'" for k r'
    proof (cases "om_get (ml_requests ?l2) k")
      case None
      then show ?thesis using R that(2) by auto
    next
      case (Some x)
      then have x: "retried r" "k = mr_id ?n" "x = ?n" using get[of k] that(1) r(1) by (auto split: if_splits)
      then have "om_get (ml_requests l') k = Some ?n" using kept[of k] notin Some by simp
      then show ?thesis using that(2) x(1) by simp
    qed
    have e: "list_all2 (\<lambda>r n. n = replacement_of at (mr_id n) r) (filter retried (r # rs)) (?new @ reps)"
      using R nid(1) by simp
    have f: "ml_request_order l' = ml_request_order ?l @ map mr_id (?new @ reps)" using R order by simp
    show ?thesis unfolding recovers_def using a b c d e f R by auto
  qed
  ultimately show ?case by blast
qed

lemma recover_interrupted_works:
  assumes "maintenance_ok ctx l" "parse_iso_millis at \<noteq> None" "claim_validated claim = Inr ()"
  shows "\<exists>l' reps. recover_interrupted identity claim at l = Inr (l',
      \<lparr>rm_interrupted = map (interrupted_request at) (filter (recoverable identity claim) (ordered_requests l)),
       rm_replacements = reps\<rparr>)
    \<and> op_good ctx closes l l'
    \<and> recovers at (filter (recoverable identity claim) (ordered_requests l)) l l' reps"
proof -
  let ?rs = "filter (recoverable identity claim) (ordered_requests l)"
  have "distinct (map mr_id ?rs)"
    by (rule distinct_map_filter) (use assms(1) in \<open>simp add: ordered_ids[OF assms(1)] maintenance_ok_iff\<close>)
  moreover have "om_get (ml_requests l) (mr_id r) = Some r \<and> mr_status r = MRunning \<and> mr_person_id r = identity"
    if "r \<in> set ?rs" for r
    using that ok_ordered_iff[OF assms(1), of r] by (auto simp: recoverable_def)
  ultimately obtain l' reps where f: "res_fold (recover_one identity at)
      (l, \<lparr>rm_interrupted = [], rm_replacements = []\<rparr>) (map mr_id ?rs) = Inr (l',
      \<lparr>rm_interrupted = map (interrupted_request at) ?rs, rm_replacements = reps\<rparr>)"
    "op_good ctx closes l l'" "recovers at ?rs l l' reps"
    using recover_fold[of ctx "(l, \<lparr>rm_interrupted = [], rm_replacements = []\<rparr>)" at ?rs identity] assms(1,2)
    by auto
  let ?l = "if ?rs \<noteq> [] then l'\<lparr>ml_updated_at := at\<rparr> else l'"
  have "recover_interrupted identity claim at l = Inr (?l,
      \<lparr>rm_interrupted = map (interrupted_request at) ?rs, rm_replacements = reps\<rparr>)"
    using f(1) assms(3) by (simp add: recover_interrupted_def)
  moreover have "op_good ctx closes l ?l" using f(2) by (simp add: op_good_def)
  moreover have "recovers at ?rs l ?l reps" using f(3) by (simp add: recovers_def)
  ultimately show ?thesis by blast
qed

lemma recover_good:
  assumes "maintenance_ok ctx l" "parse_iso_millis at \<noteq> None" "recover_interrupted identity claim at l = Inr (l', report)"
  shows "op_good ctx closes l l'"
proof -
  have "claim_validated claim = Inr ()" using assms(3) by (simp add: recover_interrupted_def res_bind_Inr_iff)
  from recover_interrupted_works[OF assms(1,2) this, of identity] assms(3) show ?thesis by auto
qed

lemma op_good_trans:
  assumes "op_good ctx closes l1 l2" "op_good ctx closes l2 l3"
  shows "op_good ctx closes l1 l3"
  using assms closes_after[of l1 l2 l3] by (simp add: op_good_def)

lemma recover_dead_good:
  assumes "maintenance_ok ctx l" "parse_iso_millis at \<noteq> None" "recover_dead_claims dead at l = Inr (l', report)"
  shows "op_good ctx closes l l'"
proof -
  have "op_good ctx closes l (fst s')"
    if "res_fold (recover_dead_claim at) s dead = Inr s'" "op_good ctx closes l (fst s)" for s s'
    using that(1)
  proof (rule res_fold_inv[where P = "\<lambda>s. op_good ctx closes l (fst s)"])
    fix s d s' assume P: "op_good ctx closes l (fst s)" and step: "recover_dead_claim at s d = Inr s'"
    show "op_good ctx closes l (fst s')"
    proof (cases "fst s' = fst s")
      case False
      then obtain identity claim report where "recover_interrupted identity claim at (fst s) = Inr (fst s', report)"
        using step by (auto simp: recover_dead_claim_def res_bind_Inr_iff split: option.splits if_splits)
      with P assms(2) have "op_good ctx closes (fst s) (fst s')"
        using recover_good[of ctx "fst s" at identity claim "fst s'" report] by (simp add: op_good_def)
      then show ?thesis by (rule op_good_trans[OF P])
    qed (use P in simp)
  qed (rule that(2))
  from this[of "(l, \<lparr>rm_interrupted = [], rm_replacements = []\<rparr>)" "(l', report)"] assms(1,3) show ?thesis
    by (simp add: recover_dead_claims_def op_good_same)
qed

section \<open>Queueing\<close>

lemma family_walk_free:
  "om_get m (snd (family_walk m family newest candidate n)) = None"
  by (induction m family newest candidate n rule: family_walk.induct)
    (subst family_walk.simps, auto simp: om_has_def)

lemma family_walk_names:
  "snd (family_walk m family newest candidate n) = candidate
     \<or> (\<exists>k. snd (family_walk m family newest candidate n) = family_member family k)"
  by (induction m family newest candidate n rule: family_walk.induct)
    (subst family_walk.simps, subst (2) family_walk.simps, auto)

lemma next_id_names:
  "om_get (ml_requests l) (snd (newest_in_family l family)) = None"
  "snd (newest_in_family l family) = family \<or> (\<exists>k. snd (newest_in_family l family) = family_member family k)"
  unfolding newest_in_family_def by (rule family_walk_free, rule family_walk_names)

lemma hex_no_colon: "CHR '':'' \<notin> set (hex_digest bs)"
proof -
  have "hex_char d \<noteq> CHR '':''" if "d < 16" for d
  proof -
    have "byte (hex_char d) = (if d < 10 then 48 + d else 87 + d)" using that by (simp add: hex_char_def byte_char_of)
    moreover have "byte (CHR '':'') = 58" by (simp add: byte_def)
    ultimately show ?thesis using that by (auto split: if_splits)
  qed
  moreover have "byte c div 16 < 16" "byte c mod 16 < 16" for c
  proof -
    have "byte c < 256" by (cases c) (simp add: byte_def)
    then show "byte c div 16 < 16" "byte c mod 16 < 16" by simp_all
  qed
  ultimately have "CHR '':'' \<noteq> hex_char (byte c div 16)" "CHR '':'' \<noteq> hex_char (byte c mod 16)" for c by metis+
  then show ?thesis by (simp add: hex_digest_def)
qed

lemma family_below:
  assumes "rid = request_identity sha pid act force \<or> (\<exists>k. rid = family_member (request_identity sha pid act force) k)"
  shows "id_below n rid"
proof -
  obtain h suffix where rid: "rid = ''session-maintenance:'' @ hex_digest h @ suffix" "CHR '':'' \<notin> set suffix"
  proof -
    have "CHR '':'' \<notin> set (''#'' @ show_nat k)" for k using colon_not_digit[OF show_nat_digits] by simp
    then show thesis using assms that[of _ "[]"] that unfolding request_identity_def family_member_def by auto
  qed
  have "\<not> numbered_id rid k" for k
  proof
    assume "numbered_id rid k"
    then obtain x where "hex_digest h @ suffix = show_nat k @ CHR '':'' # x"
      using rid(1) by (auto simp: numbered_id_def)
    then show False using rid(2) hex_no_colon[of h] by (metis UnE in_set_conv_decomp set_append)
  qed
  then show ?thesis using rid(1) by (simp add: id_below_def)
qed


lemma queue_terms_person: "queue_terms m input = Inr (pid, rb, reason) \<Longrightarrow> pid = trim (qi_person_id input)"
  by (auto simp: queue_terms_def res_bind_Inr_iff bounded_iff split: if_splits)

lemma queue_cases:
  assumes "queue_maintenance sha m input at l = Inr (l', r)"
  obtains (kept) "l' = l"
  | (added) family requested_by reason where
      "family = request_identity sha (mr_person_id r) (qi_action input) (qi_force input = Some True)"
      "l' = (maintenance_add r l)\<lparr>ml_updated_at := at\<rparr>"
      "r = fresh_request (snd (newest_in_family l family)) (qi_action input) (trim (qi_person_id input))
         requested_by reason (qi_automatic input) 1 (qi_force input) at"
      "find (same_request (qi_action input) (trim (qi_person_id input)) (qi_force input = Some True)) (ordered_requests l) = None"
proof -
  let ?p = "trim (qi_person_id input)" and ?f = "qi_force input = Some True"
  obtain pid rb reason where t: "queue_terms m input = Inr (pid, rb, reason)"
    and q: "queue_admitted sha input at l (pid, rb, reason) = (l', r)"
    using assms by (auto simp: queue_maintenance_def res_bind_Inr_iff)
  note pid = queue_terms_person[OF t]
  let ?n = "newest_in_family l (request_identity sha ?p (qi_action input) ?f)"
  show thesis
  proof (cases "find (same_request (qi_action input) ?p ?f) (ordered_requests l)")
    case (Some e)
    then show thesis using q kept by (simp add: queue_admitted_def pid)
  next
    case None
    obtain newest next_id where n: "?n = (newest, next_id)" by fastforce
    have "l' = l \<or> r = fresh_request next_id (qi_action input) ?p rb reason (qi_automatic input) 1 (qi_force input) at
        \<and> l' = (maintenance_add r l)\<lparr>ml_updated_at := at\<rparr>"
      using q unfolding queue_admitted_def pid prod.case Let_def None option.case n
      by (auto split: option.splits if_splits)
    then show thesis using added[OF refl, of rb reason] kept None n by (auto simp: fresh_request_def)
  qed
qed

lemma queue_good:
  assumes ok: "maintenance_ok ctx l" and at: "parse_iso_millis at \<noteq> None"
    and q: "queue_maintenance sha m input at l = Inr (l', r)"
  shows "op_good ctx closes l l'"
  using q
proof (cases rule: queue_cases)
  case kept
  then show ?thesis using ok by (simp add: op_good_same)
next
  case (added family requested_by reason)
  have id: "mr_id r = snd (newest_in_family l family)" "mr_status r = MQueued"
    by (simp_all add: added(3) fresh_request_def)
  have new: "om_get (ml_requests l) (mr_id r) = None" unfolding id by (rule next_id_names)
  have "request_ok (mr_id r) r"
    using at by (simp add: added(3) request_shapes fresh_request_def maintenance_is_terminal_def
      SESSION_MAINTENANCE_MAX_ATTEMPTS_def)
  moreover have "id_below (Suc (length (ml_request_order l))) (mr_id r)"
    unfolding id by (rule family_below) (use next_id_names(2)[of l family] added(1) in blast)
  ultimately have "maintenance_ok ctx (maintenance_add r l)" by (intro ok_add[OF ok new])
  then show ?thesis using ledger_moves_add[OF new id(2), of closes] by (simp add: op_good_def added(2))
qed


section \<open>Commands and histories\<close>

lemma op_good_mono:
  assumes "op_good ctx R l l'" "\<And>r r'. R r r' \<Longrightarrow> S r r'"
  shows "op_good ctx S l l'"
  using assms ledger_moves_mono by (auto simp: op_good_def)

lemma drop_answer_iff: "drop_answer x = Inr (l, u) \<longleftrightarrow> (\<exists>r. x = Inr (l, r))"
  by (cases x) (auto simp: drop_answer_def)

lemma maintenance_command_good:
  assumes "maintenance_ok ctx l" "parse_iso_millis at \<noteq> None" "maintenance_op sha c m at l = Inr (l', u)"
  shows "op_good ctx (moves_by c) l l'"
proof (cases c)
  case (Queue input)
  then obtain r where "queue_maintenance sha m input at l = Inr (l', r)" using assms(3) by (auto simp: drop_answer_iff)
  from queue_good[OF assms(1,2) this] show ?thesis by (rule op_good_mono) (rule closes_moves)
next
  case (Start identity input)
  then show ?thesis using assms start_good by (auto simp: drop_answer_iff)
next
  case (Defer rid claim identity)
  then show ?thesis using assms defer_good by (auto simp: drop_answer_iff)
next
  case (Interrupt rid claim identity)
  then show ?thesis using assms(3) interrupt_good[OF assms(1,2)] by (auto simp: drop_answer_iff)
next
  case (Recover identity claim)
  then obtain r where "recover_interrupted identity claim at l = Inr (l', r)" using assms(3) by (auto simp: drop_answer_iff)
  from recover_good[OF assms(1,2) this] show ?thesis by (rule op_good_mono) (rule closes_moves)
next
  case (Recover_Dead dead)
  then obtain r where "recover_dead_claims dead at l = Inr (l', r)" using assms(3) by (auto simp: drop_answer_iff)
  from recover_dead_good[OF assms(1,2) this] show ?thesis by (rule op_good_mono) (rule closes_moves)
next
  case (Finish input identity)
  then show ?thesis using assms finish_good by (auto simp: drop_answer_iff)
next
  case (Skip_Parked parked)
  then have l': "l' = skip_all at SESSION_MAINTENANCE_TARGET_PARKED_ERROR (map mr_id (filter
      (\<lambda>r. mr_status r = MQueued \<and> is_company_request r \<and> mr_person_id r \<in> set parked) (ordered_requests l))) l"
    using assms(3) by (auto simp: drop_answer_iff skip_parked_company_targets_def Let_def)
  have "op_good ctx closes l l'"
    unfolding l' by (rule skip_all_good[OF assms(1) error_texts_short(2)]) (simp add: is_open_def)
  then show ?thesis by (rule op_good_mono) (rule closes_moves)
qed

lemma reconcile_good:
  assumes "maintenance_ok ctx l"
  shows "op_good ctx closes l (fst (reconcile_maintenance m at l))"
  unfolding reconcile_maintenance_def Let_def fst_conv
  by (rule skip_all_good[OF assms error_texts_short(3)]) (simp add: orphaned_request_def)

type_synonym ('v, 's) maintenance_event =
  "(chiefd_error + 'v organization_manifest) \<times> (chiefd_error + 's) \<times> int \<times> maintenance_command"

definition maintenance_current :: "string \<Rightarrow> maintenance_ledger option \<Rightarrow> maintenance_ledger" where
  "maintenance_current slug stored = (case stored of Some l \<Rightarrow> l | None \<Rightarrow> maintenance_initial slug (iso_millis 0))"

fun maintenance_step ::
  "(string \<Rightarrow> string) \<Rightarrow> string \<Rightarrow> maintenance_ledger option \<Rightarrow> ('v, 's) maintenance_event \<Rightarrow> maintenance_ledger option" where
  "maintenance_step sha slug stored (organization, supervision, now, c) =
     (case maintenance_mutation slug stored organization supervision now (maintenance_op sha c) of
        Inl _ \<Rightarrow> stored
      | Inr (l, _) \<Rightarrow> Some l)"

definition maintenance_run ::
  "(string \<Rightarrow> string) \<Rightarrow> string \<Rightarrow> maintenance_ledger option \<Rightarrow> ('v, 's) maintenance_event list \<Rightarrow> maintenance_ledger option" where
  "maintenance_run sha slug stored es = foldl (maintenance_step sha slug) stored es"

definition event_now :: "('v, 's) maintenance_event \<Rightarrow> int" where
  "event_now e = fst (snd (snd e))"

definition event_command :: "('v, 's) maintenance_event \<Rightarrow> maintenance_command" where
  "event_command e = snd (snd (snd e))"

lemma initial_ok: "ctx_slug ctx = slug \<Longrightarrow> maintenance_ok ctx (maintenance_initial slug at)"
  by (simp add: maintenance_ok_iff maintenance_initial_def om_keys_def)

lemma step_good:
  assumes "maintenance_ok ctx (maintenance_current slug stored)" "writable_instant (event_now e)"
  shows "op_good ctx (moves_by (event_command e)) (maintenance_current slug stored)
     (maintenance_current slug (maintenance_step sha slug stored e))"
proof -
  obtain org sup now c where e: "e = (org, sup, now, c)" by (cases e)
  have at: "parse_iso_millis (iso_millis now) \<noteq> None"
    using written_stamp_parses[of now] assms(2) by (simp add: e event_now_def)
  show ?thesis
  proof (cases "maintenance_mutation slug stored org sup now (maintenance_op sha c)")
    case (Inl x)
    then show ?thesis using assms(1) by (simp add: e op_good_same)
  next
    case (Inr x)
    then obtain m where m: "org = Inr m"
      by (auto simp: maintenance_mutation_def res_bind_Inr_iff Let_def)
    with Inr obtain l1 where r: "maintenance_op sha c m (iso_millis now) (maintenance_current slug stored) = Inr (l1, ())"
      "fst x = fst (reconcile_maintenance m (iso_millis now) l1)"
      unfolding maintenance_mutation_def res_bind_Inr_iff Let_def maintenance_current_def[symmetric] by auto
    note good = maintenance_command_good[OF assms(1) at r(1)]
    then have "op_good ctx closes l1 (fst x)" unfolding r(2) by (intro reconcile_good) (simp add: op_good_def)
    then have "op_good ctx (moves_by c) (maintenance_current slug stored) (fst x)"
      using good moves_after[of c "maintenance_current slug stored" l1 "fst x"] by (simp add: op_good_def)
    then show ?thesis using Inr by (cases x) (simp add: e event_command_def maintenance_current_def)
  qed
qed

lemma run_ok:
  assumes "maintenance_ok ctx (maintenance_current slug stored)" "\<forall>e \<in> set es. writable_instant (event_now e)"
  shows "maintenance_ok ctx (maintenance_current slug (maintenance_run sha slug stored es))"
  using assms
proof (induction es rule: rev_induct)
  case (snoc e es)
  then show ?case
    using step_good[of ctx slug "maintenance_run sha slug stored es" e sha] by (simp add: maintenance_run_def op_good_def)
qed (simp add: maintenance_run_def)

lemma run_frozen:
  assumes "maintenance_ok ctx (maintenance_current slug stored)" "\<forall>e \<in> set es. writable_instant (event_now e)"
    and "om_get (ml_requests (maintenance_current slug stored)) rid = Some r" "maintenance_is_terminal (mr_status r)"
  shows "om_get (ml_requests (maintenance_current slug (maintenance_run sha slug stored es))) rid = Some r"
  using assms(2)
proof (induction es rule: rev_induct)
  case (snoc e es)
  let ?l = "maintenance_current slug (maintenance_run sha slug stored es)"
  let ?l' = "maintenance_current slug (maintenance_step sha slug (maintenance_run sha slug stored es) e)"
  have "maintenance_ok ctx ?l" by (rule run_ok[OF assms(1)]) (use snoc.prems in simp)
  then have "ledger_moves (moves_by (event_command e)) ?l ?l'"
    using step_good[of ctx slug "maintenance_run sha slug stored es" e sha] snoc.prems by (simp add: op_good_def)
  then obtain r' where r': "om_get (ml_requests ?l') rid = Some r'" "moves_by (event_command e) r r'"
    using snoc unfolding ledger_moves_def by fastforce
  have "r' = r" using r'(2) assms(4) may_move_open[of "event_command e" r r']
    by (auto simp: moves_by_def closes_def status_split)
  then show ?case using r'(1) by (simp add: maintenance_run_def)
qed (use assms(3) in \<open>simp add: maintenance_run_def\<close>)


lemma list_all2_right: "list_all2 P xs ys \<Longrightarrow> y \<in> set ys \<Longrightarrow> \<exists>x. P x y"
  by (induction rule: list_all2_induct) auto

lemma find_append: "find P (xs @ ys) = (case find P xs of None \<Rightarrow> find P ys | Some x \<Rightarrow> Some x)"
  by (induction xs) auto

text \<open>A history for the witnesses: the operator asks for the worker's session, and its process claims it.\<close>

definition sample_queue_input :: queue_input where
  "sample_queue_input = \<lparr>qi_action = Compact, qi_person_id = ''worker'', qi_requested_by = ''operator'',
     qi_reason = [], qi_automatic = False, qi_force = None\<rparr>"

definition sample_claim :: "int \<Rightarrow> maintenance_claim" where
  "sample_claim pid = \<lparr>cl_process_id = pid, cl_session_id = ''pi'', cl_claim_token = ''t''\<rparr>"

definition sample_start :: start_input where
  "sample_start = \<lparr>si_action = Compact, si_request_id = None, si_claim = Some (sample_claim 7), si_compact_anchor = None\<rparr>"

definition sample_event :: "int \<Rightarrow> maintenance_command \<Rightarrow> (unit, unit) maintenance_event" where
  "sample_event now c = (Inr (sample_manifest Unit_Active), Inr (), now, c)"

definition sample_history :: "(unit, unit) maintenance_event list" where
  "sample_history = [sample_event 0 (Queue sample_queue_input)]"

definition sample_claiming :: "(unit, unit) maintenance_event" where
  "sample_claiming = sample_event 1000 (Start ''worker'' sample_start)"

definition sample_context :: company_context where
  "sample_context = \<lparr>ctx_slug = ''s'', ctx_chief_person_id = ''chief'', ctx_people_order = []\<rparr>"

definition sample_running :: maintenance_ledger where
  "sample_running = maintenance_current ''s'' (maintenance_run (\<lambda>_. ''k'') ''s'' None (sample_history @ [sample_claiming]))"

definition sample_rid :: string where "sample_rid = ''session-maintenance:6b''"

lemmas sample_defs = sample_queue_input_def sample_claim_def sample_start_def sample_event_def sample_history_def
  sample_claiming_def sample_context_def sample_running_def sample_rid_def

lemma sample_writable: "\<forall>e \<in> set (sample_history @ [sample_claiming]). writable_instant (event_now e)"
  by (simp add: sample_defs event_now_def writable_instant_def)

lemma sample_runs:
  "map_option (\<lambda>r. (mr_status r, mr_claimed_process_id r, mr_person_id r, mr_attempt r))
     (om_get (ml_requests sample_running) sample_rid) = Some (MRunning, Some 7, ''worker'', Some 1)"
  unfolding sample_defs by code_simp

lemma sample_running_ok: "maintenance_ok sample_context sample_running"
  unfolding sample_running_def
  by (rule run_ok[OF _ sample_writable]) (simp add: maintenance_current_def initial_ok sample_context_def)

section \<open>Properties\<close>

text \<open>
  C19. The maintenance ledger keeps its word over any history. Whatever commands ran, answered or refused,
  with whatever manifests, on a company whose ledger was not there yet, the stored ledger is one a publication
  accepts (at most three attempts of a request, whole claims, bounded diagnostics) and the next command keeps
  it so: it loses no request and no position, changes no request's terms, moves a request only as that
  command may (a start claims a queued one of that person, a defer by the claim that owns it gives it
  back, a finish ends an open one) or closes an open one as failed or skipped, and a finished request stays as it is.
\<close>
theorem maintenance_moves_along_the_lifecycle:
  assumes "\<forall>e \<in> set (es @ [e]). writable_instant (event_now e)" "ctx_slug ctx = slug"
    and "l = maintenance_current slug (maintenance_run sha slug None es)"
    and "l' = maintenance_current slug (maintenance_run sha slug None (es @ [e]))"
  shows "validate_maintenance l' ctx True False = Inr () \<and> ledger_moves (moves_by (event_command e)) l l'
     \<and> (\<forall>rid r. om_get (ml_requests l) rid = Some r \<and> maintenance_is_terminal (mr_status r)
          \<longrightarrow> om_get (ml_requests l') rid = Some r)"
proof (intro conjI allI impI)
  have ok: "maintenance_ok ctx l" unfolding assms(3)
    by (rule run_ok) (use assms(1) initial_ok[OF assms(2)] in \<open>simp_all add: maintenance_current_def\<close>)
  have l': "l' = maintenance_current slug (maintenance_step sha slug (maintenance_run sha slug None es) e)"
    unfolding assms(4) by (simp add: maintenance_run_def)
  have good: "op_good ctx (moves_by (event_command e)) l l'"
    unfolding l' assms(3) by (rule step_good) (use ok assms in simp_all)
  then show "validate_maintenance l' ctx True False = Inr ()" "ledger_moves (moves_by (event_command e)) l l'"
    by (simp_all add: op_good_def maintenance_ok_def)
  fix rid r assume r: "om_get (ml_requests l) rid = Some r \<and> maintenance_is_terminal (mr_status r)"
  then have "om_get (ml_requests (maintenance_current slug (maintenance_run sha slug (Some l) [e]))) rid = Some r"
    using run_frozen[of ctx slug "Some l" "[e]" rid r sha] ok assms(1) by (simp add: maintenance_current_def)
  moreover have "maintenance_step sha slug (Some l) e = Some l' \<or> l' = l"
    unfolding l' assms(3) by (cases e) (auto simp: maintenance_current_def maintenance_mutation_def split: sum.splits option.splits)
  ultimately show "om_get (ml_requests l') rid = Some r"
    using r by (auto simp: maintenance_run_def maintenance_current_def)
qed

lemma maintenance_moves_along_the_lifecycle_witness:
  "validate_maintenance sample_running sample_context True False = Inr ()
   \<and> map_option mr_status (om_get (ml_requests sample_running) sample_rid) = Some MRunning"
proof -
  have slug: "ctx_slug sample_context = ''s''" by (simp add: sample_context_def)
  show ?thesis
    using maintenance_moves_along_the_lifecycle[OF sample_writable slug refl sample_running_def] sample_runs by auto
qed

text \<open>
  C39. A claim is exclusive. While a request is running under a claim, nothing claims it again: whatever
  happens, it is as it was, or closed for good, or its own claim has given it back since.
\<close>
theorem claim_is_exclusive:
  assumes "maintenance_ok ctx (maintenance_current slug stored)" "\<forall>e \<in> set es. writable_instant (event_now e)"
    and "om_get (ml_requests (maintenance_current slug stored)) rid = Some r" "mr_status r = MRunning"
  shows "(\<exists>r'. om_get (ml_requests (maintenance_current slug (maintenance_run sha slug stored es))) rid = Some r'
           \<and> (r' = r \<or> maintenance_is_terminal (mr_status r')))
     \<or> (\<exists>e \<in> set es. \<exists>claim identity. event_command e = Defer rid claim identity \<and> claim_owns claim r)"
  using assms(2)
proof (induction es rule: rev_induct)
  case Nil
  then show ?case using assms(3) by (simp add: maintenance_run_def)
next
  case (snoc e es)
  let ?l = "maintenance_current slug (maintenance_run sha slug stored es)"
  let ?l' = "maintenance_current slug (maintenance_run sha slug stored (es @ [e]))"
  have run: "maintenance_run sha slug stored (es @ [e]) = maintenance_step sha slug (maintenance_run sha slug stored es) e"
    by (simp add: maintenance_run_def)
  have ok: "maintenance_ok ctx ?l" by (rule run_ok[OF assms(1)]) (use snoc.prems in simp)
  have moves: "ledger_moves (moves_by (event_command e)) ?l ?l'"
    unfolding run using step_good[OF ok, of e sha] snoc.prems by (simp add: op_good_def)
  show ?case
  proof (cases "\<exists>r'. om_get (ml_requests ?l) rid = Some r' \<and> (r' = r \<or> maintenance_is_terminal (mr_status r'))")
    case False
    then show ?thesis using snoc by auto
  next
    case True
    then obtain r1 where r1: "om_get (ml_requests ?l) rid = Some r1" "r1 = r \<or> maintenance_is_terminal (mr_status r1)"
      by blast
    then obtain r2 where r2: "om_get (ml_requests ?l') rid = Some r2" "moves_by (event_command e) r1 r2"
      using moves unfolding ledger_moves_def by blast
    have own: "mr_id r1 = rid" by (rule ok_id[OF ok r1(1)])
    consider "r2 = r1" | "maintenance_is_terminal (mr_status r2)" | "may_move (event_command e) r1 r2" "r1 = r"
      using r2(2) r1(2) may_move_open[of "event_command e" r1 r2]
      by (auto simp: moves_by_def closes_def status_split maintenance_is_terminal_def)
    then show ?thesis
    proof cases
      case 3
      then show ?thesis using r2(1) own assms(4)
        by (cases "event_command e") auto
    qed (use r1 r2 in auto)
  qed
qed

lemma claim_is_exclusive_witness:
  "\<exists>r'. om_get (ml_requests (maintenance_current ''s'' (maintenance_run (\<lambda>_. ''k'') ''s'' (Some sample_running)
      [sample_event 2000 (Start ''worker'' sample_start)]))) sample_rid = Some r'
     \<and> (mr_status r' = MRunning \<or> maintenance_is_terminal (mr_status r'))"
proof -
  obtain r where r: "om_get (ml_requests (maintenance_current ''s'' (Some sample_running))) sample_rid = Some r"
    "mr_status r = MRunning"
    using sample_runs by (auto simp: maintenance_current_def)
  have "maintenance_ok sample_context (maintenance_current ''s'' (Some sample_running))"
    by (simp add: maintenance_current_def sample_running_ok)
  moreover have "\<forall>e \<in> set [sample_event 2000 (Start ''worker'' sample_start)]. writable_instant (event_now e)"
    by (simp add: sample_event_def event_now_def writable_instant_def)
  ultimately show ?thesis
    using claim_is_exclusive[OF _ _ r, of sample_context "[sample_event 2000 (Start ''worker'' sample_start)]" "\<lambda>_. ''k''"]
      r(2) by (auto simp: sample_event_def event_command_def)
qed

lemma replacement_queued: "mr_status (replacement_of at k r) = MQueued"
  by (simp add: replacement_of_def fresh_request_def)

text \<open>After a recovery nothing of the person is running under a dead claim: what is, was not recoverable.\<close>

lemma recovered_running:
  assumes ok: "maintenance_ok ctx l" "maintenance_ok ctx l'"
    and R: "recovers at (filter (recoverable identity claim) (ordered_requests l)) l l' reps"
    and x: "om_get (ml_requests l') rid = Some x" "mr_status x = MRunning"
  shows "\<not> recoverable identity claim x"
proof
  let ?rs = "filter (recoverable identity claim) (ordered_requests l)"
  assume bad: "recoverable identity claim x"
  note R = R[unfolded recovers_def]
  have id: "mr_id x = rid" by (rule ok_id[OF ok(2) x(1)])
  show False
  proof (cases "om_get (ml_requests l) rid")
    case None
    then have in_reps: "x \<in> set reps" using R x(1) by blast
    have each: "list_all2 (\<lambda>r n. n = replacement_of at (mr_id n) r) (filter retried ?rs) reps" using R by blast
    obtain r where "x = replacement_of at (mr_id x) r" using list_all2_right[OF each in_reps] by (elim exE)
    then have "mr_status x = MQueued" by (metis replacement_queued)
    then show False using x(2) by simp
  next
    case (Some y)
    show False
    proof (cases "rid \<in> mr_id ` set ?rs")
      case True
      then obtain z where "z \<in> set ?rs" "mr_id z = rid" by blast
      then have "x = interrupted_request at z" using R x(1) by (metis option.inject)
      then show False using x(2) by (simp add: interrupted_request_def split: if_splits)
    next
      case False
      then have "om_get (ml_requests l) rid = Some x" using R Some x(1) by (metis option.distinct(1))
      then have "x \<in> set ?rs" using ok_ordered_iff[OF ok(1), of x] bad id by simp
      then show False using False id by blast
    qed
  qed
qed

lemma recovered_replacements:
  assumes ok: "maintenance_ok ctx l" "maintenance_ok ctx l'" and R: "recovers at rs l l' reps"
  shows "list_all2 (\<lambda>r n. n = replacement_of at (mr_id n) r \<and> mr_status n = MQueued
      \<and> om_get (ml_requests l') (mr_id n) = Some n \<and> om_get (ml_requests l) (mr_id n) = None) (filter retried rs) reps"
proof (rule list.rel_mono_strong)
  note R = R[unfolded recovers_def]
  show "list_all2 (\<lambda>r n. n = replacement_of at (mr_id n) r) (filter retried rs) reps" using R by blast
  fix r n assume n: "n \<in> set reps" "n = replacement_of at (mr_id n) r"
  have "distinct (ml_request_order l @ map mr_id reps)" using ok(2) R by (simp add: maintenance_ok_iff)
  then have "mr_id n \<notin> set (ml_request_order l)" using n(1) by auto
  then have "om_get (ml_requests l) (mr_id n) = None" using ok(1) by (simp add: maintenance_ok_iff om_keys_iff)
  moreover have "mr_status n = MQueued" using n(2) by (metis replacement_queued)
  ultimately show "n = replacement_of at (mr_id n) r \<and> mr_status n = MQueued
      \<and> om_get (ml_requests l') (mr_id n) = Some n \<and> om_get (ml_requests l) (mr_id n) = None"
    using n R by simp
qed

text \<open>
  C20. A restarted agent finds no claim of its dead self. On a ledger that validates and in which no numbered
  request id is further than the order is long (which the commands keep, but validation does not give, and
  without which recovery can reuse an id), recovery by a well-formed claim at a readable instant is
  answered: nothing of that person is running afterwards but under this very process and token; exactly
  the requests that were running under another have failed; and each of them below the third attempt has one
  replacement, queued with the next attempt, in the ledger, and there is no other new request.
\<close>
theorem recovery_leaves_no_dead_claim:
  assumes "maintenance_ok ctx l" "parse_iso_millis at \<noteq> None" "claim_validated claim = Inr ()"
  shows "\<exists>l' report. recover_interrupted identity claim at l = Inr (l', report) \<and> maintenance_ok ctx l'
    \<and> (\<forall>rid r. om_get (ml_requests l') rid = Some r \<and> mr_person_id r = identity \<and> mr_status r = MRunning
         \<longrightarrow> mr_claimed_process_id r = Some (cl_process_id claim)
             \<and> mr_claim_token r = Some (trim (cl_claim_token claim)))
    \<and> (\<forall>r. om_get (ml_requests l) (mr_id r) = Some r \<and> recoverable identity claim r
         \<longrightarrow> om_get (ml_requests l') (mr_id r) = Some (interrupted_request at r))
    \<and> list_all2 (\<lambda>r n. n = replacement_of at (mr_id n) r \<and> mr_status n = MQueued
           \<and> om_get (ml_requests l') (mr_id n) = Some n \<and> om_get (ml_requests l) (mr_id n) = None)
        (filter retried (filter (recoverable identity claim) (ordered_requests l))) (rm_replacements report)
    \<and> ml_request_order l' = ml_request_order l @ map mr_id (rm_replacements report)"
proof -
  let ?rs = "filter (recoverable identity claim) (ordered_requests l)"
  obtain l' reps where r: "recover_interrupted identity claim at l = Inr (l',
      \<lparr>rm_interrupted = map (interrupted_request at) ?rs, rm_replacements = reps\<rparr>)"
    "op_good ctx closes l l'" "recovers at ?rs l l' reps"
    using recover_interrupted_works[OF assms, of identity] by blast
  have ok': "maintenance_ok ctx l'" using r(2) by (simp add: op_good_def)
  have mem: "r \<in> set ?rs \<longleftrightarrow> om_get (ml_requests l) (mr_id r) = Some r \<and> recoverable identity claim r" for r
    using ok_ordered_iff[OF assms(1), of r] by auto
  have none: "mr_claimed_process_id x = Some (cl_process_id claim) \<and> mr_claim_token x = Some (trim (cl_claim_token claim))"
    if x: "om_get (ml_requests l') rid = Some x" "mr_person_id x = identity" "mr_status x = MRunning" for rid x
    using recovered_running[OF assms(1) ok' r(3) x(1,3)] x(2,3) by (simp add: recoverable_def)
  show ?thesis
    using r(1) ok' none recovered_replacements[OF assms(1) ok' r(3)] r(3)[unfolded recovers_def] mem
    by (intro exI[of _ l'] exI[of _ "\<lparr>rm_interrupted = map (interrupted_request at) ?rs, rm_replacements = reps\<rparr>"]) auto
qed

lemma recovery_leaves_no_dead_claim_witness:
  "\<exists>l' report r'. recover_interrupted ''worker'' (sample_claim 8) (iso_millis 3000) sample_running = Inr (l', report)
     \<and> om_get (ml_requests l') sample_rid = Some r' \<and> mr_status r' = MFailed"
proof -
  have "parse_iso_millis (iso_millis 3000) \<noteq> None"
    using written_stamp_parses[of 3000] by (simp add: writable_instant_def)
  moreover have "claim_validated (sample_claim 8) = Inr ()" unfolding sample_claim_def by code_simp
  ultimately obtain l' report where recovered: "recover_interrupted ''worker'' (sample_claim 8) (iso_millis 3000) sample_running = Inr (l', report)"
    "\<forall>r. om_get (ml_requests sample_running) (mr_id r) = Some r \<and> recoverable ''worker'' (sample_claim 8) r
         \<longrightarrow> om_get (ml_requests l') (mr_id r) = Some (interrupted_request (iso_millis 3000) r)"
    using recovery_leaves_no_dead_claim[OF sample_running_ok, of "iso_millis 3000" "sample_claim 8" "''worker''"] by blast
  obtain r where r: "om_get (ml_requests sample_running) sample_rid = Some r" "mr_status r = MRunning"
    "mr_claimed_process_id r = Some 7" "mr_person_id r = ''worker''"
    using sample_runs by auto
  have "mr_id r = sample_rid" by (rule ok_id[OF sample_running_ok r(1)])
  then have "om_get (ml_requests l') sample_rid = Some (interrupted_request (iso_millis 3000) r)"
    using recovered(2)[rule_format, of r] r by (simp add: recoverable_def sample_claim_def)
  then show ?thesis using recovered(1) r(2) by (auto simp: interrupted_request_def)
qed

text \<open>A queued request is the last of the order.\<close>

lemma ordered_added:
  assumes ok: "maintenance_ok ctx l" "maintenance_ok ctx l'"
    and l': "l' = (maintenance_add r l)\<lparr>ml_updated_at := at\<rparr>" "om_get (ml_requests l) (mr_id r) = None"
  shows "ordered_requests l' = ordered_requests l @ [r]"
proof -
  have "k \<noteq> mr_id r" if "k \<in> set (ml_request_order l)" for k
    using that ok(1) l'(2) by (auto simp: maintenance_ok_iff om_keys_iff)
  then have "map (\<lambda>rid. the (om_get (ml_requests l') rid)) (ml_request_order l')
      = map (\<lambda>rid. the (om_get (ml_requests l) rid)) (ml_request_order l) @ [r]"
    by (simp add: l'(1) maintenance_add_def maintenance_put_def store_simps)
  then show ?thesis using ok_ordered[OF ok(2)] ok_ordered[OF ok(1)] by simp
qed

text \<open>The open request of these terms after a queueing is the one that was answered.\<close>

lemma queue_found:
  assumes ok: "maintenance_ok ctx l" "maintenance_ok ctx l'" and q: "queue_maintenance sha m input at l = Inr (l', r)"
    and e: "find (same_request (qi_action input) (trim (qi_person_id input)) (qi_force input = Some True)) (ordered_requests l') = Some e"
  shows "e = r"
proof -
  let ?P = "same_request (qi_action input) (trim (qi_person_id input)) (qi_force input = Some True)"
  obtain pid rb reason where t: "queue_terms m input = Inr (pid, rb, reason)"
    and a: "queue_admitted sha input at l (pid, rb, reason) = (l', r)"
    using q by (auto simp: queue_maintenance_def res_bind_Inr_iff)
  note pid = queue_terms_person[OF t]
  show ?thesis
  proof (cases "find ?P (ordered_requests l)")
    case (Some e')
    then show ?thesis using a e by (simp add: queue_admitted_def pid)
  next
    case None
    show ?thesis using q
    proof (cases rule: queue_cases)
      case kept
      then show ?thesis using None e by simp
    next
      case (added family requested_by reason')
      have "om_get (ml_requests l) (mr_id r) = None"
        using next_id_names(1)[of l family] added(3) by (simp add: fresh_request_def)
      then have "ordered_requests l' = ordered_requests l @ [r]" using ordered_added[OF ok added(2)] by simp
      then show ?thesis using e None by (simp add: find_append split: if_splits)
    qed
  qed
qed

text \<open>A queueing that kept the ledger and found nothing open answered the newest of its family.\<close>

lemma queue_kept_prior:
  assumes ok: "maintenance_ok ctx l" and a: "queue_admitted sha input at l (trim (qi_person_id input), rb, reason) = (l, r)"
    and none: "find (same_request (qi_action input) (trim (qi_person_id input)) (qi_force input = Some True)) (ordered_requests l) = None"
    and n: "newest_in_family l (request_identity sha (trim (qi_person_id input)) (qi_action input) (qi_force input = Some True)) = (newest, next_id)"
  shows "(case newest of None \<Rightarrow> None | Some rid \<Rightarrow> om_get (ml_requests l) rid) = Some r"
    "\<not> same_request (qi_action input) (trim (qi_person_id input)) (qi_force input = Some True) r"
proof -
  have added: "(maintenance_add x l)\<lparr>ml_updated_at := at\<rparr> \<noteq> l" for x
  proof -
    have "length (ml_request_order ((maintenance_add x l)\<lparr>ml_updated_at := at\<rparr>)) \<noteq> length (ml_request_order l)"
      by (simp add: maintenance_add_def)
    then show ?thesis by metis
  qed
  show prior: "(case newest of None \<Rightarrow> None | Some rid \<Rightarrow> om_get (ml_requests l) rid) = Some r"
    using a none added unfolding queue_admitted_def prod.case Let_def n
    by (auto split: option.splits if_splits)
  then have "r \<in> set (ordered_requests l)"
    using ok_ordered_iff[OF ok, of r] ok_id[OF ok] by (auto split: option.splits)
  then show "\<not> same_request (qi_action input) (trim (qi_person_id input)) (qi_force input = Some True) r"
    using none by (auto simp: find_None_iff)
qed

text \<open>
  Queueing is idempotent. Asking again for what was answered, as long as that request is open or the
  replay window of its own request has not passed, answers the very same request and changes nothing.
\<close>
theorem queue_is_idempotent:
  assumes "maintenance_ok ctx l" "parse_iso_millis at \<noteq> None" "queue_maintenance sha m input at l = Inr (l', r)"
    and "same_request (qi_action input) (trim (qi_person_id input)) (qi_force input = Some True) r
       \<or> within_replay_window later r"
  shows "queue_maintenance sha m input later l' = Inr (l', r)"
proof -
  let ?p = "trim (qi_person_id input)" and ?f = "qi_force input = Some True"
  let ?P = "same_request (qi_action input) ?p ?f"
  obtain pid rb reason where t: "queue_terms m input = Inr (pid, rb, reason)"
    and q: "queue_admitted sha input at l (pid, rb, reason) = (l', r)"
    using assms(3) by (auto simp: queue_maintenance_def res_bind_Inr_iff)
  note pid = queue_terms_person[OF t]
  have goal: ?thesis if "queue_admitted sha input later l' (pid, rb, reason) = (l', r)"
    using that by (simp add: queue_maintenance_def t)
  have ok': "maintenance_ok ctx l'" using queue_good[OF assms(1-3)] by (simp add: op_good_def)
  show ?thesis
  proof (cases "find ?P (ordered_requests l')")
    case (Some e)
    then show ?thesis using goal queue_found[OF assms(1) ok' assms(3) Some] by (simp add: queue_admitted_def pid)
  next
    case None
    show ?thesis using assms(3)
    proof (cases rule: queue_cases)
      case kept
      obtain newest next_id where n: "newest_in_family l (request_identity sha ?p (qi_action input) ?f) = (newest, next_id)"
        by fastforce
      note prior = queue_kept_prior[OF assms(1) q[unfolded kept pid] None[unfolded kept] n]
      then have "within_replay_window later r" using assms(4) by blast
      then show ?thesis using goal None prior(1) unfolding kept queue_admitted_def pid prod.case Let_def n by simp
    next
      case (added family requested_by reason')
      have "?P r" by (simp add: same_request_def added(3) fresh_request_def is_open_def)
      moreover have "om_get (ml_requests l') (mr_id r) = Some r"
        by (simp add: added(2) maintenance_add_def maintenance_put_def store_simps)
      then have "r \<in> set (ordered_requests l')" using ok_ordered_iff[OF ok', of r] by simp
      ultimately show ?thesis using None by (auto simp: find_None_iff)
    qed
  qed
qed

lemma queue_is_idempotent_witness:
  "\<exists>l' r. queue_maintenance (\<lambda>_. ''k'') (sample_manifest Unit_Active :: unit organization_manifest) sample_queue_input
       (iso_millis 0) (maintenance_initial ''s'' (iso_millis 0)) = Inr (l', r)
     \<and> queue_maintenance (\<lambda>_. ''k'') (sample_manifest Unit_Active :: unit organization_manifest) sample_queue_input
       (iso_millis 99000) l' = Inr (l', r)"
proof -
  let ?q = "queue_maintenance (\<lambda>_. ''k'') (sample_manifest Unit_Active :: unit organization_manifest) sample_queue_input"
  have answered: "(case ?q (iso_millis 0) (maintenance_initial ''s'' (iso_millis 0)) of Inl _ \<Rightarrow> False
      | Inr (l', r) \<Rightarrow> same_request Compact ''worker'' False r)"
    unfolding sample_queue_input_def by code_simp
  then obtain l' r where q: "?q (iso_millis 0) (maintenance_initial ''s'' (iso_millis 0)) = Inr (l', r)"
    "same_request Compact ''worker'' False r" by (auto split: sum.splits)
  have fields: "qi_action sample_queue_input = Compact" "trim (qi_person_id sample_queue_input) = ''worker''"
    "(qi_force sample_queue_input = Some True) = False"
    unfolding sample_queue_input_def by (simp_all, code_simp)
  have "parse_iso_millis (iso_millis 0) \<noteq> None"
    using written_stamp_parses[of 0] by (simp add: writable_instant_def)
  moreover have "maintenance_ok sample_context (maintenance_initial ''s'' (iso_millis 0))"
    by (rule initial_ok) (simp add: sample_context_def)
  ultimately show ?thesis
    using queue_is_idempotent[OF _ _ q(1), of sample_context "iso_millis 99000"] q by (auto simp: fields)
qed

text \<open>
  Without the numbering that \<open>maintenance_ok\<close> asks for, a recovery can give a replacement the id of the very
  request it replaces: the ledger it leaves holds an id twice, and a publication refuses it. Rows of retired
  actions, which a read leaves out of the order, are how a stored ledger comes to be such.
\<close>

definition sample_clash :: maintenance_request where
  "sample_clash = (fresh_request ''session-maintenance:2:worker:compact'' Compact ''worker'' ''worker'' ''r'' False 2 None
     (iso_millis 0))\<lparr>mr_status := MRunning, mr_started_at := Some (iso_millis 0)\<rparr>"

definition sample_clashing :: maintenance_ledger where
  "sample_clashing = (maintenance_initial ''s'' (iso_millis 0))
     \<lparr>ml_request_order := [mr_id sample_clash], ml_requests := [(mr_id sample_clash, sample_clash)]\<rparr>"

lemma recovery_can_reuse_an_id:
  "validate_maintenance sample_clashing sample_context True False = Inr ()
   \<and> (\<exists>l' report. recover_interrupted ''worker'' (sample_claim 8) (iso_millis 0) sample_clashing = Inr (l', report)
        \<and> ml_request_order l' = [mr_id sample_clash, mr_id sample_clash]
        \<and> validate_maintenance l' sample_context True False \<noteq> Inr ())"
proof
  show "validate_maintenance sample_clashing sample_context True False = Inr ()"
    unfolding sample_clashing_def sample_clash_def sample_context_def by code_simp
  have two: "show_nat 2 = ''2''" "show_nat (Suc (Suc 0)) = ''2''" by code_simp+
  have valid: "claim_validated (sample_claim 8) = Inr ()" unfolding sample_claim_def by code_simp
  have small: "\<not> u32_max \<le> 2" "\<not> u32_max \<le> Suc (Suc 0)" by (simp_all add: u32_max_def)
  have "\<exists>l' report. recover_interrupted ''worker'' (sample_claim 8) (iso_millis 0) sample_clashing = Inr (l', report)
      \<and> ml_request_order l' = [mr_id sample_clash, mr_id sample_clash]"
    using valid small
    by (simp add: recover_interrupted_def sample_clashing_def sample_clash_def ordered_requests_def
        List.map_filter_simps om_get_def recoverable_def fresh_request_def sample_claim_def recover_one_def
        request_mut_def interrupted_request_def Let_def is_company_request_def
        SESSION_MAINTENANCE_MAX_ATTEMPTS_def maintenance_add_def maintenance_put_def update_request_def
        replacement_id_def two maintenance_initial_def)
  then show "\<exists>l' report. recover_interrupted ''worker'' (sample_claim 8) (iso_millis 0) sample_clashing = Inr (l', report)
      \<and> ml_request_order l' = [mr_id sample_clash, mr_id sample_clash]
      \<and> validate_maintenance l' sample_context True False \<noteq> Inr ()"
    by (auto simp: validate_maintenance_def)
qed

end
