(* ===== verification/Placement.thy ===== *)
theory Placement
  imports Desired_Runtime
begin

text \<open>
  The client's roster and placement (\<open>chief-cli/src/roster.rs\<close>, \<open>chief-cli/src/placement.rs\<close>,
  \<open>chief-cli/src/actuate/desired.rs\<close>): what the client was told of the company, and the windows and panes
  it should have on a terminal, one window for each desired person, in display order.
\<close>

section \<open>The roster\<close>

record client_company =
  cc_slug :: string
  cc_display_name :: string

record client_department =
  cd_id :: string
  cd_name :: string
  cd_parent_department_id :: "string option"
  cd_head_person_id :: string
  cd_order :: nat
  cd_state :: string

record client_person =
  cp_id :: string
  cp_display_name :: string
  cp_title :: string
  cp_department_id :: string
  cp_is_head_of :: "string option"
  cp_display_order :: nat
  cp_desired_active :: bool
  cp_employment_state :: string

definition DEPARTED :: string where "DEPARTED = ''departed''"

definition departed :: "client_person \<Rightarrow> bool" where
  "departed p \<longleftrightarrow> cp_employment_state p = DEPARTED"

record client_roster =
  ro_company :: client_company
  ro_root_department_id :: string
  ro_departments :: "client_department list"
  ro_people :: "client_person list"

datatype roster_error =
    DuplicateId string string
  | DuplicateOrder string nat
  | UnknownDepartment string string
  | RootInvalid string
  | ReservedDepartmentId string

definition known_person_ids :: "client_roster \<Rightarrow> string list" where
  "known_person_ids r = sorted_set (map cp_id (ro_people r))"

definition client_department_of :: "client_roster \<Rightarrow> string \<Rightarrow> client_department option" where
  "client_department_of r did = find (\<lambda>unit. cd_id unit = did) (ro_departments r)"

section \<open>Names\<close>

definition MAX_WINDOW_NAME_CHARS :: nat where "MAX_WINDOW_NAME_CHARS = 40"
definition SESSION_PREFIX :: string where "SESSION_PREFIX = ''org-''"
definition SESSION_KEY_CHARS :: nat where "SESSION_KEY_CHARS = 6"
definition SESSION_TERMINATOR :: char where "SESSION_TERMINATOR = CHR ''_''"
definition FOCUS_WINDOW_ID :: string where "FOCUS_WINDOW_ID = ''__focus__''"
definition PERSON_WINDOW_PREFIX :: string where "PERSON_WINDOW_PREFIX = ''__person__:''"

definition session_name_for :: "string \<Rightarrow> string \<Rightarrow> string" where
  "session_name_for slug key =
     ''org-'' @ slug @ ''-'' @ take_chars SESSION_KEY_CHARS key @ [SESSION_TERMINATOR]"

definition session_key_suffix :: "string \<Rightarrow> string" where
  "session_key_suffix key =
     (let full = session_name_for [] key
      in case strip_prefix full SESSION_PREFIX of None \<Rightarrow> full | Some suffix \<Rightarrow> suffix)"

definition session_belongs_to :: "string \<Rightarrow> string \<Rightarrow> bool" where
  "session_belongs_to session key \<longleftrightarrow> starts_with session SESSION_PREFIX \<and> ends_with session (session_key_suffix key)"

definition trim_dashes :: "string \<Rightarrow> string" where
  "trim_dashes s = rev (dropWhile (\<lambda>c. c = CHR ''-'') (rev (dropWhile (\<lambda>c. c = CHR ''-'') s)))"

definition safe_window_name :: "string \<Rightarrow> string" where
  "safe_window_name name =
     (let replaced = map (\<lambda>c. if c = CHR ''.'' \<or> c = CHR '':'' then CHR ''-'' else c) name;
          trimmed = trim (trim_dashes (trim (take_chars MAX_WINDOW_NAME_CHARS replaced)))
      in if trimmed = [] then ''window'' else trimmed)"

definition overview_window_id :: "string \<Rightarrow> string" where
  "overview_window_id department_id = ''__overview__:'' @ department_id"

definition person_window_id :: "string \<Rightarrow> string" where
  "person_window_id person_id = PERSON_WINDOW_PREFIX @ person_id"

definition person_window_person_id :: "string \<Rightarrow> string option" where
  "person_window_person_id window_id = strip_prefix window_id PERSON_WINDOW_PREFIX"

definition overview_department_id :: "string \<Rightarrow> string option" where
  "overview_department_id window_id = strip_prefix window_id ''__overview__:''"

section \<open>Validation\<close>

text \<open>The three loops; the sets of ids and orders seen so far are the loops' accumulators.\<close>

definition check_unit ::
  "string list \<times> nat list \<Rightarrow> client_department \<Rightarrow> roster_error + (string list \<times> nat list)" where
  "check_unit seen unit =
     (if cd_id unit = FOCUS_WINDOW_ID then Inl (ReservedDepartmentId (cd_id unit))
      else if cd_id unit \<in> set (fst seen) then Inl (DuplicateId ''department'' (cd_id unit))
      else if cd_order unit \<in> set (snd seen) then Inl (DuplicateOrder ''department'' (cd_order unit))
      else Inr (cd_id unit # fst seen, cd_order unit # snd seen))"

definition check_parent :: "string list \<Rightarrow> unit \<Rightarrow> client_department \<Rightarrow> roster_error + unit" where
  "check_parent department_ids u unit = (case cd_parent_department_id unit of
     None \<Rightarrow> Inr ()
   | Some parent \<Rightarrow>
       if parent \<notin> set department_ids
       then Inl (UnknownDepartment (''department '' @ quoted (cd_id unit)) parent) else Inr ())"

definition check_roster_person ::
  "string list \<Rightarrow> string list \<times> nat list \<Rightarrow> client_person \<Rightarrow> roster_error + (string list \<times> nat list)" where
  "check_roster_person department_ids seen p =
     (if cp_id p \<in> set (fst seen) then Inl (DuplicateId ''person'' (cp_id p))
      else if cp_display_order p \<in> set (snd seen) then Inl (DuplicateOrder ''person'' (cp_display_order p))
      else if cp_department_id p \<notin> set department_ids
      then Inl (UnknownDepartment (''person '' @ quoted (cp_id p)) (cp_department_id p))
      else (case cp_is_head_of p of
          None \<Rightarrow> Inr (cp_id p # fst seen, cp_display_order p # snd seen)
        | Some headed \<Rightarrow>
            if headed \<notin> set department_ids
            then Inl (UnknownDepartment (''person '' @ quoted (cp_id p) @ '' heads'') headed)
            else Inr (cp_id p # fst seen, cp_display_order p # snd seen)))"

definition roster_validate :: "client_roster \<Rightarrow> roster_error + unit" where
  "roster_validate r =
     res_bind (res_fold check_unit ([], []) (ro_departments r)) (\<lambda>(department_ids, _).
       if \<not> (case client_department_of r (ro_root_department_id r) of
               None \<Rightarrow> False | Some unit \<Rightarrow> cd_parent_department_id unit = None)
       then Inl (RootInvalid (ro_root_department_id r))
       else res_bind (res_fold (check_parent department_ids) () (ro_departments r)) (\<lambda>_.
         res_bind (res_fold (check_roster_person department_ids) ([], []) (ro_people r)) (\<lambda>_. Inr ())))"

section \<open>The desired topology\<close>

record desired_pane =
  pn_person_id :: string
  pn_launch_hash :: string
  pn_order :: nat

record desired_window =
  wi_logical_id :: string
  wi_name :: string
  wi_panes :: "desired_pane list"

definition window_name :: "desired_window \<Rightarrow> string" where
  "window_name w = safe_window_name (wi_name w)"

record topology =
  tp_organization :: string
  tp_session :: string
  tp_windows :: "desired_window list"
  tp_known_person_ids :: "string list"

text \<open>The hashes a client reads out of the published set, as a map (\<open>DesiredRuntime::hashes\<close>).\<close>

definition published_hashes :: "(string \<times> string) list \<Rightarrow> (string, string) omap" where
  "published_hashes people = om_of_list people"

definition pane_department_id :: "client_roster \<Rightarrow> client_person \<Rightarrow> roster_error + string" where
  "pane_department_id r p =
     (if client_department_of r (cp_department_id p) \<noteq> None then Inr (cp_department_id p)
      else Inl (UnknownDepartment (''person '' @ quoted (cp_id p)) (cp_department_id p)))"

definition place_person ::
  "client_roster \<Rightarrow> (string, string) omap \<Rightarrow> desired_window list \<Rightarrow> client_person
     \<Rightarrow> roster_error + desired_window list" where
  "place_person r desired windows p = (case om_get desired (cp_id p) of
     None \<Rightarrow> Inr windows
   | Some launch_hash \<Rightarrow>
       res_bind (pane_department_id r p) (\<lambda>_.
         Inr (windows @ [\<lparr>wi_logical_id = person_window_id (cp_id p), wi_name = cp_display_name p,
           wi_panes = [\<lparr>pn_person_id = cp_id p, pn_launch_hash = launch_hash, pn_order = cp_display_order p\<rparr>]\<rparr>])))"

definition desired_topology ::
  "client_roster \<Rightarrow> (string, string) omap \<Rightarrow> string \<Rightarrow> roster_error + topology" where
  "desired_topology r desired session =
     res_bind (roster_validate r) (\<lambda>_.
     res_bind (res_fold (place_person r desired) [] (sort_key cp_display_order (ro_people r))) (\<lambda>windows.
       Inr \<lparr>tp_organization = cc_slug (ro_company r), tp_session = session, tp_windows = windows,
            tp_known_person_ids = known_person_ids r\<rparr>))"

section \<open>What placement promises\<close>

lemma check_units_seen:
  "res_fold check_unit seen us = Inr seen' \<Longrightarrow> set (fst seen') = set (fst seen) \<union> cd_id ` set us"
proof (induction us arbitrary: seen)
  case (Cons u us)
  then obtain s1 where s1: "check_unit seen u = Inr s1" "res_fold check_unit s1 us = Inr seen'"
    by (auto simp: res_bind_Inr_iff)
  then have "fst s1 = cd_id u # fst seen" by (auto simp: check_unit_def split: if_splits)
  then show ?case using Cons.IH[OF s1(2)] by auto
qed simp

lemma check_people_seen:
  assumes "res_fold (check_roster_person dids) seen ps = Inr seen'"
  shows "distinct (map cp_id ps) \<and> set (map cp_id ps) \<inter> set (fst seen) = {}
     \<and> distinct (map cp_display_order ps) \<and> set (map cp_display_order ps) \<inter> set (snd seen) = {}
     \<and> (\<forall>p \<in> set ps. cp_department_id p \<in> set dids)"
  using assms
proof (induction ps arbitrary: seen)
  case (Cons p ps)
  then obtain s1 where s1: "check_roster_person dids seen p = Inr s1" "res_fold (check_roster_person dids) s1 ps = Inr seen'"
    by (auto simp: res_bind_Inr_iff)
  then have "s1 = (cp_id p # fst seen, cp_display_order p # snd seen)" "cp_id p \<notin> set (fst seen)"
    "cp_display_order p \<notin> set (snd seen)" "cp_department_id p \<in> set dids"
    by (auto simp: check_roster_person_def split: if_splits option.splits)
  then show ?case using Cons.IH[OF s1(2)] by auto
qed simp

definition roster_ok :: "client_roster \<Rightarrow> bool" where
  "roster_ok r \<longleftrightarrow> distinct (map cp_id (ro_people r)) \<and> distinct (map cp_display_order (ro_people r))
     \<and> (\<forall>p \<in> set (ro_people r). cp_department_id p \<in> cd_id ` set (ro_departments r))"

lemma roster_validate_ok:
  assumes "roster_validate r = Inr ()"
  shows "roster_ok r"
proof -
  obtain dids ords seen where "res_fold check_unit ([], []) (ro_departments r) = Inr (dids, ords)"
    "res_fold (check_roster_person dids) ([], []) (ro_people r) = Inr seen"
    using assms by (auto simp: roster_validate_def res_bind_Inr_iff split: if_splits)
  from check_units_seen[OF this(1)] check_people_seen[OF this(2)] show ?thesis by (auto simp: roster_ok_def)
qed

definition placed_window :: "string \<Rightarrow> client_person \<Rightarrow> desired_window" where
  "placed_window hash p = \<lparr>wi_logical_id = person_window_id (cp_id p), wi_name = cp_display_name p,
     wi_panes = [\<lparr>pn_person_id = cp_id p, pn_launch_hash = hash, pn_order = cp_display_order p\<rparr>]\<rparr>"

definition placed :: "client_roster \<Rightarrow> (string, string) omap \<Rightarrow> client_person \<Rightarrow> desired_window option" where
  "placed r desired p = map_option (\<lambda>hash. placed_window hash p) (om_get desired (cp_id p))"

lemma place_fold:
  assumes "\<And>p. p \<in> set ps \<Longrightarrow> cp_department_id p \<in> cd_id ` set (ro_departments r)"
  shows "res_fold (place_person r desired) ws ps = Inr (ws @ List.map_filter (placed r desired) ps)"
  using assms
proof (induction ps arbitrary: ws)
  case (Cons p ps)
  have "client_department_of r (cp_department_id p) \<noteq> None"
    using Cons.prems[of p] by (auto simp: client_department_of_def find_None_iff)
  then have "place_person r desired ws p = Inr (case placed r desired p of None \<Rightarrow> ws | Some w \<Rightarrow> ws @ [w])"
    by (cases "om_get desired (cp_id p)") (simp_all add: place_person_def placed_def placed_window_def pane_department_id_def)
  then show ?case using Cons.IH Cons.prems
    by (cases "placed r desired p") (simp_all add: List.map_filter_simps)
qed (simp add: List.map_filter_simps)

lemma desired_topology_eq:
  assumes "roster_validate r = Inr ()"
  shows "desired_topology r desired session = Inr \<lparr>tp_organization = cc_slug (ro_company r), tp_session = session,
     tp_windows = List.map_filter (placed r desired) (sort_key cp_display_order (ro_people r)),
     tp_known_person_ids = known_person_ids r\<rparr>"
  using roster_validate_ok[OF assms] place_fold[of "sort_key cp_display_order (ro_people r)" r desired "[]"] assms
  by (simp add: desired_topology_def roster_ok_def)

text \<open>A session's name says whose it is: the ending is the key's, and nothing else's.\<close>

lemma session_suffix: "session_key_suffix key = ''-'' @ take_chars SESSION_KEY_CHARS key @ [SESSION_TERMINATOR]"
  by (simp add: session_key_suffix_def session_name_for_def strip_prefix_def starts_with_def SESSION_PREFIX_def)

lemma ends_with_same_length: "length p = length q \<Longrightarrow> ends_with (x @ q) p \<longleftrightarrow> p = q"
  unfolding ends_with_iff by (metis append_eq_append_conv)

lemma session_belongs:
  assumes "length (take_chars SESSION_KEY_CHARS key) = length (take_chars SESSION_KEY_CHARS key')"
  shows "session_belongs_to (session_name_for slug key) key' \<longleftrightarrow>
     take_chars SESSION_KEY_CHARS key' = take_chars SESSION_KEY_CHARS key"
proof -
  have "ends_with (session_name_for slug key) (session_key_suffix key')
      \<longleftrightarrow> take_chars SESSION_KEY_CHARS key' = take_chars SESSION_KEY_CHARS key"
    using ends_with_same_length[of "session_key_suffix key'" "session_key_suffix key" "''org-'' @ slug"] assms
    by (simp add: session_suffix session_name_for_def)
  then show ?thesis
    by (simp add: session_belongs_to_def session_name_for_def SESSION_PREFIX_def starts_with_def)
qed

lemma person_window_round_trip [simp]: "person_window_person_id (person_window_id p) = Some p"
  by (simp add: person_window_person_id_def person_window_id_def strip_prefix_append)

lemma inj_person_window: "inj person_window_id"
  by (rule injI) (simp add: person_window_id_def)

lemma person_window_plain [simp]:
  "person_window_id p \<noteq> FOCUS_WINDOW_ID" "overview_department_id (person_window_id p) = None"
  by (simp_all add: person_window_id_def PERSON_WINDOW_PREFIX_def FOCUS_WINDOW_ID_def overview_department_id_def
      strip_prefix_def starts_with_def)

text \<open>The panes of a topology, window by window.\<close>

definition topology_people :: "topology \<Rightarrow> string list" where
  "topology_people t = concat (map (\<lambda>w. map pn_person_id (wi_panes w)) (tp_windows t))"

definition topology_ok :: "topology \<Rightarrow> bool" where
  "topology_ok t \<longleftrightarrow> distinct (map wi_logical_id (tp_windows t)) \<and> distinct (topology_people t)
     \<and> (\<forall>w \<in> set (tp_windows t). wi_panes w \<noteq> [])"

lemma placed_topology_ok:
  assumes "desired_topology r desired session = Inr t"
  shows "topology_ok t"
    "topology_people t = filter (\<lambda>pid. om_get desired pid \<noteq> None) (map cp_id (sort_key cp_display_order (ro_people r)))"
proof -
  have v: "roster_validate r = Inr ()" using assms by (auto simp: desired_topology_def res_bind_Inr_iff)
  note ok = roster_validate_ok[OF v, unfolded roster_ok_def]
  let ?ps = "sort_key cp_display_order (ro_people r)"
  have ws: "tp_windows t = List.map_filter (placed r desired) ?ps"
    using assms by (auto simp: desired_topology_eq[OF v])
  have ids: "map wi_logical_id (List.map_filter (placed r desired) ps)
      = map person_window_id (filter (\<lambda>pid. om_get desired pid \<noteq> None) (map cp_id ps))"
    "concat (map (\<lambda>w. map pn_person_id (wi_panes w)) (List.map_filter (placed r desired) ps))
      = filter (\<lambda>pid. om_get desired pid \<noteq> None) (map cp_id ps)" for ps
    by (induction ps) (auto simp: List.map_filter_simps placed_def placed_window_def)
  show people: "topology_people t = filter (\<lambda>pid. om_get desired pid \<noteq> None) (map cp_id ?ps)"
    by (simp add: topology_people_def ws ids(2))
  have d: "distinct (map cp_id ?ps)" using ok by (simp add: distinct_map)
  then have "distinct (topology_people t)" by (simp only: people distinct_filter)
  moreover have "distinct (map wi_logical_id (tp_windows t))"
    unfolding ws ids(1) by (simp only: distinct_map[of person_window_id] distinct_filter d)
      (metis inj_on_subset[OF inj_person_window] subset_UNIV)
  moreover have "\<forall>w \<in> set (tp_windows t). wi_panes w \<noteq> []"
    by (auto simp: ws List.map_filter_def placed_def placed_window_def)
  ultimately show "topology_ok t" by (simp add: topology_ok_def)
qed

end
