(* ===== verification/Converge_Plan.thy ===== *)
theory Converge_Plan
  imports Placement
begin

text \<open>
  The converge planner (\<open>chief-cli/src/actuate/plan.rs\<close>): a desired topology and an observed one in, an
  ordered list of terminal steps out. A \<open>PaneId\<close>, a \<open>WindowSym\<close> are their texts. The three panics of the
  source (the first window of an empty desired window, a binding read by index) are the answer \<open>None\<close>.
\<close>

section \<open>The observation and the steps\<close>

datatype window_ref = Observed_Window string | Created_Window string

datatype pane_ref = Observed_Pane string | Created_Pane string

record observed_window =
  ow_tmux_id :: string
  ow_organization_id :: string
  ow_logical_id :: string
  ow_protected_ui :: bool
  ow_sleeping_notice :: bool

record observed_pane =
  op_tmux_id :: string
  op_tmux_window_id :: string
  op_organization_id :: string
  op_logical_window_id :: string
  op_person_id :: string
  op_launch_hash :: string
  op_start_command :: string

record observed_topology =
  ot_session_exists :: bool
  ot_session_organization :: string
  ot_windows :: "observed_window list"
  ot_panes :: "observed_pane list"

record spawn_spec =
  sp_person_id :: string
  sp_launch_hash :: string

datatype step =
    StopSession
  | CreateSession spawn_spec
  | CreateWindowWithSpawn string string spawn_spec
  | CreateWindowByMove string string string
  | SplitPane window_ref spawn_spec
  | MovePane string window_ref
  | Respawn string spawn_spec
  | Retag string string string
  | KillPane string
  | KillWindow window_ref
  | OrderWindows "window_ref list"
  | ApplyLayout window_ref "pane_ref list" bool

fun step_kind :: "step \<Rightarrow> string" where
  "step_kind StopSession = ''StopSession''"
| "step_kind (CreateSession _) = ''CreateSession''"
| "step_kind (CreateWindowWithSpawn _ _ _) = ''CreateWindowWithSpawn''"
| "step_kind (CreateWindowByMove _ _ _) = ''CreateWindowByMove''"
| "step_kind (SplitPane _ _) = ''SplitPane''"
| "step_kind (MovePane _ _) = ''MovePane''"
| "step_kind (Respawn _ _) = ''Respawn''"
| "step_kind (Retag _ _ _) = ''Retag''"
| "step_kind (KillPane _) = ''KillPane''"
| "step_kind (KillWindow _) = ''KillWindow''"
| "step_kind (OrderWindows _) = ''OrderWindows''"
| "step_kind (ApplyLayout _ _ _) = ''ApplyLayout''"

record converge_plan =
  cv_steps :: "step list"
  cv_predicted_respawn_persons :: "string list"
  cv_predicted_kill_panes :: "string list"
  cv_warnings :: "string list"
  cv_owned_panes :: "(string, string) omap"
  cv_owned_windows :: "(string, string) omap"

text \<open>The variants this planner raises.\<close>

datatype plan_err =
    SessionOwnership string string string
  | WindowNotFullyTagged string string
  | DuplicateWindow string string
  | WindowPaneDisagree string string
  | DuplicatePerson string string
  | Plan_Internal string

section \<open>What is ours\<close>

record owned =
  on_windows :: "observed_window list"
  on_panes :: "observed_pane list"
  on_warnings :: "string list"
  on_reap :: "observed_pane list"

definition ORG_LAUNCHER_PERSON_ENV :: string where "ORG_LAUNCHER_PERSON_ENV = ''ORG_LAUNCHER_PERSON''"

fun contains_text :: "string \<Rightarrow> string \<Rightarrow> bool" where
  "contains_text s t \<longleftrightarrow> starts_with s t \<or> (case s of [] \<Rightarrow> False | c # s' \<Rightarrow> contains_text s' t)"

declare contains_text.simps [simp del]

definition untagged :: "observed_pane \<Rightarrow> bool" where
  "untagged p \<longleftrightarrow> op_organization_id p = [] \<and> op_logical_window_id p = [] \<and> op_person_id p = []
     \<and> op_launch_hash p = []"

definition reapable_orphan_pane :: "observed_pane \<Rightarrow> string list \<Rightarrow> string list \<Rightarrow> string option" where
  "reapable_orphan_pane p known desired =
     (if \<not> untagged p then None
      else (case filter (\<lambda>i. contains_text (op_start_command p) (ORG_LAUNCHER_PERSON_ENV @ ''='' @ i)) known of
         [who] \<Rightarrow> if who \<in> set desired then None else Some who
       | _ \<Rightarrow> None))"

definition push_entry :: "string \<Rightarrow> string \<Rightarrow> (string, string list) omap \<Rightarrow> (string, string list) omap" where
  "push_entry k v m = om_put k ((case om_get m k of None \<Rightarrow> [] | Some vs \<Rightarrow> vs) @ [v]) m"

fun join_comma :: "string list \<Rightarrow> string" where
  "join_comma [] = []"
| "join_comma [s] = s"
| "join_comma (s # ss) = s @ '', '' @ join_comma ss"

definition own_window ::
  "string \<Rightarrow> observed_window list \<times> (string, string list) omap \<Rightarrow> observed_window
     \<Rightarrow> plan_err + (observed_window list \<times> (string, string list) omap)" where
  "own_window org s w =
     (if ow_organization_id w = [] \<and> ow_logical_id w = [] then Inr s
      else if ow_organization_id w \<noteq> org \<or> ow_logical_id w = []
      then Inl (WindowNotFullyTagged org (ow_tmux_id w))
      else Inr (fst s @ [w], push_entry (ow_logical_id w) (ow_tmux_id w) (snd s)))"

definition check_duplicates ::
  "(string \<Rightarrow> string \<Rightarrow> plan_err) \<Rightarrow> unit \<Rightarrow> string \<times> string list \<Rightarrow> plan_err + unit" where
  "check_duplicates err u e = (if 1 < length (snd e) then Inl (err (fst e) (join_comma (snd e))) else Inr ())"

definition quarantined :: "string \<Rightarrow> observed_pane \<Rightarrow> string" where
  "quarantined org p = ''Quarantined stray tmux pane '' @ op_tmux_id p @ '' in organization '' @ quoted org
     @ '': not fully ownership-tagged; skipped and left untouched so the rest of the company can converge''"

definition tag_corrected :: "observed_pane \<Rightarrow> observed_window \<Rightarrow> string" where
  "tag_corrected p w = ''Tmux pane '' @ op_tmux_id p @ '' is tagged for window '' @ quoted (op_logical_window_id p)
     @ '' but sits in '' @ quoted (ow_logical_id w)
     @ ''; it is one of                      this company's own and its tag is being corrected, so the pass                      continues''"

definition own_pane ::
  "string \<Rightarrow> string list \<Rightarrow> string list \<Rightarrow> (string, observed_window) omap
     \<Rightarrow> owned \<times> (string, string list) omap \<Rightarrow> observed_pane \<Rightarrow> plan_err + (owned \<times> (string, string list) omap)" where
  "own_pane org known desired window_by_tmux s p =
     (let o' = fst s; window = om_get window_by_tmux (op_tmux_window_id p)
      in if untagged p \<and> window = None then Inr s
         else (case window of
            Some w \<Rightarrow>
              if op_organization_id p = org \<and> op_logical_window_id p \<noteq> [] \<and> op_person_id p \<noteq> []
              then (if op_logical_window_id p \<noteq> ow_logical_id w \<and> op_person_id p \<notin> set known
                    then Inl (WindowPaneDisagree (op_tmux_id p) (ow_tmux_id w))
                    else Inr (o'\<lparr>on_panes := on_panes o' @ [p],
                          on_warnings := on_warnings o'
                            @ (if op_logical_window_id p \<noteq> ow_logical_id w then [tag_corrected p w] else [])\<rparr>,
                        push_entry (op_person_id p) (op_tmux_id p) (snd s)))
              else if reapable_orphan_pane p known desired \<noteq> None
              then Inr (o'\<lparr>on_reap := on_reap o' @ [p]\<rparr>, snd s)
              else Inr (o'\<lparr>on_warnings := on_warnings o' @ [quarantined org p]\<rparr>, snd s)
          | None \<Rightarrow> Inr (o'\<lparr>on_warnings := on_warnings o' @ [quarantined org p]\<rparr>, snd s)))"

definition assert_unambiguous :: "topology \<Rightarrow> observed_topology \<Rightarrow> plan_err + owned" where
  "assert_unambiguous desired observed =
     (let org = tp_organization desired
      in res_bind (res_fold (own_window org) ([], []) (ot_windows observed)) (\<lambda>(windows, by_logical).
         res_bind (res_fold (check_duplicates DuplicateWindow) () by_logical) (\<lambda>_.
         let window_by_tmux = om_of_list (map (\<lambda>w. (ow_tmux_id w, w)) windows)
         in res_bind (res_fold
              (own_pane org (tp_known_person_ids desired) (topology_people desired) window_by_tmux)
              (\<lparr>on_windows = windows, on_panes = [], on_warnings = [], on_reap = []\<rparr>, []) (ot_panes observed))
            (\<lambda>(o', by_person). res_bind (res_fold (check_duplicates DuplicatePerson) () by_person) (\<lambda>_. Inr o')))))"

section \<open>The desired walk\<close>

record work_window =
  ww_ref :: window_ref
  ww_logical_id :: string

record work_pane =
  wp_ref :: pane_ref
  wp_window :: window_ref
  wp_person_id :: string
  wp_launch_hash :: string

record walk =
  wk_steps :: "step list"
  wk_respawns :: "string list"
  wk_windows :: "work_window list"
  wk_panes :: "work_pane list"
  wk_dirty :: "window_ref list"
  wk_window_binding :: "(string, window_ref) omap"
  wk_pane_binding :: "(string, pane_ref) omap"

fun as_pane_id :: "pane_ref \<Rightarrow> string option" where
  "as_pane_id (Observed_Pane i) = Some i"
| "as_pane_id (Created_Pane _) = None"

definition spawn_spec_of :: "desired_pane \<Rightarrow> spawn_spec" where
  "spawn_spec_of p = \<lparr>sp_person_id = pn_person_id p, sp_launch_hash = pn_launch_hash p\<rparr>"

fun position :: "('a \<Rightarrow> bool) \<Rightarrow> 'a list \<Rightarrow> nat option" where
  "position P [] = None"
| "position P (x # xs) = (if P x then Some 0 else map_option Suc (position P xs))"

definition created_pane :: "desired_pane \<Rightarrow> window_ref \<Rightarrow> work_pane" where
  "created_pane p w = \<lparr>wp_ref = Created_Pane (pn_person_id p), wp_window = w, wp_person_id = pn_person_id p,
     wp_launch_hash = pn_launch_hash p\<rparr>"

definition has_pane :: "walk \<Rightarrow> desired_pane \<Rightarrow> bool" where
  "has_pane k p \<longleftrightarrow> list_ex (\<lambda>o'. wp_person_id o' = pn_person_id p) (wk_panes k)"

text \<open>The window of a desired window: the one there is, one made around a pane that exists, or a new one.\<close>

definition bind_window :: "walk \<Rightarrow> desired_window \<Rightarrow> plan_err + (walk \<times> window_ref)" where
  "bind_window k w = (case find (\<lambda>x. ww_logical_id x = wi_logical_id w) (wk_windows k) of
     Some x \<Rightarrow> Inr (k, ww_ref x)
   | None \<Rightarrow>
       let new = Created_Window (wi_logical_id w);
           with_window = (wk_windows k @ [\<lparr>ww_ref = new, ww_logical_id = wi_logical_id w\<rparr>])
       in (case find (has_pane k) (wi_panes w) of
            Some existing \<Rightarrow>
              (case position (\<lambda>o'. wp_person_id o' = pn_person_id existing) (wk_panes k) of
                 None \<Rightarrow> Inl (Plan_Internal (''lost pane for '' @ quoted (pn_person_id existing)))
               | Some index \<Rightarrow>
                   (case as_pane_id (wp_ref (wk_panes k ! index)) of
                      None \<Rightarrow> Inl (Plan_Internal (''cannot move in-plan pane for '' @ quoted (pn_person_id existing)))
                    | Some move_pane \<Rightarrow>
                        Inr (k\<lparr>wk_steps := wk_steps k @ [CreateWindowByMove (wi_logical_id w) (window_name w) move_pane],
                               wk_dirty := wk_dirty k @ [wp_window (wk_panes k ! index), new],
                               wk_panes := (wk_panes k)[index := (wk_panes k ! index)\<lparr>wp_window := new\<rparr>],
                               wk_windows := with_window\<rparr>, new)))
          | None \<Rightarrow>
              (case find (\<lambda>p. \<not> has_pane k p) (wi_panes w) of
                 None \<Rightarrow> Inl (Plan_Internal (''desired window '' @ quoted (wi_logical_id w)
                   @ '' has no missing pane to create around''))
               | Some first \<Rightarrow>
                   Inr (k\<lparr>wk_steps := wk_steps k
                            @ [CreateWindowWithSpawn (wi_logical_id w) (window_name w) (spawn_spec_of first)],
                          wk_dirty := wk_dirty k @ [new],
                          wk_panes := wk_panes k @ [created_pane first new],
                          wk_windows := with_window\<rparr>, new))))"

definition bind_pane :: "string \<Rightarrow> pane_ref \<Rightarrow> walk \<Rightarrow> walk" where
  "bind_pane pid ref k = k\<lparr>wk_pane_binding := om_put pid ref (wk_pane_binding k)\<rparr>"

text \<open>One desired pane whose person has none: a split of its window.\<close>

definition split_pane :: "window_ref \<Rightarrow> walk \<Rightarrow> desired_pane \<Rightarrow> walk" where
  "split_pane win k p = bind_pane (pn_person_id p) (Created_Pane (pn_person_id p))
     (k\<lparr>wk_steps := wk_steps k @ [SplitPane win (spawn_spec_of p)], wk_dirty := wk_dirty k @ [win],
        wk_panes := wk_panes k @ [created_pane p win]\<rparr>)"

definition move_pane_to :: "window_ref \<Rightarrow> nat \<Rightarrow> desired_pane \<Rightarrow> walk \<Rightarrow> plan_err + walk" where
  "move_pane_to win index p k =
     (let work = wk_panes k ! index
      in if wp_window work = win then Inr k
         else (case as_pane_id (wp_ref work) of
            None \<Rightarrow> Inl (Plan_Internal (''cannot move in-plan pane for '' @ quoted (pn_person_id p)))
          | Some pane \<Rightarrow>
              Inr (k\<lparr>wk_steps := wk_steps k @ [MovePane pane win], wk_dirty := wk_dirty k @ [wp_window work, win],
                     wk_panes := (wk_panes k)[index := work\<lparr>wp_window := win\<rparr>]\<rparr>)))"

definition respawn_pane :: "nat \<Rightarrow> desired_pane \<Rightarrow> walk \<Rightarrow> plan_err + (walk \<times> bool)" where
  "respawn_pane index p k =
     (let work = wk_panes k ! index
      in if wp_launch_hash work = pn_launch_hash p then Inr (k, False)
         else (case as_pane_id (wp_ref work) of
            None \<Rightarrow> Inl (Plan_Internal (''cannot respawn in-plan pane for '' @ quoted (pn_person_id p)))
          | Some pane \<Rightarrow>
              Inr (k\<lparr>wk_steps := wk_steps k @ [Respawn pane (spawn_spec_of p)],
                     wk_respawns := wk_respawns k @ [pn_person_id p],
                     wk_panes := (wk_panes k)[index := work\<lparr>wp_launch_hash := pn_launch_hash p\<rparr>]\<rparr>, True)))"

text \<open>Whether the tags a pane was observed with are not the ones it is to have.\<close>

definition drifted ::
  "string \<Rightarrow> (string, observed_pane) omap \<Rightarrow> desired_window \<Rightarrow> desired_pane \<Rightarrow> string \<Rightarrow> bool" where
  "drifted org tags w p pane = (case om_get tags pane of
     None \<Rightarrow> True
   | Some obs \<Rightarrow> op_organization_id obs \<noteq> org \<or> op_logical_window_id obs \<noteq> wi_logical_id w
       \<or> op_person_id obs \<noteq> pn_person_id p \<or> op_launch_hash obs \<noteq> pn_launch_hash p)"

definition retag_pane ::
  "string \<Rightarrow> (string, observed_pane) omap \<Rightarrow> desired_window \<Rightarrow> nat \<Rightarrow> desired_pane \<Rightarrow> bool \<Rightarrow> walk \<Rightarrow> walk" where
  "retag_pane org tags w index p respawned k = (case wp_ref (wk_panes k ! index) of
     Observed_Pane pane \<Rightarrow>
       if drifted org tags w p pane \<and> \<not> respawned
       then k\<lparr>wk_steps := wk_steps k @ [Retag pane (pn_person_id p) (pn_launch_hash p)]\<rparr> else k
   | Created_Pane _ \<Rightarrow> k)"

definition walk_pane ::
  "string \<Rightarrow> (string, observed_pane) omap \<Rightarrow> desired_window \<Rightarrow> window_ref \<Rightarrow> walk \<Rightarrow> desired_pane \<Rightarrow> plan_err + walk" where
  "walk_pane org tags w win k p =
     (case position (\<lambda>o'. wp_person_id o' = pn_person_id p) (wk_panes k) of
        None \<Rightarrow> Inr (split_pane win k p)
      | Some index \<Rightarrow>
          res_bind (move_pane_to win index p k) (\<lambda>k1.
          res_bind (respawn_pane index p k1) (\<lambda>(k2, respawned).
            let k3 = retag_pane org tags w index p respawned k2
            in Inr (bind_pane (pn_person_id p) (wp_ref (wk_panes k3 ! index)) k3))))"

definition walk_window ::
  "string \<Rightarrow> (string, observed_pane) omap \<Rightarrow> walk \<Rightarrow> desired_window \<Rightarrow> plan_err + walk" where
  "walk_window org tags k w =
     (if find (\<lambda>x. ww_logical_id x = wi_logical_id w) (wk_windows k) = None \<and> wi_panes w = [] then Inr k
      else res_bind (bind_window k w) (\<lambda>(k1, win).
        res_fold (walk_pane org tags w win)
          (k1\<lparr>wk_window_binding := om_put (wi_logical_id w) win (wk_window_binding k1)\<rparr>) (wi_panes w)))"

section \<open>The end of what is not desired\<close>

text \<open>The window of one's own that goes whole with its only pane.\<close>

definition own_window_of :: "owned \<Rightarrow> work_pane list \<Rightarrow> nat \<Rightarrow> string option" where
  "own_window_of o' panes index =
     (let work = panes ! index;
          alone = \<not> list_ex (\<lambda>j. j \<noteq> index \<and> wp_window (panes ! j) = wp_window work) [0..<length panes]
      in case wp_window work of
        Observed_Window window_id \<Rightarrow>
          if alone then map_option ow_logical_id (find (\<lambda>w. ow_tmux_id w = window_id
            \<and> person_window_person_id (ow_logical_id w) = Some (wp_person_id work)) (on_windows o'))
          else None
      | Created_Window _ \<Rightarrow> None)"

record ending =
  en_steps :: "step list"
  en_kills :: "string list"
  en_dirty :: "window_ref list"
  en_killed_windows :: "string list"

definition end_pane :: "owned \<Rightarrow> string list \<Rightarrow> work_pane list \<Rightarrow> ending \<Rightarrow> nat \<Rightarrow> ending" where
  "end_pane o' desired_people panes e index =
     (let work = panes ! index
      in if wp_person_id work \<in> set desired_people then e
         else (case wp_ref work of
            Created_Pane _ \<Rightarrow> e
          | Observed_Pane pane \<Rightarrow>
              (case own_window_of o' panes index of
                 Some logical_id \<Rightarrow> e\<lparr>en_steps := en_steps e @ [KillWindow (wp_window work)],
                     en_killed_windows := logical_id # en_killed_windows e, en_kills := en_kills e @ [pane]\<rparr>
               | None \<Rightarrow> e\<lparr>en_steps := en_steps e @ [KillPane pane], en_dirty := en_dirty e @ [wp_window work],
                     en_kills := en_kills e @ [pane]\<rparr>)))"

definition reap_pane :: "ending \<Rightarrow> observed_pane \<Rightarrow> ending" where
  "reap_pane e orphan = e\<lparr>en_steps := en_steps e @ [KillPane (op_tmux_id orphan)],
     en_kills := en_kills e @ [op_tmux_id orphan],
     en_dirty := en_dirty e @ [Observed_Window (op_tmux_window_id orphan)]\<rparr>"

definition stale_window :: "topology \<Rightarrow> ending \<Rightarrow> observed_window \<Rightarrow> bool" where
  "stale_window desired e w \<longleftrightarrow> ow_logical_id w \<notin> wi_logical_id ` set (tp_windows desired)
     \<and> ow_logical_id w \<notin> set (en_killed_windows e)
     \<and> \<not> (ow_protected_ui w \<and> person_window_person_id (ow_logical_id w) = None)
     \<and> ow_logical_id w \<noteq> FOCUS_WINDOW_ID
     \<and> overview_department_id (ow_logical_id w) = None"

definition end_window :: "topology \<Rightarrow> ending \<Rightarrow> observed_window \<Rightarrow> ending" where
  "end_window desired e w =
     (if stale_window desired e w
      then e\<lparr>en_steps := en_steps e @ [KillWindow (Observed_Window (ow_tmux_id w))],
             en_killed_windows := ow_logical_id w # en_killed_windows e\<rparr>
      else e)"

section \<open>Order and layout\<close>

definition orders :: "string \<Rightarrow> bool" where
  "orders logical \<longleftrightarrow> logical \<noteq> FOCUS_WINDOW_ID \<and> overview_department_id logical = None"

definition order_steps :: "topology \<Rightarrow> owned \<Rightarrow> (string, window_ref) omap \<Rightarrow> string list \<Rightarrow> step list" where
  "order_steps desired o' binding killed =
     (let desired_order = filter (\<lambda>l. orders l \<and> om_has binding l) (map wi_logical_id (tp_windows desired));
          observed_order = map ow_logical_id (filter (\<lambda>w. orders (ow_logical_id w)
            \<and> ow_logical_id w \<in> wi_logical_id ` set (tp_windows desired) \<and> ow_logical_id w \<notin> set killed) (on_windows o'))
      in if 1 < length desired_order \<and> desired_order \<noteq> observed_order
         then [OrderWindows (map (\<lambda>l. the (om_get binding l)) desired_order)] else [])"

fun is_observed :: "pane_ref \<Rightarrow> bool" where
  "is_observed (Observed_Pane _) = True"
| "is_observed (Created_Pane _) = False"

text \<open>\<open>pane_binding[..]\<close> panics when the person is not bound.\<close>

fun bound_panes :: "(string, pane_ref) omap \<Rightarrow> desired_pane list \<Rightarrow> pane_ref list option" where
  "bound_panes binding [] = Some []"
| "bound_panes binding (p # ps) = (case (om_get binding (pn_person_id p), bound_panes binding ps) of
     (Some ref, Some refs) \<Rightarrow> Some (ref # refs) | _ \<Rightarrow> None)"

definition layout_step ::
  "owned \<Rightarrow> walk \<Rightarrow> window_ref list \<Rightarrow> desired_window \<Rightarrow> step list option" where
  "layout_step o' k dirty w = (case om_get (wk_window_binding k) (wi_logical_id w) of
     None \<Rightarrow> Some []
   | Some win \<Rightarrow>
       if wi_panes w = [] then Some []
       else (case bound_panes (wk_pane_binding k) (wi_panes w) of
          None \<Rightarrow> None
        | Some panes \<Rightarrow>
            (let retire = list_ex (\<lambda>x. ow_logical_id x = wi_logical_id w \<and> ow_sleeping_notice x) (on_windows o')
                   \<and> list_ex is_observed panes
             in if win \<notin> set dirty \<and> \<not> retire then Some []
                else Some [ApplyLayout win panes retire])))"

fun layout_steps ::
  "owned \<Rightarrow> walk \<Rightarrow> window_ref list \<Rightarrow> desired_window list \<Rightarrow> step list option" where
  "layout_steps o' k dirty [] = Some []"
| "layout_steps o' k dirty (w # ws) = (case (layout_step o' k dirty w, layout_steps o' k dirty ws) of
     (Some s, Some ss) \<Rightarrow> Some (s @ ss) | _ \<Rightarrow> None)"

section \<open>The plan\<close>

definition first_walk :: "owned \<Rightarrow> walk" where
  "first_walk o' = \<lparr>wk_steps = [], wk_respawns = [],
     wk_windows = map (\<lambda>w. \<lparr>ww_ref = Observed_Window (ow_tmux_id w), ww_logical_id = ow_logical_id w\<rparr>) (on_windows o'),
     wk_panes = map (\<lambda>p. \<lparr>wp_ref = Observed_Pane (op_tmux_id p), wp_window = Observed_Window (op_tmux_window_id p),
       wp_person_id = op_person_id p, wp_launch_hash = op_launch_hash p\<rparr>) (on_panes o'),
     wk_dirty = [], wk_window_binding = [], wk_pane_binding = []\<rparr>"

definition create_session :: "desired_window \<Rightarrow> desired_pane \<Rightarrow> walk \<Rightarrow> walk" where
  "create_session w p k =
     (let new = Created_Window (wi_logical_id w)
      in k\<lparr>wk_steps := wk_steps k @ [CreateSession (spawn_spec_of p)], wk_dirty := wk_dirty k @ [new],
           wk_windows := wk_windows k @ [\<lparr>ww_ref = new, ww_logical_id = wi_logical_id w\<rparr>],
           wk_panes := wk_panes k @ [created_pane p new]\<rparr>)"

definition plan_of :: "owned \<Rightarrow> step list \<Rightarrow> string list \<Rightarrow> string list \<Rightarrow> converge_plan" where
  "plan_of o' steps respawns kills = \<lparr>cv_steps = steps, cv_predicted_respawn_persons = respawns,
     cv_predicted_kill_panes = kills, cv_warnings = on_warnings o',
     cv_owned_panes = om_of_list (map (\<lambda>p. (op_person_id p, op_tmux_id p)) (on_panes o')),
     cv_owned_windows = om_of_list (map (\<lambda>w. (ow_logical_id w, ow_tmux_id w)) (on_windows o'))\<rparr>"

definition endings :: "topology \<Rightarrow> owned \<Rightarrow> work_pane list \<Rightarrow> ending" where
  "endings desired o' panes =
     foldl (end_window desired)
       (foldl reap_pane
         (foldl (end_pane o' (topology_people desired) panes)
           \<lparr>en_steps = [], en_kills = [], en_dirty = [], en_killed_windows = []\<rparr> [0..<length panes])
         (on_reap o'))
       (on_windows o')"

definition finish_plan :: "topology \<Rightarrow> owned \<Rightarrow> walk \<Rightarrow> converge_plan option" where
  "finish_plan desired o' k =
     (let e = endings desired o' (wk_panes k)
      in case layout_steps o' k (wk_dirty k @ en_dirty e) (tp_windows desired) of
        None \<Rightarrow> None
      | Some layouts \<Rightarrow>
          Some (plan_of o' (wk_steps k @ en_steps e
            @ order_steps desired o' (wk_window_binding k) (en_killed_windows e) @ layouts)
            (wk_respawns k) (en_kills e)))"

definition plan_start :: "topology \<Rightarrow> observed_topology \<Rightarrow> owned \<Rightarrow> walk option" where
  "plan_start desired observed o' =
     (if ot_session_exists observed then Some (first_walk o')
      else (case wi_panes (hd (tp_windows desired)) of
         [] \<Rightarrow> None
       | p # _ \<Rightarrow> Some (create_session (hd (tp_windows desired)) p (first_walk o'))))"

definition compute_converge_plan ::
  "topology \<Rightarrow> observed_topology \<Rightarrow> (plan_err + converge_plan) option" where
  "compute_converge_plan desired observed =
     (if ot_session_exists observed \<and> ot_session_organization observed \<noteq> tp_organization desired
      then Some (Inl (SessionOwnership (tp_session desired)
        (if ot_session_organization observed = [] then ''missing'' else ot_session_organization observed)
        (tp_organization desired)))
      else (case assert_unambiguous desired observed of
         Inl e \<Rightarrow> Some (Inl e)
       | Inr o' \<Rightarrow>
           if tp_windows desired = []
           then Some (Inr (if ot_session_exists observed
             then plan_of o' [StopSession] [] (map op_tmux_id (on_panes o')) else plan_of o' [] [] []))
           else (case plan_start desired observed o' of
              None \<Rightarrow> None
            | Some k0 \<Rightarrow>
                (case res_fold (walk_window (tp_organization desired)
                    (om_of_list (map (\<lambda>p. (op_tmux_id p, p)) (on_panes o')))) k0 (tp_windows desired) of
                   Inl e \<Rightarrow> Some (Inl e)
                 | Inr k \<Rightarrow> map_option Inr (finish_plan desired o' k)))))"

end
