(* ===== verification/Plan_Contract.thy ===== *)
theory Plan_Contract
  imports Converge_Plan
begin

text \<open>
  What a converge plan does when it is performed. \<open>perform\<close> is the abstract effect of a step on who sits in
  which pane of which window: the specification the plan is held to, not a model of the terminal. The plan
  of any coherent observation is computed, and performing it leaves exactly the desired people, each in
  their window with their launch hash.
\<close>

section \<open>Performing steps\<close>

record occupant =
  oc_window :: window_ref
  oc_person :: string
  oc_hash :: string

type_synonym floor = "pane_ref \<Rightarrow> occupant option"

definition spawned :: "window_ref \<Rightarrow> spawn_spec \<Rightarrow> floor \<Rightarrow> floor" where
  "spawned win spec E = E(Created_Pane (sp_person_id spec) \<mapsto>
     \<lparr>oc_window = win, oc_person = sp_person_id spec, oc_hash = sp_launch_hash spec\<rparr>)"

definition adjusted :: "string \<Rightarrow> (occupant \<Rightarrow> occupant) \<Rightarrow> floor \<Rightarrow> floor" where
  "adjusted pane f E = E(Observed_Pane pane := map_option f (E (Observed_Pane pane)))"

text \<open>A session is created with its first window; which one that is, the step does not say.\<close>

fun perform :: "window_ref \<Rightarrow> floor \<Rightarrow> step \<Rightarrow> floor" where
  "perform first E StopSession = Map.empty"
| "perform first E (CreateSession spec) = spawned first spec E"
| "perform first E (CreateWindowWithSpawn w name spec) = spawned (Created_Window w) spec E"
| "perform first E (CreateWindowByMove w name pane) = adjusted pane (oc_window_update (\<lambda>_. Created_Window w)) E"
| "perform first E (SplitPane win spec) = spawned win spec E"
| "perform first E (MovePane pane win) = adjusted pane (oc_window_update (\<lambda>_. win)) E"
| "perform first E (Respawn pane spec) = adjusted pane (\<lambda>o'. o'\<lparr>oc_person := sp_person_id spec, oc_hash := sp_launch_hash spec\<rparr>) E"
| "perform first E (Retag pane pid hash) = adjusted pane (\<lambda>o'. o'\<lparr>oc_person := pid, oc_hash := hash\<rparr>) E"
| "perform first E (KillPane pane) = E(Observed_Pane pane := None)"
| "perform first E (KillWindow win) = (\<lambda>r. case E r of None \<Rightarrow> None
     | Some o' \<Rightarrow> if oc_window o' = win then None else Some o')"
| "perform first E (OrderWindows _) = E"
| "perform first E (ApplyLayout _ _ _) = E"

definition performs :: "window_ref \<Rightarrow> step list \<Rightarrow> floor \<Rightarrow> floor" where
  "performs first steps E = foldl (perform first) E steps"

lemma performs_append: "performs first (xs @ ys) E = performs first ys (performs first xs E)"
  by (simp add: performs_def)

lemma performs_Nil [simp]: "performs first [] E = E"
  by (simp add: performs_def)

lemma performs_one [simp]: "performs first [s] E = perform first E s"
  by (simp add: performs_def)

definition seat :: "work_pane \<Rightarrow> occupant" where
  "seat w = \<lparr>oc_window = wp_window w, oc_person = wp_person_id w, oc_hash = wp_launch_hash w\<rparr>"

definition floor_of :: "work_pane list \<Rightarrow> floor" where
  "floor_of ws = map_of (map (\<lambda>w. (wp_ref w, seat w)) ws)"

lemma floor_of_iff:
  assumes "distinct (map wp_ref ws)"
  shows "floor_of ws r = Some o' \<longleftrightarrow> (\<exists>w \<in> set ws. wp_ref w = r \<and> seat w = o')"
proof -
  have "distinct (map fst (map (\<lambda>w. (wp_ref w, seat w)) ws))" using assms by (simp add: comp_def)
  then show ?thesis unfolding floor_of_def by (auto simp: map_of_eq_Some_iff)
qed

lemma floor_of_None: "floor_of ws r = None \<longleftrightarrow> r \<notin> wp_ref ` set ws"
  by (auto simp: floor_of_def map_of_eq_None_iff image_image)

lemma floor_of_append:
  assumes "wp_ref n \<notin> wp_ref ` set ws"
  shows "floor_of (ws @ [n]) = (floor_of ws)(wp_ref n \<mapsto> seat n)"
proof (rule ext)
  fix r
  have "floor_of ws (wp_ref n) = None" using assms by (simp add: floor_of_None)
  then show "floor_of (ws @ [n]) r = ((floor_of ws)(wp_ref n \<mapsto> seat n)) r"
    by (auto simp: floor_of_def map_add_def split: option.splits)
qed

lemma floor_of_update:
  assumes "distinct (map wp_ref ws)" "i < length ws" "wp_ref w = wp_ref (ws ! i)"
  shows "floor_of (ws[i := w]) = (floor_of ws)(wp_ref w \<mapsto> seat w)"
proof (rule ext)
  fix r
  have refs: "map wp_ref (ws[i := w]) = map wp_ref ws"
    using assms(2,3) by (metis list_update_id map_update nth_map)
  then have d: "distinct (map wp_ref (ws[i := w]))" using assms(1) by simp
  show "floor_of (ws[i := w]) r = ((floor_of ws)(wp_ref w \<mapsto> seat w)) r"
  proof (cases "r = wp_ref w")
    case True
    have "w \<in> set (ws[i := w])" using assms(2) by (rule set_update_memI)
    then have "floor_of (ws[i := w]) r = Some (seat w)" using floor_of_iff[OF d] True by blast
    then show ?thesis using True by simp
  next
    case False
    have mem: "x \<in> set (ws[i := w]) \<longleftrightarrow> x \<in> set ws" if "wp_ref x = r" for x
    proof -
      have "j \<noteq> i" if "j < length ws" "ws[i := w] ! j = x \<or> ws ! j = x" for j
        using that \<open>wp_ref x = r\<close> False assms(2,3) by auto
      then show ?thesis by (metis (no_types, lifting) in_set_conv_nth length_list_update nth_list_update_neq)
    qed
    have "floor_of (ws[i := w]) r = floor_of ws r"
    proof (cases "floor_of ws r")
      case None
      then have "r \<notin> set (map wp_ref (ws[i := w]))" using refs by (simp add: floor_of_None)
      then have "floor_of (ws[i := w]) r = None" unfolding floor_of_None by simp
      then show ?thesis using None by simp
    next
      case (Some o')
      then obtain x where "x \<in> set ws" "wp_ref x = r" "seat x = o'" using floor_of_iff[OF assms(1)] by blast
      then have "floor_of (ws[i := w]) r = Some o'" using mem floor_of_iff[OF d] by blast
      then show ?thesis using Some by simp
    qed
    then show ?thesis using False by simp
  qed
qed

section \<open>What is owned\<close>

lemma push_entry_get:
  "om_get (push_entry k v m) l = (if l = k then Some ((case om_get m k of None \<Rightarrow> [] | Some vs \<Rightarrow> vs) @ [v]) else om_get m l)"
  by (simp add: push_entry_def store_simps)

definition grouped :: "('a \<Rightarrow> string) \<Rightarrow> ('a \<Rightarrow> string) \<Rightarrow> 'a list \<Rightarrow> (string, string list) omap \<Rightarrow> bool" where
  "grouped f g xs m \<longleftrightarrow> om_wf m \<and> (\<forall>l. om_get m l = (if filter (\<lambda>x. f x = l) xs = [] then None
     else Some (map g (filter (\<lambda>x. f x = l) xs))))"

lemma grouped_push: "grouped f g xs m \<Longrightarrow> grouped f g (xs @ [x]) (push_entry (f x) (g x) m)"
proof -
  assume g: "grouped f g xs m"
  then have "om_wf (push_entry (f x) (g x) m)" by (simp add: grouped_def push_entry_def om_wf_put)
  then show ?thesis using g by (auto simp: grouped_def push_entry_get)
qed

lemma check_duplicates_iff:
  "res_fold (check_duplicates err) u es = Inr u' \<longleftrightarrow> (\<forall>e \<in> set es. length (snd e) \<le> 1)"
  by (induction es arbitrary: u) (auto simp: check_duplicates_def res_bind_Inr_iff)

lemma grouped_distinct:
  assumes "grouped f g xs m" "\<forall>e \<in> set m. length (snd e) \<le> 1"
  shows "distinct (map f xs)"
proof -
  have short: "length (filter (\<lambda>x. f x = l) xs) \<le> 1" for l
  proof (cases "filter (\<lambda>x. f x = l) xs = []")
    case False
    then have "(l, map g (filter (\<lambda>x. f x = l) xs)) \<in> set m"
      using assms(1) om_mem_iff[of m] by (simp add: grouped_def)
    then show ?thesis using assms(2) by fastforce
  qed simp
  have "distinct (map f ys)" if "\<And>l. length (filter (\<lambda>x. f x = l) ys) \<le> 1" for ys
    using that
  proof (induction ys)
    case (Cons y ys)
    have "f x \<noteq> f y" if "x \<in> set ys" for x
    proof
      assume "f x = f y"
      then have "filter (\<lambda>x. f x = f y) ys \<noteq> []" using that by (auto simp: filter_empty_conv)
      then show False using Cons.prems[of "f y"] by (cases "filter (\<lambda>x. f x = f y) ys") auto
    qed
    moreover have "length (filter (\<lambda>x. f x = l) ys) \<le> 1" for l using Cons.prems[of l] by (auto split: if_splits)
    ultimately show ?case using Cons.IH by force
  qed simp
  then show ?thesis using short by blast
qed


definition ours :: "string \<Rightarrow> observed_window list \<Rightarrow> observed_pane \<Rightarrow> bool" where
  "ours org windows p \<longleftrightarrow> op_organization_id p = org \<and> op_logical_window_id p \<noteq> [] \<and> op_person_id p \<noteq> []
     \<and> op_tmux_window_id p \<in> ow_tmux_id ` set windows"

lemma om_of_list_keys:
  "om_get (om_of_list es) k \<noteq> None \<longleftrightarrow> k \<in> fst ` set es"
proof -
  have "om_get (foldl (\<lambda>m e. om_put (fst e) (snd e) m) m es) k \<noteq> None \<longleftrightarrow> om_get m k \<noteq> None \<or> k \<in> fst ` set es" for m
    by (induction es arbitrary: m) (auto simp: store_simps)
  then show ?thesis by (simp add: om_of_list_def)
qed

definition tagged_window :: "observed_window \<Rightarrow> bool" where
  "tagged_window w \<longleftrightarrow> \<not> (ow_organization_id w = [] \<and> ow_logical_id w = [])"

lemma own_windows_fold:
  assumes "res_fold (own_window org) (ws, m) xs = Inr (ws', m')" "grouped ow_logical_id ow_tmux_id ws m"
  shows "ws' = ws @ filter tagged_window xs \<and> grouped ow_logical_id ow_tmux_id ws' m'
     \<and> (\<forall>w \<in> set (filter tagged_window xs). ow_organization_id w = org \<and> ow_logical_id w \<noteq> [])"
  using assms
proof (induction xs arbitrary: ws m)
  case (Cons x xs)
  show ?case
  proof (cases "tagged_window x")
    case False
    then have "own_window org (ws, m) x = Inr (ws, m)" by (simp add: own_window_def tagged_window_def)
    then show ?thesis using Cons False by auto
  next
    case True
    then have x: "own_window org (ws, m) x = Inr (ws @ [x], push_entry (ow_logical_id x) (ow_tmux_id x) m)"
      "ow_organization_id x = org" "ow_logical_id x \<noteq> []"
      using Cons.prems(1) by (auto simp: own_window_def tagged_window_def res_bind_Inr_iff split: if_splits)
    have "res_fold (own_window org) (ws @ [x], push_entry (ow_logical_id x) (ow_tmux_id x) m) xs = Inr (ws', m')"
      using Cons.prems(1) x(1) by simp
    from Cons.IH[OF this grouped_push[OF Cons.prems(2)]] show ?thesis using x(2,3) True by auto
  qed
qed simp

definition reaped :: "string \<Rightarrow> string list \<Rightarrow> string list \<Rightarrow> observed_window list \<Rightarrow> observed_pane \<Rightarrow> bool" where
  "reaped org known desired windows p \<longleftrightarrow> \<not> ours org windows p \<and> op_tmux_window_id p \<in> ow_tmux_id ` set windows
     \<and> reapable_orphan_pane p known desired \<noteq> None"

lemma own_pane_cases:
  assumes "own_pane org known desired (om_of_list (map (\<lambda>w. (ow_tmux_id w, w)) windows)) s p = Inr s'"
  shows "ours org windows p \<and> on_panes (fst s') = on_panes (fst s) @ [p] \<and> on_reap (fst s') = on_reap (fst s)
       \<and> snd s' = push_entry (op_person_id p) (op_tmux_id p) (snd s)
     \<or> \<not> ours org windows p \<and> on_panes (fst s') = on_panes (fst s) \<and> snd s' = snd s
       \<and> on_reap (fst s') = on_reap (fst s) @ (if reaped org known desired windows p then [p] else [])"
    and "on_windows (fst s') = on_windows (fst s)"
proof -
  let ?m = "om_of_list (map (\<lambda>w. (ow_tmux_id w, w)) windows)"
  have win: "op_tmux_window_id p \<in> ow_tmux_id ` set windows \<longleftrightarrow> om_get ?m (op_tmux_window_id p) \<noteq> None"
    unfolding om_of_list_keys by (simp add: image_image)
  have "op_tmux_window_id p \<notin> ow_tmux_id ` set windows" if "om_get ?m (op_tmux_window_id p) = None"
    using win that by simp
  moreover have "op_tmux_window_id p \<in> ow_tmux_id ` set windows" if "om_get ?m (op_tmux_window_id p) = Some w" for w
    using win that by simp
  ultimately show "ours org windows p \<and> on_panes (fst s') = on_panes (fst s) @ [p] \<and> on_reap (fst s') = on_reap (fst s)
       \<and> snd s' = push_entry (op_person_id p) (op_tmux_id p) (snd s)
     \<or> \<not> ours org windows p \<and> on_panes (fst s') = on_panes (fst s) \<and> snd s' = snd s
       \<and> on_reap (fst s') = on_reap (fst s) @ (if reaped org known desired windows p then [p] else [])"
    using assms
    by (auto simp: own_pane_def ours_def reaped_def Let_def split: if_splits option.splits)
  show "on_windows (fst s') = on_windows (fst s)"
    using assms by (auto simp: own_pane_def Let_def split: if_splits option.splits)
qed

lemma own_panes_fold:
  assumes "res_fold (own_pane org known desired (om_of_list (map (\<lambda>w. (ow_tmux_id w, w)) windows))) s xs = Inr s'"
    and "grouped op_person_id op_tmux_id (on_panes (fst s)) (snd s)"
  shows "on_panes (fst s') = on_panes (fst s) @ filter (ours org windows) xs
     \<and> on_reap (fst s') = on_reap (fst s) @ filter (reaped org known desired windows) xs
     \<and> on_windows (fst s') = on_windows (fst s)
     \<and> grouped op_person_id op_tmux_id (on_panes (fst s')) (snd s')"
  using assms
proof (induction xs arbitrary: s)
  case (Cons x xs)
  let ?step = "own_pane org known desired (om_of_list (map (\<lambda>w. (ow_tmux_id w, w)) windows))"
  obtain s1 where s1: "?step s x = Inr s1" "res_fold ?step s1 xs = Inr s'"
    using Cons.prems(1) by (auto simp: res_bind_Inr_iff)
  note c = own_pane_cases[OF s1(1)]
  have g: "grouped op_person_id op_tmux_id (on_panes (fst s1)) (snd s1)"
    using c(1) Cons.prems(2) grouped_push[OF Cons.prems(2), of x] by auto
  have not_both: "ours org windows x \<Longrightarrow> \<not> reaped org known desired windows x" by (simp add: reaped_def)
  show ?case using Cons.IH[OF s1(2) g] c not_both by auto
qed simp

lemma grouped_Nil: "grouped f g [] []"
  by (simp add: grouped_def om_wf_def)

text \<open>What \<open>assert_unambiguous\<close> answers: what is tagged as ours, each window and each person once.\<close>

lemma assert_unambiguous_shape:
  assumes "assert_unambiguous desired observed = Inr o'"
  shows "on_windows o' = filter tagged_window (ot_windows observed)"
    "on_panes o' = filter (ours (tp_organization desired) (on_windows o')) (ot_panes observed)"
    "on_reap o' = filter (reaped (tp_organization desired) (tp_known_person_ids desired) (topology_people desired)
       (on_windows o')) (ot_panes observed)"
    "distinct (map ow_logical_id (on_windows o'))" "distinct (map op_person_id (on_panes o'))"
    "\<forall>w \<in> set (on_windows o'). ow_organization_id w = tp_organization desired \<and> ow_logical_id w \<noteq> []"
proof -
  let ?org = "tp_organization desired"
  obtain ws m where w: "res_fold (own_window ?org) ([], []) (ot_windows observed) = Inr (ws, m)"
    "res_fold (check_duplicates DuplicateWindow) () m = Inr ()"
    using assms by (auto simp: assert_unambiguous_def res_bind_Inr_iff Let_def)
  obtain byp where p: "res_fold (own_pane ?org (tp_known_person_ids desired) (topology_people desired)
       (om_of_list (map (\<lambda>w. (ow_tmux_id w, w)) ws)))
      (\<lparr>on_windows = ws, on_panes = [], on_warnings = [], on_reap = []\<rparr>, []) (ot_panes observed) = Inr (o', byp)"
    "res_fold (check_duplicates DuplicatePerson) () byp = Inr ()"
    using assms w(1) by (auto simp: assert_unambiguous_def res_bind_Inr_iff Let_def)
  note W = own_windows_fold[OF w(1) grouped_Nil]
  have P: "on_panes o' = filter (ours ?org ws) (ot_panes observed)"
    "on_reap o' = filter (reaped ?org (tp_known_person_ids desired) (topology_people desired) ws) (ot_panes observed)"
    "on_windows o' = ws" "grouped op_person_id op_tmux_id (on_panes o') byp"
    using own_panes_fold[OF p(1)] grouped_Nil by auto
  show "on_windows o' = filter tagged_window (ot_windows observed)" using W P by simp
  show "on_panes o' = filter (ours ?org (on_windows o')) (ot_panes observed)" using P by simp
  show "on_reap o' = filter (reaped ?org (tp_known_person_ids desired) (topology_people desired) (on_windows o')) (ot_panes observed)"
    using P by simp
  show "distinct (map ow_logical_id (on_windows o'))"
    unfolding P(3) by (rule grouped_distinct) (use W w(2) in \<open>auto simp: check_duplicates_iff\<close>)
  show "distinct (map op_person_id (on_panes o'))"
    by (rule grouped_distinct) (use P(4) p(2) in \<open>auto simp: check_duplicates_iff\<close>)
  show "\<forall>w \<in> set (on_windows o'). ow_organization_id w = ?org \<and> ow_logical_id w \<noteq> []" using W P(3) by simp
qed


section \<open>The walk\<close>

text \<open>The window a desired one is: the owned window of that name, or the one made for it.\<close>

definition target :: "observed_window list \<Rightarrow> string \<Rightarrow> window_ref" where
  "target windows l = (case find (\<lambda>w. ow_logical_id w = l) windows of
     Some w \<Rightarrow> Observed_Window (ow_tmux_id w) | None \<Rightarrow> Created_Window l)"

definition work_windows_of :: "observed_window list \<Rightarrow> work_window list" where
  "work_windows_of windows =
     map (\<lambda>w. \<lparr>ww_ref = Observed_Window (ow_tmux_id w), ww_logical_id = ow_logical_id w\<rparr>) windows"

text \<open>
  The state of the walk between two windows: performing the steps so far gives the seats it keeps, panes
  made so far are the desired ones, in a window that is there, and every window known has the reference it
  is to have.
\<close>

definition made_right :: "topology \<Rightarrow> observed_window list \<Rightarrow> walk \<Rightarrow> work_pane \<Rightarrow> bool" where
  "made_right t windows k x \<longleftrightarrow> wp_ref x = Created_Pane (wp_person_id x)
     \<and> (\<exists>dw \<in> set (tp_windows t). \<exists>q \<in> set (wi_panes dw). pn_person_id q = wp_person_id x
          \<and> pn_launch_hash q = wp_launch_hash x \<and> wp_window x = target windows (wi_logical_id dw)
          \<and> wi_logical_id dw \<in> ww_logical_id ` set (wk_windows k))"

fun gentle :: "step \<Rightarrow> bool" where
  "gentle StopSession = False"
| "gentle (KillPane _) = False"
| "gentle (KillWindow _) = False"
| "gentle s = True"

fun respawned :: "step \<Rightarrow> string list" where
  "respawned (Respawn _ spec) = [sp_person_id spec]"
| "respawned s = []"

definition walk_ok :: "topology \<Rightarrow> window_ref \<Rightarrow> floor \<Rightarrow> observed_window list \<Rightarrow> walk \<Rightarrow> bool" where
  "walk_ok t first E0 windows k \<longleftrightarrow>
     performs first (wk_steps k) E0 = floor_of (wk_panes k) \<and> list_all gentle (wk_steps k)
     \<and> wk_respawns k = concat (map respawned (wk_steps k))
     \<and> distinct (map wp_ref (wk_panes k)) \<and> distinct (map wp_person_id (wk_panes k))
     \<and> (\<forall>x \<in> set (wk_panes k). is_observed (wp_ref x) \<or> made_right t windows k x)
     \<and> (\<exists>made. wk_windows k = work_windows_of windows @ made
          \<and> (\<forall>x \<in> set made. ww_ref x = target windows (ww_logical_id x)))"

text \<open>A person of the window being walked is seated when they have the pane they are to have.\<close>

definition seated :: "window_ref \<Rightarrow> walk \<Rightarrow> desired_pane \<Rightarrow> bool" where
  "seated win k p \<longleftrightarrow> (\<exists>w \<in> set (wk_panes k). wp_person_id w = pn_person_id p \<and> wp_window w = win
     \<and> wp_launch_hash w = pn_launch_hash p \<and> om_get (wk_pane_binding k) (pn_person_id p) = Some (wp_ref w))"

text \<open>What walking some panes leaves alone: everybody else's pane and binding, and the windows.\<close>

definition leaves :: "string set \<Rightarrow> walk \<Rightarrow> walk \<Rightarrow> bool" where
  "leaves pids k k' \<longleftrightarrow>
     (\<forall>w. wp_person_id w \<notin> pids \<longrightarrow> (w \<in> set (wk_panes k') \<longleftrightarrow> w \<in> set (wk_panes k)))
     \<and> (\<forall>pid. pid \<notin> pids \<longrightarrow> om_get (wk_pane_binding k') pid = om_get (wk_pane_binding k) pid)"

lemma leaves_refl [simp]: "leaves pids k k"
  by (simp add: leaves_def)

lemma leaves_trans: "leaves A k1 k2 \<Longrightarrow> leaves B k2 k3 \<Longrightarrow> leaves (A \<union> B) k1 k3"
  by (auto simp: leaves_def)

lemma leaves_mono: "leaves A k k' \<Longrightarrow> A \<subseteq> B \<Longrightarrow> leaves B k k'"
  by (auto simp: leaves_def)

lemma find_hit: "find P xs = Some x \<Longrightarrow> x \<in> set xs \<and> P x"
  by (induction xs) (auto split: if_splits)

lemma find_append_split: "find P (xs @ ys) = (case find P xs of None \<Rightarrow> find P ys | Some x \<Rightarrow> Some x)"
  by (induction xs) auto

lemma target_find:
  assumes "wk_windows k = work_windows_of windows @ made" "\<forall>x \<in> set made. ww_ref x = target windows (ww_logical_id x)"
    and "find (\<lambda>x. ww_logical_id x = l) (wk_windows k) = Some x"
  shows "ww_ref x = target windows l"
proof -
  have "case find (\<lambda>x. ww_logical_id x = l) (work_windows_of ws) of
      Some x \<Rightarrow> ww_ref x = target ws l | None \<Rightarrow> find (\<lambda>w. ow_logical_id w = l) ws = None" for ws
    by (induction ws) (auto simp: work_windows_of_def target_def split: option.splits)
  from this[of windows] have known: "find (\<lambda>x. ww_logical_id x = l) (work_windows_of windows) = Some y
      \<Longrightarrow> ww_ref y = target windows l" for y by auto
  show ?thesis
  proof (cases "find (\<lambda>x. ww_logical_id x = l) (work_windows_of windows)")
    case None
    then have m: "find (\<lambda>x. ww_logical_id x = l) made = Some x"
      using assms(1,3) by (simp add: find_append_split)
    have "x \<in> set made \<and> ww_logical_id x = l" using m by (auto simp: find_Some_iff)
    then show ?thesis using assms(2) by auto
  next
    case (Some y)
    then show ?thesis using known assms(1,3) by (simp add: find_append_split)
  qed
qed

lemma position_Some:
  assumes "position P xs = Some i"
  shows "i < length xs" "P (xs ! i)"
  using assms by (induction xs arbitrary: i) (auto split: if_splits)

lemma position_None: "position P xs = None \<longleftrightarrow> (\<forall>x \<in> set xs. \<not> P x)"
  by (induction xs) auto


subsection \<open>One pane\<close>

lemma topology_pane_unique:
  assumes "topology_ok t" "dw \<in> set (tp_windows t)" "p \<in> set (wi_panes dw)"
    "dw' \<in> set (tp_windows t)" "q \<in> set (wi_panes dw')" "pn_person_id q = pn_person_id p"
  shows "dw' = dw \<and> q = p"
proof -
  have "dw' = dw \<and> q = p" if "distinct (concat (map (\<lambda>w. map pn_person_id (wi_panes w)) ws))"
    "dw \<in> set ws" "dw' \<in> set ws" for ws
    using that
  proof (induction ws)
    case (Cons w ws)
    have "dw = dw'" if "dw \<in> set (w # ws)"
    proof (rule ccontr)
      assume "dw \<noteq> dw'"
      then show False using Cons assms(3,5,6) by (auto simp: image_iff)
    qed
    then have eq: "dw = dw'" using Cons.prems by blast
    have d: "distinct (map pn_person_id (wi_panes dw))" using Cons.prems by (auto simp: distinct_concat_iff)
    then have "q = p" using assms(3,5,6) eq by (auto simp: distinct_map inj_on_def)
    then show ?case using eq by simp
  qed simp
  from this[of "tp_windows t"] show ?thesis using assms by (simp add: topology_ok_def topology_people_def)
qed

lemma made_right_desired:
  assumes "topology_ok t" "w \<in> set (tp_windows t)" "p \<in> set (wi_panes w)" "made_right t windows k x"
    "wp_person_id x = pn_person_id p"
  shows "wp_launch_hash x = pn_launch_hash p" "wp_window x = target windows (wi_logical_id w)"
    "wi_logical_id w \<in> ww_logical_id ` set (wk_windows k)"
  using assms topology_pane_unique[OF assms(1,2,3)] unfolding made_right_def by metis+

lemma made_right_windows:
  "made_right t windows k x \<Longrightarrow> set (wk_windows k) \<subseteq> set (wk_windows k') \<Longrightarrow> made_right t windows k' x"
  unfolding made_right_def by blast

lemma not_observed_as [simp]: "as_pane_id r = None \<longleftrightarrow> \<not> is_observed r"
  by (cases r) simp_all

lemma as_pane_id_Some [simp]: "as_pane_id r = Some i \<longleftrightarrow> r = Observed_Pane i"
  by (cases r) auto

lemma walk_ok_cong:
  assumes "wk_steps k' = wk_steps k" "wk_panes k' = wk_panes k" "wk_windows k' = wk_windows k"
    "wk_respawns k' = wk_respawns k"
  shows "walk_ok t first E0 windows k' \<longleftrightarrow> walk_ok t first E0 windows k"
  using assms unfolding walk_ok_def made_right_def by simp

text \<open>One pane is replaced by one with the same person and reference: what a move and a respawn do.\<close>

lemma seats_update:
  assumes "distinct (map wp_ref ps)" "distinct (map wp_person_id ps)" "i < length ps"
    "wp_ref x = wp_ref (ps ! i)" "wp_person_id x = wp_person_id (ps ! i)"
  shows "distinct (map wp_ref (ps[i := x]))" "distinct (map wp_person_id (ps[i := x]))"
    "floor_of (ps[i := x]) = (floor_of ps)(wp_ref x \<mapsto> seat x)"
    "wp_person_id y \<noteq> wp_person_id x \<Longrightarrow> y \<in> set (ps[i := x]) \<longleftrightarrow> y \<in> set ps"
proof -
  have "map wp_ref (ps[i := x]) = map wp_ref ps" "map wp_person_id (ps[i := x]) = map wp_person_id ps"
    using assms by (metis list_update_id map_update nth_map)+
  then show "distinct (map wp_ref (ps[i := x]))" "distinct (map wp_person_id (ps[i := x]))" using assms by simp_all
  show "floor_of (ps[i := x]) = (floor_of ps)(wp_ref x \<mapsto> seat x)" by (rule floor_of_update) (use assms in auto)
  assume y: "wp_person_id y \<noteq> wp_person_id x"
  show "y \<in> set (ps[i := x]) \<longleftrightarrow> y \<in> set ps"
  proof
    assume "y \<in> set (ps[i := x])"
    then show "y \<in> set ps" using set_update_subset_insert[of ps i x] y by auto
  next
    assume "y \<in> set ps"
    then obtain j where j: "j < length ps" "y = ps ! j" by (auto simp: in_set_conv_nth)
    then have "j \<noteq> i" using y assms(5) by auto
    then have "ps[i := x] ! j = y" using j by simp
    then show "y \<in> set (ps[i := x])" using j by (metis length_list_update nth_mem)
  qed
qed


text \<open>What every stage of the walk says of the walk it answers.\<close>

definition walk_step ::
  "topology \<Rightarrow> window_ref \<Rightarrow> floor \<Rightarrow> observed_window list \<Rightarrow> string set \<Rightarrow> walk \<Rightarrow> walk \<Rightarrow> bool" where
  "walk_step t first E0 windows pids k k' \<longleftrightarrow>
     walk_ok t first E0 windows k' \<and> wk_windows k' = wk_windows k \<and> leaves pids k k'"

lemma walk_update:
  assumes ok: "walk_ok t first E0 windows k" and i: "i < length (wk_panes k)"
    and pane: "wp_ref (wk_panes k ! i) = Observed_Pane pane"
    and y: "wp_ref y = wp_ref (wk_panes k ! i)" "wp_person_id y = wp_person_id (wk_panes k ! i)"
    and k': "wk_steps k' = wk_steps k @ [s]" "wk_panes k' = (wk_panes k)[i := y]"
      "wk_windows k' = wk_windows k @ new" "wk_pane_binding k' = wk_pane_binding k"
      "wk_respawns k' = wk_respawns k @ respawned s"
    and new: "\<forall>x \<in> set new. ww_ref x = target windows (ww_logical_id x)"
    and s: "gentle s" "\<And>E. E (Observed_Pane pane) = Some (seat (wk_panes k ! i))
      \<Longrightarrow> perform first E s = E(Observed_Pane pane \<mapsto> seat y)"
  shows "walk_ok t first E0 windows k'" "leaves {wp_person_id y} k k'"
proof -
  note k = ok[unfolded walk_ok_def]
  note up = seats_update[of "wk_panes k" i y]
  have d: "distinct (map wp_ref (wk_panes k))" "distinct (map wp_person_id (wk_panes k))" using k by simp_all
  have "wk_panes k ! i \<in> set (wk_panes k)" using i by simp
  then have "floor_of (wk_panes k) (Observed_Pane pane) = Some (seat (wk_panes k ! i))"
    using floor_of_iff[OF d(1)] pane by blast
  then have "performs first (wk_steps k') E0 = floor_of (wk_panes k')"
    using k s(2) up(3) d i pane y k' by (simp add: performs_append)
  moreover have "\<forall>x \<in> set (wk_panes k'). is_observed (wp_ref x) \<or> made_right t windows k' x"
  proof
    fix x assume "x \<in> set (wk_panes k')"
    then have "x = y \<or> x \<in> set (wk_panes k)" using set_update_subset_insert[of "wk_panes k" i y] k' by auto
    then show "is_observed (wp_ref x) \<or> made_right t windows k' x"
      using k pane y k' made_right_windows[of t windows k x k'] by auto
  qed
  moreover have "\<exists>made. wk_windows k' = work_windows_of windows @ made
          \<and> (\<forall>x \<in> set made. ww_ref x = target windows (ww_logical_id x))"
  proof -
    obtain made where "wk_windows k = work_windows_of windows @ made"
      "\<forall>x \<in> set made. ww_ref x = target windows (ww_logical_id x)" using k by blast
    then have "wk_windows k' = work_windows_of windows @ (made @ new)"
      "\<forall>x \<in> set (made @ new). ww_ref x = target windows (ww_logical_id x)" using k' new by auto
    then show ?thesis by blast
  qed
  ultimately show "walk_ok t first E0 windows k'" using k up d i k' s(1) y by (simp add: walk_ok_def)
  show "leaves {wp_person_id y} k k'" using up(4) d i k' y by (simp add: leaves_def)
qed

lemma move_pane_ok:
  assumes ok: "walk_ok t first E0 windows k" and top: "topology_ok t" "w \<in> set (tp_windows t)" "p \<in> set (wi_panes w)"
    and i: "i < length (wk_panes k)" "wp_person_id (wk_panes k ! i) = pn_person_id p"
    and win: "win = target windows (wi_logical_id w)"
  shows "\<exists>k'. move_pane_to win i p k = Inr k' \<and> walk_step t first E0 windows {pn_person_id p} k k'
     \<and> wk_panes k' = (wk_panes k)[i := (wk_panes k ! i)\<lparr>wp_window := win\<rparr>]
     \<and> wk_pane_binding k' = wk_pane_binding k \<and> wk_window_binding k' = wk_window_binding k
     \<and> wk_respawns k' = wk_respawns k"
proof (cases "wp_window (wk_panes k ! i) = win")
  case True
  then have e: "(wk_panes k ! i)\<lparr>wp_window := win\<rparr> = wk_panes k ! i" by simp
  have "move_pane_to win i p k = Inr k" using True by (simp add: move_pane_to_def)
  then show ?thesis using ok by (simp only: e list_update_id walk_step_def leaves_refl) simp
next
  case False
  let ?x = "wk_panes k ! i" and ?y = "(wk_panes k ! i)\<lparr>wp_window := win\<rparr>"
  have "\<not> made_right t windows k ?x"
    using made_right_desired(2)[OF top, of windows k ?x] i False win by blast
  moreover have "?x \<in> set (wk_panes k)" using i by simp
  ultimately obtain pane where pane: "wp_ref ?x = Observed_Pane pane"
    using ok[unfolded walk_ok_def] by (cases "wp_ref ?x") auto
  let ?k = "k\<lparr>wk_steps := wk_steps k @ [MovePane pane win], wk_dirty := wk_dirty k @ [wp_window ?x, win],
                     wk_panes := (wk_panes k)[i := ?y]\<rparr>"
  have move: "move_pane_to win i p k = Inr ?k" using False pane by (simp add: move_pane_to_def Let_def)
  have "walk_ok t first E0 windows ?k" "leaves {wp_person_id ?y} k ?k"
    by (rule walk_update[OF ok i(1) pane, of ?y ?k "MovePane pane win" "[]"]; simp add: adjusted_def seat_def)+
  then show ?thesis using move i by (simp add: walk_step_def)
qed

lemma respawn_pane_ok:
  assumes ok: "walk_ok t first E0 windows k" and top: "topology_ok t" "w \<in> set (tp_windows t)" "p \<in> set (wi_panes w)"
    and i: "i < length (wk_panes k)" "wp_person_id (wk_panes k ! i) = pn_person_id p"
  shows "\<exists>k' re. respawn_pane i p k = Inr (k', re) \<and> walk_step t first E0 windows {pn_person_id p} k k'
     \<and> wk_panes k' = (wk_panes k)[i := (wk_panes k ! i)\<lparr>wp_launch_hash := pn_launch_hash p\<rparr>]
     \<and> wk_pane_binding k' = wk_pane_binding k \<and> wk_window_binding k' = wk_window_binding k
     \<and> wk_respawns k' = wk_respawns k @ (if wp_launch_hash (wk_panes k ! i) = pn_launch_hash p then [] else [pn_person_id p])"
proof (cases "wp_launch_hash (wk_panes k ! i) = pn_launch_hash p")
  case True
  then have e: "(wk_panes k ! i)\<lparr>wp_launch_hash := pn_launch_hash p\<rparr> = wk_panes k ! i" by simp
  have "respawn_pane i p k = Inr (k, False)" using True by (simp add: respawn_pane_def)
  then show ?thesis using ok True by (simp only: e list_update_id walk_step_def leaves_refl) auto
next
  case False
  let ?x = "wk_panes k ! i" and ?y = "(wk_panes k ! i)\<lparr>wp_launch_hash := pn_launch_hash p\<rparr>"
  have "\<not> made_right t windows k ?x"
    using made_right_desired(1)[OF top, of windows k ?x] i False by blast
  moreover have "?x \<in> set (wk_panes k)" using i by simp
  ultimately obtain pane where pane: "wp_ref ?x = Observed_Pane pane"
    using ok[unfolded walk_ok_def] by (cases "wp_ref ?x") auto
  let ?k = "k\<lparr>wk_steps := wk_steps k @ [Respawn pane (spawn_spec_of p)], wk_respawns := wk_respawns k @ [pn_person_id p],
                     wk_panes := (wk_panes k)[i := ?y]\<rparr>"
  have move: "respawn_pane i p k = Inr (?k, True)" using False pane by (simp add: respawn_pane_def Let_def)
  have "walk_ok t first E0 windows ?k" "leaves {wp_person_id ?y} k ?k"
    by (rule walk_update[OF ok i(1) pane, of ?y ?k "Respawn pane (spawn_spec_of p)" "[]"];
        simp add: adjusted_def seat_def spawn_spec_of_def i)+
  then show ?thesis using move False i by (auto simp: walk_step_def)
qed

lemma position_exists: "(\<exists>x \<in> set xs. P x) \<Longrightarrow> \<exists>i. position P xs = Some i"
  using position_None[of P xs] by (cases "position P xs") auto


lemma walk_add:
  assumes ok: "walk_ok t first E0 windows k" and top: "w \<in> set (tp_windows t)" "p \<in> set (wi_panes w)"
    and nobody: "\<not> has_pane k p"
    and k': "wk_steps k' = wk_steps k @ [s]"
      "wk_panes k' = wk_panes k @ [created_pane p (target windows (wi_logical_id w))]"
      "wk_windows k' = wk_windows k @ new" "wk_respawns k' = wk_respawns k"
    and new: "\<forall>x \<in> set new. ww_ref x = target windows (ww_logical_id x)"
    and home: "wi_logical_id w \<in> ww_logical_id ` set (wk_windows k')"
    and s: "gentle s" "respawned s = []" "\<And>E. perform first E s = spawned (target windows (wi_logical_id w)) (spawn_spec_of p) E"
  shows "walk_ok t first E0 windows k'"
    "\<And>y. wp_person_id y \<noteq> pn_person_id p \<Longrightarrow> y \<in> set (wk_panes k') \<longleftrightarrow> y \<in> set (wk_panes k)"
proof -
  note k = ok[unfolded walk_ok_def]
  let ?y = "created_pane p (target windows (wi_logical_id w))"
  have nobody': "wp_person_id x \<noteq> pn_person_id p" if "x \<in> set (wk_panes k)" for x
    using nobody that by (auto simp: has_pane_def list_ex_iff)
  have "wp_ref x \<noteq> wp_ref ?y" if "x \<in> set (wk_panes k)" for x
    using k that nobody'[OF that] by (auto simp: created_pane_def made_right_def)
  then have fresh: "wp_ref ?y \<notin> wp_ref ` set (wk_panes k)" by (metis imageE)
  have "performs first (wk_steps k') E0 = floor_of (wk_panes k')"
    using k s(3) k' floor_of_append[OF fresh]
    by (simp add: performs_append spawned_def spawn_spec_of_def created_pane_def seat_def)
  moreover have "\<forall>x \<in> set (wk_panes k'). is_observed (wp_ref x) \<or> made_right t windows k' x"
  proof
    fix x assume "x \<in> set (wk_panes k')"
    then have "x = ?y \<or> x \<in> set (wk_panes k)" using k' by auto
    moreover have "made_right t windows k' ?y"
      using top home unfolding made_right_def created_pane_def by auto
    ultimately show "is_observed (wp_ref x) \<or> made_right t windows k' x"
      using k k' made_right_windows[of t windows k x k'] by auto
  qed
  moreover have "\<exists>made. wk_windows k' = work_windows_of windows @ made
          \<and> (\<forall>x \<in> set made. ww_ref x = target windows (ww_logical_id x))"
  proof -
    obtain made where "wk_windows k = work_windows_of windows @ made"
      "\<forall>x \<in> set made. ww_ref x = target windows (ww_logical_id x)" using k by blast
    then have "wk_windows k' = work_windows_of windows @ (made @ new)"
      "\<forall>x \<in> set (made @ new). ww_ref x = target windows (ww_logical_id x)" using k' new by auto
    then show ?thesis by blast
  qed
  moreover have "pn_person_id p \<notin> wp_person_id ` set (wk_panes k)" using nobody' by (metis imageE)
  then have "distinct (map wp_person_id (wk_panes k'))"
    using k k'(2) by (simp add: created_pane_def)
  moreover have "distinct (map wp_ref (wk_panes k'))" using k k'(2) fresh by auto
  ultimately show "walk_ok t first E0 windows k'" using k k'(1,4) s(1,2) by (simp add: walk_ok_def)
  show "y \<in> set (wk_panes k') \<longleftrightarrow> y \<in> set (wk_panes k)" if "wp_person_id y \<noteq> pn_person_id p" for y
    using that k'(2) by (auto simp: created_pane_def)
qed

lemma retag_pane_ok:
  assumes ok: "walk_ok t first E0 windows k" and i: "i < length (wk_panes k)"
    "wp_person_id (wk_panes k ! i) = pn_person_id p" "wp_launch_hash (wk_panes k ! i) = pn_launch_hash p"
  shows "walk_step t first E0 windows {pn_person_id p} k (retag_pane org tags w i p re k)
    \<and> wk_panes (retag_pane org tags w i p re k) = wk_panes k
    \<and> wk_pane_binding (retag_pane org tags w i p re k) = wk_pane_binding k
    \<and> wk_window_binding (retag_pane org tags w i p re k) = wk_window_binding k
    \<and> wk_respawns (retag_pane org tags w i p re k) = wk_respawns k"
proof (cases "\<exists>pane. wp_ref (wk_panes k ! i) = Observed_Pane pane \<and> drifted org tags w p pane \<and> \<not> re")
  case False
  then have "retag_pane org tags w i p re k = k" by (auto simp: retag_pane_def split: pane_ref.splits)
  then show ?thesis using ok by (simp add: walk_step_def)
next
  case True
  then obtain pane where pane: "wp_ref (wk_panes k ! i) = Observed_Pane pane" "drifted org tags w p pane" "\<not> re"
    by blast
  let ?k = "k\<lparr>wk_steps := wk_steps k @ [Retag pane (pn_person_id p) (pn_launch_hash p)]\<rparr>"
  have "retag_pane org tags w i p re k = ?k" using pane by (simp add: retag_pane_def)
  moreover have "walk_ok t first E0 windows ?k"
    by (rule walk_update(1)[OF ok i(1) pane(1), of "wk_panes k ! i" ?k "Retag pane (pn_person_id p) (pn_launch_hash p)" "[]"];
        simp add: adjusted_def seat_def i)
  ultimately show ?thesis by (simp add: walk_step_def leaves_def)
qed


lemma seat_update_mem:
  "i < length ps \<Longrightarrow> ps[i := x, i := y] = ps[i := y]" "i < length ps \<Longrightarrow> ps[i := x] ! i = x"
  by simp_all

text \<open>Whether the walk so far has the person in a pane of another hash: whom it would respawn.\<close>

definition stale_hash :: "work_pane list \<Rightarrow> desired_pane \<Rightarrow> bool" where
  "stale_hash ps p \<longleftrightarrow> (\<exists>x \<in> set ps. wp_person_id x = pn_person_id p \<and> wp_launch_hash x \<noteq> pn_launch_hash p)"

lemma walk_pane_ok:
  assumes ok: "walk_ok t first E0 windows k" and top: "topology_ok t" "w \<in> set (tp_windows t)" "p \<in> set (wi_panes w)"
    and win: "win = target windows (wi_logical_id w)" "wi_logical_id w \<in> ww_logical_id ` set (wk_windows k)"
  shows "\<exists>k'. walk_pane org tags w win k p = Inr k' \<and> walk_step t first E0 windows {pn_person_id p} k k'
     \<and> seated win k' p \<and> wk_window_binding k' = wk_window_binding k
     \<and> wk_respawns k' = wk_respawns k @ (if stale_hash (wk_panes k) p then [pn_person_id p] else [])"
proof (cases "position (\<lambda>o'. wp_person_id o' = pn_person_id p) (wk_panes k)")
  case None
  then have nobody: "\<not> has_pane k p" by (simp add: position_None has_pane_def list_ex_iff)
  let ?k = "split_pane win k p"
  have split: "wk_steps ?k = wk_steps k @ [SplitPane win (spawn_spec_of p)]"
    "wk_panes ?k = wk_panes k @ [created_pane p win]" "wk_windows ?k = wk_windows k"
    "wk_pane_binding ?k = om_put (pn_person_id p) (Created_Pane (pn_person_id p)) (wk_pane_binding k)"
    "wk_window_binding ?k = wk_window_binding k" "wk_respawns ?k = wk_respawns k"
    by (simp_all add: split_pane_def bind_pane_def)
  note add = walk_add[OF ok top(2,3) nobody, of ?k "SplitPane win (spawn_spec_of p)" "[]"]
  have "walk_ok t first E0 windows ?k" by (rule add(1)) (use split win in simp_all)
  moreover have "leaves {pn_person_id p} k ?k"
    using split by (auto simp: leaves_def store_simps created_pane_def)
  moreover have "seated win ?k p" using split by (simp add: seated_def created_pane_def store_simps)
  moreover have "\<not> stale_hash (wk_panes k) p" using nobody by (auto simp: has_pane_def list_ex_iff stale_hash_def)
  ultimately show ?thesis using None split by (simp add: walk_pane_def walk_step_def)
next
  case (Some i)
  have i: "i < length (wk_panes k)" "wp_person_id (wk_panes k ! i) = pn_person_id p"
    using position_Some[OF Some] by simp_all
  obtain k1 where k1: "move_pane_to win i p k = Inr k1" "walk_step t first E0 windows {pn_person_id p} k k1"
    "wk_panes k1 = (wk_panes k)[i := (wk_panes k ! i)\<lparr>wp_window := win\<rparr>]"
    "wk_window_binding k1 = wk_window_binding k" "wk_respawns k1 = wk_respawns k"
    using move_pane_ok[OF ok top i win(1)] by blast
  have i1: "i < length (wk_panes k1)" "wp_person_id (wk_panes k1 ! i) = pn_person_id p" using k1(3) i by simp_all
  obtain k2 re where k2: "respawn_pane i p k1 = Inr (k2, re)" "walk_step t first E0 windows {pn_person_id p} k1 k2"
    "wk_panes k2 = (wk_panes k1)[i := (wk_panes k1 ! i)\<lparr>wp_launch_hash := pn_launch_hash p\<rparr>]"
    "wk_window_binding k2 = wk_window_binding k1"
    "wk_respawns k2 = wk_respawns k1 @ (if wp_launch_hash (wk_panes k1 ! i) = pn_launch_hash p then [] else [pn_person_id p])"
    using respawn_pane_ok[OF _ top i1] k1(2) unfolding walk_step_def by blast
  let ?y = "(wk_panes k ! i)\<lparr>wp_window := win, wp_launch_hash := pn_launch_hash p\<rparr>"
  have i2: "i < length (wk_panes k2)" "wk_panes k2 ! i = ?y" using k2(3) k1(3) i by simp_all
  let ?k3 = "retag_pane org tags w i p re k2"
  have k3: "walk_step t first E0 windows {pn_person_id p} k2 ?k3" "wk_panes ?k3 = wk_panes k2"
     "wk_window_binding ?k3 = wk_window_binding k2" "wk_respawns ?k3 = wk_respawns k2"
    using retag_pane_ok[of t first E0 windows k2 i p org tags w re] k2(2) i i2 unfolding walk_step_def by auto
  let ?k = "bind_pane (pn_person_id p) (wp_ref ?y) ?k3"
  have walk: "walk_pane org tags w win k p = Inr ?k"
    using Some k1(1) k2(1) k3(2) i2(2) by (simp add: walk_pane_def Let_def)
  have same: "wk_steps ?k = wk_steps ?k3" "wk_panes ?k = wk_panes k2" "wk_windows ?k = wk_windows ?k3"
    "wk_window_binding ?k = wk_window_binding k"
    using k1 k2 k3 by (simp_all add: bind_pane_def)
  have "walk_ok t first E0 windows ?k"
    using k3(1) walk_ok_cong[OF same(1) _ same(3)] same(2) k3(2) by (simp add: walk_step_def bind_pane_def)
  moreover have "leaves {pn_person_id p} k ?k"
  proof -
    have "leaves ({pn_person_id p} \<union> {pn_person_id p} \<union> {pn_person_id p}) k ?k3"
      by (rule leaves_trans[OF leaves_trans]) (use k1(2) k2(2) k3(1) in \<open>auto simp: walk_step_def\<close>)
    then show ?thesis using same(2) k3(2) by (auto simp: leaves_def bind_pane_def store_simps)
  qed
  moreover have "wk_windows ?k = wk_windows k" using same k1(2) k2(2) k3(1) by (simp add: walk_step_def)
  moreover have "seated win ?k p"
  proof -
    have "?y \<in> set (wk_panes ?k)" using i2 same(2) nth_mem by metis
    then show ?thesis using i(2) by (auto simp: seated_def bind_pane_def store_simps intro!: bexI[of _ ?y])
  qed
  moreover have "stale_hash (wk_panes k) p \<longleftrightarrow> wp_launch_hash (wk_panes k ! i) \<noteq> pn_launch_hash p"
  proof -
    have d: "distinct (map wp_person_id (wk_panes k))" using ok by (simp add: walk_ok_def)
    have m: "wk_panes k ! i \<in> set (wk_panes k)" using i by simp
    have "x = wk_panes k ! i" if "x \<in> set (wk_panes k)" "wp_person_id x = pn_person_id p" for x
      using that d m i(2) by (simp add: distinct_map inj_on_def)
    then show ?thesis using m i(2) unfolding stale_hash_def by metis
  qed
  moreover have "wk_respawns ?k = wk_respawns k
      @ (if wp_launch_hash (wk_panes k ! i) = pn_launch_hash p then [] else [pn_person_id p])"
    using k3(4) k2(5) k1(5) k1(3) i by (simp add: bind_pane_def)
  ultimately show ?thesis using walk same(4) by (auto simp: walk_step_def)
qed


subsection \<open>One window, and the walk\<close>

lemma seated_leaves: "leaves A k k' \<Longrightarrow> pn_person_id p \<notin> A \<Longrightarrow> seated win k p \<Longrightarrow> seated win k' p"
  unfolding leaves_def seated_def by (metis (no_types, lifting))

lemma stale_hash_leaves:
  assumes "leaves A k k'" "pn_person_id p \<notin> A"
  shows "stale_hash (wk_panes k') p \<longleftrightarrow> stale_hash (wk_panes k) p"
  using assms unfolding leaves_def stale_hash_def by (metis (no_types, lifting))

lemma walk_panes_ok:
  assumes "walk_ok t first E0 windows k" "topology_ok t" "w \<in> set (tp_windows t)" "set ps \<subseteq> set (wi_panes w)"
    "distinct (map pn_person_id ps)"
    "win = target windows (wi_logical_id w)" "wi_logical_id w \<in> ww_logical_id ` set (wk_windows k)"
  shows "\<exists>k'. res_fold (walk_pane org tags w win) k ps = Inr k'
     \<and> walk_step t first E0 windows (pn_person_id ` set ps) k k'
     \<and> (\<forall>p \<in> set ps. seated win k' p) \<and> wk_window_binding k' = wk_window_binding k
     \<and> wk_respawns k' = wk_respawns k @ map pn_person_id (filter (stale_hash (wk_panes k)) ps)"
  using assms(1,4,5,7)
proof (induction ps arbitrary: k)
  case Nil
  then show ?case by (simp add: walk_step_def)
next
  case (Cons p ps)
  have p: "p \<in> set (wi_panes w)" using Cons.prems by simp
  obtain k1 where k1: "walk_pane org tags w win k p = Inr k1" "walk_step t first E0 windows {pn_person_id p} k k1"
     "seated win k1 p" "wk_window_binding k1 = wk_window_binding k"
     "wk_respawns k1 = wk_respawns k @ (if stale_hash (wk_panes k) p then [pn_person_id p] else [])"
    using walk_pane_ok[OF Cons.prems(1) assms(2,3) p assms(6) Cons.prems(4)] by blast
  have l1: "walk_ok t first E0 windows k1" "wk_windows k1 = wk_windows k" "leaves {pn_person_id p} k k1"
    using k1(2) by (simp_all add: walk_step_def)
  have "wi_logical_id w \<in> ww_logical_id ` set (wk_windows k1)" using l1(2) Cons.prems(4) by simp
  with Cons.IH[OF l1(1)] obtain k2 where k2: "res_fold (walk_pane org tags w win) k1 ps = Inr k2"
     "walk_step t first E0 windows (pn_person_id ` set ps) k1 k2" "\<forall>p \<in> set ps. seated win k2 p"
     "wk_window_binding k2 = wk_window_binding k1"
     "wk_respawns k2 = wk_respawns k1 @ map pn_person_id (filter (stale_hash (wk_panes k1)) ps)"
    using Cons.prems(2,3) by auto
  have fresh: "pn_person_id p \<notin> pn_person_id ` set ps" using Cons.prems(3) by auto
  have "stale_hash (wk_panes k1) q \<longleftrightarrow> stale_hash (wk_panes k) q" if "q \<in> set ps" for q
    by (rule stale_hash_leaves[OF l1(3)]) (use fresh that image_eqI[of _ pn_person_id q] in force)
  then have "filter (stale_hash (wk_panes k1)) ps = filter (stale_hash (wk_panes k)) ps"
    by (auto intro!: filter_cong)
  moreover have "seated win k2 p" using seated_leaves[OF _ fresh k1(3)] k2(2) by (auto simp: walk_step_def)
  moreover have "leaves (pn_person_id ` set (p # ps)) k k2"
    using leaves_trans[OF l1(3)] k2(2) by (auto simp: walk_step_def)
  ultimately show ?case using k1 k2 l1 by (auto simp: walk_step_def)
qed

lemma stale_hash_pairs:
  "stale_hash ps p \<longleftrightarrow> (\<exists>x \<in> set (map (\<lambda>x. (wp_person_id x, wp_launch_hash x)) ps). fst x = pn_person_id p \<and> snd x \<noteq> pn_launch_hash p)"
  by (simp add: stale_hash_def)

lemma target_new:
  assumes "find (\<lambda>x. ww_logical_id x = l) (work_windows_of windows @ made) = None"
  shows "target windows l = Created_Window l"
  using assms by (auto simp: find_None_iff work_windows_of_def target_def split: option.splits)

lemma bind_window_ok:
  assumes ok: "walk_ok t first E0 windows k" and top: "topology_ok t" "w \<in> set (tp_windows t)"
  shows "\<exists>k'. bind_window k w = Inr (k', target windows (wi_logical_id w)) \<and> walk_ok t first E0 windows k'
     \<and> wi_logical_id w \<in> ww_logical_id ` set (wk_windows k') \<and> leaves (pn_person_id ` set (wi_panes w)) k k'
     \<and> wk_window_binding k' = wk_window_binding k \<and> wk_respawns k' = wk_respawns k
     \<and> (\<forall>p \<in> set (wi_panes w). stale_hash (wk_panes k') p \<longleftrightarrow> stale_hash (wk_panes k) p)"
proof (cases "find (\<lambda>x. ww_logical_id x = wi_logical_id w) (wk_windows k)")
  case (Some x)
  obtain made where made: "wk_windows k = work_windows_of windows @ made"
      "\<forall>x \<in> set made. ww_ref x = target windows (ww_logical_id x)" using ok by (auto simp: walk_ok_def)
  have "wi_logical_id w \<in> ww_logical_id ` set (wk_windows k)" using find_hit[OF Some] by force
  then show ?thesis using Some ok target_find[OF made Some] by (simp add: bind_window_def)
next
  case None
  let ?l = "wi_logical_id w"
  let ?new = "Created_Window ?l"
  let ?ww = "\<lparr>ww_ref = ?new, ww_logical_id = ?l\<rparr>"
  obtain made where made: "wk_windows k = work_windows_of windows @ made" using ok by (auto simp: walk_ok_def)
  have tgt: "target windows ?l = ?new" using target_new[of ?l windows made] None made by simp
  have absent: "?l \<notin> ww_logical_id ` set (wk_windows k)" using None by (auto simp: find_None_iff)
  have new: "\<forall>x \<in> set [?ww]. ww_ref x = target windows (ww_logical_id x)" using tgt by simp
  show ?thesis
  proof (cases "find (has_pane k) (wi_panes w)")
    case (Some p)
    then have p: "p \<in> set (wi_panes w)" "has_pane k p" by (auto simp: find_Some_iff)
    then obtain i where i: "position (\<lambda>o'. wp_person_id o' = pn_person_id p) (wk_panes k) = Some i"
      using position_exists[of "wk_panes k" "\<lambda>o'. wp_person_id o' = pn_person_id p"]
      by (auto simp: has_pane_def list_ex_iff)
    note at = position_Some[OF i]
    let ?x = "wk_panes k ! i" and ?y = "(wk_panes k ! i)\<lparr>wp_window := ?new\<rparr>"
    have "\<not> made_right t windows k ?x" using made_right_desired(3)[OF top p(1), of windows k ?x] at(2) absent by blast
    moreover have "?x \<in> set (wk_panes k)" using at by simp
    ultimately obtain pane where pane: "wp_ref ?x = Observed_Pane pane"
      using ok[unfolded walk_ok_def] by (cases "wp_ref ?x") auto
    let ?k = "k\<lparr>wk_steps := wk_steps k @ [CreateWindowByMove ?l (window_name w) pane],
        wk_dirty := wk_dirty k @ [wp_window ?x, ?new], wk_panes := (wk_panes k)[i := ?y],
        wk_windows := wk_windows k @ [?ww]\<rparr>"
    have bind: "bind_window k w = Inr (?k, ?new)" using None Some i pane by (simp add: bind_window_def Let_def)
    have step: "walk_ok t first E0 windows ?k" "leaves {wp_person_id ?y} k ?k"
      by (rule walk_update[OF ok at(1) pane, of ?y ?k "CreateWindowByMove ?l (window_name w) pane" "[?ww]"];
          use new in \<open>simp add: adjusted_def seat_def\<close>)+
    have "map (\<lambda>x. (wp_person_id x, wp_launch_hash x)) (wk_panes ?k)
          = map (\<lambda>x. (wp_person_id x, wp_launch_hash x)) (wk_panes k)"
      using at(1) by (simp add: map_update) (metis (no_types, lifting) length_map list_update_id nth_map)
    then have "stale_hash (wk_panes ?k) q \<longleftrightarrow> stale_hash (wk_panes k) q" for q
      by (simp only: stale_hash_pairs)
    moreover have "leaves (pn_person_id ` set (wi_panes w)) k ?k"
      by (rule leaves_mono[OF step(2)]) (use p(1) at(2) in auto)
    ultimately show ?thesis using bind step(1) tgt by simp
  next
    case nobody: None
    have "wi_panes w \<noteq> []" using top by (simp add: topology_ok_def)
    then obtain p where find: "find (\<lambda>p. \<not> has_pane k p) (wi_panes w) = Some p"
      using nobody by (cases "wi_panes w") (auto split: if_splits)
    then have p: "p \<in> set (wi_panes w)" "\<not> has_pane k p" by (auto simp: find_Some_iff)
    let ?k = "k\<lparr>wk_steps := wk_steps k @ [CreateWindowWithSpawn ?l (window_name w) (spawn_spec_of p)],
        wk_dirty := wk_dirty k @ [?new], wk_panes := wk_panes k @ [created_pane p ?new],
        wk_windows := wk_windows k @ [?ww]\<rparr>"
    have bind: "bind_window k w = Inr (?k, ?new)" using None nobody find by (simp add: bind_window_def Let_def)
    have ok': "walk_ok t first E0 windows ?k"
      by (rule walk_add(1)[OF ok top(2) p, of ?k "CreateWindowWithSpawn ?l (window_name w) (spawn_spec_of p)" "[?ww]"])
        (use new tgt in simp_all)
    have "stale_hash (wk_panes ?k) q \<longleftrightarrow> stale_hash (wk_panes k) q" if "q \<in> set (wi_panes w)" for q
    proof -
      have "q = p" if "pn_person_id p = pn_person_id q"
        using topology_pane_unique[OF top(1) top(2) \<open>q \<in> _\<close> top(2) p(1) that] by simp
      then show ?thesis by (auto simp: stale_hash_def created_pane_def)
    qed
    moreover have "leaves (pn_person_id ` set (wi_panes w)) k ?k"
      using p(1) by (auto simp: leaves_def created_pane_def)
    ultimately show ?thesis using bind ok' tgt by simp
  qed
qed


lemma walk_window_ok:
  assumes "walk_ok t first E0 windows k" "topology_ok t" "w \<in> set (tp_windows t)"
  shows "\<exists>k'. walk_window org tags k w = Inr k' \<and> walk_ok t first E0 windows k'
     \<and> leaves (pn_person_id ` set (wi_panes w)) k k'
     \<and> (\<forall>p \<in> set (wi_panes w). seated (target windows (wi_logical_id w)) k' p)
     \<and> wk_window_binding k' = om_put (wi_logical_id w) (target windows (wi_logical_id w)) (wk_window_binding k)
     \<and> wk_respawns k' = wk_respawns k @ map pn_person_id (filter (stale_hash (wk_panes k)) (wi_panes w))"
proof -
  let ?l = "wi_logical_id w" and ?win = "target windows (wi_logical_id w)" and ?P = "pn_person_id ` set (wi_panes w)"
  obtain k1 where k1: "bind_window k w = Inr (k1, ?win)" "walk_ok t first E0 windows k1"
     "?l \<in> ww_logical_id ` set (wk_windows k1)" "leaves ?P k k1"
     "wk_window_binding k1 = wk_window_binding k" "wk_respawns k1 = wk_respawns k"
     "\<forall>p \<in> set (wi_panes w). stale_hash (wk_panes k1) p \<longleftrightarrow> stale_hash (wk_panes k) p"
    using bind_window_ok[OF assms] by blast
  let ?k1 = "k1\<lparr>wk_window_binding := om_put ?l ?win (wk_window_binding k1)\<rparr>"
  have ok1: "walk_ok t first E0 windows ?k1" using walk_ok_cong[of ?k1 k1] k1(2) by simp
  have "distinct (map pn_person_id (wi_panes w))"
    using assms(2,3) by (auto simp: topology_ok_def topology_people_def distinct_concat_iff)
  moreover have "?l \<in> ww_logical_id ` set (wk_windows ?k1)" using k1(3) by simp
  ultimately obtain k2 where k2: "res_fold (walk_pane org tags w ?win) ?k1 (wi_panes w) = Inr k2"
     "walk_step t first E0 windows ?P ?k1 k2" "\<forall>p \<in> set (wi_panes w). seated ?win k2 p"
     "wk_window_binding k2 = wk_window_binding ?k1"
     "wk_respawns k2 = wk_respawns ?k1 @ map pn_person_id (filter (stale_hash (wk_panes ?k1)) (wi_panes w))"
    using walk_panes_ok[OF ok1 assms(2,3) order_refl, of ?win] by blast
  have "\<not> (find (\<lambda>x. ww_logical_id x = ?l) (wk_windows k) = None \<and> wi_panes w = [])"
    using assms by (auto simp: topology_ok_def)
  then have "walk_window org tags k w = Inr k2" using k1(1) k2(1) by (auto simp: walk_window_def)
  moreover have "leaves (?P \<union> ?P) k k2"
    by (rule leaves_trans[of _ k ?k1]) (use k1(4) k2(2) in \<open>auto simp: walk_step_def leaves_def\<close>)
  moreover have "filter (stale_hash (wk_panes ?k1)) (wi_panes w) = filter (stale_hash (wk_panes k)) (wi_panes w)"
    using k1(7) by (auto intro!: filter_cong)
  ultimately show ?thesis using k2 k1 by (auto simp: walk_step_def)
qed

definition walked :: "observed_window list \<Rightarrow> desired_window list \<Rightarrow> walk \<Rightarrow> walk \<Rightarrow> bool" where
  "walked windows ws k k' \<longleftrightarrow>
     leaves (pn_person_id ` set (concat (map wi_panes ws))) k k'
     \<and> (\<forall>w \<in> set ws. \<forall>p \<in> set (wi_panes w). seated (target windows (wi_logical_id w)) k' p)
     \<and> (\<forall>l. om_get (wk_window_binding k') l = (if l \<in> wi_logical_id ` set ws then Some (target windows l)
          else om_get (wk_window_binding k) l))
     \<and> wk_respawns k' = wk_respawns k @ map pn_person_id (filter (stale_hash (wk_panes k)) (concat (map wi_panes ws)))"

lemma walk_ok_all:
  assumes "walk_ok t first E0 windows k" "topology_ok t" "set ws \<subseteq> set (tp_windows t)"
    "distinct (map pn_person_id (concat (map wi_panes ws)))"
  shows "\<exists>k'. res_fold (walk_window org tags) k ws = Inr k' \<and> walk_ok t first E0 windows k' \<and> walked windows ws k k'"
  using assms(1,3,4)
proof (induction ws arbitrary: k)
  case Nil
  then show ?case by (simp add: walked_def)
next
  case (Cons w ws)
  have w: "w \<in> set (tp_windows t)" using Cons.prems by simp
  obtain k1 where k1: "walk_window org tags k w = Inr k1" "walk_ok t first E0 windows k1"
     "leaves (pn_person_id ` set (wi_panes w)) k k1"
     "\<forall>p \<in> set (wi_panes w). seated (target windows (wi_logical_id w)) k1 p"
     "wk_window_binding k1 = om_put (wi_logical_id w) (target windows (wi_logical_id w)) (wk_window_binding k)"
     "wk_respawns k1 = wk_respawns k @ map pn_person_id (filter (stale_hash (wk_panes k)) (wi_panes w))"
    using walk_window_ok[OF Cons.prems(1) assms(2) w] by blast
  obtain k2 where k2: "res_fold (walk_window org tags) k1 ws = Inr k2" "walk_ok t first E0 windows k2" "walked windows ws k1 k2"
    using Cons.IH[OF k1(2)] Cons.prems(2,3) by auto
  let ?Q = "pn_person_id ` set (concat (map wi_panes ws))"
  have apart: "pn_person_id ` set (wi_panes w) \<inter> ?Q = {}" using Cons.prems(3) by auto
  have seat: "seated (target windows (wi_logical_id w)) k2 p" if "p \<in> set (wi_panes w)" for p
  proof (rule seated_leaves)
    show "leaves ?Q k1 k2" using k2(3) by (simp add: walked_def)
    show "pn_person_id p \<notin> ?Q" using apart that by blast
    show "seated (target windows (wi_logical_id w)) k1 p" using k1(4) that by simp
  qed
  have "stale_hash (wk_panes k1) q \<longleftrightarrow> stale_hash (wk_panes k) q" if "q \<in> set (concat (map wi_panes ws))" for q
    by (rule stale_hash_leaves[OF k1(3)]) (use apart that in blast)
  then have "filter (stale_hash (wk_panes k1)) (concat (map wi_panes ws))
      = filter (stale_hash (wk_panes k)) (concat (map wi_panes ws))" by (rule filter_cong[OF refl])
  moreover have "leaves (pn_person_id ` set (wi_panes w) \<union> ?Q) k k2"
    by (rule leaves_trans[OF k1(3)]) (use k2(3) in \<open>simp add: walked_def\<close>)
  moreover have "pn_person_id ` set (concat (map wi_panes (w # ws))) = pn_person_id ` set (wi_panes w) \<union> ?Q" by auto
  ultimately have "walked windows (w # ws) k k2"
    using k2(3) k1(5,6) seat unfolding walked_def by (simp add: store_simps)
  then show ?case using k1(1) k2(1,2) by simp
qed

end
