(* ===== verification/Plan_Effects.thy ===== *)
theory Plan_Effects
  imports Plan_Contract
begin

text \<open>
  The end of the converge plan, and what the whole plan promises: for every coherent observation it is
  refused only on ownership, it leaves exactly the desired people each in their window with their launch
  hash, it kills and respawns nobody else, and a company that has converged is left alone.
\<close>

section \<open>The end of what is not desired\<close>

definition undesired :: "string list \<Rightarrow> work_pane list \<Rightarrow> work_pane list" where
  "undesired people ps = filter (\<lambda>x. wp_person_id x \<notin> set people) ps"

definition gone :: "work_pane list \<Rightarrow> floor \<Rightarrow> floor" where
  "gone xs E = E |` (- (wp_ref ` set xs))"

lemma gone_Nil [simp]: "gone [] E = E"
  by (rule ext) (simp add: gone_def)

lemma gone_snoc: "gone (xs @ [x]) E = (gone xs E)(wp_ref x := None)"
  by (rule ext) (simp add: gone_def restrict_map_def)

lemma kill_alone:
  assumes d: "distinct (map wp_ref ps)" and i: "i < length ps"
    and alone: "\<And>j. j < length ps \<Longrightarrow> j \<noteq> i \<Longrightarrow> wp_window (ps ! j) \<noteq> wp_window (ps ! i)"
    and E: "E = gone xs (floor_of ps)"
  shows "perform first E (KillWindow (wp_window (ps ! i))) = E(wp_ref (ps ! i) := None)"
proof (rule ext)
  fix r
  show "perform first E (KillWindow (wp_window (ps ! i))) r = (E(wp_ref (ps ! i) := None)) r"
  proof (cases "E r")
    case (Some oc)
    then have "floor_of ps r = Some oc" using E by (auto simp: gone_def restrict_map_def split: if_splits)
    then obtain j where j: "j < length ps" "wp_ref (ps ! j) = r" "seat (ps ! j) = oc"
      using floor_of_iff[OF d] by (auto simp: in_set_conv_nth)
    have "r = wp_ref (ps ! i) \<longleftrightarrow> j = i"
      using j d i by (metis distinct_conv_nth length_map nth_map)
    moreover have "oc_window oc = wp_window (ps ! i) \<longleftrightarrow> j = i" using alone[OF j(1)] j(3) unfolding seat_def by (metis occupant.select_convs(1))
    ultimately show ?thesis using Some by simp
  qed simp
qed

lemma own_window_alone:
  assumes "own_window_of o' ps i = Some l" "i < length ps"
  shows "\<And>j. j < length ps \<Longrightarrow> j \<noteq> i \<Longrightarrow> wp_window (ps ! j) \<noteq> wp_window (ps ! i)"
    "person_window_person_id l = Some (wp_person_id (ps ! i))" "l \<in> ow_logical_id ` set (on_windows o')"
proof -
  obtain wid where w: "wp_window (ps ! i) = Observed_Window wid"
    using assms by (cases "wp_window (ps ! i)") (auto simp: own_window_of_def)
  then have a: "\<not> list_ex (\<lambda>j. j \<noteq> i \<and> wp_window (ps ! j) = wp_window (ps ! i)) [0..<length ps]"
    and f: "map_option ow_logical_id (find (\<lambda>w. ow_tmux_id w = wid
            \<and> person_window_person_id (ow_logical_id w) = Some (wp_person_id (ps ! i))) (on_windows o')) = Some l"
    using assms(1) by (auto simp: own_window_of_def Let_def split: if_splits)
  show "wp_window (ps ! j) \<noteq> wp_window (ps ! i)" if "j < length ps" "j \<noteq> i" for j
    using a that by (auto simp: list_ex_iff)
  obtain x where "find (\<lambda>w. ow_tmux_id w = wid
            \<and> person_window_person_id (ow_logical_id w) = Some (wp_person_id (ps ! i))) (on_windows o') = Some x"
    "l = ow_logical_id x" using f by auto
  then show "person_window_person_id l = Some (wp_person_id (ps ! i))" "l \<in> ow_logical_id ` set (on_windows o')"
    using find_hit by fastforce+
qed

definition first_ending :: ending where
  "first_ending = \<lparr>en_steps = [], en_kills = [], en_dirty = [], en_killed_windows = []\<rparr>"

text \<open>A step of the end: a kill of a predicted pane, or of a window.\<close>

fun kills_only :: "string list \<Rightarrow> step \<Rightarrow> bool" where
  "kills_only panes (KillPane p) = (p \<in> set panes)"
| "kills_only panes (KillWindow _) = True"
| "kills_only panes s = False"

lemma kills_only_mono: "kills_only xs s \<Longrightarrow> set xs \<subseteq> set ys \<Longrightarrow> kills_only ys s"
  by (cases s) auto

lemma kills_only_more: "list_all (kills_only xs) ss \<Longrightarrow> set xs \<subseteq> set ys \<Longrightarrow> list_all (kills_only ys) ss"
  using kills_only_mono by (metis list_all_iff)

lemma end_panes_ok:
  assumes d: "distinct (map wp_ref ps)" and n: "n \<le> length ps"
    and obs: "\<forall>x \<in> set (undesired people ps). is_observed (wp_ref x)"
  shows "let e = foldl (end_pane o' people ps) first_ending [0..<n] in
     performs first (en_steps e) (floor_of ps) = gone (undesired people (take n ps)) (floor_of ps)
     \<and> map Observed_Pane (en_kills e) = map wp_ref (undesired people (take n ps))
     \<and> list_all (kills_only (en_kills e)) (en_steps e)
     \<and> (\<forall>l \<in> set (en_killed_windows e). l \<in> ow_logical_id ` set (on_windows o')
          \<and> (\<exists>x \<in> set (undesired people ps). person_window_person_id l = Some (wp_person_id x)))"
  using n
proof (induction n)
  case 0
  then show ?case by (simp add: first_ending_def undesired_def)
next
  case (Suc n)
  let ?e = "foldl (end_pane o' people ps) first_ending [0..<n]"
  let ?x = "ps ! n"
  let ?U = "undesired people (take n ps)"
  have IH: "performs first (en_steps ?e) (floor_of ps) = gone ?U (floor_of ps)"
     "map Observed_Pane (en_kills ?e) = map wp_ref ?U"
     "list_all (kills_only (en_kills ?e)) (en_steps ?e)"
     "\<forall>l \<in> set (en_killed_windows ?e). l \<in> ow_logical_id ` set (on_windows o')
          \<and> (\<exists>x \<in> set (undesired people ps). person_window_person_id l = Some (wp_person_id x))"
    using Suc by (simp_all add: Let_def)
  have n: "n < length ps" using Suc.prems by simp
  have take: "take (Suc n) ps = take n ps @ [?x]" using n by (simp add: take_Suc_conv_app_nth)
  have fold: "foldl (end_pane o' people ps) first_ending [0..<Suc n] = end_pane o' people ps ?e n" by simp
  show ?case
  proof (cases "wp_person_id ?x \<in> set people")
    case True
    then have "end_pane o' people ps ?e n = ?e" by (simp add: end_pane_def)
    moreover have "undesired people (take (Suc n) ps) = ?U" using True take by (simp add: undesired_def)
    ultimately show ?thesis using IH fold by (simp add: Let_def)
  next
    case False
    then have U: "undesired people (take (Suc n) ps) = ?U @ [?x]" using take by (simp add: undesired_def)
    have xu: "?x \<in> set (undesired people ps)" using False n by (simp add: undesired_def)
    then obtain pane where pane: "wp_ref ?x = Observed_Pane pane" using obs by (cases "wp_ref ?x") auto
    show ?thesis
    proof (cases "own_window_of o' ps n")
      case None
      then have e: "end_pane o' people ps ?e n = ?e\<lparr>en_steps := en_steps ?e @ [KillPane pane],
          en_dirty := en_dirty ?e @ [wp_window ?x], en_kills := en_kills ?e @ [pane]\<rparr>"
        using False pane by (simp add: end_pane_def Let_def)
      have "list_all (kills_only (en_kills ?e @ [pane])) (en_steps ?e)"
        by (rule kills_only_more[OF IH(3)]) auto
      then show ?thesis unfolding fold e U using IH pane by (simp add: performs_append gone_snoc fun_upd_def)
    next
      case (Some l)
      then have e: "end_pane o' people ps ?e n = ?e\<lparr>en_steps := en_steps ?e @ [KillWindow (wp_window ?x)],
          en_killed_windows := l # en_killed_windows ?e, en_kills := en_kills ?e @ [pane]\<rparr>"
        using False pane by (simp add: end_pane_def Let_def)
      note own = own_window_alone[OF Some n]
      have "list_all (kills_only (en_kills ?e @ [pane])) (en_steps ?e)"
        by (rule kills_only_more[OF IH(3)]) auto
      moreover have "perform first (gone ?U (floor_of ps)) (KillWindow (wp_window ?x)) = gone (?U @ [?x]) (floor_of ps)"
        unfolding gone_snoc by (rule kill_alone[OF d n own(1) refl])
      ultimately show ?thesis unfolding fold e U using IH pane own(2,3) xu
        by (simp add: performs_append del: perform.simps) blast
    qed
  qed
qed


lemma reap_ok:
  assumes "\<And>q. q \<in> set qs \<Longrightarrow> E (Observed_Pane (op_tmux_id q)) = None"
    and "performs first (en_steps e) E0 = E" "list_all (kills_only (en_kills e)) (en_steps e)"
  shows "performs first (en_steps (foldl reap_pane e qs)) E0 = E
     \<and> en_kills (foldl reap_pane e qs) = en_kills e @ map op_tmux_id qs
     \<and> list_all (kills_only (en_kills e @ map op_tmux_id qs)) (en_steps (foldl reap_pane e qs))"
  using assms
proof (induction qs arbitrary: e)
  case (Cons q qs)
  let ?e = "reap_pane e q"
  have e: "en_steps ?e = en_steps e @ [KillPane (op_tmux_id q)]" "en_kills ?e = en_kills e @ [op_tmux_id q]"
    by (simp_all add: reap_pane_def)
  have "E(Observed_Pane (op_tmux_id q) := None) = E" using Cons.prems(1)[of q] by (simp add: fun_upd_idem)
  then have "performs first (en_steps ?e) E0 = E" using Cons.prems(2) by (simp add: e performs_append)
  moreover have "list_all (kills_only (en_kills ?e)) (en_steps ?e)"
    using kills_only_more[OF Cons.prems(3), of "en_kills ?e"] by (simp add: e subset_insertI)
  ultimately show ?case using Cons.IH[of ?e] Cons.prems(1) e(2) by auto
qed simp

lemma end_windows_ok:
  assumes "performs first (en_steps e) E0 = E"
    and "\<And>w r oc. w \<in> set ws \<Longrightarrow> ow_logical_id w \<notin> wi_logical_id ` set (tp_windows t) \<Longrightarrow> E r = Some oc
      \<Longrightarrow> oc_window oc \<noteq> Observed_Window (ow_tmux_id w)"
  shows "performs first (en_steps (foldl (end_window t) e ws)) E0 = E
    \<and> en_kills (foldl (end_window t) e ws) = en_kills e
    \<and> (list_all (kills_only (en_kills e)) (en_steps e) \<longrightarrow>
        list_all (kills_only (en_kills e)) (en_steps (foldl (end_window t) e ws)))"
  using assms
proof (induction ws arbitrary: e)
  case (Cons w ws)
  let ?e = "end_window t e w"
  show ?case
  proof (cases "stale_window t e w")
    case False
    then have "?e = e" by (simp add: end_window_def)
    then show ?thesis using Cons by simp
  next
    case True
    then have e: "en_steps ?e = en_steps e @ [KillWindow (Observed_Window (ow_tmux_id w))]" "en_kills ?e = en_kills e"
      by (simp_all add: end_window_def)
    have "perform first E (KillWindow (Observed_Window (ow_tmux_id w))) = E"
      using True Cons.prems(2)[of w] by (auto simp: stale_window_def fun_eq_iff split: option.splits)
    then have "performs first (en_steps ?e) E0 = E" using Cons.prems(1) by (simp add: e performs_append del: perform.simps)
    from Cons.IH[OF this] Cons.prems(2) show ?thesis by (simp add: e)
  qed
qed simp

section \<open>The whole plan\<close>

text \<open>What is observed of a terminal server: one id each, and nothing of a session that is not there.\<close>

definition observation_ok :: "observed_topology \<Rightarrow> bool" where
  "observation_ok ob \<longleftrightarrow> distinct (map ow_tmux_id (ot_windows ob)) \<and> distinct (map op_tmux_id (ot_panes ob))
     \<and> (ot_session_exists ob \<or> ot_windows ob = [] \<and> ot_panes ob = [])"

definition owned_windows :: "observed_topology \<Rightarrow> observed_window list" where
  "owned_windows ob = filter tagged_window (ot_windows ob)"

definition owned_panes :: "topology \<Rightarrow> observed_topology \<Rightarrow> observed_pane list" where
  "owned_panes t ob = filter (ours (tp_organization t) (owned_windows ob)) (ot_panes ob)"

definition reaped_panes :: "topology \<Rightarrow> observed_topology \<Rightarrow> observed_pane list" where
  "reaped_panes t ob = filter (reaped (tp_organization t) (tp_known_person_ids t) (topology_people t) (owned_windows ob))
     (ot_panes ob)"

definition observed_seat :: "observed_pane \<Rightarrow> work_pane" where
  "observed_seat p = \<lparr>wp_ref = Observed_Pane (op_tmux_id p), wp_window = Observed_Window (op_tmux_window_id p),
       wp_person_id = op_person_id p, wp_launch_hash = op_launch_hash p\<rparr>"

lemma observed_seat_simps [simp]:
  "wp_ref (observed_seat p) = Observed_Pane (op_tmux_id p)" "wp_person_id (observed_seat p) = op_person_id p"
  "wp_launch_hash (observed_seat p) = op_launch_hash p" "wp_window (observed_seat p) = Observed_Window (op_tmux_window_id p)"
  by (simp_all add: observed_seat_def)

definition owned_seats :: "topology \<Rightarrow> observed_topology \<Rightarrow> work_pane list" where
  "owned_seats t ob = map observed_seat (owned_panes t ob)"

definition first_window :: "topology \<Rightarrow> observed_topology \<Rightarrow> window_ref" where
  "first_window t ob = target (owned_windows ob) (wi_logical_id (hd (tp_windows t)))"

lemma owned_shape:
  assumes "assert_unambiguous t ob = Inr o'"
  shows "on_windows o' = owned_windows ob" "on_panes o' = owned_panes t ob" "on_reap o' = reaped_panes t ob"
    "wk_panes (first_walk o') = owned_seats t ob"
    "wk_windows (first_walk o') = work_windows_of (owned_windows ob)"
  using assert_unambiguous_shape[OF assms]
  by (simp_all add: owned_windows_def owned_panes_def reaped_panes_def owned_seats_def first_walk_def work_windows_of_def observed_seat_def[abs_def])

lemma first_walk_ok:
  assumes "assert_unambiguous t ob = Inr o'" "observation_ok ob"
  shows "walk_ok t first (floor_of (owned_seats t ob)) (owned_windows ob) (first_walk o')"
proof -
  have "distinct (map op_tmux_id (owned_panes t ob))"
    using assms(2) by (simp add: observation_ok_def owned_panes_def distinct_map_filter)
  then have "distinct (map wp_ref (owned_seats t ob))"
    by (simp add: owned_seats_def comp_def distinct_map inj_on_def)
  moreover have "distinct (map wp_person_id (owned_seats t ob))"
    using assert_unambiguous_shape(5)[OF assms(1)] owned_shape(2)[OF assms(1)] by (simp add: owned_seats_def comp_def)
  moreover have "\<forall>x \<in> set (owned_seats t ob). is_observed (wp_ref x)" by (auto simp: owned_seats_def)
  moreover have "wk_steps (first_walk o') = []" "wk_respawns (first_walk o') = []" by (simp_all add: first_walk_def)
  ultimately show ?thesis using owned_shape(4,5)[OF assms(1)] by (simp add: walk_ok_def)
qed

lemma plan_start_ok:
  assumes own: "assert_unambiguous t ob = Inr o'" and ob: "observation_ok ob"
    and top: "topology_ok t" "tp_windows t \<noteq> []"
  shows "\<exists>k. plan_start t ob o' = Some k
     \<and> walk_ok t (first_window t ob) (floor_of (owned_seats t ob)) (owned_windows ob) k
     \<and> (\<forall>x \<in> set (wk_panes k). x \<in> set (owned_seats t ob) \<or> wp_person_id x \<in> set (topology_people t))
     \<and> set (owned_seats t ob) \<subseteq> set (wk_panes k)
     \<and> (\<forall>p \<in> set (concat (map wi_panes (tp_windows t))). stale_hash (wk_panes k) p \<longleftrightarrow> stale_hash (owned_seats t ob) p)
     \<and> wk_respawns k = [] \<and> wk_window_binding k = []"
proof (cases "ot_session_exists ob")
  case True
  then show ?thesis using first_walk_ok[OF own ob] owned_shape(4)[OF own] by (simp add: plan_start_def) (simp add: first_walk_def)
next
  case False
  let ?w = "hd (tp_windows t)"
  have w: "?w \<in> set (tp_windows t)" using top(2) by simp
  then obtain p ps where p: "wi_panes ?w = p # ps" using top(1) by (cases "wi_panes ?w") (auto simp: topology_ok_def)
  have none: "owned_windows ob = []" "owned_seats t ob = []"
    using ob False by (auto simp: observation_ok_def owned_windows_def owned_seats_def owned_panes_def)
  let ?start = "first_walk o'" and ?k = "create_session ?w p (first_walk o')"
  have start: "wk_panes ?start = []" "wk_windows ?start = []"
    using owned_shape(4,5)[OF own] none by (simp_all add: work_windows_of_def)
  have tgt: "target (owned_windows ob) l = Created_Window l" for l by (simp add: none target_def)
  let ?ww = "\<lparr>ww_ref = Created_Window (wi_logical_id ?w), ww_logical_id = wi_logical_id ?w\<rparr>"
  have k: "wk_steps ?k = wk_steps ?start @ [CreateSession (spawn_spec_of p)]"
     "wk_panes ?k = wk_panes ?start @ [created_pane p (target (owned_windows ob) (wi_logical_id ?w))]"
     "wk_windows ?k = wk_windows ?start @ [?ww]" "wk_respawns ?k = wk_respawns ?start"
     "wk_window_binding ?k = wk_window_binding ?start"
    by (simp_all add: create_session_def Let_def tgt)
  have pin: "p \<in> set (wi_panes ?w)" using p by simp
  have "walk_ok t (first_window t ob) (floor_of (owned_seats t ob)) (owned_windows ob) ?k"
    by (rule walk_add(1)[OF first_walk_ok[OF own ob] w pin _ k(1-4)])
      (simp_all add: has_pane_def start tgt k(3) first_window_def)
  moreover have "stale_hash (wk_panes ?k) q \<longleftrightarrow> stale_hash (owned_seats t ob) q"
    if q: "q \<in> set (concat (map wi_panes (tp_windows t)))" for q
  proof -
    obtain dw where dw: "dw \<in> set (tp_windows t)" "q \<in> set (wi_panes dw)" using q by auto
    have "q = p" if "pn_person_id q = pn_person_id p" using topology_pane_unique[OF top(1) w pin dw that] by simp
    then show ?thesis by (auto simp: stale_hash_def none k(2) start created_pane_def)
  qed
  moreover have "pn_person_id p \<in> set (topology_people t)" using w pin by (auto simp: topology_people_def)
  moreover have "wk_respawns ?k = []" "wk_window_binding ?k = []" by (simp_all add: k(4,5)) (simp_all add: first_walk_def)
  ultimately show ?thesis using False p by (auto simp: plan_start_def none k(2) start created_pane_def)
qed


text \<open>The layouts are always computed: everybody desired is bound to a pane.\<close>

lemma bound_panes_ok:
  "\<forall>p \<in> set ps. seated win k p \<Longrightarrow> \<exists>refs. bound_panes (wk_pane_binding k) ps = Some refs"
  by (induction ps) (auto simp: seated_def)

fun tidy :: "step \<Rightarrow> bool" where
  "tidy (OrderWindows _) = True"
| "tidy (ApplyLayout _ _ _) = True"
| "tidy s = False"

lemma layout_steps_ok:
  assumes "\<forall>w \<in> set ws. \<forall>p \<in> set (wi_panes w). seated (f w) k p"
  shows "\<exists>ss. layout_steps o' k dirty ws = Some ss \<and> list_all tidy ss"
  using assms
proof (induction ws)
  case (Cons w ws)
  then obtain refs where "bound_panes (wk_pane_binding k) (wi_panes w) = Some refs" using bound_panes_ok by fastforce
  then have "\<exists>s. layout_step o' k dirty w = Some s \<and> list_all tidy s"
    by (auto simp: layout_step_def Let_def split: option.splits)
  then show ?case using Cons by auto
qed simp

lemma performs_tidy: "list_all tidy ss \<Longrightarrow> performs first ss E = E"
proof (induction ss)
  case (Cons s ss)
  then have "perform first E s = E" by (cases s) auto
  then show ?case using Cons by (simp add: performs_def)
qed simp

lemma order_steps_tidy: "list_all tidy (order_steps t o' b ks)"
  by (simp add: order_steps_def Let_def)

text \<open>Where the walk of the whole topology leaves everybody.\<close>

definition walk_end :: "topology \<Rightarrow> observed_topology \<Rightarrow> walk \<Rightarrow> bool" where
  "walk_end t ob k \<longleftrightarrow>
     walk_ok t (first_window t ob) (floor_of (owned_seats t ob)) (owned_windows ob) k
     \<and> (\<forall>x. wp_person_id x \<notin> set (topology_people t) \<longrightarrow> x \<in> set (wk_panes k) \<longleftrightarrow> x \<in> set (owned_seats t ob))
     \<and> (\<forall>w \<in> set (tp_windows t). \<forall>p \<in> set (wi_panes w). seated (target (owned_windows ob) (wi_logical_id w)) k p)
     \<and> wk_respawns k = map pn_person_id (filter (stale_hash (owned_seats t ob)) (concat (map wi_panes (tp_windows t))))
     \<and> (\<forall>l. om_get (wk_window_binding k) l =
          (if l \<in> wi_logical_id ` set (tp_windows t) then Some (target (owned_windows ob) l) else None))"

lemma people_panes: "set (topology_people t) = pn_person_id ` set (concat (map wi_panes (tp_windows t)))"
  by (auto simp: topology_people_def)

lemma walk_ends:
  assumes own: "assert_unambiguous t ob = Inr o'" and ob: "observation_ok ob"
    and top: "topology_ok t" "tp_windows t \<noteq> []"
  shows "\<exists>k1 k. plan_start t ob o' = Some k1 \<and> res_fold (walk_window org tags) k1 (tp_windows t) = Inr k \<and> walk_end t ob k"
proof -
  let ?panes = "concat (map wi_panes (tp_windows t))"
  obtain k1 where k1: "plan_start t ob o' = Some k1"
     "walk_ok t (first_window t ob) (floor_of (owned_seats t ob)) (owned_windows ob) k1"
     "\<forall>x \<in> set (wk_panes k1). x \<in> set (owned_seats t ob) \<or> wp_person_id x \<in> set (topology_people t)"
     "set (owned_seats t ob) \<subseteq> set (wk_panes k1)"
     "\<forall>p \<in> set ?panes. stale_hash (wk_panes k1) p \<longleftrightarrow> stale_hash (owned_seats t ob) p"
     "wk_respawns k1 = []" "wk_window_binding k1 = []"
    using plan_start_ok[OF assms] by blast
  have "distinct (map pn_person_id ?panes)" using top(1) by (simp add: topology_ok_def topology_people_def map_concat comp_def)
  then obtain k where k: "res_fold (walk_window org tags) k1 (tp_windows t) = Inr k"
     "walk_ok t (first_window t ob) (floor_of (owned_seats t ob)) (owned_windows ob) k"
     "walked (owned_windows ob) (tp_windows t) k1 k"
    using walk_ok_all[OF k1(2) top(1) order_refl] by blast
  have "x \<in> set (wk_panes k) \<longleftrightarrow> x \<in> set (owned_seats t ob)" if "wp_person_id x \<notin> set (topology_people t)" for x
    using k(3) k1(3,4) that unfolding walked_def leaves_def people_panes by blast
  moreover have "filter (stale_hash (wk_panes k1)) ?panes = filter (stale_hash (owned_seats t ob)) ?panes"
    by (rule filter_cong) (use k1(5) in auto)
  ultimately have "walk_end t ob k" using k(2,3) k1(6,7) by (simp add: walk_end_def walked_def)
  then show ?thesis using k1(1) k(1) by blast
qed

lemma plan_made:
  assumes own: "assert_unambiguous t ob = Inr o'" and ob: "observation_ok ob"
    and top: "topology_ok t" "tp_windows t \<noteq> []"
    and session: "\<not> (ot_session_exists ob \<and> ot_session_organization ob \<noteq> tp_organization t)"
  shows "\<exists>k tail. walk_end t ob k \<and> list_all tidy tail
     \<and> compute_converge_plan t ob = Some (Inr (plan_of o' (wk_steps k @ en_steps (endings t o' (wk_panes k)) @ tail)
          (wk_respawns k) (en_kills (endings t o' (wk_panes k)))))"
proof -
  let ?tags = "om_of_list (map (\<lambda>p. (op_tmux_id p, p)) (on_panes o'))"
  obtain k1 k where k: "plan_start t ob o' = Some k1"
    "res_fold (walk_window (tp_organization t) ?tags) k1 (tp_windows t) = Inr k" "walk_end t ob k"
    using walk_ends[OF own ob top] by blast
  let ?e = "endings t o' (wk_panes k)"
  have seats: "\<forall>w \<in> set (tp_windows t). \<forall>p \<in> set (wi_panes w). seated (target (owned_windows ob) (wi_logical_id w)) k p"
    using k(3) by (simp add: walk_end_def)
  obtain ss where ss: "layout_steps o' k (wk_dirty k @ en_dirty ?e) (tp_windows t) = Some ss" "list_all tidy ss"
    using layout_steps_ok[OF seats] by blast
  let ?tail = "order_steps t o' (wk_window_binding k) (en_killed_windows ?e) @ ss"
  have "compute_converge_plan t ob = Some (Inr (plan_of o' (wk_steps k @ en_steps ?e @ ?tail) (wk_respawns k) (en_kills ?e)))"
    using session own top(2) k(1,2) ss(1) by (simp add: compute_converge_plan_def finish_plan_def Let_def)
  moreover have "list_all tidy ?tail" using order_steps_tidy ss(2) by simp
  ultimately show ?thesis using k(3) by blast
qed


text \<open>Nobody appears in an observed pane who was not observed there.\<close>

lemma gentle_observed:
  assumes "list_all gentle ss" "E (Observed_Pane i) = None"
  shows "performs first ss E (Observed_Pane i) = None"
  using assms
proof (induction ss arbitrary: E)
  case (Cons s ss)
  have "perform first E s (Observed_Pane i) = None"
    using Cons.prems by (cases s) (auto simp: spawned_def adjusted_def)
  then show ?case using Cons by (simp add: performs_def)
qed simp

lemma reaped_not_seated:
  assumes "walk_end t ob k" "observation_ok ob" "q \<in> set (reaped_panes t ob)"
  shows "floor_of (wk_panes k) (Observed_Pane (op_tmux_id q)) = None"
proof -
  have q: "q \<in> set (ot_panes ob)" "\<not> ours (tp_organization t) (owned_windows ob) q"
    using assms(3) by (auto simp: reaped_panes_def reaped_def)
  have d: "distinct (map op_tmux_id (ot_panes ob))" using assms(2) by (simp add: observation_ok_def)
  have "\<forall>x \<in> set (owned_panes t ob). op_tmux_id q \<noteq> op_tmux_id x"
    using q d by (auto simp: owned_panes_def distinct_map inj_on_def)
  then have "floor_of (owned_seats t ob) (Observed_Pane (op_tmux_id q)) = None"
    by (auto simp: floor_of_None owned_seats_def)
  then show ?thesis using assms(1) gentle_observed by (metis walk_end_def walk_ok_def)
qed

lemma seat_of_desired:
  assumes k: "walk_end t ob k" and w: "w \<in> set (tp_windows t)" and p: "p \<in> set (wi_panes w)"
    and x: "x \<in> set (wk_panes k)" "wp_person_id x = pn_person_id p"
  shows "seat x = \<lparr>oc_window = target (owned_windows ob) (wi_logical_id w), oc_person = pn_person_id p, oc_hash = pn_launch_hash p\<rparr>"
proof -
  have d: "distinct (map wp_person_id (wk_panes k))" using k by (simp add: walk_end_def walk_ok_def)
  have "seated (target (owned_windows ob) (wi_logical_id w)) k p" using k w p by (simp add: walk_end_def)
  then obtain y where y: "y \<in> set (wk_panes k)" "wp_person_id y = pn_person_id p"
     "wp_window y = target (owned_windows ob) (wi_logical_id w)" "wp_launch_hash y = pn_launch_hash p"
    by (auto simp: seated_def)
  have "x = y" using x y(1,2) d by (auto simp: distinct_map inj_on_def)
  then show ?thesis using y by (simp add: seat_def)
qed

lemma desired_by_person:
  assumes "pid \<in> set (topology_people t)"
  obtains w p where "w \<in> set (tp_windows t)" "p \<in> set (wi_panes w)" "pn_person_id p = pid"
  using assms by (auto simp: topology_people_def)

text \<open>The floor once the undesired are gone.\<close>

lemma gone_floor_iff:
  assumes k: "walk_end t ob k" and top: "topology_ok t"
  shows "gone (undesired (topology_people t) (wk_panes k)) (floor_of (wk_panes k)) r = Some oc
     \<longleftrightarrow> (\<exists>x \<in> set (wk_panes k). wp_ref x = r \<and> seat x = oc \<and> wp_person_id x \<in> set (topology_people t))"
proof -
  have d: "distinct (map wp_ref (wk_panes k))" using k by (simp add: walk_end_def walk_ok_def)
  have inj: "x = y" if "x \<in> set (wk_panes k)" "y \<in> set (wk_panes k)" "wp_ref x = wp_ref y" for x y
    using that d by (auto simp: distinct_map inj_on_def)
  show ?thesis
    unfolding gone_def restrict_map_def undesired_def using floor_of_iff[OF d] inj by auto
qed

lemma endings_ok:
  assumes own: "assert_unambiguous t ob = Inr o'" and ob: "observation_ok ob" and top: "topology_ok t"
    and k: "walk_end t ob k"
  shows "performs first (en_steps (endings t o' (wk_panes k))) (floor_of (wk_panes k))
       = gone (undesired (topology_people t) (wk_panes k)) (floor_of (wk_panes k))"
    "list_all (kills_only (en_kills (endings t o' (wk_panes k)))) (en_steps (endings t o' (wk_panes k)))"
    "set (en_kills (endings t o' (wk_panes k)))
       = {op_tmux_id p |p. p \<in> set (owned_panes t ob) \<and> op_person_id p \<notin> set (topology_people t)}
         \<union> op_tmux_id ` set (reaped_panes t ob)"
proof -
  let ?ps = "wk_panes k" and ?people = "topology_people t"
  let ?E = "gone (undesired ?people ?ps) (floor_of ?ps)"
  let ?a = "foldl (end_pane o' ?people ?ps) first_ending [0..<length ?ps]"
  let ?b = "foldl reap_pane ?a (on_reap o')"
  have end': "endings t o' ?ps = foldl (end_window t) ?b (on_windows o')" by (simp add: endings_def first_ending_def)
  have d: "distinct (map wp_ref ?ps)" using k by (simp add: walk_end_def walk_ok_def)
  have obs: "\<forall>x \<in> set (undesired ?people ?ps). is_observed (wp_ref x)"
    using k by (auto simp: undesired_def walk_end_def owned_seats_def)
  have a: "performs first (en_steps ?a) (floor_of ?ps) = ?E" "map Observed_Pane (en_kills ?a) = map wp_ref (undesired ?people ?ps)"
    "list_all (kills_only (en_kills ?a)) (en_steps ?a)"
    using end_panes_ok[OF d order_refl obs] by (simp_all add: Let_def)
  have "?E (Observed_Pane (op_tmux_id q)) = None" if "q \<in> set (on_reap o')" for q
  proof -
    have "q \<in> set (reaped_panes t ob)" using that owned_shape(3)[OF own] by simp
    from reaped_not_seated[OF k ob this] show ?thesis by (simp add: gone_def restrict_map_def)
  qed
  note b = reap_ok[OF this a(1,3)]
  have "oc_window oc \<noteq> Observed_Window (ow_tmux_id w)"
    if w: "w \<in> set (on_windows o')" "ow_logical_id w \<notin> wi_logical_id ` set (tp_windows t)" and oc: "?E r = Some oc" for w r oc
  proof
    assume at: "oc_window oc = Observed_Window (ow_tmux_id w)"
    obtain x where x: "x \<in> set ?ps" "seat x = oc" "wp_person_id x \<in> set ?people"
      using oc gone_floor_iff[OF k top] by blast
    obtain dw p where dw: "dw \<in> set (tp_windows t)" "p \<in> set (wi_panes dw)" "pn_person_id p = wp_person_id x"
      using x(3) by (rule desired_by_person)
    have "target (owned_windows ob) (wi_logical_id dw) = Observed_Window (ow_tmux_id w)"
      using seat_of_desired[OF k dw(1,2) x(1)] dw(3) x(2) at by (metis occupant.select_convs(1))
    then obtain v where v: "find (\<lambda>w. ow_logical_id w = wi_logical_id dw) (owned_windows ob) = Some v" "ow_tmux_id v = ow_tmux_id w"
      by (auto simp: target_def split: option.splits)
    then have "v \<in> set (owned_windows ob)" "ow_logical_id v = wi_logical_id dw" using find_hit by fastforce+
    moreover have "distinct (map ow_tmux_id (owned_windows ob))"
      using ob by (simp add: observation_ok_def owned_windows_def distinct_map_filter)
    ultimately have "v = w" using w(1) v(2) owned_shape(1)[OF own] by (auto simp: distinct_map inj_on_def)
    then show False using w(2) dw(1) \<open>ow_logical_id v = _\<close> by auto
  qed
  then have c: "performs first (en_steps (endings t o' ?ps)) (floor_of ?ps) = ?E
    \<and> en_kills (endings t o' ?ps) = en_kills ?b
    \<and> (list_all (kills_only (en_kills ?b)) (en_steps ?b) \<longrightarrow>
        list_all (kills_only (en_kills ?b)) (en_steps (endings t o' ?ps)))"
    unfolding end' using b by (intro end_windows_ok) auto
  then show "performs first (en_steps (endings t o' ?ps)) (floor_of ?ps) = ?E" by blast
  show "list_all (kills_only (en_kills (endings t o' ?ps))) (en_steps (endings t o' ?ps))" using b c by simp
  have kills: "en_kills (endings t o' ?ps) = en_kills ?a @ map op_tmux_id (reaped_panes t ob)"
    using b c owned_shape(3)[OF own] by simp
  have "Observed_Pane ` set (en_kills ?a) = wp_ref ` set (undesired ?people ?ps)" using arg_cong[OF a(2), of set] by simp
  also have "set (undesired ?people ?ps) = {x \<in> set (owned_seats t ob). wp_person_id x \<notin> set ?people}"
    using k by (auto simp: undesired_def walk_end_def)
  also have "\<dots> = observed_seat ` {p \<in> set (owned_panes t ob). op_person_id p \<notin> set ?people}"
    by (auto simp: owned_seats_def)
  also have "wp_ref ` \<dots> = Observed_Pane ` {op_tmux_id p |p. p \<in> set (owned_panes t ob) \<and> op_person_id p \<notin> set ?people}"
    by (auto simp: image_image)
  finally have "set (en_kills ?a) = {op_tmux_id p |p. p \<in> set (owned_panes t ob) \<and> op_person_id p \<notin> set ?people}"
    by (simp add: inj_image_eq_iff inj_def)
  then show "set (en_kills (endings t o' ?ps))
       = {op_tmux_id p |p. p \<in> set (owned_panes t ob) \<and> op_person_id p \<notin> set ?people} \<union> op_tmux_id ` set (reaped_panes t ob)"
    by (simp add: kills)
qed


definition foreign_session :: "topology \<Rightarrow> observed_topology \<Rightarrow> bool" where
  "foreign_session t ob \<longleftrightarrow> ot_session_exists ob \<and> ot_session_organization ob \<noteq> tp_organization t"

lemma plan_owned:
  assumes "compute_converge_plan t ob = Some (Inr plan)"
  shows "\<not> foreign_session t ob" "\<exists>o'. assert_unambiguous t ob = Inr o'"
  using assms by (auto simp: compute_converge_plan_def foreign_session_def split: if_splits sum.splits)

lemma empty_company_plan:
  assumes "assert_unambiguous t ob = Inr o'" "\<not> foreign_session t ob" "tp_windows t = []"
  shows "compute_converge_plan t ob = Some (Inr (if ot_session_exists ob
     then plan_of o' [StopSession] [] (map op_tmux_id (on_panes o')) else plan_of o' [] [] []))"
  using assms by (simp add: compute_converge_plan_def foreign_session_def)

definition desired_seat :: "topology \<Rightarrow> observed_topology \<Rightarrow> desired_window \<Rightarrow> desired_pane \<Rightarrow> occupant" where
  "desired_seat t ob w p = \<lparr>oc_window = target (owned_windows ob) (wi_logical_id w), oc_person = pn_person_id p,
     oc_hash = pn_launch_hash p\<rparr>"

definition final_floor :: "topology \<Rightarrow> observed_topology \<Rightarrow> converge_plan \<Rightarrow> floor" where
  "final_floor t ob plan = performs (first_window t ob) (cv_steps plan) (floor_of (owned_seats t ob))"

lemma plan_final_floor:
  assumes "assert_unambiguous t ob = Inr o'" "observation_ok ob" "topology_ok t" "walk_end t ob k" "list_all tidy tail"
  shows "performs (first_window t ob) (wk_steps k @ en_steps (endings t o' (wk_panes k)) @ tail) (floor_of (owned_seats t ob))
     = gone (undesired (topology_people t) (wk_panes k)) (floor_of (wk_panes k))"
  using endings_ok(1)[OF assms(1-4)] performs_tidy[OF assms(5)] assms(4)
  by (simp add: performs_append walk_end_def walk_ok_def)

lemma final_floor_empty:
  assumes own: "assert_unambiguous t ob = Inr o'" and "\<not> foreign_session t ob" "observation_ok ob" "tp_windows t = []"
    and plan: "compute_converge_plan t ob = Some (Inr plan)"
  shows "final_floor t ob plan = Map.empty"
proof (cases "ot_session_exists ob")
  case True
  then have "cv_steps plan = [StopSession]"
    using plan empty_company_plan[OF own assms(2,4)] by (auto simp: plan_of_def)
  then show ?thesis by (simp add: final_floor_def)
next
  case False
  then have "owned_seats t ob = []" "cv_steps plan = []"
    using plan empty_company_plan[OF own assms(2,4)] assms(3)
    by (auto simp: plan_of_def observation_ok_def owned_seats_def owned_panes_def)
  then show ?thesis by (simp add: final_floor_def floor_of_def)
qed

lemma final_floor_walk:
  assumes plan: "compute_converge_plan t ob = Some (Inr plan)" and ob: "observation_ok ob" and top: "topology_ok t"
    and some: "tp_windows t \<noteq> []"
  obtains k where "walk_end t ob k"
    "final_floor t ob plan = gone (undesired (topology_people t) (wk_panes k)) (floor_of (wk_panes k))"
proof -
  obtain o' where own: "assert_unambiguous t ob = Inr o'" using plan_owned[OF plan] by blast
  have home: "\<not> (ot_session_exists ob \<and> ot_session_organization ob \<noteq> tp_organization t)"
    using plan_owned(1)[OF plan] by (simp add: foreign_session_def)
  obtain k tail where k: "walk_end t ob k" "list_all tidy tail"
    "cv_steps plan = wk_steps k @ en_steps (endings t o' (wk_panes k)) @ tail"
    using plan_made[OF own ob top some home] plan by (auto simp: plan_of_def)
  then have "final_floor t ob plan = gone (undesired (topology_people t) (wk_panes k)) (floor_of (wk_panes k))"
    unfolding final_floor_def k(3) by (intro plan_final_floor[OF own ob top k(1,2)])
  then show ?thesis using that k(1) by blast
qed

text \<open>Who is where when the plan has been performed.\<close>

lemma final_floor_exact:
  assumes "compute_converge_plan t ob = Some (Inr plan)" "topology_ok t" "observation_ok ob"
  shows "final_floor t ob plan r = Some oc \<Longrightarrow>
      \<exists>w \<in> set (tp_windows t). \<exists>p \<in> set (wi_panes w). oc = desired_seat t ob w p"
    and "w \<in> set (tp_windows t) \<Longrightarrow> p \<in> set (wi_panes w) \<Longrightarrow>
      \<exists>!r. final_floor t ob plan r = Some (desired_seat t ob w p)"
proof -
  show "\<exists>w \<in> set (tp_windows t). \<exists>p \<in> set (wi_panes w). oc = desired_seat t ob w p"
    if oc: "final_floor t ob plan r = Some oc"
  proof (cases "tp_windows t = []")
    case True
    obtain o' where "assert_unambiguous t ob = Inr o'" using plan_owned[OF assms(1)] by blast
    then show ?thesis using final_floor_empty[OF _ plan_owned(1)[OF assms(1)] assms(3) True assms(1)] oc by auto
  next
    case False
    obtain k where k: "walk_end t ob k"
      "final_floor t ob plan = gone (undesired (topology_people t) (wk_panes k)) (floor_of (wk_panes k))"
      using final_floor_walk[OF assms(1,3,2) False] .
    obtain x where x: "x \<in> set (wk_panes k)" "seat x = oc" "wp_person_id x \<in> set (topology_people t)"
      using oc k(2) gone_floor_iff[OF k(1) assms(2)] by auto
    obtain w p where wp: "w \<in> set (tp_windows t)" "p \<in> set (wi_panes w)" "pn_person_id p = wp_person_id x"
      using x(3) by (rule desired_by_person)
    then have "oc = desired_seat t ob w p"
      using seat_of_desired[OF k(1) wp(1,2) x(1)] x(2) by (simp add: desired_seat_def)
    then show ?thesis using wp(1,2) by blast
  qed
  show "\<exists>!r. final_floor t ob plan r = Some (desired_seat t ob w p)"
    if w: "w \<in> set (tp_windows t)" and p: "p \<in> set (wi_panes w)"
  proof -
    have some: "tp_windows t \<noteq> []" using w by auto
    obtain k where k: "walk_end t ob k"
      "final_floor t ob plan = gone (undesired (topology_people t) (wk_panes k)) (floor_of (wk_panes k))"
      using final_floor_walk[OF assms(1,3,2) some] .
    have iff: "final_floor t ob plan r = Some (desired_seat t ob w p) \<longleftrightarrow>
        (\<exists>x \<in> set (wk_panes k). wp_ref x = r \<and> wp_person_id x = pn_person_id p)" for r
    proof -
      have "pn_person_id p \<in> set (topology_people t)" using w p by (auto simp: topology_people_def)
      then show ?thesis
        unfolding k(2) gone_floor_iff[OF k(1) assms(2)]
        using seat_of_desired[OF k(1) w p] by (auto simp: desired_seat_def) (auto simp: seat_def)
    qed
    have d: "distinct (map wp_person_id (wk_panes k))" using k(1) by (simp add: walk_end_def walk_ok_def)
    have "seated (target (owned_windows ob) (wi_logical_id w)) k p" using k(1) w p by (simp add: walk_end_def)
    then obtain x where "x \<in> set (wk_panes k)" "wp_person_id x = pn_person_id p" unfolding seated_def by blast
    moreover have "y = x" if "y \<in> set (wk_panes k)" "wp_person_id y = pn_person_id p" for y
      using that calculation d by (metis distinct_map inj_on_def)
    ultimately show ?thesis unfolding iff by blast
  qed
qed


lemma planning_refusals:
  assumes "topology_ok t" "observation_ok ob"
  shows "compute_converge_plan t ob \<noteq> None"
    "compute_converge_plan t ob = Some (Inl e) \<longleftrightarrow>
       (if foreign_session t ob
        then e = SessionOwnership (tp_session t)
          (if ot_session_organization ob = [] then ''missing'' else ot_session_organization ob) (tp_organization t)
        else assert_unambiguous t ob = Inl e)"
proof -
  have made: "\<exists>plan. compute_converge_plan t ob = Some (Inr plan)"
    if own: "assert_unambiguous t ob = Inr o'" and home: "\<not> foreign_session t ob" for o'
  proof (cases "tp_windows t = []")
    case True
    then show ?thesis using empty_company_plan[OF own home] by blast
  next
    case False
    have "\<not> (ot_session_exists ob \<and> ot_session_organization ob \<noteq> tp_organization t)"
      using home by (simp add: foreign_session_def)
    then show ?thesis using plan_made[OF own assms(2,1) False] by blast
  qed
  have refused: "compute_converge_plan t ob = Some (Inl (SessionOwnership (tp_session t)
          (if ot_session_organization ob = [] then ''missing'' else ot_session_organization ob) (tp_organization t)))"
    if "foreign_session t ob"
    using that by (simp add: compute_converge_plan_def foreign_session_def)
  have ambiguous: "compute_converge_plan t ob = Some (Inl e')" if "assert_unambiguous t ob = Inl e'" "\<not> foreign_session t ob" for e'
    using that by (auto simp: compute_converge_plan_def foreign_session_def)
  show "compute_converge_plan t ob \<noteq> None"
    using made refused ambiguous by (cases "foreign_session t ob"; cases "assert_unambiguous t ob") auto
  show "compute_converge_plan t ob = Some (Inl e) \<longleftrightarrow>
       (if foreign_session t ob
        then e = SessionOwnership (tp_session t)
          (if ot_session_organization ob = [] then ''missing'' else ot_session_organization ob) (tp_organization t)
        else assert_unambiguous t ob = Inl e)"
    using made refused ambiguous by (cases "foreign_session t ob"; cases "assert_unambiguous t ob") fastforce+
qed

lemma roster_seats:
  assumes "desired_topology ro hashes session = Inr t" "observation_ok ob"
    and "compute_converge_plan t ob = Some (Inr plan)"
  shows "(\<exists>r oc. final_floor t ob plan r = Some oc \<and> oc_person oc = pid)
      \<longleftrightarrow> pid \<in> cp_id ` set (ro_people ro) \<and> om_get hashes pid \<noteq> None"
    and "final_floor t ob plan r = Some oc \<Longrightarrow> om_get hashes (oc_person oc) = Some (oc_hash oc)
      \<and> oc_window oc = target (owned_windows ob) (person_window_id (oc_person oc))"
proof -
  note ok = placed_topology_ok[OF assms(1)]
  note exact = final_floor_exact[OF assms(3) ok(1) assms(2)]
  have people: "set (topology_people t) = {pid \<in> cp_id ` set (ro_people ro). om_get hashes pid \<noteq> None}"
    unfolding ok(2) by auto
  have "roster_validate ro = Inr ()" using assms(1) by (auto simp: desired_topology_def res_bind_Inr_iff)
  from assms(1)[unfolded desired_topology_eq[OF this]]
  have "set (tp_windows t) \<subseteq> {placed_window hash p |hash p. om_get hashes (cp_id p) = Some hash}"
    by (auto simp: List.map_filter_def placed_def; blast)
  then have window: "\<exists>hash pe. w = placed_window hash pe \<and> om_get hashes (cp_id pe) = Some hash"
    if "w \<in> set (tp_windows t)" for w using that by blast
  show "(\<exists>r oc. final_floor t ob plan r = Some oc \<and> oc_person oc = pid)
      \<longleftrightarrow> pid \<in> cp_id ` set (ro_people ro) \<and> om_get hashes pid \<noteq> None" (is "?L \<longleftrightarrow> ?R")
  proof
    assume ?L
    then obtain r oc where "final_floor t ob plan r = Some oc" "oc_person oc = pid" by blast
    then obtain w p where "w \<in> set (tp_windows t)" "p \<in> set (wi_panes w)" "pn_person_id p = pid"
      using exact(1) by (fastforce simp: desired_seat_def)
    then have "pid \<in> set (topology_people t)" by (auto simp: topology_people_def)
    then show ?R using people by simp
  next
    assume ?R
    then have "pid \<in> set (topology_people t)" using people by simp
    then obtain w p where "w \<in> set (tp_windows t)" "p \<in> set (wi_panes w)" "pn_person_id p = pid"
      by (rule desired_by_person)
    then show ?L using ex1_implies_ex[OF exact(2)] by (fastforce simp: desired_seat_def)
  qed
  show "om_get hashes (oc_person oc) = Some (oc_hash oc)
      \<and> oc_window oc = target (owned_windows ob) (person_window_id (oc_person oc))"
    if at: "final_floor t ob plan r = Some oc"
  proof -
    obtain w p where wp: "w \<in> set (tp_windows t)" "p \<in> set (wi_panes w)" "oc = desired_seat t ob w p"
      using exact(1)[OF at] by blast
    obtain hash pe where pe: "w = placed_window hash pe" "om_get hashes (cp_id pe) = Some hash" using window[OF wp(1)] by blast
    then show ?thesis using wp(2,3) by (auto simp: placed_window_def desired_seat_def)
  qed
qed

lemma plan_predictions:
  assumes "compute_converge_plan t ob = Some (Inr plan)" "topology_ok t" "observation_ok ob" "tp_windows t \<noteq> []"
  shows "set (cv_predicted_kill_panes plan)
       = {op_tmux_id p |p. p \<in> set (owned_panes t ob) \<and> op_person_id p \<notin> set (topology_people t)}
         \<union> op_tmux_id ` set (reaped_panes t ob)"
    and "KillPane i \<in> set (cv_steps plan) \<Longrightarrow> i \<in> set (cv_predicted_kill_panes plan)"
    and "cv_predicted_respawn_persons plan
       = map pn_person_id (filter (stale_hash (owned_seats t ob)) (concat (map wi_panes (tp_windows t))))"
    and "concat (map respawned (cv_steps plan)) = cv_predicted_respawn_persons plan"
    and "StopSession \<notin> set (cv_steps plan)"
proof -
  obtain o' where own: "assert_unambiguous t ob = Inr o'" using plan_owned[OF assms(1)] by blast
  have home: "\<not> (ot_session_exists ob \<and> ot_session_organization ob \<noteq> tp_organization t)"
    using plan_owned(1)[OF assms(1)] by (simp add: foreign_session_def)
  obtain k tail where k: "walk_end t ob k" "list_all tidy tail"
    and plan: "plan = plan_of o' (wk_steps k @ en_steps (endings t o' (wk_panes k)) @ tail)
          (wk_respawns k) (en_kills (endings t o' (wk_panes k)))"
    using plan_made[OF own assms(3,2,4) home] assms(1) by auto
  let ?e = "endings t o' (wk_panes k)"
  have steps: "cv_steps plan = wk_steps k @ en_steps ?e @ tail" "cv_predicted_kill_panes plan = en_kills ?e"
    "cv_predicted_respawn_persons plan = wk_respawns k" by (simp_all add: plan plan_of_def)
  note e = endings_ok[OF own assms(3,2) k(1)]
  have walk: "list_all gentle (wk_steps k)" "wk_respawns k = concat (map respawned (wk_steps k))"
    using k(1) by (simp_all add: walk_end_def walk_ok_def)
  show "set (cv_predicted_kill_panes plan)
       = {op_tmux_id p |p. p \<in> set (owned_panes t ob) \<and> op_person_id p \<notin> set (topology_people t)}
         \<union> op_tmux_id ` set (reaped_panes t ob)"
    unfolding steps by (rule e(3))
  have not: "s \<notin> set (wk_steps k)" if "\<not> gentle s" for s using walk(1) that by (auto simp: list_all_iff)
  have tail: "s \<notin> set tail" if "\<not> tidy s" for s using k(2) that by (auto simp: list_all_iff)
  show "i \<in> set (cv_predicted_kill_panes plan)" if "KillPane i \<in> set (cv_steps plan)"
    using that not[of "KillPane i"] tail[of "KillPane i"] e(2) unfolding steps by (auto simp: list_all_iff)
  show "cv_predicted_respawn_persons plan
       = map pn_person_id (filter (stale_hash (owned_seats t ob)) (concat (map wi_panes (tp_windows t))))"
    using k(1) unfolding steps by (simp add: walk_end_def)
  have "respawned s = []" if "kills_only ps s \<or> tidy s" for ps s using that by (cases s) auto
  then have "concat (map respawned (en_steps ?e @ tail)) = []"
    using e(2) k(2) by (auto simp: list_all_iff)
  then show "concat (map respawned (cv_steps plan)) = cv_predicted_respawn_persons plan"
    using walk(2) unfolding steps by simp
  show "StopSession \<notin> set (cv_steps plan)"
    using not[of StopSession] tail[of StopSession] e(2) unfolding steps by (auto simp: list_all_iff)
qed


section \<open>What a closed window takes\<close>

text \<open>
  A window the plan leaves standing: a desired one, a protected one that is nobody's, the focus window, an
  overview. And the window of its own of a person who is no longer desired.
\<close>

definition standing :: "topology \<Rightarrow> observed_window \<Rightarrow> bool" where
  "standing t v \<longleftrightarrow> ow_logical_id v \<in> wi_logical_id ` set (tp_windows t)
     \<or> ow_protected_ui v \<and> person_window_person_id (ow_logical_id v) = None
     \<or> ow_logical_id v = FOCUS_WINDOW_ID \<or> overview_department_id (ow_logical_id v) \<noteq> None"

definition departed_window :: "topology \<Rightarrow> observed_window \<Rightarrow> bool" where
  "departed_window t v \<longleftrightarrow> (case person_window_person_id (ow_logical_id v) of
     None \<Rightarrow> False | Some pid \<Rightarrow> pid \<notin> set (topology_people t))"

definition closable :: "topology \<Rightarrow> observed_window list \<Rightarrow> step \<Rightarrow> bool" where
  "closable t windows s \<longleftrightarrow> (case s of
     KillWindow win \<Rightarrow> \<exists>v \<in> set windows. win = Observed_Window (ow_tmux_id v) \<and> (\<not> standing t v \<or> departed_window t v)
   | _ \<Rightarrow> True)"

lemma closable_simps [simp]:
  "closable t windows (KillWindow win) \<longleftrightarrow>
     (\<exists>v \<in> set windows. win = Observed_Window (ow_tmux_id v) \<and> (\<not> standing t v \<or> departed_window t v))"
  "closable t windows (KillPane pane)"
  by (simp_all add: closable_def)

lemma end_pane_closable:
  assumes "list_all (closable t (on_windows o')) (en_steps e)"
  shows "list_all (closable t (on_windows o')) (en_steps (end_pane o' (topology_people t) ps e n))"
proof (cases "own_window_of o' ps n")
  case (Some l)
  then obtain w where w: "w \<in> set (on_windows o')" "wp_window (ps ! n) = Observed_Window (ow_tmux_id w)"
      "person_window_person_id (ow_logical_id w) = Some (wp_person_id (ps ! n))"
    by (auto simp: own_window_of_def Let_def dest!: find_hit split: window_ref.splits if_splits)
  then show ?thesis using assms Some
    by (auto simp: end_pane_def Let_def departed_window_def split: pane_ref.split)
qed (use assms in \<open>auto simp: end_pane_def Let_def split: pane_ref.split\<close>)

lemma endings_closable: "list_all (closable t (on_windows o')) (en_steps (endings t o' ps))"
proof -
  let ?C = "\<lambda>e. list_all (closable t (on_windows o')) (en_steps e)"
  have a: "?C (foldl (end_pane o' (topology_people t) ps) e ns)" if "?C e" for e ns
    using that by (induction ns arbitrary: e) (simp_all add: end_pane_closable)
  have b: "?C (foldl reap_pane e qs)" if "?C e" for e qs
    using that by (induction qs arbitrary: e) (simp_all add: reap_pane_def)
  have c: "?C (foldl (end_window t) e ws)" if "?C e" "set ws \<subseteq> set (on_windows o')" for e ws
    using that
  proof (induction ws arbitrary: e)
    case (Cons w ws)
    have "?C (end_window t e w)" using Cons.prems
      by (auto simp: end_window_def stale_window_def standing_def)
    then show ?case using Cons by simp
  qed simp
  have "?C first_ending" by (simp add: first_ending_def)
  then show ?thesis unfolding endings_def first_ending_def[symmetric] by (intro c b a) auto
qed

text \<open>The pane a step names, and the steps of the walk name only panes of the company.\<close>

fun names :: "step \<Rightarrow> string set" where
  "names (CreateWindowByMove w name pane) = {pane}"
| "names (MovePane pane win) = {pane}"
| "names (Respawn pane spec) = {pane}"
| "names (Retag pane pid hash) = {pane}"
| "names (KillPane pane) = {pane}"
| "names s = {}"

definition names_own :: "string set \<Rightarrow> walk \<Rightarrow> bool" where
  "names_own ids k \<longleftrightarrow> (\<forall>x \<in> set (wk_panes k). \<forall>i. wp_ref x = Observed_Pane i \<longrightarrow> i \<in> ids)
     \<and> (\<forall>s \<in> set (wk_steps k). names s \<subseteq> ids)"

lemma names_own_update:
  assumes "names_own ids k" "n < length (wk_panes k)" "wp_ref x = wp_ref (wk_panes k ! n)"
    "wk_panes k' = (wk_panes k)[n := x]" "wk_steps k' = wk_steps k @ [s]" "names s \<subseteq> ids"
  shows "names_own ids k'"
  using assms set_update_subset_insert[of "wk_panes k" n x] nth_mem[OF assms(2)]
  by (auto simp: names_own_def) (metis insertE nth_mem subsetD)

lemma names_at:
  assumes "names_own ids k" "n < length (wk_panes k)" "wp_ref (wk_panes k ! n) = Observed_Pane i"
  shows "i \<in> ids"
  using assms by (auto simp: names_own_def)

lemma move_names:
  assumes "move_pane_to win n p k = Inr k'" "names_own ids k" "n < length (wk_panes k)"
  shows "names_own ids k' \<and> length (wk_panes k') = length (wk_panes k)"
proof (cases "wp_window (wk_panes k ! n) = win")
  case False
  then obtain i where i: "wp_ref (wk_panes k ! n) = Observed_Pane i"
      "k' = k\<lparr>wk_steps := wk_steps k @ [MovePane i win], wk_dirty := wk_dirty k @ [wp_window (wk_panes k ! n), win],
         wk_panes := (wk_panes k)[n := (wk_panes k ! n)\<lparr>wp_window := win\<rparr>]\<rparr>"
    using assms(1) by (auto simp: move_pane_to_def Let_def split: option.splits)
  have "names_own ids k'" unfolding i(2)
    by (rule names_own_update[OF assms(2,3), where x = "(wk_panes k ! n)\<lparr>wp_window := win\<rparr>" and s = "MovePane i win"])
      (simp_all add: names_at[OF assms(2,3) i(1)])
  then show ?thesis by (simp add: i(2))
qed (use assms in \<open>simp add: move_pane_to_def\<close>)

lemma respawn_names:
  assumes "respawn_pane n p k = Inr (k', b)" "names_own ids k" "n < length (wk_panes k)"
  shows "names_own ids k' \<and> length (wk_panes k') = length (wk_panes k)"
proof (cases "wp_launch_hash (wk_panes k ! n) = pn_launch_hash p")
  case False
  then obtain i where i: "wp_ref (wk_panes k ! n) = Observed_Pane i"
      "k' = k\<lparr>wk_steps := wk_steps k @ [Respawn i (spawn_spec_of p)], wk_respawns := wk_respawns k @ [pn_person_id p],
         wk_panes := (wk_panes k)[n := (wk_panes k ! n)\<lparr>wp_launch_hash := pn_launch_hash p\<rparr>]\<rparr>"
    using assms(1) by (auto simp: respawn_pane_def Let_def split: option.splits)
  have "names_own ids k'" unfolding i(2)
    by (rule names_own_update[OF assms(2,3), where x = "(wk_panes k ! n)\<lparr>wp_launch_hash := pn_launch_hash p\<rparr>" and s = "Respawn i (spawn_spec_of p)"])
      (simp_all add: names_at[OF assms(2,3) i(1)])
  then show ?thesis by (simp add: i(2))
qed (use assms in \<open>simp add: respawn_pane_def\<close>)

lemma names_own_cong:
  "names_own ids k \<Longrightarrow> wk_panes k' = wk_panes k \<Longrightarrow> wk_steps k' = wk_steps k \<Longrightarrow> names_own ids k'"
  by (simp add: names_own_def)

lemma walk_pane_names:
  assumes "walk_pane org tags w win k p = Inr k'" "names_own ids k"
  shows "names_own ids k'"
proof (cases "position (\<lambda>o'. wp_person_id o' = pn_person_id p) (wk_panes k)")
  case None
  then show ?thesis using assms
    by (auto simp: walk_pane_def split_pane_def bind_pane_def created_pane_def names_own_def)
next
  case (Some n)
  note at = position_Some[OF Some]
  obtain k1 k2 b where r: "move_pane_to win n p k = Inr k1" "respawn_pane n p k1 = Inr (k2, b)"
      "k' = bind_pane (pn_person_id p) (wp_ref (wk_panes (retag_pane org tags w n p b k2) ! n)) (retag_pane org tags w n p b k2)"
    using assms(1) Some by (auto simp: walk_pane_def Let_def res_bind_Inr_iff)
  have n: "n < length (wk_panes k)" using at by simp
  note m = move_names[OF r(1) assms(2) n]
  note s = respawn_names[OF r(2), of ids] 
  have k2: "names_own ids k2" "n < length (wk_panes k2)" using m s n by simp_all
  have "names_own ids (retag_pane org tags w n p b k2)"
    using k2(1) names_at[OF k2] by (auto simp: retag_pane_def names_own_def split: pane_ref.split)
  then show ?thesis unfolding r(3) bind_pane_def by (rule names_own_cong) simp_all
qed

lemma bind_window_names:
  assumes "bind_window k w = Inr (k', win)" "names_own ids k"
  shows "names_own ids k'"
proof (cases "find (\<lambda>x. ww_logical_id x = wi_logical_id w) (wk_windows k)")
  case (Some x)
  then show ?thesis using assms by (simp add: bind_window_def)
next
  case none: None
  show ?thesis
  proof (cases "find (has_pane k) (wi_panes w)")
    case None
    then show ?thesis using assms none
      by (auto simp: bind_window_def Let_def created_pane_def names_own_def split: option.splits)
  next
    case (Some e)
    then obtain n i where n: "position (\<lambda>o'. wp_person_id o' = pn_person_id e) (wk_panes k) = Some n"
        "wp_ref (wk_panes k ! n) = Observed_Pane i"
        "wk_steps k' = wk_steps k @ [CreateWindowByMove (wi_logical_id w) (window_name w) i]"
        "wk_panes k' = (wk_panes k)[n := (wk_panes k ! n)\<lparr>wp_window := Created_Window (wi_logical_id w)\<rparr>]"
      using assms(1) none by (auto simp: bind_window_def Let_def split: option.splits)
    have l: "n < length (wk_panes k)" using position_Some[OF n(1)] by simp
    show ?thesis
      using names_own_update[OF assms(2) l _ n(4,3)] names_at[OF assms(2) l n(2)] by simp
  qed
qed

lemma walk_window_names:
  assumes "walk_window org tags k w = Inr k'" "names_own ids k"
  shows "names_own ids k'"
proof (cases "find (\<lambda>x. ww_logical_id x = wi_logical_id w) (wk_windows k) = None \<and> wi_panes w = []")
  case False
  then obtain k1 win where b: "bind_window k w = Inr (k1, win)"
      "res_fold (walk_pane org tags w win)
          (k1\<lparr>wk_window_binding := om_put (wi_logical_id w) win (wk_window_binding k1)\<rparr>) (wi_panes w) = Inr k'"
    using assms(1) by (auto simp: walk_window_def res_bind_Inr_iff)
  have "names_own ids (k1\<lparr>wk_window_binding := om_put (wi_logical_id w) win (wk_window_binding k1)\<rparr>)"
    using bind_window_names[OF b(1) assms(2)] by (rule names_own_cong) simp_all
  then show ?thesis by (rule res_fold_inv[where P = "names_own ids", OF b(2)]) (rule walk_pane_names)
qed (use assms in \<open>simp add: walk_window_def\<close>)

lemma plan_start_names:
  assumes "plan_start t ob o' = Some k" "on_panes o' = owned_panes t ob"
  shows "names_own (op_tmux_id ` set (owned_panes t ob)) k"
  using assms
  by (auto simp: plan_start_def create_session_def first_walk_def created_pane_def names_own_def Let_def
      split: if_splits list.splits)

text \<open>A pane a run of steps does not name keeps its seat unless its window is killed.\<close>

lemma unnamed_stays:
  assumes "\<forall>s \<in> set ss. i \<notin> names s \<and> s \<noteq> StopSession" "E (Observed_Pane i) = Some oc"
    "KillWindow (oc_window oc) \<notin> set ss"
  shows "performs first ss E (Observed_Pane i) = Some oc"
  using assms
proof (induction ss arbitrary: E)
  case (Cons s ss)
  have "perform first E s (Observed_Pane i) = Some oc"
    using Cons.prems by (cases s) (auto simp: spawned_def adjusted_def)
  then show ?case using Cons by (simp add: performs_def)
qed simp

lemma performs_pointwise: "E r = E' r \<Longrightarrow> performs first ss E r = performs first ss E' r"
proof (induction ss arbitrary: E E')
  case (Cons s ss)
  have "perform first E s r = perform first E' s r"
    using Cons.prems by (cases s) (auto simp: spawned_def adjusted_def)
  then have "performs first ss (perform first E s) r = performs first ss (perform first E' s) r" by (rule Cons.IH)
  then show ?case by (simp add: performs_def)
qed simp

lemma gentle_stays:
  assumes "list_all gentle ss" "E (Observed_Pane i) \<noteq> None"
  shows "performs first ss E (Observed_Pane i) \<noteq> None"
  using assms
proof (induction ss arbitrary: E)
  case (Cons s ss)
  have "perform first E s (Observed_Pane i) \<noteq> None"
    using Cons.prems by (cases s) (auto simp: spawned_def adjusted_def)
  then show ?case using Cons by (simp add: performs_def)
qed simp

text \<open>Every pane of the session that was seen, the company's or not, when the plan has been performed.\<close>

definition whole_floor :: "topology \<Rightarrow> observed_topology \<Rightarrow> converge_plan \<Rightarrow> floor" where
  "whole_floor t ob plan = performs (first_window t ob) (cv_steps plan) (floor_of (map observed_seat (ot_panes ob)))"

lemma seen_seat:
  assumes "observation_ok ob" "p \<in> set (ot_panes ob)"
  shows "floor_of (map observed_seat (ot_panes ob)) (Observed_Pane (op_tmux_id p)) = Some (seat (observed_seat p))"
proof -
  have "distinct (map wp_ref (map observed_seat (ot_panes ob)))"
    using assms(1) by (auto simp: observation_ok_def distinct_map inj_on_def)
  from floor_of_iff[OF this] show ?thesis using assms(2) by auto
qed

lemma own_pane_survives:
  assumes plan: "compute_converge_plan t ob = Some (Inr plan)" "topology_ok t" "observation_ok ob" "tp_windows t \<noteq> []"
    and p: "p \<in> set (owned_panes t ob)" "op_person_id p \<in> set (topology_people t)"
  shows "whole_floor t ob plan (Observed_Pane (op_tmux_id p)) \<noteq> None"
proof -
  let ?r = "Observed_Pane (op_tmux_id p)"
  have seen: "p \<in> set (ot_panes ob)" using p(1) by (simp add: owned_panes_def)
  have ids: "distinct (map op_tmux_id (owned_panes t ob))"
    using plan(3) by (simp add: observation_ok_def owned_panes_def distinct_map_filter)
  then have "distinct (map wp_ref (owned_seats t ob))"
    by (auto simp: owned_seats_def distinct_map inj_on_def)
  from floor_of_iff[OF this] have own: "floor_of (owned_seats t ob) ?r = Some (seat (observed_seat p))"
    using p(1) by (auto simp: owned_seats_def)
  have same: "whole_floor t ob plan ?r = final_floor t ob plan ?r"
    unfolding whole_floor_def final_floor_def by (rule performs_pointwise) (simp add: own seen_seat[OF plan(3) seen])
  obtain k where k: "walk_end t ob k"
      "final_floor t ob plan = gone (undesired (topology_people t) (wk_panes k)) (floor_of (wk_panes k))"
    using final_floor_walk[OF plan(1,3,2,4)] .
  have "floor_of (wk_panes k) ?r \<noteq> None"
    using gentle_stays[of "wk_steps k" "floor_of (owned_seats t ob)" "op_tmux_id p" "first_window t ob"] own k(1)
    by (simp add: walk_end_def walk_ok_def)
  then obtain x where x: "x \<in> set (wk_panes k)" "wp_ref x = ?r" by (auto simp: floor_of_None)
  have "wp_person_id x \<in> set (topology_people t)"
  proof (rule ccontr)
    assume gone: "wp_person_id x \<notin> set (topology_people t)"
    then have "x \<in> set (owned_seats t ob)" using x(1) k(1) by (simp add: walk_end_def)
    then obtain q where "q \<in> set (owned_panes t ob)" "x = observed_seat q" by (auto simp: owned_seats_def)
    then have "q = p" using x(2) p(1) ids by (auto simp: distinct_map inj_on_def)
    then show False using gone p(2) \<open>x = observed_seat q\<close> by simp
  qed
  then show ?thesis using x gone_floor_iff[OF k(1) plan(2)] unfolding same k(2) by blast
qed

lemma plan_closes:
  assumes "compute_converge_plan t ob = Some (Inr plan)" "topology_ok t" "observation_ok ob" "tp_windows t \<noteq> []"
  shows "\<forall>s \<in> set (cv_steps plan). closable t (owned_windows ob) s"
    and "\<forall>s \<in> set (cv_steps plan). names s \<subseteq> op_tmux_id ` set (owned_panes t ob) \<union> set (cv_predicted_kill_panes plan)"
proof -
  obtain o' where own: "assert_unambiguous t ob = Inr o'" using plan_owned[OF assms(1)] by blast
  have home: "\<not> (ot_session_exists ob \<and> ot_session_organization ob \<noteq> tp_organization t)"
    using plan_owned(1)[OF assms(1)] by (simp add: foreign_session_def)
  let ?tags = "om_of_list (map (\<lambda>p. (op_tmux_id p, p)) (on_panes o'))"
  obtain k1 k where k: "plan_start t ob o' = Some k1"
    "res_fold (walk_window (tp_organization t) ?tags) k1 (tp_windows t) = Inr k" "walk_end t ob k"
    using walk_ends[OF own assms(3,2,4)] by blast
  let ?e = "endings t o' (wk_panes k)"
  obtain ss where ss: "layout_steps o' k (wk_dirty k @ en_dirty ?e) (tp_windows t) = Some ss"
      "plan = plan_of o' (wk_steps k @ en_steps ?e @ order_steps t o' (wk_window_binding k) (en_killed_windows ?e) @ ss)
        (wk_respawns k) (en_kills ?e)"
    using assms(1,4) home own k(1,2)
    by (auto simp: compute_converge_plan_def finish_plan_def Let_def split: option.splits)
  have seats: "\<forall>w \<in> set (tp_windows t). \<forall>p \<in> set (wi_panes w). seated (target (owned_windows ob) (wi_logical_id w)) k p"
    using k(3) by (simp add: walk_end_def)
  have tail: "list_all tidy (order_steps t o' (wk_window_binding k) (en_killed_windows ?e) @ ss)"
    using layout_steps_ok[OF seats, of o' "wk_dirty k @ en_dirty ?e"] ss(1) order_steps_tidy by auto
  note shape = owned_shape[OF own]
  have gentle: "list_all gentle (wk_steps k)" using k(3) by (simp add: walk_end_def walk_ok_def)
  have "closable t ws s" if "gentle s \<or> tidy s" for ws s using that by (cases s) (auto simp: closable_def)
  then show "\<forall>s \<in> set (cv_steps plan). closable t (owned_windows ob) s"
    using endings_closable[of t o' "wk_panes k"] gentle tail
    by (auto simp: ss(2) plan_of_def shape(1) list_all_iff)
  have "names_own (op_tmux_id ` set (owned_panes t ob)) k"
    by (rule res_fold_inv[where P = "names_own (op_tmux_id ` set (owned_panes t ob))",
          OF k(2) plan_start_names[OF k(1) shape(2)]]) (rule walk_window_names)
  moreover have "names s = {}" if "tidy s" for s using that by (cases s) auto
  moreover have "names s \<subseteq> set ps" if "kills_only ps s" for ps s using that by (cases s) auto
  ultimately show "\<forall>s \<in> set (cv_steps plan). names s \<subseteq> op_tmux_id ` set (owned_panes t ob) \<union> set (cv_predicted_kill_panes plan)"
    using endings_ok(2)[OF own assms(3,2) k(3)] tail
    by (fastforce simp: ss(2) plan_of_def list_all_iff names_own_def)
qed

lemma plan_takes:
  assumes plan: "compute_converge_plan t ob = Some (Inr plan)" "topology_ok t" "observation_ok ob" "tp_windows t \<noteq> []"
    and p: "p \<in> set (ot_panes ob)" "whole_floor t ob plan (Observed_Pane (op_tmux_id p)) = None"
      "op_tmux_id p \<notin> set (cv_predicted_kill_panes plan)"
  shows "p \<notin> set (owned_panes t ob) \<and> KillWindow (Observed_Window (op_tmux_window_id p)) \<in> set (cv_steps plan)"
proof
  note said = plan_predictions[OF plan]
  show stray: "p \<notin> set (owned_panes t ob)"
  proof
    assume o: "p \<in> set (owned_panes t ob)"
    then have "op_person_id p \<in> set (topology_people t)" using p(3) said(1) by blast
    from own_pane_survives[OF plan o this] p(2) show False by simp
  qed
  have "op_tmux_id p \<notin> op_tmux_id ` set (owned_panes t ob)"
    using stray p(1) plan(3) by (auto simp: observation_ok_def owned_panes_def distinct_map inj_on_def)
  then have unnamed: "\<forall>s \<in> set (cv_steps plan). op_tmux_id p \<notin> names s \<and> s \<noteq> StopSession"
    using plan_closes(2)[OF plan] p(3) said(5) by blast
  show "KillWindow (Observed_Window (op_tmux_window_id p)) \<in> set (cv_steps plan)"
  proof (rule ccontr)
    assume "KillWindow (Observed_Window (op_tmux_window_id p)) \<notin> set (cv_steps plan)"
    then have "performs (first_window t ob) (cv_steps plan) (floor_of (map observed_seat (ot_panes ob)))
        (Observed_Pane (op_tmux_id p)) = Some (seat (observed_seat p))"
      by (intro unnamed_stays unnamed seen_seat plan(3) p(1)) (simp add: seat_def)
    with p(2) show False by (simp add: whole_floor_def)
  qed
qed

section \<open>What the plan promises\<close>

text \<open>
  C1. From the roster to the floor: the plan computed for what placement makes of a roster and a published
  set of launch hashes seats a person exactly when the roster holds them and a hash is published for them,
  and seats them at that hash, in a window of their own.
\<close>

theorem roster_is_seated:
  assumes "desired_topology ro hashes session = Inr t" "observation_ok ob"
    and "compute_converge_plan t ob = Some (Inr plan)"
  shows "(\<forall>pid. (\<exists>r oc. final_floor t ob plan r = Some oc \<and> oc_person oc = pid)
      \<longleftrightarrow> pid \<in> cp_id ` set (ro_people ro) \<and> om_get hashes pid \<noteq> None)
    \<and> (\<forall>r oc. final_floor t ob plan r = Some oc \<longrightarrow> om_get hashes (oc_person oc) = Some (oc_hash oc)
      \<and> oc_window oc = target (owned_windows ob) (person_window_id (oc_person oc)))"
  using roster_seats[OF assms] by blast

text \<open>
  C2. Performing the plan leaves exactly the desired people: every occupant there is then is a desired
  person at their launch hash in their window, and every desired person has exactly one pane. It holds
  from any coherent observation: people to be moved, respawned, created, stopped, a session to be made.
\<close>

theorem plan_reaches_the_desired:
  assumes "compute_converge_plan t ob = Some (Inr plan)" "topology_ok t" "observation_ok ob"
  shows "(\<forall>r oc. final_floor t ob plan r = Some oc \<longrightarrow>
      (\<exists>w \<in> set (tp_windows t). \<exists>p \<in> set (wi_panes w). oc = desired_seat t ob w p))
    \<and> (\<forall>w \<in> set (tp_windows t). \<forall>p \<in> set (wi_panes w). \<exists>!r. final_floor t ob plan r = Some (desired_seat t ob w p))"
  using final_floor_exact[OF assms] by blast

text \<open>
  C21. The plan does no more than it says. The panes it predicts to kill are those of owned people who are
  no longer desired and the orphans to be reaped, and every pane a step kills by its name is one of those.
  The windows it closes are windows of the company that are neither desired nor protected, nor the focus
  window or an overview, or are the own window of somebody no longer desired. Of all the panes that were
  seen, one that is gone when the plan has been performed and was not predicted is a stray without the
  company's tags, and it sat in a window the plan closes: such a window takes its strays with it. The people
  predicted to be respawned are exactly the desired ones seen at another launch hash, and nobody else is;
  the session is stopped only when nobody at all is desired.
\<close>

theorem plan_does_no_more_than_it_says:
  assumes "compute_converge_plan t ob = Some (Inr plan)" "topology_ok t" "observation_ok ob" "tp_windows t \<noteq> []"
  shows "set (cv_predicted_kill_panes plan)
       = {op_tmux_id p |p. p \<in> set (owned_panes t ob) \<and> op_person_id p \<notin> set (topology_people t)}
         \<union> op_tmux_id ` set (reaped_panes t ob)
    \<and> (\<forall>i. KillPane i \<in> set (cv_steps plan) \<longrightarrow> i \<in> set (cv_predicted_kill_panes plan))
    \<and> (\<forall>win. KillWindow win \<in> set (cv_steps plan) \<longrightarrow>
         (\<exists>v \<in> set (owned_windows ob). win = Observed_Window (ow_tmux_id v) \<and> (\<not> standing t v \<or> departed_window t v)))
    \<and> (\<forall>p \<in> set (ot_panes ob). whole_floor t ob plan (Observed_Pane (op_tmux_id p)) = None \<longrightarrow>
         op_tmux_id p \<in> set (cv_predicted_kill_panes plan)
         \<or> p \<notin> set (owned_panes t ob) \<and> KillWindow (Observed_Window (op_tmux_window_id p)) \<in> set (cv_steps plan))
    \<and> cv_predicted_respawn_persons plan
       = map pn_person_id (filter (stale_hash (owned_seats t ob)) (concat (map wi_panes (tp_windows t))))
    \<and> concat (map respawned (cv_steps plan)) = cv_predicted_respawn_persons plan
    \<and> StopSession \<notin> set (cv_steps plan)"
proof -
  have "\<exists>v \<in> set (owned_windows ob). win = Observed_Window (ow_tmux_id v) \<and> (\<not> standing t v \<or> departed_window t v)"
    if "KillWindow win \<in> set (cv_steps plan)" for win
    using plan_closes(1)[OF assms] that by fastforce
  then show ?thesis using plan_predictions[OF assms] plan_takes[OF assms] by blast
qed

text \<open>
  Planning never panics and never gives up half way: for a placed topology and a coherent observation,
  the plan is refused exactly when the session is another organization's or the ownership tags are
  ambiguous, with that reason, and is computed in every other case.
\<close>

theorem planning_is_refused_only_on_ownership:
  assumes "topology_ok t" "observation_ok ob"
  shows "compute_converge_plan t ob \<noteq> None
    \<and> (\<forall>e. compute_converge_plan t ob = Some (Inl e) \<longleftrightarrow>
       (if foreign_session t ob
        then e = SessionOwnership (tp_session t)
          (if ot_session_organization ob = [] then ''missing'' else ot_session_organization ob) (tp_organization t)
        else assert_unambiguous t ob = Inl e))"
  using planning_refusals[OF assms] by blast

section \<open>A company at rest\<close>

definition at_home :: "topology \<Rightarrow> observed_topology \<Rightarrow> desired_window \<Rightarrow> bool" where
  "at_home t ob w \<longleftrightarrow> (\<exists>v \<in> set (owned_windows ob). ow_logical_id v = wi_logical_id w \<and> \<not> ow_sleeping_notice v
     \<and> (\<forall>p \<in> set (wi_panes w). \<exists>q \<in> set (owned_panes t ob). op_person_id q = pn_person_id p
          \<and> op_tmux_window_id q = ow_tmux_id v \<and> op_logical_window_id q = wi_logical_id w
          \<and> op_launch_hash q = pn_launch_hash p))"

text \<open>
  At rest: everybody desired is at home, nobody else is here, no window is left over, and the windows
  stand in their order.
\<close>

definition at_rest :: "topology \<Rightarrow> observed_topology \<Rightarrow> bool" where
  "at_rest t ob \<longleftrightarrow> ot_session_exists ob \<and> tp_windows t \<noteq> []
     \<and> (\<forall>w \<in> set (tp_windows t). at_home t ob w)
     \<and> (\<forall>q \<in> set (owned_panes t ob). op_person_id q \<in> set (topology_people t)) \<and> reaped_panes t ob = []
     \<and> (\<forall>v \<in> set (owned_windows ob). standing t v)
     \<and> filter orders (map wi_logical_id (tp_windows t))
       = map ow_logical_id (filter (\<lambda>v. orders (ow_logical_id v) \<and> ow_logical_id v \<in> wi_logical_id ` set (tp_windows t)) (owned_windows ob))"

definition still :: "topology \<Rightarrow> observed_topology \<Rightarrow> walk \<Rightarrow> bool" where
  "still t ob k \<longleftrightarrow> wk_steps k = [] \<and> wk_dirty k = [] \<and> wk_panes k = owned_seats t ob
     \<and> wk_windows k = work_windows_of (owned_windows ob)"

lemma om_of_list_get:
  assumes "distinct (map f xs)" "x \<in> set xs"
  shows "om_get (om_of_list (map (\<lambda>x. (f x, x)) xs)) (f x) = Some x"
proof -
  have "om_get (foldl (\<lambda>m e. om_put (fst e) (snd e) m) m (map (\<lambda>x. (f x, x)) xs)) l =
      (case find (\<lambda>x. f x = l) xs of Some x \<Rightarrow> Some x | None \<Rightarrow> om_get m l)" for m l
    using assms(1)
  proof (induction xs arbitrary: m)
    case (Cons y ys)
    have "find (\<lambda>x. f x = f y) ys = None" using Cons.prems by (simp add: find_None_iff) (metis image_eqI)
    then show ?case using Cons by (auto simp: store_simps split: option.splits)
  qed simp
  moreover have "find (\<lambda>y. f y = f x) xs = Some x" using assms by (induction xs) auto
  ultimately show ?thesis by (simp add: om_of_list_def)
qed

lemma walk_pane_still:
  assumes k: "still t ob k" and d: "distinct (map op_person_id (owned_panes t ob))" "distinct (map op_tmux_id (owned_panes t ob))"
    and q: "q \<in> set (owned_panes t ob)" "op_person_id q = pn_person_id p" "op_launch_hash q = pn_launch_hash p"
      "Observed_Window (op_tmux_window_id q) = win" "op_logical_window_id q = wi_logical_id w"
  shows "walk_pane (tp_organization t) (om_of_list (map (\<lambda>p. (op_tmux_id p, p)) (owned_panes t ob))) w win k p
    = Inr (bind_pane (pn_person_id p) (Observed_Pane (op_tmux_id q)) k)"
proof -
  have panes: "wk_panes k = owned_seats t ob" using k by (simp add: still_def)
  have "\<exists>x \<in> set (wk_panes k). wp_person_id x = pn_person_id p" using q(1,2) panes by (auto simp: owned_seats_def)
  then obtain i where i: "position (\<lambda>o'. wp_person_id o' = pn_person_id p) (wk_panes k) = Some i"
    using position_exists[of "wk_panes k" "\<lambda>o'. wp_person_id o' = pn_person_id p"] by blast
  note at = position_Some[OF i]
  have "wk_panes k ! i = observed_seat (owned_panes t ob ! i)" "i < length (owned_panes t ob)"
    using at(1) panes by (simp_all add: owned_seats_def)
  moreover have "owned_panes t ob ! i = q"
    using calculation at(2) q(1,2) d(1) by (metis distinct_map inj_on_def nth_mem observed_seat_simps(2))
  ultimately have x: "wk_panes k ! i = observed_seat q" by simp
  have "op_organization_id q = tp_organization t" using q(1) by (simp add: owned_panes_def ours_def)
  then have "\<not> drifted (tp_organization t) (om_of_list (map (\<lambda>p. (op_tmux_id p, p)) (owned_panes t ob))) w p (op_tmux_id q)"
    using om_of_list_get[OF d(2) q(1)] q by (simp add: drifted_def)
  then show ?thesis
    using i x q by (simp add: walk_pane_def move_pane_to_def respawn_pane_def retag_pane_def Let_def)
qed

lemma still_bind [simp]:
  "still t ob (bind_pane pid ref k) = still t ob k"
  "still t ob (k\<lparr>wk_window_binding := b\<rparr>) = still t ob k"
  by (simp_all add: still_def bind_pane_def)

lemma walk_panes_still:
  assumes "still t ob k" "distinct (map op_person_id (owned_panes t ob))" "distinct (map op_tmux_id (owned_panes t ob))"
    "\<forall>p \<in> set ps. \<exists>q \<in> set (owned_panes t ob). op_person_id q = pn_person_id p \<and> op_launch_hash q = pn_launch_hash p
      \<and> Observed_Window (op_tmux_window_id q) = win \<and> op_logical_window_id q = wi_logical_id w"
  shows "\<exists>k'. res_fold (walk_pane (tp_organization t) (om_of_list (map (\<lambda>p. (op_tmux_id p, p)) (owned_panes t ob))) w win) k ps
     = Inr k' \<and> still t ob k'"
  using assms(1,4)
proof (induction ps arbitrary: k)
  case (Cons p ps)
  then obtain q where "q \<in> set (owned_panes t ob)" "op_person_id q = pn_person_id p" "op_launch_hash q = pn_launch_hash p"
      "Observed_Window (op_tmux_window_id q) = win" "op_logical_window_id q = wi_logical_id w" by auto
  from walk_pane_still[OF Cons.prems(1) assms(2,3) this] show ?case using Cons by simp
qed simp

lemma target_owned:
  assumes "v \<in> set ws" "distinct (map ow_logical_id ws)"
  shows "target ws (ow_logical_id v) = Observed_Window (ow_tmux_id v)"
    "find (\<lambda>x. ww_logical_id x = ow_logical_id v) (work_windows_of ws)
      = Some \<lparr>ww_ref = Observed_Window (ow_tmux_id v), ww_logical_id = ow_logical_id v\<rparr>"
proof -
  have "find (\<lambda>w. ow_logical_id w = ow_logical_id v) ws = Some v" using assms by (induction ws) auto
  then show "target ws (ow_logical_id v) = Observed_Window (ow_tmux_id v)" by (simp add: target_def)
  show "find (\<lambda>x. ww_logical_id x = ow_logical_id v) (work_windows_of ws)
      = Some \<lparr>ww_ref = Observed_Window (ow_tmux_id v), ww_logical_id = ow_logical_id v\<rparr>"
    using assms by (induction ws) (auto simp: work_windows_of_def)
qed


lemma walk_still:
  assumes "still t ob k" "distinct (map op_person_id (owned_panes t ob))" "distinct (map op_tmux_id (owned_panes t ob))"
    "distinct (map ow_logical_id (owned_windows ob))" "\<forall>w \<in> set ws. at_home t ob w"
  shows "\<exists>k'. res_fold (walk_window (tp_organization t) (om_of_list (map (\<lambda>p. (op_tmux_id p, p)) (owned_panes t ob)))) k ws
     = Inr k' \<and> still t ob k'"
  using assms(1,5)
proof (induction ws arbitrary: k)
  case (Cons w ws)
  let ?tags = "om_of_list (map (\<lambda>p. (op_tmux_id p, p)) (owned_panes t ob))"
  obtain v where v: "v \<in> set (owned_windows ob)" "ow_logical_id v = wi_logical_id w"
    "\<forall>p \<in> set (wi_panes w). \<exists>q \<in> set (owned_panes t ob). op_person_id q = pn_person_id p
          \<and> op_tmux_window_id q = ow_tmux_id v \<and> op_logical_window_id q = wi_logical_id w
          \<and> op_launch_hash q = pn_launch_hash p"
    using Cons.prems(2) unfolding at_home_def by auto
  let ?win = "Observed_Window (ow_tmux_id v)"
  have find: "find (\<lambda>x. ww_logical_id x = wi_logical_id w) (wk_windows k) = Some \<lparr>ww_ref = ?win, ww_logical_id = wi_logical_id w\<rparr>"
    using target_owned(2)[OF v(1) assms(4)] v(2) Cons.prems(1) by (simp add: still_def)
  let ?k = "k\<lparr>wk_window_binding := om_put (wi_logical_id w) ?win (wk_window_binding k)\<rparr>"
  have "\<forall>p \<in> set (wi_panes w). \<exists>q \<in> set (owned_panes t ob). op_person_id q = pn_person_id p \<and> op_launch_hash q = pn_launch_hash p
      \<and> Observed_Window (op_tmux_window_id q) = ?win \<and> op_logical_window_id q = wi_logical_id w"
    using v(3) by auto
  then obtain k1 where k1: "res_fold (walk_pane (tp_organization t) ?tags w ?win) ?k (wi_panes w) = Inr k1" "still t ob k1"
    using walk_panes_still[of t ob ?k "wi_panes w" ?win w] assms(2,3) Cons.prems(1) by auto
  have "walk_window (tp_organization t) ?tags k w = Inr k1"
    using find k1(1) by (simp add: walk_window_def bind_window_def)
  then show ?case using Cons.IH[OF k1(2)] Cons.prems(2) by simp
qed simp

lemma endings_at_rest:
  assumes "\<forall>x \<in> set ps. wp_person_id x \<in> set (topology_people t)" "on_reap o' = []" "\<forall>v \<in> set (on_windows o'). standing t v"
  shows "endings t o' ps = first_ending"
proof -
  have "foldl (end_pane o' (topology_people t) ps) e js = e" if "\<forall>i \<in> set js. i < length ps" for e js
    using that assms(1) by (induction js arbitrary: e) (simp_all add: end_pane_def)
  moreover have "end_window t e v = e" if "standing t v" for e v
    using that by (auto simp: end_window_def stale_window_def standing_def)
  then have "foldl (end_window t) e vs = e" if "\<forall>v \<in> set vs. standing t v" for e vs
    using that by (induction vs arbitrary: e) simp_all
  ultimately show ?thesis using assms(2,3) by (simp add: endings_def first_ending_def)
qed

lemma layout_at_rest:
  assumes "\<forall>w \<in> set ws. \<forall>p \<in> set (wi_panes w). seated (f w) k p"
    "\<forall>w \<in> set ws. \<forall>v \<in> set (on_windows o'). ow_logical_id v = wi_logical_id w \<longrightarrow> \<not> ow_sleeping_notice v"
  shows "layout_steps o' k [] ws = Some []"
  using assms
proof (induction ws)
  case (Cons w ws)
  then obtain refs where "bound_panes (wk_pane_binding k) (wi_panes w) = Some refs" using bound_panes_ok by fastforce
  moreover have "\<not> list_ex (\<lambda>x. ow_logical_id x = wi_logical_id w \<and> ow_sleeping_notice x) (on_windows o')"
    using Cons.prems(2) by (auto simp: list_ex_iff)
  ultimately have "layout_step o' k [] w = Some []" by (simp add: layout_step_def Let_def split: option.splits)
  then show ?case using Cons by simp
qed simp

text \<open>
  C40. A company at rest is left alone: when everybody desired is seen at home with the right tags and hash,
  nobody else is here, no window is left over and the windows are in order, the plan has no step at all,
  and predicts no kill and no respawn.
\<close>

theorem company_at_rest_is_left_alone:
  assumes "assert_unambiguous t ob = Inr o'" "ot_session_organization ob = tp_organization t"
    and "topology_ok t" "observation_ok ob" "at_rest t ob"
  shows "\<exists>plan. compute_converge_plan t ob = Some (Inr plan) \<and> cv_steps plan = []
    \<and> cv_predicted_kill_panes plan = [] \<and> cv_predicted_respawn_persons plan = []"
proof -
  note own = assms(1) and rest = assms(5)[unfolded at_rest_def]
  note o' = owned_shape[OF own]
  let ?tags = "om_of_list (map (\<lambda>p. (op_tmux_id p, p)) (on_panes o'))"
  have some: "tp_windows t \<noteq> []" and start: "plan_start t ob o' = Some (first_walk o')"
    using rest by (simp_all add: plan_start_def)
  have d: "distinct (map op_person_id (owned_panes t ob))" "distinct (map ow_logical_id (owned_windows ob))"
    using assert_unambiguous_shape(4,5)[OF own] o' by simp_all
  have ids: "distinct (map op_tmux_id (owned_panes t ob))"
    using assms(4) by (simp add: observation_ok_def owned_panes_def distinct_map_filter)
  have "still t ob (first_walk o')" using o'(4,5) by (simp add: still_def first_walk_def)
  from walk_still[OF this d(1) ids d(2), of "tp_windows t"] rest
  obtain k where k: "res_fold (walk_window (tp_organization t) ?tags) (first_walk o') (tp_windows t) = Inr k" "still t ob k"
    using o'(2) by auto
  have wend: "walk_end t ob k"
    using walk_ends[OF own assms(4,3) some, of "tp_organization t" ?tags] start k(1) by auto
  have e: "endings t o' (wk_panes k) = first_ending"
    by (rule endings_at_rest) (use k(2) rest o'(1,3) in \<open>auto simp: still_def owned_seats_def\<close>)
  have seats: "\<forall>w \<in> set (tp_windows t). \<forall>p \<in> set (wi_panes w). seated (target (owned_windows ob) (wi_logical_id w)) k p"
    using wend by (simp add: walk_end_def)
  have awake: "\<not> ow_sleeping_notice v"
    if w: "w \<in> set (tp_windows t)" and v: "v \<in> set (on_windows o')" "ow_logical_id v = wi_logical_id w" for w v
  proof -
    have "at_home t ob w" using rest w by blast
    then obtain u where u: "u \<in> set (owned_windows ob)" "ow_logical_id u = wi_logical_id w" "\<not> ow_sleeping_notice u"
      unfolding at_home_def by blast
    then have "u = v" using v d(2) o'(1) by (metis distinct_map inj_on_def)
    then show ?thesis using u(3) by simp
  qed
  have layouts: "layout_steps o' k (wk_dirty k @ en_dirty first_ending) (tp_windows t) = Some []"
    using layout_at_rest[OF seats, of o'] awake k(2) by (simp add: still_def first_ending_def)
  have bound: "filter (\<lambda>l. orders l \<and> om_has (wk_window_binding k) l) (map wi_logical_id (tp_windows t))
      = filter orders (map wi_logical_id (tp_windows t))"
    using wend by (intro filter_cong) (auto simp: walk_end_def om_has_def)
  have order: "order_steps t o' (wk_window_binding k) [] = []"
    unfolding order_steps_def Let_def bound using rest o'(1) by simp
  have "compute_converge_plan t ob = Some (Inr (plan_of o' [] (wk_respawns k) []))"
    using assms(2) own some start k e layouts order
    by (simp add: compute_converge_plan_def finish_plan_def Let_def first_ending_def still_def)
  moreover have "wk_respawns k = []"
    using wend k(2) by (simp add: walk_end_def walk_ok_def still_def)
  ultimately show ?thesis by (simp add: plan_of_def)
qed


section \<open>The properties at concrete inputs\<close>

text \<open>
  Ann is at an old hash, Bob has no pane, Cy has left and his window is his own; a pane that names Dan was
  left behind untagged in Ann's window.
\<close>

definition demo_person :: "string \<Rightarrow> nat \<Rightarrow> client_person" where
  "demo_person i n = \<lparr>cp_id = i, cp_display_name = i, cp_title = [], cp_department_id = ''x'', cp_is_head_of = None,
     cp_display_order = n, cp_desired_active = True, cp_employment_state = ''active''\<rparr>"

definition demo_roster :: client_roster where
  "demo_roster = \<lparr>ro_company = \<lparr>cc_slug = ''acme'', cc_display_name = ''Acme''\<rparr>, ro_root_department_id = ''x'',
     ro_departments = [\<lparr>cd_id = ''x'', cd_name = ''X'', cd_parent_department_id = None, cd_head_person_id = ''ann'',
       cd_order = 0, cd_state = ''active''\<rparr>],
     ro_people = [demo_person ''bob'' 2, demo_person ''ann'' 1, demo_person ''cy'' 3, demo_person ''dan'' 4]\<rparr>"

definition demo_topology :: topology where
  "demo_topology = \<lparr>tp_organization = ''acme'', tp_session = ''s'',
     tp_windows = [placed_window ''h1'' (demo_person ''ann'' 1), placed_window ''h2'' (demo_person ''bob'' 2)],
     tp_known_person_ids = [''ann'', ''bob'', ''cy'', ''dan'']\<rparr>"

definition demo_window :: "string \<Rightarrow> string \<Rightarrow> observed_window" where
  "demo_window i who = \<lparr>ow_tmux_id = i, ow_organization_id = ''acme'', ow_logical_id = person_window_id who,
     ow_protected_ui = True, ow_sleeping_notice = False\<rparr>"

definition demo_pane :: "string \<Rightarrow> string \<Rightarrow> string \<Rightarrow> string \<Rightarrow> observed_pane" where
  "demo_pane i win who hash = \<lparr>op_tmux_id = i, op_tmux_window_id = win, op_organization_id = ''acme'',
     op_logical_window_id = person_window_id who, op_person_id = who, op_launch_hash = hash, op_start_command = []\<rparr>"

definition demo_orphan :: "string \<Rightarrow> observed_pane" where
  "demo_orphan command = \<lparr>op_tmux_id = ''%9'', op_tmux_window_id = ''@1'', op_organization_id = [],
     op_logical_window_id = [], op_person_id = [], op_launch_hash = [], op_start_command = command\<rparr>"

definition demo_observed :: observed_topology where
  "demo_observed = \<lparr>ot_session_exists = True, ot_session_organization = ''acme'',
     ot_windows = [demo_window ''@1'' ''ann'', demo_window ''@3'' ''cy''],
     ot_panes = [demo_pane ''%1'' ''@1'' ''ann'' ''h0'', demo_orphan ''env ORG_LAUNCHER_PERSON=dan pi'',
       demo_pane ''%3'' ''@3'' ''cy'' ''h3'']\<rparr>"

definition demo_rest :: observed_topology where
  "demo_rest = \<lparr>ot_session_exists = True, ot_session_organization = ''acme'',
     ot_windows = [demo_window ''@1'' ''ann'', demo_window ''@2'' ''bob''],
     ot_panes = [demo_pane ''%1'' ''@1'' ''ann'' ''h1'', demo_pane ''%2'' ''@2'' ''bob'' ''h2'']\<rparr>"

definition demo_plan :: converge_plan where
  "demo_plan = \<lparr>cv_steps = [Respawn ''%1'' \<lparr>sp_person_id = ''ann'', sp_launch_hash = ''h1''\<rparr>,
      CreateWindowWithSpawn (person_window_id ''bob'') ''bob'' \<lparr>sp_person_id = ''bob'', sp_launch_hash = ''h2''\<rparr>,
      KillWindow (Observed_Window ''@3''), KillPane ''%9'',
      OrderWindows [Observed_Window ''@1'', Created_Window (person_window_id ''bob'')],
      ApplyLayout (Observed_Window ''@1'') [Observed_Pane ''%1''] False,
      ApplyLayout (Created_Window (person_window_id ''bob'')) [Created_Pane ''bob''] False],
     cv_predicted_respawn_persons = [''ann''], cv_predicted_kill_panes = [''%3'', ''%9''], cv_warnings = [],
     cv_owned_panes = [(''ann'', ''%1''), (''cy'', ''%3'')],
     cv_owned_windows = [(person_window_id ''ann'', ''@1''), (person_window_id ''cy'', ''@3'')]\<rparr>"

lemma demo_topology_ok: "topology_ok demo_topology"
  by code_simp

lemma demo_observation_ok: "observation_ok demo_observed" "observation_ok demo_rest"
  by code_simp+

lemma demo_compute: "compute_converge_plan demo_topology demo_observed = Some (Inr demo_plan)"
  by code_simp

lemma demo_placed: "desired_topology demo_roster [(''ann'', ''h1''), (''bob'', ''h2'')] ''s'' = Inr demo_topology"
  by code_simp

text \<open>
  A pane that names a stranger is taken for a known person whose id begins the stranger's: the launch
  variable is looked for as a part of the command, not as a word of it.
\<close>

lemma stranger_is_reaped:
  "reapable_orphan_pane (demo_orphan ''env ORG_LAUNCHER_PERSON=dan-2 pi'') [''ann'', ''dan''] [''ann''] = Some ''dan''"
  by code_simp

lemma own_orphan_is_not_reaped:
  "reapable_orphan_pane (demo_orphan ''env ORG_LAUNCHER_PERSON=dan-2 pi'') [''ann'', ''dan'', ''dan-2''] [''ann''] = None"
  by code_simp


theorem planning_is_refused_only_on_ownership_witness:
  "compute_converge_plan demo_topology demo_observed \<noteq> None
   \<and> compute_converge_plan (demo_topology\<lparr>tp_organization := ''other''\<rparr>) demo_observed
     = Some (Inl (SessionOwnership ''s'' ''acme'' ''other''))"
proof -
  have "topology_ok (demo_topology\<lparr>tp_organization := ''other''\<rparr>)"
    "foreign_session (demo_topology\<lparr>tp_organization := ''other''\<rparr>) demo_observed" by code_simp+
  then show ?thesis
    using planning_is_refused_only_on_ownership[OF demo_topology_ok demo_observation_ok(1)]
      planning_is_refused_only_on_ownership[of "demo_topology\<lparr>tp_organization := ''other''\<rparr>" demo_observed]
      demo_observation_ok(1)
    by (simp add: demo_topology_def demo_observed_def)
qed

theorem plan_reaches_the_desired_witness:
  "\<exists>!r. final_floor demo_topology demo_observed demo_plan r
     = Some (desired_seat demo_topology demo_observed (placed_window ''h2'' (demo_person ''bob'' 2))
         \<lparr>pn_person_id = ''bob'', pn_launch_hash = ''h2'', pn_order = 2\<rparr>)"
proof -
  have "placed_window ''h2'' (demo_person ''bob'' 2) \<in> set (tp_windows demo_topology)"
    "\<lparr>pn_person_id = ''bob'', pn_launch_hash = ''h2'', pn_order = 2\<rparr>
      \<in> set (wi_panes (placed_window ''h2'' (demo_person ''bob'' 2)))" by code_simp+
  then show ?thesis
    using plan_reaches_the_desired[OF demo_compute demo_topology_ok demo_observation_ok(1)] by blast
qed

theorem plan_does_no_more_than_it_says_witness:
  "KillPane ''%1'' \<notin> set (cv_steps demo_plan) \<and> StopSession \<notin> set (cv_steps demo_plan)
   \<and> whole_floor demo_topology demo_observed demo_plan (Observed_Pane ''%1'') \<noteq> None
   \<and> cv_predicted_respawn_persons demo_plan = [''ann'']"
proof -
  let ?p = "demo_pane ''%1'' ''@1'' ''ann'' ''h0''"
  have "tp_windows demo_topology \<noteq> []" by code_simp
  note p = plan_does_no_more_than_it_says[OF demo_compute demo_topology_ok demo_observation_ok(1) this]
  have not: "''%1'' \<notin> set (cv_predicted_kill_panes demo_plan)" by code_simp
  have stale: "map pn_person_id (filter (stale_hash (owned_seats demo_topology demo_observed))
      (concat (map wi_panes (tp_windows demo_topology)))) = [''ann'']" by code_simp
  have mine: "?p \<in> set (ot_panes demo_observed)" "?p \<in> set (owned_panes demo_topology demo_observed)"
      "op_tmux_id ?p = ''%1''" by code_simp+
  have "KillPane ''%1'' \<notin> set (cv_steps demo_plan)"
    using not p[THEN conjunct2, THEN conjunct1] by blast
  moreover have "whole_floor demo_topology demo_observed demo_plan (Observed_Pane ''%1'') \<noteq> None"
    using bspec[OF p[THEN conjunct2, THEN conjunct2, THEN conjunct2, THEN conjunct1] mine(1)] mine(2) not
    unfolding mine(3) by blast
  moreover have "cv_predicted_respawn_persons demo_plan = [''ann'']"
    using p[THEN conjunct2, THEN conjunct2, THEN conjunct2, THEN conjunct2, THEN conjunct1] unfolding stale .
  moreover note p[THEN conjunct2, THEN conjunct2, THEN conjunct2, THEN conjunct2, THEN conjunct2, THEN conjunct2]
  ultimately show ?thesis by blast
qed

theorem company_at_rest_is_left_alone_witness:
  "\<exists>plan. compute_converge_plan demo_topology demo_rest = Some (Inr plan) \<and> cv_steps plan = []
    \<and> cv_predicted_kill_panes plan = [] \<and> cv_predicted_respawn_persons plan = []"
proof -
  obtain o' where "assert_unambiguous demo_topology demo_rest = Inr o'"
  proof (cases "assert_unambiguous demo_topology demo_rest")
    case (Inl e)
    have "\<not> isl (assert_unambiguous demo_topology demo_rest)" by code_simp
    then show ?thesis using Inl by simp
  qed
  then show ?thesis
    by (rule company_at_rest_is_left_alone) (code_simp | rule demo_topology_ok demo_observation_ok(2))+
qed

theorem roster_is_seated_witness:
  "\<exists>r oc. final_floor demo_topology demo_observed demo_plan r = Some oc \<and> oc_person oc = ''ann''"
proof -
  have "''ann'' \<in> cp_id ` set (ro_people demo_roster) \<and> om_get [(''ann'', ''h1''), (''bob'', ''h2'')] ''ann'' \<noteq> None"
    by code_simp
  then show ?thesis
    using roster_is_seated[OF demo_placed demo_observation_ok(1) demo_compute] by blast
qed

end
