(* ===== verification/Supervision.thy ===== *)
theory Supervision
  imports Activity_Reconcile Control_Authority Mailbox
begin

text \<open>
  The supervision store (\<open>chiefd-core/src/store/supervision.rs\<close>, \<open>supervision/delivery.rs\<close>,
  \<open>supervision/cycle.rs\<close>): a document with the reminders, and the effects, which live in the ledgers' own
  effect rows. A command works on a draft that holds both; the transaction writes back the effects the
  command touched, the sequence counter and the document.

  The derived codecs are parameters: the document half, one effect, the launcher's relational half. An
  error of the codec is its text. The ledgers handed to a command that is refused are discarded by the
  writer, so a refusal answers none.
\<close>

section \<open>Types\<close>

definition SUPERVISION_SCHEMA_VERSION :: nat where "SUPERVISION_SCHEMA_VERSION = 2"
definition SUPERVISION_STORE_NAME :: string where "SUPERVISION_STORE_NAME = ''supervision''"
definition MIN_REMINDER_INTERVAL_MS :: int where "MIN_REMINDER_INTERVAL_MS = 60 * 1000"
definition SUPERVISION_INVALID_INPUT :: string where "SUPERVISION_INVALID_INPUT = ''invalid-input''"
definition EFFECT_CONTENT_CONFLICT :: string where "EFFECT_CONTENT_CONFLICT = ''effect-content-conflict''"
definition RECONCILE_ESCALATION_EFFECT_KIND :: string where
  "RECONCILE_ESCALATION_EFFECT_KIND = ''reconcile_escalation''"
definition SUPERVISION_UNSERIALIZABLE :: string where "SUPERVISION_UNSERIALIZABLE = ''supervision-unserializable''"
definition SUPERVISION_EFFECT_DELIVERY_ATTEMPT_LIMIT :: nat where "SUPERVISION_EFFECT_DELIVERY_ATTEMPT_LIMIT = 3"
definition SUPERVISION_EFFECT_REOPEN_LIMIT :: nat where "SUPERVISION_EFFECT_REOPEN_LIMIT = 3"
definition URGENT_KINDS :: "string list" where "URGENT_KINDS = [''manager_goal_stalled'']"

datatype effect_status = Effect_Pending | Effect_Delivered | Effect_Superseded | Effect_Failed

fun effect_status_as_str :: "effect_status \<Rightarrow> string" where
  "effect_status_as_str Effect_Pending = ''pending''"
| "effect_status_as_str Effect_Delivered = ''delivered''"
| "effect_status_as_str Effect_Superseded = ''superseded''"
| "effect_status_as_str Effect_Failed = ''failed''"

record effect =
  fx_id :: string
  fx_sequence :: nat
  fx_kind :: string
  fx_status :: effect_status
  fx_created_at :: string
  fx_delivered_at :: "string option"
  fx_superseded_at :: "string option"
  fx_delivery_failure_count :: "nat option"
  fx_last_delivery_failure_at :: "string option"
  fx_failed_at :: "string option"
  fx_reopen_count :: "nat option"
  fx_last_reopened_at :: "string option"
  fx_payload :: "(string, json) omap"

record reminder =
  rd_id :: string
  rd_person_id :: string
  rd_created_by_person_id :: string
  rd_prompt :: string
  rd_interval_ms :: int
  rd_next_due_at :: string
  rd_status :: string
  rd_recurring :: bool
  rd_fire_count :: nat
  rd_created_at :: string
  rd_last_fired_at :: "string option"
  rd_expires_at :: "string option"
  rd_stopped_reason :: "string option"
  rd_stopped_at :: "string option"
  rd_extra :: "(string, json) omap"

definition is_armed :: "reminder \<Rightarrow> int \<Rightarrow> bool" where
  "is_armed r now \<longleftrightarrow> rd_status r = ''active'' \<and> (case rd_expires_at r of
     None \<Rightarrow> True
   | Some stamp \<Rightarrow> (case parse_iso_millis stamp of None \<Rightarrow> False | Some expiry \<Rightarrow> now < expiry))"

text \<open>The serialized document, and with it the fields serde skips: they are never in the text.\<close>

record supervision_document =
  sd_schema_version :: nat
  sd_organization :: string
  sd_reminder_order :: "string list"
  sd_reminders :: "(string, reminder) omap"
  sd_created_at :: string
  sd_updated_at :: string

record supervision_ledger = supervision_document +
  su_effects :: "(string, effect) omap"
  su_effect_order :: "string list"
  su_next_effect_sequence :: nat

definition supervision_initial :: "'v organization_manifest \<Rightarrow> string \<Rightarrow> supervision_ledger" where
  "supervision_initial m now = \<lparr>sd_schema_version = SUPERVISION_SCHEMA_VERSION, sd_organization = mf_slug m,
     sd_reminder_order = [], sd_reminders = [], sd_created_at = now, sd_updated_at = now,
     su_effects = [], su_effect_order = [], su_next_effect_sequence = 1\<rparr>"

definition effect_of :: "supervision_ledger \<Rightarrow> string \<Rightarrow> effect option" where
  "effect_of l i = om_get (su_effects l) i"

text \<open>The launcher's whole ledger: its relational half, and which of its keys the text had.\<close>

record launcher_relational_half =
  lh_effect_order :: "string list"
  lh_effects :: "(string, effect) omap"
  lh_next_effect_sequence :: nat
  lh_has_effects :: bool
  lh_has_sequence :: bool

record supervision_codec =
  sj_dec :: "string \<Rightarrow> string + supervision_document"
  sj_enc :: "supervision_document \<Rightarrow> string + string"
  sj_dec_effect :: "string \<Rightarrow> string + effect"
  sj_enc_effect :: "effect \<Rightarrow> string + string"
  sj_dec_half :: "string \<Rightarrow> string + launcher_relational_half"
  sj_dbg :: "refusal \<Rightarrow> string"

section \<open>Reading\<close>

definition hydrate_effect :: "supervision_codec \<Rightarrow> ledgers \<Rightarrow> (string, effect) omap \<Rightarrow> string \<Rightarrow> refusal + (string, effect) omap" where
  "hydrate_effect C l m i = (case om_get (lg_effects l) i of
     None \<Rightarrow> Inl (refusal_new SUPERVISION_INVALID_INPUT (''effect row '' @ quoted i @ '' vanished''))
   | Some row \<Rightarrow> (case sj_dec_effect C (ef_body row) of
        Inl error \<Rightarrow> Inl (refusal_new SUPERVISION_INVALID_INPUT (''effect '' @ quoted i @ '' does not decode: '' @ error))
      | Inr e \<Rightarrow> Inr (om_put i e m)))"

definition stored_sequence :: "ledgers \<Rightarrow> nat" where
  "stored_sequence l = (let n = counter l NEXT_EFFECT_SEQUENCE in max 1 (if n < 0 then 1 else nat n))"

definition hydrate :: "supervision_codec \<Rightarrow> ledgers \<Rightarrow> supervision_document \<Rightarrow> refusal + supervision_ledger" where
  "hydrate C l d =
     res_bind (res_fold (hydrate_effect C l) [] (effect_order l)) (\<lambda>effects.
       Inr (supervision_document.extend d \<lparr>su_effects = effects, su_effect_order = effect_order l,
         su_next_effect_sequence = stored_sequence l\<rparr>))"

definition supervision_corrupt :: "string \<Rightarrow> chiefd_error" where
  "supervision_corrupt cause = Corrupt SUPERVISION_STORE_NAME cause"

definition supervision_failure :: "supervision_codec \<Rightarrow> refusal \<Rightarrow> chiefd_error" where
  "supervision_failure C refusal = StoreFailure SUPERVISION_STORE_NAME (sj_dbg C refusal)"

text \<open>What every reader starts with: the document, decoded, with the effects of the rows.\<close>

definition read_for_mutation_sup :: "supervision_codec \<Rightarrow> ledgers \<Rightarrow> chiefd_error + supervision_ledger" where
  "read_for_mutation_sup C l = (case document_body l SUPERVISION_STORE_NAME of
     None \<Rightarrow> Inl (Absent SUPERVISION_STORE_NAME)
   | Some body \<Rightarrow>
       res_bind (map_err supervision_corrupt (sj_dec C body)) (\<lambda>d.
         map_err (\<lambda>refusal. supervision_corrupt (sj_dbg C refusal)) (hydrate C l d)))"

definition unique_order :: "string list \<Rightarrow> (string, 'a) omap \<Rightarrow> string \<Rightarrow> refusal + unit" where
  "unique_order order records label =
     (if \<not> distinct order \<or> list_ex (\<lambda>i. \<not> om_has records i) order \<or> length order \<noteq> length records
      then Inl (refusal_new SUPERVISION_INVALID_INPUT (''Supervision '' @ label @ '' order is invalid'')) else Inr ())"

definition bad_reminder :: "'v organization_manifest \<Rightarrow> string \<Rightarrow> reminder \<Rightarrow> bool" where
  "bad_reminder m i r \<longleftrightarrow> rd_id r \<noteq> i \<or> person m (rd_person_id r) = None \<or> person m (rd_created_by_person_id r) = None
     \<or> trim (rd_prompt r) = [] \<or> rd_interval_ms r < MIN_REMINDER_INTERVAL_MS
     \<or> rd_status r \<notin> {''active'', ''stopped''} \<or> parse_iso_millis (rd_next_due_at r) = None
     \<or> (case rd_expires_at r of None \<Rightarrow> False | Some s \<Rightarrow> parse_iso_millis s = None)"

text \<open>The records are there: the order was checked first.\<close>

definition check_reminder :: "'v organization_manifest \<Rightarrow> supervision_ledger \<Rightarrow> unit \<Rightarrow> string \<Rightarrow> refusal + unit" where
  "check_reminder m l u i =
     (if bad_reminder m i (the (om_get (sd_reminders l) i))
      then Inl (refusal_new SUPERVISION_INVALID_INPUT (''Reminder '' @ quoted i @ '' is invalid'')) else Inr ())"

definition check_sequence :: "supervision_ledger \<Rightarrow> nat \<Rightarrow> string \<Rightarrow> refusal + nat" where
  "check_sequence l previous i =
     (let e = the (effect_of l i)
      in if fx_id e \<noteq> i \<or> fx_sequence e \<le> previous
         then Inl (refusal_new SUPERVISION_INVALID_INPUT (''Supervision effect '' @ quoted i @ '' has an invalid sequence''))
         else Inr (fx_sequence e))"

definition validate_supervision :: "supervision_ledger \<Rightarrow> 'v organization_manifest \<Rightarrow> refusal + unit" where
  "validate_supervision l m =
     (if sd_schema_version l \<noteq> 1 \<and> sd_schema_version l \<noteq> SUPERVISION_SCHEMA_VERSION
      then Inl (refusal_new SUPERVISION_INVALID_INPUT ''Unsupported supervision ledger'')
      else if sd_organization l \<noteq> mf_slug m
      then Inl (refusal_new SUPERVISION_INVALID_INPUT (''Supervision ledger belongs to '' @ quoted (sd_organization l)
        @ '', not '' @ quoted (mf_slug m)))
      else res_bind (unique_order (su_effect_order l) (su_effects l) ''effect'') (\<lambda>_.
        res_bind (unique_order (sd_reminder_order l) (sd_reminders l) ''reminder'') (\<lambda>_.
        res_bind (res_fold (check_reminder m l) () (sd_reminder_order l)) (\<lambda>_.
        res_bind (res_fold (check_sequence l) 0 (su_effect_order l)) (\<lambda>previous_sequence.
          if su_next_effect_sequence l \<le> previous_sequence
          then Inl (refusal_new SUPERVISION_INVALID_INPUT ''Supervision effect sequence is invalid'')
          else Inr ())))))"

definition staffed_people :: "'v organization_manifest \<Rightarrow> string list" where
  "staffed_people m = sorted_set (filter (\<lambda>pid. case person m pid of
     None \<Rightarrow> False | Some p \<Rightarrow> ps_employment_state p \<noteq> Departed) (mf_people_order m))"

definition shed_reminder :: "supervision_ledger \<Rightarrow> string \<Rightarrow> supervision_ledger" where
  "shed_reminder l i = l\<lparr>sd_reminders := om_del i (sd_reminders l),
     sd_reminder_order := filter (\<lambda>kept. kept \<noteq> i) (sd_reminder_order l)\<rparr>"

definition departed_reminders :: "supervision_ledger \<Rightarrow> 'v organization_manifest \<Rightarrow> string list" where
  "departed_reminders l m = filter (\<lambda>i. case om_get (sd_reminders l) i of
       None \<Rightarrow> False
     | Some r \<Rightarrow> rd_person_id r \<notin> set (staffed_people m) \<or> rd_created_by_person_id r \<notin> set (staffed_people m))
     (sd_reminder_order l)"

definition shed_departed :: "supervision_ledger \<Rightarrow> 'v organization_manifest \<Rightarrow> supervision_ledger \<times> bool" where
  "shed_departed l m =
     (let shed = departed_reminders l m in (foldl shed_reminder l shed, shed \<noteq> []))"

definition read_supervision ::
  "supervision_codec \<Rightarrow> ledgers \<Rightarrow> 'v organization_manifest \<Rightarrow> chiefd_error + supervision_ledger" where
  "read_supervision C l m =
     res_bind (read_for_mutation_sup C l) (\<lambda>ledger.
       res_bind (map_err (supervision_failure C) (validate_supervision ledger m)) (\<lambda>_. Inr ledger))"

definition read_reconciled ::
  "supervision_codec \<Rightarrow> ledgers \<Rightarrow> 'v organization_manifest \<Rightarrow> chiefd_error + supervision_ledger" where
  "read_reconciled C l m =
     res_bind (read_for_mutation_sup C l) (\<lambda>ledger.
       let shed = fst (shed_departed ledger m)
       in res_bind (map_err (supervision_failure C) (validate_supervision shed m)) (\<lambda>_. Inr shed))"

definition read_live_tolerant ::
  "supervision_codec \<Rightarrow> ledgers \<Rightarrow> 'v organization_manifest \<Rightarrow> chiefd_error + supervision_ledger" where
  "read_live_tolerant C l m = res_bind (read_for_mutation_sup C l) (\<lambda>ledger. Inr (fst (shed_departed ledger m)))"

section \<open>Writing\<close>

definition flush_effect ::
  "supervision_codec \<Rightarrow> supervision_ledger \<Rightarrow> ledgers \<Rightarrow> string \<Rightarrow> refusal + ledgers" where
  "flush_effect C ledger l i = (case effect_of ledger i of
     None \<Rightarrow> Inr (fst (remove_effect i l))
   | Some e \<Rightarrow>
       res_bind (map_err (\<lambda>error. refusal_new SUPERVISION_UNSERIALIZABLE (''cannot encode effect '' @ quoted i @ '': '' @ error))
           (sj_enc_effect C e)) (\<lambda>body.
         Inr (put_effect i \<lparr>ef_seq = fx_sequence e, ef_kind = fx_kind e, ef_body = body,
           ef_delivered_at = Option.bind (fx_delivered_at e) parse_iso_millis\<rparr> l)))"

definition put_supervision ::
  "supervision_codec \<Rightarrow> nat \<Rightarrow> supervision_ledger \<Rightarrow> ledgers \<Rightarrow> refusal + ledgers" where
  "put_supervision C ref ledger l =
     res_bind (map_err (\<lambda>error. refusal_new SUPERVISION_UNSERIALIZABLE (''cannot encode the supervision ledger: '' @ error))
         (sj_enc C (supervision_document.truncate ledger))) (\<lambda>encoded.
       Inr (put_document ref SUPERVISION_STORE_NAME encoded l))"

definition store_sequence :: "nat \<Rightarrow> ledgers \<Rightarrow> ledgers" where
  "store_sequence n l = set_counter NEXT_EFFECT_SEQUENCE (min (int n) i64_max) l"

text \<open>The end of every writer: the effects named, the counter, the check, the document.\<close>

definition store_supervision ::
  "supervision_codec \<Rightarrow> nat \<Rightarrow> 'v organization_manifest \<Rightarrow> string list \<Rightarrow> supervision_ledger \<Rightarrow> ledgers
     \<Rightarrow> chiefd_error + ledgers" where
  "store_supervision C ref m touched ledger l =
     map_err Refused
       (res_bind (res_fold (flush_effect C ledger) l touched) (\<lambda>l1.
        res_bind (validate_supervision ledger m) (\<lambda>_.
          put_supervision C ref ledger (store_sequence (su_next_effect_sequence ledger) l1))))"

definition seed_supervision ::
  "supervision_codec \<Rightarrow> nat \<Rightarrow> 'v organization_manifest \<Rightarrow> ledgers \<Rightarrow> chiefd_error + (ledgers \<times> supervision_ledger)" where
  "seed_supervision C ref m l =
     (let ledger = supervision_initial m (iso_millis (lg_now l))
      in map_err Refused
        (res_bind (validate_supervision ledger m) (\<lambda>_.
         res_bind (put_supervision C ref ledger (store_sequence 1 l)) (\<lambda>l'. Inr (l', ledger)))))"

section \<open>The transaction\<close>

record supervision_draft =
  dr_ledger :: supervision_ledger
  dr_touched :: "string list"

type_synonym 'r supervision_closure =
  "supervision_draft \<Rightarrow> string \<Rightarrow> chiefd_error + (supervision_draft \<times> 'r)"

definition touch_effect :: "string \<Rightarrow> supervision_draft \<Rightarrow> supervision_draft" where
  "touch_effect i d = d\<lparr>dr_touched := sorted_set (i # dr_touched d)\<rparr>"

definition supervision_mutate ::
  "supervision_codec \<Rightarrow> nat \<Rightarrow> 'v organization_manifest \<Rightarrow> 'r supervision_closure \<Rightarrow> ledgers
     \<Rightarrow> chiefd_error + (ledgers \<times> 'r)" where
  "supervision_mutate C ref m f l =
     (let at = iso_millis (lg_now l)
      in res_bind (read_for_mutation_sup C l) (\<lambda>current.
         let shed = shed_departed current m
         in res_bind (f \<lparr>dr_ledger = fst shed, dr_touched = []\<rparr> at) (\<lambda>(draft, result).
            if snd shed \<or> dr_ledger draft \<noteq> current \<or> dr_touched draft \<noteq> []
            then res_bind (store_supervision C ref m (dr_touched draft) ((dr_ledger draft)\<lparr>sd_updated_at := at\<rparr>) l)
                   (\<lambda>l'. Inr (l', result))
            else Inr (l, result))))"

definition clear_supervision ::
  "supervision_codec \<Rightarrow> 'v organization_manifest \<Rightarrow> ledgers \<Rightarrow> chiefd_error + (ledgers \<times> bool)" where
  "clear_supervision C m l =
     (let go = remove_document SUPERVISION_STORE_NAME (foldl (\<lambda>l i. fst (remove_effect i l)) l (effect_order l))
      in if document_body l SUPERVISION_STORE_NAME \<noteq> None
         then res_bind (read_supervision C l m) (\<lambda>_. Inr go) else Inr go)"

section \<open>Effects\<close>

definition update_effect :: "string \<Rightarrow> effect \<Rightarrow> supervision_draft \<Rightarrow> supervision_draft" where
  "update_effect i e d = d\<lparr>dr_ledger := (dr_ledger d)\<lparr>su_effects := om_put i e (su_effects (dr_ledger d))\<rparr>\<rparr>"

definition new_effect :: "string \<Rightarrow> nat \<Rightarrow> string \<Rightarrow> (string, json) omap \<Rightarrow> string \<Rightarrow> effect" where
  "new_effect i sequence kind payload at = \<lparr>fx_id = i, fx_sequence = sequence, fx_kind = kind,
     fx_status = Effect_Pending, fx_created_at = at, fx_delivered_at = None, fx_superseded_at = None,
     fx_delivery_failure_count = None, fx_last_delivery_failure_at = None, fx_failed_at = None,
     fx_reopen_count = None, fx_last_reopened_at = None, fx_payload = payload\<rparr>"

definition enqueue_effect ::
  "string \<Rightarrow> string \<Rightarrow> (string, json) omap \<Rightarrow> string \<Rightarrow> supervision_draft
     \<Rightarrow> chiefd_error + (supervision_draft \<times> bool)" where
  "enqueue_effect i kind payload at d = (case effect_of (dr_ledger d) i of
     Some existing \<Rightarrow>
       if fx_payload existing \<noteq> payload \<or> fx_kind existing \<noteq> kind
       then Inl (refused EFFECT_CONTENT_CONFLICT (''Supervision effect id '' @ quoted i @ '' has conflicting content''))
       else Inr (d, False)
   | None \<Rightarrow>
       (let sequence = su_next_effect_sequence (dr_ledger d);
            ledger = (dr_ledger d)\<lparr>su_next_effect_sequence := sat_add_u64 sequence 1,
              su_effects := om_put i (new_effect i sequence kind payload at) (su_effects (dr_ledger d)),
              su_effect_order := su_effect_order (dr_ledger d) @ [i]\<rparr>
        in Inr (touch_effect i (d\<lparr>dr_ledger := ledger\<rparr>), True)))"

definition count_of :: "nat option \<Rightarrow> nat" where
  "count_of n = (case n of None \<Rightarrow> 0 | Some n \<Rightarrow> n)"

text \<open>A failed effect that may still be driven again is.\<close>

definition reopened :: "string \<Rightarrow> effect \<Rightarrow> effect" where
  "reopened at e = e\<lparr>fx_status := Effect_Pending, fx_reopen_count := Some (sat_add_u32 (count_of (fx_reopen_count e)) 1),
     fx_last_reopened_at := Some at, fx_delivery_failure_count := Some 0, fx_failed_at := None,
     fx_last_delivery_failure_at := None\<rparr>"

definition reconcile_escalation_payload :: "string \<Rightarrow> string \<Rightarrow> string \<Rightarrow> (string, json) omap" where
  "reconcile_escalation_payload organization reason detail =
     om_of_list [(''organization'', JString organization), (''reason'', JString reason), (''detail'', JString detail),
       (''message'', JString (''Converge actuation escalation ('' @ reason @ '') for '' @ quoted organization
         @ '': '' @ detail))]"

definition enqueue_reconcile_escalation ::
  "'v organization_manifest \<Rightarrow> string \<Rightarrow> string \<Rightarrow> string \<Rightarrow> bool supervision_closure" where
  "enqueue_reconcile_escalation m i reason detail d at =
     (let payload = reconcile_escalation_payload (mf_slug m) reason detail
      in case effect_of (dr_ledger d) i of
        Some existing \<Rightarrow>
          if fx_status existing \<noteq> Effect_Failed then Inr (d, False)
          else if SUPERVISION_EFFECT_REOPEN_LIMIT \<le> count_of (fx_reopen_count existing) then Inr (d, False)
          else Inr (touch_effect i (update_effect i ((reopened at existing)\<lparr>fx_payload := payload\<rparr>) d), True)
      | None \<Rightarrow> enqueue_effect i RECONCILE_ESCALATION_EFFECT_KIND payload at d)"

section \<open>Delivery\<close>

record dispatch_plan =
  dp_routine :: "string list"
  dp_urgent :: "string list"

definition plan_effect :: "supervision_ledger \<Rightarrow> dispatch_plan \<Rightarrow> string \<Rightarrow> dispatch_plan" where
  "plan_effect l plan i = (case effect_of l i of
     None \<Rightarrow> plan
   | Some e \<Rightarrow>
       if fx_status e \<noteq> Effect_Pending then plan
       else if fx_kind e \<in> set URGENT_KINDS then plan\<lparr>dp_urgent := dp_urgent plan @ [i]\<rparr>
       else plan\<lparr>dp_routine := dp_routine plan @ [i]\<rparr>)"

definition dispatch_plan_of :: "supervision_ledger \<Rightarrow> dispatch_plan" where
  "dispatch_plan_of l = foldl (plan_effect l) \<lparr>dp_routine = [], dp_urgent = []\<rparr> (su_effect_order l)"

definition apply_effect_delivered :: "string \<Rightarrow> string \<Rightarrow> supervision_draft \<Rightarrow> supervision_draft \<times> bool" where
  "apply_effect_delivered i at d = (case effect_of (dr_ledger d) i of
     None \<Rightarrow> (d, False)
   | Some e \<Rightarrow>
       if fx_status e \<noteq> Effect_Pending then (d, False)
       else (touch_effect i (update_effect i (e\<lparr>fx_status := Effect_Delivered, fx_delivered_at := Some at\<rparr>) d), True))"

definition deliver_one :: "string \<Rightarrow> supervision_draft \<times> string list \<Rightarrow> string \<Rightarrow> supervision_draft \<times> string list" where
  "deliver_one at acc i =
     (let applied = apply_effect_delivered i at (fst acc)
      in (fst applied, snd acc @ (if snd applied then [i] else [])))"

definition mark_delivered_in :: "string list \<Rightarrow> string list supervision_closure" where
  "mark_delivered_in ids d at = Inr (foldl (deliver_one at) (d, []) ids)"

definition failed_once :: "string \<Rightarrow> effect \<Rightarrow> effect" where
  "failed_once at e =
     (let count = sat_add_u32 (count_of (fx_delivery_failure_count e)) 1;
          counted = e\<lparr>fx_delivery_failure_count := Some count, fx_last_delivery_failure_at := Some at\<rparr>
      in if SUPERVISION_EFFECT_DELIVERY_ATTEMPT_LIMIT \<le> count
         then counted\<lparr>fx_status := Effect_Failed, fx_failed_at := Some at\<rparr> else counted)"

definition record_delivery_failure_in :: "string \<Rightarrow> effect_status supervision_closure" where
  "record_delivery_failure_in i d at = (case effect_of (dr_ledger d) i of
     None \<Rightarrow> Inl (refused ''unknown-effect'' (''Supervision effect '' @ quoted i @ '' does not exist''))
   | Some e \<Rightarrow>
       if fx_status e \<noteq> Effect_Pending then Inr (d, fx_status e)
       else Inr (touch_effect i (update_effect i (failed_once at e) d), fx_status (failed_once at e)))"

definition reopenable :: "supervision_ledger \<Rightarrow> string \<Rightarrow> bool" where
  "reopenable l i \<longleftrightarrow> (case effect_of l i of
     None \<Rightarrow> False
   | Some e \<Rightarrow> fx_status e = Effect_Failed \<and> count_of (fx_reopen_count e) < SUPERVISION_EFFECT_REOPEN_LIMIT)"

definition reopen_one :: "string \<Rightarrow> supervision_draft \<Rightarrow> string \<Rightarrow> supervision_draft" where
  "reopen_one at d i = touch_effect i (case effect_of (dr_ledger d) i of
     None \<Rightarrow> d | Some e \<Rightarrow> update_effect i (reopened at e) d)"

definition reopen_failed_effects_in :: "string list supervision_closure" where
  "reopen_failed_effects_in d at =
     (let candidates = filter (reopenable (dr_ledger d)) (su_effect_order (dr_ledger d))
      in Inr (foldl (reopen_one at) d candidates, candidates))"

definition mark_delivered where
  "mark_delivered C ref m ids = supervision_mutate C ref m (mark_delivered_in ids)"

definition record_delivery_failure where
  "record_delivery_failure C ref m i = supervision_mutate C ref m (record_delivery_failure_in i)"

definition reopen_failed_effects where
  "reopen_failed_effects C ref m = supervision_mutate C ref m reopen_failed_effects_in"

section \<open>The cycle\<close>

datatype supervision_stage = Stage_Suppression | Stage_Identity | Stage_FastHealth | Stage_RuntimeAudit | Stage_Reconcile

definition d9_order :: "supervision_stage list" where
  "d9_order = [Stage_Suppression, Stage_Identity, Stage_FastHealth, Stage_RuntimeAudit, Stage_Reconcile]"

datatype identity_observation = Identity_Owned | Identity_Foreign string

record runtime_audit_observation =
  au_adopted :: "string list"
  au_live :: "string list"
  au_unavailable :: bool

record cycle_input =
  cy_suppressed :: bool
  cy_identity :: identity_observation
  cy_unhealthy :: "string list"
  cy_audit :: runtime_audit_observation

record cycle_report =
  cr_stages :: "supervision_stage list"
  cr_adopted :: "string list"
  cr_warnings :: "string list"

definition is_inert :: "cycle_report \<Rightarrow> bool" where
  "is_inert r \<longleftrightarrow> Stage_Reconcile \<notin> set (cr_stages r)"

definition cycle_in :: "cycle_input \<Rightarrow> cycle_report supervision_closure" where
  "cycle_in input d at = Inr (d, \<lparr>
     cr_stages = [Stage_Suppression, Stage_Identity, Stage_FastHealth, Stage_RuntimeAudit, Stage_Reconcile],
     cr_adopted = au_adopted (cy_audit input),
     cr_warnings = map (\<lambda>pid. ''fast health: '' @ quoted pid @ '' is unhealthy'') (cy_unhealthy input)
       @ (if au_unavailable (cy_audit input)
          then [''runtime audit was unavailable: no adoption decisions were made this cycle''] else [])\<rparr>)"

definition supervision_cycle ::
  "supervision_codec \<Rightarrow> nat \<Rightarrow> 'v organization_manifest \<Rightarrow> cycle_input \<Rightarrow> ledgers
     \<Rightarrow> chiefd_error + (ledgers \<times> cycle_report)" where
  "supervision_cycle C ref m input l =
     (if cy_suppressed input
      then Inr (l, \<lparr>cr_stages = [Stage_Suppression], cr_adopted = [],
        cr_warnings = [''fleet suppression is active: supervision went inert and wrote nothing'']\<rparr>)
      else (case cy_identity input of
          Identity_Foreign holder \<Rightarrow> Inr (l, \<lparr>cr_stages = [Stage_Suppression, Stage_Identity], cr_adopted = [],
            cr_warnings = [''company is held by '' @ quoted holder @ '', not this chiefd: supervision wrote nothing'']\<rparr>)
        | Identity_Owned \<Rightarrow> supervision_mutate C ref m (cycle_in input) l))"

end
