(* ===== verification/Supervision_Contract.thy ===== *)
theory Supervision_Contract
  imports Supervision Activity_Contract
begin

text \<open>
  What the supervision store promises. A command that keeps the contract of a draft (it leaves every effect
  it does not touch as it is, and keeps the ledger in shape) is a transaction: the ledgers hold afterwards
  exactly what it answered, and a reader decodes that. Every effect only moves forward, and is attempted a
  bounded number of times.
\<close>

section \<open>The shape of a ledger\<close>

definition effects_shape :: "supervision_ledger \<Rightarrow> bool" where
  "effects_shape L \<longleftrightarrow> om_wf (su_effects L) \<and> distinct (su_effect_order L)
     \<and> set (su_effect_order L) = set (om_keys (su_effects L))
     \<and> (\<forall>i e. effect_of L i = Some e \<longrightarrow> fx_id e = i)
     \<and> sorted_wrt (<) (map (\<lambda>i. fx_sequence (the (effect_of L i))) (su_effect_order L))
     \<and> (\<forall>i e. effect_of L i = Some e \<longrightarrow> 0 < fx_sequence e \<and> fx_sequence e < su_next_effect_sequence L)
     \<and> 0 < su_next_effect_sequence L"

definition reminders_shape :: "supervision_ledger \<Rightarrow> bool" where
  "reminders_shape L \<longleftrightarrow> om_wf (sd_reminders L) \<and> distinct (sd_reminder_order L)
     \<and> set (sd_reminder_order L) = set (om_keys (sd_reminders L))"

definition sup_shape :: "supervision_ledger \<Rightarrow> bool" where
  "sup_shape L \<longleftrightarrow> effects_shape L \<and> reminders_shape L"

definition good_reminders :: "'v organization_manifest \<Rightarrow> supervision_ledger \<Rightarrow> bool" where
  "good_reminders m L \<longleftrightarrow> (\<forall>i r. om_get (sd_reminders L) i = Some r \<longrightarrow> \<not> bad_reminder m i r)"

definition known_version :: "supervision_ledger \<Rightarrow> bool" where
  "known_version L \<longleftrightarrow> sd_schema_version L \<in> {1, SUPERVISION_SCHEMA_VERSION}"

lemma om_length: "om_wf m \<Longrightarrow> length m = card (set (om_keys m))"
  using om_wf_distinct[of m] distinct_card[of "om_keys m"] by (simp add: om_keys_def)

lemma unique_order_iff:
  assumes "om_wf records"
  shows "unique_order order records label = Inr () \<longleftrightarrow>
    distinct order \<and> set order = set (om_keys records)"
proof -
  have "list_ex (\<lambda>i. \<not> om_has records i) order \<longleftrightarrow> \<not> set order \<subseteq> set (om_keys records)"
    by (auto simp: list_ex_iff om_has_def om_keys_iff)
  moreover have "set order = set (om_keys records) \<longleftrightarrow>
      set order \<subseteq> set (om_keys records) \<and> length order = length records" if "distinct order"
    using distinct_card[OF that] om_length[OF assms] by (metis card_subset_eq equalityE List.finite_set)
  ultimately show ?thesis unfolding unique_order_def by auto
qed

lemma check_reminders_iff:
  "res_fold (check_reminder m L) () is = Inr u \<longleftrightarrow>
    (\<forall>i \<in> set is. \<not> bad_reminder m i (the (om_get (sd_reminders L) i)))"
  by (induction "is") (auto simp: check_reminder_def res_bind_Inr_iff)

lemma check_sequences_iff:
  "res_fold (check_sequence L) p is = Inr q \<longleftrightarrow>
    (\<forall>i \<in> set is. fx_id (the (effect_of L i)) = i)
    \<and> sorted_wrt (<) (p # map (\<lambda>i. fx_sequence (the (effect_of L i))) is)
    \<and> q = last (p # map (\<lambda>i. fx_sequence (the (effect_of L i))) is)"
  by (induction "is" arbitrary: p) (auto simp: check_sequence_def Let_def res_bind_Inr_iff)

lemma sorted_last_below:
  "sorted_wrt (<) (xs :: nat list) \<Longrightarrow> x \<in> set xs \<Longrightarrow> x \<le> last xs"
proof (induction xs)
  case (Cons a xs)
  show ?case
  proof (cases "xs = []")
    case False
    then have "a < last xs" using Cons.prems(1) by simp
    with Cons False show ?thesis by (auto simp: less_imp_le)
  qed (use Cons in simp)
qed simp

text \<open>What the validation accepts.\<close>

lemma validate_supervision_iff:
  assumes "om_wf (su_effects L)" "om_wf (sd_reminders L)"
  shows "validate_supervision L m = Inr () \<longleftrightarrow>
    known_version L \<and> sd_organization L = mf_slug m \<and> sup_shape L \<and> good_reminders m L"
proof -
  let ?seqs = "map (\<lambda>i. fx_sequence (the (effect_of L i))) (su_effect_order L)"
  have order: "set (su_effect_order L) = set (om_keys (su_effects L)) \<Longrightarrow>
      (\<forall>i \<in> set (su_effect_order L). P i (the (effect_of L i))) \<longleftrightarrow> (\<forall>i e. effect_of L i = Some e \<longrightarrow> P i e)" for P
    by (auto simp: Ball_def om_keys_iff effect_of_def)
  have below: "sorted_wrt (<) (0 # ?seqs) \<and> last (0 # ?seqs) < su_next_effect_sequence L \<longleftrightarrow>
      sorted_wrt (<) ?seqs \<and> (\<forall>s \<in> set ?seqs. 0 < s \<and> s < su_next_effect_sequence L) \<and> 0 < su_next_effect_sequence L"
  proof
    assume a: "sorted_wrt (<) (0 # ?seqs) \<and> last (0 # ?seqs) < su_next_effect_sequence L"
    then have "s \<le> last (0 # ?seqs)" if "s \<in> set (0 # ?seqs)" for s using sorted_last_below that by blast
    with a show "sorted_wrt (<) ?seqs \<and> (\<forall>s \<in> set ?seqs. 0 < s \<and> s < su_next_effect_sequence L) \<and> 0 < su_next_effect_sequence L"
      by (meson le_less_trans list.set_intros(2) sorted_wrt.simps(2) zero_le)
  next
    assume a: "sorted_wrt (<) ?seqs \<and> (\<forall>s \<in> set ?seqs. 0 < s \<and> s < su_next_effect_sequence L) \<and> 0 < su_next_effect_sequence L"
    moreover have "last (0 # ?seqs) \<in> insert 0 (set ?seqs)" by (metis last_in_set list.discI list.simps(15))
    ultimately show "sorted_wrt (<) (0 # ?seqs) \<and> last (0 # ?seqs) < su_next_effect_sequence L" by auto
  qed
  have reminders: "set (sd_reminder_order L) = set (om_keys (sd_reminders L)) \<Longrightarrow>
      (\<forall>i \<in> set (sd_reminder_order L). \<not> bad_reminder m i (the (om_get (sd_reminders L) i))) \<longleftrightarrow> good_reminders m L"
    unfolding good_reminders_def by (auto simp: Ball_def om_keys_iff)
  have "validate_supervision L m = Inr () \<longleftrightarrow> known_version L \<and> sd_organization L = mf_slug m
      \<and> (distinct (su_effect_order L) \<and> set (su_effect_order L) = set (om_keys (su_effects L)))
      \<and> (distinct (sd_reminder_order L) \<and> set (sd_reminder_order L) = set (om_keys (sd_reminders L)))
      \<and> (\<forall>i \<in> set (sd_reminder_order L). \<not> bad_reminder m i (the (om_get (sd_reminders L) i)))
      \<and> (\<forall>i \<in> set (su_effect_order L). fx_id (the (effect_of L i)) = i)
      \<and> (sorted_wrt (<) (0 # ?seqs) \<and> last (0 # ?seqs) < su_next_effect_sequence L)"
    unfolding validate_supervision_def known_version_def
    by (auto simp: res_bind_Inr_iff unique_order_iff[OF assms(1)] unique_order_iff[OF assms(2)]
        check_reminders_iff check_sequences_iff simp del: sorted_wrt.simps last.simps)
  then show ?thesis
    unfolding below sup_shape_def effects_shape_def reminders_shape_def
    using assms order[of "\<lambda>i e. fx_id e = i"] order[of "\<lambda>i e. 0 < fx_sequence e \<and> fx_sequence e < su_next_effect_sequence L"]
      reminders by auto
qed

section \<open>Shedding\<close>

definition staffed :: "'v organization_manifest \<Rightarrow> string \<Rightarrow> bool" where
  "staffed m pid \<longleftrightarrow> pid \<in> set (mf_people_order m)
     \<and> (\<exists>p. person m pid = Some p \<and> ps_employment_state p \<noteq> Departed)"

lemma staffed_people_iff: "pid \<in> set (staffed_people m) \<longleftrightarrow> staffed m pid"
  by (auto simp: staffed_people_def staffed_def split: option.splits)

definition kept_reminder :: "'v organization_manifest \<Rightarrow> reminder \<Rightarrow> bool" where
  "kept_reminder m r \<longleftrightarrow> staffed m (rd_person_id r) \<and> staffed m (rd_created_by_person_id r)"

lemma shed_reminders_fold:
  "foldl shed_reminder L is = L\<lparr>sd_reminders := om_del_all is (sd_reminders L),
     sd_reminder_order := filter (\<lambda>i. i \<notin> set is) (sd_reminder_order L)\<rparr>"
proof (induction "is" arbitrary: L)
  case (Cons i "is")
  show ?case by (simp add: Cons.IH) (auto simp: shed_reminder_def om_del_all_def intro!: filter_cong)
qed (simp add: om_del_all_def)

lemma shed_effects [simp]:
  "su_effects (fst (shed_departed L m)) = su_effects L"
  "su_effect_order (fst (shed_departed L m)) = su_effect_order L"
  "su_next_effect_sequence (fst (shed_departed L m)) = su_next_effect_sequence L"
  "effect_of (fst (shed_departed L m)) = effect_of L"
  "sd_organization (fst (shed_departed L m)) = sd_organization L"
  "sd_schema_version (fst (shed_departed L m)) = sd_schema_version L"
  "sd_updated_at (fst (shed_departed L m)) = sd_updated_at L"
  by (simp_all add: shed_departed_def Let_def shed_reminders_fold effect_of_def fun_eq_iff)

lemma departed_reminders_iff:
  assumes "reminders_shape L"
  shows "i \<in> set (departed_reminders L m) \<longleftrightarrow>
    (\<exists>r. om_get (sd_reminders L) i = Some r \<and> \<not> kept_reminder m r)"
  using assms
  by (auto simp: departed_reminders_def staffed_people_iff kept_reminder_def reminders_shape_def om_keys_iff
      split: option.splits)

text \<open>Exactly the reminders of people who left are gone; the rest are as they were.\<close>

lemma shed_get:
  assumes "reminders_shape L"
  shows "om_get (sd_reminders (fst (shed_departed L m))) i =
    (case om_get (sd_reminders L) i of None \<Rightarrow> None | Some r \<Rightarrow> if kept_reminder m r then Some r else None)"
  by (auto simp: shed_departed_def Let_def shed_reminders_fold store_simps departed_reminders_iff[OF assms]
      split: option.splits)

lemma shed_shape:
  assumes "sup_shape L"
  shows "sup_shape (fst (shed_departed L m))"
proof -
  have r: "reminders_shape L" using assms by (simp add: sup_shape_def)
  have "reminders_shape (fst (shed_departed L m))"
    using r shed_get[OF r, of m]
    by (auto simp: reminders_shape_def shed_departed_def Let_def shed_reminders_fold om_wf_del_all om_keys_iff
        store_simps)
  then show ?thesis using assms by (simp add: sup_shape_def effects_shape_def)
qed

lemma shed_good:
  assumes "reminders_shape L" "good_reminders m L"
  shows "good_reminders m' (fst (shed_departed L m'))"
  unfolding good_reminders_def
proof (intro allI impI)
  fix i r assume "om_get (sd_reminders (fst (shed_departed L m'))) i = Some r"
  then have r: "om_get (sd_reminders L) i = Some r" "kept_reminder m' r"
    by (auto simp: shed_get[OF assms(1)] split: option.splits if_splits)
  with assms(2) have "\<not> bad_reminder m i r" by (simp add: good_reminders_def)
  with r(2) show "\<not> bad_reminder m' i r" by (auto simp: bad_reminder_def kept_reminder_def staffed_def)
qed

lemma shed_nothing: "\<not> snd (shed_departed L m) \<Longrightarrow> fst (shed_departed L m) = L"
  by (simp add: shed_departed_def Let_def)

lemma shed_stays:
  assumes "reminders_shape L"
  shows "snd (shed_departed L m) \<longleftrightarrow> (\<exists>i r. om_get (sd_reminders L) i = Some r \<and> \<not> kept_reminder m r)"
proof -
  have "snd (shed_departed L m) \<longleftrightarrow> (\<exists>i. i \<in> set (departed_reminders L m))"
    by (simp add: shed_departed_def Let_def ex_in_conv)
  then show ?thesis by (simp add: departed_reminders_iff[OF assms])
qed

text \<open>
  A restructure never strands the supervision ledger: whatever the organization becomes, the ledger
  shed for the new organization passes the validation under it, has every effect, and has exactly the
  reminders whose person and author are both still employed. A second shedding finds nothing.
\<close>

theorem a_restructure_strands_nothing:
  assumes "om_wf (su_effects L)" "om_wf (sd_reminders L)" "validate_supervision L m = Inr ()" "mf_slug m' = mf_slug m"
  shows "validate_supervision (fst (shed_departed L m')) m' = Inr ()
    \<and> su_effects (fst (shed_departed L m')) = su_effects L
    \<and> (\<forall>i. om_get (sd_reminders (fst (shed_departed L m'))) i =
         (case om_get (sd_reminders L) i of None \<Rightarrow> None | Some r \<Rightarrow> if kept_reminder m' r then Some r else None))
    \<and> \<not> snd (shed_departed (fst (shed_departed L m')) m')"
proof -
  have v: "known_version L" "sd_organization L = mf_slug m" "sup_shape L" "good_reminders m L"
    using assms(3) by (simp_all add: validate_supervision_iff[OF assms(1,2)])
  then have r: "reminders_shape L" by (simp add: sup_shape_def)
  have s: "sup_shape (fst (shed_departed L m'))" using v(3) by (rule shed_shape)
  then have wf: "om_wf (su_effects (fst (shed_departed L m')))" "om_wf (sd_reminders (fst (shed_departed L m')))"
    by (simp_all add: sup_shape_def effects_shape_def reminders_shape_def)
  have "validate_supervision (fst (shed_departed L m')) m' = Inr ()"
    using v s shed_good[OF r v(4)] assms(4) by (simp add: validate_supervision_iff[OF wf] known_version_def)
  moreover have "\<not> snd (shed_departed (fst (shed_departed L m')) m')"
    using s by (auto simp: shed_stays sup_shape_def shed_get[OF r] split: option.splits if_splits)
  ultimately show ?thesis by (intro conjI allI) (simp_all add: shed_get[OF r])
qed

section \<open>The stored ledger\<close>

text \<open>
  An effect's payload is flattened into its object: what the codec can keep are payloads with none of the
  object's own keys. The same holds of a reminder and the fields it does not know.
\<close>

definition effect_keys :: "string list" where
  "effect_keys = [''id'', ''sequence'', ''kind'', ''status'', ''createdAt'', ''deliveredAt'', ''supersededAt'',
     ''deliveryFailureCount'', ''lastDeliveryFailureAt'', ''failedAt'', ''reopenCount'', ''lastReopenedAt'']"

definition reminder_keys :: "string list" where
  "reminder_keys = [''id'', ''personId'', ''createdByPersonId'', ''prompt'', ''intervalMs'', ''nextDueAt'', ''status'',
     ''recurring'', ''fireCount'', ''createdAt'', ''lastFiredAt'', ''expiresAt'', ''stoppedReason'', ''stoppedAt'']"

definition flat_beside :: "string list \<Rightarrow> (string, json) omap \<Rightarrow> bool" where
  "flat_beside own payload \<longleftrightarrow> om_wf payload \<and> (\<forall>e \<in> set payload. fst e \<notin> set own \<and> json_wf (snd e))"

definition effect_wire :: "effect \<Rightarrow> bool" where
  "effect_wire e \<longleftrightarrow> flat_beside effect_keys (fx_payload e)"

definition document_wire :: "'z supervision_document_scheme \<Rightarrow> bool" where
  "document_wire d \<longleftrightarrow> om_wf (sd_reminders d)
     \<and> (\<forall>i r. om_get (sd_reminders d) i = Some r \<longrightarrow> flat_beside reminder_keys (rd_extra r))"

definition supervision_faithful :: "supervision_codec \<Rightarrow> bool" where
  "supervision_faithful C \<longleftrightarrow>
     (\<forall>d. document_wire d \<longrightarrow> (\<exists>s. sj_enc C d = Inr s \<and> sj_dec C s = Inr d))
   \<and> (\<forall>e. effect_wire e \<longrightarrow> (\<exists>s. sj_enc_effect C e = Inr s \<and> sj_dec_effect C s = Inr e))"

definition sup_wire :: "supervision_ledger \<Rightarrow> bool" where
  "sup_wire L \<longleftrightarrow> om_wf (su_effects L) \<and> document_wire L
     \<and> (\<forall>i e. effect_of L i = Some e \<longrightarrow> effect_wire e)"

definition row_holds :: "supervision_codec \<Rightarrow> effect_row option \<Rightarrow> effect option \<Rightarrow> bool" where
  "row_holds C row e \<longleftrightarrow> (case e of None \<Rightarrow> row = None
     | Some e \<Rightarrow> (\<exists>r. row = Some r \<and> ef_seq r = fx_sequence e \<and> sj_dec_effect C (ef_body r) = Inr e))"

definition rows_hold :: "supervision_codec \<Rightarrow> ledgers \<Rightarrow> supervision_ledger \<Rightarrow> bool" where
  "rows_hold C l L \<longleftrightarrow> om_wf (lg_effects l) \<and> (\<forall>i. row_holds C (om_get (lg_effects l) i) (effect_of L i))"

text \<open>The ledgers hold the supervision ledger \<open>L\<close>.\<close>

definition stored :: "supervision_codec \<Rightarrow> ledgers \<Rightarrow> supervision_ledger \<Rightarrow> bool" where
  "stored C l L \<longleftrightarrow> sup_shape L \<and> sup_wire L \<and> rows_hold C l L \<and> stored_sequence l = su_next_effect_sequence L
     \<and> (\<exists>body. document_body l SUPERVISION_STORE_NAME = Some body
          \<and> sj_dec C body = Inr (supervision_document.truncate L))"

lemma rows_order:
  assumes "effects_shape L" "rows_hold C l L"
  shows "effect_order l = su_effect_order L"
proof -
  let ?row = "\<lambda>i. (fx_sequence (the (effect_of L i)), i)"
  let ?ys = "map ?row (su_effect_order L)" and ?xs = "map (\<lambda>(eid, row). (ef_seq row, eid)) (lg_effects l)"
  have wf: "om_wf (lg_effects l)" and rows: "\<And>i. row_holds C (om_get (lg_effects l) i) (effect_of L i)"
    using assms(2) by (simp_all add: rows_hold_def)
  have known: "i \<in> set (su_effect_order L) \<longleftrightarrow> effect_of L i \<noteq> None" for i
    using assms(1) by (simp add: effects_shape_def om_keys_iff effect_of_def)
  have mem: "(s, i) \<in> set ?xs \<longleftrightarrow> (s, i) \<in> set ?ys" for s i
  proof -
    have "(s, i) \<in> set ?xs \<longleftrightarrow> (\<exists>r. (i, r) \<in> set (lg_effects l) \<and> ef_seq r = s)" by force
    also have "\<dots> \<longleftrightarrow> (\<exists>r. om_get (lg_effects l) i = Some r \<and> ef_seq r = s)" by (simp add: om_mem_iff[OF wf])
    also have "\<dots> \<longleftrightarrow> (\<exists>e. effect_of L i = Some e \<and> fx_sequence e = s)"
      using rows[of i] by (auto simp: row_holds_def split: option.splits)
    also have "\<dots> \<longleftrightarrow> (s, i) \<in> set ?ys" using known[of i] by (auto intro!: image_eqI[of _ _ i])
    finally show ?thesis .
  qed
  have sets: "set ?xs = set ?ys" 
  proof (rule set_eqI)
    fix x :: "nat \<times> string"
    obtain s i where "x = (s, i)" by (cases x)
    then show "x \<in> set ?xs \<longleftrightarrow> x \<in> set ?ys" using mem[of s i] by (simp only:)
  qed
  have "distinct (map fst (lg_effects l))" by (rule om_wf_distinct[OF wf])
  then have "distinct (map snd ?xs)" by (simp add: comp_def case_prod_beta)
  then have "distinct ?xs" by (simp only: distinct_map)
  moreover have "distinct ?ys" using assms(1) by (simp add: effects_shape_def distinct_map inj_on_def)
  moreover have "sorted_wrt (\<lambda>i j. fx_sequence (the (effect_of L i)) < fx_sequence (the (effect_of L j)))
      (su_effect_order L)"
    using assms(1) by (simp add: effects_shape_def sorted_wrt_map)
  then have "sorted_wrt (\<lambda>i j. ?row i \<le> ?row j) (su_effect_order L)"
    by (rule sorted_wrt_mono_rel[rotated]) simp
  then have "sorted ?ys" by (simp add: sorted_wrt_map)
  ultimately have "sort ?xs = ?ys" using sets by (intro sorted_distinct_set_unique) simp_all
  then show ?thesis by (simp add: effect_order_def comp_def)
qed

text \<open>A reader decodes the ledger they hold.\<close>

lemma hydrate_effects:
  assumes "rows_hold C l L" "\<forall>i \<in> set is. effect_of L i \<noteq> None"
  shows "res_fold (hydrate_effect C l) m is = Inr (foldl (\<lambda>m i. om_put i (the (effect_of L i)) m) m is)"
  using assms(2)
proof (induction "is" arbitrary: m)
  case (Cons i "is")
  then obtain e where "effect_of L i = Some e" by auto
  then show ?case using assms(1)[unfolded rows_hold_def, THEN conjunct2, rule_format, of i] Cons
    by (auto simp: row_holds_def hydrate_effect_def)
qed simp

lemma om_wf_fold_put: "om_wf m \<Longrightarrow> om_wf (foldl (\<lambda>m k. om_put k (f k) m) m ks)"
  by (induction ks arbitrary: m) (simp_all add: om_wf_put)

lemma stored_read:
  assumes "stored C l L"
  shows "read_for_mutation_sup C l = Inr L"
proof -
  have s: "effects_shape L" "rows_hold C l L" "stored_sequence l = su_next_effect_sequence L"
    using assms by (auto simp: stored_def sup_shape_def)
  obtain body where body: "document_body l SUPERVISION_STORE_NAME = Some body"
      "sj_dec C body = Inr (supervision_document.truncate L)"
    using assms by (auto simp: stored_def)
  have order: "effect_order l = su_effect_order L" by (rule rows_order[OF s(1,2)])
  have known: "i \<in> set (su_effect_order L) \<longleftrightarrow> effect_of L i \<noteq> None" for i
    using s(1) by (simp add: effects_shape_def om_keys_iff effect_of_def)
  let ?m = "foldl (\<lambda>m i. om_put i (the (effect_of L i)) m) [] (su_effect_order L)"
  have "?m = su_effects L"
  proof (rule om_ext)
    show "om_wf (su_effects L)" using s(1) by (simp add: effects_shape_def)
    show "om_get ?m i = om_get (su_effects L) i" for i
      using known[of i] by (auto simp: om.fold_put_get effect_of_def)
  qed (rule om_wf_fold_put, simp)
  then have "res_fold (hydrate_effect C l) [] (effect_order l) = Inr (su_effects L)"
    using hydrate_effects[OF s(2), of "su_effect_order L" "[]"] known by (simp add: order)
  then have "hydrate C l (supervision_document.truncate L) = Inr L"
    by (simp add: hydrate_def order s(3) supervision_document.defs)
  then show ?thesis by (simp add: read_for_mutation_sup_def body)
qed

section \<open>The transaction\<close>

text \<open>What a transaction leaves alone: everything but its rows, its document and its counter.\<close>

definition elsewhere_same :: "ledgers \<Rightarrow> ledgers \<Rightarrow> bool" where
  "elsewhere_same l l' \<longleftrightarrow> lg_now l' = lg_now l \<and> lg_mailbox l' = lg_mailbox l
     \<and> lg_host_actions l' = lg_host_actions l
     \<and> (\<forall>store. store \<noteq> SUPERVISION_STORE_NAME \<longrightarrow> document l' store = document l store)
     \<and> (\<forall>name. name \<noteq> NEXT_EFFECT_SEQUENCE \<longrightarrow> counter l' name = counter l name)"

lemma flush_effects:
  assumes "supervision_faithful C" "sup_wire L" "om_wf (lg_effects l)" "set ts \<subseteq> set touched"
    "\<forall>i. i \<notin> set touched \<longrightarrow> row_holds C (om_get (lg_effects l) i) (effect_of L i)"
  shows "\<exists>rows. res_fold (flush_effect C L) l ts = Inr (l\<lparr>lg_effects := rows\<rparr>) \<and> om_wf rows
    \<and> (\<forall>i. i \<in> set ts \<or> row_holds C (om_get (lg_effects l) i) (effect_of L i)
           \<longrightarrow> row_holds C (om_get rows i) (effect_of L i))"
  using assms(3-5)
proof (induction ts arbitrary: l)
  case Nil
  show ?case by (rule exI[of _ "lg_effects l"]) (use Nil in simp)
next
  case (Cons i ts)
  obtain rows1 where one: "flush_effect C L l i = Inr (l\<lparr>lg_effects := rows1\<rparr>)" "om_wf rows1"
      "\<And>k. k = i \<or> row_holds C (om_get (lg_effects l) k) (effect_of L k) \<Longrightarrow> row_holds C (om_get rows1 k) (effect_of L k)"
  proof (cases "effect_of L i")
    case None
    show thesis
      by (rule that[of "om_del i (lg_effects l)"])
        (use None Cons.prems(1) in \<open>auto simp: flush_effect_def remove_effect_def om_wf_del store_simps row_holds_def\<close>)
  next
    case (Some e)
    with assms(2) have "effect_wire e" by (simp add: sup_wire_def)
    then obtain s where s: "sj_enc_effect C e = Inr s" "sj_dec_effect C s = Inr e"
      using assms(1) by (auto simp: supervision_faithful_def)
    show thesis
      by (rule that[of "om_put i \<lparr>ef_seq = fx_sequence e, ef_kind = fx_kind e, ef_body = s,
             ef_delivered_at = Option.bind (fx_delivered_at e) parse_iso_millis\<rparr> (lg_effects l)"])
        (use Some s Cons.prems(1) in \<open>auto simp: flush_effect_def put_effect_def om_wf_put store_simps row_holds_def\<close>)
  qed
  have "\<exists>rows. res_fold (flush_effect C L) (l\<lparr>lg_effects := rows1\<rparr>) ts = Inr (l\<lparr>lg_effects := rows1\<rparr>\<lparr>lg_effects := rows\<rparr>)
      \<and> om_wf rows \<and> (\<forall>k. k \<in> set ts \<or> row_holds C (om_get (lg_effects (l\<lparr>lg_effects := rows1\<rparr>)) k) (effect_of L k)
           \<longrightarrow> row_holds C (om_get rows k) (effect_of L k))"
    by (rule Cons.IH) (use one Cons.prems in auto)
  with one show ?case by auto
qed

lemma stored_sequence_put:
  assumes "0 < n" "int n \<le> i64_max"
  shows "stored_sequence (put_document ref store body (store_sequence n l)) = n"
  using assms
  by (simp add: stored_sequence_def store_sequence_def counter_def set_counter_def put_document_def store_simps)

lemma store_stores:
  assumes "supervision_faithful C" "sup_wire L" "om_wf (lg_effects l)"
    "\<forall>i. i \<notin> set touched \<longrightarrow> row_holds C (om_get (lg_effects l) i) (effect_of L i)"
    "int (su_next_effect_sequence L) \<le> i64_max" "validate_supervision L m = Inr ()"
  shows "\<exists>l'. store_supervision C ref m touched L l = Inr l' \<and> stored C l' L \<and> elsewhere_same l l'"
proof -
  have wf: "om_wf (su_effects L)" "om_wf (sd_reminders L)" using assms(2) by (auto simp: sup_wire_def document_wire_def)
  have shape: "sup_shape L" using assms(6) by (simp add: validate_supervision_iff[OF wf])
  obtain rows where rows: "res_fold (flush_effect C L) l touched = Inr (l\<lparr>lg_effects := rows\<rparr>)" "om_wf rows"
      "\<And>i. row_holds C (om_get rows i) (effect_of L i)"
    using flush_effects[OF assms(1-3) subset_refl assms(4)] assms(4) by blast
  have "document_wire (supervision_document.truncate L)"
    using assms(2) by (simp add: sup_wire_def document_wire_def supervision_document.defs)
  then obtain s where s: "sj_enc C (supervision_document.truncate L) = Inr s"
      "sj_dec C s = Inr (supervision_document.truncate L)"
    using assms(1) unfolding supervision_faithful_def by blast
  let ?l = "put_document ref SUPERVISION_STORE_NAME s (store_sequence (su_next_effect_sequence L) (l\<lparr>lg_effects := rows\<rparr>))"
  have "store_supervision C ref m touched L l = Inr ?l"
    by (simp add: store_supervision_def rows(1) assms(6) put_supervision_def s(1))
  moreover have "0 < su_next_effect_sequence L" using shape by (simp add: sup_shape_def effects_shape_def)
  then have "stored C ?l L"
    using shape assms(2,5) rows(2,3) s(2)
    by (simp add: stored_def stored_sequence_put)
      (simp add: rows_hold_def put_document_def store_sequence_def set_counter_def document_body_def document_def store_simps)
  moreover have "elsewhere_same l ?l"
    by (simp add: elsewhere_same_def put_document_def store_sequence_def set_counter_def document_def counter_def store_simps)
  ultimately show ?thesis by blast
qed

text \<open>The contract a command's closure keeps, and what the transaction then is.\<close>

definition draft_of :: "supervision_ledger \<Rightarrow> 'v organization_manifest \<Rightarrow> supervision_draft" where
  "draft_of L m = \<lparr>dr_ledger = fst (shed_departed L m), dr_touched = []\<rparr>"

definition touches_what_it_changes :: "supervision_draft \<Rightarrow> supervision_draft \<Rightarrow> bool" where
  "touches_what_it_changes d d' \<longleftrightarrow> set (dr_touched d) \<subseteq> set (dr_touched d')
     \<and> (\<forall>i. i \<notin> set (dr_touched d') \<longrightarrow> effect_of (dr_ledger d') i = effect_of (dr_ledger d) i)"

lemma touches_refl [simp]: "touches_what_it_changes d d"
  by (simp add: touches_what_it_changes_def)

lemma touches_trans:
  "touches_what_it_changes d d1 \<Longrightarrow> touches_what_it_changes d1 d2 \<Longrightarrow> touches_what_it_changes d d2"
  unfolding touches_what_it_changes_def by (metis subset_iff)

text \<open>An effect's life: at most three failures in a row, at most three times driven again.\<close>

definition effect_attempts :: "effect \<Rightarrow> nat" where
  "effect_attempts e = SUPERVISION_EFFECT_DELIVERY_ATTEMPT_LIMIT * count_of (fx_reopen_count e)
     + count_of (fx_delivery_failure_count e)"

definition effect_good :: "effect \<Rightarrow> bool" where
  "effect_good e \<longleftrightarrow> count_of (fx_reopen_count e) \<le> SUPERVISION_EFFECT_REOPEN_LIMIT
     \<and> (if fx_status e = Effect_Failed
        then count_of (fx_delivery_failure_count e) = SUPERVISION_EFFECT_DELIVERY_ATTEMPT_LIMIT
        else count_of (fx_delivery_failure_count e) < SUPERVISION_EFFECT_DELIVERY_ATTEMPT_LIMIT)"

definition effect_moves :: "effect \<Rightarrow> effect \<Rightarrow> bool" where
  "effect_moves e e' \<longleftrightarrow> e' = e \<or> (fx_status e = Effect_Pending
         \<or> fx_status e = Effect_Failed \<and> count_of (fx_reopen_count e) < SUPERVISION_EFFECT_REOPEN_LIMIT)
     \<and> fx_status e' \<in> {Effect_Pending, Effect_Delivered, Effect_Failed}
     \<and> fx_id e' = fx_id e \<and> fx_sequence e' = fx_sequence e \<and> fx_kind e' = fx_kind e \<and> fx_created_at e' = fx_created_at e
     \<and> (effect_good e \<longrightarrow> effect_good e' \<and> effect_attempts e \<le> effect_attempts e')"

lemma effect_moves_refl [simp]: "effect_moves e e"
  by (simp add: effect_moves_def)

lemma effect_moves_trans: "effect_moves e e1 \<Longrightarrow> effect_moves e1 e2 \<Longrightarrow> effect_moves e e2"
  unfolding effect_moves_def by auto

definition effects_move :: "supervision_ledger \<Rightarrow> supervision_ledger \<Rightarrow> bool" where
  "effects_move L L' \<longleftrightarrow> (\<forall>i. case effect_of L i of
       Some e \<Rightarrow> (\<exists>e'. effect_of L' i = Some e' \<and> effect_moves e e')
     | None \<Rightarrow> (\<forall>e'. effect_of L' i = Some e' \<longrightarrow> effect_good e'))"

lemma effects_move_refl [simp]: "effects_move L L"
  by (simp add: effects_move_def split: option.splits)

lemma effects_move_trans:
  assumes "effects_move L L1" "effects_move L1 L2"
  shows "effects_move L L2"
  unfolding effects_move_def
proof
  fix i
  show "case effect_of L i of Some e \<Rightarrow> (\<exists>e'. effect_of L2 i = Some e' \<and> effect_moves e e')
    | None \<Rightarrow> (\<forall>e'. effect_of L2 i = Some e' \<longrightarrow> effect_good e')"
    using assms(1)[unfolded effects_move_def, rule_format, of i] assms(2)[unfolded effects_move_def, rule_format, of i]
    by (auto simp: effect_moves_def split: option.splits)
qed

definition same_company :: "supervision_ledger \<Rightarrow> supervision_ledger \<Rightarrow> bool" where
  "same_company L L' \<longleftrightarrow> sd_organization L' = sd_organization L \<and> sd_schema_version L' = sd_schema_version L"

definition draft_moves :: "supervision_draft \<Rightarrow> supervision_draft \<Rightarrow> bool" where
  "draft_moves d d' \<longleftrightarrow> touches_what_it_changes d d' \<and> (sup_wire (dr_ledger d) \<longrightarrow> sup_wire (dr_ledger d'))
     \<and> effects_move (dr_ledger d) (dr_ledger d') \<and> same_company (dr_ledger d) (dr_ledger d')"

lemma draft_moves_refl [simp]: "draft_moves d d"
  by (simp add: draft_moves_def same_company_def)

lemma draft_moves_trans: "draft_moves d d1 \<Longrightarrow> draft_moves d1 d2 \<Longrightarrow> draft_moves d d2"
  unfolding draft_moves_def same_company_def by (auto intro: touches_trans effects_move_trans)

lemma document_wire_shed:
  assumes "sup_shape L" "sup_wire L"
  shows "sup_wire (dr_ledger (draft_of L m))"
proof -
  have r: "reminders_shape L" using assms(1) by (simp add: sup_shape_def)
  have "sup_shape (fst (shed_departed L m))" by (rule shed_shape[OF assms(1)])
  then have "om_wf (sd_reminders (fst (shed_departed L m)))" by (simp add: sup_shape_def reminders_shape_def)
  then show ?thesis using assms(2)
    by (auto simp: draft_of_def sup_wire_def document_wire_def shed_get[OF r] split: option.splits if_splits)
qed

locale supervision_command =
  fixes command :: "supervision_draft \<Rightarrow> string \<Rightarrow> chiefd_error + (supervision_draft \<times> 'r)"
  assumes moves: "distinct (su_effect_order (dr_ledger d)) \<Longrightarrow> command d at = Inr (d', r) \<Longrightarrow> draft_moves d d'"
begin

lemma transaction:
  assumes "supervision_faithful C" "stored C l L"
    "\<And>d r. command (draft_of L m) (iso_millis (lg_now l)) = Inr (d, r) \<Longrightarrow>
       validate_supervision ((dr_ledger d)\<lparr>sd_updated_at := iso_millis (lg_now l)\<rparr>) m = Inr () \<Longrightarrow>
       int (su_next_effect_sequence (dr_ledger d)) \<le> i64_max"
  shows "case command (draft_of L m) (iso_millis (lg_now l)) of
      Inl e \<Rightarrow> supervision_mutate C ref m command l = Inl e
    | Inr (d, r) \<Rightarrow>
        let L' = (dr_ledger d)\<lparr>sd_updated_at := iso_millis (lg_now l)\<rparr>
        in if \<not> snd (shed_departed L m) \<and> dr_ledger d = L \<and> dr_touched d = [] then supervision_mutate C ref m command l = Inr (l, r)
           else case validate_supervision L' m of
             Inl e \<Rightarrow> supervision_mutate C ref m command l = Inl (Refused e)
           | Inr _ \<Rightarrow> \<exists>l'. supervision_mutate C ref m command l = Inr (l', r) \<and> stored C l' L' \<and> elsewhere_same l l'"
proof (cases "command (draft_of L m) (iso_millis (lg_now l))")
  case (Inl e)
  then show ?thesis by (simp add: supervision_mutate_def stored_read[OF assms(2)] draft_of_def Let_def)
next
  case (Inr dr)
  obtain d r where dr: "dr = (d, r)" by (cases dr)
  let ?L = "(dr_ledger d)\<lparr>sd_updated_at := iso_millis (lg_now l)\<rparr>"
  have run: "supervision_mutate C ref m command l =
      (if snd (shed_departed L m) \<or> dr_ledger d \<noteq> L \<or> dr_touched d \<noteq> []
       then res_bind (store_supervision C ref m (dr_touched d) ?L l) (\<lambda>l'. Inr (l', r)) else Inr (l, r))"
    using Inr dr by (simp add: supervision_mutate_def stored_read[OF assms(2)] draft_of_def Let_def)
  have L: "sup_shape L" "sup_wire L" "rows_hold C l L" using assms(2) by (simp_all add: stored_def)
  have ok: "sup_wire (dr_ledger (draft_of L m))" by (rule document_wire_shed[OF L(1,2)])
  have moved: "draft_moves (draft_of L m) d" 
    by (rule moves[OF _ Inr[unfolded dr]]) (use L(1) in \<open>simp add: draft_of_def sup_shape_def effects_shape_def\<close>)
  have same: "effect_of ?L = effect_of (dr_ledger d)" by (simp add: effect_of_def fun_eq_iff)
  have "sup_wire (dr_ledger d)" using moved ok unfolding draft_moves_def by blast
  then have wire: "sup_wire ?L" by (simp add: sup_wire_def document_wire_def same)
  have rows: "\<forall>i. i \<notin> set (dr_touched d) \<longrightarrow> row_holds C (om_get (lg_effects l) i) (effect_of ?L i)"
    unfolding same using moved L(3) by (simp add: draft_moves_def touches_what_it_changes_def draft_of_def rows_hold_def)
  have wf: "om_wf (lg_effects l)" using L(3) by (simp add: rows_hold_def)
  show ?thesis
  proof (cases "validate_supervision ?L m")
    case refusal: (Inl e)
    have "\<exists>rows. res_fold (flush_effect C ?L) l (dr_touched d) = Inr (l\<lparr>lg_effects := rows\<rparr>)"
      using flush_effects[OF assms(1) wire wf subset_refl rows] by blast
    then have "store_supervision C ref m (dr_touched d) ?L l = Inl (Refused e)"
      using refusal by (auto simp: store_supervision_def)
    with refusal run Inr dr show ?thesis by (simp add: Let_def)
  next
    case valid: (Inr u)
    then have "validate_supervision ?L m = Inr ()" by simp
    moreover from this have "int (su_next_effect_sequence ?L) \<le> i64_max" using assms(3)[OF Inr[unfolded dr]] by simp
    ultimately have "\<exists>l'. store_supervision C ref m (dr_touched d) ?L l = Inr l' \<and> stored C l' ?L \<and> elsewhere_same l l'"
      using store_stores[OF assms(1) wire wf rows] by blast
    then
    obtain l' where "store_supervision C ref m (dr_touched d) ?L l = Inr l'" "stored C l' ?L" "elsewhere_same l l'"
      by blast
    with valid run Inr dr show ?thesis by (auto simp: Let_def)
  qed
qed

end

end
