(* ===== verification/Reminders.thy ===== *)
theory Reminders
  imports Supervision "HOL-Library.While_Combinator" "HOL-Library.Signed_Division"
begin

text \<open>
  Durable reminders (\<open>chiefd-core/src/store/supervision/reminders.rs\<close>): arming, stopping, listing, and the
  pass that fires what is due, re-arms what recurs and retires what is over. A multi-line text is the
  message the person is sent.
\<close>

section \<open>Constants\<close>

definition MIN_RECURRING_REMINDER_INTERVAL_MS :: int where
  "MIN_RECURRING_REMINDER_INTERVAL_MS = 2 * ORGANIZATION_SETTLED_IDLE_STOP_LEASE_MS"

definition REMINDER_PROMPT_LIMIT :: nat where "REMINDER_PROMPT_LIMIT = 2000"
definition REMINDERS_PER_PERSON_LIMIT :: nat where "REMINDERS_PER_PERSON_LIMIT = 16"
definition REMINDER_EFFECT_KIND :: string where "REMINDER_EFFECT_KIND = ''person_reminder''"
definition REMINDER_MARKER :: string where "REMINDER_MARKER = ''[reminder]''"
definition INVALID_REMINDER :: string where "INVALID_REMINDER = ''INVALID_REMINDER''"
definition REMINDER_LIMIT_REACHED :: string where "REMINDER_LIMIT_REACHED = ''REMINDER_LIMIT_REACHED''"
definition UNKNOWN_REMINDER :: string where "UNKNOWN_REMINDER = ''UNKNOWN_REMINDER''"
definition REMINDER_NOT_IN_SCOPE :: string where "REMINDER_NOT_IN_SCOPE = ''REMINDER_NOT_IN_SCOPE''"

text \<open>The dash of the messages, in UTF-8.\<close>

definition em_dash :: string where "em_dash = [CHR 0xE2, CHR 0x80, CHR 0x94]"

definition recurring_floor_text :: string where
  "recurring_floor_text = ''A recurring reminder must be at least '' @ show_int (MIN_RECURRING_REMINDER_INTERVAL_MS div 1000)
     @ ''s apart. A cadence inside the '' @ show_int (ORGANIZATION_SETTLED_IDLE_STOP_LEASE_MS div 1000)
     @ ''s settle window is a polling loop: every fire delivers a turn, every turn resets the settle countdown, ''
     @ ''so the person can never park and the fleet is held open for as long as the reminder is armed. Arm it at ''
     @ show_int (MIN_RECURRING_REMINDER_INTERVAL_MS div 1000)
     @ ''s or more; if the work genuinely needs a faster loop, it belongs inside one turn rather than in the scheduler.''"

definition ensure_reminder_scope :: "'v organization_manifest \<Rightarrow> string \<Rightarrow> string \<Rightarrow> chiefd_error + unit" where
  "ensure_reminder_scope m actor_person_id target_person_id =
     (if person_is_in_scope m (Actor_Person actor_person_id) target_person_id then Inr ()
      else Inl (refused REMINDER_NOT_IN_SCOPE (quoted actor_person_id @ '' does not manage '' @ quoted target_person_id
        @ '' '' @ em_dash @ '' a reminder may be armed, listed or stopped only for yourself or for someone you manage'')))"

section \<open>The message\<close>

definition format_cadence :: "int \<Rightarrow> string" where
  "format_cadence interval_ms =
     (let minutes = interval_ms sdiv 60000
      in if minutes smod (24 * 60) = 0 then ''every '' @ show_int (minutes sdiv (24 * 60)) @ ''d''
         else if minutes smod 60 = 0 then ''every '' @ show_int (minutes sdiv 60) @ ''h''
         else ''every '' @ show_int minutes @ ''m'')"

definition reminder_message :: "reminder \<Rightarrow> string" where
  "reminder_message r =
     (let cadence = format_cadence (rd_interval_ms r);
          recurrence = (if rd_recurring r
            then ''Recurring '' @ cadence @ ''. Stop it with `org_stop_reminder({ id: '' @ [CHR 0x22] @ rd_id r
              @ [CHR 0x22] @ '' })`.''
            else ''One-shot; it will not fire again.'')
      in REMINDER_MARKER @ [CHR 0x0A, CHR 0x0A] @ trim (rd_prompt r) @ [CHR 0x0A, CHR 0x0A] @ recurrence)"

section \<open>Firing\<close>

record reminder_report =
  rr_fired :: "string list"
  rr_retired :: "string list"

definition reminder_payload :: "reminder \<Rightarrow> (string, json) omap" where
  "reminder_payload r = om_of_list [
     (''personId'', JString (rd_person_id r)),
     (''reminderId'', JString (rd_id r)),
     (''dueAt'', JString (rd_next_due_at r)),
     (''prompt'', JString (rd_prompt r)),
     (''recurring'', JBool (rd_recurring r)),
     (''intervalMs'', JNumber (show_int (rd_interval_ms r))),
     (''message'', JString (reminder_message r))]"

text \<open>The loop that steps over the missed occurrences; \<open>None\<close> is a loop that does not end.\<close>

definition next_occurrence :: "int \<Rightarrow> int \<Rightarrow> int \<Rightarrow> int option" where
  "next_occurrence interval now due = while_option (\<lambda>next. next \<le> now) (\<lambda>next. sat_add_i64 next interval) due"

definition rearm :: "int \<Rightarrow> int \<Rightarrow> reminder \<Rightarrow> (reminder \<times> bool) option" where
  "rearm now due_millis stored =
     (let fired = stored\<lparr>rd_fire_count := sat_add_u64 (rd_fire_count stored) 1, rd_last_fired_at := Some (iso_millis now)\<rparr>
      in if rd_recurring stored
         then (case next_occurrence (max (rd_interval_ms stored) MIN_RECURRING_REMINDER_INTERVAL_MS) now due_millis of
             None \<Rightarrow> None
           | Some next \<Rightarrow>
               (let due = fired\<lparr>rd_next_due_at := iso_millis next\<rparr>;
                    expired = (case Option.bind (rd_expires_at stored) parse_iso_millis of
                      None \<Rightarrow> False | Some expiry \<Rightarrow> expiry \<le> next)
                in Some (if expired then (due\<lparr>rd_status := ''stopped'', rd_stopped_reason := Some ''expired''\<rparr>, True)
                         else (due, False))))
         else Some (fired\<lparr>rd_status := ''stopped'', rd_stopped_reason := Some ''fired''\<rparr>, True))"

definition update_reminder :: "string \<Rightarrow> reminder \<Rightarrow> supervision_draft \<Rightarrow> supervision_draft" where
  "update_reminder i r d = d\<lparr>dr_ledger := (dr_ledger d)\<lparr>sd_reminders := om_put i r (sd_reminders (dr_ledger d))\<rparr>\<rparr>"

text \<open>The pass works on the draft and the report; it answers \<open>None\<close> only where the loop above does.\<close>

type_synonym reminder_pass = "supervision_draft \<times> reminder_report"

definition retire :: "string \<Rightarrow> reminder_report \<Rightarrow> reminder_report" where
  "retire i report = report\<lparr>rr_retired := rr_retired report @ [i]\<rparr>"

definition reminder_effect_id :: "reminder \<Rightarrow> int \<Rightarrow> string" where
  "reminder_effect_id r due_millis = ''person-reminder:'' @ rd_id r @ '':'' @ show_int due_millis"

definition fire_if_due ::
  "int \<Rightarrow> string \<Rightarrow> reminder_pass \<Rightarrow> string \<Rightarrow> (chiefd_error + reminder_pass) option" where
  "fire_if_due now at s i = (case om_get (sd_reminders (dr_ledger (fst s))) i of
     None \<Rightarrow> Some (Inr s)
   | Some r \<Rightarrow>
       if \<not> is_armed r now
       then Some (Inr (if rd_status r = ''active''
         then (update_reminder i (r\<lparr>rd_status := ''stopped'', rd_stopped_reason := Some ''expired''\<rparr>) (fst s), retire i (snd s))
         else s))
       else if now < schedule_due_millis (rd_next_due_at r) then Some (Inr s)
       else
         (let due_millis = (case parse_iso_millis (rd_next_due_at r) of None \<Rightarrow> now | Some d \<Rightarrow> d);
              effect_id = reminder_effect_id r due_millis
          in case enqueue_effect effect_id REMINDER_EFFECT_KIND (reminder_payload r) at (fst s) of
             Inl e \<Rightarrow> Some (Inl e)
           | Inr (d, fresh) \<Rightarrow>
               (let report = (if fresh then (snd s)\<lparr>rr_fired := rr_fired (snd s) @ [effect_id]\<rparr> else snd s)
                in case rearm now due_millis r of
                   None \<Rightarrow> None
                 | Some (stored, over) \<Rightarrow>
                     Some (Inr (update_reminder i stored d, if over then retire i report else report)))))"

fun fire_all ::
  "int \<Rightarrow> string \<Rightarrow> reminder_pass \<Rightarrow> string list \<Rightarrow> (chiefd_error + reminder_pass) option" where
  "fire_all now at s [] = Some (Inr s)"
| "fire_all now at s (i # ids) = (case fire_if_due now at s i of
     None \<Rightarrow> None | Some (Inl e) \<Rightarrow> Some (Inl e) | Some (Inr s') \<Rightarrow> fire_all now at s' ids)"

definition evaluate_reminders_in :: "supervision_draft \<Rightarrow> string \<Rightarrow> (chiefd_error + reminder_pass) option" where
  "evaluate_reminders_in d at =
     (let now = (case parse_iso_millis at of None \<Rightarrow> 0 | Some n \<Rightarrow> n)
      in fire_all now at (d, \<lparr>rr_fired = [], rr_retired = []\<rparr>) (sd_reminder_order (dr_ledger d)))"

text \<open>The command: a pass that does not end is a command that does not end.\<close>

definition evaluate_reminders ::
  "supervision_codec \<Rightarrow> nat \<Rightarrow> 'v organization_manifest \<Rightarrow> ledgers
     \<Rightarrow> (chiefd_error + (ledgers \<times> reminder_report)) option" where
  "evaluate_reminders C ref m l =
     (let at = iso_millis (lg_now l)
      in case read_for_mutation_sup C l of
        Inl e \<Rightarrow> Some (Inl e)
      | Inr current \<Rightarrow>
          (case evaluate_reminders_in \<lparr>dr_ledger = fst (shed_departed current m), dr_touched = []\<rparr> at of
             None \<Rightarrow> None
           | Some answer \<Rightarrow> Some (supervision_mutate C ref m (\<lambda>_ _. answer) l)))"

section \<open>Arming and stopping\<close>

record arm_request =
  ar_person_id :: string
  ar_created_by_person_id :: string
  ar_prompt :: string
  ar_interval_ms :: int
  ar_recurring :: bool
  ar_expires_at :: "string option"

definition arm_terms :: "'v organization_manifest \<Rightarrow> arm_request \<Rightarrow> int \<Rightarrow> chiefd_error + string" where
  "arm_terms m request now =
     (let prompt = trim (ar_prompt request);
          floor = (if ar_recurring request then MIN_RECURRING_REMINDER_INTERVAL_MS else MIN_REMINDER_INTERVAL_MS)
      in if prompt = [] \<or> REMINDER_PROMPT_LIMIT < length prompt
         then Inl (refused INVALID_REMINDER (''Reminder prompt must be 1..='' @ show_nat REMINDER_PROMPT_LIMIT @ '' characters''))
         else if ar_interval_ms request < floor
         then Inl (refused INVALID_REMINDER (if ar_recurring request then recurring_floor_text
           else ''Reminder interval must be at least '' @ show_int (MIN_REMINDER_INTERVAL_MS div 1000)
             @ ''s '' @ em_dash @ '' anything faster is a poll''))
         else (case ar_expires_at request of
             None \<Rightarrow> Inr prompt
           | Some stamp \<Rightarrow> (case parse_iso_millis stamp of
                None \<Rightarrow> Inl (refused INVALID_REMINDER ''Reminder expiry is not an ISO-8601 timestamp'')
              | Some expiry \<Rightarrow>
                  if expiry \<le> now then Inl (refused INVALID_REMINDER ''Reminder expiry is already in the past'')
                  else Inr prompt)))"

definition check_known :: "'v organization_manifest \<Rightarrow> unit \<Rightarrow> string \<Rightarrow> chiefd_error + unit" where
  "check_known m u pid =
     (if person m pid = None then Inl (refused INVALID_REMINDER (''Unknown person '' @ quoted pid)) else Inr ())"

definition reminders_in_order :: "supervision_ledger \<Rightarrow> reminder list" where
  "reminders_in_order l = List.map_filter (om_get (sd_reminders l)) (sd_reminder_order l)"

definition same_reminder :: "arm_request \<Rightarrow> string \<Rightarrow> reminder \<Rightarrow> bool" where
  "same_reminder request prompt r \<longleftrightarrow> rd_status r = ''active'' \<and> rd_person_id r = ar_person_id request
     \<and> rd_created_by_person_id r = ar_created_by_person_id request \<and> rd_prompt r = prompt
     \<and> rd_interval_ms r = ar_interval_ms request \<and> rd_recurring r = ar_recurring request
     \<and> rd_expires_at r = ar_expires_at request"

definition armed_for :: "supervision_ledger \<Rightarrow> string \<Rightarrow> nat" where
  "armed_for l pid = length (filter (\<lambda>r. rd_person_id r = pid \<and> rd_status r = ''active'') (reminders_in_order l))"

definition next_reminder_id :: "supervision_ledger \<Rightarrow> string \<Rightarrow> string" where
  "next_reminder_id l person_id =
     (let prefix = ''reminder:'' @ person_id @ '':'';
          highest = foldl max 0 (List.map_filter (\<lambda>i. Option.bind (strip_prefix i prefix) parse_u64) (sd_reminder_order l))
      in prefix @ show_nat (sat_add_u64 highest 1))"

definition new_reminder :: "string \<Rightarrow> arm_request \<Rightarrow> string \<Rightarrow> int \<Rightarrow> string \<Rightarrow> reminder" where
  "new_reminder i request prompt now at = \<lparr>rd_id = i, rd_person_id = ar_person_id request,
     rd_created_by_person_id = ar_created_by_person_id request, rd_prompt = prompt,
     rd_interval_ms = ar_interval_ms request,
     rd_next_due_at = iso_millis (sat_add_i64 now (ar_interval_ms request)), rd_status = ''active'',
     rd_recurring = ar_recurring request, rd_fire_count = 0, rd_created_at = at, rd_last_fired_at = None,
     rd_expires_at = ar_expires_at request, rd_stopped_reason = None, rd_stopped_at = None, rd_extra = []\<rparr>"

definition add_reminder :: "string \<Rightarrow> reminder \<Rightarrow> supervision_draft \<Rightarrow> supervision_draft" where
  "add_reminder i r d = d\<lparr>dr_ledger := (dr_ledger d)
     \<lparr>sd_reminder_order := sd_reminder_order (dr_ledger d) @ [i], sd_reminders := om_put i r (sd_reminders (dr_ledger d))\<rparr>\<rparr>"

definition arm_reminder_in :: "'v organization_manifest \<Rightarrow> arm_request \<Rightarrow> reminder supervision_closure" where
  "arm_reminder_in m request d at =
     (let now = (case parse_iso_millis at of None \<Rightarrow> 0 | Some n \<Rightarrow> n)
      in res_bind (arm_terms m request now) (\<lambda>prompt.
         res_bind (res_fold (check_known m) () [ar_person_id request, ar_created_by_person_id request]) (\<lambda>_.
         res_bind (ensure_reminder_scope m (ar_created_by_person_id request) (ar_person_id request)) (\<lambda>_.
           case find (same_reminder request prompt) (reminders_in_order (dr_ledger d)) of
             Some existing \<Rightarrow> Inr (d, existing)
           | None \<Rightarrow>
               if REMINDERS_PER_PERSON_LIMIT \<le> armed_for (dr_ledger d) (ar_person_id request)
               then Inl (refused REMINDER_LIMIT_REACHED (quoted (ar_person_id request) @ '' already has ''
                 @ show_nat REMINDERS_PER_PERSON_LIMIT @ '' reminders armed''))
               else (let i = next_reminder_id (dr_ledger d) (ar_person_id request);
                         r = new_reminder i request prompt now at
                     in Inr (add_reminder i r d, r))))))"

definition stop_reminder_in ::
  "'v organization_manifest \<Rightarrow> string \<Rightarrow> string \<Rightarrow> string \<Rightarrow> reminder supervision_closure" where
  "stop_reminder_in m actor_person_id person_id reminder_id d at =
     res_bind (ensure_reminder_scope m actor_person_id person_id) (\<lambda>_.
       case om_get (sd_reminders (dr_ledger d)) reminder_id of
         None \<Rightarrow> Inl (refused UNKNOWN_REMINDER (''No reminder '' @ quoted reminder_id @ '' for '' @ quoted person_id))
       | Some r \<Rightarrow>
           if rd_person_id r \<noteq> person_id
           then Inl (refused UNKNOWN_REMINDER (''No reminder '' @ quoted reminder_id @ '' for '' @ quoted person_id))
           else (let r' = (if rd_status r = ''active''
                   then r\<lparr>rd_status := ''stopped'', rd_stopped_reason := Some ''stopped'', rd_stopped_at := Some at\<rparr> else r)
                 in Inr (update_reminder reminder_id r' d, r')))"

definition arm_reminder where
  "arm_reminder C ref m request = supervision_mutate C ref m (arm_reminder_in m request)"

definition stop_reminder where
  "stop_reminder C ref m actor_person_id person_id reminder_id =
     supervision_mutate C ref m (stop_reminder_in m actor_person_id person_id reminder_id)"

definition list_reminders :: "supervision_ledger \<Rightarrow> string \<Rightarrow> reminder list" where
  "list_reminders l person_id = sort_key (\<lambda>r. if rd_status r \<noteq> ''active'' then 1 else 0 :: nat)
     (filter (\<lambda>r. rd_person_id r = person_id) (reminders_in_order l))"

definition armed_count :: "supervision_ledger \<Rightarrow> int \<Rightarrow> nat" where
  "armed_count l now = length (filter (\<lambda>r. is_armed r now) (reminders_in_order l))"

definition next_due_at :: "supervision_ledger \<Rightarrow> int \<Rightarrow> int option" where
  "next_due_at l now = (case List.map_filter (\<lambda>r. parse_iso_millis (rd_next_due_at r))
       (filter (\<lambda>r. is_armed r now) (reminders_in_order l)) of
     [] \<Rightarrow> None | d # ds \<Rightarrow> Some (foldl min d ds))"

end
