(* ===== verification/Supervision_Commands.thy ===== *)
theory Supervision_Commands
  imports Supervision_Contract Reminders
begin

text \<open>
  Every command of the supervision store keeps the contract of a draft, so each is a transaction: the
  effects, the reminders and the cycle.
\<close>

section \<open>Payloads\<close>

lemma om_of_list_mem: "e \<in> set (om_of_list es) \<Longrightarrow> e \<in> set es"
proof -
  have put: "set (om_put k v m) \<subseteq> insert (k, v) (set m)" for k :: "'a::linorder" and v :: 'b and m
    by (induction m) auto
  have "set (foldl (\<lambda>m e. om_put (fst e) (snd e) m) m es) \<subseteq> set m \<union> set es" for m :: "('a \<times> 'b) list"
  proof (induction es arbitrary: m)
    case (Cons e es)
    show ?case using Cons.IH[of "om_put (fst e) (snd e) m"] put[of "fst e" "snd e" m] by auto
  qed simp
  from this[of "[]"] show "e \<in> set (om_of_list es) \<Longrightarrow> e \<in> set es" by (auto simp: om_of_list_def)
qed

lemma om_wf_of_list: "om_wf (om_of_list es)"
proof -
  have "om_wf m \<Longrightarrow> om_wf (foldl (\<lambda>m e. om_put (fst e) (snd e) m) m es)" for m :: "('a \<times> 'b) list"
    by (induction es arbitrary: m) (simp_all add: om_wf_put)
  then show ?thesis by (simp add: om_of_list_def)
qed

lemma flat_beside_of_list:
  assumes "\<forall>e \<in> set es. fst e \<notin> set own \<and> json_wf (snd e)"
  shows "flat_beside own (om_of_list es)"
  using assms om_of_list_mem[of _ es] by (auto simp: flat_beside_def om_wf_of_list)

lemma reminder_payload_wire: "flat_beside effect_keys (reminder_payload r)"
  unfolding reminder_payload_def by (rule flat_beside_of_list) (simp add: effect_keys_def json_wf_simps)

lemma escalation_payload_wire: "flat_beside effect_keys (reconcile_escalation_payload slug reason detail)"
  unfolding reconcile_escalation_payload_def
  by (rule flat_beside_of_list) (simp add: effect_keys_def json_wf_simps)

section \<open>The primitive changes\<close>

lemma effect_of_update [simp]:
  "effect_of (dr_ledger (touch_effect k d)) = effect_of (dr_ledger d)"
  "effect_of (dr_ledger (update_effect i e d)) k = (if k = i then Some e else effect_of (dr_ledger d) k)"
  by (simp_all add: touch_effect_def update_effect_def effect_of_def store_simps)

lemma touched_update [simp]:
  "set (dr_touched (touch_effect i d)) = insert i (set (dr_touched d))"
  "dr_ledger (touch_effect i d) = dr_ledger d"
  "dr_touched (update_effect i e d) = dr_touched d"
  by (simp_all add: touch_effect_def update_effect_def)

lemma update_moves:
  assumes "effect_of (dr_ledger d) i = Some e" "effect_moves e e'" "effect_wire e \<Longrightarrow> effect_wire e'"
  shows "draft_moves d (touch_effect i (update_effect i e' d))"
proof -
  have "effects_move (dr_ledger d) (dr_ledger (update_effect i e' d))"
    using assms(1,2) by (auto simp: effects_move_def split: option.splits)
  moreover have "sup_wire (dr_ledger (update_effect i e' d))" if "sup_wire (dr_ledger d)"
    using that assms(1,3) by (simp add: sup_wire_def) (simp add: update_effect_def om_wf_put document_wire_def)
  moreover have "touches_what_it_changes d (touch_effect i (update_effect i e' d))"
    by (auto simp: touches_what_it_changes_def)
  ultimately show ?thesis
    by (simp add: draft_moves_def same_company_def) (simp add: update_effect_def)
qed

lemma reopened_moves:
  assumes "fx_status e = Effect_Failed" "count_of (fx_reopen_count e) < SUPERVISION_EFFECT_REOPEN_LIMIT"
  shows "effect_moves e (reopened at e)" "effect_moves e ((reopened at e)\<lparr>fx_payload := payload\<rparr>)"
    "effect_good e \<Longrightarrow> effect_attempts (reopened at e) = effect_attempts e"
  using assms
  by (auto simp: effect_moves_def reopened_def effect_good_def effect_attempts_def count_of_def sat_add_u32_def
      u32_max_def SUPERVISION_EFFECT_REOPEN_LIMIT_def SUPERVISION_EFFECT_DELIVERY_ATTEMPT_LIMIT_def)

lemma failed_moves:
  assumes "fx_status e = Effect_Pending"
  shows "effect_moves e (failed_once at e)"
    "effect_good e \<Longrightarrow> effect_attempts (failed_once at e) = Suc (effect_attempts e)"
  using assms
  by (auto simp: effect_moves_def failed_once_def effect_good_def effect_attempts_def count_of_def sat_add_u32_def
      u32_max_def Let_def SUPERVISION_EFFECT_REOPEN_LIMIT_def SUPERVISION_EFFECT_DELIVERY_ATTEMPT_LIMIT_def)

lemma payload_kept [simp]:
  "fx_payload (reopened at e) = fx_payload e" "fx_payload (failed_once at e) = fx_payload e"
  by (simp_all add: reopened_def failed_once_def Let_def)

lemma delivered_moves:
  "fx_status e = Effect_Pending \<Longrightarrow> effect_moves e (e\<lparr>fx_status := Effect_Delivered, fx_delivered_at := at\<rparr>)"
  by (simp add: effect_moves_def effect_good_def effect_attempts_def)

lemma enqueue_effect_moves:
  assumes "enqueue_effect i kind payload at d = Inr (d', fresh)" "flat_beside effect_keys payload"
  shows "draft_moves d d'"
proof (cases "effect_of (dr_ledger d) i")
  case (Some e)
  then show ?thesis using assms(1) by (simp add: enqueue_effect_def split: if_splits)
next
  case None
  let ?e = "new_effect i (su_next_effect_sequence (dr_ledger d)) kind payload at"
  have get: "effect_of (dr_ledger d') k = (if k = i then Some ?e else effect_of (dr_ledger d) k)" for k
    using assms(1) None by (auto simp: enqueue_effect_def Let_def effect_of_def store_simps)
  have "effects_move (dr_ledger d) (dr_ledger d')"
    using None get by (auto simp: effects_move_def new_effect_def effect_good_def count_of_def
        SUPERVISION_EFFECT_DELIVERY_ATTEMPT_LIMIT_def split: option.splits)
  moreover have "touches_what_it_changes d d'"
    unfolding touches_what_it_changes_def get using assms(1) None by (auto simp: enqueue_effect_def Let_def)
  moreover have "sup_wire (dr_ledger d')" if "sup_wire (dr_ledger d)"
    unfolding sup_wire_def get using that assms None
    by (auto simp: enqueue_effect_def Let_def sup_wire_def om_wf_put document_wire_def effect_wire_def new_effect_def)
  moreover have "same_company (dr_ledger d) (dr_ledger d')"
    using assms(1) None by (auto simp: enqueue_effect_def Let_def same_company_def)
  ultimately show ?thesis by (simp add: draft_moves_def)
qed

section \<open>The commands\<close>

lemma apply_effect_delivered_moves: "draft_moves d (fst (apply_effect_delivered i at d))"
  by (auto simp: apply_effect_delivered_def delivered_moves effect_wire_def intro!: update_moves split: option.splits)

lemma deliver_all_moves: "draft_moves d (fst (foldl (deliver_one at) (d, done) ids))"
proof (induction ids arbitrary: d "done")
  case (Cons i ids)
  show ?case
    using draft_moves_trans[OF apply_effect_delivered_moves Cons.IH] by (simp add: deliver_one_def Let_def)
qed simp

interpretation marking: supervision_command "mark_delivered_in ids" for ids
proof
  fix d at d' r assume "mark_delivered_in ids d at = Inr (d', r)"
  then have "d' = fst (foldl (deliver_one at) (d, []) ids)" by (simp add: mark_delivered_in_def)
  then show "draft_moves d d'" by (simp add: deliver_all_moves)
qed

interpretation failing: supervision_command "record_delivery_failure_in i" for i
proof
  fix d at d' r assume "record_delivery_failure_in i d at = Inr (d', r)"
  then show "draft_moves d d'"
    by (auto simp: record_delivery_failure_in_def failed_moves effect_wire_def
        intro!: update_moves split: option.splits if_splits)
qed

lemma reopen_all_moves:
  assumes "\<forall>i \<in> set ids. reopenable (dr_ledger d) i" "distinct ids"
  shows "draft_moves d (foldl (reopen_one at) d ids)"
  using assms
proof (induction ids arbitrary: d)
  case (Cons i ids)
  obtain e where e: "effect_of (dr_ledger d) i = Some e" "fx_status e = Effect_Failed"
      "count_of (fx_reopen_count e) < SUPERVISION_EFFECT_REOPEN_LIMIT"
    using Cons.prems(1) by (auto simp: reopenable_def split: option.splits)
  then have "draft_moves d (reopen_one at d i)"
    by (simp add: reopen_one_def) (rule update_moves, auto simp: reopened_moves effect_wire_def)
  moreover have "\<forall>k \<in> set ids. reopenable (dr_ledger (reopen_one at d i)) k"
    using Cons.prems e(1) by (auto simp: reopenable_def reopen_one_def)
  ultimately show ?case using Cons draft_moves_trans by fastforce
qed simp

interpretation reopening: supervision_command reopen_failed_effects_in
proof
  fix d at d' r
  assume "distinct (su_effect_order (dr_ledger d))" "reopen_failed_effects_in d at = Inr (d', r)"
  then show "draft_moves d d'"
    using reopen_all_moves[of "filter (reopenable (dr_ledger d)) (su_effect_order (dr_ledger d))" d at]
    by (auto simp: reopen_failed_effects_in_def Let_def)
qed

interpretation escalating: supervision_command "enqueue_reconcile_escalation m i reason detail" for m i reason detail
proof
  fix d at d' r assume r: "enqueue_reconcile_escalation m i reason detail d at = Inr (d', r)"
  show "draft_moves d d'"
  proof (cases "effect_of (dr_ledger d) i")
    case None
    with r show ?thesis
      by (auto simp: enqueue_reconcile_escalation_def Let_def escalation_payload_wire intro: enqueue_effect_moves)
  next
    case (Some e)
    with r show ?thesis
      by (auto simp: enqueue_reconcile_escalation_def Let_def reopened_moves escalation_payload_wire effect_wire_def
          intro!: update_moves split: if_splits)
  qed
qed

interpretation cycling: supervision_command "cycle_in input" for input
  by unfold_locales (auto simp: cycle_in_def)

subsection \<open>Reminders\<close>

lemma reminders_move:
  assumes "dr_touched d' = dr_touched d" "su_effects (dr_ledger d') = su_effects (dr_ledger d)"
    "same_company (dr_ledger d) (dr_ledger d')" "document_wire (dr_ledger d) \<Longrightarrow> document_wire (dr_ledger d')"
  shows "draft_moves d d'"
proof -
  have "effect_of (dr_ledger d') = effect_of (dr_ledger d)" using assms(2) by (simp add: effect_of_def fun_eq_iff)
  then show ?thesis
    using assms by (simp add: draft_moves_def touches_what_it_changes_def effects_move_def sup_wire_def split: option.splits)
qed

lemma update_reminder_moves:
  assumes "flat_beside reminder_keys (rd_extra r)"
  shows "draft_moves d (update_reminder i r d)"
  by (rule reminders_move) (use assms in \<open>auto simp: update_reminder_def same_company_def document_wire_def om_wf_put store_simps\<close>)

lemma update_known_reminder_moves:
  assumes "om_get (sd_reminders (dr_ledger d)) i = Some r" "rd_extra r' = rd_extra r"
  shows "draft_moves d (update_reminder i r' d)"
  by (rule reminders_move)
    (use assms in \<open>auto simp: update_reminder_def same_company_def document_wire_def om_wf_put store_simps\<close>)

interpretation arming: supervision_command "arm_reminder_in m request" for m request
proof
  fix d at d' r assume r: "arm_reminder_in m request d at = Inr (d', r)"
  have "draft_moves d (add_reminder i (new_reminder i request prompt now at) d)" for i prompt now
    by (rule reminders_move)
      (auto simp: add_reminder_def new_reminder_def same_company_def document_wire_def om_wf_put store_simps flat_beside_def)
  then show "draft_moves d d'"
    using r by (auto simp: arm_reminder_in_def Let_def res_bind_Inr_iff split: option.splits if_splits)
qed

interpretation stopping: supervision_command "stop_reminder_in m actor pid i" for m actor pid i
proof
  fix d at d' r assume r: "stop_reminder_in m actor pid i d at = Inr (d', r)"
  then show "draft_moves d d'"
    by (auto simp: stop_reminder_in_def Let_def res_bind_Inr_iff intro!: update_known_reminder_moves
        split: option.splits if_splits)
qed

end
