(* ===== verification/Reminders_Contract.thy ===== *)
theory Reminders_Contract
  imports Supervision_Commands
begin

text \<open>
  What the reminder pass promises: it ends, it fires exactly what is due, once, and re-arms what recurs
  after the present instant, so a second pass at the same instant does nothing.
\<close>

section \<open>The pass ends\<close>

lemma dec_val_less: "list_all is_ascii_digit s \<Longrightarrow> dec_val a s < (a + 1) * 10 ^ length s"
proof (induction s arbitrary: a)
  case (Cons c s)
  then have d: "is_ascii_digit c" and s: "list_all is_ascii_digit s" by simp_all
  from d have c: "byte c \<le> 57" by (simp add: is_ascii_digit_def)
  have "dec_val a (c # s) = dec_val (10 * a + (byte c - 48)) s" by (simp add: dec_val_def)
  also have "\<dots> < (10 * a + (byte c - 48) + 1) * 10 ^ length s" using Cons.IH s by blast
  also have "\<dots> \<le> (10 * a + 10) * 10 ^ length s" using c by (intro mult_le_mono1) linarith
  finally show ?case by (simp add: algebra_simps)
qed (simp add: dec_val_def)

lemma parse_i64_below: "parse_i64 s = Some v \<Longrightarrow> length s = k \<Longrightarrow> v < 10 ^ k"
proof -
  assume v: "parse_i64 s = Some v" and k: "length s = k"
  then obtain ds n where d: "parse_digits ds = Some n" "length ds \<le> k" "v \<le> int n"
    by (auto simp: parse_i64_def Let_def split: list.splits option.splits if_splits)
  then have "n < 1 * 10 ^ length ds"
    using dec_val_less[of ds 0] by (auto simp: parse_digits_def dec_val_def[symmetric] split: if_splits)
  also have "(10::nat) ^ length ds \<le> 10 ^ k" using d(2) by (simp add: power_increasing)
  finally have "int n < 10 ^ k" by (metis of_nat_less_iff of_nat_numeral of_nat_power nat_mult_1)
  with d(3) show ?thesis by linarith
qed

lemma days_from_civil_below:
  assumes "year < 10000" "1 \<le> month" "month \<le> 12" "day \<le> 31"
  shows "days_from_civil year month day < 4000000"
proof -
  define y where "y = (if month \<le> 2 then year - 1 else year)"
  define mp where "mp = (if month > 2 then month - 3 else month + 9)"
  have y: "y < 10000" using assms(1) by (simp add: y_def)
  have mp: "mp \<le> 11" using assms(3) by (simp add: mp_def)
  define q where "q = y - y div 400 * 400"
  have "days_from_civil year month day = (y div 400) * 146097
      + (q * 365 + q div 4 - q div 100 + ((153 * mp + 2) div 5 + day - 1)) - 719468"
    by (simp add: days_from_civil_def Let_def y_def mp_def q_def)
  moreover have "y div 400 \<le> 24" using y by linarith
  moreover have "q \<le> 399" "0 \<le> q" unfolding q_def by linarith+
  moreover from this have "q div 4 \<le> 99" "0 \<le> q div 100" by linarith+
  moreover have "(153 * mp + 2) div 5 \<le> 337" using mp by linarith
  ultimately show ?thesis using assms(4) by linarith
qed

lemma str_get_length: "str_get s a b = Some t \<Longrightarrow> length t = b - a"
  by (auto simp: str_get_def is_char_boundary_def split: if_splits)

lemma fraction_millis_below: "fraction_millis s = Some v \<Longrightarrow> v < 1000"
proof -
  assume v: "fraction_millis s = Some v"
  show ?thesis
  proof (cases "s = []")
    case False
    then obtain digits w where d: "length digits \<le> 3" "digits \<noteq> []" "parse_i64 digits = Some w"
        "v = w * 10 ^ (3 - length digits)"
      using v that by (auto simp: fraction_millis_def not_less split: option.splits if_splits Option.bind_splits)
    have "w < 10 ^ length digits" by (rule parse_i64_below[OF d(3) refl])
    then have "v < 10 ^ length digits * 10 ^ (3 - length digits)" unfolding d(4) by (rule mult_strict_right_mono) simp
    also have "\<dots> = 10 ^ 3" using d(1) by (simp flip: power_add)
    finally show ?thesis by simp
  qed (use v in \<open>simp add: fraction_millis_def\<close>)
qed

text \<open>A stamp that parses is far from the end of the \<open>i64\<close> milliseconds.\<close>

lemma parse_iso_millis_below: "parse_iso_millis text = Some t \<Longrightarrow> t < i64_max"
proof -
  assume t: "parse_iso_millis text = Some t"
  from t obtain y year month day hour minute secs millis where
    p: "str_get text 0 4 = Some y" "parse_i64 y = Some year" "1 \<le> month" "month \<le> 12" "day \<le> 31" "hour \<le> 23"
      "minute \<le> 59" "secs \<le> 60" "fraction_millis (take (length text - 20) (drop 19 text)) = Some millis"
      "t = days_from_civil year month day * 86400000 + hour * 3600000 + minute * 60000 + secs * 1000 + millis"
    by (auto simp: parse_iso_millis_def not_less split: if_splits Option.bind_splits)
  have "year < 10 ^ 4" by (rule parse_i64_below[OF p(2)]) (use str_get_length[OF p(1)] in simp)
  then have "days_from_civil year month day < 4000000" by (intro days_from_civil_below) (use p in simp_all)
  moreover have "millis < 1000" by (rule fraction_millis_below[OF p(9)])
  ultimately show ?thesis using p(6-8,10) by (simp add: i64_max_def)
qed

lemma next_occurrence_returns:
  assumes "0 < interval" "now < i64_max"
  obtains n where "next_occurrence interval now due = Some n" "now < n"
    "n \<le> max due (max i64_min (now + interval))"
proof -
  let ?P = "\<lambda>s. s \<le> max due (max i64_min (now + interval))"
  have "\<exists>n. while_option (\<lambda>s. s \<le> now) (\<lambda>s. sat_add_i64 s interval) due = Some n"
    by (rule measure_while_option_Some[of "\<lambda>_. True" _ _ "\<lambda>s. nat (i64_max - s)"])
      (use assms in \<open>auto simp: sat_add_i64_def clamp_i64_def i64_max_def i64_min_def\<close>)
  then obtain n where n: "while_option (\<lambda>s. s \<le> now) (\<lambda>s. sat_add_i64 s interval) due = Some n" by blast
  moreover have "now < n" using while_option_stop[OF n] by simp
  moreover have "?P n"
    by (rule while_option_rule[OF _ n]) (use assms(1) in \<open>auto simp: sat_add_i64_def clamp_i64_def i64_max_def i64_min_def\<close>)
  ultimately show thesis using that by (simp add: next_occurrence_def)
qed

lemma recurring_interval_pos: "0 < max (interval :: int) MIN_RECURRING_REMINDER_INTERVAL_MS"
  by (simp add: MIN_RECURRING_REMINDER_INTERVAL_MS_def ORGANIZATION_SETTLED_IDLE_STOP_LEASE_MS_def less_max_iff_disj)

lemma rearm_returns:
  assumes "now < i64_max"
  shows "\<exists>kept over. rearm now due r = Some (kept, over)"
proof (cases "rd_recurring r")
  case True
  obtain n where "next_occurrence (max (rd_interval_ms r) MIN_RECURRING_REMINDER_INTERVAL_MS) now due = Some n"
    using next_occurrence_returns[OF recurring_interval_pos assms] by blast
  with True show ?thesis by (simp add: rearm_def Let_def)
next
  case False
  then show ?thesis by (simp only: rearm_def Let_def if_False) blast
qed

definition due_instant :: "int \<Rightarrow> reminder \<Rightarrow> int" where
  "due_instant now r = (case parse_iso_millis (rd_next_due_at r) of None \<Rightarrow> now | Some d \<Rightarrow> d)"

text \<open>One reminder of the pass, by what it is: absent, over, not due or due.\<close>

lemma fire_absent: "om_get (sd_reminders (dr_ledger d)) i = None \<Longrightarrow> fire_if_due now at (d, rep) i = Some (Inr (d, rep))"
  by (simp add: fire_if_due_def)

lemma fire_unarmed:
  assumes "om_get (sd_reminders (dr_ledger d)) i = Some r" "\<not> is_armed r now"
  shows "fire_if_due now at (d, rep) i = Some (Inr (if rd_status r = ''active''
    then (update_reminder i (r\<lparr>rd_status := ''stopped'', rd_stopped_reason := Some ''expired''\<rparr>) d, retire i rep) else (d, rep)))"
  using assms by (simp add: fire_if_due_def)

lemma fire_early:
  assumes "om_get (sd_reminders (dr_ledger d)) i = Some r" "is_armed r now" "now < schedule_due_millis (rd_next_due_at r)"
  shows "fire_if_due now at (d, rep) i = Some (Inr (d, rep))"
  using assms by (simp add: fire_if_due_def)

lemma fire_due:
  assumes "om_get (sd_reminders (dr_ledger d)) i = Some r" "is_armed r now"
    "\<not> now < schedule_due_millis (rd_next_due_at r)" "rearm now (due_instant now r) r = Some (kept, over)"
  shows "fire_if_due now at (d, rep) i =
    (case enqueue_effect (reminder_effect_id r (due_instant now r)) REMINDER_EFFECT_KIND (reminder_payload r) at d of
       Inl e \<Rightarrow> Some (Inl e)
     | Inr (d', fresh) \<Rightarrow>
        (let rep' = (if fresh then rep\<lparr>rr_fired := rr_fired rep @ [reminder_effect_id r (due_instant now r)]\<rparr> else rep)
         in Some (Inr (update_reminder i kept d', if over then retire i rep' else rep'))))"
  using assms by (simp add: fire_if_due_def Let_def due_instant_def[symmetric] split: sum.splits)

lemma fire_if_due_returns:
  assumes "now < i64_max"
  shows "fire_if_due now at s i \<noteq> None"
proof (cases s)
  case (Pair d rep)
  show ?thesis
  proof (cases "om_get (sd_reminders (dr_ledger d)) i")
    case (Some r)
    obtain kept over where r: "rearm now (due_instant now r) r = Some (kept, over)"
      using rearm_returns[OF assms] by blast
    show ?thesis unfolding Pair
      by (cases "is_armed r now"; cases "now < schedule_due_millis (rd_next_due_at r)")
        (simp_all add: fire_unarmed[OF Some] fire_early[OF Some] fire_due[OF Some _ _ r] Let_def split: sum.split prod.split)
  qed (simp add: Pair fire_absent)
qed

lemma fire_all_returns: "now < i64_max \<Longrightarrow> fire_all now at s ids \<noteq> None"
proof (induction ids arbitrary: s)
  case (Cons i ids)
  with fire_if_due_returns[of now at s i] show ?case by (auto split: option.splits sum.splits)
qed simp

definition pass_instant :: "string \<Rightarrow> int" where
  "pass_instant at = (case parse_iso_millis at of None \<Rightarrow> 0 | Some n \<Rightarrow> n)"

lemma pass_instant_below: "pass_instant at < i64_max"
  using parse_iso_millis_below by (auto simp: pass_instant_def i64_max_def split: option.splits)

lemma pass_returns: "evaluate_reminders_in d at \<noteq> None"
  using fire_all_returns[OF pass_instant_below, of at at] by (simp add: evaluate_reminders_in_def pass_instant_def)

text \<open>The pass as a closure, so that the command is a transaction.\<close>

definition pass_closure :: "reminder_report supervision_closure" where
  "pass_closure d at = the (evaluate_reminders_in d at)"

lemma evaluate_is_a_transaction:
  "evaluate_reminders C ref m l = Some (supervision_mutate C ref m pass_closure l)"
proof (cases "read_for_mutation_sup C l")
  case (Inr current)
  let ?d = "\<lparr>dr_ledger = fst (shed_departed current m), dr_touched = []\<rparr>"
  obtain a where "evaluate_reminders_in ?d (iso_millis (lg_now l)) = Some a" using pass_returns by blast
  with Inr show ?thesis by (simp add: evaluate_reminders_def supervision_mutate_def pass_closure_def Let_def)
qed (simp add: evaluate_reminders_def supervision_mutate_def Let_def)

section \<open>What one pass does\<close>

definition reminder_terms :: "reminder \<Rightarrow> string \<times> string \<times> string \<times> int \<times> bool" where
  "reminder_terms r = (rd_id r, rd_person_id r, rd_created_by_person_id r, rd_interval_ms r, rd_recurring r)"

lemma rearm_keeps:
  assumes "rearm now due r = Some (kept, over)"
  shows "rd_extra kept = rd_extra r" "reminder_terms kept = reminder_terms r"
  using assms by (auto simp: reminder_terms_def rearm_def Let_def split: if_splits option.splits)

definition fires :: "int \<Rightarrow> supervision_ledger \<Rightarrow> string \<Rightarrow> bool" where
  "fires now L i \<longleftrightarrow> (case om_get (sd_reminders L) i of None \<Rightarrow> False
     | Some r \<Rightarrow> is_armed r now \<and> \<not> now < schedule_due_millis (rd_next_due_at r))"

definition fired_id :: "int \<Rightarrow> supervision_ledger \<Rightarrow> string \<Rightarrow> string" where
  "fired_id now L i = (case om_get (sd_reminders L) i of None \<Rightarrow> [] | Some r \<Rightarrow> reminder_effect_id r (due_instant now r))"

definition fired_effect :: "int \<Rightarrow> supervision_ledger \<Rightarrow> string \<Rightarrow> effect \<Rightarrow> bool" where
  "fired_effect now L i e \<longleftrightarrow> fx_id e = fired_id now L i \<and> fx_kind e = REMINDER_EFFECT_KIND \<and> fx_status e = Effect_Pending
     \<and> fx_delivery_failure_count e = None \<and> fx_reopen_count e = None
     \<and> map_option reminder_payload (om_get (sd_reminders L) i) = Some (fx_payload e)"

definition newly :: "int \<Rightarrow> supervision_ledger \<Rightarrow> string \<Rightarrow> bool" where
  "newly now L i \<longleftrightarrow> fires now L i \<and> effect_of L (fired_id now L i) = None"

lemma update_reminder_get [simp]:
  "om_get (sd_reminders (dr_ledger (update_reminder i r d))) k = (if k = i then Some r else om_get (sd_reminders (dr_ledger d)) k)"
  "sd_reminder_order (dr_ledger (update_reminder i r d)) = sd_reminder_order (dr_ledger d)"
  "effect_of (dr_ledger (update_reminder i r d)) = effect_of (dr_ledger d)"
  "dr_touched (update_reminder i r d) = dr_touched d"
  "su_effect_order (dr_ledger (update_reminder i r d)) = su_effect_order (dr_ledger d)"
  by (simp_all add: update_reminder_def store_simps effect_of_def fun_eq_iff)

lemma enqueue_effect_does:
  assumes "enqueue_effect i kind payload at d = Inr (d', fresh)"
  shows "fresh \<longleftrightarrow> effect_of (dr_ledger d) i = None"
    "sd_reminders (dr_ledger d') = sd_reminders (dr_ledger d)"
    "sd_reminder_order (dr_ledger d') = sd_reminder_order (dr_ledger d)"
    "effect_of (dr_ledger d') k = (if k = i \<and> fresh then
       Some (new_effect i (su_next_effect_sequence (dr_ledger d)) kind payload at) else effect_of (dr_ledger d) k)"
  using assms
  by (auto simp: enqueue_effect_def Let_def touch_effect_def effect_of_def store_simps split: option.splits if_splits)

lemma retire_fired [simp]: "rr_fired (retire i rep) = rr_fired rep"
  by (simp add: retire_def)

lemma fire_step:
  assumes "fire_if_due now at (d, rep) i = Some (Inr (d', rep'))" "now < i64_max"
  defines "L \<equiv> dr_ledger d" and "L' \<equiv> dr_ledger d'"
  shows "sd_reminder_order L' = sd_reminder_order L" "k \<noteq> i \<Longrightarrow> om_get (sd_reminders L') k = om_get (sd_reminders L) k"
    "rr_fired rep' = rr_fired rep @ (if newly now L i then [fired_id now L i] else [])"
    "newly now L i \<Longrightarrow> \<exists>e. effect_of L' (fired_id now L i) = Some e \<and> fired_effect now L i e"
    "\<not> (newly now L i \<and> k = fired_id now L i) \<Longrightarrow> effect_of L' k = effect_of L k"
    "fires now L i \<Longrightarrow> effect_of L' (fired_id now L i) \<noteq> None"
    "draft_moves d d'"
    "map_option reminder_terms (om_get (sd_reminders L') k) = map_option reminder_terms (om_get (sd_reminders L) k)"
proof -
  let ?all = "sd_reminder_order L' = sd_reminder_order L
    \<and> (\<forall>k. k \<noteq> i \<longrightarrow> om_get (sd_reminders L') k = om_get (sd_reminders L) k)
    \<and> rr_fired rep' = rr_fired rep @ (if newly now L i then [fired_id now L i] else [])
    \<and> (newly now L i \<longrightarrow> (\<exists>e. effect_of L' (fired_id now L i) = Some e \<and> fired_effect now L i e))
    \<and> (\<forall>k. \<not> (newly now L i \<and> k = fired_id now L i) \<longrightarrow> effect_of L' k = effect_of L k)
    \<and> (fires now L i \<longrightarrow> effect_of L' (fired_id now L i) \<noteq> None)
    \<and> draft_moves d d'
    \<and> (\<forall>k. map_option reminder_terms (om_get (sd_reminders L') k) = map_option reminder_terms (om_get (sd_reminders L) k))"
  have ?all
  proof (cases "om_get (sd_reminders L) i")
    case None
    then show ?thesis using assms(1) by (auto simp: fire_absent L_def L'_def newly_def fires_def)
  next
    case (Some r)
    note some = Some[unfolded L_def]
    consider (over) "\<not> is_armed r now" | (early) "is_armed r now" "now < schedule_due_millis (rd_next_due_at r)"
      | (due) "is_armed r now" "\<not> now < schedule_due_millis (rd_next_due_at r)" by blast
    then show ?thesis
    proof cases
      case over
      then have "\<not> fires now L i" by (simp add: fires_def Some)
      then show ?thesis using assms(1) some over
        by (auto simp: fire_unarmed L_def L'_def newly_def reminder_terms_def intro: update_known_reminder_moves split: if_splits)
    next
      case early
      then have "\<not> fires now L i" by (simp add: fires_def Some)
      then show ?thesis using assms(1) some early by (simp add: fire_early L_def L'_def newly_def)
    next
      case due
      then have f: "fires now L i" "fired_id now L i = reminder_effect_id r (due_instant now r)"
        by (simp_all add: fires_def fired_id_def Some)
      obtain kept over where kept: "rearm now (due_instant now r) r = Some (kept, over)"
        using rearm_returns[OF assms(2)] by blast
      obtain d1 fresh where e: "enqueue_effect (fired_id now L i) REMINDER_EFFECT_KIND (reminder_payload r) at d = Inr (d1, fresh)"
          "d' = update_reminder i kept d1" "rr_fired rep' = rr_fired rep @ (if fresh then [fired_id now L i] else [])"
        using assms(1) unfolding fire_due[OF some due kept] f(2)
        by (auto simp: Let_def split: sum.splits if_splits)
      note does = enqueue_effect_does[OF e(1)]
      have "draft_moves d d1" by (rule enqueue_effect_moves[OF e(1) reminder_payload_wire])
      moreover have "draft_moves d1 d'"
        unfolding e(2) by (rule update_known_reminder_moves[of _ _ r]) (use some does rearm_keeps[OF kept] in auto)
      ultimately have m: "draft_moves d d'" by (rule draft_moves_trans)
      have fresh: "fresh \<longleftrightarrow> newly now L i" using does(1) f(1) by (simp add: newly_def L_def)
      have eff: "effect_of L' k = (if k = fired_id now L i \<and> newly now L i then
          Some (new_effect (fired_id now L i) (su_next_effect_sequence L) REMINDER_EFFECT_KIND (reminder_payload r) at)
          else effect_of L k)" for k
        unfolding L'_def e(2) using does(4)[of k] by (simp add: fresh L_def)
      show ?thesis
        using m e(3) fresh eff Some does(2,3) f(1) rearm_keeps(2)[OF kept]
        by (auto simp: L'_def L_def e(2) newly_def fired_effect_def new_effect_def)
    qed
  qed
  then show "sd_reminder_order L' = sd_reminder_order L" "k \<noteq> i \<Longrightarrow> om_get (sd_reminders L') k = om_get (sd_reminders L) k"
    "rr_fired rep' = rr_fired rep @ (if newly now L i then [fired_id now L i] else [])"
    "newly now L i \<Longrightarrow> \<exists>e. effect_of L' (fired_id now L i) = Some e \<and> fired_effect now L i e"
    "\<not> (newly now L i \<and> k = fired_id now L i) \<Longrightarrow> effect_of L' k = effect_of L k"
    "fires now L i \<Longrightarrow> effect_of L' (fired_id now L i) \<noteq> None"
    "draft_moves d d'"
    "map_option reminder_terms (om_get (sd_reminders L') k) = map_option reminder_terms (om_get (sd_reminders L) k)" by blast+
qed

lemma last_separator:
  assumes "a @ c # x = b @ c # y" "c \<notin> set x" "c \<notin> set y"
  shows "a = b \<and> x = y"
proof -
  have "rev x @ c # rev a = rev y @ c # rev b" using assms(1) by (metis append.assoc append_Cons append_Nil rev_append rev.simps(2))
  then have "takeWhile (\<lambda>d. d \<noteq> c) (rev x @ c # rev a) = takeWhile (\<lambda>d. d \<noteq> c) (rev y @ c # rev b)" by simp
  moreover have "takeWhile (\<lambda>d. d \<noteq> c) (rev z @ c # w) = rev z" if "c \<notin> set z" for z w
    using that by (subst takeWhile_append2) auto
  ultimately have "rev x = rev y" using assms(2,3) by simp
  then show ?thesis using assms(1) by simp
qed

lemma colon_not_int: "CHR '':'' \<notin> set (show_int n)"
  using colon_not_digit[OF show_nat_digits] by (simp add: show_int_def)

lemma fired_id_inj:
  assumes "om_get (sd_reminders L) i = Some r" "om_get (sd_reminders L) j = Some r'" "rd_id r = i" "rd_id r' = j"
    "fired_id now L i = fired_id now L j"
  shows "i = j"
proof -
  have "fired_id now L i = ''person-reminder:'' @ (i @ CHR '':'' # show_int (due_instant now r))"
    using assms(1,3) by (simp add: fired_id_def reminder_effect_id_def)
  moreover have "fired_id now L j = ''person-reminder:'' @ (j @ CHR '':'' # show_int (due_instant now r'))"
    using assms(2,4) by (simp add: fired_id_def reminder_effect_id_def)
  ultimately have "i @ CHR '':'' # show_int (due_instant now r) = j @ CHR '':'' # show_int (due_instant now r')"
    using assms(5) by (simp only: same_append_eq)
  then show ?thesis using last_separator[OF _ colon_not_int colon_not_int] by blast
qed

lemma local_views:
  assumes "om_get (sd_reminders L') i = om_get (sd_reminders L) i"
  shows "fires now L' i = fires now L i" "fired_id now L' i = fired_id now L i"
    "fired_effect now L' i e = fired_effect now L i e"
  using assms by (simp_all add: fires_def fired_id_def fired_effect_def)

definition own_ids :: "supervision_ledger \<Rightarrow> bool" where
  "own_ids L \<longleftrightarrow> (\<forall>i r. om_get (sd_reminders L) i = Some r \<longrightarrow> rd_id r = i)"

text \<open>The whole pass, over a duplicate-free list of reminders.\<close>

lemma fire_all_does:
  assumes "fire_all now at (d, rep) ids = Some (Inr (d', rep'))" "now < i64_max" "distinct ids"
    "own_ids (dr_ledger d)"
  shows "rr_fired rep' = rr_fired rep @ map (fired_id now (dr_ledger d)) (filter (newly now (dr_ledger d)) ids)
    \<and> (\<forall>i \<in> set ids. newly now (dr_ledger d) i \<longrightarrow> (\<exists>e. effect_of (dr_ledger d') (fired_id now (dr_ledger d) i) = Some e
           \<and> fired_effect now (dr_ledger d) i e))
    \<and> (\<forall>k. k \<notin> fired_id now (dr_ledger d) ` set (filter (newly now (dr_ledger d)) ids) \<longrightarrow>
          effect_of (dr_ledger d') k = effect_of (dr_ledger d) k)
    \<and> draft_moves d d' \<and> sd_reminder_order (dr_ledger d') = sd_reminder_order (dr_ledger d)"
  using assms
proof (induction ids arbitrary: d rep)
  case (Cons i ids)
  obtain d1 rep1 where one: "fire_if_due now at (d, rep) i = Some (Inr (d1, rep1))"
      "fire_all now at (d1, rep1) ids = Some (Inr (d', rep'))"
    using Cons.prems(1) by (auto split: option.splits sum.splits)
  note step = fire_step[OF one(1) Cons.prems(2)]
  let ?L = "dr_ledger d" and ?L1 = "dr_ledger d1"
  have other: "om_get (sd_reminders ?L1) k = om_get (sd_reminders ?L) k" if "k \<in> set ids" for k
    by (rule step(2)) (use that Cons.prems(3) in auto)
  note views = local_views[OF other]
  have ids1: "own_ids ?L1"
    unfolding own_ids_def
  proof (intro allI impI)
    fix k r assume "om_get (sd_reminders ?L1) k = Some r"
    then obtain r0 where "om_get (sd_reminders ?L) k = Some r0" "rd_id r0 = rd_id r" using step(8)[of k] by (cases "om_get (sd_reminders ?L) k") (auto simp: reminder_terms_def)
    then show "rd_id r = k" using Cons.prems(4) by (simp add: own_ids_def)
  qed
  have new1: "newly now ?L1 k = newly now ?L k" if k: "k \<in> set ids" for k
  proof (cases "newly now ?L i \<and> fires now ?L k")
    case True
    then obtain r r' where "om_get (sd_reminders ?L) i = Some r" "om_get (sd_reminders ?L) k = Some r'"
      by (auto simp: newly_def fires_def split: option.splits)
    then have "fired_id now ?L k \<noteq> fired_id now ?L i"
      using fired_id_inj k Cons.prems(3,4) by (metis distinct.simps(2) own_ids_def)
    then show ?thesis using step(5) views[OF k] by (simp add: newly_def)
  next
    case False
    then show ?thesis using step(5)[of "fired_id now ?L k"] views[OF k] by (auto simp: newly_def)
  qed
  from Cons.IH[OF one(2) Cons.prems(2) _ ids1] Cons.prems(3) have IH:
    "rr_fired rep' = rr_fired rep1 @ map (fired_id now ?L1) (filter (newly now ?L1) ids)"
    "\<And>k. k \<in> set ids \<Longrightarrow> newly now ?L1 k \<Longrightarrow> (\<exists>e. effect_of (dr_ledger d') (fired_id now ?L1 k) = Some e \<and> fired_effect now ?L1 k e)"
    "\<And>k. k \<notin> fired_id now ?L1 ` set (filter (newly now ?L1) ids) \<Longrightarrow> effect_of (dr_ledger d') k = effect_of ?L1 k"
    "draft_moves d1 d'" "sd_reminder_order (dr_ledger d') = sd_reminder_order ?L1" by auto
  have f: "filter (newly now ?L1) ids = filter (newly now ?L) ids" using new1 by (auto intro: filter_cong)
  have m: "map (fired_id now ?L1) (filter (newly now ?L) ids) = map (fired_id now ?L) (filter (newly now ?L) ids)"
    using views(2) by auto
  have im: "fired_id now ?L1 ` set (filter (newly now ?L) ids) = fired_id now ?L ` set (filter (newly now ?L) ids)"
    using m by (metis set_map)
  have fired: "rr_fired rep' = rr_fired rep @ map (fired_id now ?L) (filter (newly now ?L) (i # ids))"
    unfolding IH(1) f m step(3) by simp
  have gone: "effect_of (dr_ledger d') k = effect_of ?L k" if "k \<notin> fired_id now ?L ` set (filter (newly now ?L) (i # ids))" for k
    using IH(3)[of k] step(5)[of k] that unfolding f im by (auto split: if_splits)
  have apart: "fired_id now ?L i \<notin> fired_id now ?L ` set (filter (newly now ?L) ids)" if new: "newly now ?L i"
  proof
    assume "fired_id now ?L i \<in> fired_id now ?L ` set (filter (newly now ?L) ids)"
    then obtain k where k: "k \<in> set ids" "newly now ?L k" "fired_id now ?L i = fired_id now ?L k" by auto
    then obtain r r' where "om_get (sd_reminders ?L) i = Some r" "om_get (sd_reminders ?L) k = Some r'"
      using new by (auto simp: newly_def fires_def split: option.splits)
    then have "i = k" using fired_id_inj k(3) Cons.prems(4) by (metis own_ids_def)
    then show False using k(1) Cons.prems(3) by simp
  qed
  have there: "\<exists>e. effect_of (dr_ledger d') (fired_id now ?L k) = Some e \<and> fired_effect now ?L k e"
    if "k \<in> set (i # ids)" "newly now ?L k" for k
  proof (cases "k = i")
    case True
    with that have "newly now ?L i" by simp
    then show ?thesis using step(4) IH(3)[of "fired_id now ?L i"] apart unfolding True f im by auto
  next
    case False
    then have k: "k \<in> set ids" using that(1) by simp
    then show ?thesis using IH(2)[OF k] that(2) by (simp add: new1[OF k] views[OF k])
  qed
  have "draft_moves d d'" using step(7) IH(4) by (rule draft_moves_trans)
  then show ?case using fired gone there IH(5) step(1) by (intro conjI ballI allI impI) simp_all
qed simp

lemma pass_runs:
  assumes "evaluate_reminders_in d at = Some (Inr (d', rep))"
  shows "fire_all (pass_instant at) at (d, \<lparr>rr_fired = [], rr_retired = []\<rparr>) (sd_reminder_order (dr_ledger d)) = Some (Inr (d', rep))"
  using assms by (simp add: evaluate_reminders_in_def pass_instant_def)

lemma fire_all_moves:
  assumes "fire_all now at (d, rep) ids = Some (Inr (d', rep'))" "now < i64_max"
  shows "draft_moves d d'"
  using assms
proof (induction ids arbitrary: d rep)
  case (Cons i ids)
  obtain d1 rep1 where one: "fire_if_due now at (d, rep) i = Some (Inr (d1, rep1))"
      "fire_all now at (d1, rep1) ids = Some (Inr (d', rep'))"
    using Cons.prems(1) by (auto split: option.splits sum.splits)
  show ?case
    by (rule draft_moves_trans[OF fire_step(7)[OF one(1) Cons.prems(2)] Cons.IH[OF one(2) Cons.prems(2)]])
qed simp

interpretation reminding: supervision_command pass_closure
proof
  fix d at d' r assume "pass_closure d at = Inr (d', r)"
  then have "evaluate_reminders_in d at = Some (Inr (d', r))" using pass_returns[of d at] by (auto simp: pass_closure_def)
  from fire_all_moves[OF pass_runs[OF this] pass_instant_below] show "draft_moves d d'" .
qed

text \<open>
  C9. A reminder pass fires exactly what is due. The effects it reports are, in the order of the ledger, those
  of the reminders that are armed and due and whose occurrence was not fired before; each is then a pending
  effect with that reminder's message for that reminder's person; every other effect is as it was.
\<close>

theorem reminder_pass_fires_what_is_due:
  assumes "evaluate_reminders_in d at = Some (Inr (d', rep))" "reminders_shape (dr_ledger d)" "own_ids (dr_ledger d)"
  shows "rr_fired rep = map (fired_id (pass_instant at) (dr_ledger d))
      (filter (newly (pass_instant at) (dr_ledger d)) (sd_reminder_order (dr_ledger d)))
    \<and> (\<forall>i. newly (pass_instant at) (dr_ledger d) i \<longrightarrow>
         (\<exists>e. effect_of (dr_ledger d') (fired_id (pass_instant at) (dr_ledger d) i) = Some e
            \<and> fired_effect (pass_instant at) (dr_ledger d) i e))
    \<and> (\<forall>k. k \<notin> set (rr_fired rep) \<longrightarrow> effect_of (dr_ledger d') k = effect_of (dr_ledger d) k)"
proof -
  let ?now = "pass_instant at" and ?L = "dr_ledger d"
  have dist: "distinct (sd_reminder_order ?L)" using assms(2) by (simp add: reminders_shape_def)
  have listed: "i \<in> set (sd_reminder_order ?L)" if "newly ?now ?L i" for i
    using that assms(2) by (auto simp: newly_def fires_def reminders_shape_def om_keys_iff split: option.splits)
  from fire_all_does[OF pass_runs[OF assms(1)] pass_instant_below dist assms(3)] have does:
    "rr_fired rep = map (fired_id ?now ?L) (filter (newly ?now ?L) (sd_reminder_order ?L))"
    "\<And>i. i \<in> set (sd_reminder_order ?L) \<Longrightarrow> newly ?now ?L i \<Longrightarrow>
       \<exists>e. effect_of (dr_ledger d') (fired_id ?now ?L i) = Some e \<and> fired_effect ?now ?L i e"
    "\<And>k. k \<notin> fired_id ?now ?L ` set (filter (newly ?now ?L) (sd_reminder_order ?L)) \<Longrightarrow>
       effect_of (dr_ledger d') k = effect_of ?L k" by auto
  have "set (rr_fired rep) = fired_id ?now ?L ` set (filter (newly ?now ?L) (sd_reminder_order ?L))"
    unfolding does(1) by (simp only: set_map)
  then show ?thesis using does listed by (intro conjI allI impI) blast+
qed

section \<open>A second pass\<close>

definition settled_at :: "int \<Rightarrow> supervision_ledger \<Rightarrow> string \<Rightarrow> bool" where
  "settled_at now L i \<longleftrightarrow> (case om_get (sd_reminders L) i of None \<Rightarrow> True
     | Some r \<Rightarrow> if is_armed r now then now < schedule_due_millis (rd_next_due_at r) else rd_status r \<noteq> ''active'')"

lemma settled_fire: "settled_at now (dr_ledger d) i \<Longrightarrow> fire_if_due now at (d, rep) i = Some (Inr (d, rep))"
  by (auto simp: settled_at_def fire_absent fire_unarmed fire_early split: option.splits if_splits)

lemma settled_pass: "\<forall>i \<in> set ids. settled_at now (dr_ledger d) i \<Longrightarrow> fire_all now at (d, rep) ids = Some (Inr (d, rep))"
  by (induction ids) (simp_all add: settled_fire)

text \<open>The instants the stamps of the pass can name: the next occurrence is one of them.\<close>

definition rearmable :: "int \<Rightarrow> supervision_ledger \<Rightarrow> bool" where
  "rearmable now L \<longleftrightarrow> writable_instant now \<and> (\<forall>i r. om_get (sd_reminders L) i = Some r \<longrightarrow>
     writable_instant (now + max (rd_interval_ms r) MIN_RECURRING_REMINDER_INTERVAL_MS))"

lemma writable_between: "writable_instant a \<Longrightarrow> writable_instant b \<Longrightarrow> a \<le> x \<Longrightarrow> x \<le> b \<Longrightarrow> writable_instant x"
  by (simp add: writable_instant_def)

lemma rearm_settles:
  assumes "rearm now (due_instant now r) r = Some (kept, over)" "is_armed r now"
    "\<not> now < schedule_due_millis (rd_next_due_at r)" "writable_instant now"
    "writable_instant (now + max (rd_interval_ms r) MIN_RECURRING_REMINDER_INTERVAL_MS)"
  shows "if is_armed kept now then now < schedule_due_millis (rd_next_due_at kept) else rd_status kept \<noteq> ''active''"
proof (cases "rd_recurring r")
  case False
  then show ?thesis using assms(1) by (auto simp: rearm_def Let_def is_armed_def)
next
  case True
  let ?step = "max (rd_interval_ms r) MIN_RECURRING_REMINDER_INTERVAL_MS"
  have "now < i64_max" using assms(4) by (simp add: writable_instant_def i64_max_def)
  from next_occurrence_returns[OF recurring_interval_pos this] obtain n where
    n: "next_occurrence ?step now (due_instant now r) = Some n" "now < n"
      "n \<le> max (due_instant now r) (max i64_min (now + ?step))" by metis
  have "due_instant now r \<le> now"
    using assms(3) by (simp add: due_instant_def schedule_due_millis_def split: option.splits)
  then have "n \<le> now + ?step" using n(2,3) assms(4) by (auto simp: writable_instant_def i64_min_def)
  then have "writable_instant n" using writable_between[OF assms(4,5)] n(2) by simp
  then have "schedule_due_millis (iso_millis n) = n" by (simp add: schedule_due_millis_def written_stamp_parses)
  then show ?thesis using assms(1,2) True n(1,2)
    by (auto simp: rearm_def Let_def is_armed_def split: if_splits option.splits)
qed

lemma fire_settles:
  assumes "fire_if_due now at (d, rep) i = Some (Inr (d', rep'))" "rearmable now (dr_ledger d)"
  shows "settled_at now (dr_ledger d') i"
proof (cases "om_get (sd_reminders (dr_ledger d)) i")
  case None
  then show ?thesis using assms(1) by (simp add: fire_absent settled_at_def)
next
  case (Some r)
  consider (over) "\<not> is_armed r now" | (early) "is_armed r now" "now < schedule_due_millis (rd_next_due_at r)"
    | (due) "is_armed r now" "\<not> now < schedule_due_millis (rd_next_due_at r)" by blast
  then show ?thesis
  proof cases
    case over
    then show ?thesis using assms(1) Some
      by (auto simp: fire_unarmed settled_at_def is_armed_def split: if_splits option.splits)
  next
    case early
    then show ?thesis using assms(1) Some by (simp add: fire_early settled_at_def)
  next
    case due
    have w: "writable_instant now" "writable_instant (now + max (rd_interval_ms r) MIN_RECURRING_REMINDER_INTERVAL_MS)"
      using assms(2) Some by (auto simp: rearmable_def)
    then have "now < i64_max" by (simp add: writable_instant_def i64_max_def)
    then obtain kept over where kept: "rearm now (due_instant now r) r = Some (kept, over)"
      using rearm_returns by blast
    obtain d1 where "d' = update_reminder i kept d1"
      using assms(1) unfolding fire_due[OF Some due kept] by (auto simp: Let_def split: sum.splits if_splits)
    then show ?thesis using rearm_settles[OF kept due w] by (simp add: settled_at_def)
  qed
qed

lemma fire_all_settles:
  assumes "fire_all now at (d, rep) ids = Some (Inr (d', rep'))" "rearmable now (dr_ledger d)" "distinct ids"
  shows "(\<forall>i \<in> set ids. settled_at now (dr_ledger d') i)
    \<and> (\<forall>i. i \<notin> set ids \<longrightarrow> om_get (sd_reminders (dr_ledger d')) i = om_get (sd_reminders (dr_ledger d)) i)
    \<and> sd_reminder_order (dr_ledger d') = sd_reminder_order (dr_ledger d)"
  using assms
proof (induction ids arbitrary: d rep)
  case (Cons i ids)
  obtain d1 rep1 where one: "fire_if_due now at (d, rep) i = Some (Inr (d1, rep1))"
      "fire_all now at (d1, rep1) ids = Some (Inr (d', rep'))"
    using Cons.prems(1) by (auto split: option.splits sum.splits)
  have "now < i64_max" using Cons.prems(2) by (simp add: rearmable_def writable_instant_def i64_max_def)
  note step = fire_step[OF one(1) this]
  have settled: "settled_at now (dr_ledger d1) i" by (rule fire_settles[OF one(1) Cons.prems(2)])
  have "rearmable now (dr_ledger d1)"
    unfolding rearmable_def
  proof (intro conjI allI impI)
    fix k r assume "om_get (sd_reminders (dr_ledger d1)) k = Some r"
    then obtain r0 where "om_get (sd_reminders (dr_ledger d)) k = Some r0" "reminder_terms r0 = reminder_terms r"
      using step(8)[of k] by (cases "om_get (sd_reminders (dr_ledger d)) k") auto
    then have "om_get (sd_reminders (dr_ledger d)) k = Some r0" "rd_interval_ms r0 = rd_interval_ms r"
      by (simp_all add: reminder_terms_def)
    then show "writable_instant (now + max (rd_interval_ms r) MIN_RECURRING_REMINDER_INTERVAL_MS)"
      using Cons.prems(2) unfolding rearmable_def by metis
  qed (use Cons.prems(2) in \<open>simp add: rearmable_def\<close>)
  from Cons.IH[OF one(2) this] Cons.prems(3)
  have IH: "\<forall>i \<in> set ids. settled_at now (dr_ledger d') i"
    "\<And>k. k \<notin> set ids \<Longrightarrow> om_get (sd_reminders (dr_ledger d')) k = om_get (sd_reminders (dr_ledger d1)) k"
    "sd_reminder_order (dr_ledger d') = sd_reminder_order (dr_ledger d1)" by auto
  have "settled_at now (dr_ledger d') i" using settled IH(2)[of i] Cons.prems(3) by (simp add: settled_at_def)
  moreover have "om_get (sd_reminders (dr_ledger d')) k = om_get (sd_reminders (dr_ledger d)) k" if "k \<notin> set (i # ids)" for k
    using IH(2)[of k] step(2)[of k] that by simp
  ultimately show ?case using IH(1,3) step(1) by simp
qed simp

text \<open>
  C10. Evaluating the reminders twice at one instant is evaluating them once: after a pass that answered,
  a second pass at the same instant changes nothing, fires nothing and retires nothing.
\<close>

theorem a_second_pass_does_nothing:
  assumes "evaluate_reminders_in d at = Some (Inr (d', rep))" "reminders_shape (dr_ledger d)"
    "rearmable (pass_instant at) (dr_ledger d)"
  shows "evaluate_reminders_in d' at = Some (Inr (d', \<lparr>rr_fired = [], rr_retired = []\<rparr>))"
proof -
  have "distinct (sd_reminder_order (dr_ledger d))" using assms(2) by (simp add: reminders_shape_def)
  from fire_all_settles[OF pass_runs[OF assms(1)] assms(3) this]
  have "\<forall>i \<in> set (sd_reminder_order (dr_ledger d')). settled_at (pass_instant at) (dr_ledger d') i" by simp
  then show ?thesis unfolding evaluate_reminders_in_def pass_instant_def[symmetric] Let_def by (rule settled_pass)
qed

text \<open>
  C24. The reminder pass always ends, whatever is stored: its loop over missed occurrences steps by a
  positive interval from any due instant past any present instant that a stamp can name, so the command
  answers, with a report or with an error.
\<close>

theorem reminder_pass_ends: "\<exists>answer. evaluate_reminders C ref m l = Some answer"
  using evaluate_is_a_transaction by blast

end
