(* ===== verification/Supervision_History.thy ===== *)
theory Supervision_History
  imports Reminders_Contract
begin

text \<open>
  The commands of the supervision store as the requests of one machine over supervision ledgers: each is a
  transaction of the ledgers that hold the ledger, and over any history the effects only move forward.
\<close>

section \<open>Requests\<close>

datatype supervision_request =
    Deliver "string list"
  | Fail_Delivery string
  | Reopen
  | Escalate string string string
  | Evaluate
  | Arm arm_request
  | Stop string string string
  | Cycle cycle_input

definition forget :: "'e + ('s \<times> 'r) \<Rightarrow> 'e + ('s \<times> unit)" where
  "forget answer = (case answer of Inl e \<Rightarrow> Inl e | Inr (s, _) \<Rightarrow> Inr (s, ()))"

fun run_request :: "'v organization_manifest \<Rightarrow> supervision_request \<Rightarrow> unit supervision_closure" where
  "run_request m (Deliver ids) d at = forget (mark_delivered_in ids d at)"
| "run_request m (Fail_Delivery i) d at = forget (record_delivery_failure_in i d at)"
| "run_request m Reopen d at = forget (reopen_failed_effects_in d at)"
| "run_request m (Escalate i reason detail) d at = forget (enqueue_reconcile_escalation m i reason detail d at)"
| "run_request m Evaluate d at = forget (pass_closure d at)"
| "run_request m (Arm request) d at = forget (arm_reminder_in m request d at)"
| "run_request m (Stop actor pid i) d at = forget (stop_reminder_in m actor pid i d at)"
| "run_request m (Cycle input) d at = forget (cycle_in input d at)"

definition inert :: "supervision_request \<Rightarrow> bool" where
  "inert q \<longleftrightarrow> (case q of Cycle input \<Rightarrow> cy_suppressed input \<or> cy_identity input \<noteq> Identity_Owned | _ \<Rightarrow> False)"

text \<open>The commands themselves, over the ledgers.\<close>

fun perform :: "supervision_codec \<Rightarrow> nat \<Rightarrow> 'v organization_manifest \<Rightarrow> supervision_request \<Rightarrow> ledgers
    \<Rightarrow> chiefd_error + (ledgers \<times> unit)" where
  "perform C ref m (Deliver ids) l = forget (mark_delivered C ref m ids l)"
| "perform C ref m (Fail_Delivery i) l = forget (record_delivery_failure C ref m i l)"
| "perform C ref m Reopen l = forget (reopen_failed_effects C ref m l)"
| "perform C ref m (Escalate i reason detail) l =
     forget (supervision_mutate C ref m (enqueue_reconcile_escalation m i reason detail) l)"
| "perform C ref m Evaluate l = forget (the (evaluate_reminders C ref m l))"
| "perform C ref m (Arm request) l = forget (arm_reminder C ref m request l)"
| "perform C ref m (Stop actor pid i) l = forget (stop_reminder C ref m actor pid i l)"
| "perform C ref m (Cycle input) l = forget (supervision_cycle C ref m input l)"

lemma forget_answer_Inr: "forget a = Inr (s, u) \<longleftrightarrow> (\<exists>r. a = Inr (s, r))"
  by (auto simp: forget_def split: sum.splits)

lemma mutate_forget:
  "forget (supervision_mutate C ref m f l) = supervision_mutate C ref m (\<lambda>d at. forget (f d at)) l"
proof (cases "read_for_mutation_sup C l")
  case (Inr current)
  let ?run = "f \<lparr>dr_ledger = fst (shed_departed current m), dr_touched = []\<rparr> (iso_millis (lg_now l))"
  show ?thesis
  proof (cases ?run)
    case (Inr dr)
    obtain d r where "dr = (d, r)" by (cases dr)
    then show ?thesis using Inr \<open>read_for_mutation_sup C l = Inr current\<close>
      by (auto simp: supervision_mutate_def Let_def forget_def res_bind_Inr_iff split: sum.splits)
        (cases "store_supervision C ref m (dr_touched d) (dr_ledger d\<lparr>sd_updated_at := iso_millis (lg_now l)\<rparr>) l"; simp)+
  qed (simp add: supervision_mutate_def Let_def forget_def Inr)
qed (simp add: supervision_mutate_def Let_def forget_def)

lemma run_request_eq:
  "run_request m (Deliver ids) = (\<lambda>d at. forget (mark_delivered_in ids d at))"
  "run_request m (Fail_Delivery i) = (\<lambda>d at. forget (record_delivery_failure_in i d at))"
  "run_request m Reopen = (\<lambda>d at. forget (reopen_failed_effects_in d at))"
  "run_request m (Escalate i reason detail) = (\<lambda>d at. forget (enqueue_reconcile_escalation m i reason detail d at))"
  "run_request m Evaluate = (\<lambda>d at. forget (pass_closure d at))"
  "run_request m (Arm request) = (\<lambda>d at. forget (arm_reminder_in m request d at))"
  "run_request m (Stop actor pid i) = (\<lambda>d at. forget (stop_reminder_in m actor pid i d at))"
  "run_request m (Cycle input) = (\<lambda>d at. forget (cycle_in input d at))"
  by (simp_all add: fun_eq_iff)

lemma perform_mutates:
  assumes "\<not> inert q"
  shows "perform C ref m q l = supervision_mutate C ref m (run_request m q) l"
  using assms
  by (cases q)
    (simp_all add: run_request_eq mutate_forget[symmetric] mark_delivered_def record_delivery_failure_def
      reopen_failed_effects_def arm_reminder_def stop_reminder_def evaluate_is_a_transaction supervision_cycle_def inert_def
      del: run_request.simps split: identity_observation.splits)

lemma perform_inert: "inert q \<Longrightarrow> perform C ref m q l = Inr (l, ())"
  by (cases q) (auto simp: inert_def supervision_cycle_def forget_def split: identity_observation.splits)

interpretation requesting: supervision_command "run_request m q" for m q
proof
  fix d at d' r
  assume distinct: "distinct (su_effect_order (dr_ledger d))" and "run_request m q d at = Inr (d', r)"
  then show "draft_moves d d'"
    by (cases q) (auto simp: forget_answer_Inr intro: marking.moves failing.moves reopening.moves escalating.moves reminding.moves
        arming.moves stopping.moves cycling.moves)
qed

section \<open>The abstract command\<close>

text \<open>What a command answers over the ledger alone: its refusal, or the ledger it leaves.\<close>

definition answer_of ::
  "'v organization_manifest \<Rightarrow> int \<Rightarrow> supervision_request \<Rightarrow> supervision_ledger \<Rightarrow> chiefd_error + supervision_ledger" where
  "answer_of m now q L =
     (if inert q then Inr L
      else case run_request m q (draft_of L m) (iso_millis now) of
        Inl e \<Rightarrow> Inl e
      | Inr (d, _) \<Rightarrow>
          if \<not> snd (shed_departed L m) \<and> dr_ledger d = L \<and> dr_touched d = [] then Inr L
          else let L' = (dr_ledger d)\<lparr>sd_updated_at := iso_millis now\<rparr>
               in case validate_supervision L' m of Inl e \<Rightarrow> Inl (Refused e) | Inr _ \<Rightarrow> Inr L')"

lemma elsewhere_refl [simp]: "elsewhere_same l l"
  by (simp add: elsewhere_same_def)

text \<open>
  C6. Every supervision command is a transaction on the ledgers. If they hold the supervision ledger \<open>L\<close>, the
  command answers what its closure answers on \<open>L\<close> alone: a refusal is the same refusal, and otherwise the
  ledgers hold exactly the new ledger afterwards (its document, every effect row, the order and the counter)
  and nothing else of them changed. The next reader decodes it.
\<close>

theorem supervision_command_is_a_transaction:
  assumes "supervision_faithful C" "stored C l L"
    "\<And>L'. answer_of m (lg_now l) q L = Inr L' \<Longrightarrow> int (su_next_effect_sequence L') \<le> i64_max"
  shows "case answer_of m (lg_now l) q L of
      Inl e \<Rightarrow> perform C ref m q l = Inl e
    | Inr L' \<Rightarrow> \<exists>l'. perform C ref m q l = Inr (l', ()) \<and> stored C l' L' \<and> elsewhere_same l l'
        \<and> read_for_mutation_sup C l' = Inr L'"
proof (cases "inert q")
  case True
  then show ?thesis using assms(2) stored_read[OF assms(2)] by (simp add: answer_of_def perform_inert)
next
  case False
  have bound: "int (su_next_effect_sequence (dr_ledger d)) \<le> i64_max"
    if "run_request m q (draft_of L m) (iso_millis (lg_now l)) = Inr (d, u)"
      "validate_supervision ((dr_ledger d)\<lparr>sd_updated_at := iso_millis (lg_now l)\<rparr>) m = Inr ()" for d u
  proof (cases "\<not> snd (shed_departed L m) \<and> dr_ledger d = L \<and> dr_touched d = []")
    case True
    then show ?thesis using assms(3)[of L] that False by (simp add: answer_of_def)
  next
    case changed: False
    have "answer_of m (lg_now l) q L = Inr ((dr_ledger d)\<lparr>sd_updated_at := iso_millis (lg_now l)\<rparr>)"
      using changed that False by (simp only: answer_of_def Let_def sum.case prod.case if_False)
    from assms(3)[OF this] show ?thesis by simp
  qed
  have run: "case run_request m q (draft_of L m) (iso_millis (lg_now l)) of
      Inl e \<Rightarrow> supervision_mutate C ref m (run_request m q) l = Inl e
    | Inr (d, r) \<Rightarrow>
        let L' = (dr_ledger d)\<lparr>sd_updated_at := iso_millis (lg_now l)\<rparr>
        in if \<not> snd (shed_departed L m) \<and> dr_ledger d = L \<and> dr_touched d = []
           then supervision_mutate C ref m (run_request m q) l = Inr (l, r)
           else case validate_supervision L' m of
             Inl e \<Rightarrow> supervision_mutate C ref m (run_request m q) l = Inl (Refused e)
           | Inr _ \<Rightarrow> \<exists>l'. supervision_mutate C ref m (run_request m q) l = Inr (l', r) \<and> stored C l' L' \<and> elsewhere_same l l'"
    by (rule requesting.transaction[OF assms(1,2)]) (rule bound)
  show ?thesis
  proof (cases "run_request m q (draft_of L m) (iso_millis (lg_now l))")
    case (Inl e)
    then show ?thesis using run False by (simp add: answer_of_def perform_mutates)
  next
    case (Inr du)
    obtain d u where du: "du = (d, u)" by (cases du)
    show ?thesis using run False assms(2) stored_read
      by (auto simp: answer_of_def perform_mutates Inr du Let_def split: if_splits sum.splits)
  qed
qed

section \<open>Histories\<close>

type_synonym 'v supervision_event = "'v organization_manifest \<times> int \<times> supervision_request"

definition supervision_step :: "supervision_ledger \<Rightarrow> 'v supervision_event \<Rightarrow> supervision_ledger" where
  "supervision_step L ev = (case ev of (m, now, q) \<Rightarrow> (case answer_of m now q L of Inl _ \<Rightarrow> L | Inr L' \<Rightarrow> L'))"

definition supervision_inv :: "supervision_ledger \<Rightarrow> bool" where
  "supervision_inv L \<longleftrightarrow> sup_shape L \<and> sup_wire L \<and> (\<forall>i e. effect_of L i = Some e \<longrightarrow> effect_good e)"

lemma step_cases:
  assumes "supervision_inv L"
  shows "supervision_step L (m, now, q) = L \<or>
    (\<exists>d. draft_moves (draft_of L m) d \<and> supervision_step L (m, now, q) = (dr_ledger d)\<lparr>sd_updated_at := iso_millis now\<rparr>
       \<and> validate_supervision (supervision_step L (m, now, q)) m = Inr ())"
proof (cases "run_request m q (draft_of L m) (iso_millis now)")
  case (Inr du)
  obtain d u where du: "du = (d, u)" by (cases du)
  have "distinct (su_effect_order (dr_ledger (draft_of L m)))"
    using assms by (simp add: supervision_inv_def sup_shape_def effects_shape_def draft_of_def)
  from requesting.moves[OF this Inr[unfolded du]] have "draft_moves (draft_of L m) d" .
  then show ?thesis
    by (auto simp: supervision_step_def answer_of_def Inr du Let_def split: sum.splits)
qed (simp add: supervision_step_def answer_of_def)

lemma supervision_step_moves:
  assumes "supervision_inv L"
  shows "effects_move L (supervision_step L ev) \<and> supervision_inv (supervision_step L ev)"
proof -
  obtain m now q where ev: "ev = (m, now, q)" by (cases ev)
  from step_cases[OF assms, of m now q] show ?thesis
  proof (elim disjE exE conjE)
    fix d assume d: "draft_moves (draft_of L m) d"
      "supervision_step L (m, now, q) = (dr_ledger d)\<lparr>sd_updated_at := iso_millis now\<rparr>"
      "validate_supervision (supervision_step L (m, now, q)) m = Inr ()"
    let ?L = "(dr_ledger d)\<lparr>sd_updated_at := iso_millis now\<rparr>"
    have eff: "effect_of ?L = effect_of (dr_ledger d)" "effect_of (dr_ledger (draft_of L m)) = effect_of L"
      by (simp_all add: effect_of_def draft_of_def fun_eq_iff)
    have move: "effects_move L ?L" using d(1) unfolding draft_moves_def effects_move_def eff by blast
    have "sup_wire (dr_ledger d)"
      using d(1) document_wire_shed assms by (auto simp: draft_moves_def supervision_inv_def)
    then have wire: "sup_wire ?L" by (simp add: sup_wire_def document_wire_def eff)
    then have "om_wf (su_effects ?L)" "om_wf (sd_reminders ?L)" by (auto simp: sup_wire_def document_wire_def)
    from validate_supervision_iff[OF this, of m] have shape: "sup_shape ?L" using d(2,3) by simp
    have "effect_good e" if "effect_of ?L i = Some e" for i e
      using move[unfolded effects_move_def, rule_format, of i] that assms
      by (auto simp: supervision_inv_def effect_moves_def split: option.splits)
    then show ?thesis using move wire shape d(2) by (simp add: ev supervision_inv_def)
  qed (simp add: ev assms)
qed

interpretation supervision: forward_machine
  "supervision_step :: supervision_ledger \<Rightarrow> 'v supervision_event \<Rightarrow> supervision_ledger" supervision_inv effects_move
  by unfold_locales (use supervision_step_moves effects_move_trans in auto)

section \<open>Attempts\<close>

text \<open>
  How often the delivery of an effect has failed, as its row counts it: nothing for an effect that is not
  there. Every command but a reported failure keeps the count of every effect and starts new effects at zero.
\<close>

definition attempts_of :: "supervision_ledger \<Rightarrow> string \<Rightarrow> nat" where
  "attempts_of L i = (case effect_of L i of None \<Rightarrow> 0 | Some e \<Rightarrow> effect_attempts e)"

definition all_good :: "supervision_ledger \<Rightarrow> bool" where
  "all_good L \<longleftrightarrow> (\<forall>i e. effect_of L i = Some e \<longrightarrow> effect_good e)"

definition attempts_kept :: "supervision_ledger \<Rightarrow> supervision_ledger \<Rightarrow> bool" where
  "attempts_kept L L' \<longleftrightarrow> (all_good L \<longrightarrow> all_good L' \<and> attempts_of L' = attempts_of L)"

lemma attempts_kept_refl [simp]: "attempts_kept L L"
  by (simp add: attempts_kept_def)

lemma attempts_kept_trans: "attempts_kept L L1 \<Longrightarrow> attempts_kept L1 L2 \<Longrightarrow> attempts_kept L L2"
  by (simp add: attempts_kept_def)

lemma kept_by_effects: "effect_of L' = effect_of L \<Longrightarrow> attempts_kept L L'"
  by (simp add: attempts_kept_def all_good_def attempts_of_def fun_eq_iff)

lemma kept_by_update:
  assumes "effect_of (dr_ledger d) i = Some e" "effect_moves e e'"
    "effect_good e \<Longrightarrow> effect_attempts e' = effect_attempts e"
  shows "attempts_kept (dr_ledger d) (dr_ledger (update_effect i e' d))"
  using assms
  by (auto simp: attempts_kept_def all_good_def attempts_of_def fun_eq_iff effect_moves_def split: option.splits)

lemma kept_by_enqueue:
  assumes "enqueue_effect i kind payload at d = Inr (d', fresh)"
  shows "attempts_kept (dr_ledger d) (dr_ledger d')"
  using enqueue_effect_does(1,4)[OF assms]
  by (auto simp: attempts_kept_def all_good_def attempts_of_def fun_eq_iff new_effect_def effect_good_def effect_attempts_def
      count_of_def SUPERVISION_EFFECT_DELIVERY_ATTEMPT_LIMIT_def)

lemma kept_by_delivery: "attempts_kept (dr_ledger d) (dr_ledger (fst (foldl (deliver_one at) (d, done_ids) ids)))"
proof (induction ids arbitrary: d done_ids)
  case (Cons i ids)
  have "attempts_kept (dr_ledger d) (dr_ledger (fst (apply_effect_delivered i at d)))"
    by (auto simp: apply_effect_delivered_def delivered_moves effect_attempts_def
        intro!: kept_by_update split: option.splits)
  from attempts_kept_trans[OF this Cons.IH] show ?case by (simp add: deliver_one_def Let_def)
qed simp

lemma kept_by_reopening:
  assumes "\<forall>i \<in> set ids. reopenable (dr_ledger d) i" "distinct ids"
  shows "attempts_kept (dr_ledger d) (dr_ledger (foldl (reopen_one at) d ids))"
  using assms
proof (induction ids arbitrary: d)
  case (Cons i ids)
  obtain e where e: "effect_of (dr_ledger d) i = Some e" "fx_status e = Effect_Failed"
      "count_of (fx_reopen_count e) < SUPERVISION_EFFECT_REOPEN_LIMIT"
    using Cons.prems(1) by (auto simp: reopenable_def split: option.splits)
  have "attempts_kept (dr_ledger d) (dr_ledger (reopen_one at d i))"
    using kept_by_update[OF e(1) reopened_moves(1)[OF e(2,3)] reopened_moves(3)[OF e(2,3)]] e(1)
    by (simp add: reopen_one_def)
  moreover have "\<forall>k \<in> set ids. reopenable (dr_ledger (reopen_one at d i)) k"
    using Cons.prems e(1) by (auto simp: reopenable_def reopen_one_def)
  ultimately show ?case using Cons attempts_kept_trans by fastforce
qed simp

lemma kept_by_escalation:
  assumes "enqueue_reconcile_escalation m i reason detail d at = Inr (d', r)"
  shows "attempts_kept (dr_ledger d) (dr_ledger d')"
proof (cases "effect_of (dr_ledger d) i")
  case None
  with assms show ?thesis
    by (auto simp: enqueue_reconcile_escalation_def Let_def intro: kept_by_enqueue)
next
  case (Some e)
  have "effect_attempts (e'\<lparr>fx_payload := p\<rparr>) = effect_attempts e'" for e' p
    by (simp add: effect_attempts_def)
  with Some assms show ?thesis
    by (auto simp: enqueue_reconcile_escalation_def Let_def reopened_moves intro!: kept_by_update split: if_splits)
qed

lemma kept_by_firing:
  assumes "fire_all now at (d, rep) ids = Some (Inr (d', rep'))" "now < i64_max"
  shows "attempts_kept (dr_ledger d) (dr_ledger d')"
  using assms
proof (induction ids arbitrary: d rep)
  case (Cons i ids)
  obtain d1 rep1 where one: "fire_if_due now at (d, rep) i = Some (Inr (d1, rep1))"
      "fire_all now at (d1, rep1) ids = Some (Inr (d', rep'))"
    using Cons.prems(1) by (auto split: option.splits sum.splits)
  let ?L = "dr_ledger d" and ?L1 = "dr_ledger d1"
  note step = fire_step(4,5)[OF one(1) Cons.prems(2)]
  have "effect_of ?L1 k = effect_of ?L k \<or> effect_of ?L k = None \<and> (\<exists>e. effect_of ?L1 k = Some e
      \<and> effect_good e \<and> effect_attempts e = 0)" for k
  proof (cases "newly now ?L i \<and> k = fired_id now ?L i")
    case True
    then show ?thesis using step(1)
      by (auto simp: newly_def fired_effect_def effect_good_def effect_attempts_def count_of_def
          SUPERVISION_EFFECT_DELIVERY_ATTEMPT_LIMIT_def)
  qed (use step(2)[of k] in simp)
  then have "attempts_of ?L1 k = attempts_of ?L k \<and> (all_good ?L \<longrightarrow> (\<forall>e. effect_of ?L1 k = Some e \<longrightarrow> effect_good e))" for k
    by (fastforce simp: attempts_of_def all_good_def split: option.splits dest: spec[of _ k])
  then have "attempts_kept ?L ?L1" by (simp add: attempts_kept_def fun_eq_iff) (simp add: all_good_def)
  then show ?case using Cons.IH[OF one(2) Cons.prems(2)] by (rule attempts_kept_trans)
qed simp

text \<open>A failed delivery that a command of the history reports and the ledger accepts, for an effect in flight.\<close>

definition in_flight :: "supervision_ledger \<Rightarrow> string \<Rightarrow> bool" where
  "in_flight L i \<longleftrightarrow> (case effect_of L i of None \<Rightarrow> False | Some e \<Rightarrow> fx_status e = Effect_Pending)"

definition fails_once :: "supervision_request \<Rightarrow> string \<Rightarrow> supervision_ledger \<Rightarrow> bool" where
  "fails_once q i L \<longleftrightarrow> (case q of Fail_Delivery k \<Rightarrow> k = i \<and> in_flight L i | _ \<Rightarrow> False)"

lemma request_attempts:
  assumes "run_request m q d at = Inr (d', u)" "all_good (dr_ledger d)" "distinct (su_effect_order (dr_ledger d))"
  shows "attempts_of (dr_ledger d') i = attempts_of (dr_ledger d) i + (if fails_once q i (dr_ledger d) then 1 else 0)"
proof (cases "\<exists>k. q = Fail_Delivery k")
  case True
  then obtain k where q: "q = Fail_Delivery k" ..
  then obtain e where e: "effect_of (dr_ledger d) k = Some e"
      "d' = (if fx_status e = Effect_Pending then touch_effect k (update_effect k (failed_once at e) d) else d)"
    using assms(1) by (auto simp: forget_answer_Inr record_delivery_failure_in_def split: option.splits if_splits)
  have "effect_good e" using e(1) assms(2) by (simp add: all_good_def)
  with e show ?thesis
    by (auto simp: q fails_once_def in_flight_def attempts_of_def failed_moves split: option.splits)
next
  case False
  have "attempts_kept (dr_ledger d) (dr_ledger d')"
  proof (cases q)
    case (Deliver ids)
    then show ?thesis using assms(1) kept_by_delivery[of d at "[]" ids]
      by (auto simp: forget_answer_Inr mark_delivered_in_def)
  next
    case Reopen
    then show ?thesis using assms(1,3)
        kept_by_reopening[of "filter (reopenable (dr_ledger d)) (su_effect_order (dr_ledger d))" d at]
      by (auto simp: forget_answer_Inr reopen_failed_effects_in_def Let_def)
  next
    case (Escalate k reason detail)
    then show ?thesis using assms(1) by (auto simp: forget_answer_Inr intro: kept_by_escalation)
  next
    case Evaluate
    then obtain rep where "pass_closure d at = Inr (d', rep)" using assms(1) by (auto simp: forget_answer_Inr)
    then have "evaluate_reminders_in d at = Some (Inr (d', rep))" using pass_returns[of d at] by (auto simp: pass_closure_def)
    from kept_by_firing[OF pass_runs[OF this] pass_instant_below] show ?thesis .
  next
    case (Arm request)
    then show ?thesis using assms(1)
      by (auto simp: forget_answer_Inr arm_reminder_in_def Let_def res_bind_Inr_iff add_reminder_def effect_of_def fun_eq_iff
          intro!: kept_by_effects split: option.splits if_splits)
  next
    case (Stop actor pid k)
    then show ?thesis using assms(1)
      by (auto simp: forget_answer_Inr stop_reminder_in_def Let_def res_bind_Inr_iff update_reminder_def effect_of_def fun_eq_iff
          intro!: kept_by_effects split: option.splits if_splits)
  next
    case (Cycle input)
    then show ?thesis using assms(1) by (auto simp: forget_answer_Inr cycle_in_def)
  qed (use False in simp)
  then show ?thesis using assms(2) False by (cases q) (simp_all add: attempts_kept_def fails_once_def)
qed

definition failure_recorded :: "supervision_ledger \<Rightarrow> string \<Rightarrow> 'v supervision_event \<Rightarrow> bool" where
  "failure_recorded L i ev \<longleftrightarrow> (case ev of (m, now, q) \<Rightarrow>
     fails_once q i L \<and> (case answer_of m now q L of Inl _ \<Rightarrow> False | Inr _ \<Rightarrow> True))"

fun recorded_failures :: "supervision_ledger \<Rightarrow> string \<Rightarrow> 'v supervision_event list \<Rightarrow> nat" where
  "recorded_failures L i [] = 0"
| "recorded_failures L i (ev # history) =
     (if failure_recorded L i ev then 1 else 0) + recorded_failures (supervision_step L ev) i history"

lemma step_attempts:
  assumes "supervision_inv L"
  shows "attempts_of (supervision_step L ev) i = attempts_of L i + (if failure_recorded L i ev then 1 else 0)"
proof -
  obtain m now q where ev: "ev = (m, now, q)" by (cases ev)
  show ?thesis
  proof (cases "answer_of m now q L")
    case (Inl e)
    then show ?thesis by (simp add: ev supervision_step_def failure_recorded_def)
  next
    case (Inr L')
    have "attempts_of L' i = attempts_of L i + (if fails_once q i L then 1 else 0)"
    proof (cases "inert q")
      case True
      then show ?thesis using Inr by (cases q) (simp_all add: answer_of_def inert_def fails_once_def)
    next
      case False
      then obtain d u where run: "run_request m q (draft_of L m) (iso_millis now) = Inr (d, u)"
          "effect_of L' = effect_of (dr_ledger d)"
        using Inr by (auto simp: answer_of_def Let_def effect_of_def fun_eq_iff split: sum.splits if_splits)
      have eff: "effect_of (dr_ledger (draft_of L m)) = effect_of L"
        by (simp add: effect_of_def draft_of_def fun_eq_iff)
      have good: "all_good (dr_ledger (draft_of L m))" "distinct (su_effect_order (dr_ledger (draft_of L m)))"
        using assms by (auto simp: supervision_inv_def all_good_def eff sup_shape_def effects_shape_def)
          (simp add: draft_of_def)
      from request_attempts[OF run(1) good, of i] show ?thesis
        by (simp add: attempts_of_def fails_once_def in_flight_def eff run(2) cong: supervision_request.case_cong)
    qed
    then show ?thesis by (simp add: ev supervision_step_def failure_recorded_def Inr)
  qed
qed

lemma history_attempts:
  fixes history :: "'v supervision_event list"
  assumes "supervision_inv L"
  shows "attempts_of (foldl supervision_step L history) i = attempts_of L i + recorded_failures L i history"
  using assms
proof (induction history arbitrary: L)
  case (Cons ev history)
  have "supervision_inv (supervision_step L ev)" 
    by (rule supervision_step_moves[OF Cons.prems, THEN conjunct2])
  from Cons.IH[OF this] step_attempts[OF Cons.prems, of ev i] show ?case by simp
qed simp

text \<open>An effect that will never change again.\<close>

definition closed_effect :: "effect \<Rightarrow> bool" where
  "closed_effect e \<longleftrightarrow> fx_status e \<in> {Effect_Delivered, Effect_Superseded}
     \<or> fx_status e = Effect_Failed \<and> SUPERVISION_EFFECT_REOPEN_LIMIT \<le> count_of (fx_reopen_count e)"

lemma closed_stays: "effect_moves e e' \<Longrightarrow> closed_effect e \<Longrightarrow> e' = e"
  by (auto simp: effect_moves_def closed_effect_def)

lemma attempts_bound: "effect_good e \<Longrightarrow> effect_attempts e \<le> 12"
  by (auto simp: effect_good_def effect_attempts_def SUPERVISION_EFFECT_REOPEN_LIMIT_def
      SUPERVISION_EFFECT_DELIVERY_ATTEMPT_LIMIT_def split: if_splits)

text \<open>A delivered effect took one attempt more than those that failed.\<close>

definition deliveries_tried :: "effect \<Rightarrow> nat" where
  "deliveries_tried e = effect_attempts e + (if fx_status e = Effect_Delivered then 1 else 0)"

lemma tried_bound: "effect_good e \<Longrightarrow> deliveries_tried e \<le> 12"
  by (auto simp: effect_good_def effect_attempts_def deliveries_tried_def SUPERVISION_EFFECT_REOPEN_LIMIT_def
      SUPERVISION_EFFECT_DELIVERY_ATTEMPT_LIMIT_def split: if_splits)

text \<open>
  C8. Over any history of commands, effects only move forward. An effect that was there is still there, with
  its sequence, kind and creation instant, and one that was delivered, superseded, or failed with its
  reopenings spent is exactly as it was. Every failure reported and accepted for an effect in flight is
  counted: the failures its row counts afterwards are those it counted before and those of the history. No
  effect, old or new, fails more than twelve times, or is tried more than twelve times when it is
  delivered. The ledger stays in the shape every reader accepts.
\<close>

theorem effects_only_move_forward:
  fixes history :: "'v supervision_event list"
  assumes "supervision_inv L"
  shows "supervision_inv (foldl supervision_step L history)
    \<and> (\<forall>i e. effect_of L i = Some e \<longrightarrow> (\<exists>e'. effect_of (foldl supervision_step L history) i = Some e'
         \<and> fx_sequence e' = fx_sequence e \<and> fx_kind e' = fx_kind e \<and> fx_created_at e' = fx_created_at e
         \<and> effect_attempts e \<le> effect_attempts e' \<and> effect_attempts e' \<le> 12
         \<and> (closed_effect e \<longrightarrow> e' = e)))
    \<and> (\<forall>i. attempts_of (foldl supervision_step L history) i = attempts_of L i + recorded_failures L i history)
    \<and> (\<forall>i. recorded_failures L i history \<le> 12)
    \<and> (\<forall>i e. effect_of (foldl supervision_step L history) i = Some e \<longrightarrow> deliveries_tried e \<le> 12)"
proof -
  have final: "supervision_inv (foldl supervision_step L history)" using assms by (rule supervision.run_inv)
  have "effects_move L (foldl supervision_step L history)" using assms by (rule supervision.run_le)
  then have moved: "\<exists>e'. effect_of (foldl supervision_step L history) i = Some e' \<and> effect_moves e e'"
    if "effect_of L i = Some e" for i e
    using that by (auto simp: effects_move_def split: option.splits dest!: spec[of _ i])
  have tried: "deliveries_tried e \<le> 12" if "effect_of (foldl supervision_step L history) i = Some e" for i e
    using final that tried_bound by (auto simp: supervision_inv_def)
  have "attempts_of (foldl supervision_step L history) i \<le> 12" for i
    using tried[of i] by (auto simp: attempts_of_def deliveries_tried_def split: option.splits if_splits)
  then have recorded: "recorded_failures L i history \<le> 12" for i
    using history_attempts[OF assms, of history i] by (metis add_leD2)
  show ?thesis
  proof (intro conjI allI impI final history_attempts[OF assms] recorded tried)
    fix i e assume e: "effect_of L i = Some e"
    then obtain e' where e': "effect_of (foldl supervision_step L history) i = Some e'" "effect_moves e e'"
      using moved by blast
    have good: "effect_good e" "effect_good e'" using e e'(1) assms final by (simp_all add: supervision_inv_def)
    have "fx_sequence e' = fx_sequence e \<and> fx_kind e' = fx_kind e \<and> fx_created_at e' = fx_created_at e
        \<and> effect_attempts e \<le> effect_attempts e'"
      using e'(2) good(1) by (auto simp: effect_moves_def)
    then show "\<exists>e'. effect_of (foldl supervision_step L history) i = Some e'
         \<and> fx_sequence e' = fx_sequence e \<and> fx_kind e' = fx_kind e \<and> fx_created_at e' = fx_created_at e
         \<and> effect_attempts e \<le> effect_attempts e' \<and> effect_attempts e' \<le> 12
         \<and> (closed_effect e \<longrightarrow> e' = e)"
      using e' attempts_bound[OF good(2)] closed_stays[OF e'(2)] by blast
  qed
qed

end
