(* ===== verification/Reminders_Arming.thy ===== *)
theory Reminders_Arming
  imports Supervision_History
begin

text \<open>
  What arming and stopping a reminder promise: who may arm which reminder, that arming again is arming
  once, that nobody has more than the limit, and that only the named reminder is stopped.
\<close>

section \<open>A fresh identifier\<close>

lemma fold_max_above: "x \<in> set xs \<Longrightarrow> x \<le> foldl max (h :: nat) xs"
proof -
  have mono: "h \<le> foldl max h xs" for h :: nat and xs
  proof (induction xs arbitrary: h)
    case (Cons a xs)
    have "max h a \<le> foldl max (max h a) xs" by (rule Cons.IH)
    then show ?case by simp
  qed simp
  show "x \<in> set xs \<Longrightarrow> x \<le> foldl max h xs"
    proof (induction xs arbitrary: h)
    case (Cons a xs)
    have "max h a \<le> foldl max (max h a) xs" by (rule mono)
    then show ?case using Cons by auto
  qed simp
qed

definition highest_reminder :: "supervision_ledger \<Rightarrow> string \<Rightarrow> nat" where
  "highest_reminder L pid = foldl max 0 (List.map_filter
     (\<lambda>i. Option.bind (strip_prefix i (''reminder:'' @ pid @ '':'')) parse_u64) (sd_reminder_order L))"

lemma next_reminder_id_fresh:
  assumes "highest_reminder L pid < u64_max"
  shows "next_reminder_id L pid \<notin> set (sd_reminder_order L)"
proof
  let ?h = "highest_reminder L pid"
  have i: "next_reminder_id L pid = (''reminder:'' @ pid @ '':'') @ show_nat (Suc ?h)"
    unfolding next_reminder_id_def Let_def highest_reminder_def[symmetric] using assms by (simp add: sat_add_u64_def)
  assume "next_reminder_id L pid \<in> set (sd_reminder_order L)"
  moreover have "Option.bind (strip_prefix (next_reminder_id L pid) (''reminder:'' @ pid @ '':'')) parse_u64 = Some (Suc ?h)"
    unfolding i strip_prefix_append using parse_u64_show_nat[of "Suc ?h"] assms by simp
  ultimately have "Suc ?h \<in> set (List.map_filter
      (\<lambda>i. Option.bind (strip_prefix i (''reminder:'' @ pid @ '':'')) parse_u64) (sd_reminder_order L))"
    by (force simp: map_filter_def)
  then have "Suc ?h \<le> ?h" unfolding highest_reminder_def by (rule fold_max_above)
  then show False by simp
qed

section \<open>Arming\<close>

lemma arm_terms_prompt: "arm_terms m request now = Inr prompt \<Longrightarrow> prompt = trim (ar_prompt request)"
  by (auto simp: arm_terms_def Let_def split: if_splits option.splits)

lemma arm_terms_expiry:
  "arm_terms m request now = Inr prompt \<Longrightarrow> ar_expires_at request = Some stamp \<Longrightarrow>
     \<exists>expiry. parse_iso_millis stamp = Some expiry \<and> now < expiry"
  by (auto simp: arm_terms_def Let_def split: if_splits option.splits)

lemma arm_terms_ok:
  "arm_terms m request now = Inr prompt \<Longrightarrow> prompt \<noteq> [] \<and> length prompt \<le> REMINDER_PROMPT_LIMIT
     \<and> MIN_REMINDER_INTERVAL_MS \<le> ar_interval_ms request
     \<and> (ar_recurring request \<longrightarrow> MIN_RECURRING_REMINDER_INTERVAL_MS \<le> ar_interval_ms request)"
  by (auto simp: arm_terms_def Let_def MIN_RECURRING_REMINDER_INTERVAL_MS_def ORGANIZATION_SETTLED_IDLE_STOP_LEASE_MS_def
      MIN_REMINDER_INTERVAL_MS_def split: if_splits option.splits)

lemma new_reminder_fields:
  "rd_created_at (new_reminder i request prompt now at) = at" "rd_fire_count (new_reminder i request prompt now at) = 0"
  "rd_last_fired_at (new_reminder i request prompt now at) = None"
  "rd_next_due_at (new_reminder i request prompt now at) = iso_millis (sat_add_i64 now (ar_interval_ms request))"
  by (simp_all add: new_reminder_def)

lemma new_reminder_same: "prompt = trim (ar_prompt request) \<Longrightarrow> same_reminder request prompt (new_reminder i request prompt now at)"
  by (simp add: same_reminder_def new_reminder_def)

lemma added_order:
  assumes "om_get (sd_reminders (dr_ledger d)) i = None" "i \<notin> set (sd_reminder_order (dr_ledger d))"
  shows "reminders_in_order (dr_ledger (add_reminder i r d)) = reminders_in_order (dr_ledger d) @ [r]"
proof -
  have "List.map_filter (om_get (om_put i r (sd_reminders (dr_ledger d)))) (sd_reminder_order (dr_ledger d))
      = List.map_filter (om_get (sd_reminders (dr_ledger d))) (sd_reminder_order (dr_ledger d))"
    using assms(2) unfolding map_filter_def
    by (intro map_cong filter_cong) (auto simp: store_simps)
  then show ?thesis by (simp add: reminders_in_order_def add_reminder_def map_filter_def store_simps)
qed

lemma find_in_append: "find P (xs @ ys) = (case find P xs of None \<Rightarrow> find P ys | Some x \<Rightarrow> Some x)"
  by (induction xs) simp_all

text \<open>What an arming that answered did: it found the reminder, or added one that was not there.\<close>

lemma arming_cases:
  assumes "arm_reminder_in m request d at = Inr (d', r)" "reminders_shape (dr_ledger d)"
    "highest_reminder (dr_ledger d) (ar_person_id request) < u64_max"
  obtains prompt where "arm_terms m request (pass_instant at) = Inr prompt"
    "person_is_in_scope m (Actor_Person (ar_created_by_person_id request)) (ar_person_id request)"
    "person m (ar_person_id request) \<noteq> None \<and> person m (ar_created_by_person_id request) \<noteq> None"
    "same_reminder request prompt r"
    "find (same_reminder request prompt) (reminders_in_order (dr_ledger d')) = Some r"
    "d' = d \<or> find (same_reminder request prompt) (reminders_in_order (dr_ledger d)) = None
       \<and> armed_for (dr_ledger d) (ar_person_id request) < REMINDERS_PER_PERSON_LIMIT
       \<and> d' = add_reminder (rd_id r) r d \<and> om_get (sd_reminders (dr_ledger d)) (rd_id r) = None
       \<and> rd_id r \<notin> set (sd_reminder_order (dr_ledger d))
       \<and> r = new_reminder (rd_id r) request prompt (pass_instant at) at"
    "arm_reminder_in m request d' at = Inr (d', r)"
proof -
  let ?L = "dr_ledger d" and ?i = "next_reminder_id (dr_ledger d) (ar_person_id request)"
  have fresh: "?i \<notin> set (sd_reminder_order ?L)" by (rule next_reminder_id_fresh[OF assms(3)])
  then have absent: "om_get (sd_reminders ?L) ?i = None"
    using assms(2) by (auto simp: reminders_shape_def om_keys_iff)
  note run = assms(1)[unfolded arm_reminder_in_def Let_def pass_instant_def[symmetric]]
  obtain prompt where p1: "arm_terms m request (pass_instant at) = Inr prompt"
    using run by (cases "arm_terms m request (pass_instant at)") simp_all
  note run = run[unfolded p1 res_bind.simps]
  have p2: "res_fold (check_known m) () [ar_person_id request, ar_created_by_person_id request] = Inr ()"
    using run by (cases "res_fold (check_known m) () [ar_person_id request, ar_created_by_person_id request]") simp_all
  note run = run[unfolded p2 res_bind.simps]
  have p3: "ensure_reminder_scope m (ar_created_by_person_id request) (ar_person_id request) = Inr ()"
    using run by (cases "ensure_reminder_scope m (ar_created_by_person_id request) (ar_person_id request)") simp_all
  note p = p1 p3 run[unfolded p3 res_bind.simps]
  have again: "arm_reminder_in m request d' at = Inr (d', r)"
    if "find (same_reminder request prompt) (reminders_in_order (dr_ledger d')) = Some r"
    unfolding arm_reminder_in_def Let_def pass_instant_def[symmetric] p1 p2 p3 res_bind.simps that by simp
  have scope: "person_is_in_scope m (Actor_Person (ar_created_by_person_id request)) (ar_person_id request)"
    using p(2) by (simp add: ensure_reminder_scope_def split: if_splits)
  have known: "person m (ar_person_id request) \<noteq> None \<and> person m (ar_created_by_person_id request) \<noteq> None"
    using p2 by (auto simp: check_known_def split: if_splits)
  show thesis
  proof (cases "find (same_reminder request prompt) (reminders_in_order ?L)")
    case (Some existing)
    then have "same_reminder request prompt existing" by (auto simp: find_Some_iff)
    then show thesis using that[OF p(1) scope known] p(3) Some again by simp
  next
    case None
    let ?r = "new_reminder ?i request prompt (pass_instant at) at"
    have r: "r = ?r" "d' = add_reminder ?i ?r d" "armed_for ?L (ar_person_id request) < REMINDERS_PER_PERSON_LIMIT"
      using p(3) None by (auto split: if_splits)
    have i: "rd_id ?r = ?i" by (simp add: new_reminder_def)
    have same: "same_reminder request prompt ?r" by (rule new_reminder_same[OF arm_terms_prompt[OF p(1)]])
    then have "find (same_reminder request prompt) (reminders_in_order (dr_ledger d')) = Some r"
      using None unfolding r(1,2) added_order[OF absent fresh] by (simp add: find_in_append)
    moreover have "same_reminder request prompt r" using same r(1) by simp
    moreover have "rd_id r = ?i" using r(1) i by simp
    ultimately show thesis
      using that[OF p(1) scope known] None r fresh absent again by simp
  qed
qed

lemma armed_for_added:
  assumes "om_get (sd_reminders (dr_ledger d)) i = None" "i \<notin> set (sd_reminder_order (dr_ledger d))"
  shows "armed_for (dr_ledger (add_reminder i r d)) pid =
    armed_for (dr_ledger d) pid + (if rd_person_id r = pid \<and> rd_status r = ''active'' then 1 else 0)"
  by (simp add: armed_for_def added_order[OF assms])

text \<open>What a request asks for: an active reminder of that person, armed by that person, on those terms.\<close>

definition asked_for :: "arm_request \<Rightarrow> reminder \<Rightarrow> bool" where
  "asked_for request r \<longleftrightarrow> rd_status r = ''active''
     \<and> rd_person_id r = ar_person_id request \<and> rd_created_by_person_id r = ar_created_by_person_id request
     \<and> rd_prompt r = trim (ar_prompt request) \<and> rd_interval_ms r = ar_interval_ms request
     \<and> rd_recurring r = ar_recurring request \<and> rd_expires_at r = ar_expires_at request"

lemma asked_for_same: "prompt = trim (ar_prompt request) \<Longrightarrow> same_reminder request prompt = asked_for request"
  by (auto simp: same_reminder_def asked_for_def fun_eq_iff)

text \<open>
  C26. Arming a reminder. Only someone who manages the person, or the person, arms it, and both are people of
  the company. The answer is an active reminder for that person, by that person, with the trimmed prompt, the
  interval, the recurrence and the expiry asked for; the prompt is not empty and within the limit, the
  interval is at least the floor, for a recurring one the floor above the settle window, and an expiry lies
  ahead. If such a reminder was armed already the answer is that one and nothing changed; otherwise it is a
  new one under a fresh identifier, created now, never fired, first due one interval from now, beside the
  others. Nobody gets past the limit of armed reminders by it, and arming again answers the same reminder
  and changes nothing.
\<close>

theorem arming_a_reminder:
  assumes "arm_reminder_in m request d at = Inr (d', r)" "reminders_shape (dr_ledger d)"
    "highest_reminder (dr_ledger d) (ar_person_id request) < u64_max"
  shows "person_is_in_scope m (Actor_Person (ar_created_by_person_id request)) (ar_person_id request)
    \<and> person m (ar_person_id request) \<noteq> None \<and> person m (ar_created_by_person_id request) \<noteq> None
    \<and> asked_for request r \<and> rd_prompt r \<noteq> [] \<and> length (rd_prompt r) \<le> REMINDER_PROMPT_LIMIT
    \<and> (if rd_recurring r then MIN_RECURRING_REMINDER_INTERVAL_MS else MIN_REMINDER_INTERVAL_MS) \<le> rd_interval_ms r
    \<and> (case rd_expires_at r of None \<Rightarrow> True
        | Some stamp \<Rightarrow> \<exists>expiry. parse_iso_millis stamp = Some expiry \<and> pass_instant at < expiry)
    \<and> (if \<exists>r0 \<in> set (reminders_in_order (dr_ledger d)). asked_for request r0
       then d' = d \<and> r \<in> set (reminders_in_order (dr_ledger d))
       else om_get (sd_reminders (dr_ledger d)) (rd_id r) = None \<and> d' = add_reminder (rd_id r) r d
          \<and> rd_created_at r = at \<and> rd_fire_count r = 0 \<and> rd_last_fired_at r = None
          \<and> rd_next_due_at r = iso_millis (sat_add_i64 (pass_instant at) (ar_interval_ms request)))
    \<and> (\<forall>pid. armed_for (dr_ledger d') pid \<le> max (armed_for (dr_ledger d) pid) REMINDERS_PER_PERSON_LIMIT)
    \<and> arm_reminder_in m request d' at = Inr (d', r)"
proof (rule arming_cases[OF assms])
  fix prompt
  let ?old = "reminders_in_order (dr_ledger d)"
  assume p: "arm_terms m request (pass_instant at) = Inr prompt" and same: "same_reminder request prompt r"
    and scope: "person_is_in_scope m (Actor_Person (ar_created_by_person_id request)) (ar_person_id request)"
    and known: "person m (ar_person_id request) \<noteq> None \<and> person m (ar_created_by_person_id request) \<noteq> None"
    and found: "find (same_reminder request prompt) (reminders_in_order (dr_ledger d')) = Some r"
    and again: "arm_reminder_in m request d' at = Inr (d', r)"
    and did: "d' = d \<or> find (same_reminder request prompt) ?old = None
       \<and> armed_for (dr_ledger d) (ar_person_id request) < REMINDERS_PER_PERSON_LIMIT
       \<and> d' = add_reminder (rd_id r) r d \<and> om_get (sd_reminders (dr_ledger d)) (rd_id r) = None
       \<and> rd_id r \<notin> set (sd_reminder_order (dr_ledger d))
       \<and> r = new_reminder (rd_id r) request prompt (pass_instant at) at"
  note spec = asked_for_same[OF arm_terms_prompt[OF p]]
  have r: "asked_for request r" using same spec by simp
  then have terms: "rd_status r = ''active''" "rd_person_id r = ar_person_id request" "rd_prompt r = prompt"
      "rd_interval_ms r = ar_interval_ms request" "rd_recurring r = ar_recurring request" "rd_expires_at r = ar_expires_at request"
    using arm_terms_prompt[OF p] by (simp_all add: asked_for_def)
  have limit: "armed_for (dr_ledger d') pid \<le> max (armed_for (dr_ledger d) pid) REMINDERS_PER_PERSON_LIMIT" for pid
    using did terms(1,2) armed_for_added[of d "rd_id r" r pid] by (cases "pid = ar_person_id request") auto
  have expiry: "case rd_expires_at r of None \<Rightarrow> True
        | Some stamp \<Rightarrow> \<exists>expiry. parse_iso_millis stamp = Some expiry \<and> pass_instant at < expiry"
    using arm_terms_expiry[OF p] terms(6) by (simp split: option.split)
  have "if \<exists>r0 \<in> set ?old. asked_for request r0 then d' = d \<and> r \<in> set ?old
       else om_get (sd_reminders (dr_ledger d)) (rd_id r) = None \<and> d' = add_reminder (rd_id r) r d
          \<and> rd_created_at r = at \<and> rd_fire_count r = 0 \<and> rd_last_fired_at r = None
          \<and> rd_next_due_at r = iso_millis (sat_add_i64 (pass_instant at) (ar_interval_ms request))"
  proof (cases "find (asked_for request) ?old")
    case None
    then have "\<forall>r0 \<in> set ?old. \<not> asked_for request r0" by (simp add: find_None_iff)
    moreover have new: "d' \<noteq> d" using None found spec by auto
    moreover have "rd_created_at r = at \<and> rd_fire_count r = 0 \<and> rd_last_fired_at r = None
          \<and> rd_next_due_at r = iso_millis (sat_add_i64 (pass_instant at) (ar_interval_ms request))"
    proof -
      have "r = new_reminder (rd_id r) request prompt (pass_instant at) at" using did new by blast
      then show ?thesis by (metis new_reminder_fields)
    qed
    ultimately show ?thesis using did by auto
  next
    case (Some r1)
    then have "d' = d" "r1 = r" using did found spec by auto
    then show ?thesis using Some by (auto simp: find_Some_iff)
  qed
  then show ?thesis
    using scope known r terms arm_terms_ok[OF p] expiry limit again by auto
qed

text \<open>
  Stopping a reminder stops that one. Only someone who manages the person, or the person, stops a reminder,
  and only one of that person; afterwards it does not fire again, every other reminder is as it was, and
  stopping again changes nothing.
\<close>

theorem stopping_a_reminder:
  assumes "stop_reminder_in m actor pid i d at = Inr (d', r)"
  shows "person_is_in_scope m (Actor_Person actor) pid \<and> rd_person_id r = pid
    \<and> om_get (sd_reminders (dr_ledger d')) i = Some r \<and> rd_status r \<noteq> ''active'' \<and> \<not> fires now (dr_ledger d') i
    \<and> (\<forall>k. k \<noteq> i \<longrightarrow> om_get (sd_reminders (dr_ledger d')) k = om_get (sd_reminders (dr_ledger d)) k)
    \<and> effect_of (dr_ledger d') = effect_of (dr_ledger d)
    \<and> (om_wf (sd_reminders (dr_ledger d)) \<longrightarrow> stop_reminder_in m actor pid i d' at = Inr (d', r))"
proof -
  have scope: "ensure_reminder_scope m actor pid = Inr ()"
    using assms by (cases "ensure_reminder_scope m actor pid") (simp_all add: stop_reminder_in_def)
  obtain r0 where r0: "om_get (sd_reminders (dr_ledger d)) i = Some r0"
    using assms by (cases "om_get (sd_reminders (dr_ledger d)) i") (simp_all add: stop_reminder_in_def scope)
  have pid: "rd_person_id r0 = pid"
    using assms by (simp add: stop_reminder_in_def scope r0 Let_def split: if_splits)
  then have r: "r = (if rd_status r0 = ''active'' then r0\<lparr>rd_status := ''stopped'',
      rd_stopped_reason := Some ''stopped'', rd_stopped_at := Some at\<rparr> else r0)" "d' = update_reminder i r d"
    using assms by (auto simp: stop_reminder_in_def scope r0 Let_def split: if_splits)
  have stopped: "rd_status r \<noteq> ''active''" "rd_person_id r = pid" using r(1) pid by auto
  have get: "om_get (sd_reminders (dr_ledger d')) i = Some r" unfolding r(2) by simp
  have "stop_reminder_in m actor pid i d' at = Inr (update_reminder i r d', r)"
    using get stopped by (simp add: stop_reminder_in_def scope Let_def)
  moreover have "update_reminder i r d' = d'" if "om_wf (sd_reminders (dr_ledger d))"
  proof -
    have "om_put i r (om_put i r (sd_reminders (dr_ledger d))) = om_put i r (sd_reminders (dr_ledger d))"
      by (rule om_put_same) (simp_all add: om_wf_put that store_simps)
    then show ?thesis unfolding r(2) by (simp add: update_reminder_def)
  qed
  moreover have "person_is_in_scope m (Actor_Person actor) pid"
    using scope by (simp add: ensure_reminder_scope_def split: if_splits)
  ultimately show ?thesis
    using get stopped by (simp add: fires_def is_armed_def) (simp add: r(2))
qed

end
