(* ===== verification/Supervision_Dispatch.thy ===== *)
theory Supervision_Dispatch
  imports Reminders
begin

text \<open>
  The host half of effect delivery (\<open>chiefd-core/src/store/supervision/dispatch.rs\<close>, the staging of
  \<open>runtime/delivery_sink.rs\<close>, the drain of \<open>chiefd-daemon/src/run.rs\<close>): an effect is rendered as a mailbox
  envelope and enqueued, then the people it reached are woken, then the outcome is recorded on the effects.
  The waker is a parameter, as it is a trait.
\<close>

section \<open>Rendering\<close>

record delivery_request =
  dq_id :: string
  dq_kind :: string
  dq_payload :: json

record dispatch_failure =
  df_effect_id :: string
  df_reason :: string

definition SYSTEM_SENDER :: string where "SYSTEM_SENDER = ''launcher''"

fun json_text :: "json \<Rightarrow> string \<Rightarrow> string option" where
  "json_text (JObject entries) key = (case om_get entries key of Some (JString s) \<Rightarrow> Some s | _ \<Rightarrow> None)"
| "json_text _ key = None"

definition recipients_for :: "string \<Rightarrow> json \<Rightarrow> string list" where
  "recipients_for kind payload = (case json_text payload ''recipientPersonId'' of
     Some explicit \<Rightarrow> [explicit]
   | None \<Rightarrow>
       (case (if kind = REMINDER_EFFECT_KIND then json_text payload ''personId''
              else (case json_text payload ''assigneePersonId'' of
                Some p \<Rightarrow> Some p | None \<Rightarrow> json_text payload ''managerPersonId'')) of
          None \<Rightarrow> [] | Some p \<Rightarrow> [p]))"

definition urgency_for :: "string \<Rightarrow> urgency" where
  "urgency_for kind = (if kind = RECONCILE_ESCALATION_EFFECT_KIND then Urgency_Interrupt else Urgency_Normal)"

definition first_text :: "json \<Rightarrow> string list \<Rightarrow> string option" where
  "first_text payload keys = (case List.map_filter (json_text payload) keys of [] \<Rightarrow> None | t # _ \<Rightarrow> Some t)"

definition no_content :: "string \<Rightarrow> string" where
  "no_content kind = ''effect kind '' @ quoted kind @ '' carries no body/message/request content; an envelope ''
     @ ''effect is deliverable only with non-empty body, message or request text''"

definition no_recipient :: "string \<Rightarrow> string" where
  "no_recipient kind = ''effect kind '' @ quoted kind @ '' names no recipient; an envelope effect is deliverable ''
     @ ''only when it carries recipientPersonId, or the routing key its own kind ''
     @ ''uses (assigneePersonId, managerPersonId or personId)''"

definition envelope_body :: "string \<Rightarrow> json \<Rightarrow> string + string" where
  "envelope_body kind payload = (case first_text payload [''body'', ''message'', ''request''] of
     None \<Rightarrow> Inl (no_content kind) | Some t \<Rightarrow> if trim t = [] then Inl (no_content kind) else Inr t)"

definition render_effect ::
  "string \<Rightarrow> string \<Rightarrow> json \<Rightarrow> string \<Rightarrow> string \<Rightarrow> string + mailbox_envelope" where
  "render_effect effect_id kind payload organization at = (case recipients_for kind payload of
     [] \<Rightarrow> Inl (no_recipient kind)
   | to # rest \<Rightarrow>
       res_bind (envelope_body kind payload) (\<lambda>body. Inr \<lparr>env_schema_version = MAILBOX_ENVELOPE_SCHEMA_VERSION,
         env_id = effect_id, env_organization = organization, env_from_person_id = SYSTEM_SENDER, env_to = to,
         env_recipients = to # rest, env_body = body, env_urgency = urgency_for kind,
         env_reply_to = json_text payload ''replyTo'', env_health_incident = None, env_created_at = at\<rparr>))"

section \<open>Staging and waking\<close>

text \<open>Enqueueing an envelope has no failure of its own, so its error branch is never taken.\<close>

record staged_batch =
  sb_delivered_envelopes :: "string list"
  sb_failed :: "dispatch_failure list"
  sb_wake_recipients :: "string list"

definition stage_one ::
  "string \<Rightarrow> string \<Rightarrow> ledgers \<times> staged_batch \<Rightarrow> delivery_request \<Rightarrow> ledgers \<times> staged_batch" where
  "stage_one organization at s q = (case render_effect (dq_id q) (dq_kind q) (dq_payload q) organization at of
     Inl error \<Rightarrow> (fst s, (snd s)\<lparr>sb_failed := sb_failed (snd s)
       @ [\<lparr>df_effect_id = dq_id q, df_reason = ''the effect could not be rendered: '' @ error\<rparr>]\<rparr>)
   | Inr envelope \<Rightarrow>
       (let enqueued = mailbox_enqueue envelope (fst s)
        in (fst enqueued, (snd s)\<lparr>sb_delivered_envelopes := sb_delivered_envelopes (snd s) @ [dq_id q],
              sb_wake_recipients := sorted_set (sb_wake_recipients (snd s) @ snd enqueued)\<rparr>)))"

definition stage_batch :: "string \<Rightarrow> delivery_request list \<Rightarrow> ledgers \<Rightarrow> ledgers \<times> staged_batch" where
  "stage_batch organization batch l =
     foldl (stage_one organization (iso_millis (lg_now l)))
       (l, \<lparr>sb_delivered_envelopes = [], sb_failed = [], sb_wake_recipients = []\<rparr>) batch"

record delivery_report =
  dl_delivered :: "string list"
  dl_failed :: "dispatch_failure list"
  dl_woken :: "string list"

definition actuate_staged :: "(string list \<Rightarrow> string list) \<Rightarrow> staged_batch \<Rightarrow> delivery_report" where
  "actuate_staged wake staged = \<lparr>dl_delivered = sb_delivered_envelopes staged, dl_failed = sb_failed staged,
     dl_woken = (if sb_wake_recipients staged = [] then [] else wake (sb_wake_recipients staged))\<rparr>"

definition deliver_batch ::
  "(string list \<Rightarrow> string list) \<Rightarrow> string \<Rightarrow> delivery_request list \<Rightarrow> ledgers \<Rightarrow> ledgers \<times> delivery_report" where
  "deliver_batch wake organization batch l =
     (let staged = stage_batch organization batch l in (fst staged, actuate_staged wake (snd staged)))"

text \<open>What the daemon's drain asks to be delivered: the urgent effects first, with their payloads.\<close>

definition request_of :: "effect \<Rightarrow> delivery_request" where
  "request_of e = \<lparr>dq_id = fx_id e, dq_kind = fx_kind e, dq_payload = JObject (fx_payload e)\<rparr>"

definition drain_requests :: "supervision_ledger \<Rightarrow> delivery_request list" where
  "drain_requests l = (let plan = dispatch_plan_of l
     in map request_of (List.map_filter (effect_of l) (dp_urgent plan @ dp_routine plan)))"

end
