(* ===== verification/Dispatch_Contract.thy ===== *)
theory Dispatch_Contract
  imports Reminders_Arming Supervision_Dispatch
begin

text \<open>
  What the delivery of effects promises: staging a batch again adds nothing, and a reminder that fell due
  reaches the mailbox of its person. The escalation of a failed actuation reaches nobody.
\<close>

section \<open>Rendering\<close>

lemma om_get_of_list: "om_get (om_of_list es) k = map_of (rev es) k"
proof -
  have "om_get (foldl (\<lambda>m e. om_put (fst e) (snd e) m) m es) k = (map_of m ++ map_of (rev es)) k" for m
  proof (induction es arbitrary: m)
    case (Cons e es)
    then show ?case by (cases e) (simp add: map_add_def store_simps om_get_def[symmetric] split: option.splits)
  qed (simp add: om_get_def)
  from this[of "[]"] show ?thesis by (simp add: om_of_list_def)
qed

lemma reminder_message_text: "trim (reminder_message r) \<noteq> []"
proof -
  have "white_len (reminder_message r) = 0"
    by (simp add: reminder_message_def Let_def REMINDER_MARKER_def byte_def white2_def white3_def)
  then have "trim_start (reminder_message r) = reminder_message r" by (rule trim_start_id)
  moreover have "reminder_message r \<noteq> []" by (simp add: reminder_message_def Let_def REMINDER_MARKER_def)
  ultimately show ?thesis by (simp add: trim_Nil_iff)
qed

definition reminder_envelope :: "string \<Rightarrow> string \<Rightarrow> reminder \<Rightarrow> string \<Rightarrow> mailbox_envelope" where
  "reminder_envelope organization at r i = \<lparr>env_schema_version = MAILBOX_ENVELOPE_SCHEMA_VERSION,
     env_id = i, env_organization = organization, env_from_person_id = SYSTEM_SENDER, env_to = rd_person_id r,
     env_recipients = [rd_person_id r], env_body = reminder_message r, env_urgency = Urgency_Normal,
     env_reply_to = None, env_health_incident = None, env_created_at = at\<rparr>"

lemma reminder_renders:
  "render_effect i REMINDER_EFFECT_KIND (JObject (reminder_payload r)) organization at =
     Inr (reminder_envelope organization at r i)"
  using reminder_message_text[of r]
  by (simp add: render_effect_def recipients_for_def reminder_payload_def om_get_of_list envelope_body_def first_text_def
      map_filter_def urgency_for_def REMINDER_EFFECT_KIND_def RECONCILE_ESCALATION_EFFECT_KIND_def reminder_envelope_def)

lemma escalation_never_renders:
  "render_effect i RECONCILE_ESCALATION_EFFECT_KIND (JObject (reconcile_escalation_payload slug reason detail)) organization at
     = Inl (no_recipient RECONCILE_ESCALATION_EFFECT_KIND)"
  by (simp add: render_effect_def recipients_for_def reconcile_escalation_payload_def om_get_of_list
      REMINDER_EFFECT_KIND_def RECONCILE_ESCALATION_EFFECT_KIND_def)

section \<open>Enqueueing\<close>

definition rows_kept :: "ledgers \<Rightarrow> ledgers \<Rightarrow> bool" where
  "rows_kept l l' \<longleftrightarrow> lg_now l' = lg_now l \<and> (\<forall>rid row. mailbox l rid = Some row \<longrightarrow> mailbox l' rid = Some row)"

lemma rows_kept_refl [simp]: "rows_kept l l" by (simp add: rows_kept_def)

lemma rows_kept_trans: "rows_kept l l1 \<Longrightarrow> rows_kept l1 l2 \<Longrightarrow> rows_kept l l2" by (simp add: rows_kept_def)

definition pending_of :: "ledgers \<Rightarrow> mailbox_envelope \<Rightarrow> string list" where
  "pending_of l env = filter (\<lambda>p. is_pending l (row_id env p)) (sorted_set (env_recipients env))"

definition filed :: "ledgers \<Rightarrow> mailbox_envelope \<Rightarrow> bool" where
  "filed l env \<longleftrightarrow> (\<forall>p \<in> set (env_recipients env). mailbox l (row_id env p) \<noteq> None)"

lemma filed_kept: "rows_kept l l' \<Longrightarrow> filed l env \<Longrightarrow> filed l' env \<and> pending_of l' env = pending_of l env"
proof
  assume k: "rows_kept l l'" and f: "filed l env"
  have same: "mailbox l' (row_id env p) = mailbox l (row_id env p)" if "p \<in> set (env_recipients env)" for p
    using k f that by (auto simp: filed_def rows_kept_def)
  then show "filed l' env" using f by (simp add: filed_def)
  show "pending_of l' env = pending_of l env"
    unfolding pending_of_def by (rule filter_cong) (simp_all add: is_pending_def same)
qed

lemma enqueue_files:
  assumes "mailbox_enqueue env l = (l', ps)"
  shows "rows_kept l l'" "filed l' env" "ps = pending_of l' env"
    "mailbox l rid = None \<Longrightarrow> mailbox l' rid = Some row \<Longrightarrow>
       \<exists>p \<in> set (env_recipients env). rid = row_id env p \<and> row = new_row env p (lg_now l)"
proof -
  note f = enqueue_fold[OF distinct_sorted_set assms[unfolded mailbox_enqueue_def]]
  show kept: "rows_kept l l'"
    unfolding rows_kept_def
  proof (intro conjI allI impI)
    fix rid row assume "mailbox l rid = Some row"
    then show "mailbox l' rid = Some row"
      using f by (cases "rid \<in> row_id env ` set (env_recipients env)") (auto simp: enqueued_row_def)
  qed (use f in simp)
  show "filed l' env" using f by (simp add: filed_def)
  show "ps = pending_of l' env"
    using f by (auto simp: pending_of_def delivers_iff is_pending_def intro!: filter_cong)
  show "\<exists>p \<in> set (env_recipients env). rid = row_id env p \<and> row = new_row env p (lg_now l)"
    if "mailbox l rid = None" "mailbox l' rid = Some row"
    using f that by (cases "rid \<in> row_id env ` set (env_recipients env)") (auto simp: enqueued_row_def)
qed

lemma enqueue_again:
  assumes "filed l env"
  shows "mailbox_enqueue env l = (l, pending_of l env)"
proof -
  have "foldl (enqueue_one env) (l, pending) ps = (l, pending @ filter (\<lambda>p. is_pending l (row_id env p)) ps)"
    if "\<forall>p \<in> set ps. mailbox l (row_id env p) \<noteq> None" for ps pending
    using that by (induction ps arbitrary: pending) (auto simp: enqueue_one_cases)
  then show ?thesis using assms by (simp add: mailbox_enqueue_def pending_of_def filed_def)
qed

section \<open>Staging\<close>

definition rendered :: "string \<Rightarrow> string \<Rightarrow> delivery_request \<Rightarrow> string + mailbox_envelope" where
  "rendered organization at q = render_effect (dq_id q) (dq_kind q) (dq_payload q) organization at"

lemma rendered_again:
  assumes "rendered organization at q = Inr env"
  obtains env' where "rendered organization at' q = Inr env'" "env_id env' = env_id env" "env_recipients env' = env_recipients env"
    "env_id env = dq_id q"
  using assms
  by (cases "envelope_body (dq_kind q) (dq_payload q)") (auto simp: rendered_def render_effect_def split: list.splits)

lemma rendered_error: "rendered organization at q = Inl e \<longleftrightarrow> rendered organization at' q = Inl e"
  by (cases "envelope_body (dq_kind q) (dq_payload q)") (auto simp: rendered_def render_effect_def split: list.splits)

lemma same_rows:
  assumes "env_id env' = env_id env" "env_recipients env' = env_recipients env"
  shows "filed l env' = filed l env" "pending_of l env' = pending_of l env"
  using assms by (simp_all add: filed_def pending_of_def row_id_def)

definition all_filed :: "string \<Rightarrow> string \<Rightarrow> ledgers \<Rightarrow> delivery_request list \<Rightarrow> bool" where
  "all_filed organization at l batch \<longleftrightarrow> (\<forall>q \<in> set batch. \<forall>env. rendered organization at q = Inr env \<longrightarrow> filed l env)"

text \<open>What the staging of a batch reports, over the mailbox it leaves.\<close>

definition report_one :: "string \<Rightarrow> string \<Rightarrow> ledgers \<Rightarrow> staged_batch \<Rightarrow> delivery_request \<Rightarrow> staged_batch" where
  "report_one organization at l s q = (case rendered organization at q of
     Inl error \<Rightarrow> s\<lparr>sb_failed := sb_failed s
       @ [\<lparr>df_effect_id = dq_id q, df_reason = ''the effect could not be rendered: '' @ error\<rparr>]\<rparr>
   | Inr env \<Rightarrow> s\<lparr>sb_delivered_envelopes := sb_delivered_envelopes s @ [dq_id q],
       sb_wake_recipients := sorted_set (sb_wake_recipients s @ pending_of l env)\<rparr>)"

lemma report_kept:
  assumes "rows_kept l l'" "all_filed organization at l batch"
  shows "foldl (report_one organization at l') s batch = foldl (report_one organization at l) s batch"
proof (rule foldl_cong)
  fix q s assume "q \<in> set batch"
  then show "report_one organization at l' s q = report_one organization at l s q"
    using assms filed_kept unfolding all_filed_def report_one_def by (auto split: sum.splits)
qed simp_all

lemma stage_one_does:
  "stage_one organization at (l, s) q = (case rendered organization at q of
     Inl _ \<Rightarrow> (l, report_one organization at l s q)
   | Inr env \<Rightarrow> (fst (mailbox_enqueue env l), report_one organization at (fst (mailbox_enqueue env l)) s q))"
proof (cases "rendered organization at q")
  case (Inr env)
  obtain l' ps where e: "mailbox_enqueue env l = (l', ps)" by (metis surj_pair)
  show ?thesis using Inr enqueue_files(3)[OF e]
    by (simp add: stage_one_def report_one_def rendered_def e Let_def)
qed (simp add: stage_one_def report_one_def rendered_def)

lemma stage_all:
  assumes "foldl (stage_one organization at) (l, s) batch = (l', s')"
  shows "rows_kept l l' \<and> all_filed organization at l' batch \<and> s' = foldl (report_one organization at l') s batch
    \<and> (\<forall>rid row. mailbox l rid = None \<longrightarrow> mailbox l' rid = Some row \<longrightarrow>
         (\<exists>q \<in> set batch. \<exists>env. rendered organization at q = Inr env
            \<and> (\<exists>p \<in> set (env_recipients env). rid = row_id env p \<and> row = new_row env p (lg_now l))))"
  using assms
proof (induction batch arbitrary: l s)
  case Nil
  then show ?case by (auto simp: all_filed_def)
next
  case (Cons q batch)
  obtain l1 s1 where one: "stage_one organization at (l, s) q = (l1, s1)" by (metis surj_pair)
  then have rest: "foldl (stage_one organization at) (l1, s1) batch = (l', s')" using Cons.prems by simp
  have k: "rows_kept l l1 \<and> all_filed organization at l1 [q] \<and> s1 = report_one organization at l1 s q
    \<and> (\<forall>rid row. mailbox l rid = None \<longrightarrow> mailbox l1 rid = Some row \<longrightarrow> (\<exists>env. rendered organization at q = Inr env
            \<and> (\<exists>p \<in> set (env_recipients env). rid = row_id env p \<and> row = new_row env p (lg_now l))))"
  proof (cases "rendered organization at q")
    case (Inr env)
    have "mailbox_enqueue env l = (l1, snd (mailbox_enqueue env l))" "s1 = report_one organization at l1 s q"
      using one Inr by (auto simp: stage_one_does prod_eq_iff)
    with enqueue_files[OF this(1)] Inr show ?thesis by (auto simp: all_filed_def)
  next
    case (Inl e)
    then show ?thesis using one by (auto simp: stage_one_does all_filed_def)
  qed
  note IH = Cons.IH[OF rest]
  have kept: "rows_kept l l'" using k IH rows_kept_trans by blast
  have filed: "all_filed organization at l' (q # batch)"
    using k IH filed_kept unfolding all_filed_def by (metis list.set_intros(1) set_ConsD)
  have "s' = foldl (report_one organization at l') (report_one organization at l1 s q) batch" using k IH by blast
  moreover have "report_one organization at l1 s q = report_one organization at l' s q"
    using report_kept[of l1 l' organization at "[q]" s] k IH by simp
  ultimately have report: "s' = foldl (report_one organization at l') s (q # batch)" by simp
  have "\<exists>q \<in> set (q # batch). \<exists>env. rendered organization at q = Inr env
      \<and> (\<exists>p \<in> set (env_recipients env). rid = row_id env p \<and> row = new_row env p (lg_now l))"
    if new: "mailbox l rid = None" "mailbox l' rid = Some row" for rid row
  proof (cases "mailbox l1 rid")
    case None
    then show ?thesis using IH new(2) k by (auto simp: rows_kept_def)
  next
    case (Some row1)
    then have "row1 = row" using IH new(2) by (simp add: rows_kept_def)
    then show ?thesis using k new(1) Some by auto
  qed
  then show ?case using kept filed report by blast
qed

lemma stage_filed:
  assumes "all_filed organization at l batch"
  shows "foldl (stage_one organization at) (l, s) batch = (l, foldl (report_one organization at l) s batch)"
  using assms
proof (induction batch arbitrary: s)
  case (Cons q batch)
  have "stage_one organization at (l, s) q = (l, report_one organization at l s q)"
    using Cons.prems by (auto simp: stage_one_does all_filed_def enqueue_again split: sum.splits)
  moreover have "all_filed organization at l batch" using Cons.prems by (simp add: all_filed_def)
  ultimately show ?case using Cons.IH by simp
qed simp

text \<open>
  C25. Staging a batch twice is staging it once, whenever the retry happens: after a crash between the
  mailbox and the effects, the same effects are rendered again, every envelope is already in its rows, and
  the second staging changes no row and reports the same deliveries, failures and people to wake.
\<close>

theorem staging_twice_is_staging_once:
  assumes "stage_batch organization batch l = (l1, staged)"
  shows "stage_batch organization batch (set_now later l1) = (set_now later l1, staged)"
proof -
  let ?at = "iso_millis (lg_now l)" and ?at' = "iso_millis later" and ?l = "set_now later l1"
  note first = stage_all[OF assms[unfolded stage_batch_def]]
  have mb: "mailbox ?l = mailbox l1" by (simp add: mailbox_def set_now_def fun_eq_iff)
  then have views: "filed ?l env = filed l1 env" "pending_of ?l env = pending_of l1 env" for env
    by (simp_all add: filed_def pending_of_def is_pending_def)
  have "all_filed organization ?at' ?l batch"
    unfolding all_filed_def
  proof (intro ballI allI impI)
    fix q env assume q: "q \<in> set batch" "rendered organization ?at' q = Inr env"
    then obtain env0 where "rendered organization ?at q = Inr env0" "env_id env0 = env_id env" "env_recipients env0 = env_recipients env"
      using rendered_again by metis
    then show "filed ?l env" using first q(1) views same_rows[of env0 env] by (auto simp: all_filed_def)
  qed
  note second = stage_filed[OF this]
  have "report_one organization ?at' ?l s q = report_one organization ?at l1 s q" for s q
  proof (cases "rendered organization ?at q")
    case (Inl e)
    then show ?thesis using rendered_error[of organization ?at q e ?at'] by (simp add: report_one_def)
  next
    case (Inr env)
    then obtain env' where "rendered organization ?at' q = Inr env'" "env_id env' = env_id env" "env_recipients env' = env_recipients env"
      using rendered_again by metis
    then show ?thesis using Inr views same_rows[of env' env] by (simp add: report_one_def)
  qed
  then have "foldl (report_one organization ?at' ?l) s batch = foldl (report_one organization ?at l1) s batch" for s
    by (intro foldl_cong) simp_all
  then show ?thesis using first second by (simp add: stage_batch_def set_now_def[of later l1])
qed

section \<open>From the reminder to the mailbox\<close>

definition is_due_effect :: "supervision_ledger \<Rightarrow> string \<Rightarrow> bool" where
  "is_due_effect L i \<longleftrightarrow> (\<exists>e. effect_of L i = Some e \<and> fx_status e = Effect_Pending)"

lemma plan_members:
  "set (dp_urgent (foldl (plan_effect L) plan ids)) \<union> set (dp_routine (foldl (plan_effect L) plan ids))
     = set (dp_urgent plan) \<union> set (dp_routine plan) \<union> {i \<in> set ids. is_due_effect L i}"
proof (induction ids arbitrary: plan)
  case (Cons i ids)
  have "set (dp_urgent (plan_effect L plan i)) \<union> set (dp_routine (plan_effect L plan i))
      = set (dp_urgent plan) \<union> set (dp_routine plan) \<union> (if is_due_effect L i then {i} else {})"
    by (auto simp: plan_effect_def is_due_effect_def split: option.splits if_splits)
  then show ?case using Cons.IH[of "plan_effect L plan i"] by auto
qed simp

lemma drained: "set (drain_requests L) = request_of ` {e. \<exists>i \<in> set (su_effect_order L). effect_of L i = Some e \<and> fx_status e = Effect_Pending}"
proof -
  have "set (dp_urgent (dispatch_plan_of L) @ dp_routine (dispatch_plan_of L)) = {i \<in> set (su_effect_order L). is_due_effect L i}"
    using plan_members[of L "\<lparr>dp_routine = [], dp_urgent = []\<rparr>" "su_effect_order L"] by (simp add: dispatch_plan_of_def)
  moreover have "set (List.map_filter (effect_of L) is) = {e. \<exists>i \<in> set is. effect_of L i = Some e}" for "is"
    by (induction "is") (auto simp: map_filter_simps split: option.splits)
  ultimately show ?thesis unfolding drain_requests_def Let_def set_map by (auto simp: is_due_effect_def)
qed

lemma report_delivers:
  "set (sb_delivered_envelopes (foldl (report_one organization at l) s batch)) = set (sb_delivered_envelopes s)
     \<union> {dq_id q | q. q \<in> set batch \<and> (\<exists>env. rendered organization at q = Inr env)}"
proof (induction batch arbitrary: s)
  case (Cons q batch)
  have "set (sb_delivered_envelopes (report_one organization at l s q)) = set (sb_delivered_envelopes s)
      \<union> {dq_id p | p. p = q \<and> (\<exists>env. rendered organization at p = Inr env)}"
    by (cases "rendered organization at q") (simp_all add: report_one_def)
  then show ?case using Cons.IH[of "report_one organization at l s q"] by auto
qed simp

lemma report_wakes:
  "set (sb_wake_recipients (foldl (report_one organization at l) s batch)) = set (sb_wake_recipients s)
     \<union> (\<Union>q \<in> set batch. case rendered organization at q of Inl _ \<Rightarrow> {} | Inr env \<Rightarrow> set (pending_of l env))"
proof (induction batch arbitrary: s)
  case (Cons q batch)
  have "set (sb_wake_recipients (report_one organization at l s q)) = set (sb_wake_recipients s)
      \<union> (case rendered organization at q of Inl _ \<Rightarrow> {} | Inr env \<Rightarrow> set (pending_of l env))"
    by (cases "rendered organization at q") (simp_all add: report_one_def)
  then show ?case using Cons.IH[of "report_one organization at l s q"] by auto
qed simp

text \<open>
  C7. A reminder that falls due reaches its person. After a pass in which it newly fires, the drain stages its
  effect: the person's row for that occurrence is in the mailbox, the effect is reported as delivered, and
  unless the row was already closed the person is among those to wake. A row the staging wrote is pending
  and carries the envelope of one of the drained effects.
\<close>

theorem a_due_reminder_reaches_its_person:
  assumes "fire_all now at (d, rep) ids = Some (Inr (d', rep'))" "now < i64_max" "distinct ids" "own_ids (dr_ledger d)"
    and "i \<in> set ids" "newly now (dr_ledger d) i" "om_get (sd_reminders (dr_ledger d)) i = Some r"
    and "effects_shape (dr_ledger d')"
    and "stage_batch organization (drain_requests (dr_ledger d')) l = (l', staged)"
  defines "eid \<equiv> fired_id now (dr_ledger d) i"
  shows "eid \<in> set (sb_delivered_envelopes staged)
    \<and> (\<exists>row. mailbox l' (eid @ ''@'' @ rd_person_id r) = Some row
          \<and> (row_state row = Some Pending \<longrightarrow> rd_person_id r \<in> set (sb_wake_recipients staged))
          \<and> (mailbox l (eid @ ''@'' @ rd_person_id r) = None \<longrightarrow> row_state row = Some Pending
               \<and> (\<exists>e env. effect_of (dr_ledger d') (fx_id e) = Some e
                    \<and> rendered organization (iso_millis (lg_now l)) (request_of e) = Inr env
                    \<and> mb_envelope row = env \<and> mb_person row \<in> set (env_recipients env))))"
proof -
  let ?L = "dr_ledger d'" and ?at = "iso_millis (lg_now l)" and ?batch = "drain_requests (dr_ledger d')"
  have ids: "fx_id e = k" if "effect_of ?L k = Some e" for k e using assms(8) that by (simp add: effects_shape_def)
  from fire_all_does[OF assms(1-4)] assms(5,6) obtain e where e: "effect_of ?L eid = Some e" "fired_effect now (dr_ledger d) i e"
    unfolding eid_def by blast
  then have fx: "fx_id e = eid" "fx_kind e = REMINDER_EFFECT_KIND" "fx_status e = Effect_Pending" "fx_payload e = reminder_payload r"
    using assms(7) by (auto simp: fired_effect_def eid_def)
  have "eid \<in> set (su_effect_order ?L)" using assms(8) e(1) by (simp add: effects_shape_def om_keys_iff effect_of_def)
  then have q: "request_of e \<in> set ?batch" using e(1) fx(3) by (auto simp: drained)
  let ?env = "reminder_envelope organization ?at r eid"
  have env: "rendered organization ?at (request_of e) = Inr ?env"
    by (simp add: rendered_def request_of_def fx reminder_renders)
  have to: "row_id ?env (rd_person_id r) = eid @ ''@'' @ rd_person_id r" "env_recipients ?env = [rd_person_id r]"
    by (simp_all add: reminder_envelope_def row_id_def)
  note stage = stage_all[OF assms(9)[unfolded stage_batch_def]]
  then have "filed l' ?env" using q env by (auto simp: all_filed_def)
  then obtain row where row: "mailbox l' (eid @ ''@'' @ rd_person_id r) = Some row" using to by (auto simp: filed_def)
  have staged: "staged = foldl (report_one organization ?at l') \<lparr>sb_delivered_envelopes = [], sb_failed = [], sb_wake_recipients = []\<rparr> ?batch"
    using stage by blast
  have a: "eid \<in> set (sb_delivered_envelopes staged)"
    unfolding staged report_delivers using q env fx(1) by (force simp: request_of_def)
  have b: "rd_person_id r \<in> set (sb_wake_recipients staged)" if "row_state row = Some Pending"
  proof -
    have "rd_person_id r \<in> set (pending_of l' ?env)" using that row to by (simp add: pending_of_def is_pending_def)
    then show ?thesis unfolding staged report_wakes using q env by force
  qed
  have c: "row_state row = Some Pending \<and> (\<exists>e env. effect_of ?L (fx_id e) = Some e
      \<and> rendered organization ?at (request_of e) = Inr env \<and> mb_envelope row = env \<and> mb_person row \<in> set (env_recipients env))"
    if new: "mailbox l (eid @ ''@'' @ rd_person_id r) = None"
  proof -
    from stage new row obtain q env p where w: "q \<in> set ?batch" "rendered organization ?at q = Inr env"
        "p \<in> set (env_recipients env)" "row = new_row env p (lg_now l)" by blast
    then obtain e k where ek: "q = request_of e" "effect_of ?L k = Some e" by (auto simp: drained)
    then have "effect_of ?L (fx_id e) = Some e" using ids by blast
    moreover have "row_state row = Some Pending" "mb_envelope row = env" "mb_person row = p"
      unfolding w(4) by (simp, simp_all add: new_row_def)
    ultimately show ?thesis using w(2,3) ek(1) by blast
  qed
  show ?thesis by (rule conjI[OF a], rule exI[of _ row], intro conjI row impI b c)
qed

end
