(* ===== verification/Supervision_Witnesses.thy ===== *)
theory Supervision_Witnesses
  imports Dispatch_Contract "HOL-Library.Countable"
begin

text \<open>
  Concrete instances of the supervision properties: a company whose head armed a recurring reminder for a
  worker, a faithful codec, and a history of commands.
\<close>

section \<open>A company with a reminder\<close>

definition sample_instant :: int where "sample_instant = 1767225660000"

definition sample_reminder :: reminder where
  "sample_reminder = \<lparr>rd_id = ''reminder:worker:1'', rd_person_id = ''worker'', rd_created_by_person_id = ''head'',
     rd_prompt = ''check the build'', rd_interval_ms = 3600000, rd_next_due_at = ''2026-01-01T00:00:00.000Z'',
     rd_status = ''active'', rd_recurring = True, rd_fire_count = 0, rd_created_at = ''2025-12-31T23:00:00.000Z'',
     rd_last_fired_at = None, rd_expires_at = None, rd_stopped_reason = None, rd_stopped_at = None, rd_extra = []\<rparr>"

definition sample_supervision :: supervision_ledger where
  "sample_supervision = \<lparr>sd_schema_version = 2, sd_organization = ''s'', sd_reminder_order = [''reminder:worker:1''],
     sd_reminders = [(''reminder:worker:1'', sample_reminder)], sd_created_at = ''2025-12-31T23:00:00.000Z'',
     sd_updated_at = ''2025-12-31T23:00:00.000Z'', su_effects = [], su_effect_order = [], su_next_effect_sequence = 1\<rparr>"

definition sample_draft :: supervision_draft where
  "sample_draft = \<lparr>dr_ledger = sample_supervision, dr_touched = []\<rparr>"

definition company :: "unit organization_manifest" where "company = sample_manifest Unit_Active"

definition after_departure :: "unit organization_manifest" where
  "after_departure = company\<lparr>mf_people := om_put ''head''
     ((the (om_get (mf_people company) ''head''))\<lparr>ps_employment_state := Departed\<rparr>) (mf_people company)\<rparr>"

lemma sample_shape: "sup_shape sample_supervision" "own_ids sample_supervision" "reminders_shape (dr_ledger sample_draft)"
  by (auto simp: sup_shape_def effects_shape_def reminders_shape_def sample_supervision_def effect_of_def om_wf_def
      om_keys_def own_ids_def sample_reminder_def om_get_def sample_draft_def)

lemma sample_wire: "sup_wire sample_supervision"
  by (auto simp: sup_wire_def document_wire_def sample_supervision_def om_wf_def effect_of_def om_get_def
      flat_beside_def sample_reminder_def)

lemma sample_valid: "validate_supervision sample_supervision company = Inr ()"
  unfolding company_def sample_manifest_def sample_department_def sample_person_def sample_supervision_def sample_reminder_def
  by code_simp

section \<open>Sheddings\<close>

theorem a_restructure_strands_nothing_witness:
  "validate_supervision (fst (shed_departed sample_supervision after_departure)) after_departure = Inr ()
   \<and> sd_reminders (fst (shed_departed sample_supervision after_departure)) = []"
proof -
  have "om_wf (su_effects sample_supervision)" "om_wf (sd_reminders sample_supervision)"
    by (simp_all add: sample_supervision_def om_wf_def)
  moreover have "mf_slug after_departure = mf_slug company" by (simp add: after_departure_def)
  ultimately have "validate_supervision (fst (shed_departed sample_supervision after_departure)) after_departure = Inr ()"
    using a_restructure_strands_nothing[OF _ _ sample_valid] by blast
  moreover have "sd_reminders (fst (shed_departed sample_supervision after_departure)) = []"
    unfolding after_departure_def company_def sample_manifest_def sample_department_def sample_person_def
      sample_supervision_def sample_reminder_def by code_simp
  ultimately show ?thesis by blast
qed

section \<open>A pass\<close>

abbreviation sample_at :: string where "sample_at \<equiv> ''2026-01-01T00:01:00.000Z''"

lemma sample_stamps:
  "iso_millis sample_instant = sample_at" "parse_iso_millis sample_at = Some sample_instant"
  "parse_iso_millis ''2026-01-01T00:00:00.000Z'' = Some 1767225600000"
  "iso_millis 1767229200000 = ''2026-01-01T01:00:00.000Z''"
  unfolding sample_instant_def by code_simp+

definition sample_fired :: string where "sample_fired = reminder_effect_id sample_reminder 1767225600000"

definition rearmed :: reminder where
  "rearmed = sample_reminder\<lparr>rd_fire_count := 1, rd_last_fired_at := Some sample_at,
     rd_next_due_at := ''2026-01-01T01:00:00.000Z''\<rparr>"

definition sample_after :: supervision_draft where
  "sample_after = \<lparr>dr_ledger = sample_supervision\<lparr>sd_reminders := [(''reminder:worker:1'', rearmed)],
       su_effects := [(sample_fired, new_effect sample_fired 1 REMINDER_EFFECT_KIND (reminder_payload sample_reminder) sample_at)],
       su_effect_order := [sample_fired], su_next_effect_sequence := 2\<rparr>,
     dr_touched = [sample_fired]\<rparr>"

lemma small_counts: "sat_add_u64 0 1 = 1" "sat_add_u64 1 1 = 2" "0 < u64_max"
proof -
  have "2 \<le> u64_max" unfolding u64_max_def by simp
  then show "sat_add_u64 0 1 = 1" "sat_add_u64 1 1 = 2" "0 < u64_max" by (simp_all add: sat_add_u64_def)
qed

lemma sample_rearm: "rearm sample_instant 1767225600000 sample_reminder = Some (rearmed, False)"
proof -
  have "next_occurrence (max 3600000 MIN_RECURRING_REMINDER_INTERVAL_MS) sample_instant 1767225600000 = Some 1767229200000"
    unfolding next_occurrence_def sample_instant_def
    by (subst while_option_unfold, subst while_option_unfold)
      (simp add: MIN_RECURRING_REMINDER_INTERVAL_MS_def ORGANIZATION_SETTLED_IDLE_STOP_LEASE_MS_def sat_add_i64_def
        clamp_i64_def i64_max_def i64_min_def)
  then have "next_occurrence (max (rd_interval_ms sample_reminder) MIN_RECURRING_REMINDER_INTERVAL_MS) sample_instant
      1767225600000 = Some 1767229200000" by (simp add: sample_reminder_def)
  moreover have "rd_recurring sample_reminder" "rd_expires_at sample_reminder = None" "rd_fire_count sample_reminder = 0"
    by (simp_all add: sample_reminder_def)
  ultimately show ?thesis
    unfolding rearm_def Let_def rearmed_def by (simp only: small_counts sample_stamps if_True if_False option.case bind.simps)
qed

lemma sample_pass:
  "evaluate_reminders_in sample_draft sample_at = Some (Inr (sample_after, \<lparr>rr_fired = [sample_fired], rr_retired = []\<rparr>))"
proof -
  have facts: "is_armed sample_reminder sample_instant" "rd_next_due_at sample_reminder = ''2026-01-01T00:00:00.000Z''"
    by (simp_all add: is_armed_def sample_reminder_def)
  have due: "due_instant sample_instant sample_reminder = 1767225600000" by (simp add: due_instant_def facts sample_stamps)
  have get: "om_get (sd_reminders (dr_ledger sample_draft)) ''reminder:worker:1'' = Some sample_reminder"
    by (simp add: sample_draft_def sample_supervision_def om_get_def)
  have late: "\<not> sample_instant < schedule_due_millis (rd_next_due_at sample_reminder)"
    by (simp add: schedule_due_millis_def facts sample_stamps sample_instant_def)
  let ?e = "new_effect sample_fired 1 REMINDER_EFFECT_KIND (reminder_payload sample_reminder) sample_at"
  let ?d = "\<lparr>dr_ledger = sample_supervision\<lparr>su_effects := [(sample_fired, ?e)], su_effect_order := [sample_fired],
      su_next_effect_sequence := 2\<rparr>, dr_touched = [sample_fired]\<rparr>"
  have enqueue: "enqueue_effect sample_fired REMINDER_EFFECT_KIND (reminder_payload sample_reminder) sample_at sample_draft = Inr (?d, True)"
    by (simp add: enqueue_effect_def effect_of_def sample_draft_def sample_supervision_def touch_effect_def sorted_set_def
        small_counts[simplified] Let_def)
  have "fire_if_due sample_instant sample_at (sample_draft, \<lparr>rr_fired = [], rr_retired = []\<rparr>) ''reminder:worker:1''
      = Some (Inr (update_reminder ''reminder:worker:1'' rearmed ?d, \<lparr>rr_fired = [sample_fired], rr_retired = []\<rparr>))"
    unfolding fire_due[OF get facts(1) late sample_rearm[folded due]] due sample_fired_def[symmetric] enqueue by simp
  moreover have "update_reminder ''reminder:worker:1'' rearmed ?d = sample_after"
    by (simp add: update_reminder_def sample_after_def sample_supervision_def)
  moreover have "sd_reminder_order (dr_ledger sample_draft) = [''reminder:worker:1'']"
    by (simp add: sample_draft_def sample_supervision_def)
  ultimately show ?thesis by (simp add: evaluate_reminders_in_def sample_stamps)
qed

lemma sample_newly:
  "newly sample_instant (dr_ledger sample_draft) ''reminder:worker:1''"
  "fired_id sample_instant (dr_ledger sample_draft) ''reminder:worker:1'' = sample_fired"
  "om_get (sd_reminders (dr_ledger sample_draft)) ''reminder:worker:1'' = Some sample_reminder"
  "own_ids (dr_ledger sample_draft)" "pass_instant sample_at = sample_instant"
proof -
  show ids: "own_ids (dr_ledger sample_draft)" using sample_shape(2) by (simp add: sample_draft_def)
  show "pass_instant sample_at = sample_instant" by (simp add: pass_instant_def sample_stamps)
  show get: "om_get (sd_reminders (dr_ledger sample_draft)) ''reminder:worker:1'' = Some sample_reminder"
    by (simp add: sample_draft_def sample_supervision_def om_get_def)
  have "parse_iso_millis (rd_next_due_at sample_reminder) = Some 1767225600000"
    by (simp add: sample_reminder_def sample_stamps)
  then have f: "fires sample_instant (dr_ledger sample_draft) ''reminder:worker:1''"
      "fired_id sample_instant (dr_ledger sample_draft) ''reminder:worker:1'' = sample_fired"
    by (simp_all add: fires_def fired_id_def get due_instant_def schedule_due_millis_def sample_fired_def)
      (simp_all add: sample_reminder_def is_armed_def sample_instant_def)
  then show "fired_id sample_instant (dr_ledger sample_draft) ''reminder:worker:1'' = sample_fired"
    "newly sample_instant (dr_ledger sample_draft) ''reminder:worker:1''"
    by (simp_all add: newly_def) (simp add: sample_draft_def sample_supervision_def effect_of_def)
qed

theorem reminder_pass_fires_what_is_due_witness:
  "\<exists>e. effect_of (dr_ledger sample_after) sample_fired = Some e \<and> fx_status e = Effect_Pending
     \<and> fx_payload e = reminder_payload sample_reminder"
  using reminder_pass_fires_what_is_due[OF sample_pass sample_shape(3) sample_newly(4)] sample_newly
  by (auto simp: fired_effect_def)

theorem a_second_pass_does_nothing_witness:
  "evaluate_reminders_in sample_after sample_at = Some (Inr (sample_after, \<lparr>rr_fired = [], rr_retired = []\<rparr>))"
proof (rule a_second_pass_does_nothing[OF sample_pass sample_shape(3)])
  show "rearmable (pass_instant sample_at) (dr_ledger sample_draft)"
    by (auto simp: rearmable_def pass_instant_def sample_stamps sample_draft_def sample_supervision_def om_get_def
        writable_instant_def sample_instant_def sample_reminder_def MIN_RECURRING_REMINDER_INTERVAL_MS_def
        ORGANIZATION_SETTLED_IDLE_STOP_LEASE_MS_def split: if_splits)
qed

section \<open>Arming and stopping\<close>

definition sample_request :: arm_request where
  "sample_request = \<lparr>ar_person_id = ''head'', ar_created_by_person_id = ''head'', ar_prompt = '' look '',
     ar_interval_ms = 60000, ar_recurring = False, ar_expires_at = None\<rparr>"

definition armed_reminder :: reminder where
  "armed_reminder = new_reminder ''reminder:head:1'' sample_request ''look'' sample_instant sample_at"

lemma sample_highest: "highest_reminder (dr_ledger sample_draft) ''head'' = 0"
  by (simp add: highest_reminder_def sample_draft_def sample_supervision_def map_filter_def strip_prefix_def starts_with_def)

lemma sample_arms: "arm_reminder_in company sample_request sample_draft sample_at
    = Inr (add_reminder ''reminder:head:1'' armed_reminder sample_draft, armed_reminder)"
proof -
  have terms: "arm_terms company sample_request sample_instant = Inr ''look''"
    unfolding company_def sample_manifest_def sample_request_def sample_instant_def by code_simp
  have known: "res_fold (check_known company) () [''head'', ''head''] = Inr ()" "ensure_reminder_scope company ''head'' ''head'' = Inr ()"
    unfolding company_def sample_manifest_def sample_person_def sample_department_def by code_simp+
  have none: "find (same_reminder sample_request ''look'') (reminders_in_order (dr_ledger sample_draft)) = None"
      "armed_for (dr_ledger sample_draft) ''head'' = 0"
    by (simp_all add: reminders_in_order_def sample_draft_def sample_supervision_def om_get_def map_filter_def
        same_reminder_def sample_request_def sample_reminder_def armed_for_def)
  have i: "next_reminder_id (dr_ledger sample_draft) ''head'' = ''reminder:head:1''"
    unfolding next_reminder_id_def Let_def highest_reminder_def[symmetric] sample_highest small_counts
    by code_simp
  have request: "ar_person_id sample_request = ''head''" "ar_created_by_person_id sample_request = ''head''"
    by (simp_all add: sample_request_def)
  show ?thesis
    unfolding arm_reminder_in_def Let_def sample_stamps option.case terms request known none res_bind.simps i
      armed_reminder_def by (simp add: REMINDERS_PER_PERSON_LIMIT_def)
qed

theorem arming_a_reminder_witness:
  "arm_reminder_in company sample_request (add_reminder ''reminder:head:1'' armed_reminder sample_draft) sample_at
     = Inr (add_reminder ''reminder:head:1'' armed_reminder sample_draft, armed_reminder)
   \<and> asked_for sample_request armed_reminder"
proof -
  have "highest_reminder (dr_ledger sample_draft) (ar_person_id sample_request) < u64_max"
    using small_counts(3) sample_highest by (simp add: sample_request_def)
  from arming_a_reminder[OF sample_arms sample_shape(3) this] show ?thesis by blast
qed

definition stopped_reminder :: reminder where
  "stopped_reminder = sample_reminder\<lparr>rd_status := ''stopped'', rd_stopped_reason := Some ''stopped'',
     rd_stopped_at := Some sample_at\<rparr>"

lemma sample_stops: "stop_reminder_in company ''worker'' ''worker'' ''reminder:worker:1'' sample_draft sample_at
    = Inr (update_reminder ''reminder:worker:1'' stopped_reminder sample_draft, stopped_reminder)"
proof -
  have "ensure_reminder_scope company ''worker'' ''worker'' = Inr ()"
    unfolding company_def sample_manifest_def sample_person_def sample_department_def by code_simp
  moreover have "om_get (sd_reminders (dr_ledger sample_draft)) ''reminder:worker:1'' = Some sample_reminder"
    by (simp add: sample_draft_def sample_supervision_def om_get_def)
  moreover have "rd_person_id sample_reminder = ''worker''" "rd_status sample_reminder = ''active''"
    by (simp_all add: sample_reminder_def)
  ultimately show ?thesis by (simp add: stop_reminder_in_def stopped_reminder_def Let_def)
qed

theorem stopping_a_reminder_witness:
  "rd_status stopped_reminder = ''stopped''
   \<and> \<not> fires sample_instant (dr_ledger (update_reminder ''reminder:worker:1'' stopped_reminder sample_draft)) ''reminder:worker:1''"
  using stopping_a_reminder[OF sample_stops, of sample_instant] by (simp add: stopped_reminder_def)

section \<open>A faithful codec\<close>

instance json :: countable by countable_datatype
instance effect_status :: countable by countable_datatype

definition reminder_tuple where
  "reminder_tuple (r :: reminder) = ((rd_id r, rd_person_id r, rd_created_by_person_id r, rd_prompt r, rd_interval_ms r, rd_next_due_at r,
     rd_status r, rd_recurring r), (rd_fire_count r, rd_created_at r, rd_last_fired_at r, rd_expires_at r,
     rd_stopped_reason r, rd_stopped_at r, rd_extra r))"

definition document_code :: "supervision_document \<Rightarrow> nat" where
  "document_code d = to_nat (sd_schema_version d, sd_organization d, sd_reminder_order d,
     map (\<lambda>e. (fst e, reminder_tuple (snd e))) (sd_reminders d), sd_created_at d, sd_updated_at d)"

definition effect_code :: "effect \<Rightarrow> nat" where
  "effect_code e = to_nat ((fx_id e, fx_sequence e, fx_kind e, fx_status e, fx_created_at e, fx_delivered_at e),
     (fx_superseded_at e, fx_delivery_failure_count e, fx_last_delivery_failure_at e, fx_failed_at e, fx_reopen_count e,
      fx_last_reopened_at e, fx_payload e))"

lemma inj_reminder_tuple: "inj reminder_tuple"
  by (rule injI, rule reminder.equality) (auto simp: reminder_tuple_def)

lemma inj_document_code: "inj document_code"
proof (rule injI)
  fix x y assume e: "document_code x = document_code y"
  have "inj (\<lambda>e :: string \<times> reminder. (fst e, reminder_tuple (snd e)))"
    using inj_reminder_tuple by (auto simp: inj_def)
  then have "map (\<lambda>e. (fst e, reminder_tuple (snd e))) (sd_reminders x) = map (\<lambda>e. (fst e, reminder_tuple (snd e))) (sd_reminders y)
      \<longleftrightarrow> sd_reminders x = sd_reminders y" by (rule inj_map_eq_map)
  then show "x = y" using e by (auto simp: document_code_def intro: supervision_document.equality)
qed

lemma inj_effect_code: "inj effect_code"
  by (rule injI, rule effect.equality) (auto simp: effect_code_def)

definition unary :: "nat \<Rightarrow> string" where "unary n = replicate n (CHR ''x'')"

definition sample_json :: supervision_codec where
  "sample_json = \<lparr>sj_dec = (\<lambda>s. Inr (inv document_code (length s))), sj_enc = (\<lambda>d. Inr (unary (document_code d))),
     sj_dec_effect = (\<lambda>s. Inr (inv effect_code (length s))), sj_enc_effect = (\<lambda>e. Inr (unary (effect_code e))),
     sj_dec_half = (\<lambda>s. Inl s), sj_dbg = rf_message\<rparr>"

lemma sample_json_faithful: "supervision_faithful sample_json"
  by (simp add: supervision_faithful_def sample_json_def unary_def inj_document_code inj_effect_code)

definition sample_ledgers :: ledgers where
  "sample_ledgers = store_sequence 1 (put_document 1 SUPERVISION_STORE_NAME
     (unary (document_code (supervision_document.truncate sample_supervision))) (ledgers_empty sample_instant))"

lemma sample_stored: "stored sample_json sample_ledgers sample_supervision"
proof -
  have "document_body sample_ledgers SUPERVISION_STORE_NAME = Some (unary (document_code (supervision_document.truncate sample_supervision)))"
    by (simp add: sample_ledgers_def store_sequence_def set_counter_def put_document_def document_body_def document_def store_simps)
  moreover have "rows_hold sample_json sample_ledgers sample_supervision"
    by (simp add: rows_hold_def row_holds_def sample_ledgers_def store_sequence_def set_counter_def put_document_def
        ledgers_empty_def effect_of_def sample_supervision_def)
  moreover have "stored_sequence sample_ledgers = su_next_effect_sequence sample_supervision"
    by (simp add: stored_sequence_def sample_ledgers_def store_sequence_def set_counter_def counter_def store_simps
        i64_max_def sample_supervision_def)
  ultimately show ?thesis
    using sample_shape(1) sample_wire by (simp add: stored_def sample_json_def unary_def inj_document_code)
qed

lemma sample_kept: "draft_of sample_supervision company = sample_draft" "\<not> snd (shed_departed sample_supervision company)"
proof -
  have "departed_reminders sample_supervision company = []"
    unfolding company_def sample_manifest_def sample_department_def sample_person_def sample_supervision_def
      sample_reminder_def by code_simp
  then show "draft_of sample_supervision company = sample_draft" "\<not> snd (shed_departed sample_supervision company)"
    by (simp_all add: draft_of_def sample_draft_def shed_departed_def)
qed

definition stopped_supervision :: supervision_ledger where
  "stopped_supervision = sample_supervision\<lparr>sd_reminders := [(''reminder:worker:1'', stopped_reminder)], sd_updated_at := sample_at\<rparr>"

lemma sample_answer:
  "answer_of company sample_instant (Stop ''worker'' ''worker'' ''reminder:worker:1'') sample_supervision = Inr stopped_supervision"
proof -
  let ?d = "update_reminder ''reminder:worker:1'' stopped_reminder sample_draft"
  have L: "(dr_ledger ?d)\<lparr>sd_updated_at := sample_at\<rparr> = stopped_supervision"
    by (simp add: update_reminder_def sample_draft_def stopped_supervision_def sample_supervision_def)
  have "validate_supervision stopped_supervision company = Inr ()"
    unfolding company_def sample_manifest_def sample_department_def sample_person_def stopped_supervision_def
      stopped_reminder_def sample_supervision_def sample_reminder_def by code_simp
  moreover have "dr_ledger ?d \<noteq> sample_supervision"
  proof
    assume "dr_ledger ?d = sample_supervision"
    then have "sd_reminders (dr_ledger ?d) = sd_reminders sample_supervision" by simp
    then have "stopped_reminder = sample_reminder" by (simp add: update_reminder_def sample_draft_def sample_supervision_def)
    then have "rd_status stopped_reminder = rd_status sample_reminder" by simp
    then show False by (simp add: stopped_reminder_def sample_reminder_def)
  qed
  ultimately show ?thesis
    by (simp add: answer_of_def inert_def sample_kept sample_stamps sample_stops forget_def L Let_def)
qed

theorem supervision_command_is_a_transaction_witness:
  "\<exists>l'. perform sample_json 1 company (Stop ''worker'' ''worker'' ''reminder:worker:1'') sample_ledgers = Inr (l', ())
     \<and> read_for_mutation_sup sample_json l' = Inr stopped_supervision"
proof -
  have now: "lg_now sample_ledgers = sample_instant"
    by (simp add: sample_ledgers_def store_sequence_def set_counter_def put_document_def ledgers_empty_def)
  note answer = sample_answer[folded now]
  let ?q = "Stop ''worker'' ''worker'' ''reminder:worker:1''"
  have "case answer_of company (lg_now sample_ledgers) ?q sample_supervision of
      Inl e \<Rightarrow> perform sample_json 1 company ?q sample_ledgers = Inl e
    | Inr L' \<Rightarrow> \<exists>l'. perform sample_json 1 company ?q sample_ledgers = Inr (l', ()) \<and> stored sample_json l' L'
        \<and> elsewhere_same sample_ledgers l' \<and> read_for_mutation_sup sample_json l' = Inr L'"
  proof (rule supervision_command_is_a_transaction[OF sample_json_faithful sample_stored])
    fix L' assume "answer_of company (lg_now sample_ledgers) ?q sample_supervision = Inr L'"
    then show "int (su_next_effect_sequence L') \<le> i64_max"
      using answer by (auto simp: stopped_supervision_def sample_supervision_def i64_max_def)
  qed
  then show ?thesis unfolding answer by auto
qed

theorem effects_only_move_forward_witness:
  "let history = [(company, sample_instant, Fail_Delivery sample_fired), (company, sample_instant, Reopen)];
       L = foldl supervision_step (dr_ledger sample_after) history
   in attempts_of L sample_fired = recorded_failures (dr_ledger sample_after) sample_fired history
     \<and> (\<exists>e'. effect_of L sample_fired = Some e' \<and> fx_kind e' = REMINDER_EFFECT_KIND
          \<and> effect_attempts e' \<le> 12 \<and> deliveries_tried e' \<le> 12)"
proof -
  let ?e = "new_effect sample_fired 1 REMINDER_EFFECT_KIND (reminder_payload sample_reminder) sample_at"
  let ?history = "[(company, sample_instant, Fail_Delivery sample_fired), (company, sample_instant, Reopen)]"
  have e: "effect_of (dr_ledger sample_after) i = (if i = sample_fired then Some ?e else None)" for i
    by (simp add: effect_of_def sample_after_def om_get_def)
  have nil: "flat_beside own []" for own by (simp add: flat_beside_def)
  have "supervision_inv (dr_ledger sample_after)"
    unfolding supervision_inv_def sup_shape_def effects_shape_def sup_wire_def e
    by (auto simp: sample_after_def sample_supervision_def new_effect_def om_wf_def om_keys_def reminders_shape_def
        effect_wire_def reminder_payload_wire document_wire_def om_get_def nil rearmed_def
        effect_good_def count_of_def SUPERVISION_EFFECT_DELIVERY_ATTEMPT_LIMIT_def)
      (simp add: sample_reminder_def nil)
  note forward = effects_only_move_forward[OF this, of ?history]
  have "attempts_of (dr_ledger sample_after) sample_fired = 0"
    using e by (simp add: attempts_of_def new_effect_def effect_attempts_def count_of_def)
  then have "attempts_of (foldl supervision_step (dr_ledger sample_after) ?history) sample_fired
      = recorded_failures (dr_ledger sample_after) sample_fired ?history"
    using forward[THEN conjunct2, THEN conjunct2, THEN conjunct1, THEN spec[of _ sample_fired]] by (simp only: add_0)
  moreover obtain e' where e': "effect_of (foldl supervision_step (dr_ledger sample_after) ?history) sample_fired = Some e'"
      "fx_kind e' = fx_kind ?e" "effect_attempts e' \<le> 12"
    using forward[THEN conjunct2, THEN conjunct1, rule_format, of sample_fired ?e] e by auto
  moreover have "deliveries_tried e' \<le> 12"
    using forward[THEN conjunct2, THEN conjunct2, THEN conjunct2, THEN conjunct2, rule_format, OF e'(1)] .
  ultimately show ?thesis unfolding Let_def by (auto simp: new_effect_def simp del: foldl_Cons foldl.simps recorded_failures.simps)
qed

section \<open>Delivery\<close>

theorem staging_twice_is_staging_once_witness:
  "stage_batch ''s'' [request_of (new_effect ''e'' 1 REMINDER_EFFECT_KIND (reminder_payload sample_reminder) sample_at)]
     (set_now 9 (fst (stage_batch ''s'' [request_of (new_effect ''e'' 1 REMINDER_EFFECT_KIND (reminder_payload sample_reminder) sample_at)]
        sample_ledgers)))
   = (set_now 9 (fst (stage_batch ''s'' [request_of (new_effect ''e'' 1 REMINDER_EFFECT_KIND (reminder_payload sample_reminder) sample_at)]
        sample_ledgers)),
      snd (stage_batch ''s'' [request_of (new_effect ''e'' 1 REMINDER_EFFECT_KIND (reminder_payload sample_reminder) sample_at)]
        sample_ledgers))"
  by (rule staging_twice_is_staging_once) simp

theorem a_due_reminder_reaches_its_person_witness:
  "sample_fired \<in> set (sb_delivered_envelopes (snd (stage_batch ''s'' (drain_requests (dr_ledger sample_after)) sample_ledgers)))
   \<and> (\<exists>row. mailbox (fst (stage_batch ''s'' (drain_requests (dr_ledger sample_after)) sample_ledgers))
        (sample_fired @ ''@worker'') = Some row \<and> row_state row = Some Pending)"
proof -
  have run: "fire_all sample_instant sample_at (sample_draft, \<lparr>rr_fired = [], rr_retired = []\<rparr>) [''reminder:worker:1'']
      = Some (Inr (sample_after, \<lparr>rr_fired = [sample_fired], rr_retired = []\<rparr>))"
    using pass_runs[OF sample_pass] by (simp add: sample_newly(5)) (simp add: sample_draft_def sample_supervision_def)
  have now: "sample_instant < i64_max" by (simp add: sample_instant_def i64_max_def)
  have shape: "effects_shape (dr_ledger sample_after)"
    by (auto simp: effects_shape_def sample_after_def sample_supervision_def effect_of_def om_wf_def om_keys_def om_get_def
        new_effect_def)
  have one: "distinct [''reminder:worker:1'']" "''reminder:worker:1'' \<in> set [''reminder:worker:1'']" by simp_all
  have empty: "mailbox sample_ledgers rid = None" for rid
    by (simp add: sample_ledgers_def store_sequence_def set_counter_def put_document_def ledgers_empty_def mailbox_def)
  have who: "rd_person_id sample_reminder = ''worker''" by (simp add: sample_reminder_def)
  from a_due_reminder_reaches_its_person[OF run now one(1) sample_newly(4) one(2) sample_newly(1,3) shape prod.collapse[symmetric],
      of "''s''" sample_ledgers]
  show ?thesis unfolding sample_newly(2) who by (auto simp: empty)
qed

end
