(* ===== verification/Crash_Loop.thy ===== *)
theory Crash_Loop
  imports Chief_Prelude
begin

text \<open>
  The actuator's crash loop (\<open>chief-cli/src/actuate/crash_loop.rs\<close>): it counts the consecutive failed boots
  of each person from what two successive passes observe, delays the next attempt, and reports to the screen.
  A \<open>Duration\<close> and an \<open>Instant\<close> are nanoseconds; the loop over the failures doubles the delay up to the
  ceiling, so its saturation is never reached.
\<close>

section \<open>The delay\<close>

definition FIRST_RETRY_DELAY :: nat where "FIRST_RETRY_DELAY = 500 * 1000000"
definition RETRY_BACKOFF_FACTOR :: nat where "RETRY_BACKOFF_FACTOR = 2"
definition MAX_RETRY_DELAY :: nat where "MAX_RETRY_DELAY = 10 * 1000000000"

fun grow_delay :: "nat \<Rightarrow> nat \<Rightarrow> nat" where
  "grow_delay 0 delay = delay"
| "grow_delay (Suc n) delay = (if MAX_RETRY_DELAY \<le> delay then delay else grow_delay n (delay * RETRY_BACKOFF_FACTOR))"

definition retry_delay :: "nat \<Rightarrow> nat" where
  "retry_delay failures = (if failures = 0 then 0 else min (grow_delay (failures - 1) FIRST_RETRY_DELAY) MAX_RETRY_DELAY)"

section \<open>The registry\<close>

record attempts =
  at_failures :: nat
  at_launch_hash :: string
  at_first_failed_at :: nat
  at_last_failed_at :: nat
  at_last_error :: "string option"

record crash_loop =
  cl_people :: "(string, attempts) omap"
  cl_pending :: "string list"
  cl_panes :: "(string, string) omap"
  cl_previous_pass_failed :: bool

definition crash_loop_new :: crash_loop where
  "crash_loop_new = \<lparr>cl_people = [], cl_pending = [], cl_panes = [], cl_previous_pass_failed = False\<rparr>"

definition NO_ERROR_LEARNED :: string where
  "NO_ERROR_LEARNED = ''the pane the actuator started for them was gone by the next converge pass, so their process ''
     @ ''exited during start-up; their own launch is where to look''"

record crash_report =
  cp_failures :: nat
  cp_elapsed :: nat
  cp_retry_in :: nat
  cp_last_error :: "string option"

definition report_cause :: "crash_report \<Rightarrow> string" where
  "report_cause r = (case cp_last_error r of Some detail \<Rightarrow> if trim detail \<noteq> [] then detail else NO_ERROR_LEARNED
     | None \<Rightarrow> NO_ERROR_LEARNED)"

definition counted :: "string \<Rightarrow> nat \<Rightarrow> attempts option \<Rightarrow> attempts" where
  "counted launch_hash now entry =
     (let e = (case entry of Some e \<Rightarrow> e | None \<Rightarrow> \<lparr>at_failures = 0, at_launch_hash = launch_hash,
            at_first_failed_at = now, at_last_failed_at = now, at_last_error = None\<rparr>);
          e = (if at_launch_hash e \<noteq> launch_hash
               then e\<lparr>at_launch_hash := launch_hash, at_failures := 0, at_first_failed_at := now, at_last_error := None\<rparr> else e);
          e = (if at_failures e = 0 then e\<lparr>at_first_failed_at := now\<rparr> else e)
      in e\<lparr>at_failures := sat_add_u32 (at_failures e) 1, at_last_failed_at := now\<rparr>)"

definition crash_fail :: "string \<Rightarrow> string \<Rightarrow> nat \<Rightarrow> crash_loop \<Rightarrow> crash_loop" where
  "crash_fail person_id launch_hash now c =
     c\<lparr>cl_people := om_put person_id (counted launch_hash now (om_get (cl_people c) person_id)) (cl_people c)\<rparr>"

definition forget_person :: "string \<Rightarrow> crash_loop \<Rightarrow> crash_loop" where
  "forget_person person_id c = c\<lparr>cl_people := om_del person_id (cl_people c)\<rparr>"

text \<open>The verdict on a person spawned in the previous pass.\<close>

definition judge_spawned ::
  "(string, string) omap \<Rightarrow> (string, string) omap \<Rightarrow> nat \<Rightarrow> crash_loop \<Rightarrow> string \<Rightarrow> crash_loop" where
  "judge_spawned desired seen now c person_id = (case om_get desired person_id of
     None \<Rightarrow> forget_person person_id c
   | Some launch_hash \<Rightarrow>
       if om_has seen person_id then c
       else if cl_previous_pass_failed c then c
       else crash_fail person_id launch_hash now c)"

text \<open>The verdict on a person by the pane, against the pane of the previous pass.\<close>

definition judge_pane :: "(string, string) omap \<Rightarrow> nat \<Rightarrow> crash_loop \<Rightarrow> string \<times> string \<Rightarrow> crash_loop" where
  "judge_pane desired now c entry = (case om_get desired (fst entry) of
     None \<Rightarrow> c
   | Some launch_hash \<Rightarrow> (case om_get (cl_panes c) (fst entry) of
        None \<Rightarrow> c
      | Some previous \<Rightarrow>
          if previous = snd entry then forget_person (fst entry) c
          else if \<not> cl_previous_pass_failed c then crash_fail (fst entry) launch_hash now c
          else c))"

definition crash_observed ::
  "(string, string) omap \<Rightarrow> (string, string) omap \<Rightarrow> nat \<Rightarrow> crash_loop \<Rightarrow> crash_loop" where
  "crash_observed desired seen now c =
     (let judged = foldl (judge_spawned desired seen now) (c\<lparr>cl_pending := []\<rparr>) (cl_pending c);
          walked = foldl (judge_pane desired now) judged seen
      in walked\<lparr>cl_panes := seen,
           cl_people := filter (\<lambda>e. om_get desired (fst e) = Some (at_launch_hash (snd e))) (cl_people walked)\<rparr>)"

definition note_error :: "string \<Rightarrow> string \<Rightarrow> crash_loop \<Rightarrow> crash_loop" where
  "note_error person_id detail c =
     c\<lparr>cl_people := om_adjust person_id (\<lambda>e. e\<lparr>at_last_error := Some detail\<rparr>) (cl_people c)\<rparr>"

definition spawning :: "string list \<Rightarrow> crash_loop \<Rightarrow> crash_loop" where
  "spawning people c = c\<lparr>cl_pending := people\<rparr>"

definition pass_failed :: "bool \<Rightarrow> crash_loop \<Rightarrow> crash_loop" where
  "pass_failed failed c = c\<lparr>cl_previous_pass_failed := failed\<rparr>"

definition retry_due :: "crash_loop \<Rightarrow> string \<Rightarrow> nat \<Rightarrow> bool" where
  "retry_due c person_id now \<longleftrightarrow> (case om_get (cl_people c) person_id of
     None \<Rightarrow> True | Some e \<Rightarrow> retry_delay (at_failures e) \<le> now - at_last_failed_at e)"

definition waiting :: "crash_loop \<Rightarrow> nat \<Rightarrow> string list" where
  "waiting c now = map fst (filter (\<lambda>e. \<not> retry_due c (fst e) now) (cl_people c))"

definition crash_reports :: "crash_loop \<Rightarrow> nat \<Rightarrow> (string, crash_report) omap" where
  "crash_reports c now = om_map (\<lambda>e. \<lparr>cp_failures = at_failures e, cp_elapsed = now - at_first_failed_at e,
     cp_retry_in = retry_delay (at_failures e) - (now - at_last_failed_at e), cp_last_error = at_last_error e\<rparr>) (cl_people c)"

definition human_duration :: "nat \<Rightarrow> string" where
  "human_duration duration =
     (let seconds = duration div 1000000000; minutes = seconds div 60
      in if seconds = 0 then show_nat (duration mod 1000000000 div 1000000) @ ''ms''
         else if seconds < 60 then show_nat seconds @ ''s''
         else if minutes < 60 then show_nat minutes @ ''m '' @ show_nat (seconds mod 60) @ ''s''
         else show_nat (minutes div 60) @ ''h '' @ show_nat (minutes mod 60) @ ''m'')"

definition crash_loop_line :: "string \<Rightarrow> string \<Rightarrow> crash_report \<Rightarrow> string" where
  "crash_loop_line company person_id r =
     company @ '': '' @ quoted person_id @ '' has failed to stay up '' @ show_nat (cp_failures r)
     @ '' times in a row over '' @ human_duration (cp_elapsed r) @ ''; retrying in '' @ human_duration (cp_retry_in r)
     @ '' and for as long as chiefd wants them up. Last error: '' @ report_cause r"

section \<open>The curve\<close>

lemma grow_delay_closed:
  "0 < d \<Longrightarrow> min (grow_delay n d) MAX_RETRY_DELAY = min (d * 2 ^ n) MAX_RETRY_DELAY"
proof (induction n arbitrary: d)
  case (Suc n)
  show ?case
  proof (cases "MAX_RETRY_DELAY \<le> d")
    case True
    then have "MAX_RETRY_DELAY \<le> d * 2 ^ Suc n" by (rule order_trans) simp
    with True show ?thesis by (simp add: min_absorb2)
  next
    case False
    then show ?thesis using Suc.IH[of "d * 2"] Suc.prems by (simp add: RETRY_BACKOFF_FACTOR_def mult.assoc)
  qed
qed simp

lemma retry_delay_closed: "retry_delay (Suc n) = min (FIRST_RETRY_DELAY * 2 ^ n) MAX_RETRY_DELAY"
  by (simp add: retry_delay_def grow_delay_closed FIRST_RETRY_DELAY_def)

lemma retry_delay_le: "retry_delay n \<le> MAX_RETRY_DELAY"
  by (simp add: retry_delay_def)

lemma retry_delay_mono: "m \<le> n \<Longrightarrow> retry_delay m \<le> retry_delay n"
  by (cases m; cases n) (auto simp: retry_delay_closed retry_delay_def[of 0] min_le_iff_disj intro!: power_increasing)

lemma retry_delay_ceiling: "6 \<le> n \<Longrightarrow> retry_delay n = MAX_RETRY_DELAY"
proof -
  assume "6 \<le> n"
  then have "retry_delay (Suc 5) \<le> retry_delay n" by (intro retry_delay_mono) simp
  moreover have "retry_delay (Suc 5) = MAX_RETRY_DELAY"
    unfolding retry_delay_closed FIRST_RETRY_DELAY_def MAX_RETRY_DELAY_def by simp
  ultimately show ?thesis using retry_delay_le[of n] by simp
qed

section \<open>One pass, one person\<close>

text \<open>What a pass makes of a person, from what it saw of that person alone.\<close>

definition person_outcome ::
  "string option \<Rightarrow> string option \<Rightarrow> nat \<Rightarrow> bool \<Rightarrow> bool \<Rightarrow> string option \<Rightarrow> attempts option \<Rightarrow> attempts option" where
  "person_outcome wanted pane now failed spawned previous entry = (case wanted of
     None \<Rightarrow> None
   | Some launch_hash \<Rightarrow>
       (let judged = (case (pane, previous) of
            (None, _) \<Rightarrow> if spawned \<and> \<not> failed then Some (counted launch_hash now entry) else entry
          | (Some pane, None) \<Rightarrow> entry
          | (Some pane, Some previous) \<Rightarrow>
              if previous = pane then None
              else if \<not> failed then Some (counted launch_hash now entry) else entry)
        in case judged of None \<Rightarrow> None | Some e \<Rightarrow> if at_launch_hash e = launch_hash then Some e else None))"

lemma crash_fail_get [simp]:
  "om_get (cl_people (crash_fail p h now c)) k = (if k = p then Some (counted h now (om_get (cl_people c) p)) else om_get (cl_people c) k)"
  "om_get (cl_people (forget_person p c)) k = (if k = p then None else om_get (cl_people c) k)"
  by (simp_all add: crash_fail_def forget_person_def store_simps)

lemma judge_keeps [simp]:
  "cl_panes (judge_spawned desired seen now c p) = cl_panes c"
  "cl_previous_pass_failed (judge_spawned desired seen now c p) = cl_previous_pass_failed c"
  "cl_pending (judge_spawned desired seen now c p) = cl_pending c"
  "cl_panes (judge_pane desired now c e) = cl_panes c"
  "cl_previous_pass_failed (judge_pane desired now c e) = cl_previous_pass_failed c"
  "cl_pending (judge_pane desired now c e) = cl_pending c"
  by (simp_all add: judge_spawned_def judge_pane_def crash_fail_def forget_person_def split: option.splits)

definition spawned_outcome ::
  "(string, string) omap \<Rightarrow> (string, string) omap \<Rightarrow> nat \<Rightarrow> crash_loop \<Rightarrow> string \<Rightarrow> attempts option" where
  "spawned_outcome desired seen now c p = (case om_get desired p of None \<Rightarrow> None
     | Some h \<Rightarrow> if om_has seen p \<or> cl_previous_pass_failed c then om_get (cl_people c) p
         else Some (counted h now (om_get (cl_people c) p)))"

lemma judge_spawned_get:
  "om_get (cl_people (judge_spawned desired seen now c p)) k =
     (if k = p then spawned_outcome desired seen now c p else om_get (cl_people c) k)"
  by (simp add: judge_spawned_def spawned_outcome_def split: option.splits)

lemma judge_spawned_fold:
  assumes "distinct ps"
  shows "om_get (cl_people (foldl (judge_spawned desired seen now) c ps)) k =
      (if k \<in> set ps then spawned_outcome desired seen now c k else om_get (cl_people c) k)
    \<and> cl_panes (foldl (judge_spawned desired seen now) c ps) = cl_panes c
    \<and> cl_previous_pass_failed (foldl (judge_spawned desired seen now) c ps) = cl_previous_pass_failed c
    \<and> cl_pending (foldl (judge_spawned desired seen now) c ps) = cl_pending c"
  using assms
proof (induction ps arbitrary: c)
  case (Cons p ps)
  have same: "spawned_outcome desired seen now (judge_spawned desired seen now c p) k = spawned_outcome desired seen now c k"
    if "k \<noteq> p" for k
    using that by (simp add: spawned_outcome_def judge_spawned_get split: option.split)
  show ?case using Cons.IH[of "judge_spawned desired seen now c p"] Cons.prems same[of k]
    by (auto simp: judge_spawned_get)
qed simp

definition pane_outcome :: "(string, string) omap \<Rightarrow> nat \<Rightarrow> crash_loop \<Rightarrow> string \<Rightarrow> string \<Rightarrow> attempts option" where
  "pane_outcome desired now c p pane = (case om_get desired p of None \<Rightarrow> om_get (cl_people c) p
     | Some h \<Rightarrow> (case om_get (cl_panes c) p of None \<Rightarrow> om_get (cl_people c) p
        | Some previous \<Rightarrow> if previous = pane then None
            else if \<not> cl_previous_pass_failed c then Some (counted h now (om_get (cl_people c) p))
            else om_get (cl_people c) p))"

lemma judge_pane_get:
  "om_get (cl_people (judge_pane desired now c e)) k =
     (if k = fst e then pane_outcome desired now c k (snd e) else om_get (cl_people c) k)"
  by (auto simp: judge_pane_def pane_outcome_def split: option.splits)

lemma om_get_entry: "om_get ((p, v) # es) k = (if k = p then Some v else om_get es k)"
  by (simp add: om_get_def)

lemma judge_pane_fold:
  assumes "distinct (map fst es)"
  shows "om_get (cl_people (foldl (judge_pane desired now) c es)) k =
      (case om_get es k of Some pane \<Rightarrow> pane_outcome desired now c k pane | None \<Rightarrow> om_get (cl_people c) k)
    \<and> cl_previous_pass_failed (foldl (judge_pane desired now) c es) = cl_previous_pass_failed c
    \<and> cl_pending (foldl (judge_pane desired now) c es) = cl_pending c"
  using assms
proof (induction es arbitrary: c)
  case (Cons e es)
  have same: "pane_outcome desired now (judge_pane desired now c e) k pane = pane_outcome desired now c k pane"
    if "k \<noteq> fst e" for k pane
    using that by (simp add: pane_outcome_def judge_pane_get split: option.split)
  have absent: "om_get es (fst e) = None" using Cons.prems by (simp add: om_get_def map_of_eq_None_iff)
  obtain p pane where e: "e = (p, pane)" by (cases e)
  show ?case
    using Cons.IH[of "judge_pane desired now c e"] Cons.prems same[of k] absent
    by (cases "k = p") (auto simp: judge_pane_get e om_get_entry split: option.splits)
qed simp

lemma judges_wf:
  assumes "om_wf (cl_people c)"
  shows "om_wf (cl_people (foldl (judge_spawned desired seen now) c ps))" "om_wf (cl_people (foldl (judge_pane desired now) c es))"
proof -
  have "om_wf (cl_people (judge_spawned desired seen now c p))" "om_wf (cl_people (judge_pane desired now c e))"
    if "om_wf (cl_people c)" for c p e
    using that by (simp_all add: judge_spawned_def judge_pane_def crash_fail_def forget_person_def om_wf_put om_wf_del split: option.splits)
  then show "om_wf (cl_people (foldl (judge_spawned desired seen now) c ps))" "om_wf (cl_people (foldl (judge_pane desired now) c es))"
    using assms by (induction ps arbitrary: c, simp_all) (induction es arbitrary: c, simp_all)
qed

text \<open>A pass, person by person: nobody's count depends on anybody else.\<close>

lemma observed_person:
  assumes "om_wf (cl_people c)" "distinct (cl_pending c)" "om_wf seen"
  shows "om_get (cl_people (crash_observed desired seen now c)) p =
      person_outcome (om_get desired p) (om_get seen p) now (cl_previous_pass_failed c) (p \<in> set (cl_pending c))
        (om_get (cl_panes c) p) (om_get (cl_people c) p)"
    "om_wf (cl_people (crash_observed desired seen now c))" "cl_panes (crash_observed desired seen now c) = seen"
    "cl_pending (crash_observed desired seen now c) = []"
    "cl_previous_pass_failed (crash_observed desired seen now c) = cl_previous_pass_failed c"
proof -
  define judged where "judged = foldl (judge_spawned desired seen now) (c\<lparr>cl_pending := []\<rparr>) (cl_pending c)"
  define walked where "walked = foldl (judge_pane desired now) judged seen"
  have run: "crash_observed desired seen now c = walked\<lparr>cl_panes := seen,
      cl_people := filter (\<lambda>e. om_get desired (fst e) = Some (at_launch_hash (snd e))) (cl_people walked)\<rparr>"
    by (simp add: crash_observed_def Let_def judged_def walked_def)
  note j = judge_spawned_fold[OF assms(2), of desired seen now "c\<lparr>cl_pending := []\<rparr>", folded judged_def]
  note w = judge_pane_fold[OF om_wf_distinct[OF assms(3)], of desired now judged, folded walked_def]
  have wf: "om_wf (cl_people walked)" unfolding walked_def judged_def by (intro judges_wf) (simp add: assms(1))
  have "om_get (cl_people (crash_observed desired seen now c)) p = (case om_get (cl_people walked) p of None \<Rightarrow> None
      | Some e \<Rightarrow> if om_get desired p = Some (at_launch_hash e) then Some e else None)"
    unfolding run by (simp add: om_get_filter[OF wf] split: option.splits)
  then show "om_get (cl_people (crash_observed desired seen now c)) p =
      person_outcome (om_get desired p) (om_get seen p) now (cl_previous_pass_failed c) (p \<in> set (cl_pending c))
        (om_get (cl_panes c) p) (om_get (cl_people c) p)"
    using j[of p] w[of p]
    by (auto simp: person_outcome_def pane_outcome_def spawned_outcome_def om_has_def split: option.splits)
  show "om_wf (cl_people (crash_observed desired seen now c))" unfolding run by (simp add: om_wf_filter wf)
  show "cl_panes (crash_observed desired seen now c) = seen" unfolding run by simp
  show "cl_pending (crash_observed desired seen now c) = []" unfolding run using j w by simp
  show "cl_previous_pass_failed (crash_observed desired seen now c) = cl_previous_pass_failed c" unfolding run using j w by simp
qed

section \<open>What a pass counts\<close>

definition died :: "crash_loop \<Rightarrow> (string, string) omap \<Rightarrow> string \<Rightarrow> bool" where
  "died c seen p \<longleftrightarrow> \<not> cl_previous_pass_failed c
     \<and> (p \<in> set (cl_pending c) \<and> om_get seen p = None
        \<or> (\<exists>previous pane. om_get (cl_panes c) p = Some previous \<and> om_get seen p = Some pane \<and> pane \<noteq> previous))"

definition survived :: "crash_loop \<Rightarrow> (string, string) omap \<Rightarrow> string \<Rightarrow> bool" where
  "survived c seen p \<longleftrightarrow> om_get seen p \<noteq> None \<and> om_get (cl_panes c) p = om_get seen p"

definition run_length :: "string \<Rightarrow> attempts option \<Rightarrow> nat" where
  "run_length launch_hash entry = (case entry of None \<Rightarrow> 0 | Some e \<Rightarrow> if at_launch_hash e = launch_hash then at_failures e else 0)"

lemma counted_fields:
  "at_launch_hash (counted h now entry) = h" "at_last_failed_at (counted h now entry) = now"
  "at_failures (counted h now entry) = sat_add_u32 (run_length h entry) 1"
  by (auto simp: counted_def Let_def run_length_def split: option.splits)

lemma counted_first:
  "at_first_failed_at (counted h now entry) = (case entry of
     Some e \<Rightarrow> if at_launch_hash e = h \<and> at_failures e \<noteq> 0 then at_first_failed_at e else now | None \<Rightarrow> now)"
  by (auto simp: counted_def Let_def split: option.splits)

text \<open>
  C22. A pass counts exactly the deaths. Somebody nobody wants is forgotten; a wanted person whose pane is the
  one of the pass before starts again from nothing; one whose process died, in a pass the previous one did
  not break off, has one more failure at the launch that is wanted now, counted from one if that launch is
  new; and everybody else is as before. A pass that broke off charges nobody.
\<close>

theorem a_pass_counts_exactly_the_deaths:
  assumes "om_wf (cl_people c)" "distinct (cl_pending c)" "om_wf seen"
    and "after = om_get (cl_people (crash_observed desired seen now c)) p"
  shows "case om_get desired p of
      None \<Rightarrow> after = None
    | Some h \<Rightarrow>
        if survived c seen p then after = None
        else if died c seen p then
          (\<exists>e. after = Some e \<and> at_launch_hash e = h \<and> at_last_failed_at e = now
             \<and> at_failures e = sat_add_u32 (run_length h (om_get (cl_people c) p)) 1)
        else after = (case om_get (cl_people c) p of None \<Rightarrow> None | Some e \<Rightarrow> if at_launch_hash e = h then Some e else None)"
proof (cases "om_get desired p")
  case (Some h)
  show ?thesis
    unfolding assms(4) observed_person(1)[OF assms(1-3)] Some
    by (cases "om_get seen p"; cases "om_get (cl_panes c) p")
      (auto simp: person_outcome_def survived_def died_def counted_fields)
qed (simp add: assms(4) observed_person(1)[OF assms(1-3)] person_outcome_def)

section \<open>Histories\<close>

datatype crash_event =
    Observed "(string, string) omap" "(string, string) omap" nat
  | Note string string
  | Spawning "string list"
  | Pass_Failed bool

fun crash_step :: "crash_loop \<Rightarrow> crash_event \<Rightarrow> crash_loop" where
  "crash_step c (Observed desired seen now) = crash_observed desired seen now c"
| "crash_step c (Note p detail) = note_error p detail c"
| "crash_step c (Spawning ps) = spawning ps c"
| "crash_step c (Pass_Failed failed) = pass_failed failed c"

fun event_ok :: "crash_event \<Rightarrow> bool" where
  "event_ok (Observed desired seen now) \<longleftrightarrow> om_wf seen"
| "event_ok (Spawning ps) \<longleftrightarrow> distinct ps"
| "event_ok _ \<longleftrightarrow> True"

definition crash_wf :: "crash_loop \<Rightarrow> bool" where
  "crash_wf c \<longleftrightarrow> om_wf (cl_people c) \<and> distinct (cl_pending c) \<and> om_wf (cl_panes c)"

lemma crash_step_wf: "crash_wf c \<Longrightarrow> event_ok ev \<Longrightarrow> crash_wf (crash_step c ev)"
  by (cases ev) (auto simp: crash_wf_def observed_person note_error_def spawning_def pass_failed_def om_wf_adjust)

text \<open>The machine of one person: what it sees of an event, and its state.\<close>

datatype person_view =
    Saw "string option" "string option" nat
  | Told string
  | Spawned bool
  | Broke_Off bool
  | Nothing

fun view :: "string \<Rightarrow> crash_event \<Rightarrow> person_view" where
  "view p (Observed desired seen now) = Saw (om_get desired p) (om_get seen p) now"
| "view p (Note q detail) = (if q = p then Told detail else Nothing)"
| "view p (Spawning ps) = Spawned (p \<in> set ps)"
| "view p (Pass_Failed failed) = Broke_Off failed"

record person_boots =
  pb_entry :: "attempts option"
  pb_spawned :: bool
  pb_pane :: "string option"
  pb_failed :: bool

fun person_step :: "person_boots \<Rightarrow> person_view \<Rightarrow> person_boots" where
  "person_step s (Saw wanted pane now) =
     s\<lparr>pb_entry := person_outcome wanted pane now (pb_failed s) (pb_spawned s) (pb_pane s) (pb_entry s),
       pb_spawned := False, pb_pane := pane\<rparr>"
| "person_step s (Told detail) = s\<lparr>pb_entry := map_option (\<lambda>e. e\<lparr>at_last_error := Some detail\<rparr>) (pb_entry s)\<rparr>"
| "person_step s (Spawned b) = s\<lparr>pb_spawned := b\<rparr>"
| "person_step s (Broke_Off b) = s\<lparr>pb_failed := b\<rparr>"
| "person_step s Nothing = s"

definition boots_of :: "string \<Rightarrow> crash_loop \<Rightarrow> person_boots" where
  "boots_of p c = \<lparr>pb_entry = om_get (cl_people c) p, pb_spawned = p \<in> set (cl_pending c),
     pb_pane = om_get (cl_panes c) p, pb_failed = cl_previous_pass_failed c\<rparr>"

lemma step_boots:
  assumes "crash_wf c" "event_ok ev"
  shows "boots_of p (crash_step c ev) = person_step (boots_of p c) (view p ev)"
  using assms
  by (cases ev) (auto simp: boots_of_def crash_wf_def observed_person note_error_def spawning_def pass_failed_def store_simps)

text \<open>
  Nobody's retries depend on anybody else. After any history of passes, notes, spawns and broken-off
  passes, what the registry holds of a person is what the machine of that person alone makes of what it saw:
  one person's crash loop neither delays, counts against nor clears another's.
\<close>

theorem registry_is_person_by_person:
  assumes "\<forall>ev \<in> set history. event_ok ev"
  shows "boots_of p (foldl crash_step crash_loop_new history)
    = foldl person_step (boots_of p crash_loop_new) (map (view p) history)"
proof -
  have "boots_of p (foldl crash_step c history) = foldl person_step (boots_of p c) (map (view p) history)" if "crash_wf c" for c
    using assms that
    by (induction history arbitrary: c) (simp_all add: step_boots crash_step_wf)
  then show ?thesis by (simp add: crash_wf_def crash_loop_new_def)
qed

section \<open>Never given up\<close>

definition observed_at :: "crash_event list \<Rightarrow> nat set" where
  "observed_at history = {now. \<exists>desired seen. Observed desired seen now \<in> set history}"

definition entries_ok :: "nat set \<Rightarrow> crash_loop \<Rightarrow> bool" where
  "entries_ok instants c \<longleftrightarrow> (\<forall>p e. om_get (cl_people c) p = Some e \<longrightarrow> at_last_failed_at e \<in> instants \<and> 0 < at_failures e)"

lemma outcome_cases:
  assumes "person_outcome wanted pane now failed spawned previous entry = Some e"
  shows "entry = Some e \<or> at_last_failed_at e = now \<and> 0 < at_failures e"
proof -
  have "entry = Some e \<or> (\<exists>h. e = counted h now entry)"
    using assms by (auto simp: person_outcome_def Let_def split: option.splits if_splits) metis+
  then show ?thesis by (auto simp: counted_fields sat_add_u32_def u32_max_def)
qed

lemma entries_run:
  assumes "\<forall>ev \<in> set history. event_ok ev" "crash_wf c" "entries_ok instants c" "observed_at history \<subseteq> instants"
  shows "entries_ok instants (foldl crash_step c history) \<and> crash_wf (foldl crash_step c history)"
  using assms
proof (induction history arbitrary: c)
  case (Cons ev history)
  have "entries_ok instants (crash_step c ev)"
  proof (cases ev)
    case (Observed desired seen now)
    have now: "now \<in> instants" using Cons.prems(4) Observed by (auto simp: observed_at_def)
    have "at_last_failed_at e \<in> instants \<and> 0 < at_failures e"
      if e: "om_get (cl_people (crash_observed desired seen now c)) p = Some e" for p e
    proof -
      have "om_wf (cl_people c)" "distinct (cl_pending c)" "om_wf seen"
        using Cons.prems(1,2) Observed by (simp_all add: crash_wf_def)
      from outcome_cases[OF e[unfolded observed_person(1)[OF this]]] show ?thesis
        using now Cons.prems(3) by (auto simp: entries_ok_def)
    qed
    then show ?thesis by (simp add: Observed entries_ok_def)
  next
    case (Note p detail)
    then show ?thesis using Cons.prems(3)
      by (auto simp: entries_ok_def note_error_def store_simps)
  qed (use Cons.prems(3) in \<open>simp_all add: entries_ok_def spawning_def pass_failed_def\<close>)
  moreover have "crash_wf (crash_step c ev)" using Cons.prems(1,2) by (simp add: crash_step_wf)
  moreover have "observed_at history \<subseteq> instants" using Cons.prems(4) by (auto simp: observed_at_def)
  ultimately show ?case using Cons.IH Cons.prems(1) by simp
qed simp

text \<open>
  C23. Nobody is ever given up. After any history a person is due again ten seconds after their last counted
  failure, whatever their count; the screen never says longer; nobody waits who has not failed; and ten
  seconds after the last pass nobody waits at all.
\<close>

theorem crash_loop_never_gives_up:
  assumes "\<forall>ev \<in> set history. event_ok ev" "c = foldl crash_step crash_loop_new history"
  shows "(\<forall>p e. om_get (cl_people c) p = Some e \<longrightarrow> retry_due c p (at_last_failed_at e + MAX_RETRY_DELAY) \<and> 0 < at_failures e)
    \<and> (\<forall>p r now. om_get (crash_reports c now) p = Some r \<longrightarrow> cp_retry_in r \<le> MAX_RETRY_DELAY)
    \<and> (\<forall>p now. om_get (cl_people c) p = None \<longrightarrow> p \<notin> set (waiting c now))
    \<and> (\<forall>now. (\<forall>t \<in> observed_at history. t + MAX_RETRY_DELAY \<le> now) \<longrightarrow> waiting c now = [])"
proof -
  have "crash_wf crash_loop_new" "entries_ok (observed_at history) crash_loop_new"
    by (simp_all add: crash_wf_def crash_loop_new_def entries_ok_def)
  from entries_run[OF assms(1) this subset_refl] have ok: "entries_ok (observed_at history) c" "crash_wf c"
    by (simp_all add: assms(2))
  have due: "retry_due c p now" if "\<And>e. om_get (cl_people c) p = Some e \<Longrightarrow> at_last_failed_at e + MAX_RETRY_DELAY \<le> now" for p now
  proof (cases "om_get (cl_people c) p")
    case (Some e)
    have "retry_delay (at_failures e) \<le> now - at_last_failed_at e" using retry_delay_le[of "at_failures e"] that[OF Some] by linarith
    with Some show ?thesis by (simp add: retry_due_def)
  qed (simp add: retry_due_def)
  have "waiting c now = []" if "\<forall>t \<in> observed_at history. t + MAX_RETRY_DELAY \<le> now" for now
    using due that ok(1) by (auto simp: waiting_def filter_empty_conv entries_ok_def)
  moreover have "p \<notin> set (waiting c now)" if "om_get (cl_people c) p = None" for p now
    using that by (auto simp: waiting_def retry_due_def)
  moreover have "cp_retry_in r \<le> MAX_RETRY_DELAY" if "om_get (crash_reports c now) p = Some r" for p r now
    using that by (auto simp: crash_reports_def store_simps intro: order_trans[OF diff_le_self retry_delay_le])
  moreover have "retry_due c p (at_last_failed_at e + MAX_RETRY_DELAY) \<and> 0 < at_failures e"
    if "om_get (cl_people c) p = Some e" for p e
    using that ok(1) by (intro conjI due) (auto simp: entries_ok_def)
  ultimately show ?thesis by blast
qed

definition sample_passes :: "crash_event list" where
  "sample_passes = [Spawning [''ivo''], Observed [(''ivo'', ''h''), (''sasha'', ''h'')] [(''sasha'', ''%1'')] 1,
     Spawning [''ivo''], Note ''ivo'' ''no such file'', Observed [(''ivo'', ''h''), (''sasha'', ''h'')] [(''sasha'', ''%1'')] 2]"

lemma sample_passes_ok: "\<forall>ev \<in> set sample_passes. event_ok ev"
  by (simp add: sample_passes_def om_wf_def)

theorem crash_loop_never_gives_up_witness:
  "waiting (foldl crash_step crash_loop_new sample_passes) (2 + MAX_RETRY_DELAY) = []"
proof -
  have "\<forall>t \<in> observed_at sample_passes. t + MAX_RETRY_DELAY \<le> 2 + MAX_RETRY_DELAY"
    by (auto simp: observed_at_def sample_passes_def)
  then show ?thesis using crash_loop_never_gives_up[OF sample_passes_ok refl] by blast
qed

theorem registry_is_person_by_person_witness:
  "boots_of ''sasha'' (foldl crash_step crash_loop_new sample_passes)
     = \<lparr>pb_entry = None, pb_spawned = False, pb_pane = Some ''%1'', pb_failed = False\<rparr>"
proof -
  have "boots_of ''sasha'' (foldl crash_step crash_loop_new sample_passes)
      = foldl person_step (boots_of ''sasha'' crash_loop_new) (map (view ''sasha'') sample_passes)"
    by (rule registry_is_person_by_person[OF sample_passes_ok])
  then show ?thesis
    by (simp add: sample_passes_def boots_of_def crash_loop_new_def om_get_entry person_outcome_def)
qed

theorem a_pass_counts_exactly_the_deaths_witness:
  "\<exists>e. om_get (cl_people (crash_observed [(''ivo'', ''h'')] [] 5 (spawning [''ivo''] crash_loop_new))) ''ivo'' = Some e
     \<and> at_last_failed_at e = 5 \<and> at_failures e = 1"
proof -
  have "case om_get [(''ivo'', ''h'')] ''ivo'' of
      None \<Rightarrow> om_get (cl_people (crash_observed [(''ivo'', ''h'')] [] 5 (spawning [''ivo''] crash_loop_new))) ''ivo'' = None
    | Some h \<Rightarrow>
        if survived (spawning [''ivo''] crash_loop_new) [] ''ivo''
        then om_get (cl_people (crash_observed [(''ivo'', ''h'')] [] 5 (spawning [''ivo''] crash_loop_new))) ''ivo'' = None
        else if died (spawning [''ivo''] crash_loop_new) [] ''ivo'' then
          (\<exists>e. om_get (cl_people (crash_observed [(''ivo'', ''h'')] [] 5 (spawning [''ivo''] crash_loop_new))) ''ivo'' = Some e
             \<and> at_launch_hash e = h \<and> at_last_failed_at e = 5
             \<and> at_failures e = sat_add_u32 (run_length h (om_get (cl_people (spawning [''ivo''] crash_loop_new)) ''ivo'')) 1)
        else om_get (cl_people (crash_observed [(''ivo'', ''h'')] [] 5 (spawning [''ivo''] crash_loop_new))) ''ivo''
           = (case om_get (cl_people (spawning [''ivo''] crash_loop_new)) ''ivo'' of None \<Rightarrow> None
              | Some e \<Rightarrow> if at_launch_hash e = h then Some e else None)"
    by (rule a_pass_counts_exactly_the_deaths) (simp_all add: spawning_def crash_loop_new_def)
  moreover have "died (spawning [''ivo''] crash_loop_new) [] ''ivo''" "\<not> survived (spawning [''ivo''] crash_loop_new) [] ''ivo''"
    by (simp_all add: died_def survived_def spawning_def crash_loop_new_def)
  moreover have "sat_add_u32 0 1 = 1" by (simp add: sat_add_u32_def u32_max_def)
  ultimately show ?thesis by (auto simp: om_get_entry run_length_def spawning_def crash_loop_new_def)
qed

end
