(* ===== verification/Spec2Isabelle.thy ===== *)
theory Spec2Isabelle
  imports Isotime Write_Queue Writer Mailbox Converge_Safety Organization_Store Control_Authority Launch_Intent
    Activity_Contract Desired_Contract Pointer_Sweep Change_Feed Nonce_Store Maintenance_Recovery Plan_Effects
    Supervision_Witnesses Crash_Loop
begin

text \<open>
  A verification library of Chief (the Rust workspace \<open>src/apps/chiefd/crates\<close>): a daemon \<open>chiefd\<close> that
  keeps the ledgers of a company of agents in memory and in SQLite, and a client \<open>chief\<close> that makes a
  terminal server show who should be at work.

  \<^bold>\<open>The program.\<close> All writes of a company go through one writer thread. A caller enqueues a job; the queue
  orders jobs by class and bounds their wait; the writer runs a job on a copy of the ledgers, persists what
  changed in one transaction, and publishes the new snapshot and its events. The stores are commands over
  these ledgers: the organization manifest, the launch fence, the activity ledger with its transitions, the
  maintenance requests of the agents' sessions, the mailbox, the supervision ledger with its reminders and effects, the safety gate of the converge cycle. From
  manifest, activity and fence a projection publishes who should be running and with which launch hash. The
  client reads the roster and that set, places everybody in windows, observes the terminal and plans the
  steps that make it so.

  \<^bold>\<open>Theories and sources\<close> (paths under \<open>chiefd-core/src\<close> where no crate is named):
  \<^item> \<open>Chief_Prelude\<close>: machine arithmetic, strings, ordered maps, result folds, used by all.
    \<open>Errors\<close>: \<open>error.rs\<close>, \<open>polarity.rs\<close>. \<open>Isotime\<close>: \<open>isotime.rs\<close> and the renderer of \<open>chiefd-log\<close>.
  \<^item> \<open>Write_Queue\<close>: \<open>actor/queue.rs\<close>. \<open>Envelope\<close>, \<open>Ledger\<close>: the vocabulary of \<open>store/mailbox.rs\<close>,
    \<open>host_action.rs\<close>, \<open>ledger.rs\<close>. \<open>Company_Tables\<close>: the tables and the row transaction of \<open>store/rows_txn.rs\<close>, with the
    event feed and the shared counters. \<open>Writer\<close>: \<open>actor/writer.rs\<close>, \<open>store/persist_dispatch.rs\<close>.
    \<open>Mailbox\<close>: the operations of \<open>store/mailbox.rs\<close>.
  \<^item> \<open>Document_Slot\<close>, \<open>Converge_Safety\<close>, \<open>Launch_Intent\<close>: \<open>store/context.rs\<close>, \<open>store/converge_safety.rs\<close>,
    \<open>store/launch_intent.rs\<close>.
  \<^item> \<open>Organization\<close>, \<open>Organization_Store\<close>, \<open>Control_Authority\<close>: \<open>store/organization.rs\<close>,
    \<open>store/control_authority.rs\<close>.
  \<^item> \<open>Activity_Ledger\<close>, \<open>Activity_Store\<close>, \<open>Activity_Reconcile\<close>: \<open>store/activity.rs\<close>, its ledger, its commands,
    its demand reconciliation; \<open>Activity_Repair\<close>, \<open>Activity_Commands\<close>, \<open>Activity_Contract\<close>,
    \<open>Activity_Reconcile_Safety\<close> and \<open>Activity_Demand\<close> hold what they guarantee.
  \<^item> \<open>Desired_Runtime\<close>, \<open>Desired_Contract\<close>: \<open>runtime/project.rs\<close>, \<open>desired.rs\<close>, \<open>roster.rs\<close>, \<open>actuation.rs\<close>.
    \<open>Pointer_Sweep\<close>: \<open>runtime/pointer_sweep.rs\<close>.
  \<^item> \<open>Session_Maintenance\<close>, \<open>Maintenance_Lifecycle\<close>: \<open>store/session_maintenance.rs\<close>,
    \<open>store/session_maintenance_ops.rs\<close>, the maintenance commands of \<open>actor/session_lifecycle.rs\<close>;
    \<open>Maintenance_Contract\<close> and \<open>Maintenance_Recovery\<close> hold what they guarantee.
  \<^item> \<open>Supervision\<close>, \<open>Reminders\<close>, \<open>Supervision_Dispatch\<close>: \<open>store/supervision.rs\<close>, its \<open>delivery.rs\<close>,
    \<open>cycle.rs\<close>, \<open>reminders.rs\<close> and \<open>dispatch.rs\<close>, and the drain of \<open>chiefd-daemon/src/run.rs\<close>;
    \<open>Supervision_Contract\<close>, \<open>Supervision_Commands\<close>, \<open>Supervision_History\<close>, \<open>Reminders_Contract\<close>,
    \<open>Reminders_Arming\<close> and \<open>Dispatch_Contract\<close> hold what they guarantee, \<open>Supervision_Witnesses\<close> the instances.
  \<^item> \<open>Placement\<close>, \<open>Converge_Plan\<close>: \<open>roster.rs\<close>, \<open>placement.rs\<close>, \<open>actuate/desired.rs\<close> and \<open>actuate/plan.rs\<close> of
    \<open>chief-cli\<close>; \<open>Plan_Contract\<close> and \<open>Plan_Effects\<close> hold what a performed plan does. \<open>Crash_Loop\<close>:
    \<open>actuate/crash_loop.rs\<close>.
  \<^item> \<open>Change_Feed\<close>: \<open>chiefd-api/src/docstore/feed.rs\<close>. \<open>Nonce_Store\<close>: \<open>chiefd-api/src/authn/nonce.rs\<close>.

  \<^bold>\<open>How code is rendered.\<close> A struct is a record, an enum a datatype, a \<open>BTreeMap\<close> a sorted association list
  with its own lookup and insertion (\<open>omap\<close>), a \<open>String\<close> the list of its UTF-8 bytes. A fallible function
  answers \<open>error + value\<close>; a loop with early return is a fold over results, its mutable locals the fold's
  state. Where the source can panic the model answers \<open>None\<close>, and it is proved that it does not. Integers
  that saturate or wrap do so in the model; integers the source bounds elsewhere are \<open>nat\<close> or \<open>int\<close>.

  \<^bold>\<open>What the lemmas show.\<close> The queue serves each class in order, starves nobody, starts nothing late, and
  answers every caller once. The writer's job is all or nothing, its tables refine the snapshot and read
  back to it, the event feed stays numbered without gaps, and the incremental validation is the full one. A validated manifest is a tree with a chain of
  command, authority is that chain, and the store never holds another manifest. The launch fence is a set.
  Activity commands keep the ledger valid for the manifest, transitions only move forward, the
  reconciliation respects the fence and wakes who is asked for, and the published set is exactly those
  wanted. Maintenance requests move along their lifecycle, claims are exclusive, recovery leaves no dead
  claim, queueing is idempotent. A placed topology is well formed; its plan is refused only on ownership,
  seats exactly the desired people, respawns nobody else, kills nobody unpredicted but the strays of a window
  it closes, and leaves a company at rest alone, so
  that from roster and hashes to the terminal the set of people is the same. Feed replay is exact; login
  challenges are used once. Every supervision command is a transaction, effects only move forward, every
  failed delivery is counted and there are at most twelve, the reminder pass ends, fires what is due once and reaches the person's
  mailbox, staging again adds nothing. A pass of the actuator counts exactly the deaths it saw and nobody is
  ever given up. The safety gate trips on three failures and spaces the cycles.

  \<^bold>\<open>Parameters and hypotheses.\<close> JSON codecs, SHA-256, SQLite statements, closures and trait objects are
  arguments of the definitions that use them; so is the typed diff of each store's rows, which answers the
  rows it leaves and the entities it touched. Round trips assume the codec's own. Instants are assumed
  writable (years 0 to 9999) where a stamp is read back, the stamps of quiet agents readable for a
  reconciliation, the sequence numbers not exhausted, the numbered ids of maintenance requests within the
  length of their order (the commands keep it), and an observation of the terminal to name a window and a pane once and
  nothing of a session that is not there. The effect of a plan's step on the terminal is the specification
  \<open>Plan_Contract.perform\<close>, not a model of tmux. Loops that the source bounds by data recurse on it; the only
  unguarded climb (\<open>Desired_Runtime.active_walk\<close>) is a partial function proved to return on a tree.

  \<^bold>\<open>Not modelled.\<close> The SQL projections of the stores (their row readers and publishers), the HTTP surface and
  signature checking, processes, files and tmux, the sidebar's rendering, the daemons' start-up, the agent
  contracts' texts, and the TypeScript packages: input and output, or code outside the language modelled.
  The organization's own commands (\<open>store/org_ops.rs\<close>), the ingestion of the launcher's supervision text, the beacon's liveness and the sidebar's
  state machine are next.
\<close>

end
